(* ===== verification/Prelude.thy ===== *)
theory Prelude
  imports Main "HOL-Library.Word"
begin

unbundle bit_operations_syntax

text \<open>
  Shared vocabulary of the development: the machine types of the i386 kernel, the result type
  in which panics, endless loops and stray pointers are values, C strings as byte lists, and the
  word and list lemmas the components share.
\<close>

section \<open>Machine types\<close>

type_synonym u8 = "8 word"
type_synonym u16 = "16 word"
type_synonym u32 = "32 word"
type_synonym u64 = "64 word"

text \<open>Bytes addressed by a 32-bit address: the flat memory a pointer reads.\<close>

type_synonym mem = "u32 \<Rightarrow> u8"

text \<open>Facts the automation of several components uses.\<close>

named_theorems word_nat_simps \<open>rules that move machine words to natural numbers\<close>

section \<open>Results: panics, endless loops and stray accesses as values\<close>

datatype fault =
    Panic string  \<comment> \<open>the kernel called \<open>panic\<close> with this message and halts\<close>
  | Hang          \<comment> \<open>a loop or a lock acquisition that never ends\<close>
  | Wild          \<comment> \<open>an access outside every object of the program\<close>

datatype 'a res = Ok 'a | Fail fault

definition rbind :: "'a res \<Rightarrow> ('a \<Rightarrow> 'b res) \<Rightarrow> 'b res" where
  "rbind m f = (case m of Ok x \<Rightarrow> f x | Fail e \<Rightarrow> Fail e)"

lemma rbind_simps [simp]:
  "rbind (Ok x) f = f x"
  "rbind (Fail e) f = Fail e"
  by (simp_all add: rbind_def)

lemma rbind_Ok_iff: "rbind m f = Ok y \<longleftrightarrow> (\<exists>x. m = Ok x \<and> f x = Ok y)"
  by (cases m) auto

text \<open>A loop is a partial function into \<open>option\<close>; where it does not return, the caller hangs.\<close>

definition hang :: "'a res option \<Rightarrow> 'a res" where
  "hang r = (case r of None \<Rightarrow> Fail Hang | Some m \<Rightarrow> m)"

lemma hang_simps [simp]: "hang None = Fail Hang" "hang (Some m) = m"
  by (simp_all add: hang_def)

section \<open>C strings\<close>

text \<open>
  The text a character array holds is the part before its first NUL byte. A \<open>const char*\<close>
  argument is modelled by its text, a list without NUL bytes; an array inside a record is the
  whole list of its bytes.
\<close>

definition c_text :: "u8 list \<Rightarrow> u8 list" where
  "c_text bs = takeWhile (\<lambda>b. b \<noteq> 0) bs"

definition is_text :: "u8 list \<Rightarrow> bool" where
  "is_text s = list_all (\<lambda>b. b \<noteq> 0) s"

lemma is_text_simps [simp]:
  "is_text []"
  "is_text (b # s) \<longleftrightarrow> b \<noteq> 0 \<and> is_text s"
  "is_text (s @ t) \<longleftrightarrow> is_text s \<and> is_text t"
  by (simp_all add: is_text_def)

lemma is_text_c_text [simp]: "is_text (c_text bs)"
  by (auto simp: is_text_def c_text_def list_all_iff dest: set_takeWhileD)

lemma c_text_is_text [simp]: "is_text s \<Longrightarrow> c_text s = s"
  by (simp add: is_text_def c_text_def takeWhile_eq_all_conv list_all_iff)

lemma c_text_terminated: "is_text s \<Longrightarrow> c_text (s @ 0 # rest) = s"
  by (induction s) (auto simp: c_text_def)

lemma is_text_take [simp]: "is_text s \<Longrightarrow> is_text (take n s)"
  by (auto simp: is_text_def list_all_iff dest: in_set_takeD)

lemma is_text_drop [simp]: "is_text s \<Longrightarrow> is_text (drop n s)"
  by (auto simp: is_text_def list_all_iff dest: in_set_dropD)

text \<open>The bytes of a string literal.\<close>

definition lit :: "string \<Rightarrow> u8 list" where
  "lit s = map of_char s"

abbreviation (input) ch_slash :: u8 where "ch_slash \<equiv> 47"
abbreviation (input) ch_dot :: u8 where "ch_dot \<equiv> 46"
abbreviation (input) ch_space :: u8 where "ch_space \<equiv> 32"
abbreviation (input) ch_tab :: u8 where "ch_tab \<equiv> 9"
abbreviation (input) ch_quote :: u8 where "ch_quote \<equiv> 34"
abbreviation (input) ch_nl :: u8 where "ch_nl \<equiv> 10"

section \<open>Lists updated by index\<close>

text \<open>\<open>blit xs i ys\<close> is \<open>memcpy(xs + i, ys, length ys)\<close> for a destination with room for it.\<close>

definition blit :: "'a list \<Rightarrow> nat \<Rightarrow> 'a list \<Rightarrow> 'a list" where
  "blit xs i ys = take i xs @ ys @ drop (i + length ys) xs"

lemma length_blit [simp]: "i + length ys \<le> length xs \<Longrightarrow> length (blit xs i ys) = length xs"
  by (simp add: blit_def)

lemma blit_Nil [simp]: "blit xs i [] = xs"
  by (simp add: blit_def)

lemma nth_blit:
  "i + length ys \<le> length xs \<Longrightarrow> k < length xs \<Longrightarrow>
   blit xs i ys ! k = (if i \<le> k \<and> k < i + length ys then ys ! (k - i) else xs ! k)"
  by (auto simp: blit_def nth_append min_def)

lemma take_drop_blit [simp]:
  "i + length ys \<le> length xs \<Longrightarrow> take (length ys) (drop i (blit xs i ys)) = ys"
  by (simp add: blit_def)

section \<open>Words\<close>

lemma unat_and_mask: "unat (v AND mask n) = unat v mod 2 ^ n" for v :: "'a::len word"
proof -
  have "unat (take_bit n v) = take_bit n (unat v)"
    by (rule unsigned_take_bit_eq)
  also have "\<dots> = unat v mod 2 ^ n"
    by (rule take_bit_eq_mod)
  finally show ?thesis
    by (simp only: take_bit_eq_mask)
qed

lemma and_not_mask_plus_and_mask: "(v AND NOT (mask n)) + (v AND mask n) = v"
  for v :: "'a::len word"
proof -
  have "v AND NOT (mask n) = push_bit n (drop_bit n v)"
    by (rule bit_word_eqI) (auto simp: bit_simps)
  then show ?thesis
    by (simp only: take_bit_eq_mask [symmetric] bits_ident)
qed

lemma unat_and_not_mask: "unat (v AND NOT (mask n)) = unat v div 2 ^ n * 2 ^ n"
  for v :: "'a::len word"
proof -
  have "v AND NOT (mask n) = v - (v AND mask n)"
    using and_not_mask_plus_and_mask [of v n] by (simp only: eq_diff_eq)
  moreover have "v AND mask n \<le> v"
    by (rule word_and_le2)
  ultimately have "unat (v AND NOT (mask n)) = unat v - unat v mod 2 ^ n"
    by (simp only: unat_sub unat_and_mask)
  then show ?thesis
    by (simp only: minus_mod_eq_div_mult)
qed

text \<open>The masks the kernel uses, in the form the simplifier leaves them.\<close>

lemma unat_and_page_mask [word_nat_simps]: "unat (v AND 4095) = unat v mod 4096" for v :: u32
  using unat_and_mask [of v 12] by (simp add: mask_eq_exp_minus_1)

lemma unat_and_page_base [word_nat_simps]:
  "unat (v AND - 4096) = unat v div 4096 * 4096" for v :: u32
  using unat_and_not_mask [of v 12] by (simp add: mask_eq_exp_minus_1)

lemma unat_and_16_base [word_nat_simps]:
  "unat (v AND - 16) = unat v div 16 * 16" for v :: u32
  using unat_and_not_mask [of v 4] by (simp add: mask_eq_exp_minus_1)

lemma unat_and_8_base [word_nat_simps]:
  "unat (v AND - 8) = unat v div 8 * 8" for v :: u32
  using unat_and_not_mask [of v 3] by (simp add: mask_eq_exp_minus_1)

lemma unat_plus_nowrap:
  "unat a + unat b < 2 ^ LENGTH('a) \<Longrightarrow> unat (a + b) = unat a + unat b" for a b :: "'a::len word"
  by (simp add: unat_word_ariths)

lemma unat_minus_nowrap: "b \<le> a \<Longrightarrow> unat (a - b) = unat a - unat b" for a b :: "'a::len word"
  by (rule unat_sub)

lemma unat_minus_one_u32: "unat (- 1 :: u32) = 4294967295"
proof -
  have "- 1 = (0xFFFFFFFF :: u32)" by simp
  then have "unat (- 1 :: u32) = unat (0xFFFFFFFF :: u32)" by (rule arg_cong)
  also have "\<dots> = 4294967295" by (subst unat_numeral) simp
  finally show ?thesis .
qed

lemma unat_u32_lt [simp]: "unat (w :: u32) < 4294967296"
  using unsigned_less [of w] by simp

text \<open>Rounding up and down to a power of two, as \<open>heap.c\<close> and \<open>pmm.c\<close> write it.\<close>

definition align_up :: "u32 \<Rightarrow> u32 \<Rightarrow> u32" where
  "align_up v a = (v + (a - 1)) AND NOT (a - 1)"

definition align_down :: "u32 \<Rightarrow> u32 \<Rightarrow> u32" where
  "align_down v a = v AND NOT (a - 1)"

lemma unat_align_down_page: "unat (align_down v 4096) = unat v div 4096 * 4096"
  by (simp add: align_down_def word_nat_simps)

lemma unat_align_up_page:
  "unat v + 4095 < 2 ^ 32 \<Longrightarrow> unat (align_up v 4096) = (unat v + 4095) div 4096 * 4096"
  by (simp add: align_up_def word_nat_simps unat_plus_nowrap)

end
