(* ===== verification/Multiboot.thy ===== *)
theory Multiboot
  imports Prelude
begin

unbundle bit_operations_syntax

text \<open>
  The Multiboot2 information block (\<open>kernel/mem/multiboot2.h\<close>): little-endian loads from the
  flat memory, the accessors of the tag structures, and the two loops with which \<open>pmm.c\<close> and
  \<open>initrd.c\<close> walk the tags and the entries of a memory-map tag. A loop that never ends (a tag of
  size 0, an entry size of 0) has the value \<open>None\<close>; \<open>tag_chain\<close> and \<open>entry_chain\<close> describe the
  blocks on which the loops end.
\<close>

section \<open>Loads\<close>

definition ld32 :: "mem \<Rightarrow> u32 \<Rightarrow> u32" where
  "ld32 m a = ucast (m a) OR push_bit 8 (ucast (m (a + 1)))
     OR push_bit 16 (ucast (m (a + 2))) OR push_bit 24 (ucast (m (a + 3)))"

definition ld64 :: "mem \<Rightarrow> u32 \<Rightarrow> u64" where
  "ld64 m a = ucast (ld32 m a) OR push_bit 32 (ucast (ld32 m (a + 4)))"

section \<open>Tags\<close>

definition MULTIBOOT2_BOOTLOADER_MAGIC :: u32 where "MULTIBOOT2_BOOTLOADER_MAGIC = 0x36d76289"

abbreviation (input) "MULTIBOOT2_TAG_TYPE_END \<equiv> (0 :: u32)"
abbreviation (input) "MULTIBOOT2_TAG_TYPE_MODULE \<equiv> (3 :: u32)"
abbreviation (input) "MULTIBOOT2_TAG_TYPE_BASIC_MEMINFO \<equiv> (4 :: u32)"
abbreviation (input) "MULTIBOOT2_TAG_TYPE_MMAP \<equiv> (6 :: u32)"
abbreviation (input) "MULTIBOOT2_TAG_TYPE_FRAMEBUFFER \<equiv> (8 :: u32)"
abbreviation (input) "MULTIBOOT2_MMAP_TYPE_AVAILABLE \<equiv> (1 :: u32)"

definition info_total_size :: "mem \<Rightarrow> u32 \<Rightarrow> u32" where "info_total_size m p = ld32 m p"

definition tag_type :: "mem \<Rightarrow> u32 \<Rightarrow> u32" where "tag_type m t = ld32 m t"
definition tag_size :: "mem \<Rightarrow> u32 \<Rightarrow> u32" where "tag_size m t = ld32 m (t + 4)"

definition mod_start :: "mem \<Rightarrow> u32 \<Rightarrow> u32" where "mod_start m t = ld32 m (t + 8)"
definition mod_end :: "mem \<Rightarrow> u32 \<Rightarrow> u32" where "mod_end m t = ld32 m (t + 12)"

definition mem_upper :: "mem \<Rightarrow> u32 \<Rightarrow> u32" where "mem_upper m t = ld32 m (t + 12)"

definition entry_size :: "mem \<Rightarrow> u32 \<Rightarrow> u32" where "entry_size m t = ld32 m (t + 8)"

definition entry_addr :: "mem \<Rightarrow> u32 \<Rightarrow> u64" where "entry_addr m e = ld64 m e"
definition entry_len :: "mem \<Rightarrow> u32 \<Rightarrow> u64" where "entry_len m e = ld64 m (e + 8)"
definition entry_type :: "mem \<Rightarrow> u32 \<Rightarrow> u32" where "entry_type m e = ld32 m (e + 16)"

definition framebuffer_addr :: "mem \<Rightarrow> u32 \<Rightarrow> u64" where "framebuffer_addr m t = ld64 m (t + 8)"
definition framebuffer_pitch :: "mem \<Rightarrow> u32 \<Rightarrow> u32" where "framebuffer_pitch m t = ld32 m (t + 16)"
definition framebuffer_height :: "mem \<Rightarrow> u32 \<Rightarrow> u32" where
  "framebuffer_height m t = ld32 m (t + 24)"

definition tag_end :: "mem \<Rightarrow> u32 \<Rightarrow> u32" where
  "tag_end m t = t + ((tag_size m t + 7) AND NOT 7)"

section \<open>The loops\<close>

partial_function (option) tag_walk ::
  "(u32 \<Rightarrow> 's \<Rightarrow> 's option) \<Rightarrow> mem \<Rightarrow> u32 \<Rightarrow> u32 \<Rightarrow> 's \<Rightarrow> 's option" where
  "tag_walk body m tag end_tag s =
     (if tag < end_tag \<and> tag_type m tag \<noteq> MULTIBOOT2_TAG_TYPE_END
      then Option.bind (body tag s) (tag_walk body m (tag_end m tag) end_tag)
      else Some s)"

partial_function (option) entry_walk ::
  "(u32 \<Rightarrow> 's \<Rightarrow> 's) \<Rightarrow> u32 \<Rightarrow> u32 \<Rightarrow> u32 \<Rightarrow> 's \<Rightarrow> 's option" where
  "entry_walk body esz lim ptr s =
     (if ptr + esz \<le> lim then entry_walk body esz lim (ptr + esz) (body ptr s) else Some s)"

text \<open>The tags and the entries the loops visit, where they end.\<close>

fun tag_chain :: "mem \<Rightarrow> u32 \<Rightarrow> u32 \<Rightarrow> u32 list \<Rightarrow> bool" where
  "tag_chain m end_tag tag [] \<longleftrightarrow> \<not> (tag < end_tag \<and> tag_type m tag \<noteq> 0)"
| "tag_chain m end_tag tag (t # ts) \<longleftrightarrow>
     t = tag \<and> tag < end_tag \<and> tag_type m tag \<noteq> 0 \<and> tag_chain m end_tag (tag_end m tag) ts"

fun entry_chain :: "u32 \<Rightarrow> u32 \<Rightarrow> u32 \<Rightarrow> u32 list \<Rightarrow> bool" where
  "entry_chain esz lim ptr [] \<longleftrightarrow> \<not> ptr + esz \<le> lim"
| "entry_chain esz lim ptr (e # es) \<longleftrightarrow>
     e = ptr \<and> ptr + esz \<le> lim \<and> entry_chain esz lim (ptr + esz) es"

text \<open>The walk over the entries is the fold over the chain, and it ends exactly on a chain.\<close>

lemma entry_walk_unfold:
  "ptr + esz \<le> lim \<Longrightarrow>
     entry_walk body esz lim ptr s = entry_walk body esz lim (ptr + esz) (body ptr s)"
  "\<not> ptr + esz \<le> lim \<Longrightarrow> entry_walk body esz lim ptr s = Some s"
  by (subst entry_walk.simps, simp)+

lemma entry_walk_chain:
  "entry_chain esz lim ptr es \<Longrightarrow> entry_walk body esz lim ptr s = Some (fold body es s)"
  by (induction es arbitrary: ptr s) (auto simp: entry_walk_unfold)

lemma entry_walk_Some:
  assumes "entry_walk body esz lim ptr s = Some s'"
  shows "\<exists>es. entry_chain esz lim ptr es \<and> s' = fold body es s"
proof (rule entry_walk.raw_induct
    [where P = "\<lambda>body esz lim ptr s s'. \<exists>es. entry_chain esz lim ptr es \<and> s' = fold body es s",
     OF _ assms])
  fix walk :: "(u32 \<Rightarrow> 'a \<Rightarrow> 'a) \<Rightarrow> u32 \<Rightarrow> u32 \<Rightarrow> u32 \<Rightarrow> 'a \<Rightarrow> 'a option"
    and body :: "u32 \<Rightarrow> 'a \<Rightarrow> 'a" and esz lim ptr s s'
  assume IH: "\<And>body esz lim ptr s s'. walk body esz lim ptr s = Some s' \<Longrightarrow>
      \<exists>es. entry_chain esz lim ptr es \<and> s' = fold body es s"
    and eq: "(if ptr + esz \<le> lim then walk body esz lim (ptr + esz) (body ptr s) else Some s) =
      Some s'"
  show "\<exists>es. entry_chain esz lim ptr es \<and> s' = fold body es s"
  proof (cases "ptr + esz \<le> lim")
    case True
    with eq have "walk body esz lim (ptr + esz) (body ptr s) = Some s'" by simp
    from IH [OF this] obtain es
      where "entry_chain esz lim (ptr + esz) es" "s' = fold body es (body ptr s)"
      by blast
    with True have "entry_chain esz lim ptr (ptr # es) \<and> s' = fold body (ptr # es) s"
      by simp
    then show ?thesis ..
  next
    case False
    with eq have "entry_chain esz lim ptr [] \<and> s' = fold body [] s" by simp
    then show ?thesis ..
  qed
qed

text \<open>Folding a body that may not return; the walk over the tags is this fold over their chain.\<close>

fun ofold :: "('a \<Rightarrow> 's \<Rightarrow> 's option) \<Rightarrow> 'a list \<Rightarrow> 's \<Rightarrow> 's option" where
  "ofold f [] s = Some s"
| "ofold f (x # xs) s = Option.bind (f x s) (ofold f xs)"

lemma tag_walk_unfold:
  "tag < e \<Longrightarrow> tag_type m tag \<noteq> 0 \<Longrightarrow>
     tag_walk body m tag e s = Option.bind (body tag s) (tag_walk body m (tag_end m tag) e)"
  "\<not> (tag < e \<and> tag_type m tag \<noteq> 0) \<Longrightarrow> tag_walk body m tag e s = Some s"
  by (subst tag_walk.simps, auto)+

lemma tag_walk_chain: "tag_chain m e tag ts \<Longrightarrow> tag_walk body m tag e s = ofold body ts s"
proof (induction ts arbitrary: tag s)
  case Nil
  then show ?case by (simp add: tag_walk_unfold)
next
  case (Cons t ts)
  then show ?case
    by (cases "body tag s") (simp_all add: tag_walk_unfold)
qed

lemma tag_walk_Some:
  assumes "tag_walk body m tag e s = Some s'"
  shows "\<exists>ts. tag_chain m e tag ts \<and> ofold body ts s = Some s'"
proof (rule tag_walk.raw_induct
    [where P = "\<lambda>body m tag e s s'. \<exists>ts. tag_chain m e tag ts \<and> ofold body ts s = Some s'",
     OF _ assms])
  fix walk :: "(u32 \<Rightarrow> 'a \<Rightarrow> 'a option) \<Rightarrow> mem \<Rightarrow> u32 \<Rightarrow> u32 \<Rightarrow> 'a \<Rightarrow> 'a option"
    and body :: "u32 \<Rightarrow> 'a \<Rightarrow> 'a option" and m tag e s s'
  assume IH: "\<And>body m tag e s s'. walk body m tag e s = Some s' \<Longrightarrow>
      \<exists>ts. tag_chain m e tag ts \<and> ofold body ts s = Some s'"
    and eq: "(if tag < e \<and> tag_type m tag \<noteq> 0
      then Option.bind (body tag s) (walk body m (tag_end m tag) e) else Some s) = Some s'"
  show "\<exists>ts. tag_chain m e tag ts \<and> ofold body ts s = Some s'"
  proof (cases "tag < e \<and> tag_type m tag \<noteq> 0")
    case True
    with eq obtain s1 where s1: "body tag s = Some s1" "walk body m (tag_end m tag) e s1 = Some s'"
      by (auto simp: bind_eq_Some_conv)
    from IH [OF s1(2)] obtain ts where "tag_chain m e (tag_end m tag) ts" "ofold body ts s1 = Some s'"
      by blast
    with True s1(1) have "tag_chain m e tag (tag # ts) \<and> ofold body (tag # ts) s = Some s'"
      by simp
    then show ?thesis ..
  next
    case False
    with eq have "tag_chain m e tag [] \<and> ofold body [] s = Some s'" by simp
    then show ?thesis ..
  qed
qed

lemma ofold_invariant:
  "ofold f xs s = Some s' \<Longrightarrow> I s \<Longrightarrow>
   (\<And>x s s'. x \<in> set xs \<Longrightarrow> I s \<Longrightarrow> f x s = Some s' \<Longrightarrow> I s') \<Longrightarrow> I s'"
  by (induction xs arbitrary: s) (auto simp: bind_eq_Some_conv)

lemma fold_invariant_list:
  "I s \<Longrightarrow> (\<And>x s. x \<in> set xs \<Longrightarrow> I s \<Longrightarrow> I (f x s)) \<Longrightarrow> I (fold f xs s)"
  by (induction xs arbitrary: s) auto

text \<open>An invariant of the body is one of the whole walk, where the walk ends.\<close>

lemma entry_walk_invariant:
  assumes "entry_walk body esz lim ptr s = Some s'" and "I s" and "\<And>p s. I s \<Longrightarrow> I (body p s)"
  shows "I s'"
  using entry_walk_Some [OF assms(1)] assms(2,3) by (auto intro: fold_invariant_list)

lemma tag_walk_invariant:
  assumes "tag_walk body m tag e s = Some s'" and "I s"
    and "\<And>t s s'. I s \<Longrightarrow> body t s = Some s' \<Longrightarrow> I s'"
  shows "I s'"
  using tag_walk_Some [OF assms(1)] assms(2,3) by (auto intro: ofold_invariant)

text \<open>On a block whose tags chain to the end, a body that always returns makes the walk return.\<close>

lemma ofold_returns:
  "\<forall>x\<in>set xs. \<forall>s. \<exists>s'. f x s = Some s' \<Longrightarrow> \<exists>s'. ofold f xs s = Some s'"
proof (induction xs arbitrary: s)
  case (Cons x xs)
  then obtain s1 where "f x s = Some s1" by force
  with Cons show ?case by simp
qed simp

text \<open>A tag of size 0 is its own successor: the walk never leaves it.\<close>

lemma tag_end_size_0: "tag_size m t = 0 \<Longrightarrow> tag_end m t = t"
  by (simp add: tag_end_def)

end
