(* ===== verification/Frame_Provider.thy ===== *)
theory Frame_Provider
  imports Prelude
begin

unbundle bit_operations_syntax

text \<open>
  The interface through which the kernel heap takes 4 KiB frames from the physical memory
  manager: an allocation that returns a frame address or 0, and a release. The locale states the
  laws of the provider and proves what every client may rely on, in particular that frames handed
  out and not yet returned never coincide. It is interpreted on \<open>pmm_alloc_frame\<close> and
  \<open>pmm_free_frame\<close> in the theory \<open>Pmm\<close>.
\<close>

text \<open>
  The frames a client holds: it takes a frame, and gives back one that it holds. The relation is
  over any pair of operations, the locale below over any pair that keeps the laws.
\<close>

inductive frame_owner ::
  "('s \<Rightarrow> (u32 \<times> 's) res) \<Rightarrow> (u32 \<Rightarrow> 's \<Rightarrow> 's res) \<Rightarrow> 's \<Rightarrow> 's \<Rightarrow> u32 set \<Rightarrow> bool"
  for alloc free s0 where
  start: "frame_owner alloc free s0 s0 {}"
| take_ok: "frame_owner alloc free s0 s H \<Longrightarrow> alloc s = Ok (a, s') \<Longrightarrow> a \<noteq> 0 \<Longrightarrow>
    frame_owner alloc free s0 s' (insert a H)"
| take_fail: "frame_owner alloc free s0 s H \<Longrightarrow> alloc s = Ok (0, s') \<Longrightarrow>
    frame_owner alloc free s0 s' H"
| give: "frame_owner alloc free s0 s H \<Longrightarrow> a \<in> H \<Longrightarrow> free a s = Ok s' \<Longrightarrow>
    frame_owner alloc free s0 s' (H - {a})"

locale frame_provider =
  fixes alloc :: "'s \<Rightarrow> (u32 \<times> 's) res"
    and free :: "u32 \<Rightarrow> 's \<Rightarrow> 's res"
    and inv :: "'s \<Rightarrow> bool"
    and avail :: "'s \<Rightarrow> u32 set"
    and managed :: "'s \<Rightarrow> u32 set"
  assumes alloc_empty: "inv s \<Longrightarrow> avail s = {} \<Longrightarrow> alloc s = Ok (0, s)"
    and alloc_some: "inv s \<Longrightarrow> avail s \<noteq> {} \<Longrightarrow>
      \<exists>a s'. alloc s = Ok (a, s') \<and> a \<in> avail s \<and> inv s' \<and> avail s' = avail s - {a} \<and>
        managed s' = managed s"
    and free_some: "inv s \<Longrightarrow> a \<in> managed s \<Longrightarrow>
      \<exists>s'. free a s = Ok s' \<and> inv s' \<and> avail s' = insert a (avail s) \<and> managed s' = managed s"
    and avail_managed: "inv s \<Longrightarrow> avail s \<subseteq> managed s"
    and managed_aligned: "inv s \<Longrightarrow> a \<in> managed s \<Longrightarrow> a AND 4095 = 0"
    and managed_nonzero: "inv s \<Longrightarrow> 0 \<notin> managed s"
begin

lemma alloc_returns: "inv s \<Longrightarrow> \<exists>a s'. alloc s = Ok (a, s') \<and> inv s' \<and> managed s' = managed s"
  using alloc_empty alloc_some by (metis (no_types, lifting))

lemma alloc_Ok:
  assumes "inv s" and "alloc s = Ok (a, s')"
  shows "inv s'" and "managed s' = managed s"
    and "a = 0 \<and> avail s = {} \<and> s' = s \<or> a \<noteq> 0 \<and> a \<in> avail s \<and> avail s' = avail s - {a}"
proof -
  have "(a = 0 \<and> avail s = {} \<and> s' = s \<or> a \<noteq> 0 \<and> a \<in> avail s \<and> avail s' = avail s - {a}) \<and>
    inv s' \<and> managed s' = managed s"
  proof (cases "avail s = {}")
    case True
    then show ?thesis using assms alloc_empty by auto
  next
    case False
    from alloc_some [OF assms(1) False] assms(2)
    have s': "a \<in> avail s" "inv s'" "avail s' = avail s - {a}" "managed s' = managed s" by auto
    moreover have "a \<noteq> 0"
      using s'(1) avail_managed [OF assms(1)] managed_nonzero [OF assms(1)] by auto
    ultimately show ?thesis by simp
  qed
  then show "inv s'" "managed s' = managed s"
    "a = 0 \<and> avail s = {} \<and> s' = s \<or> a \<noteq> 0 \<and> a \<in> avail s \<and> avail s' = avail s - {a}"
    by auto
qed

lemma alloc_aligned: "inv s \<Longrightarrow> alloc s = Ok (a, s') \<Longrightarrow> a AND 4095 = 0"
  by (metis alloc_Ok(3) and_zero_eq avail_managed managed_aligned subsetD and.commute)

text \<open>Held frames are managed and not available.\<close>

lemma owner_invariant:
  "frame_owner alloc free s0 s H \<Longrightarrow> inv s0 \<Longrightarrow>
   inv s \<and> managed s = managed s0 \<and> H \<subseteq> managed s0 \<and> H \<inter> avail s = {}"
proof (induction rule: frame_owner.induct)
  case start
  then show ?case by simp
next
  case (take_ok s H a s')
  then have "inv s" and m: "managed s = managed s0" "H \<subseteq> managed s0" "H \<inter> avail s = {}" by simp_all
  note al = alloc_Ok [OF this(1) take_ok(2)]
  have "a \<in> managed s0" using al(3) take_ok(3) avail_managed [OF \<open>inv s\<close>] m by auto
  with al m take_ok(3) show ?case by auto
next
  case (take_fail s H s')
  then have "inv s" and m: "managed s = managed s0" "H \<subseteq> managed s0" "H \<inter> avail s = {}" by simp_all
  from alloc_Ok [OF this(1) take_fail(2)] m show ?case by auto
next
  case (give s H a s')
  then have "inv s" and m: "managed s = managed s0" "H \<subseteq> managed s0" "H \<inter> avail s = {}" by simp_all
  have "a \<in> managed s" using give(2) m by auto
  from free_some [OF \<open>inv s\<close> this] give(2,3) m show ?case by auto
qed

text \<open>A frame handed out is not one of those still held.\<close>

lemma alloc_fresh:
  assumes "inv s0" and "frame_owner alloc free s0 s H" and "alloc s = Ok (a, s')" and "a \<noteq> 0"
  shows "a \<notin> H"
proof -
  have "inv s" "H \<inter> avail s = {}" using owner_invariant [OF assms(2,1)] by auto
  with alloc_Ok(3) [OF this(1) assms(3)] assms(4) show ?thesis by auto
qed

end

end
