(* ===== verification/Pmm.thy ===== *)
theory Pmm
  imports Multiboot Frame_Provider
begin

unbundle bit_operations_syntax

text \<open>
  The physical memory manager, \<open>kernel/mem/pmm.c\<close>: a bitmap with one bit per 4 KiB frame
  (set = in use), the counters reported by \<open>meminfo\<close>, the initialisation from the Multiboot2
  memory map, and allocation and release of single frames. The abstract state is the set
  \<open>free_set\<close> of free frame numbers; \<open>pmm_wf\<close> says how bitmap and counters represent it.
\<close>

section \<open>State\<close>

abbreviation (input) "PMM_FRAME_SIZE \<equiv> (4096 :: u32)"
abbreviation (input) "PMM_MAX_PHYS_ADDR \<equiv> (536870912 :: u32)"
abbreviation (input) "PMM_MAX_FRAMES \<equiv> (131072 :: nat)"
abbreviation (input) "PMM_BITMAP_WORDS \<equiv> (4096 :: nat)"

record pmm =
  pmm_bitmap :: "u32 list"
  pmm_max_addr :: u32
  total_frames :: u32
  free_frames :: u32
  used_frames :: u32
  managed_bytes :: u32
  pmm_ready :: bool
  pmm_lock_word :: u32

text \<open>The zero-initialised statics before \<open>pmm_init\<close>.\<close>

definition pmm_zero :: pmm where
  "pmm_zero = \<lparr>pmm_bitmap = replicate PMM_BITMAP_WORDS 0, pmm_max_addr = 0, total_frames = 0,
     free_frames = 0, used_frames = 0, managed_bytes = 0, pmm_ready = False, pmm_lock_word = 0\<rparr>"

text \<open>The statistics record \<open>pmm_stats_t\<close> copied out by \<open>pmm_get_stats\<close>.\<close>

record pmm_stats =
  st_total_frames :: u32
  st_free_frames :: u32
  st_used_frames :: u32
  st_managed_bytes :: u32

text \<open>
  The spinlock. Interrupts are off while it is held and there is one CPU, so an acquisition of a
  held lock spins for ever.
\<close>

definition pmm_lock :: "pmm \<Rightarrow> pmm res" where
  "pmm_lock s = (if pmm_lock_word s \<noteq> 0 then Fail Hang else Ok (s\<lparr>pmm_lock_word := 1\<rparr>))"

definition pmm_unlock :: "pmm \<Rightarrow> pmm" where
  "pmm_unlock s = s\<lparr>pmm_lock_word := 0\<rparr>"

section \<open>The bitmap\<close>

definition set_frame :: "u32 \<Rightarrow> pmm \<Rightarrow> pmm" where
  "set_frame idx s = s\<lparr>pmm_bitmap := (pmm_bitmap s)[unat (idx div 32) :=
     pmm_bitmap s ! unat (idx div 32) OR push_bit (unat (idx mod 32)) 1]\<rparr>"

definition clear_frame :: "u32 \<Rightarrow> pmm \<Rightarrow> pmm" where
  "clear_frame idx s = s\<lparr>pmm_bitmap := (pmm_bitmap s)[unat (idx div 32) :=
     pmm_bitmap s ! unat (idx div 32) AND NOT (push_bit (unat (idx mod 32)) 1)]\<rparr>"

definition is_set :: "u32 \<Rightarrow> pmm \<Rightarrow> bool" where
  "is_set idx s \<longleftrightarrow> pmm_bitmap s ! unat (idx div 32) AND push_bit (unat (idx mod 32)) 1 \<noteq> 0"

definition reserve_frame :: "u32 \<Rightarrow> pmm \<Rightarrow> pmm" where
  "reserve_frame i s =
     (if \<not> is_set i s
      then (set_frame i s)\<lparr>free_frames := free_frames s - 1, used_frames := used_frames s + 1\<rparr>
      else s)"

definition release_frame :: "u32 \<Rightarrow> pmm \<Rightarrow> pmm" where
  "release_frame i s =
     (if is_set i s
      then (clear_frame i s)\<lparr>free_frames := free_frames s + 1, used_frames := used_frames s - 1\<rparr>
      else s)"

text \<open>The two range loops: \<open>for (i = s; i < e; i++)\<close> over the frames a byte range touches.\<close>

definition range_loop :: "(u32 \<Rightarrow> pmm \<Rightarrow> pmm) \<Rightarrow> u32 \<Rightarrow> u32 \<Rightarrow> pmm \<Rightarrow> pmm" where
  "range_loop f start end_addr s =
     (let s_idx = align_down start PMM_FRAME_SIZE div PMM_FRAME_SIZE;
          e_idx = align_up end_addr PMM_FRAME_SIZE div PMM_FRAME_SIZE
      in fold (\<lambda>i. f (of_nat i)) [unat s_idx ..< unat e_idx] s)"

definition reserve_range :: "u32 \<Rightarrow> u32 \<Rightarrow> pmm \<Rightarrow> pmm" where
  "reserve_range start end_addr s =
     (if start \<ge> end_addr then s
      else if start \<ge> pmm_max_addr s then s
      else range_loop reserve_frame start
             (if end_addr > pmm_max_addr s then pmm_max_addr s else end_addr) s)"

definition free_range :: "u32 \<Rightarrow> u32 \<Rightarrow> pmm \<Rightarrow> pmm" where
  "free_range start end_addr s =
     (if start \<ge> end_addr then s
      else if start \<ge> pmm_max_addr s then s
      else range_loop release_frame start
             (if end_addr > pmm_max_addr s then pmm_max_addr s else end_addr) s)"

section \<open>Allocation and release\<close>

fun scan_bits :: "u32 \<Rightarrow> u32 \<Rightarrow> nat \<Rightarrow> nat list \<Rightarrow> nat option" where
  "scan_bits w limit i [] = None"
| "scan_bits w limit i (b # bs) =
     (let frame = i * 32 + b
      in if frame \<ge> unat limit then None
         else if w AND push_bit b 1 = 0 then Some frame
         else scan_bits w limit i bs)"

fun scan_words :: "pmm \<Rightarrow> nat list \<Rightarrow> nat option" where
  "scan_words s [] = None"
| "scan_words s (i # is) =
     (if pmm_bitmap s ! i \<noteq> 0xFFFFFFFF
      then (case scan_bits (pmm_bitmap s ! i) (total_frames s) i [0..<32] of
              Some frame \<Rightarrow> Some frame
            | None \<Rightarrow> scan_words s is)
      else scan_words s is)"

definition pmm_alloc_frame :: "pmm \<Rightarrow> (u32 \<times> pmm) res" where
  "pmm_alloc_frame s =
     (if \<not> pmm_ready s then Ok (0, s)
      else rbind (pmm_lock s) (\<lambda>s.
        case scan_words s [0..<PMM_BITMAP_WORDS] of
          None \<Rightarrow> Ok (0, pmm_unlock s)
        | Some frame \<Rightarrow>
            Ok (of_nat frame * PMM_FRAME_SIZE,
                pmm_unlock (s\<lparr>pmm_bitmap := (pmm_bitmap s)[frame div 32 :=
                                pmm_bitmap s ! (frame div 32) OR push_bit (frame mod 32) 1],
                              free_frames := free_frames s - 1,
                              used_frames := used_frames s + 1\<rparr>))))"

definition pmm_free_frame :: "u32 \<Rightarrow> pmm \<Rightarrow> pmm res" where
  "pmm_free_frame phys_addr s =
     (if \<not> pmm_ready s \<or> phys_addr AND (PMM_FRAME_SIZE - 1) \<noteq> 0 then Ok s
      else rbind (pmm_lock s) (\<lambda>s.
        let frame = phys_addr div PMM_FRAME_SIZE
        in if frame \<ge> total_frames s then Ok (pmm_unlock s)
           else Ok (pmm_unlock (release_frame frame s))))"

definition pmm_get_stats :: "pmm \<Rightarrow> (pmm_stats \<times> pmm) res" where
  "pmm_get_stats s = rbind (pmm_lock s) (\<lambda>s.
     Ok (\<lparr>st_total_frames = total_frames s, st_free_frames = free_frames s,
          st_used_frames = used_frames s, st_managed_bytes = managed_bytes s\<rparr>, pmm_unlock s))"

definition pmm_get_max_phys_addr :: "pmm \<Rightarrow> u32" where
  "pmm_get_max_phys_addr s = pmm_max_addr s"

section \<open>Initialisation from the Multiboot2 block\<close>

definition mmap_walk :: "(u32 \<Rightarrow> 's \<Rightarrow> 's) \<Rightarrow> mem \<Rightarrow> u32 \<Rightarrow> 's \<Rightarrow> 's option" where
  "mmap_walk f m tag s =
     entry_walk f (entry_size m tag) (tag + tag_size m tag) (tag + 16) s"

definition highest_entry :: "mem \<Rightarrow> u32 \<Rightarrow> u32 \<Rightarrow> u32" where
  "highest_entry m e highest =
     (let end_addr = entry_addr m e + entry_len m e
      in if entry_type m e = MULTIBOOT2_MMAP_TYPE_AVAILABLE \<and> end_addr > ucast highest
         then (if end_addr > 0xFFFFFFFF then 0xFFFFFFFF else ucast end_addr)
         else highest)"

definition highest_tag :: "mem \<Rightarrow> u32 \<Rightarrow> u32 \<Rightarrow> u32 option" where
  "highest_tag m tag highest =
     (if tag_type m tag = MULTIBOOT2_TAG_TYPE_MMAP then mmap_walk (highest_entry m) m tag highest
      else if tag_type m tag = MULTIBOOT2_TAG_TYPE_BASIC_MEMINFO
      then (let basic_top = 0x100000 + mem_upper m tag * 1024
            in Some (if basic_top > highest then basic_top else highest))
      else Some highest)"

definition free_entry :: "mem \<Rightarrow> u32 \<Rightarrow> pmm \<Rightarrow> pmm" where
  "free_entry m e s =
     (if entry_type m e = MULTIBOOT2_MMAP_TYPE_AVAILABLE
      then free_range (ucast (entry_addr m e)) (ucast (entry_addr m e + entry_len m e)) s
      else s)"

definition free_tag :: "mem \<Rightarrow> u32 \<Rightarrow> pmm \<Rightarrow> pmm option" where
  "free_tag m tag s =
     (if tag_type m tag = MULTIBOOT2_TAG_TYPE_MMAP then mmap_walk (free_entry m) m tag s
      else Some s)"

definition reserve_tag :: "mem \<Rightarrow> u32 \<Rightarrow> pmm \<Rightarrow> pmm option" where
  "reserve_tag m tag s =
     (if tag_type m tag = MULTIBOOT2_TAG_TYPE_MODULE
      then Some (reserve_range (mod_start m tag) (mod_end m tag) s)
      else if tag_type m tag = MULTIBOOT2_TAG_TYPE_FRAMEBUFFER
      then (let bytes = framebuffer_pitch m tag * framebuffer_height m tag;
                addr = ucast (framebuffer_addr m tag)
            in Some (reserve_range addr (addr + bytes) s))
      else Some s)"

definition pmm_blank :: "pmm \<Rightarrow> u32 \<Rightarrow> pmm" where
  "pmm_blank s highest =
     (let highest = (if highest = 0 \<or> highest > PMM_MAX_PHYS_ADDR then PMM_MAX_PHYS_ADDR
                     else highest);
          max_addr = align_down highest PMM_FRAME_SIZE;
          frames = max_addr div PMM_FRAME_SIZE
      in s\<lparr>pmm_bitmap := replicate PMM_BITMAP_WORDS 0xFFFFFFFF, pmm_max_addr := max_addr,
           total_frames := frames, used_frames := frames, free_frames := 0,
           managed_bytes := max_addr\<rparr>)"

definition pmm_init :: "mem \<Rightarrow> u32 \<Rightarrow> u32 \<Rightarrow> u32 \<Rightarrow> u32 \<Rightarrow> pmm \<Rightarrow> pmm res" where
  "pmm_init m kernel_start kernel_end mb_magic mb_info_addr s =
     (if mb_magic \<noteq> MULTIBOOT2_BOOTLOADER_MAGIC \<or> mb_info_addr = 0
      then Fail (Panic ''pmm_init: invalid multiboot2 info'')
      else
        (let total_size = info_total_size m mb_info_addr;
             tag = mb_info_addr + 8;
             end_tag = mb_info_addr + total_size - 8
         in case tag_walk (highest_tag m) m tag end_tag 0 of
              None \<Rightarrow> Fail Hang
            | Some highest \<Rightarrow>
               (case tag_walk (free_tag m) m tag end_tag (pmm_blank s highest) of
                  None \<Rightarrow> Fail Hang
                | Some s \<Rightarrow>
                   (let s = reserve_range 0 0x100000 s;
                        s = reserve_range kernel_start kernel_end s;
                        s = reserve_range mb_info_addr (mb_info_addr + total_size) s
                    in case tag_walk (reserve_tag m) m tag end_tag s of
                         None \<Rightarrow> Fail Hang
                       | Some s \<Rightarrow> Ok (s\<lparr>pmm_lock_word := 0, pmm_ready := True\<rparr>)))))"

section \<open>The bitmap as a set of used frames\<close>

definition used_in :: "u32 list \<Rightarrow> nat \<Rightarrow> bool" where
  "used_in bm n \<longleftrightarrow> bit (bm ! (n div 32)) (n mod 32)"

definition free_set :: "pmm \<Rightarrow> nat set" where
  "free_set s = {n. n < unat (total_frames s) \<and> \<not> used_in (pmm_bitmap s) n}"

text \<open>
  Well-formed states: the bitmap has its declared length, the counters count the bitmap, frames
  beyond the managed memory are marked used, and the managed memory fits the bitmap.
\<close>

definition pmm_wf :: "pmm \<Rightarrow> bool" where
  "pmm_wf s \<longleftrightarrow>
     length (pmm_bitmap s) = PMM_BITMAP_WORDS \<and>
     unat (total_frames s) \<le> PMM_MAX_FRAMES \<and>
     unat (pmm_max_addr s) = unat (total_frames s) * 4096 \<and>
     (\<forall>n. unat (total_frames s) \<le> n \<and> n < PMM_MAX_FRAMES \<longrightarrow> used_in (pmm_bitmap s) n) \<and>
     unat (free_frames s) = card (free_set s) \<and>
     unat (used_frames s) = unat (total_frames s) - card (free_set s)"

lemma finite_free_set [simp]: "finite (free_set s)"
  by (rule finite_subset [of _ "{..<unat (total_frames s)}"]) (auto simp: free_set_def)

lemma card_free_set_le: "card (free_set s) \<le> unat (total_frames s)"
  using card_mono [of "{..<unat (total_frames s)}" "free_set s"] by (auto simp: free_set_def)

lemma and_exp_eq_0 [simp]: "w AND 2 ^ b = 0 \<longleftrightarrow> \<not> bit w b" for w :: u32
  by (rule and_exp_eq_0_iff_not_bit)

lemma used_in_set:
  assumes "length bm = 4096" and "k < 131072" and "n < 131072"
  shows "used_in (bm[k div 32 := bm ! (k div 32) OR push_bit (k mod 32) 1]) n
         \<longleftrightarrow> n = k \<or> used_in bm n"
proof (cases "n div 32 = k div 32")
  case True
  then have "n = k \<longleftrightarrow> n mod 32 = k mod 32"
    by (metis div_mult_mod_eq)
  moreover have "k div 32 < length bm" using assms by simp
  ultimately show ?thesis
    using True by (auto simp: used_in_def bit_simps nth_list_update)
next
  case False
  then have "n \<noteq> k" by auto
  with False show ?thesis by (simp add: used_in_def nth_list_update)
qed

lemma used_in_clear:
  assumes "length bm = 4096" and "k < 131072" and "n < 131072"
  shows "used_in (bm[k div 32 := bm ! (k div 32) AND NOT (push_bit (k mod 32) 1)]) n
         \<longleftrightarrow> n \<noteq> k \<and> used_in bm n"
proof (cases "n div 32 = k div 32")
  case True
  then have "n = k \<longleftrightarrow> n mod 32 = k mod 32"
    by (metis div_mult_mod_eq)
  moreover have "k div 32 < length bm" using assms by simp
  ultimately show ?thesis
    using True by (auto simp: used_in_def bit_simps nth_list_update)
next
  case False
  then have "n \<noteq> k" by auto
  with False show ?thesis by (simp add: used_in_def nth_list_update)
qed

lemma unat_of_nat_div_mod_32:
  assumes "k < 131072"
  shows "unat ((of_nat k :: u32) div 32) = k div 32" "unat ((of_nat k :: u32) mod 32) = k mod 32"
  using assms by (simp_all add: unat_div unat_mod unat_of_nat)

lemma is_set_of_nat: "k < 131072 \<Longrightarrow> is_set (of_nat k) s \<longleftrightarrow> used_in (pmm_bitmap s) k"
  by (simp add: is_set_def used_in_def unat_of_nat_div_mod_32)

section \<open>Single frames\<close>

lemma unat_minus_1: "0 < unat (w :: u32) \<Longrightarrow> unat (w - 1) = unat w - 1"
  by (metis less_numeral_extra(3) unat_0 unat_minus_one)

lemma unat_plus_1: "unat (w :: u32) + 1 < 4294967296 \<Longrightarrow> unat (w + 1) = unat w + 1"
  using unat_plus_nowrap [of w 1] by simp

text \<open>Marking one free frame used, with the counters moved as \<open>pmm.c\<close> moves them.\<close>

lemma take_frame:
  assumes wf: "pmm_wf s" and k: "k \<in> free_set s"
    and s': "s' = s\<lparr>pmm_bitmap := (pmm_bitmap s)[k div 32 :=
                     pmm_bitmap s ! (k div 32) OR push_bit (k mod 32) 1],
                   free_frames := free_frames s - 1, used_frames := used_frames s + 1\<rparr>"
  shows "pmm_wf s'" and "free_set s' = free_set s - {k}"
proof -
  have len: "length (pmm_bitmap s) = 4096" and tot: "unat (total_frames s) \<le> 131072"
    and ff: "unat (free_frames s) = card (free_set s)"
    and uf: "unat (used_frames s) = unat (total_frames s) - card (free_set s)"
    using wf by (simp_all add: pmm_wf_def)
  have kt: "k < unat (total_frames s)" using k by (simp add: free_set_def)
  then have k': "k < 131072" using tot by simp
  note ui = used_in_set [OF len k', simplified]
  show fs: "free_set s' = free_set s - {k}"
    using tot by (auto simp: free_set_def s' ui)
  have pos: "0 < card (free_set s)" using k by (metis card_gt_0_iff empty_iff finite_free_set)
  have "unat (free_frames s - 1) = card (free_set s) - 1"
    using pos ff by (simp add: unat_minus_1)
  moreover have "unat (used_frames s + 1) = unat (total_frames s) - (card (free_set s) - 1)"
    using uf pos card_free_set_le [of s] tot by (simp add: unat_plus_1)
  moreover have "card (free_set s') = card (free_set s) - 1"
    using k by (simp add: fs)
  ultimately show "pmm_wf s'"
    using wf by (auto simp: pmm_wf_def s' ui)
qed

lemma give_frame:
  assumes wf: "pmm_wf s" and k: "k < unat (total_frames s)" "k \<notin> free_set s"
    and s': "s' = s\<lparr>pmm_bitmap := (pmm_bitmap s)[k div 32 :=
                     pmm_bitmap s ! (k div 32) AND NOT (push_bit (k mod 32) 1)],
                   free_frames := free_frames s + 1, used_frames := used_frames s - 1\<rparr>"
  shows "pmm_wf s'" and "free_set s' = insert k (free_set s)"
proof -
  have len: "length (pmm_bitmap s) = 4096" and tot: "unat (total_frames s) \<le> 131072"
    and ff: "unat (free_frames s) = card (free_set s)"
    and uf: "unat (used_frames s) = unat (total_frames s) - card (free_set s)"
    using wf by (simp_all add: pmm_wf_def)
  have k': "k < 131072" using k tot by simp
  note ui = used_in_clear [OF len k', simplified]
  show fs: "free_set s' = insert k (free_set s)"
    using tot k by (auto simp: free_set_def s' ui)
  have card': "card (free_set s') = card (free_set s) + 1"
    using k by (simp add: fs)
  have "insert k (free_set s) \<subseteq> {..<unat (total_frames s)}"
    using k by (auto simp: free_set_def)
  then have lt: "card (free_set s) + 1 \<le> unat (total_frames s)"
    using card_mono [of "{..<unat (total_frames s)}" "insert k (free_set s)"] k by simp
  have "unat (free_frames s + 1) = card (free_set s) + 1"
    using ff lt tot by (simp add: unat_plus_1)
  moreover have "unat (used_frames s - 1) = unat (total_frames s) - (card (free_set s) + 1)"
    using uf lt by (simp add: unat_minus_1)
  ultimately show "pmm_wf s'"
    using wf k k' ui card' by (auto simp: pmm_wf_def s')
qed

lemma reserve_frame_spec:
  assumes "pmm_wf s" and "k < unat (total_frames s)"
  shows "pmm_wf (reserve_frame (of_nat k) s)"
    and "free_set (reserve_frame (of_nat k) s) = free_set s - {k}"
proof -
  have k: "k < 131072" using assms by (simp add: pmm_wf_def)
  let ?s = "reserve_frame (of_nat k) s"
  consider "k \<in> free_set s" | "k \<notin> free_set s" "used_in (pmm_bitmap s) k"
    using assms(2) by (auto simp: free_set_def)
  then have "pmm_wf ?s \<and> free_set ?s = free_set s - {k}"
  proof cases
    case 1
    then have "\<not> used_in (pmm_bitmap s) k" by (simp add: free_set_def)
    then show ?thesis
      using take_frame [OF assms(1) 1 refl] k
      by (simp add: reserve_frame_def is_set_of_nat set_frame_def unat_of_nat_div_mod_32)
  next
    case 2
    then show ?thesis using assms k by (auto simp: reserve_frame_def is_set_of_nat)
  qed
  then show "pmm_wf ?s" "free_set ?s = free_set s - {k}" by simp_all
qed

lemma release_frame_spec:
  assumes "pmm_wf s" and "k < unat (total_frames s)"
  shows "pmm_wf (release_frame (of_nat k) s)"
    and "free_set (release_frame (of_nat k) s) = insert k (free_set s)"
proof -
  have k: "k < 131072" using assms by (simp add: pmm_wf_def)
  let ?s = "release_frame (of_nat k) s"
  consider "k \<notin> free_set s" "used_in (pmm_bitmap s) k"
    | "k \<in> free_set s" "\<not> used_in (pmm_bitmap s) k"
    using assms(2) by (auto simp: free_set_def)
  then have "pmm_wf ?s \<and> free_set ?s = insert k (free_set s)"
  proof cases
    case 1
    then show ?thesis
      using give_frame [OF assms(1,2) 1(1) refl] k
      by (simp add: release_frame_def is_set_of_nat clear_frame_def unat_of_nat_div_mod_32)
  next
    case 2
    then show ?thesis using assms k by (auto simp: release_frame_def is_set_of_nat)
  qed
  then show "pmm_wf ?s" "free_set ?s = insert k (free_set s)" by simp_all
qed

lemma reserve_frame_frame [simp]:
  "total_frames (reserve_frame i s) = total_frames s"
  "pmm_max_addr (reserve_frame i s) = pmm_max_addr s"
  "pmm_ready (reserve_frame i s) = pmm_ready s"
  "pmm_lock_word (reserve_frame i s) = pmm_lock_word s"
  by (simp_all add: reserve_frame_def set_frame_def)

lemma release_frame_frame [simp]:
  "total_frames (release_frame i s) = total_frames s"
  "pmm_max_addr (release_frame i s) = pmm_max_addr s"
  "pmm_ready (release_frame i s) = pmm_ready s"
  "pmm_lock_word (release_frame i s) = pmm_lock_word s"
  by (simp_all add: release_frame_def clear_frame_def)

section \<open>Ranges\<close>

text \<open>The 4 KiB frame number \<open>n\<close> shares a byte with the half-open byte range \<open>[a, b)\<close>.\<close>

definition frame_touches :: "nat \<Rightarrow> nat \<Rightarrow> nat \<Rightarrow> bool" where
  "frame_touches n a b \<longleftrightarrow> a < b \<and> 4096 * n < b \<and> a < 4096 * (n + 1)"

lemma frame_touches_interval:
  "a < b \<Longrightarrow> {a div 4096 ..< (b + 4095) div 4096} = {n. frame_touches n a b}"
  by (auto simp: frame_touches_def)

lemma fold_reserve:
  "pmm_wf s \<Longrightarrow> \<forall>k\<in>set ks. k < unat (total_frames s) \<Longrightarrow>
   (let s' = fold (\<lambda>i. reserve_frame (of_nat i)) ks s
    in pmm_wf s' \<and> free_set s' = free_set s - set ks \<and> total_frames s' = total_frames s \<and>
       pmm_max_addr s' = pmm_max_addr s \<and> pmm_ready s' = pmm_ready s \<and>
       pmm_lock_word s' = pmm_lock_word s)"
  by (induction ks arbitrary: s) (auto simp: Let_def reserve_frame_spec)

lemma fold_release:
  "pmm_wf s \<Longrightarrow> \<forall>k\<in>set ks. k < unat (total_frames s) \<Longrightarrow>
   (let s' = fold (\<lambda>i. release_frame (of_nat i)) ks s
    in pmm_wf s' \<and> free_set s' = free_set s \<union> set ks \<and> total_frames s' = total_frames s \<and>
       pmm_max_addr s' = pmm_max_addr s \<and> pmm_ready s' = pmm_ready s \<and>
       pmm_lock_word s' = pmm_lock_word s)"
  by (induction ks arbitrary: s) (auto simp: Let_def release_frame_spec)

lemma range_indices:
  assumes wf: "pmm_wf s" and "a < b" and "b \<le> pmm_max_addr s"
  shows "set [unat (align_down a 4096 div 4096) ..< unat (align_up b 4096 div 4096)] =
           {n. frame_touches n (unat a) (unat b)}"
    and "\<forall>k \<in> set [unat (align_down a 4096 div 4096) ..< unat (align_up b 4096 div 4096)].
           k < unat (total_frames s)"
proof -
  have tot: "unat (total_frames s) \<le> 131072" "unat (pmm_max_addr s) = unat (total_frames s) * 4096"
    using wf by (simp_all add: pmm_wf_def)
  have ab: "unat a < unat b" "unat b \<le> unat (pmm_max_addr s)"
    using assms(2,3) by (simp_all add: word_less_nat_alt word_le_nat_alt)
  have ia: "unat (align_down a 4096 div 4096) = unat a div 4096"
    by (simp add: unat_div unat_align_down_page)
  have "unat (align_up b 4096) = (unat b + 4095) div 4096 * 4096"
    using ab tot by (intro unat_align_up_page) simp
  then have ib: "unat (align_up b 4096 div 4096) = (unat b + 4095) div 4096"
    by (simp add: unat_div)
  show "set [unat (align_down a 4096 div 4096) ..< unat (align_up b 4096 div 4096)] =
      {n. frame_touches n (unat a) (unat b)}"
    using ab(1) by (simp add: ia ib frame_touches_interval)
  show "\<forall>k \<in> set [unat (align_down a 4096 div 4096) ..< unat (align_up b 4096 div 4096)].
      k < unat (total_frames s)"
    using ab tot by (auto simp: ia ib)
qed

definition same_frame :: "pmm \<Rightarrow> pmm \<Rightarrow> bool" where
  "same_frame s s' \<longleftrightarrow> total_frames s' = total_frames s \<and> pmm_max_addr s' = pmm_max_addr s \<and>
     pmm_ready s' = pmm_ready s \<and> pmm_lock_word s' = pmm_lock_word s"

lemma range_loop_reserve:
  assumes "pmm_wf s" and "a < b" and "b \<le> pmm_max_addr s"
  shows "pmm_wf (range_loop reserve_frame a b s) \<and>
    free_set (range_loop reserve_frame a b s) =
      free_set s - {n. frame_touches n (unat a) (unat b)} \<and>
    same_frame s (range_loop reserve_frame a b s)"
  unfolding range_loop_def same_frame_def Let_def range_indices(1) [OF assms, symmetric]
  using fold_reserve [OF assms(1) range_indices(2) [OF assms]] unfolding Let_def by blast

lemma range_loop_release:
  assumes "pmm_wf s" and "a < b" and "b \<le> pmm_max_addr s"
  shows "pmm_wf (range_loop release_frame a b s) \<and>
    free_set (range_loop release_frame a b s) =
      free_set s \<union> {n. frame_touches n (unat a) (unat b)} \<and>
    same_frame s (range_loop release_frame a b s)"
  unfolding range_loop_def same_frame_def Let_def range_indices(1) [OF assms, symmetric]
  using fold_release [OF assms(1) range_indices(2) [OF assms]] unfolding Let_def by blast

lemma range_frames_managed:
  "pmm_wf s \<Longrightarrow> a < b \<Longrightarrow> b \<le> pmm_max_addr s \<Longrightarrow> frame_touches n (unat a) (unat b) \<Longrightarrow>
   n < unat (total_frames s)"
  by (auto simp: frame_touches_def pmm_wf_def word_less_nat_alt word_le_nat_alt)

lemma free_set_touch_clip:
  "pmm_wf s \<Longrightarrow> n < unat (total_frames s) \<Longrightarrow> a < unat (pmm_max_addr s) \<Longrightarrow>
   frame_touches n a (min b (unat (pmm_max_addr s))) \<longleftrightarrow> frame_touches n a b"
  by (auto simp: frame_touches_def pmm_wf_def)

lemma reserve_range_spec:
  assumes wf: "pmm_wf s"
  shows "pmm_wf (reserve_range a b s) \<and>
    free_set (reserve_range a b s) = {n \<in> free_set s. \<not> frame_touches n (unat a) (unat b)} \<and>
    same_frame s (reserve_range a b s)"
proof (cases "a < b \<and> a < pmm_max_addr s")
  case True
  define e where "e = (if b > pmm_max_addr s then pmm_max_addr s else b)"
  have e: "a < e" "e \<le> pmm_max_addr s" "unat e = min (unat b) (unat (pmm_max_addr s))"
    using True by (auto simp: e_def word_less_nat_alt word_le_nat_alt)
  have "reserve_range a b s = range_loop reserve_frame a e s"
    using True by (auto simp: reserve_range_def e_def)
  moreover have "frame_touches n (unat a) (unat e) \<longleftrightarrow> frame_touches n (unat a) (unat b)"
    if "n \<in> free_set s" for n
    using free_set_touch_clip [OF wf, of n "unat a" "unat b"] that True
    by (simp add: e(3) free_set_def word_less_nat_alt)
  ultimately show ?thesis
    using range_loop_reserve [OF wf e(1,2)] by auto
next
  case False
  have "\<not> frame_touches n (unat a) (unat b)" if "n \<in> free_set s" for n
    using False that wf by (auto simp: frame_touches_def free_set_def pmm_wf_def word_less_nat_alt)
  moreover have "reserve_range a b s = s"
    using False by (auto simp: reserve_range_def)
  ultimately show ?thesis using wf by (auto simp: same_frame_def)
qed

lemma free_range_spec:
  assumes wf: "pmm_wf s"
  shows "pmm_wf (free_range a b s) \<and>
    free_set (free_range a b s) =
      free_set s \<union> {n. n < unat (total_frames s) \<and> frame_touches n (unat a) (unat b)} \<and>
    same_frame s (free_range a b s)"
proof (cases "a < b \<and> a < pmm_max_addr s")
  case True
  define e where "e = (if b > pmm_max_addr s then pmm_max_addr s else b)"
  have e: "a < e" "e \<le> pmm_max_addr s" "unat e = min (unat b) (unat (pmm_max_addr s))"
    using True by (auto simp: e_def word_less_nat_alt word_le_nat_alt)
  have "free_range a b s = range_loop release_frame a e s"
    using True by (auto simp: free_range_def e_def)
  moreover have "frame_touches n (unat a) (unat e) \<longleftrightarrow>
      n < unat (total_frames s) \<and> frame_touches n (unat a) (unat b)" for n
    using free_set_touch_clip [OF wf, of n "unat a" "unat b"] True
      range_frames_managed [OF wf e(1,2), of n]
    by (auto simp: e(3) word_less_nat_alt)
  ultimately show ?thesis
    using range_loop_release [OF wf e(1,2)] by auto
next
  case False
  then have "\<not> (n < unat (total_frames s) \<and> frame_touches n (unat a) (unat b))" for n
    using wf by (auto simp: frame_touches_def pmm_wf_def word_less_nat_alt)
  moreover have "free_range a b s = s"
    using False by (auto simp: free_range_def)
  ultimately show ?thesis using wf by (auto simp: same_frame_def)
qed

section \<open>The search for a free frame\<close>

lemma scan_bits_Some:
  "scan_bits w t i [b..<32] = Some f \<Longrightarrow>
   f < unat t \<and> i * 32 + b \<le> f \<and> f < i * 32 + 32 \<and> \<not> bit w (f - i * 32) \<and>
   (\<forall>d. b \<le> d \<and> i * 32 + d < f \<longrightarrow> bit w d)"
proof (induction "32 - b" arbitrary: b)
  case 0
  then show ?case by simp
next
  case (Suc k)
  then have b: "b < 32" "k = 32 - Suc b" by auto
  show ?case
  proof (cases "bit w b")
    case False
    with Suc.prems b show ?thesis by (auto simp: upt_conv_Cons Let_def split: if_splits)
  next
    case True
    with Suc.prems b have "scan_bits w t i [Suc b..<32] = Some f"
      by (auto simp: upt_conv_Cons Let_def split: if_splits)
    from Suc.hyps(1) [OF b(2) this] True show ?thesis
      by (auto simp: le_Suc_eq) (metis Suc_leI le_neq_implies_less)
  qed
qed

lemma scan_bits_None:
  "scan_bits w t i [b..<32] = None \<Longrightarrow> b \<le> d \<Longrightarrow> d < 32 \<Longrightarrow> i * 32 + d < unat t \<Longrightarrow> bit w d"
proof (induction "32 - b" arbitrary: b)
  case 0
  then show ?case by simp
next
  case (Suc k)
  then have b: "b < 32" "k = 32 - Suc b" by auto
  show ?case
  proof (cases "d = b")
    case True
    with Suc.prems b show ?thesis by (auto simp: upt_conv_Cons Let_def split: if_splits)
  next
    case False
    with Suc.prems b show ?thesis
      by (intro Suc.hyps(1) [of "Suc b"]) (auto simp: upt_conv_Cons Let_def split: if_splits)
  qed
qed

lemma all_ones [simp]: "(4294967295 :: u32) = - 1"
  by simp

lemma word_index:
  assumes "32 * k \<le> n" and "n < 32 * Suc k"
  shows "n div 32 = k \<and> n mod 32 = n - 32 * k"
proof -
  have "n div 32 = k" using assms by simp
  then show ?thesis by (metis minus_mult_div_eq_mod)
qed

lemma scan_words_Some:
  "scan_words s [k..<4096] = Some f \<Longrightarrow>
   f < unat (total_frames s) \<and> f < 131072 \<and> \<not> used_in (pmm_bitmap s) f \<and>
   (\<forall>n. 32 * k \<le> n \<and> n < f \<longrightarrow> used_in (pmm_bitmap s) n)"
proof (induction "4096 - k" arbitrary: k)
  case 0
  then show ?case by simp
next
  case (Suc j)
  then have k: "k < 4096" "j = 4096 - Suc k" by auto
  show ?case
  proof (cases "pmm_bitmap s ! k \<noteq> 0xFFFFFFFF \<and>
      scan_bits (pmm_bitmap s ! k) (total_frames s) k [0..<32] \<noteq> None")
    case True
    with Suc.prems k have f: "scan_bits (pmm_bitmap s ! k) (total_frames s) k [0..<32] = Some f"
      by (auto simp: upt_conv_Cons)
    note sb = scan_bits_Some [OF f]
    then have "f div 32 = k" "f mod 32 = f - k * 32"
      using word_index [of k f] by (auto simp: mult.commute)
    moreover have "used_in (pmm_bitmap s) n" if "32 * k \<le> n" "n < f" for n
    proof -
      have "n div 32 = k" "n mod 32 = n - 32 * k" using that sb word_index [of k n] by auto
      moreover have "bit (pmm_bitmap s ! k) (n - 32 * k)" using sb that by auto
      ultimately show ?thesis by (simp add: used_in_def)
    qed
    ultimately show ?thesis using sb k by (auto simp: used_in_def)
  next
    case False
    with Suc.prems k have rest: "scan_words s [Suc k..<4096] = Some f"
      by (auto simp: upt_conv_Cons split: option.splits)
    note IH = Suc.hyps(1) [OF k(2) rest]
    have "used_in (pmm_bitmap s) n" if "32 * k \<le> n" "n < 32 * Suc k" "n < f" for n
    proof -
      have n: "n div 32 = k" "n mod 32 = n - 32 * k" "n - 32 * k < 32"
        using that word_index [of k n] by auto
      have "bit (pmm_bitmap s ! k) (n - 32 * k)"
        using False scan_bits_None [of "pmm_bitmap s ! k" "total_frames s" k 0 "n - 32 * k"]
          that n IH by auto
      with n show ?thesis by (simp add: used_in_def)
    qed
    with IH show ?thesis by (metis not_less)
  qed
qed

lemma scan_words_None:
  "scan_words s [k..<4096] = None \<Longrightarrow> 32 * k \<le> n \<Longrightarrow> n < 131072 \<Longrightarrow>
   n < unat (total_frames s) \<Longrightarrow> used_in (pmm_bitmap s) n"
proof (induction "4096 - k" arbitrary: k)
  case 0
  then show ?case by simp
next
  case (Suc j)
  then have k: "k < 4096" "j = 4096 - Suc k" by auto
  show ?case
  proof (cases "n < 32 * Suc k")
    case True
    then have n: "n div 32 = k" "n mod 32 = n - 32 * k" "n - 32 * k < 32"
      using Suc.prems word_index [of k n] by auto
    have lim: "k * 32 + (n - 32 * k) < unat (total_frames s)" using Suc.prems by simp
    have "bit (pmm_bitmap s ! k) (n - 32 * k)"
    proof (cases "pmm_bitmap s ! k = 0xFFFFFFFF")
      case True
      with n show ?thesis by simp
    next
      case False
      with Suc.prems k have "scan_bits (pmm_bitmap s ! k) (total_frames s) k [0..<32] = None"
        by (auto simp: upt_conv_Cons [OF k(1)] split: option.splits)
      then show ?thesis
        by (rule scan_bits_None [OF _ le0 n(3) lim])
    qed
    with n show ?thesis by (simp add: used_in_def)
  next
    case False
    with Suc.prems k have "scan_words s [Suc k..<4096] = None"
      by (auto simp: upt_conv_Cons split: if_splits option.splits)
    with False Suc.prems k show ?thesis by (intro Suc.hyps(1) [of "Suc k"]) auto
  qed
qed

text \<open>The search finds the lowest free frame, and fails only when none is free.\<close>

lemma scan_words_Min:
  assumes "pmm_wf s"
  shows "scan_words s [0..<4096] = (if free_set s = {} then None else Some (Min (free_set s)))"
proof (cases "scan_words s [0..<4096]")
  case None
  have "free_set s = {}"
    using scan_words_None [OF None] assms by (auto simp: free_set_def pmm_wf_def)
  with None show ?thesis by simp
next
  case (Some f)
  note sw = scan_words_Some [OF Some]
  then have f: "f \<in> free_set s" by (simp add: free_set_def)
  moreover have "Min (free_set s) = f"
    using sw f by (intro Min_eqI) (auto simp: free_set_def not_less [symmetric])
  ultimately show ?thesis using Some by auto
qed

section \<open>What allocation and release do to the set of free frames\<close>

text \<open>A state an operation may start from: initialised, the lock free, well formed.\<close>

definition pmm_idle :: "pmm \<Rightarrow> bool" where
  "pmm_idle s \<longleftrightarrow> pmm_ready s \<and> pmm_lock_word s = 0 \<and> pmm_wf s"

lemma pmm_wf_lock [simp]: "pmm_wf (s\<lparr>pmm_lock_word := l\<rparr>) = pmm_wf s"
  and free_set_lock [simp]: "free_set (s\<lparr>pmm_lock_word := l\<rparr>) = free_set s"
  by (simp_all add: pmm_wf_def free_set_def)

lemma scan_words_lock [simp]: "scan_words (s\<lparr>pmm_lock_word := l\<rparr>) is = scan_words s is"
  by (induction "is") (auto split: option.splits)

lemma pmm_alloc_none:
  assumes "pmm_idle s" and "free_set s = {}"
  shows "pmm_alloc_frame s = Ok (0, s)"
  using assms scan_words_Min [of s]
  by (simp add: pmm_idle_def pmm_alloc_frame_def pmm_lock_def pmm_unlock_def)

lemma pmm_alloc_some:
  assumes idle: "pmm_idle s" and ne: "free_set s \<noteq> {}"
  shows "\<exists>s'. pmm_alloc_frame s = Ok (of_nat (Min (free_set s)) * 4096, s') \<and> pmm_idle s' \<and>
    free_set s' = free_set s - {Min (free_set s)} \<and> same_frame s s'"
proof -
  let ?k = "Min (free_set s)"
  let ?t = "s\<lparr>pmm_bitmap := (pmm_bitmap s)[?k div 32 :=
                     pmm_bitmap s ! (?k div 32) OR push_bit (?k mod 32) 1],
                   free_frames := free_frames s - 1, used_frames := used_frames s + 1\<rparr>"
  have wf: "pmm_wf s" using idle by (simp add: pmm_idle_def)
  have "?k \<in> free_set s" using ne by (simp add: Min_in)
  note t = take_frame [OF wf this refl]
  have "pmm_alloc_frame s = Ok (of_nat ?k * 4096, ?t\<lparr>pmm_lock_word := 0\<rparr>)"
    using idle ne scan_words_Min [OF wf]
    by (simp add: pmm_idle_def pmm_alloc_frame_def pmm_lock_def pmm_unlock_def)
  moreover have "pmm_idle (?t\<lparr>pmm_lock_word := 0\<rparr>)"
    using t(1) idle by (simp add: pmm_idle_def)
  moreover have "free_set (?t\<lparr>pmm_lock_word := 0\<rparr>) = free_set s - {?k}"
    using t(2) by simp
  moreover have "same_frame s (?t\<lparr>pmm_lock_word := 0\<rparr>)"
    using idle by (simp add: same_frame_def pmm_idle_def)
  ultimately show ?thesis by blast
qed

lemma same_frame_lock [simp]:
  "pmm_lock_word s = 0 \<Longrightarrow> same_frame (s\<lparr>pmm_lock_word := l\<rparr>) s' \<Longrightarrow>
   same_frame s (s'\<lparr>pmm_lock_word := 0\<rparr>)"
  by (simp add: same_frame_def)

lemma pmm_free_spec:
  assumes idle: "pmm_idle s"
  shows "\<exists>s'. pmm_free_frame a s = Ok s' \<and> pmm_idle s' \<and> same_frame s s' \<and>
    free_set s' = (if unat a mod 4096 = 0 \<and> unat a div 4096 < unat (total_frames s)
                   then insert (unat a div 4096) (free_set s) else free_set s)"
proof (cases "a AND 4095 = 0 \<and> a div 4096 < total_frames s")
  case True
  let ?k = "unat a div 4096"
  have "?k = unat (a div 4096)" by (simp add: unat_div)
  then have k: "of_nat ?k = a div 4096" "?k < unat (total_frames s)"
    using True by (simp_all only: of_nat_unat ucast_id word_less_nat_alt)
  have "unat (a AND 4095) = 0" using True by simp
  then have m: "unat a mod 4096 = 0" by (simp add: word_nat_simps)
  let ?l = "s\<lparr>pmm_lock_word := 1\<rparr>"
  have "pmm_wf ?l" using idle by (simp add: pmm_idle_def)
  note r = release_frame_spec [OF this, of ?k]
  have "pmm_free_frame a s = Ok ((release_frame (a div 4096) ?l)\<lparr>pmm_lock_word := 0\<rparr>)"
    using True idle
    by (auto simp: pmm_idle_def pmm_free_frame_def pmm_lock_def pmm_unlock_def Let_def)
  moreover have "pmm_idle ((release_frame (a div 4096) ?l)\<lparr>pmm_lock_word := 0\<rparr>)"
    using r k idle by (simp add: pmm_idle_def)
  moreover have "free_set ((release_frame (a div 4096) ?l)\<lparr>pmm_lock_word := 0\<rparr>) =
      insert ?k (free_set s)"
    using r k by simp
  moreover have "same_frame s ((release_frame (a div 4096) ?l)\<lparr>pmm_lock_word := 0\<rparr>)"
    using idle by (simp add: same_frame_def pmm_idle_def)
  ultimately show ?thesis using m k by auto
next
  case False
  have "unat a mod 4096 = 0 \<longleftrightarrow> a AND 4095 = 0"
    by (metis unat_and_page_mask unat_eq_0)
  moreover have "a div 4096 < total_frames s \<longleftrightarrow> unat a div 4096 < unat (total_frames s)"
    by (simp add: word_less_nat_alt unat_div)
  ultimately have "\<not> (unat a mod 4096 = 0 \<and> unat a div 4096 < unat (total_frames s))"
    using False by simp
  moreover have "pmm_free_frame a s = Ok s"
    using False idle
    by (auto simp: pmm_idle_def pmm_free_frame_def pmm_lock_def pmm_unlock_def Let_def not_less)
  ultimately show ?thesis using idle by (auto simp: same_frame_def pmm_idle_def)
qed

section \<open>Initialisation\<close>

lemma used_in_blank: "n < 131072 \<Longrightarrow> used_in (replicate 4096 0xFFFFFFFF) n"
  by (simp add: used_in_def)

lemma pmm_blank_wf: "pmm_wf (pmm_blank s h)" and pmm_blank_free: "free_set (pmm_blank s h) = {}"
proof -
  let ?h = "if h = 0 \<or> h > 0x20000000 then 0x20000000 else h"
  let ?t = "align_down ?h 4096 div 4096"
  have le: "unat ?h \<le> 536870912" by (auto simp: word_less_nat_alt)
  have t: "unat ?t = unat ?h div 4096"
    by (simp only: unat_div unat_align_down_page) simp
  have t': "unat ?t \<le> 131072" using le unfolding t by simp
  have m: "unat (align_down ?h 4096) = unat ?t * 4096"
    unfolding t unat_align_down_page by simp
  have ub: "used_in (replicate 4096 0xFFFFFFFF) n" if "n < 131072" for n
    using used_in_blank that by blast
  have bl: "pmm_bitmap (pmm_blank s h) = replicate 4096 0xFFFFFFFF"
    "total_frames (pmm_blank s h) = ?t" "pmm_max_addr (pmm_blank s h) = align_down ?h 4096"
    "free_frames (pmm_blank s h) = 0" "used_frames (pmm_blank s h) = ?t"
    unfolding pmm_blank_def Let_def by simp_all
  show fs: "free_set (pmm_blank s h) = {}"
    unfolding free_set_def bl using ub t' by auto
  show "pmm_wf (pmm_blank s h)"
    unfolding pmm_wf_def fs bl using ub t' m by simp
qed

text \<open>
  What a Multiboot2 block says about a frame: some available entry of the memory map touches it;
  some range the kernel must keep touches it (the first MiB, the kernel image, the block itself, a
  module, the framebuffer). \<open>ts\<close> are the tags of the block and \<open>ents t\<close> the entries of a
  memory-map tag, as the loops visit them.
\<close>

definition mb2_block :: "mem \<Rightarrow> u32 \<Rightarrow> u32 list \<Rightarrow> (u32 \<Rightarrow> u32 list) \<Rightarrow> bool" where
  "mb2_block m info ts ents \<longleftrightarrow>
     tag_chain m (info + info_total_size m info - 8) (info + 8) ts \<and>
     (\<forall>t\<in>set ts. tag_type m t = MULTIBOOT2_TAG_TYPE_MMAP \<longrightarrow>
        entry_chain (entry_size m t) (t + tag_size m t) (t + 16) (ents t))"

definition entry_touches :: "mem \<Rightarrow> u32 \<Rightarrow> nat \<Rightarrow> bool" where
  "entry_touches m e n \<longleftrightarrow> entry_type m e = MULTIBOOT2_MMAP_TYPE_AVAILABLE \<and>
     frame_touches n (unat (ucast (entry_addr m e) :: u32))
       (unat (ucast (entry_addr m e + entry_len m e) :: u32))"

text \<open>
  The addresses are cut to 32 bits: an available gigabyte from 4 GiB on makes every frame of the first
  gigabyte available, whatever other entries say of it.
\<close>

lemma entry_above_4GiB:
  assumes "entry_type m e = MULTIBOOT2_MMAP_TYPE_AVAILABLE" and "entry_addr m e = 0x100000000"
    and "entry_len m e = 0x40000000" and "n < 0x40000"
  shows "entry_touches m e n"
  using assms by (simp add: entry_touches_def frame_touches_def)

definition available_frame :: "mem \<Rightarrow> u32 list \<Rightarrow> (u32 \<Rightarrow> u32 list) \<Rightarrow> nat \<Rightarrow> bool" where
  "available_frame m ts ents n \<longleftrightarrow>
     (\<exists>t\<in>set ts. tag_type m t = MULTIBOOT2_TAG_TYPE_MMAP \<and> (\<exists>e\<in>set (ents t). entry_touches m e n))"

definition reserved_by_tag :: "mem \<Rightarrow> u32 \<Rightarrow> nat \<Rightarrow> bool" where
  "reserved_by_tag m t n \<longleftrightarrow>
     (if tag_type m t = MULTIBOOT2_TAG_TYPE_MODULE
      then frame_touches n (unat (mod_start m t)) (unat (mod_end m t))
      else tag_type m t = MULTIBOOT2_TAG_TYPE_FRAMEBUFFER \<and>
        (let addr = ucast (framebuffer_addr m t)
         in frame_touches n (unat addr)
              (unat (addr + framebuffer_pitch m t * framebuffer_height m t))))"

definition reserved_frame :: "mem \<Rightarrow> u32 \<Rightarrow> u32 \<Rightarrow> u32 \<Rightarrow> u32 list \<Rightarrow> nat \<Rightarrow> bool" where
  "reserved_frame m kernel_start kernel_end info ts n \<longleftrightarrow>
     frame_touches n 0 0x100000 \<or>
     frame_touches n (unat kernel_start) (unat kernel_end) \<or>
     frame_touches n (unat info) (unat (info + info_total_size m info)) \<or>
     (\<exists>t\<in>set ts. reserved_by_tag m t n)"

lemma same_frame_trans: "same_frame s t \<Longrightarrow> same_frame t u \<Longrightarrow> same_frame s u"
  and same_frame_refl [simp]: "same_frame s s"
  and same_frame_total: "same_frame s t \<Longrightarrow> total_frames t = total_frames s"
  by (simp_all add: same_frame_def)

lemma fold_free_entry:
  "pmm_wf s \<Longrightarrow> pmm_wf (fold (free_entry m) es s) \<and> same_frame s (fold (free_entry m) es s) \<and>
   free_set (fold (free_entry m) es s) =
     free_set s \<union> {n. n < unat (total_frames s) \<and> (\<exists>e\<in>set es. entry_touches m e n)}"
proof (induction es arbitrary: s)
  case Nil
  then show ?case by simp
next
  case (Cons e es)
  have fe: "pmm_wf (free_entry m e s) \<and> same_frame s (free_entry m e s) \<and>
    free_set (free_entry m e s) =
      free_set s \<union> {n. n < unat (total_frames s) \<and> entry_touches m e n}"
    using free_range_spec [OF Cons.prems] Cons.prems
    by (auto simp: free_entry_def entry_touches_def)
  then have "pmm_wf (free_entry m e s)" by simp
  from Cons.IH [OF this] fe show ?case
    by (auto simp: same_frame_total intro: same_frame_trans)
qed

lemma free_tags:
  assumes "\<forall>t\<in>set ts. tag_type m t = MULTIBOOT2_TAG_TYPE_MMAP \<longrightarrow>
        entry_chain (entry_size m t) (t + tag_size m t) (t + 16) (ents t)" and "pmm_wf s"
  shows "\<exists>s'. ofold (free_tag m) ts s = Some s' \<and> pmm_wf s' \<and> same_frame s s' \<and>
    free_set s' = free_set s \<union> {n. n < unat (total_frames s) \<and> available_frame m ts ents n}"
  using assms
proof (induction ts arbitrary: s)
  case Nil
  then show ?case by (auto simp: available_frame_def)
next
  case (Cons t ts)
  let ?new = "{n. n < unat (total_frames s) \<and> available_frame m [t] ents n}"
  have "\<exists>s1. free_tag m t s = Some s1 \<and> pmm_wf s1 \<and> same_frame s s1 \<and>
      free_set s1 = free_set s \<union> ?new"
  proof (cases "tag_type m t = MULTIBOOT2_TAG_TYPE_MMAP")
    case True
    with Cons.prems have "entry_chain (entry_size m t) (t + tag_size m t) (t + 16) (ents t)" by simp
    then have "free_tag m t s = Some (fold (free_entry m) (ents t) s)"
      using True by (simp add: free_tag_def mmap_walk_def entry_walk_chain)
    with fold_free_entry [OF Cons.prems(2), of m "ents t"] True show ?thesis
      by (auto simp: available_frame_def)
  next
    case False
    with Cons.prems show ?thesis by (auto simp: free_tag_def available_frame_def)
  qed
  then obtain s1 where s1: "free_tag m t s = Some s1" "pmm_wf s1" "same_frame s s1"
    "free_set s1 = free_set s \<union> ?new" by blast
  from Cons.IH [OF _ s1(2)] Cons.prems(1) obtain s2 where
    "ofold (free_tag m) ts s1 = Some s2" "pmm_wf s2" "same_frame s1 s2"
    "free_set s2 = free_set s1 \<union> {n. n < unat (total_frames s1) \<and> available_frame m ts ents n}"
    by auto
  with s1 show ?case
    by (auto simp: same_frame_total available_frame_def intro: same_frame_trans)
qed

lemma reserve_tags:
  "pmm_wf s \<Longrightarrow> \<exists>s'. ofold (reserve_tag m) ts s = Some s' \<and> pmm_wf s' \<and> same_frame s s' \<and>
    free_set s' = {n \<in> free_set s. \<not> (\<exists>t\<in>set ts. reserved_by_tag m t n)}"
proof (induction ts arbitrary: s)
  case Nil
  then show ?case by simp
next
  case (Cons t ts)
  have "\<exists>s1. reserve_tag m t s = Some s1 \<and> pmm_wf s1 \<and> same_frame s s1 \<and>
      free_set s1 = {n \<in> free_set s. \<not> reserved_by_tag m t n}"
    using reserve_range_spec [OF Cons.prems] Cons.prems
    by (auto simp: reserve_tag_def reserved_by_tag_def Let_def)
  then obtain s1 where s1: "reserve_tag m t s = Some s1" "pmm_wf s1" "same_frame s s1"
    "free_set s1 = {n \<in> free_set s. \<not> reserved_by_tag m t n}" by blast
  from Cons.IH [OF s1(2)] obtain s2 where
    "ofold (reserve_tag m) ts s1 = Some s2" "pmm_wf s2" "same_frame s1 s2"
    "free_set s2 = {n \<in> free_set s1. \<not> (\<exists>t\<in>set ts. reserved_by_tag m t n)}" by blast
  with s1 show ?case by (auto intro: same_frame_trans)
qed

lemma highest_tags_return:
  assumes "mb2_block m info ts ents"
  shows "\<exists>h. ofold (highest_tag m) ts h0 = Some h"
proof -
  have "\<forall>t\<in>set ts. \<forall>h. \<exists>h'. highest_tag m t h = Some h'"
    using assms
    by (auto simp: mb2_block_def highest_tag_def mmap_walk_def entry_walk_chain Let_def)
  then show ?thesis by (rule ofold_returns)
qed

text \<open>
  What a block says of the size of the memory: the end of every available entry, at most 0xFFFFFFFF, and the
  size a basic memory tag gives. The highest of these, cut to the bitmap's 512 MiB, which also stand for a
  block that says nothing, is the memory that is managed.
\<close>

definition tag_tops :: "mem \<Rightarrow> (u32 \<Rightarrow> u32 list) \<Rightarrow> u32 \<Rightarrow> nat list" where
  "tag_tops m ents t =
     (if tag_type m t = MULTIBOOT2_TAG_TYPE_MMAP
      then [min (unat (entry_addr m e + entry_len m e)) 0xFFFFFFFF. e \<leftarrow> ents t, entry_type m e = MULTIBOOT2_MMAP_TYPE_AVAILABLE]
      else if tag_type m t = MULTIBOOT2_TAG_TYPE_BASIC_MEMINFO then [unat (0x100000 + mem_upper m t * 1024)]
      else [])"

definition managed_frames :: "mem \<Rightarrow> u32 list \<Rightarrow> (u32 \<Rightarrow> u32 list) \<Rightarrow> nat" where
  "managed_frames m ts ents =
     (let top = Max (set (0 # concat (map (tag_tops m ents) ts)))
      in (if top = 0 \<or> top > 0x20000000 then 0x20000000 else top) div 4096)"

lemma unat_highest_entry:
  "unat (highest_entry m e h) =
    (if entry_type m e = MULTIBOOT2_MMAP_TYPE_AVAILABLE then max (unat h) (min (unat (entry_addr m e + entry_len m e)) 0xFFFFFFFF) else unat h)"
proof -
  define a where "a = entry_addr m e + entry_len m e"
  have h: "unat (ucast h :: u64) = unat h"
    by (simp add: unsigned_ucast_eq take_bit_nat_eq_self order.strict_trans [OF unat_u32_lt])
  have l: "unat h \<le> 4294967295" using unat_u32_lt [of h] by linarith
  have c: "unat (ucast a :: u32) = unat a" if "\<not> a > 0xFFFFFFFF"
    using that by (simp add: unsigned_ucast_eq take_bit_nat_eq_self word_less_nat_alt)
  show ?thesis
    using c h l by (auto simp: highest_entry_def Let_def word_less_nat_alt min_def max_def unat_minus_one_u32 simp flip: a_def)
qed

lemma unat_highest_entries:
  "unat (fold (highest_entry m) es h) =
    fold max [min (unat (entry_addr m e + entry_len m e)) 0xFFFFFFFF. e \<leftarrow> es, entry_type m e = MULTIBOOT2_MMAP_TYPE_AVAILABLE] (unat h)"
  by (induction es arbitrary: h) (simp_all add: unat_highest_entry max.commute)

lemma unat_highest_tags:
  assumes "\<forall>t\<in>set ts. tag_type m t = MULTIBOOT2_TAG_TYPE_MMAP \<longrightarrow>
    entry_chain (entry_size m t) (t + tag_size m t) (t + 16) (ents t)"
    and "ofold (highest_tag m) ts h = Some h'"
  shows "unat h' = fold max (concat (map (tag_tops m ents) ts)) (unat h)"
  using assms
proof (induction ts arbitrary: h)
  case (Cons t ts)
  then obtain h1 where h1: "highest_tag m t h = Some h1" "ofold (highest_tag m) ts h1 = Some h'"
    by (auto simp: Option.bind_eq_Some_conv)
  have "unat h1 = fold max (tag_tops m ents t) (unat h)"
    using h1(1) Cons.prems(1)
    by (auto simp: highest_tag_def mmap_walk_def entry_walk_chain tag_tops_def Let_def unat_highest_entries word_less_nat_alt
        split: if_splits)
  then show ?case using Cons.IH [OF _ h1(2)] Cons.prems(1) by simp
qed simp

lemma unat_blank_frames:
  "unat (total_frames (pmm_blank s h)) = (if unat h = 0 \<or> unat h > 0x20000000 then 0x20000000 else unat h) div 4096"
proof -
  let ?h = "if h = 0 \<or> h > 0x20000000 then 0x20000000 else h"
  have "unat (align_down ?h 4096 div 4096) = unat ?h div 4096"
    by (simp only: unat_div unat_align_down_page) simp
  then show ?thesis by (auto simp: pmm_blank_def Let_def word_less_nat_alt unat_eq_0)
qed

lemma highest_managed:
  assumes "mb2_block m info ts ents" and "ofold (highest_tag m) ts 0 = Some h"
  shows "unat (total_frames (pmm_blank s h)) = managed_frames m ts ents"
proof -
  have "unat h = fold max (concat (map (tag_tops m ents) ts)) (unat (0 :: u32))"
    by (rule unat_highest_tags [OF _ assms(2)]) (use assms(1) in \<open>simp add: mb2_block_def\<close>)
  then have "unat h = Max (set (0 # concat (map (tag_tops m ents) ts)))" by (simp only: Max.set_eq_fold) simp
  then show ?thesis by (simp only: unat_blank_frames managed_frames_def Let_def)
qed

lemma pmm_init_total:
  assumes blk: "mb2_block m info ts ents" and info: "info \<noteq> 0"
  shows "\<exists>s'. pmm_init m ks ke MULTIBOOT2_BOOTLOADER_MAGIC info s = Ok s' \<and> pmm_idle s' \<and>
    unat (total_frames s') = managed_frames m ts ents \<and>
    free_set s' = {n. n < unat (total_frames s') \<and> available_frame m ts ents n \<and>
      \<not> reserved_frame m ks ke info ts n}"
proof -
  let ?size = "info_total_size m info"
  have chain: "tag_chain m (info + ?size - 8) (info + 8) ts" using blk by (simp add: mb2_block_def)
  obtain h where h: "ofold (highest_tag m) ts 0 = Some h"
    using highest_tags_return [OF blk] by blast
  obtain s1 where s1: "ofold (free_tag m) ts (pmm_blank s h) = Some s1" "pmm_wf s1"
      "same_frame (pmm_blank s h) s1"
    and f1: "free_set s1 = {n. n < unat (total_frames s1) \<and> available_frame m ts ents n}"
    using free_tags [OF _ pmm_blank_wf, of ts m ents s h] blk pmm_blank_free
    by (auto simp: mb2_block_def same_frame_total)
  define s2 where "s2 = reserve_range info (info + ?size)
    (reserve_range ks ke (reserve_range 0 0x100000 s1))"
  have s2: "pmm_wf s2 \<and> same_frame s1 s2 \<and> free_set s2 = {n \<in> free_set s1.
      \<not> (frame_touches n 0 0x100000 \<or> frame_touches n (unat ks) (unat ke) \<or>
         frame_touches n (unat info) (unat (info + ?size)))}"
  proof -
    let ?t1 = "reserve_range 0 0x100000 s1" and ?t2 = "reserve_range ks ke (reserve_range 0 0x100000 s1)"
    have t1: "pmm_wf ?t1" "same_frame s1 ?t1"
      "free_set ?t1 = {n \<in> free_set s1. \<not> frame_touches n 0 0x100000}"
      using reserve_range_spec [OF s1(2), of 0 "0x100000"] by simp_all
    have t2: "pmm_wf ?t2" "same_frame ?t1 ?t2"
      "free_set ?t2 = {n \<in> free_set ?t1. \<not> frame_touches n (unat ks) (unat ke)}"
      using reserve_range_spec [OF t1(1), of ks ke] by simp_all
    have t3: "pmm_wf s2" "same_frame ?t2 s2"
      "free_set s2 = {n \<in> free_set ?t2. \<not> frame_touches n (unat info) (unat (info + ?size))}"
      unfolding s2_def using reserve_range_spec [OF t2(1), of info "info + ?size"] by blast+
    show ?thesis
      unfolding t3(3) t2(3) t1(3)
      using t3(1) same_frame_trans [OF t1(2) same_frame_trans [OF t2(2) t3(2)]] by blast
  qed
  obtain s3 where s3: "ofold (reserve_tag m) ts s2 = Some s3" "pmm_wf s3" "same_frame s2 s3"
    "free_set s3 = {n \<in> free_set s2. \<not> (\<exists>t\<in>set ts. reserved_by_tag m t n)}"
    using reserve_tags [of s2 m ts] s2 by blast
  let ?s' = "s3\<lparr>pmm_lock_word := 0, pmm_ready := True\<rparr>"
  have "pmm_init m ks ke MULTIBOOT2_BOOTLOADER_MAGIC info s = Ok ?s'"
    using info h s1(1) s3(1)
    by (simp add: pmm_init_def Let_def tag_walk_chain [OF chain] flip: s2_def)
  moreover have "pmm_idle ?s'" using s3(2) by (simp add: pmm_idle_def pmm_wf_def free_set_def)
  moreover have "free_set ?s' = free_set s3" by (simp add: free_set_def)
  moreover have "total_frames ?s' = total_frames s1" "total_frames s1 = total_frames (pmm_blank s h)"
    using s2 same_frame_total [OF s3(3)] same_frame_total [OF s1(3)] same_frame_total [of s1 s2] by simp_all
  ultimately show ?thesis
    using s2 s3(4) f1 highest_managed [OF blk h, of s] by (auto simp: reserved_frame_def)
qed

section \<open>The manager as a provider of frames\<close>

definition frame_addr :: "nat \<Rightarrow> u32" where
  "frame_addr n = of_nat n * 4096"

definition frames_avail :: "pmm \<Rightarrow> u32 set" where
  "frames_avail s = frame_addr ` free_set s"

definition frames_managed :: "pmm \<Rightarrow> u32 set" where
  "frames_managed s = frame_addr ` {1..<unat (total_frames s)}"

text \<open>Frame 0 is never handed out while it stays reserved, as the initialisation leaves it.\<close>

definition pmm_inv :: "pmm \<Rightarrow> bool" where
  "pmm_inv s \<longleftrightarrow> pmm_idle s \<and> 0 \<notin> free_set s"

lemma unat_frame_addr: "n < 131072 \<Longrightarrow> unat (frame_addr n) = n * 4096"
  by (simp add: frame_addr_def unat_word_ariths unat_of_nat)

lemma frame_addr_inj: "n < 131072 \<Longrightarrow> k < 131072 \<Longrightarrow> frame_addr n = frame_addr k \<longleftrightarrow> n = k"
  by (metis mult_right_cancel unat_frame_addr zero_neq_numeral)

lemma free_set_bound: "pmm_wf s \<Longrightarrow> n \<in> free_set s \<Longrightarrow> n < 131072"
  by (auto simp: free_set_def pmm_wf_def)

lemma frames_avail_diff:
  assumes "pmm_wf s" and "k \<in> free_set s"
  shows "frame_addr ` (free_set s - {k}) = frames_avail s - {frame_addr k}"
  using assms free_set_bound [OF assms(1)] by (auto simp: frames_avail_def frame_addr_inj)

interpretation pmm: frame_provider pmm_alloc_frame pmm_free_frame pmm_inv frames_avail frames_managed
proof unfold_locales
  fix s assume inv: "pmm_inv s"
  then have idle: "pmm_idle s" and wf: "pmm_wf s" by (simp_all add: pmm_inv_def pmm_idle_def)
  have tot: "unat (total_frames s) \<le> 131072" using wf by (simp add: pmm_wf_def)
  show "frames_avail s = {} \<Longrightarrow> pmm_alloc_frame s = Ok (0, s)"
    using pmm_alloc_none [OF idle] by (simp add: frames_avail_def)
  show "\<exists>a s'. pmm_alloc_frame s = Ok (a, s') \<and> a \<in> frames_avail s \<and> pmm_inv s' \<and>
      frames_avail s' = frames_avail s - {a} \<and> frames_managed s' = frames_managed s"
    if "frames_avail s \<noteq> {}"
  proof -
    let ?k = "Min (free_set s)"
    have ne: "free_set s \<noteq> {}" using that by (simp add: frames_avail_def)
    then have k: "?k \<in> free_set s" by (simp add: Min_in)
    obtain s' where "pmm_alloc_frame s = Ok (frame_addr ?k, s')" "pmm_idle s'"
      "free_set s' = free_set s - {?k}" "same_frame s s'"
      using pmm_alloc_some [OF idle ne] by (auto simp: frame_addr_def)
    then show ?thesis
      using k frames_avail_diff [OF wf k] inv
      by (auto simp: pmm_inv_def frames_managed_def same_frame_total frames_avail_def)
  qed
  show "\<exists>s'. pmm_free_frame a s = Ok s' \<and> pmm_inv s' \<and>
      frames_avail s' = insert a (frames_avail s) \<and> frames_managed s' = frames_managed s"
    if am: "a \<in> frames_managed s" for a
  proof -
    obtain n where n: "a = frame_addr n" "1 \<le> n" "n < unat (total_frames s)"
      using am by (auto simp: frames_managed_def)
    have u: "unat a = n * 4096" using n tot by (simp add: unat_frame_addr)
    then have "unat a mod 4096 = 0" "unat a div 4096 = n" by simp_all
    with pmm_free_spec [OF idle, of a] n show ?thesis
      using inv by (auto simp: pmm_inv_def frames_managed_def same_frame_total frames_avail_def)
  qed
  show "frames_avail s \<subseteq> frames_managed s"
    using inv by (auto simp: frames_avail_def frames_managed_def pmm_inv_def free_set_def
        intro!: imageI) (metis Suc_leI not_gr0)
  show "a AND 4095 = 0" if "a \<in> frames_managed s" for a
  proof -
    have "unat a mod 4096 = 0"
      using that tot by (auto simp: frames_managed_def unat_frame_addr)
    then show ?thesis by (metis unat_and_page_mask unat_eq_0)
  qed
  show "0 \<notin> frames_managed s"
    using tot frame_addr_inj [of 0]
    by (auto simp: frames_managed_def frame_addr_def [of 0])
qed

section \<open>Properties\<close>

text \<open>A small Multiboot2 block at 0x1000: one memory-map tag with the available region
  \<open>[0x100000, 0x400000)\<close>.\<close>

definition example_block :: "u8 list" where
  "example_block =
     [0x38,0,0,0, 0,0,0,0,
      6,0,0,0, 40,0,0,0, 24,0,0,0, 0,0,0,0,
      0,0,0x10,0, 0,0,0,0, 0,0,0x30,0, 0,0,0,0, 1,0,0,0, 0,0,0,0,
      0,0,0,0, 8,0,0,0]"

definition example_mem :: mem where
  "example_mem a = (let i = unat (a - 0x1000) in if i < length example_block then example_block ! i else 0)"

lemma example_mb2_block: "mb2_block example_mem 0x1000 [0x1008] (\<lambda>_. [0x1018])"
  by (simp add: mb2_block_def tag_end_def tag_size_def tag_type_def entry_size_def
      info_total_size_def ld32_def example_mem_def example_block_def Let_def)


text \<open>The block of the example has 4 MiB, of which the first and half of the second are kept.\<close>

lemma example_fields:
  "tag_type example_mem 0x1008 = 6" "entry_type example_mem 0x1018 = 1" "entry_addr example_mem 0x1018 = 0x100000"
  "entry_len example_mem 0x1018 = 0x300000" "info_total_size example_mem 0x1000 = 0x38"
  by code_simp+

lemma example_top: "managed_frames example_mem [0x1008] (\<lambda>_. [0x1018]) = 0x400"
  by (simp add: managed_frames_def tag_tops_def example_fields)

lemma example_free:
  "n < 0x400 \<and> available_frame example_mem [0x1008] (\<lambda>_. [0x1018]) n \<and> \<not> reserved_frame example_mem 0x100000 0x180000 0x1000 [0x1008] n
    \<longleftrightarrow> 0x180 \<le> n \<and> n < 0x400"
proof -
  have "available_frame example_mem [0x1008] (\<lambda>_. [0x1018]) n \<longleftrightarrow> 0x100 \<le> n \<and> n < 0x400"
    by (simp add: available_frame_def entry_touches_def frame_touches_def example_fields) linarith
  moreover have "reserved_frame example_mem 0x100000 0x180000 0x1000 [0x1008] n \<longleftrightarrow> n < 0x180"
    by (simp add: reserved_frame_def reserved_by_tag_def frame_touches_def example_fields) linarith
  ultimately show ?thesis by auto
qed


text \<open>A state just after an initialisation, for the witnesses: frames 1 and 2 free of 4.\<close>

definition example_pmm :: pmm where
  "example_pmm = free_range 0x1000 0x3000 ((pmm_blank pmm_zero 0x4000)\<lparr>pmm_ready := True\<rparr>)"

lemma example_pmm: "pmm_inv example_pmm" "free_set example_pmm = {1, 2}"
proof -
  let ?b = "(pmm_blank pmm_zero 0x4000)\<lparr>pmm_ready := True\<rparr>"
  have wf: "pmm_wf ?b" and fr: "free_set ?b = {}"
    using pmm_blank_wf [of pmm_zero "0x4000"] pmm_blank_free [of pmm_zero "0x4000"]
    by (simp_all add: pmm_wf_def free_set_def)
  have "total_frames ?b = 4" "pmm_ready ?b" "pmm_lock_word ?b = 0"
    by (simp_all add: pmm_blank_def align_down_def pmm_zero_def)
  moreover have "{n. n < 4 \<and> frame_touches n 4096 12288} = {1, 2}"
    by (auto simp: frame_touches_def)
  ultimately show "free_set example_pmm = {1, 2}" "pmm_inv example_pmm"
    using free_range_spec [OF wf, of "0x1000" "0x3000"] fr
    by (auto simp: example_pmm_def pmm_inv_def pmm_idle_def same_frame_def)
qed

text \<open>
  C3: \<open>pmm_alloc_frame\<close> takes the lowest free frame, returns its physical address, moves the
  counters by one and releases its lock; with no frame free it returns 0 and changes nothing. (The
  address of frame 0 is 0 as well: a free frame 0 is consumed and reported as a failure.)
\<close>

theorem pmm_alloc_lowest:
  assumes "pmm_idle s"
  shows "if free_set s = {} then pmm_alloc_frame s = Ok (0, s)
    else \<exists>s'. pmm_alloc_frame s = Ok (of_nat (Min (free_set s)) * 4096, s') \<and> pmm_idle s' \<and>
      free_set s' = free_set s - {Min (free_set s)} \<and> same_frame s s'"
  using pmm_alloc_none [OF assms] pmm_alloc_some [OF assms] by simp

theorem pmm_alloc_lowest_witness:
  "\<exists>s'. pmm_alloc_frame example_pmm = Ok (0x1000, s') \<and> free_set s' = {2}"
proof -
  have "pmm_idle example_pmm" using example_pmm(1) by (simp add: pmm_inv_def)
  from pmm_alloc_lowest [OF this] show ?thesis
    by (simp add: example_pmm(2)) auto
qed

text \<open>
  C4: \<open>pmm_free_frame\<close> makes exactly the frame at its argument free, when the argument is page
  aligned and managed, and does nothing otherwise; releasing a free frame again changes no
  counter.
\<close>

theorem pmm_free_frame_effect:
  assumes "pmm_idle s"
  shows "\<exists>s'. pmm_free_frame a s = Ok s' \<and> pmm_idle s' \<and> same_frame s s' \<and>
    free_set s' = (if unat a mod 4096 = 0 \<and> unat a div 4096 < unat (total_frames s)
                   then insert (unat a div 4096) (free_set s) else free_set s) \<and>
    unat (free_frames s') = card (free_set s')"
  using pmm_free_spec [OF assms, of a] by (auto simp: pmm_idle_def pmm_wf_def)

theorem pmm_free_frame_effect_witness:
  "\<exists>s'. pmm_free_frame 0x1001 example_pmm = Ok s' \<and> free_set s' = {1, 2}"
proof -
  have "pmm_idle example_pmm" using example_pmm(1) by (simp add: pmm_inv_def)
  from pmm_free_frame_effect [OF this, of "0x1001"] show ?thesis
    by (auto simp: example_pmm(2))
qed

text \<open>
  C5: Frames handed out and not given back never coincide: whatever a client holds after any
  sequence of allocations and releases of its own frames, the next frame it gets is page aligned
  and not one it holds.
\<close>

theorem pmm_alloc_never_aliases:
  assumes "pmm_inv s0" and "frame_owner pmm_alloc_frame pmm_free_frame s0 s H"
    and "pmm_alloc_frame s = Ok (a, s')" and "a \<noteq> 0"
  shows "a \<notin> H \<and> a AND 4095 = 0"
  using pmm.alloc_fresh [OF assms] pmm.owner_invariant [OF assms(2,1)]
    pmm.alloc_aligned [OF _ assms(3)] by simp

theorem pmm_alloc_never_aliases_witness:
  "\<exists>a s b s'. pmm_alloc_frame example_pmm = Ok (a, s) \<and> pmm_alloc_frame s = Ok (b, s') \<and>
     b \<noteq> 0 \<and> b \<notin> {a} \<and> b AND 4095 = 0"
proof -
  have idle: "pmm_idle example_pmm" using example_pmm(1) by (simp add: pmm_inv_def)
  obtain s where s: "pmm_alloc_frame example_pmm = Ok (0x1000, s)" "pmm_idle s" "free_set s = {2}"
    using pmm_alloc_some [OF idle] by (auto simp: example_pmm(2))
  obtain s' where s': "pmm_alloc_frame s = Ok (0x2000, s')"
    using pmm_alloc_some [OF s(2)] by (auto simp: s(3))
  have "frame_owner pmm_alloc_frame pmm_free_frame example_pmm s {0x1000}"
    using frame_owner.take_ok [where alloc = pmm_alloc_frame and free = pmm_free_frame
        and s = example_pmm and a = "0x1000" and s' = s, OF frame_owner.start s(1)]
    by simp
  from pmm_alloc_never_aliases [OF example_pmm(1) this s'] s(1) s' show ?thesis
    by auto
qed

text \<open>
  The states the manager goes through: an initialisation that returns, then any allocations and
  releases of any address.
\<close>

inductive pmm_reachable :: "pmm \<Rightarrow> bool" where
  init: "mb2_block m info ts ents \<Longrightarrow> pmm_init m ks ke magic info s0 = Ok s \<Longrightarrow> pmm_reachable s"
| alloc: "pmm_reachable s \<Longrightarrow> pmm_alloc_frame s = Ok (a, s') \<Longrightarrow> pmm_reachable s'"
| free: "pmm_reachable s \<Longrightarrow> pmm_free_frame a s = Ok s' \<Longrightarrow> pmm_reachable s'"

lemma pmm_init_Ok_args: "pmm_init m ks ke magic info s0 = Ok s \<Longrightarrow>
  magic = MULTIBOOT2_BOOTLOADER_MAGIC \<and> info \<noteq> 0"
  by (auto simp: pmm_init_def split: if_splits)

lemma pmm_reachable_idle: "pmm_reachable s \<Longrightarrow> pmm_idle s"
proof (induction rule: pmm_reachable.induct)
  case (init m info ts ents ks ke magic s0 s)
  with pmm_init_Ok_args [OF init(2)] pmm_init_total [OF init(1), of ks ke s0]
  show ?case by auto
next
  case (alloc s a s')
  then show ?case
    using pmm_alloc_none [of s] pmm_alloc_some [of s] by (cases "free_set s = {}") auto
next
  case (free s a s')
  then show ?case using pmm_free_spec [of s a] by auto
qed

text \<open>
  In every reachable state the counters agree with the bitmap: \<open>free_frames\<close> is the number of
  clear bits below \<open>total_frames\<close>, \<open>used_frames\<close> the rest, no bit above is clear, and the lock
  is free.
\<close>

theorem pmm_reachable_counters:
  assumes "pmm_reachable s"
  shows "unat (free_frames s) = card (free_set s) \<and>
    unat (free_frames s) + unat (used_frames s) = unat (total_frames s) \<and>
    (\<forall>n. unat (total_frames s) \<le> n \<and> n < PMM_MAX_FRAMES \<longrightarrow> used_in (pmm_bitmap s) n) \<and>
    pmm_lock_word s = 0"
  using pmm_reachable_idle [OF assms] card_free_set_le [of s]
  by (simp add: pmm_idle_def pmm_wf_def)

theorem pmm_reachable_counters_witness:
  "\<exists>s. pmm_reachable s \<and> unat (free_frames s) + unat (used_frames s) = unat (total_frames s)"
proof -
  obtain s where "pmm_init example_mem 0x100000 0x180000 MULTIBOOT2_BOOTLOADER_MAGIC 0x1000
      pmm_zero = Ok s"
    using pmm_init_total [OF example_mb2_block, of "0x100000" "0x180000" pmm_zero] by auto
  then have "pmm_reachable s" by (rule pmm_reachable.init [OF example_mb2_block])
  with pmm_reachable_counters [OF this] show ?thesis by blast
qed

end
