(* ===== verification/Paging.thy ===== *)
theory Paging
  imports Prelude
begin

unbundle bit_operations_syntax

text \<open>
  Paging, \<open>kernel/mem/paging.c\<close>: the page directory, the pool of page tables, mapping and
  unmapping of single pages, the walk that translates an address, and the construction of the
  identity map at boot. A pointer to a page table is its physical address; the tables are a memory
  of their own, addressed by it. The abstract state is the function \<open>pte\<close> from page numbers to
  page-table entries.
\<close>

section \<open>State\<close>

abbreviation (input) "PAGE_PRESENT \<equiv> (1 :: u32)"
abbreviation (input) "PAGE_WRITE \<equiv> (2 :: u32)"
abbreviation (input) "MAX_BOOTSTRAP_TABLES \<equiv> (256 :: u32)"

record paging =
  pg_dir :: "u32 list"
  pg_pool :: u32                    \<comment> \<open>the address of \<open>g_table_pool\<close>, page aligned\<close>
  pg_tables :: "u32 \<Rightarrow> u32 list"    \<comment> \<open>the table at a physical address\<close>
  pg_tables_used :: u32
  pg_enabled :: bool
  pg_cr3 :: u32

section \<open>Operations\<close>

definition alloc_table :: "paging \<Rightarrow> (u32 \<times> paging) res" where
  "alloc_table s =
     (if pg_tables_used s \<ge> MAX_BOOTSTRAP_TABLES
      then Fail (Panic ''paging: table pool exhausted'')
      else let table = pg_pool s + pg_tables_used s * 4096
           in Ok (table, s\<lparr>pg_tables_used := pg_tables_used s + 1,
                           pg_tables := (pg_tables s)(table := replicate 1024 0)\<rparr>))"

definition pd_index :: "u32 \<Rightarrow> nat" where
  "pd_index virt = unat (drop_bit 22 virt AND 0x3FF)"

definition pt_index :: "u32 \<Rightarrow> nat" where
  "pt_index virt = unat (drop_bit 12 virt AND 0x3FF)"

text \<open>\<open>get_table\<close> returns the table's address, 0 for the null pointer.\<close>

definition get_table :: "u32 \<Rightarrow> bool \<Rightarrow> paging \<Rightarrow> (u32 \<times> paging) res" where
  "get_table virt create s =
     (let pde = pg_dir s ! pd_index virt
      in if pde AND PAGE_PRESENT = 0
         then (if \<not> create then Ok (0, s)
               else rbind (alloc_table s) (\<lambda>(table, s).
                 Ok (table, s\<lparr>pg_dir := (pg_dir s)[pd_index virt :=
                                table OR PAGE_PRESENT OR PAGE_WRITE]\<rparr>)))
         else Ok (pde AND 0xFFFFF000, s))"

definition write_pte :: "u32 \<Rightarrow> nat \<Rightarrow> u32 \<Rightarrow> paging \<Rightarrow> paging" where
  "write_pte table i e s = s\<lparr>pg_tables := (pg_tables s)(table := (pg_tables s table)[i := e])\<rparr>"

definition map_page :: "u32 \<Rightarrow> u32 \<Rightarrow> u32 \<Rightarrow> paging \<Rightarrow> (int \<times> paging) res" where
  "map_page virt phys flags s =
     (if virt AND 0xFFF \<noteq> 0 \<or> phys AND 0xFFF \<noteq> 0 then Ok (-1, s)
      else rbind (get_table virt True s) (\<lambda>(table, s).
        Ok (0, write_pte table (pt_index virt)
                 ((phys AND 0xFFFFF000) OR (flags AND 0xFFF) OR PAGE_PRESENT) s)))"

definition unmap_page :: "u32 \<Rightarrow> paging \<Rightarrow> paging res" where
  "unmap_page virt s =
     (if virt AND 0xFFF \<noteq> 0 then Ok s
      else rbind (get_table virt False s) (\<lambda>(table, s).
        if table = 0 then Ok s else Ok (write_pte table (pt_index virt) 0 s)))"

definition translate :: "u32 \<Rightarrow> paging \<Rightarrow> u32 res" where
  "translate virt s =
     rbind (get_table virt False s) (\<lambda>(table, s).
       if table = 0 then Ok 0
       else let e = pg_tables s table ! pt_index virt
            in if e AND PAGE_PRESENT = 0 then Ok 0
               else Ok ((e AND 0xFFFFF000) OR (virt AND 0xFFF)))"

text \<open>
  The loop of \<open>map_range_identity\<close>: both bounds are page aligned, so it visits the addresses
  \<open>start, start + 4096, \<dots>\<close> below the end and never wraps.
\<close>

fun map_identity_pages :: "u32 list \<Rightarrow> u32 \<Rightarrow> paging \<Rightarrow> (int \<times> paging) res" where
  "map_identity_pages [] flags s = Ok (0, s)"
| "map_identity_pages (addr # addrs) flags s =
     rbind (map_page addr addr flags s) (\<lambda>(rc, s).
       if rc \<noteq> 0 then Ok (-1, s) else map_identity_pages addrs flags s)"

definition page_addrs :: "u32 \<Rightarrow> u32 \<Rightarrow> u32 list" where
  "page_addrs start end_addr =
     map (\<lambda>p. of_nat p * 4096) [unat start div 4096 ..< unat end_addr div 4096]"

definition map_range_identity :: "u32 \<Rightarrow> u32 \<Rightarrow> u32 \<Rightarrow> paging \<Rightarrow> (int \<times> paging) res" where
  "map_range_identity phys_start bytes flags s =
     (let start = phys_start AND 0xFFFFF000
      in if bytes = 0 then Ok (0, s)
         else let end_addr = (phys_start + bytes + 0xFFF) AND 0xFFFFF000
              in if end_addr < start then Ok (-1, s)
                 else map_identity_pages (page_addrs start end_addr) flags s)"

text \<open>
  What \<open>console_get_framebuffer\<close> reports, when the framebuffer backend is active: the address, the
  pitch and the height. \<open>dir_addr\<close> is the address of \<open>g_page_directory\<close>.
\<close>

record framebuffer =
  fb_addr :: u64
  fb_pitch :: u32
  fb_height :: u32

definition map_framebuffer :: "framebuffer option \<Rightarrow> paging \<Rightarrow> paging res" where
  "map_framebuffer fb s =
     (case fb of
        None \<Rightarrow> Ok s
      | Some f \<Rightarrow>
          (let fb_bytes64 = ucast (fb_pitch f) * ucast (fb_height f) :: u64
           in if fb_addr f > 0xFFFFFFFF \<or> fb_bytes64 > 0xFFFFFFFF then Ok s
              else rbind (map_range_identity (ucast (fb_addr f)) (ucast fb_bytes64) PAGE_WRITE s)
                (\<lambda>(rc, s). if rc \<noteq> 0
                  then Fail (Panic ''paging_init: framebuffer identity map failed'') else Ok s)))"

definition paging_init :: "framebuffer option \<Rightarrow> u32 \<Rightarrow> u32 \<Rightarrow> paging \<Rightarrow> paging res" where
  "paging_init fb dir_addr phys_limit s =
     rbind (map_range_identity 0 phys_limit PAGE_WRITE
              (s\<lparr>pg_dir := replicate 1024 0, pg_tables_used := 0\<rparr>))
       (\<lambda>(rc, s).
         if rc \<noteq> 0 then Fail (Panic ''paging_init: identity map failed'')
         else rbind (map_framebuffer fb s) (\<lambda>s. Ok (s\<lparr>pg_cr3 := dir_addr, pg_enabled := True\<rparr>)))"

section \<open>Words\<close>

lemma page_masks: "(0xFFFFF000 :: u32) = NOT (mask 12)" "(0xFFF :: u32) = mask 12"
  by (simp_all add: mask_eq_exp_minus_1)

lemma index_pages:
  "pd_index v = unat v div 4096 div 1024" "pt_index v = unat v div 4096 mod 1024"
proof -
  have m: "(0x3FF :: u32) = mask 10" by (simp add: mask_eq_exp_minus_1)
  have "unat v div 4194304 < 1024" using unat_u32_lt [of v] by (intro less_mult_imp_div_less) simp
  then show "pd_index v = unat v div 4096 div 1024"
    unfolding pd_index_def m unat_and_mask unat_drop_bit_eq
    by (simp add: drop_bit_eq_div div_mult2_eq [symmetric])
  show "pt_index v = unat v div 4096 mod 1024"
    unfolding pt_index_def m unat_and_mask unat_drop_bit_eq
    by (simp add: drop_bit_eq_div)
qed

lemma index_bounds [simp]: "pd_index v < 1024" "pt_index v < 1024"
proof -
  have "unat v div 4096 < 1024 * 1024" using unat_u32_lt [of v] by (intro less_mult_imp_div_less) simp
  then have "unat v div 4096 div 1024 < 1024" by (rule less_mult_imp_div_less)
  then show "pd_index v < 1024" by (simp only: index_pages)
qed (simp add: index_pages)

text \<open>An entry built from an aligned frame address keeps the address and is present.\<close>

lemma pte_parts:
  fixes phys flags :: u32
  assumes "phys AND 0xFFF = 0"
  shows "(phys AND 0xFFFFF000 OR flags AND 0xFFF OR 1) AND 0xFFFFF000 = phys"
    and "(phys AND 0xFFFFF000 OR flags AND 0xFFF OR 1) AND 1 \<noteq> 0"
proof -
  have low: "\<not> bit phys n" if "n < 12" for n
  proof -
    have "\<not> bit (phys AND mask 12) n" using assms by (simp add: page_masks)
    then show ?thesis using that by (simp add: bit_simps)
  qed
  show "(phys AND 0xFFFFF000 OR flags AND 0xFFF OR 1) AND 0xFFFFF000 = phys"
    unfolding page_masks
    by (rule bit_word_eqI) (auto simp: bit_simps dest: low intro: ccontr)
  have "bit ((phys AND 0xFFFFF000 OR flags AND 0xFFF OR 1) AND 1) 0"
    by (simp add: bit_simps)
  then show "(phys AND 0xFFFFF000 OR flags AND 0xFFF OR 1) AND 1 \<noteq> 0"
    by (metis bit_0_eq bot_apply bot_bool_def)
qed

section \<open>The abstract page map and the invariant\<close>

abbreviation page_no :: "u32 \<Rightarrow> nat" where
  "page_no v \<equiv> unat v div 4096"

definition pd_present :: "paging \<Rightarrow> nat set" where
  "pd_present s = {i. i < 1024 \<and> pg_dir s ! i AND PAGE_PRESENT \<noteq> 0}"

definition pd_base :: "paging \<Rightarrow> nat \<Rightarrow> u32" where
  "pd_base s i = pg_dir s ! i AND 0xFFFFF000"

definition pool_slot :: "paging \<Rightarrow> nat \<Rightarrow> u32" where
  "pool_slot s k = pg_pool s + of_nat k * 4096"

text \<open>The entry of page number \<open>p\<close>, 0 where no table covers it.\<close>

definition pte :: "paging \<Rightarrow> nat \<Rightarrow> u32" where
  "pte s p = (if p div 1024 \<in> pd_present s
              then pg_tables s (pd_base s (p div 1024)) ! (p mod 1024) else 0)"

definition pool_ok :: "u32 \<Rightarrow> bool" where
  "pool_ok pool \<longleftrightarrow> pool \<noteq> 0 \<and> unat pool mod 4096 = 0 \<and> unat pool + 256 * 4096 \<le> 2 ^ 32"

text \<open>
  Every present directory entry names its own slot of the pool, the slots are given out in order,
  and each holds a table of 1024 entries.
\<close>

definition paging_wf :: "paging \<Rightarrow> bool" where
  "paging_wf s \<longleftrightarrow>
     length (pg_dir s) = 1024 \<and> pool_ok (pg_pool s) \<and> pg_tables_used s \<le> MAX_BOOTSTRAP_TABLES \<and>
     card (pd_present s) = unat (pg_tables_used s) \<and>
     (\<forall>i\<in>pd_present s. (\<exists>k < unat (pg_tables_used s). pd_base s i = pool_slot s k) \<and>
        length (pg_tables s (pd_base s i)) = 1024) \<and>
     inj_on (pd_base s) (pd_present s)"

lemma finite_pd_present [simp]: "finite (pd_present s)"
  by (simp add: pd_present_def)

lemma unat_pool_slot:
  "pool_ok (pg_pool s) \<Longrightarrow> k < 256 \<Longrightarrow> unat (pool_slot s k) = unat (pg_pool s) + k * 4096"
  by (simp add: pool_slot_def pool_ok_def unat_word_ariths unat_of_nat)

lemma pool_slot_nonzero: "pool_ok (pg_pool s) \<Longrightarrow> k < 256 \<Longrightarrow> pool_slot s k \<noteq> 0"
  using unat_pool_slot [of s k] by (auto simp: pool_ok_def unat_eq_0)

lemma pool_slot_aligned: "pool_ok (pg_pool s) \<Longrightarrow> k < 256 \<Longrightarrow> pool_slot s k AND 0xFFF = 0"
  unfolding word_unat_eq_iff
  by (simp add: unat_and_page_mask unat_pool_slot) (auto simp: pool_ok_def)

lemma pool_slot_eq_iff:
  "pool_ok (pg_pool s) \<Longrightarrow> k < 256 \<Longrightarrow> j < 256 \<Longrightarrow> pool_slot s k = pool_slot s j \<longleftrightarrow> k = j"
  unfolding word_unat_eq_iff by (simp add: unat_pool_slot)

lemma pde_parts:
  "t AND 0xFFF = 0 \<Longrightarrow> (t OR PAGE_PRESENT OR PAGE_WRITE) AND 0xFFFFF000 = t"
  "t AND 0xFFF = 0 \<Longrightarrow> (t OR PAGE_PRESENT OR PAGE_WRITE) AND PAGE_PRESENT \<noteq> 0"
proof -
  assume a: "t AND 0xFFF = 0"
  have base: "t AND 0xFFFFF000 = t"
    using and_not_mask_plus_and_mask [of t 12] a by (simp only: page_masks add_0_right)
  have flags: "(3 AND 0xFFF :: u32) = 3" "t OR 3 OR 1 = t OR 3"
    by (simp_all add: or.assoc)
  have e: "t OR PAGE_PRESENT OR PAGE_WRITE = t AND 0xFFFFF000 OR 3 AND 0xFFF OR 1"
    unfolding flags base by (simp add: or.assoc)
  show "(t OR PAGE_PRESENT OR PAGE_WRITE) AND 0xFFFFF000 = t"
    unfolding e by (rule pte_parts(1) [OF a])
  show "(t OR PAGE_PRESENT OR PAGE_WRITE) AND PAGE_PRESENT \<noteq> 0"
    unfolding e by (rule pte_parts(2) [OF a])
qed

section \<open>The page-table operations act on the page map\<close>

lemma get_table_present:
  "pd_index v \<in> pd_present s \<Longrightarrow> get_table v c s = Ok (pd_base s (pd_index v), s)"
  by (simp add: get_table_def pd_present_def pd_base_def)

lemma get_table_absent: "pd_index v \<notin> pd_present s \<Longrightarrow> get_table v False s = Ok (0, s)"
  by (simp add: get_table_def pd_present_def)

lemma pd_base_nonzero: "paging_wf s \<Longrightarrow> i \<in> pd_present s \<Longrightarrow> pd_base s i \<noteq> 0"
proof -
  assume "paging_wf s" "i \<in> pd_present s"
  then obtain k where "k < unat (pg_tables_used s)" "pd_base s i = pool_slot s k"
    and "unat (pg_tables_used s) \<le> 256" "pool_ok (pg_pool s)"
    by (auto simp: paging_wf_def word_le_nat_alt)
  then show ?thesis by (simp add: pool_slot_nonzero)
qed

text \<open>A missing table is allocated from the pool, or the pool is exhausted.\<close>

definition with_table :: "nat \<Rightarrow> paging \<Rightarrow> paging" where
  "with_table i s =
     (let t = pool_slot s (unat (pg_tables_used s))
      in s\<lparr>pg_tables_used := pg_tables_used s + 1,
           pg_tables := (pg_tables s)(t := replicate 1024 0),
           pg_dir := (pg_dir s)[i := t OR PAGE_PRESENT OR PAGE_WRITE]\<rparr>)"

lemma get_table_create:
  "pd_index v \<notin> pd_present s \<Longrightarrow> pg_tables_used s < MAX_BOOTSTRAP_TABLES \<Longrightarrow>
   get_table v True s =
     Ok (pool_slot s (unat (pg_tables_used s)), with_table (pd_index v) s)"
  by (simp add: get_table_def alloc_table_def with_table_def pool_slot_def pd_present_def Let_def)

lemma get_table_exhausted:
  "pd_index v \<notin> pd_present s \<Longrightarrow> pg_tables_used s \<ge> MAX_BOOTSTRAP_TABLES \<Longrightarrow>
   get_table v True s = Fail (Panic ''paging: table pool exhausted'')"
  by (simp add: get_table_def alloc_table_def pd_present_def)

lemma with_table_dir:
  assumes "paging_wf s" "i < 1024" "i \<notin> pd_present s" "pg_tables_used s < MAX_BOOTSTRAP_TABLES"
  shows "pd_present (with_table i s) = insert i (pd_present s)"
    and "pd_base (with_table i s) = (pd_base s)(i := pool_slot s (unat (pg_tables_used s)))"
proof -
  let ?t = "pool_slot s (unat (pg_tables_used s))"
  have u: "unat (pg_tables_used s) < 256" using assms(4) by (simp add: word_less_nat_alt)
  have len: "length (pg_dir s) = 1024" and pool: "pool_ok (pg_pool s)"
    using assms(1) by (auto simp: paging_wf_def)
  note parts = pde_parts [OF pool_slot_aligned [OF pool u]]
  have nth: "pg_dir (with_table i s) ! j =
      (if j = i then ?t OR PAGE_PRESENT OR PAGE_WRITE else pg_dir s ! j)" for j
    using assms(2) len by (simp add: with_table_def Let_def)
  show "pd_present (with_table i s) = insert i (pd_present s)"
    using parts(2) assms(2) unfolding pd_present_def nth by auto
  show "pd_base (with_table i s) = (pd_base s)(i := ?t)"
    using parts(1) unfolding pd_base_def nth by (auto simp: fun_eq_iff)
qed

lemma with_table_fields:
  "pg_pool (with_table i s) = pg_pool s"
  "pg_tables_used (with_table i s) = pg_tables_used s + 1"
  "length (pg_dir (with_table i s)) = length (pg_dir s)"
  "pg_tables (with_table i s) =
     (pg_tables s)(pool_slot s (unat (pg_tables_used s)) := replicate 1024 0)"
  "pool_slot (with_table i s) = pool_slot s"
  by (simp_all add: with_table_def Let_def pool_slot_def fun_eq_iff)

lemma fresh_slot:
  assumes "paging_wf s" "pg_tables_used s < MAX_BOOTSTRAP_TABLES" "j \<in> pd_present s"
  shows "pd_base s j \<noteq> pool_slot s (unat (pg_tables_used s))"
proof -
  obtain k where "k < unat (pg_tables_used s)" "pd_base s j = pool_slot s k"
    using assms by (auto simp: paging_wf_def)
  then show ?thesis
    using assms by (auto simp: paging_wf_def word_less_nat_alt pool_slot_eq_iff)
qed

lemma with_table_wf:
  assumes "paging_wf s" "i < 1024" "i \<notin> pd_present s" "pg_tables_used s < MAX_BOOTSTRAP_TABLES"
  shows "paging_wf (with_table i s)" and "pte (with_table i s) = pte s"
proof -
  let ?u = "unat (pg_tables_used s)"
  note dir = with_table_dir [OF assms] and fields = with_table_fields
  have u: "?u < 256" using assms(4) by (simp add: word_less_nat_alt)
  then have u1: "unat (pg_tables_used s + 1) = Suc ?u"
    by (simp add: unat_word_ariths)
  have old: "pd_base s j \<noteq> pool_slot s ?u" if "j \<in> pd_present s" for j
    using fresh_slot [OF assms(1,4) that] .
  have slots: "\<exists>k < Suc ?u. pd_base s j = pool_slot s k" "length (pg_tables s (pd_base s j)) = 1024"
    if "j \<in> pd_present s" for j
    using assms(1) that by (auto simp: paging_wf_def intro: less_SucI)
  have inj: "inj_on ((pd_base s)(i := pool_slot s ?u)) (insert i (pd_present s))"
    using assms(1,3) old by (auto simp: paging_wf_def inj_on_def)
  have "length (pg_dir s) = 1024" "pool_ok (pg_pool s)" "card (pd_present s) = ?u"
    using assms(1) by (simp_all add: paging_wf_def)
  then show "paging_wf (with_table i s)"
    unfolding paging_wf_def dir fields u1 word_le_nat_alt
    using assms(3) u inj slots(1) by (auto simp: slots(2) old)
  show "pte (with_table i s) = pte s"
    unfolding fun_eq_iff pte_def dir fields using old assms(3) by auto
qed

text \<open>Writing one entry of a present table changes the entry of exactly one page.\<close>

lemma write_pte_fields [simp]:
  "pd_present (write_pte t i e s) = pd_present s" "pd_base (write_pte t i e s) = pd_base s"
  "pg_pool (write_pte t i e s) = pg_pool s" "pg_tables_used (write_pte t i e s) = pg_tables_used s"
  "pg_dir (write_pte t i e s) = pg_dir s" "pool_slot (write_pte t i e s) = pool_slot s"
  by (simp_all add: write_pte_def pd_present_def pd_base_def fun_eq_iff pool_slot_def)

lemma write_pte_wf: "paging_wf s \<Longrightarrow> paging_wf (write_pte t i e s)"
  unfolding paging_wf_def write_pte_fields by (auto simp: write_pte_def)

lemma pte_write_pte:
  assumes "paging_wf s" "p div 1024 \<in> pd_present s"
  shows "pte (write_pte (pd_base s (p div 1024)) (p mod 1024) e s) = (pte s)(p := e)"
proof
  fix q
  let ?b = "pd_base s (p div 1024)"
  have len: "length (pg_tables s ?b) = 1024"
    and inj: "inj_on (pd_base s) (pd_present s)"
    using assms by (auto simp: paging_wf_def)
  have tables: "pg_tables (write_pte ?b (p mod 1024) e s) t =
      (if t = ?b then (pg_tables s ?b)[p mod 1024 := e] else pg_tables s t)" for t
    by (simp add: write_pte_def)
  show "pte (write_pte ?b (p mod 1024) e s) q = ((pte s)(p := e)) q"
  proof (cases "q div 1024 = p div 1024")
    case True
    then have "q mod 1024 = p mod 1024 \<longleftrightarrow> q = p"
      by (metis div_mult_mod_eq)
    then show ?thesis
      using True len assms(2) by (auto simp: pte_def tables nth_list_update)
  next
    case False
    then show ?thesis
      using inj_on_eq_iff [OF inj, of "q div 1024" "p div 1024"] assms(2)
      by (auto simp: pte_def tables)
  qed
qed

lemma page_dir_index: "page_no v div 1024 = pd_index v" "page_no v mod 1024 = pt_index v"
  by (simp_all add: index_pages)

text \<open>The entry \<open>map_page\<close> writes.\<close>

definition leaf :: "u32 \<Rightarrow> u32 \<Rightarrow> u32" where
  "leaf phys flags = (phys AND 0xFFFFF000) OR (flags AND 0xFFF) OR PAGE_PRESENT"

lemma leaf_parts:
  "phys AND 0xFFF = 0 \<Longrightarrow> leaf phys flags AND 0xFFFFF000 = phys"
  "phys AND 0xFFF = 0 \<Longrightarrow> leaf phys flags AND PAGE_PRESENT \<noteq> 0"
  unfolding leaf_def by (fact pte_parts)+

lemma map_page_spec:
  assumes "paging_wf s" "virt AND 0xFFF = 0" "phys AND 0xFFF = 0"
    and room: "pd_index virt \<in> pd_present s \<or> pg_tables_used s < MAX_BOOTSTRAP_TABLES"
  obtains s' where "map_page virt phys flags s = Ok (0, s')" "paging_wf s'"
    "pte s' = (pte s)(page_no virt := leaf phys flags)"
    "pd_present s' = insert (pd_index virt) (pd_present s)"
proof (cases "pd_index virt \<in> pd_present s")
  case True
  let ?s = "write_pte (pd_base s (pd_index virt)) (pt_index virt) (leaf phys flags) s"
  have "map_page virt phys flags s = Ok (0, ?s)"
    using True assms(2,3) by (simp add: map_page_def get_table_present leaf_def)
  moreover have "pte ?s = (pte s)(page_no virt := leaf phys flags)"
    using pte_write_pte [OF assms(1), of "page_no virt"] True by (simp only: page_dir_index)
  ultimately show ?thesis
    using that [of ?s] True write_pte_wf [OF assms(1)] by (auto simp: insert_absorb)
next
  case False
  let ?i = "pd_index virt"
  let ?w = "with_table ?i s"
  let ?s = "write_pte (pd_base ?w ?i) (pt_index virt) (leaf phys flags) ?w"
  have used: "pg_tables_used s < MAX_BOOTSTRAP_TABLES" using False room by simp
  note wf = with_table_wf [OF assms(1) index_bounds(1) False used]
    and dir = with_table_dir [OF assms(1) index_bounds(1) False used]
  have "map_page virt phys flags s = Ok (0, ?s)"
    using False used assms(2,3) by (simp add: map_page_def get_table_create leaf_def dir)
  moreover have "pte ?s = (pte s)(page_no virt := leaf phys flags)"
    using pte_write_pte [OF wf(1), of "page_no virt"] by (simp only: page_dir_index dir(1) wf(2) insertI1 simp_thms)
  ultimately show ?thesis
    using that [of ?s] write_pte_wf [OF wf(1)] by (simp add: dir)
qed

lemma map_page_exhausted:
  "pd_index virt \<notin> pd_present s \<Longrightarrow> pg_tables_used s \<ge> MAX_BOOTSTRAP_TABLES \<Longrightarrow>
   virt AND 0xFFF = 0 \<Longrightarrow> phys AND 0xFFF = 0 \<Longrightarrow>
   map_page virt phys flags s = Fail (Panic ''paging: table pool exhausted'')"
  by (simp add: map_page_def get_table_exhausted)

lemma translate_pte:
  "paging_wf s \<Longrightarrow> translate a s =
     Ok (if pte s (page_no a) AND PAGE_PRESENT = 0 then 0
         else (pte s (page_no a) AND 0xFFFFF000) OR (a AND 0xFFF))"
  by (cases "pd_index a \<in> pd_present s")
    (simp_all add: translate_def get_table_present get_table_absent pd_base_nonzero
      pte_def page_dir_index Let_def)

lemma unmap_page_spec:
  assumes "paging_wf s" "virt AND 0xFFF = 0"
  obtains s' where "unmap_page virt s = Ok s'" "paging_wf s'"
    "pte s' = (pte s)(page_no virt := 0)" "pd_present s' = pd_present s"
proof (cases "pd_index virt \<in> pd_present s")
  case True
  let ?s = "write_pte (pd_base s (pd_index virt)) (pt_index virt) 0 s"
  have "unmap_page virt s = Ok ?s"
    using True assms by (simp add: unmap_page_def get_table_present pd_base_nonzero)
  moreover have "pte ?s = (pte s)(page_no virt := 0)"
    using pte_write_pte [OF assms(1), of "page_no virt"] True by (simp only: page_dir_index)
  ultimately show ?thesis
    using that [of ?s] write_pte_wf [OF assms(1)] by simp
next
  case False
  then have "unmap_page virt s = Ok s" "pte s (page_no virt) = 0"
    using assms(2) by (simp_all add: unmap_page_def get_table_absent pte_def page_dir_index)
  then show ?thesis using that [of s] assms(1) by (simp add: fun_upd_idem)
qed

text \<open>The offset of an address survives the translation of its page.\<close>

lemma or_offset:
  fixes p a :: u32
  assumes "p AND 0xFFF = 0"
  shows "p OR (a AND 0xFFF) = p + (a AND 0xFFF)"
proof -
  have low: "\<not> bit p n" if "n < 12" for n
  proof -
    have "\<not> bit (p AND mask 12) n" using assms by (simp add: page_masks)
    then show ?thesis using that by (simp add: bit_simps)
  qed
  have "p AND (a AND mask 12) = 0"
    by (rule bit_word_eqI) (auto simp: bit_simps dest: low)
  then show ?thesis
    unfolding page_masks by (rule disjunctive_add_eq_or [symmetric])
qed

lemma page_base_offset: "(a AND 0xFFFFF000) OR (a AND 0xFFF) = a" for a :: u32
  unfolding page_masks by (rule bit_word_eqI) (auto simp: bit_simps)

section \<open>The identity map\<close>

definition identity_pte :: "nat set \<Rightarrow> u32 \<Rightarrow> (nat \<Rightarrow> u32) \<Rightarrow> nat \<Rightarrow> u32" where
  "identity_pte P flags e p = (if p \<in> P then leaf (of_nat p * 4096) flags else e p)"

lemma aligned_page: "a AND 0xFFF = 0 \<Longrightarrow> of_nat (page_no a) * 4096 = a" for a :: u32
proof -
  assume "a AND 0xFFF = 0"
  then have "unat a mod 4096 = 0" by (metis unat_and_page_mask unat_0)
  then have "unat a div 4096 * 4096 = unat a" by (simp add: mod_0_imp_dvd)
  then have "of_nat (unat a div 4096 * 4096) = a" by simp
  then show ?thesis by simp
qed

lemma identity_pte_step:
  "a AND 0xFFF = 0 \<Longrightarrow>
   identity_pte P flags (e(page_no a := leaf a flags)) = identity_pte (insert (page_no a) P) flags e"
  by (auto simp: identity_pte_def fun_eq_iff aligned_page)

lemma map_identity_pages_spec:
  assumes "paging_wf s" "\<forall>a\<in>set addrs. a AND 0xFFF = 0"
    "card (pd_present s \<union> pd_index ` set addrs) \<le> 256"
  shows "\<exists>s'. map_identity_pages addrs flags s = Ok (0, s') \<and> paging_wf s' \<and>
    pte s' = identity_pte (page_no ` set addrs) flags (pte s) \<and>
    pd_present s' = pd_present s \<union> pd_index ` set addrs"
  using assms
proof (induction addrs arbitrary: s)
  case Nil
  then show ?case by (auto simp: identity_pte_def)
next
  case (Cons a addrs)
  have a: "a AND 0xFFF = 0" using Cons.prems by simp
  have sets: "insert (pd_index a) (pd_present s) \<union> pd_index ` set addrs =
      pd_present s \<union> pd_index ` set (a # addrs)" by auto
  have "card (insert (pd_index a) (pd_present s)) \<le> 256"
    using Cons.prems(3) sets by (intro order_trans [OF card_mono Cons.prems(3)]) auto
  then have room: "pd_index a \<in> pd_present s \<or> pg_tables_used s < MAX_BOOTSTRAP_TABLES"
    using Cons.prems(1)
    by (cases "pd_index a \<in> pd_present s") (auto simp: paging_wf_def word_less_nat_alt)
  obtain s1 where s1: "map_page a a flags s = Ok (0, s1)" "paging_wf s1"
      "pte s1 = (pte s)(page_no a := leaf a flags)"
      "pd_present s1 = insert (pd_index a) (pd_present s)"
    using map_page_spec [OF Cons.prems(1) a a room] .
  have "identity_pte P flags (pte s1) = identity_pte (insert (page_no a) P) flags (pte s)" for P
    unfolding s1(3) by (rule identity_pte_step [OF a])
  then show ?case
    using Cons.IH [OF s1(2)] Cons.prems sets
    by (simp add: s1(1,4))
qed

lemma map_identity_pages_exhausted:
  assumes "paging_wf s" "\<forall>a\<in>set addrs. a AND 0xFFF = 0"
    "card (pd_present s \<union> pd_index ` set addrs) > 256"
  shows "map_identity_pages addrs flags s = Fail (Panic ''paging: table pool exhausted'')"
  using assms
proof (induction addrs arbitrary: s)
  case Nil
  then show ?case by (simp add: paging_wf_def word_le_nat_alt)
next
  case (Cons a addrs)
  have a: "a AND 0xFFF = 0" using Cons.prems by simp
  show ?case
  proof (cases "pd_index a \<in> pd_present s \<or> pg_tables_used s < MAX_BOOTSTRAP_TABLES")
    case True
    obtain s1 where s1: "map_page a a flags s = Ok (0, s1)" "paging_wf s1"
        "pd_present s1 = insert (pd_index a) (pd_present s)"
      using map_page_spec [OF Cons.prems(1) a a True] by metis
    show ?thesis
      using Cons.IH [OF s1(2)] Cons.prems by (simp add: s1)
  next
    case False
    then have "map_page a a flags s = Fail (Panic ''paging: table pool exhausted'')"
      by (intro map_page_exhausted a) (simp_all add: not_less)
    then show ?thesis by simp
  qed
qed

text \<open>The page numbers a byte range touches, when its rounded end does not wrap.\<close>

definition range_pages :: "u32 \<Rightarrow> u32 \<Rightarrow> nat set" where
  "range_pages start bytes =
     (if bytes = 0 then {}
      else {unat start div 4096 ..< (unat start + unat bytes + 4095) div 4096})"

definition range_fits :: "u32 \<Rightarrow> u32 \<Rightarrow> bool" where
  "range_fits start bytes \<longleftrightarrow> unat start + unat bytes + 4095 < 2 ^ 32"

definition range_dirs :: "u32 \<Rightarrow> u32 \<Rightarrow> nat set" where
  "range_dirs start bytes = (\<lambda>p. p div 1024) ` range_pages start bytes"

lemma page_no_of_nat: "p < 1048576 \<Longrightarrow> page_no (of_nat p * 4096 :: u32) = p"
  by (simp add: unat_word_ariths unat_of_nat)

lemma page_addrs_facts:
  "\<forall>a\<in>set (page_addrs b e). a AND 0xFFF = 0"
  "page_no ` set (page_addrs b e) = {page_no b ..< page_no e}"
  "pd_index ` set (page_addrs b e) = (\<lambda>p. p div 1024) ` {page_no b ..< page_no e}"
proof -
  have "page_no e < 1048576"
    using unat_u32_lt [of e] by (intro less_mult_imp_div_less) simp
  then have lt: "p < 1048576" if "p < page_no e" for p
    using that by simp
  show "\<forall>a\<in>set (page_addrs b e). a AND 0xFFF = 0"
    by (auto simp: page_addrs_def word_unat_eq_iff unat_and_page_mask unat_word_ariths
        mod_mod_cancel)
  show "page_no ` set (page_addrs b e) = {page_no b ..< page_no e}"
    unfolding page_addrs_def set_map set_upt image_image
    by (rule image_cong [where g = "\<lambda>p. p", simplified]) (auto intro: page_no_of_nat lt)
  moreover have "pd_index ` A = (\<lambda>p. p div 1024) ` page_no ` A" for A
    by (simp add: image_image index_pages)
  ultimately show "pd_index ` set (page_addrs b e) = (\<lambda>p. p div 1024) ` {page_no b ..< page_no e}"
    by simp
qed

lemma map_range_identity_unfold:
  assumes "range_fits start bytes" "bytes \<noteq> 0"
  obtains addrs where "map_range_identity start bytes flags s = map_identity_pages addrs flags s"
    "\<forall>a\<in>set addrs. a AND 0xFFF = 0" "page_no ` set addrs = range_pages start bytes"
    "pd_index ` set addrs = range_dirs start bytes"
proof
  let ?b = "start AND 0xFFFFF000" and ?e = "(start + bytes + 0xFFF) AND 0xFFFFF000"
  have sum: "unat (start + bytes + 0xFFF) = unat start + unat bytes + 4095"
    using assms(1) by (simp add: range_fits_def unat_plus_nowrap)
  have b: "unat ?b = unat start div 4096 * 4096"
    and e: "unat ?e = (unat start + unat bytes + 4095) div 4096 * 4096"
    unfolding page_masks(1) unat_and_not_mask sum by simp_all
  have le: "\<not> ?e < ?b"
    unfolding word_less_nat_alt b e not_less by (intro mult_right_mono div_le_mono) auto
  show "map_range_identity start bytes flags s = map_identity_pages (page_addrs ?b ?e) flags s"
    using le assms(2) unfolding map_range_identity_def Let_def by (simp only: if_False)
  note facts = page_addrs_facts [of ?b ?e]
  show "\<forall>a\<in>set (page_addrs ?b ?e). a AND 0xFFF = 0" by (rule facts(1))
  show "page_no ` set (page_addrs ?b ?e) = range_pages start bytes"
    "pd_index ` set (page_addrs ?b ?e) = range_dirs start bytes"
    unfolding facts range_dirs_def range_pages_def b e using assms(2) by simp_all
qed

lemma map_range_identity_spec:
  assumes "paging_wf s" "range_fits start bytes"
    "card (pd_present s \<union> range_dirs start bytes) \<le> 256"
  shows "\<exists>s'. map_range_identity start bytes flags s = Ok (0, s') \<and> paging_wf s' \<and>
    pte s' = identity_pte (range_pages start bytes) flags (pte s) \<and>
    pd_present s' = pd_present s \<union> range_dirs start bytes"
proof (cases "bytes = 0")
  case True
  then show ?thesis
    using assms(1) by (auto simp: map_range_identity_def range_dirs_def range_pages_def identity_pte_def)
next
  case False
  obtain addrs where "map_range_identity start bytes flags s = map_identity_pages addrs flags s"
    and "\<forall>a\<in>set addrs. a AND 0xFFF = 0" "page_no ` set addrs = range_pages start bytes"
    and "pd_index ` set addrs = range_dirs start bytes"
    using map_range_identity_unfold [OF assms(2) False] .
  then show ?thesis
    using map_identity_pages_spec [of s addrs flags] assms by simp
qed

lemma map_range_identity_exhausted:
  assumes "paging_wf s" "range_fits start bytes" "card (pd_present s \<union> range_dirs start bytes) > 256"
  shows "map_range_identity start bytes flags s = Fail (Panic ''paging: table pool exhausted'')"
proof -
  have "bytes \<noteq> 0"
    using assms(1,3) by (auto simp: range_dirs_def range_pages_def paging_wf_def word_le_nat_alt)
  then obtain addrs where "map_range_identity start bytes flags s = map_identity_pages addrs flags s"
    and "\<forall>a\<in>set addrs. a AND 0xFFF = 0" "pd_index ` set addrs = range_dirs start bytes"
    using map_range_identity_unfold [OF assms(2)] by metis
  then show ?thesis
    using map_identity_pages_exhausted [of s addrs flags] assms by simp
qed

section \<open>Construction at boot\<close>

text \<open>The framebuffer range that is mapped: none when it leaves the 32-bit range.\<close>

definition fb_bytes :: "framebuffer \<Rightarrow> u64" where
  "fb_bytes f = ucast (fb_pitch f) * ucast (fb_height f)"

definition fb_range :: "framebuffer option \<Rightarrow> (u32 \<times> u32) option" where
  "fb_range fb =
     (case fb of None \<Rightarrow> None
      | Some f \<Rightarrow> if fb_addr f > 0xFFFFFFFF \<or> fb_bytes f > 0xFFFFFFFF then None
                  else Some (ucast (fb_addr f), ucast (fb_bytes f)))"

definition init_pages :: "framebuffer option \<Rightarrow> u32 \<Rightarrow> nat set" where
  "init_pages fb limit =
     range_pages 0 limit \<union> (case fb_range fb of None \<Rightarrow> {} | Some (a, n) \<Rightarrow> range_pages a n)"

text \<open>No rounded end wraps, and the tables for all the pages fit into the pool.\<close>

definition init_fits :: "framebuffer option \<Rightarrow> u32 \<Rightarrow> bool" where
  "init_fits fb limit \<longleftrightarrow>
     range_fits 0 limit \<and> (case fb_range fb of None \<Rightarrow> True | Some (a, n) \<Rightarrow> range_fits a n) \<and>
     card ((\<lambda>p. p div 1024) ` init_pages fb limit) \<le> 256"

lemma blank_wf:
  "pool_ok (pg_pool s) \<Longrightarrow> paging_wf (s\<lparr>pg_dir := replicate 1024 0, pg_tables_used := 0\<rparr>)"
  "pd_present (s\<lparr>pg_dir := replicate 1024 0, pg_tables_used := 0\<rparr>) = {}"
  "pte (s\<lparr>pg_dir := replicate 1024 0, pg_tables_used := 0\<rparr>) = (\<lambda>p. 0)"
proof -
  let ?blank = "s\<lparr>pg_dir := replicate 1024 0, pg_tables_used := 0\<rparr>"
  show none: "pd_present ?blank = {}" by (auto simp: pd_present_def)
  show "paging_wf ?blank" if "pool_ok (pg_pool s)"
    using that unfolding paging_wf_def none by simp
  show "pte ?blank = (\<lambda>p. 0)" unfolding pte_def none by simp
qed

lemma map_framebuffer_range:
  "map_framebuffer fb s =
     (case fb_range fb of None \<Rightarrow> Ok s
      | Some (a, n) \<Rightarrow> rbind (map_range_identity a n PAGE_WRITE s)
          (\<lambda>(rc, s). if rc \<noteq> 0
            then Fail (Panic ''paging_init: framebuffer identity map failed'') else Ok s))"
  by (simp add: map_framebuffer_def fb_range_def fb_bytes_def Let_def split: option.split)

lemma identity_pte_twice:
  "identity_pte Q flags (identity_pte P flags e) = identity_pte (P \<union> Q) flags e"
  by (auto simp: identity_pte_def)

lemma finite_range_dirs [simp]: "finite (range_dirs start bytes)"
  by (simp add: range_dirs_def range_pages_def)

lemma map_framebuffer_spec:
  assumes "paging_wf s" "pd_present s = range_dirs 0 limit"
    "pte s = identity_pte (range_pages 0 limit) PAGE_WRITE (\<lambda>p. 0)" "init_fits fb limit"
  shows "\<exists>s'. map_framebuffer fb s = Ok s' \<and> paging_wf s' \<and>
    pte s' = identity_pte (init_pages fb limit) PAGE_WRITE (\<lambda>p. 0)"
proof (cases "fb_range fb")
  case None
  then show ?thesis using assms by (simp add: map_framebuffer_range init_pages_def)
next
  case (Some r)
  obtain a n where r: "r = (a, n)" by (cases r)
  have dirs: "card (pd_present s \<union> range_dirs a n) \<le> 256" and fits: "range_fits a n"
    using assms(2,4) Some r by (simp_all add: init_fits_def init_pages_def range_dirs_def image_Un)
  show ?thesis
    using map_range_identity_spec [OF assms(1) fits dirs, of PAGE_WRITE] Some r assms(3)
    by (auto simp: map_framebuffer_range init_pages_def identity_pte_twice)
qed

lemma init_fits_identity:
  assumes "init_fits fb limit"
  shows "range_fits 0 limit" "card (range_dirs 0 limit) \<le> 256"
proof -
  show "range_fits 0 limit" using assms by (simp add: init_fits_def)
  have "finite (init_pages fb limit)"
    by (auto simp: init_pages_def range_pages_def split: option.split prod.split)
  then have "card (range_dirs 0 limit) \<le> card ((\<lambda>p. p div 1024) ` init_pages fb limit)"
    by (intro card_mono) (auto simp: range_dirs_def init_pages_def)
  then show "card (range_dirs 0 limit) \<le> 256" using assms by (simp add: init_fits_def)
qed

lemma paging_init_spec:
  assumes "pool_ok (pg_pool s)" "init_fits fb limit"
  obtains s' where "paging_init fb d limit s = Ok s'" "paging_wf s'" "pg_enabled s'" "pg_cr3 s' = d"
    "pte s' = identity_pte (init_pages fb limit) PAGE_WRITE (\<lambda>p. 0)"
proof -
  note fits = init_fits_identity [OF assms(2)]
  let ?blank = "s\<lparr>pg_dir := replicate 1024 0, pg_tables_used := 0\<rparr>"
  obtain s1 where s1: "map_range_identity 0 limit PAGE_WRITE ?blank = Ok (0, s1)" "paging_wf s1"
      "pte s1 = identity_pte (range_pages 0 limit) PAGE_WRITE (\<lambda>p. 0)"
      "pd_present s1 = range_dirs 0 limit"
    using map_range_identity_spec [OF blank_wf(1) [OF assms(1)] fits(1), of PAGE_WRITE] fits(2)
    by (auto simp: blank_wf)
  obtain s2 where s2: "map_framebuffer fb s1 = Ok s2" "paging_wf s2"
      "pte s2 = identity_pte (init_pages fb limit) PAGE_WRITE (\<lambda>p. 0)"
    using map_framebuffer_spec [OF s1(2,4,3) assms(2)] by auto
  have same: "paging_wf (s2\<lparr>pg_cr3 := d, pg_enabled := True\<rparr>) = paging_wf s2"
    "pte (s2\<lparr>pg_cr3 := d, pg_enabled := True\<rparr>) = pte s2"
    by (simp_all add: paging_wf_def pte_def pd_present_def pd_base_def [abs_def] pool_slot_def
        fun_eq_iff)
  show ?thesis
    using that [of "s2\<lparr>pg_cr3 := d, pg_enabled := True\<rparr>"] s1(1) s2 same
    by (simp add: paging_init_def)
qed

lemma range_dirs_le: "limit \<le> 0x40000000 \<Longrightarrow> range_dirs 0 limit \<subseteq> {..<256}"
  by (auto simp: range_dirs_def range_pages_def word_le_nat_alt)

lemma init_fits_1GiB: "limit \<le> 0x40000000 \<Longrightarrow> fb_range fb = None \<Longrightarrow> init_fits fb limit"
proof -
  assume a: "limit \<le> 0x40000000" "fb_range fb = None"
  have "card (range_dirs 0 limit) \<le> card {..<256 :: nat}"
    by (rule card_mono [OF _ range_dirs_le [OF a(1)]]) simp
  then show ?thesis
    using a by (simp add: init_fits_def init_pages_def range_dirs_def range_fits_def word_le_nat_alt)
qed

lemma range_dirs_gt:
  assumes "limit > 0x40000000"
  shows "card (range_dirs 0 limit) > 256"
proof -
  have gt: "unat limit > 0x40000000" using assms by (simp add: word_less_nat_alt)
  have "i \<in> range_dirs 0 limit" if "i \<le> 256" for i
    unfolding range_dirs_def
    by (rule image_eqI [where x = "i * 1024"])
      (use gt that assms in \<open>auto simp: range_pages_def less_eq_div_iff_mult_less_eq Suc_le_eq [symmetric]\<close>)
  then have "card {..256 :: nat} \<le> card (range_dirs 0 limit)"
    by (intro card_mono) auto
  then show ?thesis by simp
qed

section \<open>Properties\<close>

text \<open>A pool of tables at 2 MiB, before initialisation, and the paging of a 32 KiB machine.\<close>

definition boot_paging :: paging where
  "boot_paging = \<lparr>pg_dir = [], pg_pool = 0x200000, pg_tables = \<lambda>_. [], pg_tables_used = 0,
                  pg_enabled = False, pg_cr3 = 0\<rparr>"

definition small_paging :: paging where
  "small_paging = boot_paging\<lparr>pg_dir := replicate 1024 0, pg_tables_used := 0\<rparr>"

lemma boot_pool [simp]: "pool_ok (pg_pool boot_paging)"
  by (simp add: boot_paging_def pool_ok_def)

lemma small_paging [simp]:
  "paging_wf small_paging" "pd_present small_paging = {}" "pg_tables_used small_paging = 0"
  using blank_wf [of boot_paging] by (simp_all add: small_paging_def)

text \<open>
  C6: Initialisation with a limit whose tables fit into the pool succeeds, loads the page
  directory and enables paging; afterwards an address inside the identity map (the RAM below the
  limit, rounded up to a page, and the framebuffer) translates to itself and every other address
  to 0.
\<close>

theorem paging_init_identity:
  assumes "pool_ok (pg_pool s)" and "init_fits fb limit"
  shows "\<exists>s'. paging_init fb dir limit s = Ok s' \<and> paging_wf s' \<and> pg_enabled s' \<and>
    pg_cr3 s' = dir \<and>
    (\<forall>a. translate a s' = Ok (if page_no a \<in> init_pages fb limit then a else 0))"
proof -
  obtain s' where s': "paging_init fb dir limit s = Ok s'" "paging_wf s'" "pg_enabled s'"
    "pg_cr3 s' = dir" "pte s' = identity_pte (init_pages fb limit) PAGE_WRITE (\<lambda>p. 0)"
    using paging_init_spec [OF assms] .
  have page: "(of_nat (page_no a) * 4096 :: u32) = a AND 0xFFFFF000" for a :: u32
  proof -
    have "page_no a < 1048576" using unat_u32_lt [of a] by (intro less_mult_imp_div_less) simp
    then show ?thesis
      unfolding word_unat_eq_iff page_masks(1) unat_and_not_mask
      by (simp add: unat_word_ariths unat_of_nat)
  qed
  have al: "(a AND 0xFFFFF000) AND 0xFFF = 0" for a :: u32
    unfolding page_masks by (rule bit_word_eqI) (auto simp: bit_simps)
  have "translate a s' = Ok (if page_no a \<in> init_pages fb limit then a else 0)" for a
    unfolding translate_pte [OF s'(2)] s'(5) identity_pte_def page
    by (cases "page_no a \<in> init_pages fb limit")
      (simp_all only: if_True if_False leaf_parts [OF al] page_base_offset and_zero_eq zero_and_eq refl simp_thms)
  then show ?thesis using s' by blast
qed

theorem paging_init_identity_witness:
  "\<exists>s'. paging_init None 0x300000 0x8000 boot_paging = Ok s' \<and> paging_wf s' \<and> pg_enabled s' \<and>
    pg_cr3 s' = 0x300000 \<and>
    (\<forall>a. translate a s' = Ok (if page_no a \<in> init_pages None 0x8000 then a else 0))"
  by (rule paging_init_identity) (simp_all add: init_fits_1GiB fb_range_def)

text \<open>
  C7: \<open>map_page\<close> on aligned addresses, when the page's table exists or the pool has one left,
  returns 0 and changes the translation of the mapped page only: its addresses go to the frame,
  offset by offset, and every other address translates as before.
\<close>

theorem map_page_translates:
  assumes "paging_wf s" and "virt AND 0xFFF = 0" and "phys AND 0xFFF = 0"
    and "pd_index virt \<in> pd_present s \<or> pg_tables_used s < 256"
  shows "\<exists>s'. map_page virt phys flags s = Ok (0, s') \<and> paging_wf s' \<and>
    (\<forall>a. translate a s' =
       (if page_no a = page_no virt then Ok (phys + (a AND 0xFFF)) else translate a s))"
proof -
  obtain s' where s': "map_page virt phys flags s = Ok (0, s')" "paging_wf s'"
      "pte s' = (pte s)(page_no virt := leaf phys flags)"
    using map_page_spec [OF assms] by metis
  have "translate a s' =
      (if page_no a = page_no virt then Ok (phys + (a AND 0xFFF)) else translate a s)" for a
    unfolding translate_pte [OF s'(2)] translate_pte [OF assms(1)] s'(3)
    by (simp only: fun_upd_apply leaf_parts [OF assms(3)] or_offset [OF assms(3)] if_False
        split: if_split) simp
  then show ?thesis using s' by blast
qed

theorem map_page_translates_witness:
  "\<exists>s'. map_page 0x18000000 0x5000 2 small_paging = Ok (0, s') \<and> paging_wf s' \<and>
    (\<forall>a. translate a s' =
       (if page_no a = page_no 0x18000000 then Ok (0x5000 + (a AND 0xFFF))
        else translate a small_paging))"
  by (rule map_page_translates) simp_all

text \<open>
  \<open>unmap_page\<close> never fails on a well-formed state and makes every address of the page
  translate to 0, whether or not it was mapped, and leaves every other translation alone.
\<close>

theorem unmap_page_translates:
  assumes "paging_wf s" and "virt AND 0xFFF = 0"
  shows "\<exists>s'. unmap_page virt s = Ok s' \<and> paging_wf s' \<and>
    (\<forall>a. translate a s' = (if page_no a = page_no virt then Ok 0 else translate a s))"
proof -
  obtain s' where s': "unmap_page virt s = Ok s'" "paging_wf s'"
      "pte s' = (pte s)(page_no virt := 0)"
    using unmap_page_spec [OF assms] by metis
  have "translate a s' = (if page_no a = page_no virt then Ok 0 else translate a s)" for a
    unfolding translate_pte [OF s'(2)] translate_pte [OF assms(1)] s'(3) by simp
  then show ?thesis using s' by blast
qed

theorem unmap_page_translates_witness:
  "\<exists>s'. unmap_page 0x18000000 small_paging = Ok s' \<and> paging_wf s' \<and>
    (\<forall>a. translate a s' =
       (if page_no a = page_no 0x18000000 then Ok 0 else translate a small_paging))"
  by (rule unmap_page_translates) simp_all

text \<open>
  The pool bounds what can be mapped: with a limit above 1 GiB (and below the point where the
  rounded end wraps) \<open>paging_init\<close> panics with the pool exhausted.
\<close>

theorem paging_init_exhausted:
  assumes "pool_ok (pg_pool s)" and "limit > 0x40000000" and "range_fits 0 limit"
  shows "paging_init fb dir limit s = Fail (Panic ''paging: table pool exhausted'')"
  using map_range_identity_exhausted [OF blank_wf(1) [OF assms(1)] assms(3)]
    range_dirs_gt [OF assms(2)]
  by (simp add: paging_init_def blank_wf)

theorem paging_init_exhausted_witness:
  "paging_init None 0x300000 0x80000000 boot_paging =
     Fail (Panic ''paging: table pool exhausted'')"
  by (rule paging_init_exhausted) (simp_all add: range_fits_def)

end
