(* ===== verification/CString.thy ===== *)
theory CString
  imports Prelude
begin

unbundle bit_operations_syntax

text \<open>
  The string and memory routines of \<open>kernel/lib/string.c\<close>. A string is the list of the bytes of its
  array; the end of the list reads as the terminating NUL. \<open>memcpy\<close>, \<open>memmove\<close> and \<open>memset\<close> are the
  loops of the source over the flat memory, byte by byte and in the source's order, so that
  overlapping ranges behave as in the code.
\<close>

section \<open>Strings\<close>

fun strlen :: "u8 list \<Rightarrow> nat" where
  "strlen [] = 0"
| "strlen (c # s) = (if c = 0 then 0 else Suc (strlen s))"

definition first_char :: "u8 list \<Rightarrow> u8" where
  "first_char s = (case s of [] \<Rightarrow> 0 | c # _ \<Rightarrow> c)"

fun strcmp :: "u8 list \<Rightarrow> u8 list \<Rightarrow> int" where
  "strcmp (a # s) (b # t) = (if a \<noteq> 0 \<and> b \<noteq> 0 \<and> a = b then strcmp s t else uint a - uint b)"
| "strcmp s t = uint (first_char s) - uint (first_char t)"

fun strncmp :: "u8 list \<Rightarrow> u8 list \<Rightarrow> nat \<Rightarrow> int" where
  "strncmp s t 0 = 0"
| "strncmp s t (Suc n) =
     (let ca = first_char s; cb = first_char t
      in if ca \<noteq> cb then uint ca - uint cb else if ca = 0 then 0 else strncmp (tl s) (tl t) n)"

section \<open>Memory\<close>

text \<open>One iteration \<open>d[i] = s[i]\<close>.\<close>

definition copy_byte :: "u32 \<Rightarrow> u32 \<Rightarrow> nat \<Rightarrow> mem \<Rightarrow> mem" where
  "copy_byte d s i m = m(d + of_nat i := m (s + of_nat i))"

definition memcpy :: "u32 \<Rightarrow> u32 \<Rightarrow> nat \<Rightarrow> mem \<Rightarrow> mem" where
  "memcpy d s n m = fold (copy_byte d s) [0..<n] m"

definition memmove :: "u32 \<Rightarrow> u32 \<Rightarrow> nat \<Rightarrow> mem \<Rightarrow> mem" where
  "memmove d s n m =
     (if d = s \<or> n = 0 then m
      else if d < s then fold (copy_byte d s) [0..<n] m
      else fold (copy_byte d s) (rev [0..<n]) m)"

definition memset :: "u32 \<Rightarrow> int \<Rightarrow> nat \<Rightarrow> mem \<Rightarrow> mem" where
  "memset d value n m = fold (\<lambda>i m. m(d + of_nat i := word_of_int value)) [0..<n] m"

section \<open>Lemmas on strings\<close>

lemma c_text_simps [simp]:
  "c_text [] = []"
  "c_text (c # s) = (if c = 0 then [] else c # c_text s)"
  by (simp_all add: c_text_def)

lemma first_char_simps [simp]: "first_char [] = 0" "first_char (c # s) = c"
  by (simp_all add: first_char_def)

lemma strlen_text: "strlen s = length (c_text s)"
  by (induction s) auto

lemma strlen_is_text [simp]: "is_text s \<Longrightarrow> strlen s = length s"
  by (simp add: strlen_text)

text \<open>Equality and order of bytes, read as the integers the code subtracts.\<close>

lemma uint_u8:
  "uint a = uint b \<longleftrightarrow> a = b" "uint b = 0 \<longleftrightarrow> b = 0" "0 < uint b \<longleftrightarrow> b \<noteq> 0" for a b :: u8
proof -
  show eq: "uint a = uint b \<longleftrightarrow> a = b" by (simp only: word_uint_eq_iff)
  show zero: "uint b = 0 \<longleftrightarrow> b = 0" by (rule uint_0_iff)
  show "0 < uint b \<longleftrightarrow> b \<noteq> 0" using zero uint_ge_0 [of b] by linarith
qed

lemma uint_u8_less: "\<not> uint b < uint a \<Longrightarrow> a \<noteq> b \<Longrightarrow> uint a < uint b" for a b :: u8
  by (simp add: word_uint_eq_iff)

lemma strcmp_eq_0: "strcmp s t = 0 \<longleftrightarrow> c_text s = c_text t"
  by (induction s t rule: strcmp.induct) (auto simp: uint_u8 first_char_def split: list.splits)

lemma strcmp_neg: "strcmp s t < 0 \<longleftrightarrow> ord_class.lexordp (c_text s) (c_text t)"
  by (induction s t rule: strcmp.induct)
    (auto simp: uint_u8 word_less_def first_char_def intro: uint_u8_less split: list.splits)

lemma strncmp_eq_0: "strncmp s t n = 0 \<longleftrightarrow> take n (c_text s) = take n (c_text t)"
proof (induction s t n rule: strncmp.induct)
  case (2 s t n)
  then show ?case by (cases s; cases t) (auto simp: Let_def uint_u8)
qed simp

section \<open>Lemmas on memory\<close>

text \<open>
  A sequence of single copies moves every byte as it was at the start, provided that no copy
  writes a byte that a later one reads or writes.
\<close>

lemma copy_outside: "\<forall>i\<in>set is. d + of_nat i \<noteq> a \<Longrightarrow> fold (copy_byte d s) is m a = m a"
  by (induction "is" arbitrary: m) (auto simp: copy_byte_def)

lemma copy_inside:
  "sorted_wrt (\<lambda>i j. d + of_nat i \<noteq> s + of_nat j \<and> (d :: u32) + of_nat i \<noteq> d + of_nat j) is \<Longrightarrow> i \<in> set is \<Longrightarrow>
   fold (copy_byte d s) is m (d + of_nat i) = m (s + of_nat i)"
proof (induction "is" arbitrary: m)
  case (Cons k ks)
  show ?case
  proof (cases "i \<in> set ks")
    case True
    then have "fold (copy_byte d s) (k # ks) m (d + of_nat i) = copy_byte d s k m (s + of_nat i)"
      using Cons by simp
    also have "\<dots> = m (s + of_nat i)" using Cons.prems(1) True by (auto simp: copy_byte_def)
    finally show ?thesis .
  next
    case False
    then have k: "i = k" using Cons.prems(2) by simp
    have "fold (copy_byte d s) ks (copy_byte d s k m) (d + of_nat k) = copy_byte d s k m (d + of_nat k)"
      using Cons.prems(1) by (intro copy_outside) (auto dest!: bspec)
    then show ?thesis by (simp add: k) (simp add: copy_byte_def)
  qed
qed simp

lemma unat_offset: "unat (d :: u32) + n \<le> 2 ^ 32 \<Longrightarrow> i < n \<Longrightarrow> unat (d + of_nat i) = unat d + i"
  by (simp add: unat_word_ariths unat_of_nat)

lemma offset_eq:
  assumes "unat (d :: u32) + n \<le> 2 ^ 32" and "unat (s :: u32) + n \<le> 2 ^ 32" and "i < n" and "j < n"
  shows "d + of_nat i = s + of_nat j \<longleftrightarrow> unat d + i = unat s + j"
  using unat_offset [OF assms(1,3)] unat_offset [OF assms(2,4)] by (metis word_unat_eq_iff)

lemma offset_outside:
  assumes "unat (d :: u32) + n \<le> 2 ^ 32" and "unat a < unat d \<or> unat d + n \<le> unat a"
  shows "\<forall>i\<in>set [0..<n]. d + of_nat i \<noteq> a"
  using unat_offset [OF assms(1)] assms(2) by (auto dest: less_imp_neq)

lemma memcpy_forward:
  assumes "unat d + n \<le> 2 ^ 32" and "unat s + n \<le> 2 ^ 32"
    and "unat d \<le> unat s \<or> unat s + n \<le> unat d" and "i < n"
  shows "memcpy d s n m (d + of_nat i) = m (s + of_nat i)"
proof -
  have "sorted_wrt (\<lambda>i j. d + of_nat i \<noteq> s + of_nat j \<and> d + of_nat i \<noteq> d + of_nat j) [0..<n]"
    using assms(3) offset_eq [OF assms(1,2)] offset_eq [OF assms(1,1)]
    by (auto simp: sorted_wrt_iff_nth_less)
  from copy_inside [OF this, of i m] assms(4) show ?thesis by (simp add: memcpy_def)
qed

lemma memcpy_outside:
  assumes "unat d + n \<le> 2 ^ 32" and "unat a < unat d \<or> unat d + n \<le> unat a"
  shows "memcpy d s n m a = m a"
  unfolding memcpy_def by (rule copy_outside [OF offset_outside [OF assms]])

lemma memset_bytes:
  assumes "unat d + n \<le> 2 ^ 32"
  shows "memset d v n m a = (if unat d \<le> unat a \<and> unat a < unat d + n then word_of_int v else m a)"
  using assms
proof (induction n)
  case 0
  then show ?case by (auto simp: memset_def)
next
  case (Suc n)
  have "unat (d + of_nat n) = unat d + n" using unat_offset [OF Suc.prems, of n] by simp
  then have "a = d + of_nat n \<longleftrightarrow> unat a = unat d + n" by (metis word_unat_eq_iff)
  with Suc show ?case by (auto simp: memset_def)
qed

text \<open>A copy between ranges that do not overlap, as one function.\<close>

definition copied :: "u32 \<Rightarrow> u32 \<Rightarrow> nat \<Rightarrow> mem \<Rightarrow> mem" where
  "copied d s n m = (\<lambda>a. if unat (a - d) < n then m (s + (a - d)) else m a)"

lemma memcpy_copied:
  assumes "unat d + n \<le> 2 ^ 32" and "unat s + n \<le> 2 ^ 32"
    and "unat d + n \<le> unat s \<or> unat s + n \<le> unat d"
  shows "memcpy d s n m = copied d s n m"
proof
  fix a
  show "memcpy d s n m a = copied d s n m a"
  proof (cases "unat (a - d) < n")
    case True
    have "memcpy d s n m (d + of_nat (unat (a - d))) = m (s + of_nat (unat (a - d)))"
      using assms(3) by (intro memcpy_forward [OF assms(1,2) _ True]) auto
    then show ?thesis using True by (simp add: copied_def)
  next
    case False
    have "unat a < unat d \<or> unat d + n \<le> unat a"
    proof (rule ccontr)
      assume "\<not> ?thesis"
      then have "d \<le> a" "unat a - unat d < n" by (auto simp: word_le_nat_alt)
      with False show False by (simp add: unat_sub)
    qed
    from memcpy_outside [OF assms(1) this] False show ?thesis by (simp add: copied_def)
  qed
qed

section \<open>Properties\<close>

text \<open>
  \<open>memmove\<close> moves a range as if through a copy, also when source and destination overlap,
  in either direction, and changes no byte outside the destination.
\<close>

theorem memmove_correct:
  assumes "unat d + n \<le> 2 ^ 32" and "unat s + n \<le> 2 ^ 32"
  shows "(\<forall>i<n. memmove d s n m (d + of_nat i) = m (s + of_nat i)) \<and>
    (\<forall>a. unat a < unat d \<or> unat d + n \<le> unat a \<longrightarrow> memmove d s n m a = m a)"
proof -
  have fwd: "memmove d s n m = memcpy d s n m" if "d < s"
    using that by (auto simp: memmove_def memcpy_def)
  have bwd: "sorted_wrt (\<lambda>i j. d + of_nat i \<noteq> s + of_nat j \<and> d + of_nat i \<noteq> d + of_nat j) (rev [0..<n])"
    if "s < d"
    unfolding sorted_wrt_rev unfolding sorted_wrt_iff_nth_less
    using that offset_eq [OF assms] offset_eq [OF assms(1,1)] by (auto simp: word_less_nat_alt)
  have "memmove d s n m (d + of_nat i) = m (s + of_nat i)" if "i < n" for i
  proof (cases d s rule: linorder_cases)
    case less
    then show ?thesis using memcpy_forward [OF assms _ that, of m] fwd by (simp add: word_less_nat_alt)
  next
    case greater
    then show ?thesis using copy_inside [OF bwd, of i m] that by (auto simp: memmove_def)
  qed (simp add: memmove_def)
  moreover have "memmove d s n m a = m a" if "unat a < unat d \<or> unat d + n \<le> unat a" for a
    using offset_outside [OF assms(1) that] by (auto simp: memmove_def intro!: copy_outside)
  ultimately show ?thesis by blast
qed

theorem memmove_correct_witness:
  "memmove 0x1002 0x1000 4 (\<lambda>a. ucast a) 0x1005 = 3"
proof -
  have "\<forall>i<4. memmove 0x1002 0x1000 4 (\<lambda>a. ucast a) (0x1002 + of_nat i) = ucast (0x1000 + of_nat i :: u32)"
    using memmove_correct [of "0x1002" 4 "0x1000" "\<lambda>a. ucast a"] by simp
  then have "memmove 0x1002 0x1000 4 (\<lambda>a. ucast a) (0x1002 + of_nat 3) = ucast (0x1000 + of_nat 3 :: u32)"
    by (rule allE [of _ 3]) simp
  then show ?thesis by simp
qed

text \<open>
  \<open>strcmp\<close> compares the texts of two arrays: 0 exactly for equal texts, and a negative number
  exactly when the first precedes the second in the lexicographic order of unsigned bytes;
  \<open>strncmp\<close> compares the first \<open>n\<close> characters alike, and \<open>strlen\<close> is the length of the text.
\<close>

theorem strcmp_lexicographic:
  "(strcmp s t = 0 \<longleftrightarrow> c_text s = c_text t) \<and>
   (strcmp s t < 0 \<longleftrightarrow> ord_class.lexordp (c_text s) (c_text t)) \<and>
   (strncmp s t n = 0 \<longleftrightarrow> take n (c_text s) = take n (c_text t)) \<and>
   strlen s = length (c_text s)"
  by (simp add: strcmp_eq_0 strcmp_neg strncmp_eq_0 strlen_text)

end
