(* ===== verification/Heap.thy ===== *)
theory Heap
  imports Pmm Paging CString
begin

unbundle bit_operations_syntax

text \<open>
  The kernel heap, \<open>kernel/heap.c\<close>: a doubly linked list of blocks in a window of 16 MiB, first-fit
  allocation with splitting, release with coalescing of both neighbours, growth by single frames
  taken from the physical memory manager and mapped through the page tables. Block headers are a
  store from addresses to records; the bytes of the blocks are a flat memory. The abstract state
  is a list of cells, a size and a free flag each, in the order of their addresses.
\<close>

section \<open>State\<close>

record heap_block =
  hb_size :: u32
  hb_free :: bool
  hb_next :: u32
  hb_prev :: u32

abbreviation (input) "HEAP_ALIGN \<equiv> (16 :: u32)"
abbreviation (input) "KHEAP_BASE \<equiv> (0x18000000 :: u32)"
abbreviation (input) "KHEAP_MAX_SIZE \<equiv> (0x1000000 :: u32)"
abbreviation (input) "HEAP_INITIAL_PAGES \<equiv> (4 :: nat)"

text \<open>\<open>heap_blocks\<close> holds the headers written so far, \<open>heap_mem\<close> the bytes of the blocks.\<close>

record heap =
  heap_blocks :: "u32 \<rightharpoonup> heap_block"
  heap_mem :: mem
  g_head :: u32
  g_heap_start :: u32
  g_heap_end :: u32
  g_heap_limit :: u32
  heap_lock_word :: u32
  g_heap_ready :: bool
  heap_pmm :: pmm
  heap_pg :: paging

definition heap_lock :: "heap \<Rightarrow> heap res" where
  "heap_lock h = (if heap_lock_word h \<noteq> 0 then Fail Hang else Ok (h\<lparr>heap_lock_word := 1\<rparr>))"

definition heap_unlock :: "heap \<Rightarrow> heap" where
  "heap_unlock h = h\<lparr>heap_lock_word := 0\<rparr>"

definition block_overhead :: u32 where
  "block_overhead = 16"

definition get_block :: "u32 \<Rightarrow> heap \<Rightarrow> heap_block res" where
  "get_block a h = (case heap_blocks h a of None \<Rightarrow> Fail Wild | Some b \<Rightarrow> Ok b)"

definition put_block :: "u32 \<Rightarrow> heap_block \<Rightarrow> heap \<Rightarrow> heap" where
  "put_block a b h = h\<lparr>heap_blocks := (heap_blocks h)(a \<mapsto> b)\<rparr>"

text \<open>\<open>if (p) p->prev = q;\<close>\<close>

definition set_prev :: "u32 \<Rightarrow> u32 \<Rightarrow> heap \<Rightarrow> heap res" where
  "set_prev p q h =
     (if p = 0 then Ok h
      else rbind (get_block p h) (\<lambda>b. Ok (put_block p (b\<lparr>hb_prev := q\<rparr>) h)))"

section \<open>Splitting and merging\<close>

definition split_block :: "u32 \<Rightarrow> u32 \<Rightarrow> heap \<Rightarrow> heap res" where
  "split_block block wanted h =
     rbind (get_block block h) (\<lambda>b.
       if hb_size b \<le> wanted + block_overhead + HEAP_ALIGN then Ok h
       else
         (let new_addr = block + block_overhead + wanted;
              n = \<lparr>hb_size = hb_size b - wanted - block_overhead, hb_free = True,
                   hb_next = hb_next b, hb_prev = block\<rparr>
          in rbind (set_prev (hb_next b) new_addr (put_block new_addr n h)) (\<lambda>h.
             rbind (get_block block h) (\<lambda>b.
               Ok (put_block block (b\<lparr>hb_size := wanted, hb_next := new_addr\<rparr>) h)))))"

definition merge_next :: "u32 \<Rightarrow> heap \<Rightarrow> heap res" where
  "merge_next block h =
     rbind (get_block block h) (\<lambda>b.
       if hb_next b = 0 then Ok h
       else rbind (get_block (hb_next b) h) (\<lambda>n.
         if \<not> hb_free n then Ok h
         else set_prev (hb_next n) block
                (put_block block
                   (b\<lparr>hb_size := hb_size b + (block_overhead + hb_size n),
                      hb_next := hb_next n\<rparr>) h)))"

section \<open>Growth\<close>

partial_function (option) last_from :: "heap \<Rightarrow> u32 \<Rightarrow> u32 res option" where
  "last_from h cur =
     (case heap_blocks h cur of
        None \<Rightarrow> Some (Fail Wild)
      | Some b \<Rightarrow> if hb_next b \<noteq> 0 then last_from h (hb_next b) else Some (Ok cur))"

definition last_block :: "heap \<Rightarrow> u32 res" where
  "last_block h = (if g_head h = 0 then Ok 0 else hang (last_from h (g_head h)))"

text \<open>
  The loop \<open>while (added < needed)\<close> of \<open>heap_expand\<close>: \<open>needed\<close> is a multiple of the page size, so
  the loop runs \<open>needed / 4096\<close> times or stops early with the answer -1.
\<close>

fun expand_pages :: "nat \<Rightarrow> heap \<Rightarrow> (int \<times> heap) res" where
  "expand_pages 0 h = Ok (0, h)"
| "expand_pages (Suc n) h =
     rbind (pmm_alloc_frame (heap_pmm h)) (\<lambda>(frame, pmm).
       let h = h\<lparr>heap_pmm := pmm\<rparr>
       in if frame = 0 then Ok (-1, h)
          else if g_heap_end h + PMM_FRAME_SIZE > g_heap_limit h
          then rbind (pmm_free_frame frame (heap_pmm h)) (\<lambda>pmm. Ok (-1, h\<lparr>heap_pmm := pmm\<rparr>))
          else rbind (map_page (g_heap_end h) frame PAGE_WRITE (heap_pg h)) (\<lambda>(rc, pg).
            let h = h\<lparr>heap_pg := pg\<rparr>
            in if rc \<noteq> 0
               then rbind (pmm_free_frame frame (heap_pmm h)) (\<lambda>pmm. Ok (-1, h\<lparr>heap_pmm := pmm\<rparr>))
               else expand_pages n (h\<lparr>g_heap_end := g_heap_end h + PMM_FRAME_SIZE\<rparr>)))"

text \<open>Once the pages are there: extend the last block, or append a free block after it.\<close>

definition grow_tail :: "u32 \<Rightarrow> heap \<Rightarrow> (int \<times> heap) res" where
  "grow_tail added h =
     rbind (last_block h) (\<lambda>tail.
       if tail = 0 then Ok (-1, h)
       else rbind (get_block tail h) (\<lambda>t.
         if hb_free t
         then Ok (0, put_block tail (t\<lparr>hb_size := hb_size t + added\<rparr>) h)
         else
           (let nb = tail + block_overhead + hb_size t
            in Ok (0, put_block tail (t\<lparr>hb_next := nb\<rparr>)
                        (put_block nb \<lparr>hb_size = added - block_overhead, hb_free = True,
                                       hb_next = 0, hb_prev = tail\<rparr> h)))))"

definition heap_expand :: "u32 \<Rightarrow> heap \<Rightarrow> (int \<times> heap) res" where
  "heap_expand min_bytes h =
     (let needed = align_up (min_bytes + block_overhead) PMM_FRAME_SIZE
      in rbind (expand_pages (unat needed div 4096) h) (\<lambda>(rc, h).
        if rc \<noteq> 0 then Ok (-1, h) else grow_tail needed h))"

fun init_pages_loop :: "nat \<Rightarrow> heap \<Rightarrow> heap res" where
  "init_pages_loop 0 h = Ok h"
| "init_pages_loop (Suc n) h =
     rbind (pmm_alloc_frame (heap_pmm h)) (\<lambda>(frame, pmm).
       if frame = 0 then Fail (Panic ''heap_init: out of physical memory'')
       else rbind (map_page (g_heap_end h) frame PAGE_WRITE (heap_pg h)) (\<lambda>(rc, pg).
         if rc \<noteq> 0 then Fail (Panic ''heap_init: map_page failed'')
         else init_pages_loop n (h\<lparr>heap_pmm := pmm, heap_pg := pg,
                                   g_heap_end := g_heap_end h + PMM_FRAME_SIZE\<rparr>)))"

definition heap_init :: "heap \<Rightarrow> heap res" where
  "heap_init h =
     rbind (init_pages_loop HEAP_INITIAL_PAGES
              (h\<lparr>g_heap_start := KHEAP_BASE, g_heap_end := KHEAP_BASE,
                 g_heap_limit := KHEAP_BASE + KHEAP_MAX_SIZE, heap_lock_word := 0\<rparr>))
       (\<lambda>h. Ok ((put_block (g_heap_start h)
                  \<lparr>hb_size = g_heap_end h - g_heap_start h - block_overhead, hb_free = True,
                   hb_next = 0, hb_prev = 0\<rparr> h)
                \<lparr>g_head := g_heap_start h, g_heap_ready := True\<rparr>))"

section \<open>The allocator\<close>

partial_function (option) first_fit :: "heap \<Rightarrow> u32 \<Rightarrow> u32 \<Rightarrow> u32 res option" where
  "first_fit h wanted cur =
     (if cur = 0 then Some (Ok 0)
      else case heap_blocks h cur of
        None \<Rightarrow> Some (Fail Wild)
      | Some b \<Rightarrow> if hb_free b \<and> hb_size b \<ge> wanted then Some (Ok cur)
                  else first_fit h wanted (hb_next b))"

text \<open>Taking the block the search found: split, mark, unlock, return the payload.\<close>

definition take_block :: "u32 \<Rightarrow> u32 \<Rightarrow> heap \<Rightarrow> (u32 \<times> heap) res" where
  "take_block cur wanted h =
     rbind (split_block cur wanted h) (\<lambda>h.
     rbind (get_block cur h) (\<lambda>b.
       Ok (cur + block_overhead, heap_unlock (put_block cur (b\<lparr>hb_free := False\<rparr>) h))))"

text \<open>The search with its \<open>goto retry\<close> after a successful growth.\<close>

partial_function (option) kmalloc_retry :: "u32 \<Rightarrow> heap \<Rightarrow> (u32 \<times> heap) res option" where
  "kmalloc_retry wanted h =
     (case hang (first_fit h wanted (g_head h)) of
        Fail e \<Rightarrow> Some (Fail e)
      | Ok cur \<Rightarrow>
          if cur \<noteq> 0 then Some (take_block cur wanted h)
          else case heap_expand wanted h of
            Fail e \<Rightarrow> Some (Fail e)
          | Ok (rc, h) \<Rightarrow> if rc = 0 then kmalloc_retry wanted h else Some (Ok (0, heap_unlock h)))"

definition kmalloc :: "u32 \<Rightarrow> heap \<Rightarrow> (u32 \<times> heap) res" where
  "kmalloc bytes h =
     (if \<not> g_heap_ready h \<or> bytes = 0 then Ok (0, h)
      else let wanted = (bytes + (HEAP_ALIGN - 1)) AND NOT (HEAP_ALIGN - 1)
           in rbind (heap_lock h) (\<lambda>h. hang (kmalloc_retry wanted h)))"

definition kfree :: "u32 \<Rightarrow> heap \<Rightarrow> heap res" where
  "kfree ptr h =
     (if \<not> g_heap_ready h \<or> ptr = 0 then Ok h
      else rbind (heap_lock h) (\<lambda>h.
        let block = ptr - block_overhead
        in rbind (get_block block h) (\<lambda>b.
           rbind (merge_next block (put_block block (b\<lparr>hb_free := True\<rparr>) h)) (\<lambda>h.
           rbind (get_block block h) (\<lambda>b.
             if hb_prev b = 0 then Ok (heap_unlock h)
             else rbind (get_block (hb_prev b) h) (\<lambda>p.
               if \<not> hb_free p then Ok (heap_unlock h)
               else rbind (merge_next (hb_prev b) h) (\<lambda>h. Ok (heap_unlock h))))))))"

definition krealloc :: "u32 \<Rightarrow> u32 \<Rightarrow> heap \<Rightarrow> (u32 \<times> heap) res" where
  "krealloc ptr new_size h =
     (if ptr = 0 then kmalloc new_size h
      else if new_size = 0 then rbind (kfree ptr h) (\<lambda>h. Ok (0, h))
      else rbind (get_block (ptr - block_overhead) h) (\<lambda>b.
        if hb_size b \<ge> new_size then Ok (ptr, h)
        else rbind (kmalloc new_size h) (\<lambda>(np, h).
          if np = 0 then Ok (0, h)
          else rbind (get_block (ptr - block_overhead) h) (\<lambda>b.
            let copy_size = (if hb_size b > new_size then new_size else hb_size b)
            in rbind (kfree ptr (h\<lparr>heap_mem := memcpy np ptr (unat copy_size) (heap_mem h)\<rparr>))
                 (\<lambda>h. Ok (np, h))))))"

section \<open>Statistics\<close>

record heap_stats =
  hs_heap_start :: u32
  hs_heap_end :: u32
  hs_total_bytes :: u32
  hs_used_bytes :: u32
  hs_free_bytes :: u32
  hs_free_blocks :: u32
  hs_used_blocks :: u32
  hs_largest_free_block :: u32

definition zero_stats :: heap_stats where
  "zero_stats = \<lparr>hs_heap_start = 0, hs_heap_end = 0, hs_total_bytes = 0, hs_used_bytes = 0,
     hs_free_bytes = 0, hs_free_blocks = 0, hs_used_blocks = 0, hs_largest_free_block = 0\<rparr>"

definition count_block :: "heap_block \<Rightarrow> heap_stats \<Rightarrow> heap_stats" where
  "count_block b st =
     (if hb_free b
      then st\<lparr>hs_free_blocks := hs_free_blocks st + 1, hs_free_bytes := hs_free_bytes st + hb_size b,
              hs_largest_free_block := (if hb_size b > hs_largest_free_block st then hb_size b
                                        else hs_largest_free_block st)\<rparr>
      else st\<lparr>hs_used_blocks := hs_used_blocks st + 1, hs_used_bytes := hs_used_bytes st + hb_size b\<rparr>)"

partial_function (option) stats_loop :: "heap \<Rightarrow> u32 \<Rightarrow> heap_stats \<Rightarrow> heap_stats res option" where
  "stats_loop h cur st =
     (if cur = 0 then Some (Ok st)
      else case heap_blocks h cur of
        None \<Rightarrow> Some (Fail Wild)
      | Some b \<Rightarrow> stats_loop h (hb_next b) (count_block b st))"

definition heap_get_stats :: "heap \<Rightarrow> (heap_stats \<times> heap) res" where
  "heap_get_stats h =
     (if \<not> g_heap_ready h then Ok (zero_stats, h)
      else rbind (heap_lock h) (\<lambda>h.
        rbind (hang (stats_loop h (g_head h)
                 (zero_stats\<lparr>hs_heap_start := g_heap_start h, hs_heap_end := g_heap_end h,
                             hs_total_bytes := g_heap_end h - g_heap_start h\<rparr>)))
          (\<lambda>st. Ok (st, heap_unlock h))))"

section \<open>The list of cells a store represents\<close>

type_synonym cell = "nat \<times> bool"

fun span :: "cell list \<Rightarrow> nat" where
  "span [] = 0"
| "span ((n, f) # cs) = 16 + n + span cs"

text \<open>
  \<open>seg H p a cs nx\<close>: the store \<open>H\<close> holds the cells \<open>cs\<close> side by side from address \<open>a\<close>; the first
  one points back to \<open>p\<close> and the last one on to \<open>nx\<close>.
\<close>

fun seg :: "(u32 \<rightharpoonup> heap_block) \<Rightarrow> u32 \<Rightarrow> nat \<Rightarrow> cell list \<Rightarrow> u32 \<Rightarrow> bool" where
  "seg H p a [] nx = True"
| "seg H p a ((n, f) # cs) nx =
     (H (of_nat a) = Some \<lparr>hb_size = of_nat n, hb_free = f,
        hb_next = (if cs = [] then nx else of_nat (a + 16 + n)), hb_prev = p\<rparr> \<and>
      seg H (of_nat a) (a + 16 + n) cs nx)"

fun last_addr :: "u32 \<Rightarrow> nat \<Rightarrow> cell list \<Rightarrow> u32" where
  "last_addr p a [] = p"
| "last_addr p a ((n, f) # cs) = last_addr (of_nat a) (a + 16 + n) cs"

lemma span_append [simp]: "span (xs @ ys) = span xs + span ys"
  by (induction xs rule: span.induct) auto

lemma seg_append:
  "seg H p a (xs @ ys) nx \<longleftrightarrow>
     seg H p a xs (if ys = [] then nx else of_nat (a + span xs)) \<and>
     seg H (last_addr p a xs) (a + span xs) ys nx"
proof (induction xs arbitrary: p a rule: span.induct)
  case (2 n f xs)
  then show ?case by (cases xs) (auto simp: add.assoc)
qed auto

lemma last_addr_append:
  "last_addr p a (xs @ ys) = last_addr (last_addr p a xs) (a + span xs) ys"
  by (induction xs arbitrary: p a rule: span.induct) (auto simp: add.assoc)

lemma of_nat_eq_u32: "a < 2 ^ 32 \<Longrightarrow> b < 2 ^ 32 \<Longrightarrow> (of_nat a :: u32) = of_nat b \<longleftrightarrow> a = b"
  by (simp add: word_of_nat_eq_iff take_bit_nat_eq_self)

text \<open>A write outside the addresses of a segment leaves it alone.\<close>

lemma seg_frame:
  "b < a \<or> a + span cs \<le> b \<Longrightarrow> b < 2 ^ 32 \<Longrightarrow> a + span cs \<le> 2 ^ 32 \<Longrightarrow>
   seg (H(of_nat b \<mapsto> v)) p a cs nx = seg H p a cs nx"
proof (induction cs arbitrary: p a rule: span.induct)
  case (2 n f cs)
  have "(of_nat a :: u32) \<noteq> of_nat b"
    using 2 by (subst of_nat_eq_u32) auto
  moreover have "seg (H(of_nat b \<mapsto> v)) (of_nat a) (a + 16 + n) cs nx =
      seg H (of_nat a) (a + 16 + n) cs nx"
    using 2 by (intro "2.IH") auto
  ultimately show ?case by (simp only: seg.simps fun_upd_other not_False_eq_True)
qed auto

text \<open>Redirecting the back pointer of the first cell of a segment.\<close>

lemma seg_set_prev:
  assumes "seg H p a cs nx" and "cs \<noteq> []" and "a + span cs \<le> 2 ^ 32"
    and "H (of_nat a) = Some b"
  shows "seg (H(of_nat a \<mapsto> b\<lparr>hb_prev := q\<rparr>)) q a cs nx"
proof -
  obtain n f cs' where cs: "cs = (n, f) # cs'" using assms(2) by (cases cs) auto
  have "seg (H(of_nat a \<mapsto> b\<lparr>hb_prev := q\<rparr>)) (of_nat a) (a + 16 + n) cs' nx =
      seg H (of_nat a) (a + 16 + n) cs' nx"
    using assms cs by (intro seg_frame) auto
  then show ?thesis
    using assms cs unfolding cs seg.simps by (auto simp del: fun_upd_apply simp: fun_upd_same)
qed

text \<open>The cells a store represents are determined by it.\<close>

lemma seg_unique:
  "seg H p a cs 0 \<Longrightarrow> seg H p a cs' 0 \<Longrightarrow> cs \<noteq> [] \<Longrightarrow> cs' \<noteq> [] \<Longrightarrow>
   a + span cs < 2 ^ 32 \<Longrightarrow> a + span cs' < 2 ^ 32 \<Longrightarrow> cs = cs'"
proof (induction cs arbitrary: p a cs' rule: span.induct)
  case (2 n f cs)
  obtain m g ds where cs': "cs' = (m, g) # ds" using 2 by (cases cs') auto
  have "n = m" "f = g"
    using 2 cs' of_nat_eq_u32 [of n m] by auto
  have nz: "(of_nat (a + 16 + n) :: u32) \<noteq> 0"
    using 2 of_nat_eq_u32 [of "a + 16 + n" 0] by auto
  have "cs = [] \<longleftrightarrow> ds = []"
    using 2 cs' \<open>n = m\<close> nz by (auto split: if_splits)
  moreover have "cs = ds" if "cs \<noteq> []" "ds \<noteq> []"
    using that 2 cs' \<open>n = m\<close> by (intro "2.IH" [of "of_nat a" "a + 16 + n"]) auto
  ultimately show ?case using cs' \<open>n = m\<close> \<open>f = g\<close> by auto
qed auto

section \<open>Live blocks\<close>

text \<open>The allocated blocks, by payload address and size.\<close>

fun live_at :: "nat \<Rightarrow> cell list \<Rightarrow> (nat \<times> nat) set" where
  "live_at a [] = {}"
| "live_at a ((n, f) # cs) = (if f then {} else {(a + 16, n)}) \<union> live_at (a + 16 + n) cs"

lemma live_at_append [simp]: "live_at a (xs @ ys) = live_at a xs \<union> live_at (a + span xs) ys"
  by (induction xs arbitrary: a rule: span.induct) (auto simp: add.assoc)

lemma live_at_bounds: "(p, n) \<in> live_at a cs \<Longrightarrow> a + 16 \<le> p \<and> p + n \<le> a + span cs"
proof (induction cs arbitrary: a rule: span.induct)
  case (2 m f cs)
  from "2.prems" consider "p = a + 16" "n = m" | "(p, n) \<in> live_at (a + 16 + m) cs"
    by (auto split: if_splits)
  then show ?case
  proof cases
    case 2
    from "2.IH" [OF this] show ?thesis by simp
  qed simp
qed auto

lemma live_at_split:
  "(p, n) \<in> live_at a cs \<Longrightarrow> \<exists>xs ys. cs = xs @ (n, False) # ys \<and> p = a + span xs + 16"
proof (induction cs arbitrary: a rule: span.induct)
  case (2 m f cs)
  show ?case
  proof (cases "\<not> f \<and> p = a + 16 \<and> n = m")
    case True
    then have "(m, f) # cs = [] @ (n, False) # cs \<and> p = a + span [] + 16" by simp
    then show ?thesis by blast
  next
    case False
    then have "(p, n) \<in> live_at (a + 16 + m) cs" using "2.prems" by (auto split: if_splits)
    from "2.IH" [OF this] obtain xs ys
      where "cs = xs @ (n, False) # ys" "p = a + 16 + m + span xs + 16" by blast
    then have "(m, f) # cs = ((m, f) # xs) @ (n, False) # ys \<and> p = a + span ((m, f) # xs) + 16"
      by simp
    then show ?thesis by blast
  qed
qed auto

text \<open>Two live blocks are equal or disjoint, headers included.\<close>

lemma live_at_disjoint:
  "(p, n) \<in> live_at a cs \<Longrightarrow> (q, m) \<in> live_at a cs \<Longrightarrow>
   (p, n) = (q, m) \<or> p + n + 16 \<le> q \<or> q + m + 16 \<le> p"
proof (induction cs arbitrary: a rule: span.induct)
  case (2 k f cs)
  note b = live_at_bounds [of _ _ "a + 16 + k" cs]
  from "2.prems" "2.IH" [of "a + 16 + k"] b [of p n] b [of q m] show ?case
    by (auto split: if_splits)
qed auto

section \<open>Splitting and merging act on the cells\<close>

text \<open>A segment depends on the store at its own addresses only.\<close>

lemma seg_cong:
  "(\<And>k. a \<le> k \<Longrightarrow> k < a + span cs \<Longrightarrow> H' (of_nat k) = H (of_nat k)) \<Longrightarrow>
   seg H' p a cs nx = seg H p a cs nx"
proof (induction cs arbitrary: p a rule: span.induct)
  case (2 n f cs)
  have "H' (of_nat a) = H (of_nat a)" using 2 by simp
  moreover have "seg H' (of_nat a) (a + 16 + n) cs nx = seg H (of_nat a) (a + 16 + n) cs nx"
    using 2 by (intro "2.IH") auto
  ultimately show ?case by (simp only: seg.simps)
qed auto

lemma get_block_Some [simp]: "heap_blocks h a = Some b \<Longrightarrow> get_block a h = Ok b"
  by (simp add: get_block_def)

lemma heap_blocks_put [simp]: "heap_blocks (put_block a b h) = (heap_blocks h)(a \<mapsto> b)"
  by (simp add: put_block_def)

lemma put_block_eq: "put_block a b h = h\<lparr>heap_blocks := (heap_blocks h)(a \<mapsto> b)\<rparr>"
  by (simp add: put_block_def)

text \<open>The pointer to the cells that follow, 0 at the end of the list.\<close>

definition next_ptr :: "nat \<Rightarrow> cell list \<Rightarrow> u32" where
  "next_ptr a ys = (if ys = [] then 0 else of_nat a)"

lemma next_ptr_zero: "0 < a \<Longrightarrow> a < 2 ^ 32 \<Longrightarrow> next_ptr a ys = 0 \<longleftrightarrow> ys = []"
  using of_nat_eq_u32 [of a 0] by (simp add: next_ptr_def)

lemma seg_middle:
  "seg H p a (xs @ (n, f) # ys) 0 \<longleftrightarrow>
     seg H p a xs (of_nat (a + span xs)) \<and>
     H (of_nat (a + span xs)) = Some \<lparr>hb_size = of_nat n, hb_free = f,
       hb_next = next_ptr (a + span xs + 16 + n) ys, hb_prev = last_addr p a xs\<rparr> \<and>
     seg H (of_nat (a + span xs)) (a + span xs + 16 + n) ys 0"
  by (auto simp: seg_append next_ptr_def)

lemma set_prev_seg:
  assumes "seg (heap_blocks h) p a ys nx" and "0 < a" and "a + span ys < 2 ^ 32"
  shows "\<exists>H. set_prev (next_ptr a ys) q h = Ok (h\<lparr>heap_blocks := H\<rparr>) \<and> seg H q a ys nx \<and>
    (\<forall>x. x \<noteq> of_nat a \<longrightarrow> H x = heap_blocks h x)"
proof (cases "ys = []")
  case True
  then show ?thesis
    by (intro exI [of _ "heap_blocks h"]) (simp add: set_prev_def next_ptr_def)
next
  case False
  then obtain b where b: "heap_blocks h (of_nat a) = Some b"
    using assms(1) by (cases ys) auto
  have "next_ptr a ys \<noteq> 0" using next_ptr_zero [of a ys] assms False by simp
  then have "set_prev (next_ptr a ys) q h =
      Ok (h\<lparr>heap_blocks := (heap_blocks h)(of_nat a \<mapsto> b\<lparr>hb_prev := q\<rparr>)\<rparr>)"
    using b False by (simp add: set_prev_def next_ptr_def put_block_eq)
  moreover have "seg ((heap_blocks h)(of_nat a \<mapsto> b\<lparr>hb_prev := q\<rparr>)) q a ys nx"
    using seg_set_prev [OF assms(1) False _ b] assms(3) by simp
  ultimately show ?thesis by (intro exI conjI) auto
qed

text \<open>What \<open>split_block\<close> makes of the block's cell.\<close>

definition split_cell :: "nat \<Rightarrow> nat \<Rightarrow> bool \<Rightarrow> cell list" where
  "split_cell w n f = (if n \<le> w + 32 then [(n, f)] else [(w, f), (n - w - 16, True)])"

lemma span_split_cell [simp]: "w \<le> n \<Longrightarrow> span (split_cell w n f) = 16 + n"
  by (simp add: split_cell_def)

lemma split_block_seg:
  assumes "seg (heap_blocks h) p a (xs @ (n, f) # ys) 0" and "0 < a"
    and "a + span (xs @ (n, f) # ys) < 2 ^ 32" and "unat w + 32 < 2 ^ 32" and "unat w \<le> n"
  shows "\<exists>H. split_block (of_nat (a + span xs)) w h = Ok (h\<lparr>heap_blocks := H\<rparr>) \<and>
    seg H p a (xs @ split_cell (unat w) n f @ ys) 0"
proof -
  let ?b = "a + span xs" and ?H = "heap_blocks h"
  have n: "n < 2 ^ 32" and sum: "unat (w + block_overhead + HEAP_ALIGN) = unat w + 32"
    using assms(3,4) by (simp_all add: block_overhead_def unat_plus_nowrap)
  note mid = assms(1) [unfolded seg_middle]
  have size: "unat (of_nat n :: u32) = n" using n by (simp add: unat_of_nat)
  show ?thesis
  proof (cases "n \<le> unat w + 32")
    case True
    then have "split_block (of_nat ?b) w h = Ok (h\<lparr>heap_blocks := ?H\<rparr>)"
      using mid by (simp add: split_block_def word_le_nat_alt size sum)
    then show ?thesis using assms(1) True by (intro exI [of _ ?H]) (simp add: split_cell_def)
  next
    case False
    let ?new = "?b + 16 + unat w" and ?nx = "?b + 16 + n"
    let ?N = "\<lparr>hb_size = of_nat (n - unat w - 16), hb_free = True, hb_next = next_ptr ?nx ys,
               hb_prev = of_nat ?b\<rparr> :: heap_block"
    let ?B = "\<lparr>hb_size = of_nat n, hb_free = f, hb_next = next_ptr ?nx ys,
               hb_prev = last_addr p a xs\<rparr> :: heap_block"
    let ?h1 = "put_block (of_nat ?new) ?N h"
    have bounds: "?b < 2 ^ 32" "?new < 2 ^ 32" "?nx < 2 ^ 32" "?b < ?new" "?new < ?nx"
      using assms(3) False by simp_all
    have ne: "(of_nat k :: u32) \<noteq> of_nat ?b" if "k < 2 ^ 32" "k \<noteq> ?b" for k
      using that bounds by (subst of_nat_eq_u32) auto
    have gt: "\<not> (of_nat n :: u32) \<le> 32 + w"
      using False assms(4) by (simp add: word_le_nat_alt size unat_plus_nowrap)
    have rest: "(of_nat (n - unat w - 16) :: u32) = of_nat n - (w + 16)"
      using False by (simp add: of_nat_diff)
    have ys: "seg (heap_blocks ?h1) (of_nat ?b) ?nx ys 0"
      unfolding heap_blocks_put using mid bounds assms(3) by (subst seg_frame) auto
    obtain H2 where H2: "set_prev (next_ptr ?nx ys) (of_nat ?new) ?h1 = Ok (?h1\<lparr>heap_blocks := H2\<rparr>)"
        "seg H2 (of_nat ?new) ?nx ys 0" "\<forall>x. x \<noteq> of_nat ?nx \<longrightarrow> H2 x = heap_blocks ?h1 x"
      using set_prev_seg [OF ys, of "of_nat ?new"] assms(3) bounds by auto
    let ?H3 = "H2(of_nat ?b \<mapsto> ?B\<lparr>hb_size := w, hb_next := of_nat ?new\<rparr>)"
    have same: "H2 (of_nat k) = ?H (of_nat k)" if "k < 2 ^ 32" "k \<noteq> ?nx" "k \<noteq> ?new" for k
      using H2(3) that bounds of_nat_eq_u32 [of k ?nx] of_nat_eq_u32 [of k ?new] by simp
    have get: "H2 (of_nat ?b) = Some ?B"
      using mid bounds by (subst same) simp_all
    have "split_block (of_nat ?b) w h = Ok (h\<lparr>heap_blocks := ?H3\<rparr>)"
      using mid False H2(1) get
      by (simp add: split_block_def gt Let_def rest put_block_eq block_overhead_def diff_diff_eq)
    moreover have "seg ?H3 p a xs (of_nat ?b)"
    proof (subst seg_cong [where H = ?H])
      fix k assume "a \<le> k" "k < ?b"
      then show "?H3 (of_nat k) = ?H (of_nat k)"
        using ne [of k] same [of k] bounds by simp
    qed (use mid in simp)
    moreover have "seg ?H3 (of_nat ?b) ?new ((n - unat w - 16, True) # ys) 0"
    proof -
      have "?H3 (of_nat ?new) = Some ?N"
        using H2(3) bounds ne [of ?new] of_nat_eq_u32 [of ?new ?nx] by simp
      moreover have "seg ?H3 (of_nat ?new) ?nx ys 0"
        using H2(2) bounds assms(3) by (subst seg_frame) auto
      moreover have "?new + 16 + (n - unat w - 16) = ?nx"
        using False by simp
      ultimately show ?thesis unfolding seg.simps by (simp only: next_ptr_def simp_thms)
    qed
    ultimately show ?thesis
      using False by (intro exI [of _ ?H3] conjI)
        (simp_all add: split_cell_def seg_middle next_ptr_def [of ?new] del: of_nat_add seg.simps)
  qed
qed

text \<open>What \<open>merge_next\<close> makes of a block's cell and the cells after it.\<close>

fun join_next :: "nat \<Rightarrow> bool \<Rightarrow> cell list \<Rightarrow> cell list" where
  "join_next n f ((m, True) # ys) = (n + 16 + m, f) # ys"
| "join_next n f ys = (n, f) # ys"

lemma span_join_next [simp]: "span (join_next n f ys) = span ((n, f) # ys)"
  by (induction n f ys rule: join_next.induct) auto

lemma merge_next_seg:
  assumes "seg (heap_blocks h) p a (xs @ (n, f) # ys) 0" and "0 < a"
    and "a + span (xs @ (n, f) # ys) < 2 ^ 32"
  shows "\<exists>H. merge_next (of_nat (a + span xs)) h = Ok (h\<lparr>heap_blocks := H\<rparr>) \<and>
    seg H p a (xs @ join_next n f ys) 0"
proof -
  let ?b = "a + span xs" and ?H = "heap_blocks h"
  let ?nx = "?b + 16 + n"
  note mid = assms(1) [unfolded seg_middle]
  have nz: "next_ptr ?nx ys = 0 \<longleftrightarrow> ys = []"
    using assms by (intro next_ptr_zero) auto
  consider "ys = []" | m zs where "ys = (m, False) # zs" | m zs where "ys = (m, True) # zs"
  proof (cases ys)
    case (Cons c zs)
    then show ?thesis using that by (cases c; cases "snd c") auto
  qed (use that in simp)
  then show ?thesis
  proof cases
    case 1
    then have "merge_next (of_nat ?b) h = Ok (h\<lparr>heap_blocks := ?H\<rparr>)"
      using mid nz by (simp add: merge_next_def)
    then show ?thesis using assms(1) 1 by (intro exI [of _ ?H]) simp
  next
    case (2 m zs)
    have "merge_next (of_nat ?b) h = Ok (h\<lparr>heap_blocks := ?H\<rparr>)"
      using mid nz 2 by (simp add: merge_next_def next_ptr_def)
    then show ?thesis using assms(1) 2 by (intro exI [of _ ?H]) simp
  next
    case (3 m zs)
    let ?nn = "?nx + 16 + m"
    let ?B = "\<lparr>hb_size = of_nat (n + 16 + m), hb_free = f, hb_next = next_ptr ?nn zs,
               hb_prev = last_addr p a xs\<rparr> :: heap_block"
    let ?h1 = "put_block (of_nat ?b) ?B h"
    have bounds: "?b < ?nx" "?nx < ?nn" "?nn + span zs < 2 ^ 32"
      using assms(3) 3 by simp_all
    have N: "?H (of_nat ?nx) = Some \<lparr>hb_size = of_nat m, hb_free = True,
        hb_next = next_ptr ?nn zs, hb_prev = of_nat ?b\<rparr>"
      and zs: "seg ?H (of_nat ?nx) ?nn zs 0"
      using mid 3 by (auto simp: next_ptr_def)
    have zs1: "seg (heap_blocks ?h1) (of_nat ?nx) ?nn zs 0"
      unfolding heap_blocks_put using zs bounds by (subst seg_frame) auto
    obtain H2 where H2: "set_prev (next_ptr ?nn zs) (of_nat ?b) ?h1 = Ok (?h1\<lparr>heap_blocks := H2\<rparr>)"
        "seg H2 (of_nat ?b) ?nn zs 0" "\<forall>x. x \<noteq> of_nat ?nn \<longrightarrow> H2 x = heap_blocks ?h1 x"
      using set_prev_seg [OF zs1, of "of_nat ?b"] bounds by auto
    have np: "next_ptr ?nx ys = of_nat ?nx" "(of_nat ?nx :: u32) \<noteq> 0"
      using 3 nz by (simp_all add: next_ptr_def)
    have B0: "?H (of_nat ?b) = Some \<lparr>hb_size = of_nat n, hb_free = f, hb_next = of_nat ?nx,
        hb_prev = last_addr p a xs\<rparr>"
      using mid np by simp
    have sz: "(of_nat n :: u32) + (block_overhead + of_nat m) = of_nat (n + 16 + m)"
      by (simp add: block_overhead_def)
    have "merge_next (of_nat ?b) h = Ok (h\<lparr>heap_blocks := H2\<rparr>)"
      using H2(1) np(2) by (simp add: merge_next_def get_block_Some [OF B0] get_block_Some [OF N] sz
          put_block_eq del: of_nat_add)
    moreover have ne: "(of_nat k :: u32) \<noteq> of_nat ?nn" if "k < ?nn" for k
      using that bounds by (subst of_nat_eq_u32) auto
    have "seg H2 p a xs (of_nat ?b)"
    proof (subst seg_cong [where H = ?H])
      fix k assume "a \<le> k" "k < ?b"
      then show "H2 (of_nat k) = ?H (of_nat k)"
        using H2(3) ne [of k] bounds of_nat_eq_u32 [of k ?b] by simp
    qed (use mid in simp)
    moreover have "H2 (of_nat ?b) = Some ?B"
      using H2(3) ne [of ?b] bounds by simp
    ultimately show ?thesis
      using H2(2) 3 by (intro exI [of _ H2] conjI)
        (auto simp: seg_middle add.assoc simp del: of_nat_add)
  qed
qed

section \<open>The loops over the list\<close>

fun fit_pos :: "nat \<Rightarrow> nat \<Rightarrow> cell list \<Rightarrow> nat option" where
  "fit_pos w a [] = None"
| "fit_pos w a ((n, f) # cs) = (if f \<and> w \<le> n then Some a else fit_pos w (a + 16 + n) cs)"

definition fits :: "nat \<Rightarrow> cell \<Rightarrow> bool" where
  "fits w c \<longleftrightarrow> snd c \<and> w \<le> fst c"

lemma fit_pos_Some:
  "fit_pos w a cs = Some b \<Longrightarrow>
   \<exists>xs n ys. cs = xs @ (n, True) # ys \<and> b = a + span xs \<and> w \<le> n \<and> (\<forall>c\<in>set xs. \<not> fits w c)"
proof (induction w a cs rule: fit_pos.induct)
  case (2 w a n f cs)
  show ?case
  proof (cases "f \<and> w \<le> n")
    case True
    then have "(n, f) # cs = [] @ (n, True) # cs \<and> b = a + span [] \<and> w \<le> n \<and> (\<forall>c\<in>set []. \<not> fits w c)"
      using "2.prems" by simp
    then show ?thesis by blast
  next
    case False
    then obtain xs m ys where "cs = xs @ (m, True) # ys" "b = a + 16 + n + span xs" "w \<le> m"
        "\<forall>c\<in>set xs. \<not> fits w c"
      using "2.IH" "2.prems" by (auto split: if_splits)
    then have "(n, f) # cs = ((n, f) # xs) @ (m, True) # ys \<and> b = a + span ((n, f) # xs) \<and> w \<le> m \<and>
        (\<forall>c\<in>set ((n, f) # xs). \<not> fits w c)"
      using False by (auto simp: fits_def)
    then show ?thesis by blast
  qed
qed simp

lemma fit_pos_None: "fit_pos w a cs = None \<longleftrightarrow> (\<forall>c\<in>set cs. \<not> fits w c)"
  by (induction w a cs rule: fit_pos.induct) (auto simp: fits_def)

lemma first_fit_seg:
  "seg (heap_blocks h) p a cs 0 \<Longrightarrow> 0 < a \<Longrightarrow> a + span cs < 2 ^ 32 \<Longrightarrow>
   first_fit h w (next_ptr a cs) =
     Some (Ok (case fit_pos (unat w) a cs of None \<Rightarrow> 0 | Some b \<Rightarrow> of_nat b))"
proof (induction cs arbitrary: p a rule: span.induct)
  case 1
  then show ?case by (subst first_fit.simps) (simp add: next_ptr_def)
next
  case (2 n f cs)
  have nz: "next_ptr a ((n, f) # cs) \<noteq> 0" using 2 by (subst next_ptr_zero) auto
  have size: "w \<le> of_nat n \<longleftrightarrow> unat w \<le> n"
    using 2 by (simp add: word_le_nat_alt unat_of_nat)
  have B: "heap_blocks h (next_ptr a ((n, f) # cs)) = Some \<lparr>hb_size = of_nat n, hb_free = f,
      hb_next = next_ptr (a + 16 + n) cs, hb_prev = p\<rparr>"
    using 2 by (simp add: next_ptr_def)
  show ?case
  proof (cases "f \<and> unat w \<le> n")
    case True
    then show ?thesis
      using nz B size by (subst first_fit.simps) (simp add: next_ptr_def)
  next
    case False
    then have "first_fit h w (next_ptr a ((n, f) # cs)) = first_fit h w (next_ptr (a + 16 + n) cs)"
      using nz B size by (subst first_fit.simps) auto
    moreover have "seg (heap_blocks h) (of_nat a) (a + 16 + n) cs 0" "a + 16 + n + span cs < 2 ^ 32"
      using "2.prems" by simp_all
    ultimately show ?thesis
      using False "2.IH" [of "of_nat a" "a + 16 + n"] by (simp only: fit_pos.simps if_False)
  qed
qed

lemma last_from_seg:
  "seg (heap_blocks h) p a cs 0 \<Longrightarrow> cs \<noteq> [] \<Longrightarrow> 0 < a \<Longrightarrow> a + span cs < 2 ^ 32 \<Longrightarrow>
   last_from h (of_nat a) = Some (Ok (last_addr p a cs))"
proof (induction cs arbitrary: p a rule: span.induct)
  case (2 n f cs)
  have B: "heap_blocks h (of_nat a) = Some \<lparr>hb_size = of_nat n, hb_free = f,
      hb_next = next_ptr (a + 16 + n) cs, hb_prev = p\<rparr>"
    using 2 by (simp add: next_ptr_def)
  show ?case
  proof (cases "cs = []")
    case True
    then show ?thesis using B by (subst last_from.simps) (simp add: next_ptr_def)
  next
    case False
    then have "next_ptr (a + 16 + n) cs \<noteq> 0" using 2 by (subst next_ptr_zero) auto
    then have "last_from h (of_nat a) = last_from h (of_nat (a + 16 + n))"
      using B False by (subst last_from.simps) (simp add: next_ptr_def)
    moreover have "seg (heap_blocks h) (of_nat a) (a + 16 + n) cs 0" "a + 16 + n + span cs < 2 ^ 32"
      using "2.prems" by simp_all
    ultimately show ?thesis
      using False "2.IH" [of "of_nat a" "a + 16 + n"] by (simp only: last_addr.simps) simp
  qed
qed simp

lemma stats_loop_seg:
  "seg (heap_blocks h) p a cs 0 \<Longrightarrow> 0 < a \<Longrightarrow> a + span cs < 2 ^ 32 \<Longrightarrow>
   stats_loop h (next_ptr a cs) st =
     Some (Ok (fold (\<lambda>(n, f). count_block \<lparr>hb_size = of_nat n, hb_free = f, hb_next = 0, hb_prev = 0\<rparr>) cs st))"
proof (induction cs arbitrary: p a st rule: span.induct)
  case 1
  then show ?case by (subst stats_loop.simps) (simp add: next_ptr_def)
next
  case (2 n f cs)
  have nz: "next_ptr a ((n, f) # cs) \<noteq> 0" using 2 by (subst next_ptr_zero) auto
  have B: "heap_blocks h (next_ptr a ((n, f) # cs)) = Some \<lparr>hb_size = of_nat n, hb_free = f,
      hb_next = next_ptr (a + 16 + n) cs, hb_prev = p\<rparr>"
    using 2 by (simp add: next_ptr_def)
  have "stats_loop h (next_ptr a ((n, f) # cs)) st =
      stats_loop h (next_ptr (a + 16 + n) cs)
        (count_block \<lparr>hb_size = of_nat n, hb_free = f, hb_next = 0, hb_prev = 0\<rparr> st)"
    using nz B by (subst stats_loop.simps) (simp add: count_block_def)
  moreover have "seg (heap_blocks h) (of_nat a) (a + 16 + n) cs 0" "a + 16 + n + span cs < 2 ^ 32"
    using "2.prems" by simp_all
  ultimately show ?case
    using "2.IH" [of "of_nat a" "a + 16 + n"] by (simp del: of_nat_add)
qed

section \<open>Release\<close>

lemma seg_set_free:
  assumes "seg H p a (xs @ (n, f) # ys) 0" and "H (of_nat (a + span xs)) = Some B"
    and "a + span (xs @ (n, f) # ys) < 2 ^ 32"
  shows "seg (H(of_nat (a + span xs) \<mapsto> B\<lparr>hb_free := g\<rparr>)) p a (xs @ (n, g) # ys) 0"
proof -
  let ?b = "a + span xs"
  let ?H = "H(of_nat ?b \<mapsto> B\<lparr>hb_free := g\<rparr>)"
  note mid = assms(1) [unfolded seg_middle]
  have "seg ?H p a xs (of_nat ?b) = seg H p a xs (of_nat ?b)"
    using assms(3) by (intro seg_frame) auto
  moreover have "seg ?H (of_nat ?b) (?b + 16 + n) ys 0 = seg H (of_nat ?b) (?b + 16 + n) ys 0"
    using assms(3) by (intro seg_frame) auto
  ultimately show ?thesis
    unfolding seg_middle using mid assms(2) by (simp only: fun_upd_same) auto
qed

text \<open>What \<open>kfree\<close> makes of the cells around a block.\<close>

definition free_cells :: "cell list \<Rightarrow> nat \<Rightarrow> cell list \<Rightarrow> cell list" where
  "free_cells xs n ys =
     (if xs \<noteq> [] \<and> snd (last xs)
      then butlast xs @ join_next (fst (last xs)) True (join_next n True ys)
      else xs @ join_next n True ys)"

lemma heap_unlock_lock [simp]:
  "heap_lock_word h = 0 \<Longrightarrow>
   heap_unlock (h\<lparr>heap_lock_word := 1, heap_blocks := H\<rparr>) = h\<lparr>heap_blocks := H\<rparr>"
  by (simp add: heap_unlock_def)

lemma join_next_Cons: "\<exists>m zs. join_next n f ys = (m, f) # zs \<and> n \<le> m"
  by (induction n f ys rule: join_next.induct) auto

lemma last_addr_snoc: "last_addr p a (xs @ [(k, g)]) = of_nat (a + span xs)"
  by (simp add: last_addr_append)

lemma kfree_seg:
  assumes "seg (heap_blocks h) 0 a (xs @ (n, f) # ys) 0" and "0 < a"
    and "a + span (xs @ (n, f) # ys) < 2 ^ 32" and "heap_lock_word h = 0" and "g_heap_ready h"
  shows "\<exists>H. kfree (of_nat (a + span xs + 16)) h = Ok (h\<lparr>heap_blocks := H\<rparr>) \<and>
    seg H 0 a (free_cells xs n ys) 0"
proof -
  let ?b = "a + span xs" and ?h1 = "h\<lparr>heap_lock_word := 1\<rparr>"
  have ptr: "(of_nat (?b + 16) :: u32) \<noteq> 0" "(of_nat (?b + 16) :: u32) - block_overhead = of_nat ?b"
    using assms(2,3) of_nat_eq_u32 [of "?b + 16" 0] by (auto simp: block_overhead_def)
  obtain B where B: "heap_blocks ?h1 (of_nat ?b) = Some B"
    using assms(1) by (auto simp: seg_middle)
  let ?h2 = "?h1\<lparr>heap_blocks := (heap_blocks h)(of_nat ?b \<mapsto> B\<lparr>hb_free := True\<rparr>)\<rparr>"
  have s2: "seg (heap_blocks ?h2) 0 a (xs @ (n, True) # ys) 0"
    using seg_set_free [OF assms(1) _ assms(3), of B True] B by simp
  obtain H3 where H3: "merge_next (of_nat ?b) ?h2 = Ok (?h2\<lparr>heap_blocks := H3\<rparr>)"
      "seg H3 0 a (xs @ join_next n True ys) 0"
    using merge_next_seg [OF s2 assms(2)] assms(3) by auto
  let ?h3 = "?h1\<lparr>heap_blocks := H3\<rparr>"
  obtain m zs where m: "join_next n True ys = (m, True) # zs"
    using join_next_Cons by blast
  have B3: "heap_blocks ?h3 (of_nat ?b) = Some \<lparr>hb_size = of_nat m, hb_free = True,
      hb_next = next_ptr (?b + 16 + m) zs, hb_prev = last_addr 0 a xs\<rparr>"
    using H3(2) by (simp add: m seg_middle)
  have kfree: "kfree (of_nat (?b + 16)) h =
      (if last_addr 0 a xs = 0 then Ok (heap_unlock ?h3)
       else rbind (get_block (last_addr 0 a xs) ?h3) (\<lambda>p.
         if \<not> hb_free p then Ok (heap_unlock ?h3)
         else rbind (merge_next (last_addr 0 a xs) ?h3) (\<lambda>h. Ok (heap_unlock h))))"
    using ptr assms(4,5) H3(1)
    by (simp add: kfree_def heap_lock_def Let_def get_block_Some [OF B] put_block_eq
        get_block_Some [OF B3] del: of_nat_add cong: if_cong)
  show ?thesis
  proof (cases xs rule: rev_cases)
    case Nil
    then show ?thesis
      using kfree H3(2) assms(4) by (intro exI [of _ H3]) (simp add: free_cells_def)
  next
    case (snoc us c)
    obtain k g where xs: "xs = us @ [(k, g)]" using snoc by (cases c) auto
    have la: "last_addr 0 a xs = of_nat (a + span us)" "(of_nat (a + span us) :: u32) \<noteq> 0"
      using assms(2,3) xs of_nat_eq_u32 [of "a + span us" 0] by (simp_all add: last_addr_snoc del: of_nat_add)
    have s3: "seg (heap_blocks ?h3) 0 a (us @ (k, g) # join_next n True ys) 0"
      using H3(2) xs by simp
    then have K: "heap_blocks ?h3 (of_nat (a + span us)) = Some \<lparr>hb_size = of_nat k, hb_free = g,
        hb_next = next_ptr (a + span us + 16 + k) (join_next n True ys), hb_prev = last_addr 0 a us\<rparr>"
      by (simp only: seg_middle)
    have bound: "a + span (us @ (k, g) # join_next n True ys) < 2 ^ 32"
      using assms(3) xs by simp
    show ?thesis
    proof (cases g)
      case False
      then show ?thesis
        using kfree H3(2) assms(4) la K xs
        by (intro exI [of _ H3]) (simp add: free_cells_def get_block_Some [OF K] del: of_nat_add)
    next
      case True
      obtain H4 where "merge_next (of_nat (a + span us)) ?h3 = Ok (?h3\<lparr>heap_blocks := H4\<rparr>)"
          "seg H4 0 a (us @ join_next k g (join_next n True ys)) 0"
        using merge_next_seg [OF s3 assms(2) bound] by auto
      then show ?thesis
        using kfree assms(4) la K xs True
        by (intro exI [of _ H4]) (simp add: free_cells_def get_block_Some [OF K] del: of_nat_add)
    qed
  qed
qed

section \<open>Taking a block\<close>

definition take_cell :: "nat \<Rightarrow> nat \<Rightarrow> cell list" where
  "take_cell w n = split_cell w n False"

lemma take_block_seg:
  assumes "seg (heap_blocks h) p a (xs @ (n, True) # ys) 0" and "0 < a"
    and "a + span (xs @ (n, True) # ys) < 2 ^ 32" and "unat w + 32 < 2 ^ 32" and "unat w \<le> n"
  shows "\<exists>H. take_block (of_nat (a + span xs)) w h =
      Ok (of_nat (a + span xs + 16), heap_unlock (h\<lparr>heap_blocks := H\<rparr>)) \<and>
    seg H p a (xs @ take_cell (unat w) n @ ys) 0"
proof -
  let ?b = "a + span xs"
  obtain H1 where H1: "split_block (of_nat ?b) w h = Ok (h\<lparr>heap_blocks := H1\<rparr>)"
      "seg H1 p a (xs @ split_cell (unat w) n True @ ys) 0"
    using split_block_seg [OF assms] by blast
  obtain m zs where m: "split_cell (unat w) n True @ ys = (m, True) # zs"
      "take_cell (unat w) n @ ys = (m, False) # zs"
    using that by (cases "n \<le> unat w + 32") (auto simp: split_cell_def take_cell_def)
  have s1: "seg H1 p a (xs @ (m, True) # zs) 0" using H1(2) m by simp
  have bound: "a + span (xs @ (m, True) # zs) < 2 ^ 32"
    using assms(3,5) by (simp flip: m(1))
  obtain B where B: "heap_blocks (h\<lparr>heap_blocks := H1\<rparr>) (of_nat ?b) = Some B"
    using s1 by (auto simp: seg_middle)
  then have "take_block (of_nat ?b) w h = Ok (of_nat (?b + 16),
      heap_unlock (h\<lparr>heap_blocks := H1(of_nat ?b \<mapsto> B\<lparr>hb_free := False\<rparr>)\<rparr>))"
    using H1(1) by (simp add: take_block_def get_block_Some [OF B] put_block_eq block_overhead_def)
  moreover have "seg (H1(of_nat ?b \<mapsto> B\<lparr>hb_free := False\<rparr>)) p a (xs @ take_cell (unat w) n @ ys) 0"
    using seg_set_free [OF s1 _ bound, of B False] B m(2) by simp
  ultimately show ?thesis by blast
qed

section \<open>The pages of the heap\<close>

definition heap_pages :: "heap \<Rightarrow> nat set" where
  "heap_pages h = {98304 ..< page_no (g_heap_end h)}"

definition frame_of :: "heap \<Rightarrow> nat \<Rightarrow> u32" where
  "frame_of h p = pte (heap_pg h) p AND 0xFFFFF000"

text \<open>
  The window of the heap is mapped up to \<open>g_heap_end\<close>, page by page onto distinct frames that the
  memory manager has handed out; the page directory has room for the four tables of the window.
\<close>

definition heap_geometry :: "heap \<Rightarrow> bool" where
  "heap_geometry h \<longleftrightarrow> g_heap_limit h = KHEAP_BASE + KHEAP_MAX_SIZE \<and>
     402653184 \<le> unat (g_heap_end h) \<and> unat (g_heap_end h) \<le> 419430400 \<and>
     unat (g_heap_end h) mod 4096 = 0"

definition heap_backed :: "heap \<Rightarrow> bool" where
  "heap_backed h \<longleftrightarrow> heap_geometry h \<and> pmm_inv (heap_pmm h) \<and> paging_wf (heap_pg h) \<and>
     card (pd_present (heap_pg h) \<union> {96..99}) \<le> 256 \<and>
     (\<forall>p\<in>heap_pages h. pte (heap_pg h) p AND PAGE_PRESENT \<noteq> 0 \<and>
        frame_of h p \<in> frames_managed (heap_pmm h) - frames_avail (heap_pmm h)) \<and>
     inj_on (frame_of h) (heap_pages h)"

definition grown :: "heap \<Rightarrow> heap \<Rightarrow> bool" where
  "grown h h' \<longleftrightarrow>
     h' = h\<lparr>g_heap_end := g_heap_end h', heap_pmm := heap_pmm h', heap_pg := heap_pg h'\<rparr>"

lemma grown_trans: "grown h h1 \<Longrightarrow> grown h1 h2 \<Longrightarrow> grown h h2"
  by (cases h, cases h1, cases h2) (simp add: grown_def)

lemma grown_fields:
  "grown h h' \<Longrightarrow> heap_blocks h' = heap_blocks h \<and> heap_mem h' = heap_mem h \<and> g_head h' = g_head h \<and>
   g_heap_start h' = g_heap_start h \<and> g_heap_limit h' = g_heap_limit h \<and>
   heap_lock_word h' = heap_lock_word h \<and> g_heap_ready h' = g_heap_ready h"
  by (cases h, cases h') (simp add: grown_def)

lemma page_end_step:
  assumes "n mod 4096 = 0" and "n < (419430400 :: nat)"
  shows "(n + 4096) mod 4096 = 0" and "n + 4096 \<le> 419430400"
proof -
  obtain k where "n = 4096 * k" using assms(1) by (auto elim: dvdE simp: mod_eq_0_iff_dvd)
  then show "(n + 4096) mod 4096 = 0" "n + 4096 \<le> 419430400" using assms(2) by simp_all
qed

text \<open>Mapping one more page.\<close>

lemma map_heap_page:
  assumes "heap_backed h" and "unat (g_heap_end h) < 419430400"
    and "frame \<in> frames_avail (heap_pmm h)" and "frame AND 4095 = 0"
    and "pmm_inv pmm" and "frames_avail pmm = frames_avail (heap_pmm h) - {frame}"
    and "frames_managed pmm = frames_managed (heap_pmm h)"
  shows "\<exists>pg. map_page (g_heap_end h) frame PAGE_WRITE (heap_pg h) = Ok (0, pg) \<and>
    heap_backed (h\<lparr>heap_pmm := pmm, heap_pg := pg, g_heap_end := g_heap_end h + PMM_FRAME_SIZE\<rparr>)"
proof -
  let ?e = "g_heap_end h" and ?pg = "heap_pg h"
  have geo: "402653184 \<le> unat ?e" "unat ?e mod 4096 = 0" "g_heap_limit h = KHEAP_BASE + KHEAP_MAX_SIZE"
    using assms(1) by (simp_all add: heap_backed_def heap_geometry_def)
  have wf: "paging_wf ?pg" and card: "card (pd_present ?pg \<union> {96..99}) \<le> 256"
    using assms(1) by (simp_all add: heap_backed_def)
  have al: "?e AND 0xFFF = 0"
    unfolding word_unat_eq_iff using geo(2) by (simp add: unat_and_page_mask)
  have idx: "pd_index ?e \<in> {96..99}"
  proof -
    have "96 \<le> unat ?e div 4194304" "unat ?e div 4194304 < 100"
      using geo(1) assms(2) by (simp_all add: less_eq_div_iff_mult_less_eq div_less_iff_less_mult)
    then show ?thesis by (simp add: index_pages div_mult2_eq [symmetric])
  qed
  have "pd_index ?e \<in> pd_present ?pg \<or> pg_tables_used ?pg < MAX_BOOTSTRAP_TABLES"
  proof (rule disjCI)
    assume "\<not> pg_tables_used ?pg < MAX_BOOTSTRAP_TABLES"
    then have "256 \<le> card (pd_present ?pg)"
      using wf by (simp add: paging_wf_def word_less_nat_alt)
    then have "card (pd_present ?pg \<union> {96..99}) \<le> card (pd_present ?pg)" using card by simp
    then have "pd_present ?pg = pd_present ?pg \<union> {96..99}"
      by (intro card_seteq) auto
    then show "pd_index ?e \<in> pd_present ?pg" using idx by blast
  qed
  then obtain pg where pg: "map_page ?e frame PAGE_WRITE ?pg = Ok (0, pg)" "paging_wf pg"
      "pte pg = (pte ?pg)(page_no ?e := leaf frame PAGE_WRITE)"
      "pd_present pg = insert (pd_index ?e) (pd_present ?pg)"
    using map_page_spec [OF wf al assms(4)] by metis
  let ?h = "h\<lparr>heap_pmm := pmm, heap_pg := pg, g_heap_end := ?e + PMM_FRAME_SIZE\<rparr>"
  have e: "unat (?e + 4096) = unat ?e + 4096" using assms(2) by (simp add: unat_plus_nowrap)
  have new: "heap_pages ?h = insert (page_no ?e) (heap_pages h)"
    using geo(1) e by (auto simp: heap_pages_def)
  have fresh: "page_no ?e \<notin> heap_pages h" by (simp add: heap_pages_def)
  have fr: "frame_of ?h p = (if p = page_no ?e then frame else frame_of h p)" for p
    using leaf_parts(1) [OF assms(4)] by (simp add: frame_of_def pg(3))
  have managed: "frame \<in> frames_managed pmm"
    using assms(1,3,7) pmm.avail_managed [of "heap_pmm h"] by (auto simp: heap_backed_def)
  have old: "frame_of h p \<in> frames_managed (heap_pmm h) - frames_avail (heap_pmm h)"
      "pte ?pg p AND PAGE_PRESENT \<noteq> 0" if "p \<in> heap_pages h" for p
    using assms(1) that by (simp_all add: heap_backed_def)
  have fields: "heap_pmm ?h = pmm" "heap_pg ?h = pg" "g_heap_end ?h = ?e + PMM_FRAME_SIZE"
      "g_heap_limit ?h = g_heap_limit h"
    by simp_all
  have inj: "inj_on (frame_of ?h) (heap_pages ?h)"
    unfolding new using assms(1,3) old fresh by (auto simp: inj_on_def fr heap_backed_def)
  have same_dirs: "insert (pd_index ?e) (pd_present ?pg) \<union> {96..99} = pd_present ?pg \<union> {96..99}"
    using idx by auto
  have mapped: "\<forall>p\<in>heap_pages ?h. pte pg p AND PAGE_PRESENT \<noteq> 0 \<and>
      frame_of ?h p \<in> frames_managed pmm - frames_avail pmm"
    unfolding new using managed old leaf_parts(2) [OF assms(4), of PAGE_WRITE] assms(6,7) fresh
    by (auto simp: fr pg(3))
  note page_end_step [OF geo(2) assms(2)]
  then have "heap_geometry ?h"
    using geo e unfolding heap_geometry_def fields by simp
  then have "heap_backed ?h"
    unfolding heap_backed_def fields using pg(2,4) card same_dirs assms(5) mapped inj by simp
  then show ?thesis using pg(1) by blast
qed

lemma heap_backed_pmm:
  assumes "heap_backed h" and "pmm_inv pmm" and "frames_avail pmm = frames_avail (heap_pmm h)"
    and "frames_managed pmm = frames_managed (heap_pmm h)"
  shows "heap_backed (h\<lparr>heap_pmm := pmm\<rparr>)"
proof -
  have "frame_of (h\<lparr>heap_pmm := pmm\<rparr>) = frame_of h" "heap_pages (h\<lparr>heap_pmm := pmm\<rparr>) = heap_pages h"
    by (simp_all add: fun_eq_iff frame_of_def heap_pages_def)
  then show ?thesis using assms by (simp add: heap_backed_def heap_geometry_def)
qed

lemma finite_frames_avail [simp]: "finite (frames_avail s)"
  by (simp add: frames_avail_def)

text \<open>A heap that cannot grow by a single page: no free frame, or no room in the window.\<close>

definition exhausted :: "heap \<Rightarrow> bool" where
  "exhausted h \<longleftrightarrow> frames_avail (heap_pmm h) = {} \<or> unat (g_heap_end h) = 419430400"

text \<open>
  Growth by \<open>n\<close> pages succeeds exactly when there are \<open>n\<close> free frames and room in the window; it
  keeps everything but the end of the heap, the frames and the page tables.
\<close>

lemma expand_pages_spec:
  "heap_backed h \<Longrightarrow>
   \<exists>rc h'. expand_pages n h = Ok (rc, h') \<and> heap_backed h' \<and> grown h h' \<and>
     unat (g_heap_end h) \<le> unat (g_heap_end h') \<and>
     (rc = 0 \<longrightarrow> unat (g_heap_end h') = unat (g_heap_end h) + n * 4096) \<and> (rc \<noteq> 0 \<longrightarrow> exhausted h') \<and>
     (rc = 0 \<longleftrightarrow> n \<le> card (frames_avail (heap_pmm h)) \<and>
        unat (g_heap_end h) + n * 4096 \<le> 419430400)"
proof (induction n arbitrary: h)
  case 0
  then show ?case by (simp add: grown_def heap_backed_def heap_geometry_def)
next
  case (Suc n)
  let ?avail = "frames_avail (heap_pmm h)" and ?e = "g_heap_end h"
  have inv: "pmm_inv (heap_pmm h)" and geo: "heap_geometry h"
    using Suc.prems by (simp_all add: heap_backed_def)
  have limit: "g_heap_limit h = 0x19000000" "unat ?e \<le> 419430400" "unat ?e mod 4096 = 0"
    using geo by (simp_all add: heap_geometry_def)
  obtain frame pmm where al: "pmm_alloc_frame (heap_pmm h) = Ok (frame, pmm)"
    using pmm.alloc_returns [OF inv] by auto
  note spec = pmm.alloc_Ok [OF inv al]
  show ?case
  proof (cases "frame = 0")
    case True
    then have "?avail = {}" "pmm = heap_pmm h" using spec(3) by auto
    then show ?thesis
      using Suc.prems al True by (auto simp: grown_def exhausted_def)
  next
    case False
    then have fr: "frame \<in> ?avail" "frames_avail pmm = ?avail - {frame}" using spec(3) by auto
    have managed: "frame \<in> frames_managed pmm"
      using pmm.avail_managed [OF inv] fr(1) spec(2) by auto
    have card: "card ?avail = Suc (card (frames_avail pmm))"
      by (simp only: fr(2) card_Suc_Diff1 [OF finite_frames_avail fr(1)])
    have past: "?e + 4096 > 0x19000000 \<longleftrightarrow> unat ?e = 419430400"
      using limit(2) page_end_step [OF limit(3)]
      by (cases "unat ?e < 419430400") (simp_all add: word_less_nat_alt unat_plus_nowrap)
    show ?thesis
    proof (cases "unat ?e = 419430400")
      case True
      obtain pmm' where fre: "pmm_free_frame frame pmm = Ok pmm'" "pmm_inv pmm'"
          "frames_avail pmm' = insert frame (frames_avail pmm)" "frames_managed pmm' = frames_managed pmm"
        using pmm.free_some [OF spec(1) managed] by auto
      have "heap_backed (h\<lparr>heap_pmm := pmm'\<rparr>)"
        using fre fr spec(2) by (intro heap_backed_pmm [OF Suc.prems]) auto
      then show ?thesis
        using al fre(1) False True past limit(1) by (simp add: grown_def Let_def exhausted_def)
    next
      case notfull: False
      have "frame AND 4095 = 0"
        using pmm.managed_aligned [OF spec(1) managed] .
      then obtain pg where pg: "map_page ?e frame PAGE_WRITE (heap_pg h) = Ok (0, pg)"
          "heap_backed (h\<lparr>heap_pmm := pmm, heap_pg := pg, g_heap_end := ?e + PMM_FRAME_SIZE\<rparr>)"
        using map_heap_page [OF Suc.prems _ fr(1) _ spec(1) fr(2) spec(2)] limit(2) notfull by auto
      let ?h1 = "h\<lparr>heap_pmm := pmm, heap_pg := pg, g_heap_end := ?e + PMM_FRAME_SIZE\<rparr>"
      have e: "unat (?e + 4096) = unat ?e + 4096"
        using limit(2) by (simp add: unat_plus_nowrap)
      have g1: "grown h ?h1" by (simp add: grown_def)
      have step: "expand_pages (Suc n) h = expand_pages n ?h1"
        using al pg(1) False past notfull limit(1) by (simp add: Let_def)
      obtain rc h' where IH: "expand_pages n ?h1 = Ok (rc, h')" "heap_backed h'" "grown ?h1 h'"
          "unat (g_heap_end ?h1) \<le> unat (g_heap_end h')"
          "rc = 0 \<longrightarrow> unat (g_heap_end h') = unat (g_heap_end ?h1) + n * 4096" "rc \<noteq> 0 \<longrightarrow> exhausted h'"
          "rc = 0 \<longleftrightarrow> n \<le> card (frames_avail (heap_pmm ?h1)) \<and>
             unat (g_heap_end ?h1) + n * 4096 \<le> 419430400"
        using Suc.IH [OF pg(2)] by blast
      show ?thesis
        unfolding step using IH(1,2,4-7) grown_trans [OF g1 IH(3)] e card by auto
    qed
  qed
qed

section \<open>The invariant\<close>

abbreviation heap_base :: nat where
  "heap_base \<equiv> 402653184"

text \<open>No two neighbours are both free: everything that could be coalesced has been.\<close>

fun coalesced :: "cell list \<Rightarrow> bool" where
  "coalesced (c # d # cs) \<longleftrightarrow> \<not> (snd c \<and> snd d) \<and> coalesced (d # cs)"
| "coalesced cs = True"

definition heap_cells :: "heap \<Rightarrow> cell list \<Rightarrow> bool" where
  "heap_cells h cs \<longleftrightarrow> g_head h = KHEAP_BASE \<and> cs \<noteq> [] \<and> seg (heap_blocks h) 0 heap_base cs 0 \<and>
     heap_base + span cs \<le> unat (g_heap_end h) \<and> (\<forall>c\<in>set cs. fst c mod 16 = 0) \<and> coalesced cs"

definition heap_rep :: "heap \<Rightarrow> cell list \<Rightarrow> bool" where
  "heap_rep h cs \<longleftrightarrow> g_heap_ready h \<and> heap_lock_word h = 0 \<and> g_heap_start h = KHEAP_BASE \<and>
     heap_backed h \<and> heap_cells h cs"

definition same_status :: "heap \<Rightarrow> heap \<Rightarrow> bool" where
  "same_status h h' \<longleftrightarrow> heap_lock_word h' = heap_lock_word h \<and> g_heap_ready h' = g_heap_ready h \<and>
     g_heap_start h' = g_heap_start h \<and> heap_mem h' = heap_mem h"

lemma heap_cells_bound:
  "heap_cells h cs \<Longrightarrow> heap_backed h \<Longrightarrow> heap_base + span cs \<le> 419430400"
  by (simp add: heap_cells_def heap_backed_def heap_geometry_def)

lemma coalesced_append:
  "coalesced (xs @ ys) \<longleftrightarrow> coalesced xs \<and> coalesced ys \<and>
     (xs \<noteq> [] \<longrightarrow> ys \<noteq> [] \<longrightarrow> \<not> (snd (last xs) \<and> snd (hd ys)))"
  by (induction xs rule: coalesced.induct) (cases ys; auto)+

lemma coalesced_Cons:
  "coalesced (c # ys) \<longleftrightarrow> coalesced ys \<and> (ys \<noteq> [] \<longrightarrow> \<not> (snd c \<and> snd (hd ys)))"
  by (cases ys) auto

lemma heap_backed_blocks:
  "heap_backed (h\<lparr>heap_blocks := H\<rparr>) = heap_backed h"
  "heap_backed (h\<lparr>heap_lock_word := l\<rparr>) = heap_backed h"
  "heap_backed (h\<lparr>heap_mem := m\<rparr>) = heap_backed h"
proof -
  have "frame_of (h\<lparr>heap_blocks := H\<rparr>) = frame_of h" "frame_of (h\<lparr>heap_lock_word := l\<rparr>) = frame_of h"
    "frame_of (h\<lparr>heap_mem := m\<rparr>) = frame_of h"
    by (simp_all add: fun_eq_iff frame_of_def)
  then show "heap_backed (h\<lparr>heap_blocks := H\<rparr>) = heap_backed h"
    "heap_backed (h\<lparr>heap_lock_word := l\<rparr>) = heap_backed h"
    "heap_backed (h\<lparr>heap_mem := m\<rparr>) = heap_backed h"
    by (simp_all add: heap_backed_def heap_geometry_def heap_pages_def)
qed

section \<open>Growth\<close>

text \<open>What growth by \<open>d\<close> bytes makes of the cells.\<close>

definition grow_cells :: "nat \<Rightarrow> cell list \<Rightarrow> cell list" where
  "grow_cells d cs =
     (if snd (last cs) then butlast cs @ [(fst (last cs) + d, True)] else cs @ [(d - 16, True)])"

definition pages_for :: "nat \<Rightarrow> nat" where
  "pages_for w = (w + 16 + 4095) div 4096"

lemma grow_tail_seg:
  assumes "seg (heap_blocks h) 0 a (xs @ [(n, f)]) 0" and "0 < a" and "16 \<le> d"
    and "a + span xs + 16 + n + d < 2 ^ 32" and "unat needed = d"
    and "g_head h = of_nat a"
  shows "\<exists>H. grow_tail needed h = Ok (0, h\<lparr>heap_blocks := H\<rparr>) \<and>
    seg H 0 a (grow_cells d (xs @ [(n, f)])) 0"
proof -
  let ?b = "a + span xs" and ?H = "heap_blocks h"
  let ?nb = "?b + 16 + n"
  have needed: "needed = of_nat d" using assms(5) by auto
  have nz: "(of_nat a :: u32) \<noteq> 0" "(of_nat ?b :: u32) \<noteq> 0"
    using assms(2,4) of_nat_eq_u32 [of a 0] of_nat_eq_u32 [of ?b 0] by (auto simp del: of_nat_add)
  have "last_from h (of_nat a) = Some (Ok (last_addr 0 a (xs @ [(n, f)])))"
    using assms by (intro last_from_seg) auto
  then have last: "last_block h = Ok (of_nat ?b)"
    using assms(6) nz(1) by (simp add: last_block_def last_addr_snoc)
  note mid = assms(1) [unfolded seg_middle]
  have T: "?H (of_nat ?b) = Some \<lparr>hb_size = of_nat n, hb_free = f, hb_next = 0,
      hb_prev = last_addr 0 a xs\<rparr>"
    using mid by (simp add: next_ptr_def)
  show ?thesis
  proof (cases f)
    case True
    let ?T = "\<lparr>hb_size = of_nat (n + d), hb_free = True, hb_next = 0, hb_prev = last_addr 0 a xs\<rparr>"
    have "seg (?H(of_nat ?b \<mapsto> ?T)) 0 a xs (of_nat ?b)"
      using mid assms(4) by (subst seg_frame) auto
    then have "seg (?H(of_nat ?b \<mapsto> ?T)) 0 a (xs @ [(n + d, True)]) 0"
      by (simp add: seg_middle next_ptr_def)
    then show ?thesis
      using last nz(2) True needed
      by (intro exI [of _ "?H(of_nat ?b \<mapsto> ?T)"])
        (simp add: grow_tail_def get_block_Some [OF T] put_block_eq grow_cells_def
            of_nat_add [of n d, symmetric] del: of_nat_add)
  next
    case False
    let ?N = "\<lparr>hb_size = of_nat (d - 16), hb_free = True, hb_next = 0, hb_prev = of_nat ?b\<rparr> :: heap_block"
    let ?T = "\<lparr>hb_size = of_nat n, hb_free = f, hb_next = of_nat ?nb,
        hb_prev = last_addr 0 a xs\<rparr> :: heap_block"
    let ?H' = "?H(of_nat ?nb \<mapsto> ?N, of_nat ?b \<mapsto> ?T)"
    have ne: "(of_nat ?nb :: u32) \<noteq> of_nat ?b"
      using assms(4) by (subst of_nat_eq_u32) auto
    have nb: "(of_nat ?b :: u32) + block_overhead + of_nat n = of_nat ?nb"
      and sz: "needed - block_overhead = of_nat (d - 16)"
      using assms(3) needed by (simp_all add: block_overhead_def of_nat_diff)
    have "seg ?H' 0 a xs (of_nat ?b)"
      using mid assms(4) by (subst seg_frame, simp, simp, simp, subst seg_frame) auto
    moreover have "?H' (of_nat ?nb) = Some ?N" using ne by simp
    moreover have "?nb + span [] = ?nb" by simp
    ultimately have "seg ?H' 0 a (xs @ (n, f) # [(d - 16, True)]) 0"
      unfolding seg_middle by (simp add: next_ptr_def del: of_nat_add)
    then show ?thesis
      using last nz(2) False nb sz
      by (intro exI [of _ ?H'])
        (simp add: grow_tail_def get_block_Some [OF T] put_block_eq grow_cells_def Let_def
            del: of_nat_add)
  qed
qed

lemma pages_for_bounds:
  "w + 16 \<le> pages_for w * 4096" "pages_for w * 4096 < w + 16 + 4096"
  unfolding pages_for_def
  using div_mult_mod_eq [of "w + 16 + 4095" 4096] mod_less_divisor [of 4096 "w + 16 + 4095"]
  by linarith+

lemma grow_cells_span:
  "cs \<noteq> [] \<Longrightarrow> 16 \<le> d \<Longrightarrow> span (grow_cells d cs) = span cs + d"
  by (cases cs rule: rev_cases) (auto simp: grow_cells_def split: prod.splits)

lemma grow_cells_ok:
  assumes "\<forall>c\<in>set cs. fst c mod 16 = 0" and "coalesced cs" and "cs \<noteq> []" and "d mod 16 = 0"
    and "16 \<le> d"
  shows "(\<forall>c\<in>set (grow_cells d cs). fst c mod 16 = 0) \<and> coalesced (grow_cells d cs)"
proof -
  obtain us c where cs: "cs = us @ [c]" using assms(3) by (cases cs rule: rev_cases) auto
  have "(d - 16) mod 16 = 0" using assms(4,5) by (simp add: mod_eq_0_iff_dvd)
  then show ?thesis
    using assms cs by (auto simp: grow_cells_def coalesced_append mod_add_eq [symmetric])
qed

lemma heap_expand_spec:
  assumes "heap_backed h" and "heap_cells h cs" and "unat w + 16 + 4095 < 2 ^ 32"
  shows "\<exists>rc h'. heap_expand w h = Ok (rc, h') \<and> heap_backed h' \<and> same_status h h' \<and>
    heap_cells h' (if rc = 0 then grow_cells (pages_for (unat w) * 4096) cs else cs) \<and>
    unat (g_heap_end h) \<le> unat (g_heap_end h') \<and> (rc \<noteq> 0 \<longrightarrow> exhausted h') \<and>
    (rc = 0 \<longleftrightarrow> pages_for (unat w) \<le> card (frames_avail (heap_pmm h)) \<and>
       unat (g_heap_end h) + pages_for (unat w) * 4096 \<le> 419430400)"
proof -
  let ?needed = "align_up (w + block_overhead) PMM_FRAME_SIZE" and ?n = "pages_for (unat w)"
  let ?d = "?n * 4096"
  have "unat (w + block_overhead) = unat w + 16"
    using assms(3) by (simp add: block_overhead_def unat_plus_nowrap)
  then have needed: "unat ?needed = ?d"
    using assms(3) unat_align_up_page [of "w + block_overhead"] by (simp add: pages_for_def)
  then have n: "unat ?needed div 4096 = ?n" by simp
  obtain rc h1 where ex: "expand_pages ?n h = Ok (rc, h1)" "heap_backed h1" "grown h h1"
      "unat (g_heap_end h) \<le> unat (g_heap_end h1)"
      "rc = 0 \<longrightarrow> unat (g_heap_end h1) = unat (g_heap_end h) + ?n * 4096"
      "rc = 0 \<longleftrightarrow> ?n \<le> card (frames_avail (heap_pmm h)) \<and> unat (g_heap_end h) + ?n * 4096 \<le> 419430400"
      "rc \<noteq> 0 \<longrightarrow> exhausted h1"
    using expand_pages_spec [OF assms(1), of ?n] by blast
  note fields = grown_fields [OF ex(3)]
  have status: "same_status h h1" using fields by (simp add: same_status_def)
  have cells: "heap_cells h1 cs" using assms(2) fields ex(4) by (auto simp: heap_cells_def)
  show ?thesis
  proof (cases "rc = 0")
    case False
    then have "heap_expand w h = Ok (-1, h1)"
      using ex(1) by (simp add: heap_expand_def Let_def n)
    then show ?thesis using ex(2,4,6,7) False status cells by auto
  next
    case True
    obtain xs n f where cs: "cs = xs @ [(n, f)]"
      using assms(2) by (cases cs rule: rev_cases) (auto simp: heap_cells_def)
    have fit: "heap_base + span cs + ?d \<le> unat (g_heap_end h1)"
      using assms(2) ex(5) True by (simp add: heap_cells_def)
    have d: "16 \<le> ?d" using pages_for_bounds(1) [of "unat w"] by linarith
    have lim: "unat (g_heap_end h1) \<le> 419430400"
      using ex(2) by (simp add: heap_backed_def heap_geometry_def)
    have "seg (heap_blocks h1) 0 heap_base (xs @ [(n, f)]) 0" "g_head h1 = of_nat heap_base"
      using cells cs by (simp_all add: heap_cells_def)
    then obtain H where H: "grow_tail ?needed h1 = Ok (0, h1\<lparr>heap_blocks := H\<rparr>)"
        "seg H 0 heap_base (grow_cells ?d cs) 0"
      using grow_tail_seg [of h1 heap_base xs n f ?d ?needed] needed fit lim d cs by auto
    let ?h2 = "h1\<lparr>heap_blocks := H\<rparr>"
    have "heap_expand w h = Ok (0, ?h2)"
      using ex(1) True H(1) by (simp add: heap_expand_def Let_def n)
    moreover have "heap_cells ?h2 (grow_cells ?d cs)"
    proof -
      have ne: "cs \<noteq> []" "grow_cells ?d cs \<noteq> []" by (simp_all add: cs grow_cells_def)
      have "?d mod 16 = 0" by simp
      then have ok: "(\<forall>c\<in>set (grow_cells ?d cs). fst c mod 16 = 0) \<and> coalesced (grow_cells ?d cs)"
        using cells d ne by (intro grow_cells_ok) (simp_all add: heap_cells_def)
      have "heap_base + span (grow_cells ?d cs) \<le> unat (g_heap_end h1)"
        using fit grow_cells_span [OF ne(1) d] by simp
      then show ?thesis
        using cells H(2) ok ne(2) by (simp add: heap_cells_def)
    qed
    ultimately show ?thesis
      using ex(2,4,6) True status
      by (intro exI [of _ 0] exI [of _ ?h2]) (simp add: heap_backed_blocks same_status_def)
  qed
qed

section \<open>Allocation\<close>

text \<open>The size \<open>kmalloc\<close> looks for, and the effect of serving it from a list of cells.\<close>

definition wanted_size :: "u32 \<Rightarrow> nat" where
  "wanted_size bytes = (unat bytes + 15) div 16 * 16"

definition served :: "nat \<Rightarrow> cell list \<Rightarrow> u32 \<Rightarrow> cell list \<Rightarrow> bool" where
  "served w cs p cs' \<longleftrightarrow>
     (\<exists>xs n ys. cs = xs @ (n, True) # ys \<and> (\<forall>c\<in>set xs. \<not> fits w c) \<and> w \<le> n \<and>
        unat p = heap_base + span xs + 16 \<and> cs' = xs @ take_cell w n @ ys)"

definition can_grow :: "nat \<Rightarrow> heap \<Rightarrow> bool" where
  "can_grow w h \<longleftrightarrow> pages_for w \<le> card (frames_avail (heap_pmm h)) \<and>
     unat (g_heap_end h) + pages_for w * 4096 \<le> 419430400"

lemma take_cell_ok:
  assumes "\<forall>c\<in>set (xs @ (n, True) # ys). fst c mod 16 = 0" and "coalesced (xs @ (n, True) # ys)"
    and "w mod 16 = 0" and "w \<le> n"
  shows "(\<forall>c\<in>set (xs @ take_cell w n @ ys). fst c mod 16 = 0) \<and> coalesced (xs @ take_cell w n @ ys)"
proof -
  have "(n - w - 16) mod 16 = 0" if "w + 16 \<le> n"
    using assms(1,3) that by (simp add: mod_eq_0_iff_dvd dvd_diff_nat)
  then show ?thesis
    using assms by (auto simp: take_cell_def split_cell_def coalesced_append coalesced_Cons)
qed

lemma span_take_cell [simp]: "w \<le> n \<Longrightarrow> span (take_cell w n) = 16 + n"
  by (simp add: take_cell_def)

text \<open>The search, when it finds a block.\<close>

lemma retry_found:
  assumes "heap_backed h" and "heap_cells h cs" and "unat w + 4111 < 2 ^ 32" and "unat w mod 16 = 0"
    and "\<exists>c\<in>set cs. fits (unat w) c"
  shows "\<exists>p H cs'. kmalloc_retry w h = Some (Ok (p, heap_unlock (h\<lparr>heap_blocks := H\<rparr>))) \<and>
    heap_cells (h\<lparr>heap_blocks := H\<rparr>) cs' \<and> served (unat w) cs p cs'"
proof -
  have seg: "seg (heap_blocks h) 0 heap_base cs 0" and bound: "heap_base + span cs \<le> 419430400"
    and head: "g_head h = next_ptr heap_base cs"
    using assms(1,2) heap_cells_bound by (auto simp: heap_cells_def next_ptr_def)
  obtain b where b: "fit_pos (unat w) heap_base cs = Some b"
    using assms(5) fit_pos_None [of "unat w" heap_base cs] by fastforce
  obtain xs n ys where cs: "cs = xs @ (n, True) # ys" and bx: "b = heap_base + span xs"
    and w: "unat w \<le> n" and nofit: "\<forall>c\<in>set xs. \<not> fits (unat w) c"
    using fit_pos_Some [OF b] by blast
  have ff: "first_fit h w (g_head h) = Some (Ok (of_nat b))"
    unfolding head using seg bound b by (subst first_fit_seg) auto
  have lt: "b + 16 < 2 ^ 32" using bound by (simp add: cs bx)
  then have nz: "(of_nat b :: u32) \<noteq> 0"
    using of_nat_eq_u32 [of b 0] bx by auto
  obtain H where H: "take_block (of_nat b) w h = Ok (of_nat (b + 16), heap_unlock (h\<lparr>heap_blocks := H\<rparr>))"
      "seg H 0 heap_base (xs @ take_cell (unat w) n @ ys) 0"
    using take_block_seg [of h 0 heap_base xs n ys w] seg bound w assms(3) by (auto simp: cs bx)
  have "kmalloc_retry w h = Some (Ok (of_nat (b + 16), heap_unlock (h\<lparr>heap_blocks := H\<rparr>)))"
    using nz ff H(1) by (subst kmalloc_retry.simps) simp
  moreover have "heap_cells (h\<lparr>heap_blocks := H\<rparr>) (xs @ take_cell (unat w) n @ ys)"
  proof -
    have "\<forall>c\<in>set (xs @ (n, True) # ys). fst c mod 16 = 0" "coalesced (xs @ (n, True) # ys)"
      using assms(2) cs by (simp_all add: heap_cells_def)
    note take_cell_ok [OF this assms(4) w]
    moreover have "xs @ take_cell (unat w) n @ ys \<noteq> []"
      by (simp add: take_cell_def split_cell_def)
    ultimately show ?thesis
      using assms(2) H(2) w cs by (simp add: heap_cells_def)
  qed
  moreover have "served (unat w) cs (of_nat (b + 16)) (xs @ take_cell (unat w) n @ ys)"
    unfolding served_def
  proof (intro exI conjI)
    show "unat (of_nat (b + 16) :: u32) = heap_base + span xs + 16"
      using lt bx by (simp add: unat_of_nat del: of_nat_add)
  qed (use cs nofit w in auto)
  ultimately show ?thesis by blast
qed

lemma fits_grow_cells:
  "cs \<noteq> [] \<Longrightarrow> \<exists>c\<in>set (grow_cells (pages_for w * 4096) cs). fits w c"
  using pages_for_bounds(1) [of w]
  by (cases cs rule: rev_cases) (auto simp: grow_cells_def fits_def)

lemma retry_spec:
  assumes "heap_backed h" and "heap_cells h cs" and "unat w + 4111 < 2 ^ 32" and "unat w mod 16 = 0"
  shows "\<exists>p h' cs'. kmalloc_retry w h = Some (Ok (p, heap_unlock h')) \<and>
    heap_backed h' \<and> heap_cells h' cs' \<and> same_status h h' \<and>
    (if \<exists>c\<in>set cs. fits (unat w) c then served (unat w) cs p cs'
     else if can_grow (unat w) h
     then served (unat w) (grow_cells (pages_for (unat w) * 4096) cs) p cs'
     else p = 0 \<and> cs' = cs \<and> exhausted h')"
proof (cases "\<exists>c\<in>set cs. fits (unat w) c")
  case True
  then obtain p H cs' where "kmalloc_retry w h = Some (Ok (p, heap_unlock (h\<lparr>heap_blocks := H\<rparr>)))"
      "heap_cells (h\<lparr>heap_blocks := H\<rparr>) cs'" "served (unat w) cs p cs'"
    using retry_found [OF assms] by blast
  then show ?thesis
    using True assms(1) by (intro exI [of _ p] exI [of _ "h\<lparr>heap_blocks := H\<rparr>"] exI [of _ cs'])
      (simp add: heap_backed_blocks same_status_def)
next
  case False
  have seg: "seg (heap_blocks h) 0 heap_base cs 0" and bound: "heap_base + span cs \<le> 419430400"
    and head: "g_head h = next_ptr heap_base cs" and ne: "cs \<noteq> []"
    using assms(1,2) heap_cells_bound by (auto simp: heap_cells_def next_ptr_def)
  have "fit_pos (unat w) heap_base cs = None" using False fit_pos_None by blast
  then have ff: "first_fit h w (g_head h) = Some (Ok 0)"
    unfolding head using seg bound by (subst first_fit_seg) auto
  have le: "unat w + 16 + 4095 < 2 ^ 32" using assms(3) by simp
  obtain rc h1 where ex: "heap_expand w h = Ok (rc, h1)" "heap_backed h1" "same_status h h1"
      "heap_cells h1 (if rc = 0 then grow_cells (pages_for (unat w) * 4096) cs else cs)"
      "rc = 0 \<longleftrightarrow> can_grow (unat w) h" "rc \<noteq> 0 \<longrightarrow> exhausted h1"
    using heap_expand_spec [OF assms(1,2) le, folded can_grow_def] by blast
  have step: "kmalloc_retry w h =
      (if rc = 0 then kmalloc_retry w h1 else Some (Ok (0, heap_unlock h1)))"
    using ff ex(1) by (subst kmalloc_retry.simps) simp
  show ?thesis
  proof (cases "rc = 0")
    case True
    let ?cs = "grow_cells (pages_for (unat w) * 4096) cs"
    have cells: "heap_cells h1 ?cs" using ex(4) True by simp
    then obtain p H cs' where r: "kmalloc_retry w h1 = Some (Ok (p, heap_unlock (h1\<lparr>heap_blocks := H\<rparr>)))"
        "heap_cells (h1\<lparr>heap_blocks := H\<rparr>) cs'" "served (unat w) ?cs p cs'"
      using retry_found [OF ex(2) cells assms(3,4) fits_grow_cells [OF ne]] by blast
    have "heap_backed (h1\<lparr>heap_blocks := H\<rparr>)" "same_status h (h1\<lparr>heap_blocks := H\<rparr>)"
      using ex(2,3) by (simp_all add: heap_backed_blocks same_status_def)
    then show ?thesis
      using False True step r ex(5) by (intro exI [of _ p] exI [of _ "h1\<lparr>heap_blocks := H\<rparr>"] exI [of _ cs'])
        simp
  next
    case rc: False
    then show ?thesis
      using False step ex by (intro exI [of _ 0] exI [of _ h1] exI [of _ cs]) simp
  qed
qed

lemma unat_wanted:
  "unat bytes \<le> 0xFFFFEFF0 \<Longrightarrow>
   unat ((bytes + (HEAP_ALIGN - 1)) AND NOT (HEAP_ALIGN - 1)) = wanted_size bytes"
  by (simp add: word_nat_simps unat_plus_nowrap wanted_size_def)

lemma wanted_size_bounds:
  "unat bytes \<le> wanted_size bytes" "wanted_size bytes mod 16 = 0"
  "unat bytes \<le> 0xFFFFEFF0 \<Longrightarrow> wanted_size bytes + 4111 < 2 ^ 32"
proof -
  have b: "(unat bytes + 15) div 16 * 16 + (unat bytes + 15) mod 16 = unat bytes + 15"
      "(unat bytes + 15) mod 16 < 16"
    by simp_all
  show "unat bytes \<le> wanted_size bytes" "wanted_size bytes mod 16 = 0"
    using b by (simp_all add: wanted_size_def)
  assume le: "unat bytes \<le> 0xFFFFEFF0"
  have "wanted_size bytes \<le> (0xFFFFEFF0 + 15) div 16 * 16"
    unfolding wanted_size_def using le by (intro mult_right_mono div_le_mono) auto
  then show "wanted_size bytes + 4111 < 2 ^ 32" by simp
qed

lemma heap_rep_lock:
  assumes "heap_rep h cs"
  shows "heap_lock h = Ok (h\<lparr>heap_lock_word := 1\<rparr>)"
    and "heap_backed (h\<lparr>heap_lock_word := 1\<rparr>)" and "heap_cells (h\<lparr>heap_lock_word := 1\<rparr>) cs"
  using assms by (simp_all add: heap_rep_def heap_lock_def heap_backed_blocks heap_cells_def)

lemma heap_rep_unlock:
  assumes "heap_rep h cs" and "same_status (h\<lparr>heap_lock_word := 1\<rparr>) h'" and "heap_backed h'"
    and "heap_cells h' cs'"
  shows "heap_rep (heap_unlock h') cs'" and "heap_mem (heap_unlock h') = heap_mem h"
  using assms by (simp_all add: heap_rep_def same_status_def heap_unlock_def heap_backed_blocks
      heap_cells_def)

lemma kmalloc_spec:
  assumes "heap_rep h cs" and "bytes \<noteq> 0" and "unat bytes \<le> 0xFFFFEFF0"
  shows "\<exists>p h' cs'. kmalloc bytes h = Ok (p, h') \<and> heap_rep h' cs' \<and> heap_mem h' = heap_mem h \<and>
    (if \<exists>c\<in>set cs. fits (wanted_size bytes) c then served (wanted_size bytes) cs p cs'
     else if can_grow (wanted_size bytes) h
     then served (wanted_size bytes) (grow_cells (pages_for (wanted_size bytes) * 4096) cs) p cs'
     else p = 0 \<and> cs' = cs \<and> exhausted h')"
proof -
  let ?w = "(bytes + (HEAP_ALIGN - 1)) AND NOT (HEAP_ALIGN - 1)" and ?h1 = "h\<lparr>heap_lock_word := 1\<rparr>"
  note w = unat_wanted [OF assms(3)]
  note lock = heap_rep_lock [OF assms(1)]
  have grow: "can_grow n ?h1 = can_grow n h" for n by (simp add: can_grow_def)
  have pre: "unat ?w + 4111 < 2 ^ 32" "unat ?w mod 16 = 0"
    unfolding w using wanted_size_bounds [of bytes] assms(3) by auto
  obtain p h' cs' where r: "kmalloc_retry ?w ?h1 = Some (Ok (p, heap_unlock h'))"
      "heap_backed h'" "heap_cells h' cs'" "same_status ?h1 h'"
      "if \<exists>c\<in>set cs. fits (wanted_size bytes) c then served (wanted_size bytes) cs p cs'
       else if can_grow (wanted_size bytes) h
       then served (wanted_size bytes) (grow_cells (pages_for (wanted_size bytes) * 4096) cs) p cs'
       else p = 0 \<and> cs' = cs \<and> exhausted h'"
    using retry_spec [OF lock(2,3) pre] unfolding w grow by blast
  have "exhausted (heap_unlock h') = exhausted h'" by (simp add: exhausted_def heap_unlock_def)
  moreover have "kmalloc bytes h = Ok (p, heap_unlock h')"
    using assms(1,2) lock(1) r(1) by (simp add: kmalloc_def heap_rep_def Let_def)
  ultimately show ?thesis
    using heap_rep_unlock [OF assms(1) r(4,2,3)] r(5)
    by (intro exI [of _ p] exI [of _ "heap_unlock h'"] exI [of _ cs']) simp
qed

section \<open>The live blocks of a heap\<close>

definition heap_inv :: "heap \<Rightarrow> bool" where
  "heap_inv h \<longleftrightarrow> (\<exists>cs. heap_rep h cs)"

definition heap_live :: "heap \<Rightarrow> (nat \<times> nat) set" where
  "heap_live h = {b. \<exists>cs. heap_rep h cs \<and> b \<in> live_at heap_base cs}"

lemma heap_rep_unique:
  assumes "heap_rep h cs" and "heap_rep h cs'"
  shows "cs = cs'"
proof (rule seg_unique)
  show "heap_base + span cs < 2 ^ 32" "heap_base + span cs' < 2 ^ 32"
    using assms heap_cells_bound [of h cs] heap_cells_bound [of h cs'] by (auto simp: heap_rep_def)
qed (use assms in \<open>auto simp: heap_rep_def heap_cells_def\<close>)

lemma heap_live_rep: "heap_rep h cs \<Longrightarrow> heap_live h = live_at heap_base cs"
  by (auto simp: heap_live_def dest: heap_rep_unique)

lemma live_grow_cells:
  "cs \<noteq> [] \<Longrightarrow> live_at a (grow_cells d cs) = live_at a cs"
  by (cases cs rule: rev_cases) (auto simp: grow_cells_def)

lemma served_live:
  assumes "served w cs p cs'"
  shows "p \<noteq> 0" and "unat p mod 16 = 0 \<or> \<not> (\<forall>c\<in>set cs. fst c mod 16 = 0)"
    and "\<exists>m \<ge> w. (unat p, m) \<notin> live_at heap_base cs \<and>
      live_at heap_base cs' = insert (unat p, m) (live_at heap_base cs)"
proof -
  obtain xs n ys where s: "cs = xs @ (n, True) # ys" "w \<le> n" "unat p = heap_base + span xs + 16"
      "cs' = xs @ take_cell w n @ ys"
    using assms by (auto simp: served_def)
  show "p \<noteq> 0" using s(3) by auto
  have "span us mod 16 = 0" if "\<forall>c\<in>set us. fst c mod 16 = 0" for us
    using that by (induction us rule: span.induct) (auto simp: mod_eq_0_iff_dvd)
  then show "unat p mod 16 = 0 \<or> \<not> (\<forall>c\<in>set cs. fst c mod 16 = 0)"
    using s(1,3) by (auto simp: mod_eq_0_iff_dvd)
  let ?m = "if n \<le> w + 32 then n else w"
  have sp: "heap_base + span xs + span (take_cell w n) = heap_base + span xs + 16 + n"
    using s(2) by simp
  have "(unat p, k) \<notin> live_at heap_base cs" for k
    using live_at_bounds [of "unat p" k heap_base xs]
      live_at_bounds [of "unat p" k "heap_base + span xs + 16 + n" ys]
    by (auto simp: s(1,3))
  moreover have "live_at heap_base cs' = insert (unat p, ?m) (live_at heap_base cs)"
    unfolding s(4) live_at_append sp s(1,3)
    by (simp add: take_cell_def split_cell_def s(1))
  ultimately show "\<exists>m \<ge> w. (unat p, m) \<notin> live_at heap_base cs \<and>
      live_at heap_base cs' = insert (unat p, m) (live_at heap_base cs)"
    using s(2) by (intro exI [of _ ?m]) auto
qed

lemma join_next_facts:
  assumes "coalesced ((n, f) # ys) \<or> \<not> f" and "coalesced ys"
    and "\<forall>c\<in>set ((n, f) # ys). fst c mod 16 = 0"
  shows "\<forall>c\<in>set (join_next n g ys). fst c mod 16 = 0" and "coalesced (join_next n g ys)"
    and "live_at a (join_next n True ys) = live_at (a + 16 + n) ys"
    and "hd (join_next n g ys) = (fst (hd (join_next n g ys)), g)" and "join_next n g ys \<noteq> []"
proof -
  consider "ys = []" | m zs where "ys = (m, False) # zs" | m zs where "ys = (m, True) # zs"
  proof (cases ys)
    case (Cons c zs)
    then show ?thesis using that by (cases c; cases "snd c") auto
  qed (use that in simp)
  note cases = this
  show "\<forall>c\<in>set (join_next n g ys). fst c mod 16 = 0" "coalesced (join_next n g ys)"
    "live_at a (join_next n True ys) = live_at (a + 16 + n) ys"
    "hd (join_next n g ys) = (fst (hd (join_next n g ys)), g)" "join_next n g ys \<noteq> []"
    by (cases rule: cases; use assms in \<open>auto simp: coalesced_Cons mod_eq_0_iff_dvd add.assoc\<close>)+
qed

lemma free_cells_facts:
  assumes "coalesced (xs @ (n, False) # ys)"
    and "\<forall>c\<in>set (xs @ (n, False) # ys). fst c mod 16 = 0"
  shows "\<forall>c\<in>set (free_cells xs n ys). fst c mod 16 = 0" and "coalesced (free_cells xs n ys)"
    and "span (free_cells xs n ys) = span (xs @ (n, False) # ys)" and "free_cells xs n ys \<noteq> []"
    and "live_at a (free_cells xs n ys) = live_at a xs \<union> live_at (a + span xs + 16 + n) ys"
proof -
  have ys: "coalesced ys" "\<forall>c\<in>set ((n, False) # ys). fst c mod 16 = 0"
    using assms by (auto simp: coalesced_append coalesced_Cons)
  have nf: "coalesced ((n, False) # ys) \<or> \<not> False" by simp
  note j = join_next_facts(1,2,4,5) [OF nf ys, where g = True]
    and j_live = join_next_facts(3) [OF nf ys]
  let ?r = "free_cells xs n ys"
  have "(\<forall>c\<in>set ?r. fst c mod 16 = 0) \<and> coalesced ?r \<and> span ?r = span (xs @ (n, False) # ys) \<and>
      ?r \<noteq> [] \<and> live_at a ?r = live_at a xs \<union> live_at (a + span xs + 16 + n) ys"
  proof (cases "xs \<noteq> [] \<and> snd (last xs)")
    case False
    then have r: "?r = xs @ join_next n True ys" by (auto simp: free_cells_def)
    show ?thesis
      unfolding r using False assms j j_live by (auto simp: coalesced_append add.assoc)
  next
    case True
    then obtain us k where xs: "xs = us @ [(k, True)]" by (cases xs rule: rev_cases) auto
    let ?t = "join_next n True ys"
    obtain m zs where t: "?t = (m, True) # zs" using join_next_Cons by blast
    then have r: "?r = us @ (k + 16 + m, True) # zs" by (simp add: free_cells_def xs)
    have sp: "16 + m + span zs = 16 + n + span ys" using span_join_next [of n True ys] t by simp
    have "coalesced ((m, True) # zs)" "\<forall>c\<in>set ((m, True) # zs). fst c mod 16 = 0"
      using j(1,2) t by auto
    moreover have "live_at b ((m, True) # zs) = live_at (b + 16 + n) ys" for b
      using j_live [of b] t by simp
    then have "live_at (b + 16 + m) zs = live_at (b + 16 + n) ys" for b
      by simp
    from this [of "a + span us + 16 + k"]
    have "live_at (a + span us + 16 + (k + 16 + m)) zs = live_at (a + span xs + 16 + n) ys"
      by (simp add: xs add.assoc)
    ultimately show ?thesis
      unfolding r using assms sp by (auto simp: xs coalesced_append coalesced_Cons mod_eq_0_iff_dvd)
  qed
  then show "\<forall>c\<in>set ?r. fst c mod 16 = 0" "coalesced ?r" "span ?r = span (xs @ (n, False) # ys)"
    "?r \<noteq> []" "live_at a ?r = live_at a xs \<union> live_at (a + span xs + 16 + n) ys"
    by blast+
qed

lemma kfree_spec:
  assumes "heap_rep h (xs @ (n, False) # ys)" and "unat p = heap_base + span xs + 16"
  shows "\<exists>h'. kfree p h = Ok h' \<and> heap_rep h' (free_cells xs n ys) \<and> heap_mem h' = heap_mem h \<and>
    heap_pmm h' = heap_pmm h \<and> g_heap_end h' = g_heap_end h"
proof -
  let ?cs = "xs @ (n, False) # ys"
  have cells: "heap_cells h ?cs" and backed: "heap_backed h"
    using assms(1) by (simp_all add: heap_rep_def)
  have bound: "heap_base + span ?cs < 2 ^ 32" using heap_cells_bound [OF cells backed] by simp
  have p: "p = of_nat (heap_base + span xs + 16)" by (simp flip: assms(2))
  obtain H where H: "kfree p h = Ok (h\<lparr>heap_blocks := H\<rparr>)" "seg H 0 heap_base (free_cells xs n ys) 0"
    using kfree_seg [of h heap_base xs n False ys] cells bound assms(1) unfolding p
    by (auto simp: heap_rep_def heap_cells_def)
  have "coalesced ?cs" "\<forall>c\<in>set ?cs. fst c mod 16 = 0"
    using cells by (simp_all add: heap_cells_def)
  note facts = free_cells_facts [OF this]
  have "heap_cells (h\<lparr>heap_blocks := H\<rparr>) (free_cells xs n ys)"
    using cells H(2) facts(1-4) by (simp add: heap_cells_def)
  then have "heap_rep (h\<lparr>heap_blocks := H\<rparr>) (free_cells xs n ys)"
    using assms(1) by (simp add: heap_rep_def heap_backed_blocks)
  then show ?thesis using H(1) by (intro exI [of _ "h\<lparr>heap_blocks := H\<rparr>"]) simp
qed

lemma kfree_live:
  assumes "heap_inv h" and "(unat p, n) \<in> heap_live h"
  shows "\<exists>h'. kfree p h = Ok h' \<and> heap_inv h' \<and> heap_live h' = heap_live h - {(unat p, n)} \<and>
    heap_mem h' = heap_mem h"
proof -
  obtain cs where rep: "heap_rep h cs" using assms(1) by (auto simp: heap_inv_def)
  then have "(unat p, n) \<in> live_at heap_base cs" using assms(2) heap_live_rep by auto
  then obtain xs ys where cs: "cs = xs @ (n, False) # ys" and p: "unat p = heap_base + span xs + 16"
    using live_at_split by blast
  obtain h' where h': "kfree p h = Ok h'" "heap_rep h' (free_cells xs n ys)" "heap_mem h' = heap_mem h"
    using kfree_spec [OF rep [unfolded cs] p] by auto
  have "coalesced cs" "\<forall>c\<in>set cs. fst c mod 16 = 0"
    using rep by (simp_all add: heap_rep_def heap_cells_def)
  then have "live_at heap_base (free_cells xs n ys) =
      live_at heap_base xs \<union> live_at (heap_base + span xs + 16 + n) ys"
    unfolding cs by (rule free_cells_facts(5))
  moreover have "(unat p, n) \<notin> live_at heap_base xs"
      "(unat p, n) \<notin> live_at (heap_base + span xs + 16 + n) ys"
    using live_at_bounds [of "unat p" n heap_base xs]
      live_at_bounds [of "unat p" n "heap_base + span xs + 16 + n" ys] p by auto
  ultimately have "heap_live h' = heap_live h - {(unat p, n)}"
    using heap_live_rep [OF rep] heap_live_rep [OF h'(2)] p by (auto simp: cs)
  then show ?thesis using h' by (auto simp: heap_inv_def)
qed

lemma kmalloc_live:
  assumes "heap_inv h" and "bytes \<noteq> 0" and "unat bytes \<le> 0xFFFFEFF0"
  shows "\<exists>p h'. kmalloc bytes h = Ok (p, h') \<and> heap_inv h' \<and> heap_mem h' = heap_mem h \<and>
    (p = 0 \<and> heap_live h' = heap_live h \<or>
     p \<noteq> 0 \<and> unat p mod 16 = 0 \<and> (\<exists>m \<ge> unat bytes. (unat p, m) \<notin> heap_live h \<and>
       heap_live h' = insert (unat p, m) (heap_live h)))"
proof -
  let ?w = "wanted_size bytes"
  obtain cs where rep: "heap_rep h cs" using assms(1) by (auto simp: heap_inv_def)
  have ok: "\<forall>c\<in>set cs. fst c mod 16 = 0" "coalesced cs" "cs \<noteq> []"
    using rep by (simp_all add: heap_rep_def heap_cells_def)
  let ?g = "grow_cells (pages_for ?w * 4096) cs"
  have "16 \<le> pages_for ?w * 4096" using pages_for_bounds(1) [of ?w] by linarith
  then have gok: "\<forall>c\<in>set ?g. fst c mod 16 = 0"
    using grow_cells_ok [OF ok, of "pages_for ?w * 4096"] by simp
  have le: "unat bytes \<le> ?w" by (rule wanted_size_bounds)
  have goal: "p \<noteq> 0 \<and> unat p mod 16 = 0 \<and> (\<exists>m \<ge> unat bytes. (unat p, m) \<notin> heap_live h \<and>
       heap_live h' = insert (unat p, m) (heap_live h))"
    if r: "heap_rep h' cs'" "served ?w ds p cs'" "live_at heap_base ds = live_at heap_base cs"
      "\<forall>c\<in>set ds. fst c mod 16 = 0" for p h' cs' ds
    using served_live [OF r(2)] r(3,4) heap_live_rep [OF rep] heap_live_rep [OF r(1)] le
      le_trans by metis
  obtain p h' cs' where r: "kmalloc bytes h = Ok (p, h')" "heap_rep h' cs'" "heap_mem h' = heap_mem h"
      "if \<exists>c\<in>set cs. fits ?w c then served ?w cs p cs'
       else if can_grow ?w h then served ?w ?g p cs' else p = 0 \<and> cs' = cs \<and> exhausted h'"
    using kmalloc_spec [OF rep assms(2,3)] by blast
  have inv: "heap_inv h'" using r(2) by (auto simp: heap_inv_def)
  consider "served ?w cs p cs'" | "served ?w ?g p cs'" | "p = 0" "cs' = cs"
    using r(4) by presburger
  then have "p = 0 \<and> heap_live h' = heap_live h \<or>
     p \<noteq> 0 \<and> unat p mod 16 = 0 \<and> (\<exists>m \<ge> unat bytes. (unat p, m) \<notin> heap_live h \<and>
       heap_live h' = insert (unat p, m) (heap_live h))"
  proof cases
    case 1
    then show ?thesis using goal [OF r(2), of cs] ok(1) by blast
  next
    case 2
    then show ?thesis using goal [OF r(2), of ?g] gok live_grow_cells [OF ok(3)] by blast
  next
    case 3
    then show ?thesis using heap_live_rep [OF rep] heap_live_rep [OF r(2)] by simp
  qed
  then show ?thesis using r(1,3) inv by (intro exI conjI)
qed

end
