(* ===== verification/Block_Allocator.thy ===== *)
theory Block_Allocator
  imports Prelude
begin

text \<open>
  The interface through which the scheduler and the applications take memory from the kernel
  heap: an allocation that returns an address or 0, and a release. The laws speak of the set of
  live blocks, an address and a size each. It is interpreted on \<open>kmalloc\<close> and \<open>kfree\<close> in the theory
  \<open>Heap_Laws\<close>.
\<close>

text \<open>The blocks a client holds: it takes a block, and gives back one that it holds.\<close>

inductive block_owner ::
  "(u32 \<Rightarrow> 's \<Rightarrow> (u32 \<times> 's) res) \<Rightarrow> (u32 \<Rightarrow> 's \<Rightarrow> 's res) \<Rightarrow> (u32 \<Rightarrow> bool) \<Rightarrow>
   's \<Rightarrow> 's \<Rightarrow> (u32 \<times> u32) set \<Rightarrow> bool"
  for alloc release serviceable s0 where
  start: "block_owner alloc release serviceable s0 s0 {}"
| take_ok: "block_owner alloc release serviceable s0 s B \<Longrightarrow> serviceable n \<Longrightarrow>
    alloc n s = Ok (p, s') \<Longrightarrow> p \<noteq> 0 \<Longrightarrow>
    block_owner alloc release serviceable s0 s' (insert (p, n) B)"
| take_fail: "block_owner alloc release serviceable s0 s B \<Longrightarrow> serviceable n \<Longrightarrow>
    alloc n s = Ok (0, s') \<Longrightarrow> block_owner alloc release serviceable s0 s' B"
| give: "block_owner alloc release serviceable s0 s B \<Longrightarrow> (p, n) \<in> B \<Longrightarrow> release p s = Ok s' \<Longrightarrow>
    block_owner alloc release serviceable s0 s' (B - {(p, n)})"

locale block_allocator =
  fixes alloc :: "u32 \<Rightarrow> 's \<Rightarrow> (u32 \<times> 's) res"
    and release :: "u32 \<Rightarrow> 's \<Rightarrow> 's res"
    and serviceable :: "u32 \<Rightarrow> bool"
    and inv :: "'s \<Rightarrow> bool"
    and live :: "'s \<Rightarrow> (nat \<times> nat) set"
  assumes alloc_law: "inv s \<Longrightarrow> serviceable n \<Longrightarrow>
      \<exists>p s'. alloc n s = Ok (p, s') \<and> inv s' \<and>
        (p = 0 \<and> live s' = live s \<or>
         p \<noteq> 0 \<and> (\<exists>m \<ge> unat n. (unat p, m) \<notin> live s \<and> live s' = insert (unat p, m) (live s)))"
    and release_law: "inv s \<Longrightarrow> (unat p, m) \<in> live s \<Longrightarrow>
      \<exists>s'. release p s = Ok s' \<and> inv s' \<and> live s' = live s - {(unat p, m)}"
    and live_separate: "inv s \<Longrightarrow> (a, k) \<in> live s \<Longrightarrow> (b, l) \<in> live s \<Longrightarrow>
      (a, k) = (b, l) \<or> a + k < b \<or> b + l < a"
begin

lemma live_size_unique: "inv s \<Longrightarrow> (p, n) \<in> live s \<Longrightarrow> (p, m) \<in> live s \<Longrightarrow> n = m"
  using live_separate [of s p n p m] by auto

lemma alloc_Ok:
  assumes "inv s" and "serviceable n" and "alloc n s = Ok (p, s')"
  shows "inv s'" and "p = 0 \<Longrightarrow> live s' = live s"
    and "p \<noteq> 0 \<Longrightarrow> \<exists>m \<ge> unat n. (unat p, m) \<notin> live s \<and> live s' = insert (unat p, m) (live s)"
  using alloc_law [OF assms(1,2)] assms(3) by auto

text \<open>Every block held is live, with at least the size asked for, and no address is held twice.\<close>

lemma owner_live:
  "block_owner alloc release serviceable s0 s B \<Longrightarrow> inv s0 \<Longrightarrow>
   inv s \<and> (\<forall>(p, n)\<in>B. \<exists>m \<ge> unat n. (unat p, m) \<in> live s) \<and> inj_on fst B"
proof (induction rule: block_owner.induct)
  case start
  then show ?case by simp
next
  case (take_ok s B n p s')
  then have "inv s" and held: "\<forall>(p, n)\<in>B. \<exists>m \<ge> unat n. (unat p, m) \<in> live s" and inj: "inj_on fst B"
    by simp_all
  from alloc_Ok [OF this(1) take_ok(2,3)] take_ok(4)
  obtain m where m: "inv s'" "m \<ge> unat n" "live s' = insert (unat p, m) (live s)"
      "(unat p, m) \<notin> live s"
    by auto
  have "\<nexists>k. (p, k) \<in> B"
  proof
    assume "\<exists>k. (p, k) \<in> B"
    then obtain k l where l: "(unat p, l) \<in> live s" using held by fastforce
    then have "(unat p, l) \<in> live s'" "(unat p, m) \<in> live s'" using m(3) by auto
    then have "l = m" using live_size_unique [OF m(1)] by blast
    with l m(4) show False by simp
  qed
  then have "inj_on fst (insert (p, n) B)" using inj by (force simp: inj_on_def)
  then show ?case using m held by fastforce
next
  case (take_fail s B n s')
  then have "inv s" by simp
  from alloc_Ok [OF this take_fail(2,3)] take_fail show ?case by simp
next
  case (give s B p n s')
  then have "inv s" and held: "\<forall>(p, n)\<in>B. \<exists>m \<ge> unat n. (unat p, m) \<in> live s" and inj: "inj_on fst B"
    by simp_all
  obtain m where m: "(unat p, m) \<in> live s" using held give(2) by fastforce
  obtain s1 where "release p s = Ok s1" "inv s1" "live s1 = live s - {(unat p, m)}"
    using release_law [OF \<open>inv s\<close> m] by blast
  then have s': "inv s'" "live s' = live s - {(unat p, m)}" using give(3) by auto
  have "\<exists>k \<ge> unat l. (unat q, k) \<in> live s'" if "(q, l) \<in> B - {(p, n)}" for q l
  proof -
    have "q \<noteq> p" using that give(2) inj_onD [OF inj, of "(q, l)" "(p, n)"] by auto
    then have ne: "unat q \<noteq> unat p" by (simp add: word_unat_eq_iff)
    have "(q, l) \<in> B" using that by simp
    then obtain k where "k \<ge> unat l" "(unat q, k) \<in> live s" using bspec [OF held] by auto
    then have "k \<ge> unat l \<and> (unat q, k) \<in> live s'" using ne s'(2) by simp
    then show ?thesis ..
  qed
  then show ?case using s'(1) inj_on_diff [OF inj] by blast
qed

text \<open>The blocks held never overlap.\<close>

lemma owner_disjoint:
  assumes "inv s0" and "block_owner alloc release serviceable s0 s B"
    and "(p, n) \<in> B" and "(q, m) \<in> B" and "p \<noteq> q"
  shows "unat p + unat n < unat q \<or> unat q + unat m < unat p"
proof -
  have o: "inv s" "\<forall>(p, n)\<in>B. \<exists>m \<ge> unat n. (unat p, m) \<in> live s"
    using owner_live [OF assms(2,1)] by auto
  obtain k where k: "k \<ge> unat n" "(unat p, k) \<in> live s" using o(2) assms(3) by fastforce
  obtain l where l: "l \<ge> unat m" "(unat q, l) \<in> live s" using o(2) assms(4) by fastforce
  have "(unat p, k) \<noteq> (unat q, l)" using assms(5) by (simp add: word_unat_eq_iff)
  then show ?thesis using live_separate [OF o(1) k(2) l(2)] k(1) l(1) by auto
qed

end

end
