(* ===== verification/Heap_Laws.thy ===== *)
theory Heap_Laws
  imports Heap Block_Allocator
begin

unbundle bit_operations_syntax

text \<open>
  What the kernel heap of the theory \<open>Heap\<close> promises to its clients: initialisation, allocation,
  release and reallocation on the set of live blocks, the statistics, the interpretation of the
  interface \<open>block_allocator\<close>, and the requests on which the code does not do what it should.
\<close>

section \<open>The interface\<close>

definition serviceable :: "u32 \<Rightarrow> bool" where
  "serviceable bytes \<longleftrightarrow> bytes \<noteq> 0 \<and> bytes \<le> 0xFFFFEFF0"

lemma heap_live_separate:
  assumes "heap_inv h" and "(p, n) \<in> heap_live h" and "(q, m) \<in> heap_live h"
  shows "(p, n) = (q, m) \<or> p + n < q \<or> q + m < p"
proof -
  obtain cs where "heap_rep h cs" using assms(1) by (auto simp: heap_inv_def)
  then show ?thesis
    using live_at_disjoint [of p n heap_base cs q m] assms(2,3) heap_live_rep by force
qed

interpretation heap: block_allocator kmalloc kfree serviceable heap_inv heap_live
proof unfold_locales
  show "\<exists>p s'. kmalloc n s = Ok (p, s') \<and> heap_inv s' \<and>
      (p = 0 \<and> heap_live s' = heap_live s \<or>
       p \<noteq> 0 \<and> (\<exists>m \<ge> unat n. (unat p, m) \<notin> heap_live s \<and>
         heap_live s' = insert (unat p, m) (heap_live s)))"
    if "heap_inv s" "serviceable n" for s n
    using kmalloc_live [of s n] that by (auto simp: serviceable_def word_le_nat_alt)
  show "\<exists>s'. kfree p s = Ok s' \<and> heap_inv s' \<and> heap_live s' = heap_live s - {(unat p, m)}"
    if "heap_inv s" "(unat p, m) \<in> heap_live s" for s p m
    using kfree_live [OF that] by blast
  show "(a, k) = (b, l) \<or> a + k < b \<or> b + l < a"
    if "heap_inv s" "(a, k) \<in> heap_live s" "(b, l) \<in> heap_live s" for s a k b l
    using heap_live_separate [OF that] .
qed

section \<open>Initialisation\<close>

lemma init_pages_spec:
  "heap_backed h \<Longrightarrow> unat (g_heap_end h) + n * 4096 \<le> 419430400 \<Longrightarrow>
   n \<le> card (frames_avail (heap_pmm h)) \<Longrightarrow>
   \<exists>h'. init_pages_loop n h = Ok h' \<and> heap_backed h' \<and> grown h h' \<and>
     unat (g_heap_end h') = unat (g_heap_end h) + n * 4096"
proof (induction n arbitrary: h)
  case 0
  then show ?case by (simp add: grown_def)
next
  case (Suc n)
  let ?e = "g_heap_end h"
  have inv: "pmm_inv (heap_pmm h)" using Suc.prems by (simp add: heap_backed_def)
  obtain frame pmm where al: "pmm_alloc_frame (heap_pmm h) = Ok (frame, pmm)"
    using pmm.alloc_returns [OF inv] by auto
  note spec = pmm.alloc_Ok [OF inv al]
  have fr: "frame \<noteq> 0" "frame \<in> frames_avail (heap_pmm h)"
      "frames_avail pmm = frames_avail (heap_pmm h) - {frame}"
    using spec(3) Suc.prems(3) by auto
  have "frame \<in> frames_managed pmm" using pmm.avail_managed [OF inv] fr(2) spec(2) by auto
  then have al0: "frame AND 4095 = 0" by (rule pmm.managed_aligned [OF spec(1)])
  obtain pg where pg: "map_page ?e frame PAGE_WRITE (heap_pg h) = Ok (0, pg)"
      "heap_backed (h\<lparr>heap_pmm := pmm, heap_pg := pg, g_heap_end := ?e + PMM_FRAME_SIZE\<rparr>)"
    using map_heap_page [OF Suc.prems(1) _ fr(2) al0 spec(1) fr(3) spec(2)] Suc.prems(2) by auto
  let ?h1 = "h\<lparr>heap_pmm := pmm, heap_pg := pg, g_heap_end := ?e + PMM_FRAME_SIZE\<rparr>"
  have e: "unat (g_heap_end ?h1) = unat ?e + 4096"
    using Suc.prems(2) by (simp add: unat_plus_nowrap)
  have "Suc (card (frames_avail pmm)) = card (frames_avail (heap_pmm h))"
    by (simp only: fr(3) card_Suc_Diff1 [OF finite_frames_avail fr(2)])
  then obtain h' where h': "init_pages_loop n ?h1 = Ok h'" "heap_backed h'" "grown ?h1 h'"
      "unat (g_heap_end h') = unat (g_heap_end ?h1) + n * 4096"
    using Suc.IH [OF pg(2)] Suc.prems(2,3) e by auto
  have "grown h ?h1" by (simp add: grown_def)
  then show ?case
    using al fr(1) pg(1) h' e grown_trans by auto
qed

lemma heap_init_spec:
  assumes "pmm_inv (heap_pmm h)" and "paging_wf (heap_pg h)"
    and "card (pd_present (heap_pg h) \<union> {96..99}) \<le> 256" and "4 \<le> card (frames_avail (heap_pmm h))"
  shows "\<exists>h'. heap_init h = Ok h' \<and> heap_rep h' [(16368, True)] \<and> heap_mem h' = heap_mem h"
proof -
  let ?h0 = "h\<lparr>g_heap_start := KHEAP_BASE, g_heap_end := KHEAP_BASE,
    g_heap_limit := KHEAP_BASE + KHEAP_MAX_SIZE, heap_lock_word := 0\<rparr>"
  have b0: "heap_backed ?h0"
    using assms by (simp add: heap_backed_def heap_geometry_def heap_pages_def)
  obtain h1 where h1: "init_pages_loop 4 ?h0 = Ok h1" "heap_backed h1" "grown ?h0 h1"
      "unat (g_heap_end h1) = 402653184 + 4 * 4096"
    using init_pages_spec [OF b0, of 4] assms(4) by auto
  note f = grown_fields [OF h1(3)]
  have e: "g_heap_end h1 = 0x18004000" using h1(4) by (simp add: word_unat_eq_iff)
  let ?B = "\<lparr>hb_size = 16368, hb_free = True, hb_next = 0, hb_prev = 0\<rparr> :: heap_block"
  let ?h2 = "(put_block KHEAP_BASE ?B h1)\<lparr>g_head := KHEAP_BASE, g_heap_ready := True\<rparr>"
  have init: "heap_init h = Ok ?h2"
    using h1(1) f by (simp add: heap_init_def e block_overhead_def)
  have "heap_backed ?h2 = heap_backed h1"
  proof -
    have "frame_of ?h2 = frame_of h1" "heap_pages ?h2 = heap_pages h1"
      by (simp_all add: fun_eq_iff frame_of_def heap_pages_def put_block_def)
    then show ?thesis by (simp add: heap_backed_def heap_geometry_def put_block_def)
  qed
  moreover have "heap_cells ?h2 [(16368, True)]"
    using h1(4) by (simp add: heap_cells_def put_block_def)
  ultimately have "heap_rep ?h2 [(16368, True)]"
    using h1(2) f by (simp add: heap_rep_def put_block_def)
  then show ?thesis using init f by (simp add: put_block_def)
qed

lemma init_pages_out_of_memory:
  "heap_backed h \<Longrightarrow> unat (g_heap_end h) + n * 4096 \<le> 419430400 \<Longrightarrow>
   n > card (frames_avail (heap_pmm h)) \<Longrightarrow>
   init_pages_loop n h = Fail (Panic ''heap_init: out of physical memory'')"
proof (induction n arbitrary: h)
  case (Suc n)
  let ?e = "g_heap_end h"
  have inv: "pmm_inv (heap_pmm h)" using Suc.prems by (simp add: heap_backed_def)
  obtain frame pmm where al: "pmm_alloc_frame (heap_pmm h) = Ok (frame, pmm)"
    using pmm.alloc_returns [OF inv] by auto
  note spec = pmm.alloc_Ok [OF inv al]
  show ?case
  proof (cases "frame = 0")
    case True
    then show ?thesis using al by simp
  next
    case False
    then have fr: "frame \<in> frames_avail (heap_pmm h)"
        "frames_avail pmm = frames_avail (heap_pmm h) - {frame}"
      using spec(3) by auto
    have "frame \<in> frames_managed pmm" using pmm.avail_managed [OF inv] fr(1) spec(2) by auto
    then have al0: "frame AND 4095 = 0" by (rule pmm.managed_aligned [OF spec(1)])
    obtain pg where pg: "map_page ?e frame PAGE_WRITE (heap_pg h) = Ok (0, pg)"
        "heap_backed (h\<lparr>heap_pmm := pmm, heap_pg := pg, g_heap_end := ?e + PMM_FRAME_SIZE\<rparr>)"
      using map_heap_page [OF Suc.prems(1) _ fr(1) al0 spec(1) fr(2) spec(2)] Suc.prems(2) by auto
    let ?h1 = "h\<lparr>heap_pmm := pmm, heap_pg := pg, g_heap_end := ?e + PMM_FRAME_SIZE\<rparr>"
    have e: "unat (g_heap_end ?h1) = unat ?e + 4096"
      using Suc.prems(2) by (simp add: unat_plus_nowrap)
    have "Suc (card (frames_avail pmm)) = card (frames_avail (heap_pmm h))"
      by (simp only: fr(2) card_Suc_Diff1 [OF finite_frames_avail fr(1)])
    then have "init_pages_loop n ?h1 = Fail (Panic ''heap_init: out of physical memory'')"
      using Suc.IH [OF pg(2)] Suc.prems(2,3) e by auto
    then show ?thesis using al False pg(1) by simp
  qed
qed simp

section \<open>Reallocation\<close>

text \<open>The header of a live block records its size.\<close>

lemma live_header:
  assumes "heap_inv h" and "(unat p, n) \<in> heap_live h"
  shows "\<exists>B. get_block (p - block_overhead) h = Ok B \<and> hb_size B = of_nat n" and "n < 2 ^ 32"
    and "p \<noteq> 0" and "unat p + n < 2 ^ 32"
proof -
  obtain cs where rep: "heap_rep h cs" using assms(1) by (auto simp: heap_inv_def)
  then have "(unat p, n) \<in> live_at heap_base cs" using assms(2) heap_live_rep by auto
  then obtain xs ys where cs: "cs = xs @ (n, False) # ys" and p: "unat p = heap_base + span xs + 16"
    using live_at_split by blast
  have bound: "heap_base + span cs \<le> 419430400"
    using rep heap_cells_bound by (auto simp: heap_rep_def)
  have "p = of_nat (heap_base + span xs + 16)" by (simp flip: p)
  then have "p - block_overhead = of_nat (heap_base + span xs)" by (simp add: block_overhead_def)
  moreover have "seg (heap_blocks h) 0 heap_base (xs @ (n, False) # ys) 0"
    using rep cs by (simp add: heap_rep_def heap_cells_def)
  ultimately show "\<exists>B. get_block (p - block_overhead) h = Ok B \<and> hb_size B = of_nat n"
    by (simp add: seg_middle)
  show "n < 2 ^ 32" "unat p + n < 2 ^ 32" "p \<noteq> 0" using bound p by (auto simp: cs)
qed

lemma copied_inside:
  "i < n \<Longrightarrow> n < 2 ^ 32 \<Longrightarrow> copied dst src n m (dst + of_nat i) = m (src + of_nat i)"
  by (simp add: copied_def unat_of_nat)

lemma copied_outside:
  assumes "unat dst + n \<le> unat a \<or> unat a < unat dst" and "unat dst + n < 2 ^ 32"
  shows "copied dst src n m a = m a"
proof -
  have "\<not> unat (a - dst) < n"
    using assms by (auto simp: unat_sub_if_size word_size)
  then show ?thesis by (simp add: copied_def)
qed

lemma heap_inv_mem: "heap_inv (h\<lparr>heap_mem := m\<rparr>) = heap_inv h" "heap_live (h\<lparr>heap_mem := m\<rparr>) = heap_live h"
  by (simp_all add: heap_inv_def heap_live_def heap_rep_def heap_backed_blocks heap_cells_def)

definition block_bytes :: "mem \<Rightarrow> nat \<Rightarrow> nat \<Rightarrow> u8 list" where
  "block_bytes m p n = map (\<lambda>i. m (of_nat (p + i))) [0..<n]"

lemma block_bytes_outside:
  assumes "unat dst + n \<le> q \<or> q + k \<le> unat dst" and "unat dst + n < 2 ^ 32" and "q + k < 2 ^ 32"
  shows "block_bytes (copied dst src n m) q k = block_bytes m q k"
  unfolding block_bytes_def
proof (rule map_cong [OF refl])
  fix i assume "i \<in> set [0..<k]"
  then show "copied dst src n m (of_nat (q + i)) = m (of_nat (q + i))"
    using assms by (intro copied_outside) (auto simp: unat_of_nat simp del: of_nat_add)
qed

lemma block_bytes_copied:
  "n < 2 ^ 32 \<Longrightarrow> block_bytes (copied dst src n m) (unat dst) n = block_bytes m (unat src) n"
  unfolding block_bytes_def by (rule map_cong [OF refl]) (auto simp: copied_inside)

lemma krealloc_moves:
  assumes inv: "heap_inv h" and p: "(unat p, n) \<in> heap_live h" and gt: "n < unat new"
    and sv: "serviceable new"
  shows "\<exists>q h'. krealloc p new h = Ok (q, h') \<and> heap_inv h' \<and>
    (q = 0 \<and> heap_live h' = heap_live h \<and> heap_mem h' = heap_mem h \<or>
     q \<noteq> 0 \<and> (\<exists>m \<ge> unat new. (unat q, m) \<notin> heap_live h \<and>
        heap_live h' = insert (unat q, m) (heap_live h - {(unat p, n)})) \<and>
      block_bytes (heap_mem h') (unat q) n = block_bytes (heap_mem h) (unat p) n \<and>
      (\<forall>(a, k) \<in> heap_live h - {(unat p, n)}.
         block_bytes (heap_mem h') a k = block_bytes (heap_mem h) a k))"
proof -
  obtain B where B: "get_block (p - block_overhead) h = Ok B" "hb_size B = of_nat n"
    using live_header(1) [OF inv p] by auto
  have n: "n < 2 ^ 32" and p0: "p \<noteq> 0" using live_header [OF inv p] by auto
  have small: "\<not> new \<le> of_nat n" using gt n by (simp add: word_le_nat_alt unat_of_nat)
  have new: "new \<noteq> 0" "unat new \<le> 0xFFFFEFF0"
    using sv by (auto simp: serviceable_def word_le_nat_alt)
  obtain q h1 where q: "kmalloc new h = Ok (q, h1)" "heap_inv h1" "heap_mem h1 = heap_mem h"
      "q = 0 \<and> heap_live h1 = heap_live h \<or>
       q \<noteq> 0 \<and> unat q mod 16 = 0 \<and> (\<exists>m \<ge> unat new. (unat q, m) \<notin> heap_live h \<and>
         heap_live h1 = insert (unat q, m) (heap_live h))"
    using kmalloc_live [OF inv new] by (elim exE conjE) (rule that; assumption)
  show ?thesis
  proof (cases "q = 0")
    case True
    then show ?thesis
      using q B p0 new(1) small by (simp add: krealloc_def)
  next
    case False
    then obtain m where m: "m \<ge> unat new" "(unat q, m) \<notin> heap_live h"
        "heap_live h1 = insert (unat q, m) (heap_live h)"
      using q(4) by auto
    have p1: "(unat p, n) \<in> heap_live h1" and q1: "(unat q, m) \<in> heap_live h1" using p m(3) by auto
    obtain B1 where B1: "get_block (p - block_overhead) h1 = Ok B1" "hb_size B1 = of_nat n"
      using live_header(1) [OF q(2) p1] by auto
    let ?m = "copied q p n (heap_mem h)"
    let ?h2 = "h1\<lparr>heap_mem := ?m\<rparr>"
    obtain h3 where h3: "kfree p ?h2 = Ok h3" "heap_inv h3" "heap_live h3 = heap_live h1 - {(unat p, n)}"
        "heap_mem h3 = ?m"
      using kfree_live [of ?h2 p n] p1 q(2) by (auto simp: heap_inv_mem)
    have ne: "(unat q, m) \<noteq> (unat p, n)" using m(2) p by auto
    have "memcpy q p n (heap_mem h) = ?m"
      using heap_live_separate [OF q(2) p1 q1] ne live_header(4) [OF q(2) p1] live_header(4) [OF q(2) q1]
        gt m(1)
      by (intro memcpy_copied) auto
    then have "krealloc p new h = Ok (q, h3)"
      using q(1,3) B B1 p0 new(1) small False h3(1) n gt
      by (simp add: krealloc_def Let_def unat_of_nat word_less_nat_alt)
    moreover note ne
    then have "heap_live h3 = insert (unat q, m) (heap_live h - {(unat p, n)})"
      using h3(3) m(3) by auto
    moreover have "block_bytes ?m (unat q) n = block_bytes (heap_mem h) (unat p) n"
      using n by (rule block_bytes_copied)
    moreover have "block_bytes ?m a k = block_bytes (heap_mem h) a k"
      if ak: "(a, k) \<in> heap_live h" for a k
    proof (rule block_bytes_outside)
      have ak1: "(a, k) \<in> heap_live h1" using ak m(3) by simp
      have "(a, k) \<noteq> (unat q, m)" using ak m(2) by auto
      then show "unat q + n \<le> a \<or> a + k \<le> unat q"
        using heap_live_separate [OF q(2) ak1 q1] gt m(1) by auto
      show "unat q + n < 2 ^ 32" using live_header(4) [OF q(2) q1] gt m(1) by linarith
      have "a < 2 ^ 32" "a + k < 2 ^ 32"
        using q(2) ak1 heap_live_rep live_at_bounds heap_cells_bound
        by (fastforce simp: heap_inv_def heap_rep_def)+
      then show "a + k < 2 ^ 32" by simp
    qed
    ultimately show ?thesis
      using h3(2,4) m(1,2) False by (intro exI [of _ q] exI [of _ h3]) auto
  qed
qed

lemma krealloc_keeps:
  assumes "heap_inv h" and "(unat p, n) \<in> heap_live h" and "unat new \<le> n" and "new \<noteq> 0"
  shows "krealloc p new h = Ok (p, h)"
proof -
  obtain B where "get_block (p - block_overhead) h = Ok B" "hb_size B = of_nat n"
    using live_header(1) [OF assms(1,2)] by auto
  moreover have "p \<noteq> 0" "n < 2 ^ 32" using live_header [OF assms(1,2)] by auto
  ultimately show ?thesis
    using assms(3,4) by (simp add: krealloc_def word_le_nat_alt unat_of_nat)
qed

section \<open>Statistics\<close>

definition used_sizes :: "cell list \<Rightarrow> nat list" where
  "used_sizes cs = map fst (filter (\<lambda>c. \<not> snd c) cs)"

definition free_sizes :: "cell list \<Rightarrow> nat list" where
  "free_sizes cs = map fst (filter snd cs)"

lemma sizes_simps [simp]:
  "used_sizes [] = []" "free_sizes [] = []"
  "used_sizes ((n, f) # cs) = (if f then used_sizes cs else n # used_sizes cs)"
  "free_sizes ((n, f) # cs) = (if f then n # free_sizes cs else free_sizes cs)"
  by (simp_all add: used_sizes_def free_sizes_def)

lemma count_blocks:
  "\<forall>c\<in>set cs. fst c < 2 ^ 32 \<Longrightarrow> l < 2 ^ 32 \<Longrightarrow> hs_largest_free_block st = of_nat l \<Longrightarrow>
   fold (\<lambda>(n, f). count_block \<lparr>hb_size = of_nat n, hb_free = f, hb_next = 0, hb_prev = 0\<rparr>) cs st =
   st\<lparr>hs_used_bytes := hs_used_bytes st + of_nat (sum_list (used_sizes cs)),
      hs_free_bytes := hs_free_bytes st + of_nat (sum_list (free_sizes cs)),
      hs_used_blocks := hs_used_blocks st + of_nat (length (used_sizes cs)),
      hs_free_blocks := hs_free_blocks st + of_nat (length (free_sizes cs)),
      hs_largest_free_block := of_nat (fold max (free_sizes cs) l)\<rparr>"
proof (induction cs arbitrary: st l rule: span.induct)
  case 1
  then show ?case by simp
next
  case (2 n f cs)
  let ?B = "\<lparr>hb_size = of_nat n, hb_free = f, hb_next = 0, hb_prev = 0\<rparr> :: heap_block"
  have cmp: "(of_nat n :: u32) > of_nat l \<longleftrightarrow> n > l"
    using 2 by (simp add: word_less_nat_alt unat_of_nat)
  have count: "count_block ?B st = st\<lparr>
      hs_used_bytes := hs_used_bytes st + (if f then 0 else of_nat n),
      hs_free_bytes := hs_free_bytes st + (if f then of_nat n else 0),
      hs_used_blocks := hs_used_blocks st + (if f then 0 else 1),
      hs_free_blocks := hs_free_blocks st + (if f then 1 else 0),
      hs_largest_free_block := of_nat (if f then max n l else l)\<rparr>"
    using 2 cmp by (cases f) (auto simp: count_block_def max_def)
  then have large: "hs_largest_free_block (count_block ?B st) = of_nat (if f then max n l else l)"
    by simp
  have IH: "fold (\<lambda>(n, f). count_block \<lparr>hb_size = of_nat n, hb_free = f, hb_next = 0, hb_prev = 0\<rparr>) cs
      (count_block ?B st) =
    (count_block ?B st)\<lparr>
      hs_used_bytes := hs_used_bytes (count_block ?B st) + of_nat (sum_list (used_sizes cs)),
      hs_free_bytes := hs_free_bytes (count_block ?B st) + of_nat (sum_list (free_sizes cs)),
      hs_used_blocks := hs_used_blocks (count_block ?B st) + of_nat (length (used_sizes cs)),
      hs_free_blocks := hs_free_blocks (count_block ?B st) + of_nat (length (free_sizes cs)),
      hs_largest_free_block := of_nat (fold max (free_sizes cs) (if f then max n l else l))\<rparr>"
    using 2 large by (intro "2.IH") auto
  show ?case
    unfolding fold_simps prod.case IH unfolding count by (cases f) (simp_all add: add.assoc)
qed

lemma span_sizes: "span cs = 16 * length cs + sum_list (used_sizes cs) + sum_list (free_sizes cs)"
  by (induction cs rule: span.induct) auto

lemma length_sizes: "length (used_sizes cs) + length (free_sizes cs) = length cs"
  by (induction cs rule: span.induct) auto

lemma finite_live_at [simp]: "finite (live_at a cs)"
  by (induction a cs rule: live_at.induct) auto

lemma live_at_sums:
  "card (live_at a cs) = length (used_sizes cs)" "(\<Sum>b\<in>live_at a cs. snd b) = sum_list (used_sizes cs)"
proof (induction a cs rule: live_at.induct)
  case (2 a n f cs)
  have "(a + 16, n) \<notin> live_at (a + 16 + n) cs"
    using live_at_bounds [of "a + 16" n "a + 16 + n" cs] by auto
  then show "card (live_at a ((n, f) # cs)) = length (used_sizes ((n, f) # cs))"
    "(\<Sum>b\<in>live_at a ((n, f) # cs). snd b) = sum_list (used_sizes ((n, f) # cs))"
    using 2 by simp_all
qed simp_all

lemma heap_get_stats_cells:
  assumes "heap_rep h cs"
  shows "heap_get_stats h =
    Ok (\<lparr>hs_heap_start = KHEAP_BASE, hs_heap_end = g_heap_end h,
         hs_total_bytes = g_heap_end h - KHEAP_BASE,
         hs_used_bytes = of_nat (sum_list (used_sizes cs)),
         hs_free_bytes = of_nat (sum_list (free_sizes cs)),
         hs_free_blocks = of_nat (length (free_sizes cs)),
         hs_used_blocks = of_nat (length (used_sizes cs)),
         hs_largest_free_block = of_nat (fold max (free_sizes cs) 0)\<rparr>, h)"
proof -
  let ?h1 = "h\<lparr>heap_lock_word := 1\<rparr>"
  have cells: "heap_cells h cs" and backed: "heap_backed h" and st: "g_heap_start h = KHEAP_BASE"
      "g_heap_ready h" "heap_lock_word h = 0"
    using assms by (simp_all add: heap_rep_def)
  have bound: "heap_base + span cs < 2 ^ 32" using heap_cells_bound [OF cells backed] by simp
  have "fst c \<le> span cs" if "c \<in> set cs" for c
    using that by (induction cs rule: span.induct) auto
  then have small: "\<forall>c\<in>set cs. fst c < 2 ^ 32" using bound by fastforce
  have head: "g_head ?h1 = next_ptr heap_base cs" and seg: "seg (heap_blocks ?h1) 0 heap_base cs 0"
    using cells by (simp_all add: heap_cells_def next_ptr_def)
  have unlock: "heap_unlock ?h1 = h" using st by (simp add: heap_unlock_def)
  show ?thesis
    unfolding heap_get_stats_def using st
    by (simp add: heap_lock_def head [simplified] stats_loop_seg [OF seg _ bound] unlock
        count_blocks [OF small, of 0] zero_stats_def)
qed

section \<open>Allocate and release\<close>

lemma join_split:
  assumes "w \<le> n" and "ys = [] \<or> \<not> snd (hd ys)"
  shows "\<exists>m rest. take_cell w n = (m, False) # rest \<and> join_next m True (rest @ ys) = (n, True) # ys"
proof (cases "n \<le> w + 32")
  case True
  have "join_next n True ys = (n, True) # ys"
    using assms(2) by (cases ys) auto
  then show ?thesis using True by (simp add: take_cell_def split_cell_def)
next
  case False
  then show ?thesis by (simp add: take_cell_def split_cell_def)
qed

lemma served_free:
  assumes "heap_rep h cs" and "served w cs p cs'" and "heap_rep h' cs'"
  shows "\<exists>h''. kfree p h' = Ok h'' \<and> heap_rep h'' cs"
proof -
  obtain xs n ys where s: "cs = xs @ (n, True) # ys" "w \<le> n" "unat p = heap_base + span xs + 16"
      "cs' = xs @ take_cell w n @ ys"
    using assms(2) by (auto simp: served_def)
  have co: "coalesced (xs @ (n, True) # ys)" using assms(1) s(1) by (simp add: heap_rep_def heap_cells_def)
  then have ys: "ys = [] \<or> \<not> snd (hd ys)" and xs: "xs = [] \<or> \<not> snd (last xs)"
    by (auto simp: coalesced_append coalesced_Cons)
  obtain m rest where t: "take_cell w n = (m, False) # rest"
      "join_next m True (rest @ ys) = (n, True) # ys"
    using join_split [OF s(2) ys] by blast
  have "heap_rep h' (xs @ (m, False) # rest @ ys)" using assms(3) s(4) t(1) by simp
  then obtain h'' where "kfree p h' = Ok h''" "heap_rep h'' (free_cells xs m (rest @ ys))"
    using kfree_spec s(3) by blast
  moreover have "free_cells xs m (rest @ ys) = cs"
    using xs t(2) s(1) by (auto simp: free_cells_def)
  ultimately show ?thesis by auto
qed

section \<open>Requests near the top of the address space\<close>

text \<open>
  With a request of more than 0xFFFFEFF0 bytes, the size \<open>heap_expand\<close> computes wraps to 0: it adds
  no page, reports success, and the search starts again on the same list.
\<close>

definition stuck :: "u32 \<Rightarrow> heap \<Rightarrow> bool" where
  "stuck w h \<longleftrightarrow> (\<exists>cs. g_head h = next_ptr heap_base cs \<and> cs \<noteq> [] \<and> snd (last cs) \<and>
     seg (heap_blocks h) 0 heap_base cs 0 \<and> heap_base + span cs < 2 ^ 32 \<and>
     (\<forall>c\<in>set cs. \<not> fits (unat w) c)) \<and>
     unat w \<ge> 0xFFFFF000 \<and> unat w mod 16 = 0"

lemma stuck_expand:
  assumes "stuck w h"
  shows "first_fit h w (g_head h) = Some (Ok 0)" and "heap_expand w h = Ok (0, h)"
proof -
  obtain cs where cs: "g_head h = next_ptr heap_base cs" "cs \<noteq> []" "snd (last cs)"
      "seg (heap_blocks h) 0 heap_base cs 0" "heap_base + span cs < 2 ^ 32"
      "\<forall>c\<in>set cs. \<not> fits (unat w) c"
    using assms by (auto simp: stuck_def)
  have "fit_pos (unat w) heap_base cs = None" using cs(6) fit_pos_None by blast
  then show "first_fit h w (g_head h) = Some (Ok 0)"
    unfolding cs(1) using first_fit_seg [OF cs(4) _ cs(5), of w] by simp
  have needed: "align_up (w + block_overhead) PMM_FRAME_SIZE = 0"
  proof -
    obtain k where "unat w = 16 * k" using assms by (auto simp: stuck_def elim: dvdE)
    then have "0xFFFFF000 \<le> unat w" "unat w \<le> 4294967280"
      using assms unat_u32_lt [of w] by (simp_all add: stuck_def)
    then obtain x where x: "unat w + 4111 = 4294967296 + x" "x < 4096"
      using that [of "unat w + 4111 - 4294967296"] by simp
    then have "unat (w + 4111) = x"
      by (simp add: unat_word_ariths)
    then have "unat (w + 4111) div 4096 * 4096 = 0"
      using x(2) by simp
    then show ?thesis
      using unat_and_page_base [of "w + 4111"]
      by (simp add: align_up_def block_overhead_def word_unat_eq_iff add.assoc)
  qed
  obtain xs n f where c: "cs = xs @ [(n, f)]" using cs(2) by (cases cs rule: rev_cases) auto
  have T: "heap_blocks h (of_nat (heap_base + span xs)) = Some \<lparr>hb_size = of_nat n, hb_free = True,
      hb_next = 0, hb_prev = last_addr 0 heap_base xs\<rparr>"
    using cs(3,4) by (simp add: c seg_middle next_ptr_def)
  have "g_head h \<noteq> 0" "last_from h (g_head h) = Some (Ok (of_nat (heap_base + span xs)))"
    using last_from_seg [OF cs(4,2) _ cs(5)] cs(1,2) by (simp_all add: next_ptr_def c last_addr_snoc)
  moreover have "(of_nat (heap_base + span xs) :: u32) \<noteq> 0"
    using cs(5) c of_nat_eq_u32 [of "heap_base + span xs" 0] by simp
  ultimately have "grow_tail 0 h = Ok (0, h)"
    using T by (simp add: grow_tail_def last_block_def get_block_Some [OF T] put_block_eq
        map_upd_triv del: of_nat_add)
  then show "heap_expand w h = Ok (0, h)"
    by (simp add: heap_expand_def needed)
qed

lemma stuck_never_returns:
  assumes "kmalloc_retry w h = Some r"
  shows "\<not> stuck w h"
proof (rule kmalloc_retry.raw_induct [where P = "\<lambda>w h r. \<not> stuck w h", OF _ assms])
  fix retry :: "u32 \<Rightarrow> heap \<Rightarrow> (u32 \<times> heap) res option" and w h r
  assume IH: "\<And>w h r. retry w h = Some r \<Longrightarrow> \<not> stuck w h"
    and eq: "(case hang (first_fit h w (g_head h)) of
        Ok cur \<Rightarrow> if cur \<noteq> 0 then Some (take_block cur w h)
          else (case heap_expand w h of
              Ok (rc, h) \<Rightarrow> if rc = 0 then retry w h else Some (Ok (0, heap_unlock h))
            | Fail e \<Rightarrow> Some (Fail e))
      | Fail e \<Rightarrow> Some (Fail e)) = Some r"
  show "\<not> stuck w h"
  proof
    assume s: "stuck w h"
    then have "retry w h = Some r" using eq stuck_expand [OF s] by simp
    then show False using IH s by blast
  qed
qed

lemma kmalloc_stuck:
  assumes "heap_rep h cs" and "snd (last cs)" and "bytes > 0xFFFFEFF0" and "bytes \<le> 0xFFFFFFF0"
  shows "kmalloc bytes h = Fail Hang"
proof -
  let ?w = "(bytes + (HEAP_ALIGN - 1)) AND NOT (HEAP_ALIGN - 1)" and ?h1 = "h\<lparr>heap_lock_word := 1\<rparr>"
  have b: "0xFFFFEFF0 < unat bytes" "unat bytes \<le> 0xFFFFFFF0"
    using assms(3,4) by (simp_all add: word_less_nat_alt word_le_nat_alt)
  then have w: "unat ?w = wanted_size bytes"
    by (simp add: word_nat_simps unat_plus_nowrap wanted_size_def)
  have "(0xFFFFEFF0 + 16) div 16 * 16 \<le> wanted_size bytes"
    unfolding wanted_size_def using b(1) by (intro mult_right_mono div_le_mono) auto
  then have ge: "0xFFFFF000 \<le> wanted_size bytes" by simp
  have cells: "heap_cells h cs" and bound: "heap_base + span cs \<le> 419430400"
    using assms(1) heap_cells_bound by (auto simp: heap_rep_def)
  have "fst c \<le> span cs" if "c \<in> set cs" for c
    using that by (induction cs rule: span.induct) auto
  then have "\<forall>c\<in>set cs. \<not> fits (wanted_size bytes) c"
    using ge bound by (fastforce simp: fits_def)
  then have "stuck ?w ?h1"
    using cells bound ge assms(2) wanted_size_bounds(2) unfolding stuck_def w
    by (auto simp: heap_cells_def next_ptr_def)
  then have "kmalloc_retry ?w ?h1 = None"
    using stuck_never_returns by (cases "kmalloc_retry ?w ?h1") auto
  then show ?thesis
    using assms(1,3) by (auto simp: kmalloc_def heap_rep_def heap_lock_def Let_def)
qed

text \<open>The block that serves a request is determined by the cells.\<close>

lemma served_split:
  assumes "served w (xs @ (n, True) # ys) p cs'" and "\<forall>c\<in>set xs. \<not> fits w c" and "w \<le> n"
  shows "unat p = heap_base + span xs + 16" and "cs' = xs @ take_cell w n @ ys"
proof -
  obtain us m zs where s: "xs @ (n, True) # ys = us @ (m, True) # zs" "\<forall>c\<in>set us. \<not> fits w c"
      "w \<le> m" "unat p = heap_base + span us + 16" "cs' = us @ take_cell w m @ zs"
    using assms(1) by (auto simp: served_def)
  have first: "takeWhile (\<lambda>c. \<not> fits w c) (vs @ (k, True) # ws) = vs"
    if "\<forall>c\<in>set vs. \<not> fits w c" "w \<le> k" for vs k ws
    using that by (simp add: takeWhile_append fits_def)
  have "xs = us" using first [OF assms(2,3), of ys] first [OF s(2,3), of zs] s(1) by simp
  then show "unat p = heap_base + span xs + 16" "cs' = xs @ take_cell w n @ ys"
    using s by simp_all
qed

section \<open>A heap for the witnesses\<close>

text \<open>Frames 1 to 8 of 16 are free, nothing is mapped yet.\<close>

definition raw_heap :: heap where
  "raw_heap = \<lparr>heap_blocks = Map.empty, heap_mem = \<lambda>_. 0, g_head = 0, g_heap_start = 0,
     g_heap_end = 0, g_heap_limit = 0, heap_lock_word = 0, g_heap_ready = False,
     heap_pmm = free_range 0x1000 0x9000 ((pmm_blank pmm_zero 0x10000)\<lparr>pmm_ready := True\<rparr>),
     heap_pg = small_paging\<rparr>"

definition fresh_heap :: heap where
  "fresh_heap = (case heap_init raw_heap of Ok h \<Rightarrow> h | Fail e \<Rightarrow> raw_heap)"

lemma raw_heap_pmm:
  "pmm_inv (heap_pmm raw_heap)" "card (frames_avail (heap_pmm raw_heap)) = 8"
  "paging_wf (heap_pg raw_heap)" "card (pd_present (heap_pg raw_heap) \<union> {96..99}) \<le> 256"
proof -
  let ?b = "(pmm_blank pmm_zero 0x10000)\<lparr>pmm_ready := True\<rparr>"
  let ?p = "heap_pmm raw_heap"
  have wf: "pmm_wf ?b" and fr: "free_set ?b = {}"
    using pmm_blank_wf [of pmm_zero "0x10000"] pmm_blank_free [of pmm_zero "0x10000"]
    by (simp_all add: pmm_wf_def free_set_def)
  have "total_frames ?b = 16" "pmm_ready ?b" "pmm_lock_word ?b = 0"
    by (simp_all add: pmm_blank_def align_down_def pmm_zero_def)
  moreover have "{n. n < 16 \<and> frame_touches n 4096 36864} = {1..8}"
    by (auto simp: frame_touches_def)
  ultimately have p: "free_set ?p = {1..8}" "pmm_inv ?p"
    using free_range_spec [OF wf, of "0x1000" "0x9000"] fr
    by (auto simp: raw_heap_def pmm_inv_def pmm_idle_def same_frame_def)
  then show "pmm_inv ?p" by simp
  have "inj_on frame_addr {1..8}" by (auto simp: inj_on_def frame_addr_inj)
  then show "card (frames_avail ?p) = 8"
    by (simp add: frames_avail_def p(1) card_image)
  show "paging_wf (heap_pg raw_heap)" "card (pd_present (heap_pg raw_heap) \<union> {96..99}) \<le> 256"
    by (simp_all add: raw_heap_def)
qed

lemma fresh_heap: "heap_rep fresh_heap [(16368, True)]" "heap_inv fresh_heap" "heap_live fresh_heap = {}"
proof -
  show rep: "heap_rep fresh_heap [(16368, True)]"
    using heap_init_spec [OF raw_heap_pmm(1,3,4)] raw_heap_pmm(2) by (auto simp: fresh_heap_def)
  then show "heap_inv fresh_heap" by (auto simp: heap_inv_def)
  show "heap_live fresh_heap = {}" using heap_live_rep [OF rep] by simp
qed

text \<open>The fresh heap with one block of 64 bytes.\<close>

definition one_block :: "u32 \<times> heap" where
  "one_block = (case kmalloc 64 fresh_heap of Ok r \<Rightarrow> r | Fail e \<Rightarrow> (0, fresh_heap))"

lemma one_block:
  "kmalloc 64 fresh_heap = Ok one_block" "fst one_block = 0x18000010"
  "heap_rep (snd one_block) [(64, False), (16288, True)]"
  "heap_inv (snd one_block)" "heap_live (snd one_block) = {(0x18000010, 64)}"
proof -
  have w: "wanted_size 64 = 64" by (simp add: wanted_size_def)
  have fit: "\<exists>c\<in>set [(16368, True)]. fits (wanted_size 64) c" by (simp add: fits_def w)
  obtain p h cs where k: "kmalloc 64 fresh_heap = Ok (p, h)" "heap_rep h cs"
      "served 64 [(16368, True)] p cs"
    using kmalloc_spec [OF fresh_heap(1), of 64] fit unfolding w by auto
  then have pc: "unat p = heap_base + 16" "cs = [(64, False), (16288, True)]"
    using served_split [of 64 "[]" 16368 "[]" p cs] by (simp_all add: take_cell_def split_cell_def)
  then have p: "p = 0x18000010" by (simp add: word_unat_eq_iff)
  have one: "one_block = (p, h)" using k(1) by (simp add: one_block_def)
  then show "kmalloc 64 fresh_heap = Ok one_block" "fst one_block = 0x18000010"
    "heap_rep (snd one_block) [(64, False), (16288, True)]" "heap_inv (snd one_block)"
    using k p pc(2) unfolding heap_inv_def by (simp_all only: one fst_conv snd_conv) blast
  show "heap_live (snd one_block) = {(0x18000010, 64)}"
    using heap_live_rep [OF k(2)] pc(2) by (simp only: one snd_conv) simp
qed

section \<open>Properties\<close>

text \<open>
  \<open>heap_init\<close> needs four free frames: with them it returns a well-formed heap (the chain of
  blocks, its back pointers, the sizes, the mapping of its pages onto distinct frames) with one
  free block and no live one; without them it panics.
\<close>

theorem heap_init_establishes:
  assumes "pmm_inv (heap_pmm h)" and "paging_wf (heap_pg h)"
    and "card (pd_present (heap_pg h) \<union> {96..99}) \<le> 256"
  shows "if 4 \<le> card (frames_avail (heap_pmm h))
    then \<exists>h'. heap_init h = Ok h' \<and> heap_inv h' \<and> heap_live h' = {}
    else heap_init h = Fail (Panic ''heap_init: out of physical memory'')"
proof (cases "4 \<le> card (frames_avail (heap_pmm h))")
  case True
  then obtain h' where "heap_init h = Ok h'" "heap_rep h' [(16368, True)]"
    using heap_init_spec [OF assms] by blast
  then show ?thesis using True heap_live_rep by (fastforce simp: heap_inv_def)
next
  case False
  let ?h0 = "h\<lparr>g_heap_start := KHEAP_BASE, g_heap_end := KHEAP_BASE,
    g_heap_limit := KHEAP_BASE + KHEAP_MAX_SIZE, heap_lock_word := 0\<rparr>"
  have "heap_backed ?h0"
    using assms by (simp add: heap_backed_def heap_geometry_def heap_pages_def)
  then show ?thesis
    using init_pages_out_of_memory [of ?h0 4] False by (simp add: heap_init_def)
qed

theorem heap_init_establishes_witness:
  "\<exists>h'. heap_init raw_heap = Ok h' \<and> heap_inv h' \<and> heap_live h' = {}"
  using heap_init_establishes [OF raw_heap_pmm(1,3,4)] raw_heap_pmm(2) by simp

text \<open>
  C8: \<open>kmalloc\<close> is first fit with splitting: on a well-formed heap, for every request up to
  0xFFFFEFF0 bytes, it serves the first free block that is large enough, cutting off the rest when
  more than 32 bytes are left; if none is, it grows the last block by whole pages when the frames
  and the window allow it and serves the request there; otherwise it returns 0 and the list of
  blocks is as before.
\<close>

theorem kmalloc_first_fit:
  assumes "heap_rep h cs" and "serviceable bytes"
  shows "\<exists>p h' cs'. kmalloc bytes h = Ok (p, h') \<and> heap_rep h' cs' \<and>
    (if \<exists>c\<in>set cs. fits (wanted_size bytes) c then served (wanted_size bytes) cs p cs'
     else if can_grow (wanted_size bytes) h
     then served (wanted_size bytes) (grow_cells (pages_for (wanted_size bytes) * 4096) cs) p cs'
     else p = 0 \<and> cs' = cs)"
proof -
  have "bytes \<noteq> 0" "unat bytes \<le> 0xFFFFEFF0"
    using assms(2) by (auto simp: serviceable_def word_le_nat_alt)
  from kmalloc_spec [OF assms(1) this] show ?thesis
    by (elim exE conjE) (intro exI conjI, assumption+, simp split: if_splits)
qed

theorem kmalloc_first_fit_witness:
  "\<exists>p h' cs'. kmalloc 64 fresh_heap = Ok (p, h') \<and> heap_rep h' cs' \<and>
     served 64 [(16368, True)] p cs'"
proof -
  have "wanted_size 64 = 64" by (simp add: wanted_size_def)
  then show ?thesis
    using kmalloc_first_fit [OF fresh_heap(1), of 64] by (auto simp: serviceable_def fits_def)
qed

text \<open>
  C9: A block \<open>kmalloc\<close> hands out is new, 16-byte aligned and at least as large as asked; nothing
  else becomes live or stops being live, and no byte of memory changes. A return of 0 leaves the
  live blocks alone.
\<close>

theorem kmalloc_allocates:
  assumes "heap_inv h" and "serviceable bytes"
  shows "\<exists>p h'. kmalloc bytes h = Ok (p, h') \<and> heap_inv h' \<and> heap_mem h' = heap_mem h \<and>
    (p = 0 \<and> heap_live h' = heap_live h \<or>
     p \<noteq> 0 \<and> unat p mod 16 = 0 \<and>
       (\<exists>m \<ge> unat bytes. (unat p, m) \<notin> heap_live h \<and> heap_live h' = insert (unat p, m) (heap_live h)))"
  using kmalloc_live [of h bytes] assms by (simp add: serviceable_def word_le_nat_alt)

theorem kmalloc_allocates_witness:
  "\<exists>p h'. kmalloc 100 (snd one_block) = Ok (p, h') \<and> heap_inv h' \<and>
     heap_mem h' = heap_mem (snd one_block)"
  using kmalloc_allocates [OF one_block(4), of 100] by (auto simp: serviceable_def)

text \<open>
  C10: \<open>kfree\<close> on a live block succeeds, makes exactly that block no longer live, keeps the heap
  well formed (in particular coalesced: no two neighbours free) and changes no byte of memory.
\<close>

theorem kfree_releases:
  assumes "heap_inv h" and "(unat p, n) \<in> heap_live h"
  shows "\<exists>h'. kfree p h = Ok h' \<and> heap_inv h' \<and> heap_live h' = heap_live h - {(unat p, n)} \<and>
    heap_mem h' = heap_mem h"
  using kfree_live [OF assms] .

theorem kfree_releases_witness:
  "\<exists>h'. kfree 0x18000010 (snd one_block) = Ok h' \<and> heap_inv h' \<and> heap_live h' = {}"
  using kfree_releases [OF one_block(4), of "0x18000010" 64] by (auto simp: one_block(5))

text \<open>
  C11: Whatever a client has allocated and not yet released, by any sequence of calls of \<open>kmalloc\<close>
  and \<open>kfree\<close>, the blocks it holds do not overlap.
\<close>

theorem heap_blocks_never_overlap:
  assumes "heap_inv h0" and "block_owner kmalloc kfree serviceable h0 h B"
    and "(p, n) \<in> B" and "(q, m) \<in> B" and "p \<noteq> q"
  shows "unat p + unat n < unat q \<or> unat q + unat m < unat p"
  using heap.owner_disjoint [OF assms] .

theorem heap_blocks_never_overlap_witness:
  "\<exists>q h. kmalloc 32 (snd one_block) = Ok (q, h) \<and>
     (q = 0 \<or> q = 0x18000010 \<or> 0x18000010 + 64 < unat q \<or> unat q + 32 < 0x18000010)"
proof -
  obtain q h where q: "kmalloc 32 (snd one_block) = Ok (q, h)"
    using kmalloc_live [OF one_block(4), of 32] by auto
  have "kmalloc 64 fresh_heap = Ok (0x18000010, snd one_block)"
    using one_block(1,2) by (metis prod.collapse)
  then have "block_owner kmalloc kfree serviceable fresh_heap (snd one_block) {(0x18000010, 64)}"
    by (intro block_owner.take_ok [OF block_owner.start]) (simp_all add: serviceable_def)
  then have own: "block_owner kmalloc kfree serviceable fresh_heap h {(q, 32), (0x18000010, 64)}"
    if "q \<noteq> 0"
    using that by (intro block_owner.take_ok [where alloc = kmalloc, OF _ _ q]) (simp_all add: serviceable_def)
  show ?thesis
    using q heap_blocks_never_overlap [OF fresh_heap(2) own, of "0x18000010" 64 q 32] by auto
qed

text \<open>
  Allocation and release cancel: when a free block was large enough, releasing the block just
  allocated restores the list of blocks exactly, the split undone by the merge.
\<close>

theorem kmalloc_kfree_restores:
  assumes "heap_rep h cs" and "serviceable bytes" and "\<exists>c\<in>set cs. fits (wanted_size bytes) c"
  shows "\<exists>p h' h''. kmalloc bytes h = Ok (p, h') \<and> p \<noteq> 0 \<and> kfree p h' = Ok h'' \<and> heap_rep h'' cs"
proof -
  have "bytes \<noteq> 0" "unat bytes \<le> 0xFFFFEFF0"
    using assms(2) by (auto simp: serviceable_def word_le_nat_alt)
  from kmalloc_spec [OF assms(1) this] obtain p h' cs' where k: "kmalloc bytes h = Ok (p, h')"
      "heap_rep h' cs'" "served (wanted_size bytes) cs p cs'"
    using assms(3) by auto
  then show ?thesis
    using served_free [OF assms(1) k(3,2)] served_live(1) [OF k(3)] by blast
qed

theorem kmalloc_kfree_restores_witness:
  "\<exists>p h' h''. kmalloc 4096 (snd one_block) = Ok (p, h') \<and> p \<noteq> 0 \<and> kfree p h' = Ok h'' \<and>
     heap_rep h'' [(64, False), (16288, True)]"
  by (rule kmalloc_kfree_restores [OF one_block(3)])
    (simp_all add: serviceable_def fits_def wanted_size_def)

text \<open>
  \<open>krealloc\<close> to a size the block already has returns the same pointer and changes nothing. To a
  larger size it returns 0 and changes nothing that is live, or moves: the old block is released,
  the new one is live and large enough, it begins with the bytes of the old block, and the bytes
  of every other live block are as before.
\<close>

theorem krealloc_preserves:
  assumes "heap_inv h" and "(unat p, n) \<in> heap_live h" and "serviceable new"
  shows "\<exists>q h'. krealloc p new h = Ok (q, h') \<and> heap_inv h' \<and>
    (if unat new \<le> n then q = p \<and> h' = h
     else if q = 0 then heap_live h' = heap_live h \<and> heap_mem h' = heap_mem h
     else (\<exists>m \<ge> unat new. (unat q, m) \<notin> heap_live h \<and>
         heap_live h' = insert (unat q, m) (heap_live h - {(unat p, n)})) \<and>
       block_bytes (heap_mem h') (unat q) n = block_bytes (heap_mem h) (unat p) n \<and>
       (\<forall>(a, k) \<in> heap_live h - {(unat p, n)}.
          block_bytes (heap_mem h') a k = block_bytes (heap_mem h) a k))"
proof (cases "unat new \<le> n")
  case True
  then show ?thesis
    using krealloc_keeps [OF assms(1,2)] assms(1,3) by (simp add: serviceable_def)
next
  case False
  then obtain q h' where "krealloc p new h = Ok (q, h')" "heap_inv h'"
    and "q = 0 \<and> heap_live h' = heap_live h \<and> heap_mem h' = heap_mem h \<or>
     q \<noteq> 0 \<and> (\<exists>m \<ge> unat new. (unat q, m) \<notin> heap_live h \<and>
        heap_live h' = insert (unat q, m) (heap_live h - {(unat p, n)})) \<and>
      block_bytes (heap_mem h') (unat q) n = block_bytes (heap_mem h) (unat p) n \<and>
      (\<forall>(a, k) \<in> heap_live h - {(unat p, n)}.
         block_bytes (heap_mem h') a k = block_bytes (heap_mem h) a k)"
  proof -
    have "n < unat new" using False by simp
    note krealloc_moves [OF assms(1,2) this assms(3)]
    then show thesis by (elim exE conjE) (rule that; assumption)
  qed
  then show ?thesis using False by (intro exI [of _ q] exI [of _ h']) auto
qed

theorem krealloc_preserves_witness:
  "\<exists>q h'. krealloc 0x18000010 512 (snd one_block) = Ok (q, h') \<and> heap_inv h' \<and>
     (q \<noteq> 0 \<longrightarrow> block_bytes (heap_mem h') (unat q) 64 =
        block_bytes (heap_mem (snd one_block)) 0x18000010 64)"
  using krealloc_preserves [OF one_block(4), of "0x18000010" 64 512]
  by (auto simp: one_block(5) serviceable_def)

text \<open>
  \<open>heap_get_stats\<close> reports the live blocks: their number and their total size, exactly, and the
  free bytes; block headers, used and free bytes never exceed the total, and the heap is
  unchanged.
\<close>

theorem heap_get_stats_exact:
  assumes "heap_inv h"
  shows "\<exists>st. heap_get_stats h = Ok (st, h) \<and>
    unat (hs_used_blocks st) = card (heap_live h) \<and>
    unat (hs_used_bytes st) = (\<Sum>b\<in>heap_live h. snd b) \<and>
    unat (hs_used_bytes st) + unat (hs_free_bytes st) +
      16 * (unat (hs_used_blocks st) + unat (hs_free_blocks st)) \<le> unat (hs_total_bytes st)"
proof -
  obtain cs where rep: "heap_rep h cs" using assms by (auto simp: heap_inv_def)
  then have cells: "heap_cells h cs" and bound: "heap_base + span cs \<le> 419430400"
    and geo: "heap_base \<le> unat (g_heap_end h)"
    using heap_cells_bound by (auto simp: heap_rep_def heap_backed_def heap_geometry_def)
  have sz: "16 * length cs + sum_list (used_sizes cs) + sum_list (free_sizes cs) < 2 ^ 32"
    using bound by (simp add: span_sizes)
  have len: "length (used_sizes cs) + length (free_sizes cs) = length cs" by (rule length_sizes)
  have "unat (g_heap_end h - KHEAP_BASE) = unat (g_heap_end h) - heap_base"
    using geo by (subst unat_sub) (simp_all add: word_le_nat_alt)
  then have "span cs \<le> unat (g_heap_end h - KHEAP_BASE)"
    using cells by (auto simp: heap_cells_def)
  then show ?thesis
    unfolding heap_get_stats_cells [OF rep] heap_live_rep [OF rep] live_at_sums
    using sz len by (auto simp: unat_of_nat span_sizes)
qed

theorem heap_get_stats_exact_witness:
  "\<exists>st. heap_get_stats (snd one_block) = Ok (st, snd one_block) \<and> unat (hs_used_blocks st) = 1 \<and>
     unat (hs_used_bytes st) = 64"
  using heap_get_stats_exact [OF one_block(4)] by (auto simp: one_block(5))

text \<open>
  A request that fails has first taken every page it could: after \<open>kmalloc\<close> returns 0, either no
  frame is free or the heap has reached the end of its window, so no later request can grow the
  heap, however small, although the pages taken belong to no block.
\<close>

theorem kmalloc_failure_exhausts:
  assumes "heap_inv h" and "serviceable bytes" and "kmalloc bytes h = Ok (0, h')"
  shows "heap_live h' = heap_live h \<and>
    (frames_avail (heap_pmm h') = {} \<or> unat (g_heap_end h') = 419430400) \<and>
    \<not> can_grow (wanted_size b2) h'"
proof -
  obtain cs where rep: "heap_rep h cs" using assms(1) by (auto simp: heap_inv_def)
  have b: "bytes \<noteq> 0" "unat bytes \<le> 0xFFFFEFF0"
    using assms(2) by (auto simp: serviceable_def word_le_nat_alt)
  obtain cs' where k: "heap_rep h' cs'" "cs' = cs" "exhausted h'"
    using kmalloc_spec [OF rep b] assms(3) served_live(1) by (auto split: if_splits)
  have "heap_live h' = heap_live h"
    using heap_live_rep [OF rep] heap_live_rep [OF k(1)] k(2) by simp
  moreover have "0 < pages_for (wanted_size b2)" by (simp add: pages_for_def)
  then have "\<not> can_grow (wanted_size b2) h'"
    using k(3) by (auto simp: can_grow_def exhausted_def)
  ultimately show ?thesis using k(3) by (simp add: exhausted_def)
qed

theorem kmalloc_failure_exhausts_witness:
  "\<exists>h'. kmalloc 0x2000000 fresh_heap = Ok (0, h') \<and> \<not> can_grow (wanted_size 1) h'"
proof -
  have w: "wanted_size 0x2000000 = 0x2000000" by (simp add: wanted_size_def)
  have "\<not> (\<exists>c\<in>set [(16368, True)]. fits 0x2000000 c)" "\<not> can_grow 0x2000000 fresh_heap"
    using fresh_heap(1)
    by (auto simp: fits_def can_grow_def pages_for_def heap_rep_def heap_backed_def heap_geometry_def)
  then obtain h' where "kmalloc 0x2000000 fresh_heap = Ok (0, h')"
    using kmalloc_spec [OF fresh_heap(1), of "0x2000000"] unfolding w by auto
  then show ?thesis
    using kmalloc_failure_exhausts [OF fresh_heap(2), of "0x2000000" h' 1] by (auto simp: serviceable_def)
qed

text \<open>
  A request between 0xFFFFEFF1 and 0xFFFFFFF0 bytes never returns when the last block is free:
  the growth computed for it wraps to no page at all, is reported as a success, and the search is
  repeated for ever, with the heap locked and interrupts off.
\<close>

theorem kmalloc_near_limit_hangs:
  assumes "heap_rep h cs" and "snd (last cs)" and "bytes > 0xFFFFEFF0" and "bytes \<le> 0xFFFFFFF0"
  shows "kmalloc bytes h = Fail Hang"
  using kmalloc_stuck [OF assms] .

theorem kmalloc_near_limit_hangs_witness: "kmalloc 0xFFFFF000 fresh_heap = Fail Hang"
  by (rule kmalloc_near_limit_hangs [OF fresh_heap(1)]) simp_all

end
