(* ===== verification/Sched.thy ===== *)
theory Sched
  imports Heap_Laws Multiboot
begin

unbundle bit_operations_syntax

text \<open>
  The cooperative scheduler, \<open>kernel/sched/thread.c\<close>, with the context switch of
  \<open>kernel/sched/switch.S\<close>: a table of 32 threads, round-robin selection, creation with a stack taken
  from the kernel heap, yield and exit. The stacks live in the flat memory of the heap; the
  processor is its general registers that a switch saves. A thread never leaves the table: an
  exited thread stays a zombie and its stack is not released.
\<close>

section \<open>State\<close>

datatype thread_state = THREAD_RUNNABLE | THREAD_RUNNING | THREAD_ZOMBIE

record thread =
  th_esp :: u32
  th_stack_base :: u32
  th_stack_size :: u32
  th_state :: thread_state
  th_name :: "u8 list"
  th_tid :: int
  th_entry :: u32
  th_arg :: u32

abbreviation (input) "THREAD_MAX \<equiv> (32 :: int)"
abbreviation (input) "THREAD_STACK_SIZE \<equiv> (4096 :: u32)"

text \<open>The registers of the processor; \<open>eip\<close> is the instruction executed next.\<close>

record cpu =
  eip :: u32
  esp :: u32
  ebp :: u32
  ebx :: u32
  esi :: u32
  edi :: u32

record sched =
  threads :: "thread list"
  thread_count :: int
  current_tid :: int
  preempt_enabled :: int
  sc_heap :: heap
  sc_cpu :: cpu

definition thread_at :: "int \<Rightarrow> sched \<Rightarrow> thread" where
  "thread_at tid s = threads s ! nat tid"

definition put_thread :: "int \<Rightarrow> thread \<Rightarrow> sched \<Rightarrow> sched" where
  "put_thread tid t s = s\<lparr>threads := (threads s)[nat tid := t]\<rparr>"

definition set_state :: "int \<Rightarrow> thread_state \<Rightarrow> sched \<Rightarrow> sched" where
  "set_state tid st s = put_thread tid ((thread_at tid s)\<lparr>th_state := st\<rparr>) s"

section \<open>The context switch\<close>

definition st32 :: "u32 \<Rightarrow> u32 \<Rightarrow> mem \<Rightarrow> mem" where
  "st32 a v m = m(a := ucast v, a + 1 := ucast (drop_bit 8 v), a + 2 := ucast (drop_bit 16 v),
                  a + 3 := ucast (drop_bit 24 v))"

text \<open>\<open>push\<close>: the stack grows downwards.\<close>

definition push :: "u32 \<Rightarrow> u32 \<times> mem \<Rightarrow> u32 \<times> mem" where
  "push v = (\<lambda>(sp, m). (sp - 4, st32 (sp - 4) v m))"

text \<open>
  \<open>thread_switch(&old->esp, new_esp)\<close>, entered with \<open>esp\<close> at the return address: save the four
  callee-saved registers and the stack pointer, load the other stack pointer, restore, return.
\<close>

definition thread_switch :: "int \<Rightarrow> u32 \<Rightarrow> sched \<Rightarrow> sched" where
  "thread_switch old new_esp s =
     (let c = sc_cpu s;
          (sp, m) = push (edi c) (push (esi c) (push (ebx c) (push (ebp c) (esp c, heap_mem (sc_heap s)))));
          s = put_thread old ((thread_at old s)\<lparr>th_esp := sp\<rparr>) s
      in s\<lparr>sc_heap := (sc_heap s)\<lparr>heap_mem := m\<rparr>,
           sc_cpu := \<lparr>eip = ld32 m (new_esp + 16), esp = new_esp + 20, ebp = ld32 m (new_esp + 12),
                      ebx = ld32 m (new_esp + 8), esi = ld32 m (new_esp + 4), edi = ld32 m new_esp\<rparr>\<rparr>)"

section \<open>Operations\<close>

definition find_next_runnable :: "int \<Rightarrow> bool \<Rightarrow> sched \<Rightarrow> int" where
  "find_next_runnable from_tid allow_current s =
     (if thread_count s \<le> 0 then -1
      else case find (\<lambda>i. let tid = (from_tid + i) mod thread_count s
                          in \<not> (\<not> allow_current \<and> tid = from_tid) \<and>
                             th_state (thread_at tid s) = THREAD_RUNNABLE) [1 .. thread_count s] of
             None \<Rightarrow> -1
           | Some i \<Rightarrow> (from_tid + i) mod thread_count s)"

definition sched_init :: "sched \<Rightarrow> sched" where
  "sched_init s =
     put_thread 0 \<lparr>th_esp = 0, th_stack_base = 0, th_stack_size = 0, th_state = THREAD_RUNNING,
                   th_name = lit ''main'', th_tid = 0, th_entry = 0, th_arg = 0\<rparr>
       (s\<lparr>thread_count := 1, current_tid := 0, preempt_enabled := 0\<rparr>)"

text \<open>
  \<open>bootstrap\<close> is the address of \<open>thread_bootstrap\<close>; the null \<open>name\<close> is \<open>None\<close>. The stack size and the
  result of \<open>kmalloc\<close> are stored into the table entry before the check for 0.
\<close>

definition thread_create :: "u32 \<Rightarrow> u8 list option \<Rightarrow> u32 \<Rightarrow> u32 \<Rightarrow> sched \<Rightarrow> (int \<times> sched) res" where
  "thread_create bootstrap name entry arg s =
     (if entry = 0 then Ok (-1, s)
      else if thread_count s \<ge> THREAD_MAX then Ok (-1, s)
      else
        (let tid = thread_count s;
             s = put_thread tid ((thread_at tid s)\<lparr>th_stack_size := THREAD_STACK_SIZE\<rparr>) s
         in rbind (kmalloc THREAD_STACK_SIZE (sc_heap s)) (\<lambda>(base, h).
           let s = (put_thread tid ((thread_at tid s)\<lparr>th_stack_base := base\<rparr>) s)\<lparr>sc_heap := h\<rparr>
           in if base = 0 then Ok (-1, s)
              else
                (let (sp, m) = push 0 (push 0 (push 0 (push 0 (push bootstrap
                                 (base + THREAD_STACK_SIZE, heap_mem h)))));
                     t = (thread_at tid s)\<lparr>th_esp := sp, th_state := THREAD_RUNNABLE,
                           th_name := (case name of Some n \<Rightarrow> n | None \<Rightarrow> lit ''thread''),
                           th_tid := tid, th_entry := entry, th_arg := arg\<rparr>
                 in Ok (tid, (put_thread tid t s)\<lparr>sc_heap := h\<lparr>heap_mem := m\<rparr>,
                                                    thread_count := tid + 1\<rparr>)))))"

definition thread_yield :: "sched \<Rightarrow> sched" where
  "thread_yield s =
     (let prev_tid = current_tid s;
          next_tid = find_next_runnable prev_tid False s
      in if next_tid < 0 then s
         else
           (let s = (if th_state (thread_at prev_tid s) = THREAD_RUNNING
                     then set_state prev_tid THREAD_RUNNABLE s else s);
                s = (set_state next_tid THREAD_RUNNING s)\<lparr>current_tid := next_tid\<rparr>
            in thread_switch prev_tid (th_esp (thread_at next_tid s)) s))"

definition thread_exit :: "sched \<Rightarrow> sched res" where
  "thread_exit s =
     (let dead_tid = current_tid s;
          s = set_state dead_tid THREAD_ZOMBIE s;
          next_tid = find_next_runnable dead_tid False s
      in if next_tid < 0 then Fail (Panic ''thread_exit: no runnable thread left'')
         else
           (let s = (set_state next_tid THREAD_RUNNING s)\<lparr>current_tid := next_tid\<rparr>
            in Ok (thread_switch dead_tid (th_esp (thread_at next_tid s)) s)))"

text \<open>The call of a thread's entry through its pointer is the parameter \<open>call\<close>.\<close>

definition thread_bootstrap :: "(u32 \<Rightarrow> u32 \<Rightarrow> sched \<Rightarrow> sched res) \<Rightarrow> sched \<Rightarrow> sched res" where
  "thread_bootstrap call s =
     (let t = thread_at (current_tid s) s
      in rbind (call (th_entry t) (th_arg t) s) thread_exit)"

definition sched_set_preempt :: "int \<Rightarrow> sched \<Rightarrow> int \<times> sched" where
  "sched_set_preempt enabled s =
     (let v = (if enabled \<noteq> 0 then 1 else 0) in (v, s\<lparr>preempt_enabled := v\<rparr>))"

definition sched_is_preempt_enabled :: "sched \<Rightarrow> int" where
  "sched_is_preempt_enabled s = preempt_enabled s"

section \<open>The selection\<close>

definition state_of :: "sched \<Rightarrow> int \<Rightarrow> thread_state" where
  "state_of s tid = th_state (thread_at tid s)"

text \<open>How many places after \<open>frm\<close> the thread \<open>tid\<close> stands in the cyclic order.\<close>

definition dist :: "sched \<Rightarrow> int \<Rightarrow> int \<Rightarrow> int" where
  "dist s frm tid = (tid - frm) mod thread_count s"

lemma dist_bounds:
  "0 < thread_count s \<Longrightarrow> 0 \<le> dist s f t" "0 < thread_count s \<Longrightarrow> dist s f t < thread_count s"
  by (simp_all add: dist_def)

lemma dist_back:
  "0 \<le> t \<Longrightarrow> t < thread_count s \<Longrightarrow> (f + dist s f t) mod thread_count s = t"
  by (simp add: dist_def mod_add_right_eq)

lemma dist_zero:
  "0 \<le> t \<Longrightarrow> t < thread_count s \<Longrightarrow> 0 \<le> f \<Longrightarrow> f < thread_count s \<Longrightarrow> dist s f t = 0 \<longleftrightarrow> t = f"
  using dist_back [of t s f] by (auto simp: dist_def)

lemma find_next_none:
  assumes "0 \<le> frm" and "frm < thread_count s"
  shows "find_next_runnable frm False s < 0 \<longleftrightarrow>
    (\<forall>t. 0 \<le> t \<and> t < thread_count s \<and> t \<noteq> frm \<longrightarrow> state_of s t \<noteq> THREAD_RUNNABLE)"
proof -
  let ?n = "thread_count s"
  let ?P = "\<lambda>i. (frm + i) mod ?n \<noteq> frm \<and> state_of s ((frm + i) mod ?n) = THREAD_RUNNABLE"
  have n: "0 < ?n" using assms by simp
  have "find_next_runnable frm False s < 0 \<longleftrightarrow> find ?P [1 .. ?n] = None"
    using n by (auto simp: find_next_runnable_def state_of_def Let_def not_less split: option.splits)
  also have "\<dots> \<longleftrightarrow> (\<forall>i\<in>{1..?n}. \<not> ?P i)"
    by (auto simp: find_None_iff)
  also have "\<dots> \<longleftrightarrow> (\<forall>t. 0 \<le> t \<and> t < ?n \<and> t \<noteq> frm \<longrightarrow> state_of s t \<noteq> THREAD_RUNNABLE)"
  proof (intro iffI allI impI ballI)
    fix t assume none: "\<forall>i\<in>{1..?n}. \<not> ?P i" and t: "0 \<le> t \<and> t < ?n \<and> t \<noteq> frm"
    have "dist s frm t \<in> {1..?n}"
      using dist_bounds [OF n, of frm t] dist_zero [of t s frm] t assms by fastforce
    with none have "\<not> ?P (dist s frm t)" by blast
    then show "state_of s t \<noteq> THREAD_RUNNABLE" using dist_back [of t s frm] t by auto
  qed (use n in auto)
  finally show ?thesis .
qed

lemma find_next_some:
  assumes "0 \<le> frm" and "frm < thread_count s" and "find_next_runnable frm False s = t" and "0 \<le> t"
  shows "t < thread_count s" and "t \<noteq> frm" and "state_of s t = THREAD_RUNNABLE"
    and "\<And>u. 0 \<le> u \<Longrightarrow> u < thread_count s \<Longrightarrow> u \<noteq> frm \<Longrightarrow> state_of s u = THREAD_RUNNABLE \<Longrightarrow>
      dist s frm t \<le> dist s frm u"
proof -
  let ?n = "thread_count s"
  let ?P = "\<lambda>i. (frm + i) mod ?n \<noteq> frm \<and> state_of s ((frm + i) mod ?n) = THREAD_RUNNABLE"
  have n: "0 < ?n" using assms by simp
  obtain i where f: "find ?P [1 .. ?n] = Some i" and t: "t = (frm + i) mod ?n"
    using assms(3,4) n by (auto simp: find_next_runnable_def state_of_def Let_def split: option.splits)
  from f obtain k where k: "k < length [1 .. ?n]" "i = [1 .. ?n] ! k" "?P i"
      "\<forall>j<k. \<not> ?P ([1 .. ?n] ! j)"
    by (auto simp: find_Some_iff)
  have i: "i = 1 + int k" "int k < ?n" using k(1,2) n by (simp_all add: nth_upto)
  have first: "\<not> ?P j" if "1 \<le> j" "j < i" for j
  proof -
    have "nat (j - 1) < k" using that i by simp
    then show ?thesis using k(4) that i by (force simp: nth_upto)
  qed
  show "t < ?n" "t \<noteq> frm" "state_of s t = THREAD_RUNNABLE" using k(3) t n by auto
  have "i \<noteq> ?n" using k(3) assms by auto
  then have di: "dist s frm t = i"
    using i n t by (simp add: dist_def mod_diff_left_eq)
  show "dist s frm t \<le> dist s frm u"
    if "0 \<le> u" "u < ?n" "u \<noteq> frm" "state_of s u = THREAD_RUNNABLE" for u
  proof (rule ccontr)
    assume "\<not> ?thesis"
    moreover have "1 \<le> dist s frm u"
      using dist_bounds(1) [OF n, of frm u] dist_zero [of u s frm] that assms by fastforce
    ultimately have "\<not> ?P (dist s frm u)" using first di by auto
    then show False using dist_back [of u s frm] that by auto
  qed
qed

section \<open>The invariant\<close>

text \<open>The thread table is well formed: one thread is running, the current one.\<close>

definition sched_wf :: "sched \<Rightarrow> bool" where
  "sched_wf s \<longleftrightarrow> length (threads s) = 32 \<and> 1 \<le> thread_count s \<and> thread_count s \<le> 32 \<and>
     0 \<le> current_tid s \<and> current_tid s < thread_count s \<and>
     state_of s (current_tid s) = THREAD_RUNNING \<and>
     (\<forall>i. 0 \<le> i \<and> i < thread_count s \<longrightarrow> th_tid (thread_at i s) = i \<and>
        (state_of s i = THREAD_RUNNING \<longrightarrow> i = current_tid s))"

lemma put_thread_fields [simp]:
  "length (threads (put_thread i t s)) = length (threads s)"
  "thread_count (put_thread i t s) = thread_count s" "current_tid (put_thread i t s) = current_tid s"
  "preempt_enabled (put_thread i t s) = preempt_enabled s" "sc_heap (put_thread i t s) = sc_heap s"
  "sc_cpu (put_thread i t s) = sc_cpu s"
  by (simp_all add: put_thread_def)

lemma thread_at_put:
  "length (threads s) = 32 \<Longrightarrow> 0 \<le> i \<Longrightarrow> i < 32 \<Longrightarrow> 0 \<le> j \<Longrightarrow>
   thread_at j (put_thread i t s) = (if j = i then t else thread_at j s)"
  by (auto simp: thread_at_def put_thread_def nat_eq_iff)

lemma thread_at_updates [simp]:
  "thread_at j (s\<lparr>thread_count := n\<rparr>) = thread_at j s"
  "thread_at j (s\<lparr>current_tid := c\<rparr>) = thread_at j s"
  "thread_at j (s\<lparr>sc_heap := h\<rparr>) = thread_at j s"
  "thread_at j (s\<lparr>sc_cpu := r\<rparr>) = thread_at j s"
  "thread_at j (s\<lparr>preempt_enabled := v\<rparr>) = thread_at j s"
  by (simp_all add: thread_at_def)

lemma set_state_fields [simp]:
  "length (threads (set_state i st s)) = length (threads s)"
  "thread_count (set_state i st s) = thread_count s" "current_tid (set_state i st s) = current_tid s"
  "preempt_enabled (set_state i st s) = preempt_enabled s" "sc_heap (set_state i st s) = sc_heap s"
  by (simp_all add: set_state_def)

lemma state_of_set_state:
  "length (threads s) = 32 \<Longrightarrow> 0 \<le> i \<Longrightarrow> i < 32 \<Longrightarrow> 0 \<le> j \<Longrightarrow>
   state_of (set_state i st s) j = (if j = i then st else state_of s j)"
  by (simp add: state_of_def set_state_def thread_at_put)

lemma thread_at_set_state:
  "length (threads s) = 32 \<Longrightarrow> 0 \<le> i \<Longrightarrow> i < 32 \<Longrightarrow> 0 \<le> j \<Longrightarrow>
   thread_at j (set_state i st s) = (if j = i then (thread_at i s)\<lparr>th_state := st\<rparr> else thread_at j s)"
  by (simp add: set_state_def thread_at_put)

text \<open>A switch changes the saved stack pointer of the old thread, the registers and the stack.\<close>

lemma thread_switch_fields [simp]:
  "length (threads (thread_switch o1 e s)) = length (threads s)"
  "thread_count (thread_switch o1 e s) = thread_count s"
  "current_tid (thread_switch o1 e s) = current_tid s"
  "preempt_enabled (thread_switch o1 e s) = preempt_enabled s"
  by (simp_all add: thread_switch_def Let_def split: prod.split)

lemma thread_switch_heap: "\<exists>m. sc_heap (thread_switch o1 e s) = (sc_heap s)\<lparr>heap_mem := m\<rparr>"
  by (auto simp: thread_switch_def Let_def split: prod.split)

lemma thread_switch_thread:
  "length (threads s) = 32 \<Longrightarrow> 0 \<le> o1 \<Longrightarrow> o1 < 32 \<Longrightarrow> 0 \<le> j \<Longrightarrow>
   \<exists>sp. thread_at j (thread_switch o1 e s) = (if j = o1 then (thread_at o1 s)\<lparr>th_esp := sp\<rparr> else thread_at j s)"
  by (auto simp: thread_switch_def Let_def thread_at_put split: prod.split)

lemma thread_switch_state:
  assumes "length (threads s) = 32" "0 \<le> o1" "o1 < 32" "0 \<le> j"
  shows "state_of (thread_switch o1 e s) j = state_of s j"
    and "th_tid (thread_at j (thread_switch o1 e s)) = th_tid (thread_at j s)"
    and "th_stack_base (thread_at j (thread_switch o1 e s)) = th_stack_base (thread_at j s)"
  using thread_switch_thread [OF assms, of e] by (auto simp: state_of_def)

section \<open>What the operations do to the table\<close>

lemma sched_wfD:
  assumes "sched_wf s"
  shows "length (threads s) = 32" and "1 \<le> thread_count s" and "thread_count s \<le> 32"
    and "0 \<le> current_tid s" and "current_tid s < thread_count s"
    and "state_of s (current_tid s) = THREAD_RUNNING"
    and "\<And>i. 0 \<le> i \<Longrightarrow> i < thread_count s \<Longrightarrow> th_tid (thread_at i s) = i"
    and "\<And>i. 0 \<le> i \<Longrightarrow> i < thread_count s \<Longrightarrow> state_of s i = THREAD_RUNNING \<Longrightarrow> i = current_tid s"
  using assms by (auto simp: sched_wf_def)

text \<open>
  \<open>handed_over s t st s'\<close>: control went from the current thread, left in state \<open>st\<close>, to thread \<open>t\<close>.
\<close>

definition handed_over :: "sched \<Rightarrow> int \<Rightarrow> thread_state \<Rightarrow> sched \<Rightarrow> bool" where
  "handed_over s t st s' \<longleftrightarrow> current_tid s' = t \<and> thread_count s' = thread_count s \<and>
     preempt_enabled s' = preempt_enabled s \<and> length (threads s') = 32 \<and>
     (\<exists>m. sc_heap s' = (sc_heap s)\<lparr>heap_mem := m\<rparr>) \<and>
     (\<forall>j\<ge>0. state_of s' j = (if j = t then THREAD_RUNNING else if j = current_tid s then st
                            else state_of s j) \<and>
        th_tid (thread_at j s') = th_tid (thread_at j s) \<and>
        th_stack_base (thread_at j s') = th_stack_base (thread_at j s))"

lemma handed_over_wf:
  assumes "sched_wf s" and "handed_over s t st s'" and "0 \<le> t" and "t < thread_count s"
    and "st \<noteq> THREAD_RUNNING"
  shows "sched_wf s'"
proof -
  note wf = sched_wfD [OF assms(1)]
  have f: "current_tid s' = t" "thread_count s' = thread_count s" "length (threads s') = 32"
    and st: "\<And>j. 0 \<le> j \<Longrightarrow> state_of s' j = (if j = t then THREAD_RUNNING
      else if j = current_tid s then st else state_of s j)"
    and tid: "\<And>j. 0 \<le> j \<Longrightarrow> th_tid (thread_at j s') = th_tid (thread_at j s)"
    using assms(2) [unfolded handed_over_def] by blast+
  have "th_tid (thread_at i s') = i \<and> (state_of s' i = THREAD_RUNNING \<longrightarrow> i = t)"
    if "0 \<le> i" "i < thread_count s" for i
  proof -
    have "i = current_tid s \<or> state_of s i \<noteq> THREAD_RUNNING" using wf(8) [OF that] by blast
    then show ?thesis
      unfolding st [OF that(1)] tid [OF that(1)] wf(7) [OF that] using assms(5) by auto
  qed
  moreover have "state_of s' t = THREAD_RUNNING" using st [OF assms(3)] by simp
  ultimately show ?thesis
    unfolding sched_wf_def f using wf(2,3) assms(3,4) by blast
qed

lemma switch_handed_over:
  assumes "sched_wf s" and "0 \<le> t" and "t < thread_count s" and "t \<noteq> current_tid s"
  shows "handed_over s t st (thread_switch (current_tid s) e
    ((set_state t THREAD_RUNNING (set_state (current_tid s) st s))\<lparr>current_tid := t\<rparr>))"
proof -
  note wf = sched_wfD [OF assms(1)]
  let ?a = "set_state (current_tid s) st s"
  let ?b = "(set_state t THREAD_RUNNING ?a)\<lparr>current_tid := t\<rparr>"
  have len: "length (threads ?a) = 32" "length (threads ?b) = 32" using wf(1) by simp_all
  have c: "0 \<le> current_tid s" "current_tid s < 32" "t < 32" using wf(3-5) assms(3) by auto
  obtain m where m: "sc_heap (thread_switch (current_tid s) e ?b) = (sc_heap ?b)\<lparr>heap_mem := m\<rparr>"
    using thread_switch_heap by blast
  have st: "state_of ?b j = (if j = t then THREAD_RUNNING else if j = current_tid s then st
      else state_of s j)" if "0 \<le> j" for j
  proof -
    have "state_of ?b j = state_of (set_state t THREAD_RUNNING ?a) j" by (simp add: state_of_def)
    then show ?thesis
      unfolding state_of_set_state [OF len(1) assms(2) c(3) that]
        state_of_set_state [OF wf(1) c(1,2) that] .
  qed
  have rest: "th_tid (thread_at j ?b) = th_tid (thread_at j s) \<and>
      th_stack_base (thread_at j ?b) = th_stack_base (thread_at j s)" if "0 \<le> j" for j
    unfolding thread_at_updates thread_at_set_state [OF len(1) assms(2) c(3) that]
      thread_at_set_state [OF wf(1) c(1,2) that] thread_at_set_state [OF wf(1) c(1,2) assms(2)]
    by simp
  show ?thesis
    unfolding handed_over_def thread_switch_fields
  proof (intro conjI allI impI)
    fix j :: int assume j: "0 \<le> j"
    note sw = thread_switch_state [OF len(2) c(1,2) j, of e]
    show "state_of (thread_switch (current_tid s) e ?b) j = (if j = t then THREAD_RUNNING
        else if j = current_tid s then st else state_of s j)"
      unfolding sw(1) by (rule st [OF j])
    show "th_tid (thread_at j (thread_switch (current_tid s) e ?b)) = th_tid (thread_at j s)"
      "th_stack_base (thread_at j (thread_switch (current_tid s) e ?b)) = th_stack_base (thread_at j s)"
      unfolding sw(2,3) using rest [OF j] by blast+
  next
    show "\<exists>m. sc_heap (thread_switch (current_tid s) e ?b) = (sc_heap s)\<lparr>heap_mem := m\<rparr>"
      using m by auto
  qed (use len(2) in simp_all)
qed

lemma thread_yield_spec:
  assumes "sched_wf s"
  defines "t \<equiv> find_next_runnable (current_tid s) False s"
  shows "if t < 0 then thread_yield s = s else handed_over s t THREAD_RUNNABLE (thread_yield s)"
proof (cases "t < 0")
  case True
  then show ?thesis by (simp add: thread_yield_def t_def)
next
  case False
  note wf = sched_wfD [OF assms(1)]
  have t: "t < thread_count s" "t \<noteq> current_tid s" "0 \<le> t"
    using find_next_some(1,2) [OF wf(4,5) refl, folded t_def] False by auto
  obtain e where "thread_yield s = thread_switch (current_tid s) e
      ((set_state t THREAD_RUNNING (set_state (current_tid s) THREAD_RUNNABLE s))\<lparr>current_tid := t\<rparr>)"
    using False wf(6) by (simp add: thread_yield_def t_def [symmetric] Let_def state_of_def)
  then show ?thesis using switch_handed_over [OF assms(1) t(3,1,2)] False by simp
qed

lemma find_next_zombie:
  assumes "sched_wf s"
  shows "find_next_runnable (current_tid s) False (set_state (current_tid s) THREAD_ZOMBIE s) =
    find_next_runnable (current_tid s) False s"
proof -
  note wf = sched_wfD [OF assms]
  have "find (\<lambda>i. let tid = (current_tid s + i) mod thread_count s
        in \<not> (\<not> False \<and> tid = current_tid s) \<and>
           th_state (thread_at tid (set_state (current_tid s) THREAD_ZOMBIE s)) = THREAD_RUNNABLE)
      [1 .. thread_count s] =
    find (\<lambda>i. let tid = (current_tid s + i) mod thread_count s
        in \<not> (\<not> False \<and> tid = current_tid s) \<and> th_state (thread_at tid s) = THREAD_RUNNABLE)
      [1 .. thread_count s]"
  proof (intro find_cong refl)
    fix i
    have "0 \<le> (current_tid s + i) mod thread_count s" using wf(2) by simp
    moreover have "current_tid s < 32" using wf(3,5) by simp
    ultimately show "(let tid = (current_tid s + i) mod thread_count s
        in \<not> (\<not> False \<and> tid = current_tid s) \<and>
           th_state (thread_at tid (set_state (current_tid s) THREAD_ZOMBIE s)) = THREAD_RUNNABLE) =
      (let tid = (current_tid s + i) mod thread_count s
        in \<not> (\<not> False \<and> tid = current_tid s) \<and> th_state (thread_at tid s) = THREAD_RUNNABLE)"
      by (simp add: Let_def thread_at_set_state [OF wf(1,4)])
  qed
  then show ?thesis unfolding find_next_runnable_def set_state_fields by simp
qed

lemma thread_exit_spec:
  assumes "sched_wf s"
  defines "t \<equiv> find_next_runnable (current_tid s) False s"
  shows "if t < 0 then thread_exit s = Fail (Panic ''thread_exit: no runnable thread left'')
    else \<exists>s'. thread_exit s = Ok s' \<and> handed_over s t THREAD_ZOMBIE s'"
proof (cases "t < 0")
  case True
  then show ?thesis using find_next_zombie [OF assms(1)] by (simp add: thread_exit_def t_def Let_def)
next
  case False
  note wf = sched_wfD [OF assms(1)]
  have t: "t < thread_count s" "t \<noteq> current_tid s" "0 \<le> t"
    using find_next_some(1,2) [OF wf(4,5) refl, folded t_def] False by auto
  obtain e where "thread_exit s = Ok (thread_switch (current_tid s) e
      ((set_state t THREAD_RUNNING (set_state (current_tid s) THREAD_ZOMBIE s))\<lparr>current_tid := t\<rparr>))"
    using False find_next_zombie [OF assms(1)] by (simp add: thread_exit_def t_def [symmetric] Let_def)
  then show ?thesis using switch_handed_over [OF assms(1) t(3,1,2)] False by auto
qed

lemma sched_init_wf:
  "length (threads s) = 32 \<Longrightarrow> sched_wf (sched_init s)"
  by (auto simp: sched_wf_def sched_init_def thread_at_put state_of_def)

section \<open>Creation\<close>

text \<open>The stacks of the threads created so far are live blocks of the heap, one each.\<close>

definition stacks_ok :: "sched \<Rightarrow> bool" where
  "stacks_ok s \<longleftrightarrow> heap_inv (sc_heap s) \<and>
     (\<forall>i. 1 \<le> i \<and> i < thread_count s \<longrightarrow>
        (\<exists>m \<ge> 4096. (unat (th_stack_base (thread_at i s)), m) \<in> heap_live (sc_heap s))) \<and>
     inj_on (\<lambda>i. th_stack_base (thread_at i s)) {1..<thread_count s}"

lemma stacks_ok_cong:
  assumes "thread_count s' = thread_count s" and "heap_inv (sc_heap s')"
    and "\<And>i. 1 \<le> i \<Longrightarrow> i < thread_count s \<Longrightarrow> th_stack_base (thread_at i s') = th_stack_base (thread_at i s)"
    and "\<And>i m. 1 \<le> i \<Longrightarrow> i < thread_count s \<Longrightarrow>
      (unat (th_stack_base (thread_at i s)), m) \<in> heap_live (sc_heap s) \<Longrightarrow>
      (unat (th_stack_base (thread_at i s)), m) \<in> heap_live (sc_heap s')"
    and "stacks_ok s"
  shows "stacks_ok s'"
proof -
  have "inj_on (\<lambda>i. th_stack_base (thread_at i s')) {1..<thread_count s}"
    using assms(5) assms(3) by (simp add: stacks_ok_def inj_on_def)
  moreover have "\<exists>m \<ge> 4096. (unat (th_stack_base (thread_at i s')), m) \<in> heap_live (sc_heap s')"
    if "1 \<le> i" "i < thread_count s" for i
  proof -
    have "\<exists>m \<ge> 4096. (unat (th_stack_base (thread_at i s)), m) \<in> heap_live (sc_heap s)"
      using assms(5) that by (simp add: stacks_ok_def)
    then show ?thesis using assms(4) [OF that] assms(3) [OF that] by auto
  qed
  ultimately show ?thesis using assms(1,2) by (simp add: stacks_ok_def)
qed

lemma handed_over_stacks:
  assumes "handed_over s t st s'" and "stacks_ok s"
  shows "stacks_ok s'"
proof -
  obtain m where m: "sc_heap s' = (sc_heap s)\<lparr>heap_mem := m\<rparr>" using assms(1) by (auto simp: handed_over_def)
  show ?thesis
    using assms(1) by (intro stacks_ok_cong [OF _ _ _ _ assms(2)])
      (use assms(2) in \<open>auto simp: handed_over_def stacks_ok_def m heap_inv_mem\<close>)
qed

text \<open>What a creation that succeeds leaves: the new entry, everything else as before.\<close>

definition created :: "u32 \<Rightarrow> u32 \<Rightarrow> sched \<Rightarrow> sched \<Rightarrow> bool" where
  "created entry arg s s' \<longleftrightarrow>
     (let n = thread_count s; t = thread_at n s'
      in thread_count s' = n + 1 \<and> current_tid s' = current_tid s \<and> length (threads s') = 32 \<and>
         (\<forall>j. 0 \<le> j \<and> j < n \<longrightarrow> thread_at j s' = thread_at j s) \<and>
         th_state t = THREAD_RUNNABLE \<and> th_tid t = n \<and> th_entry t = entry \<and> th_arg t = arg \<and>
         th_stack_base t \<noteq> 0 \<and> th_esp t = th_stack_base t + (4096 - 20))"

lemma thread_create_spec:
  assumes "length (threads s) = 32" and "1 \<le> thread_count s" and "heap_inv (sc_heap s)"
  shows "\<exists>r s'. thread_create bootstrap name entry arg s = Ok (r, s') \<and> heap_inv (sc_heap s') \<and>
    (r = -1 \<and> thread_count s' = thread_count s \<and> current_tid s' = current_tid s \<and>
       length (threads s') = 32 \<and> heap_live (sc_heap s') = heap_live (sc_heap s) \<and>
       (\<forall>j. 0 \<le> j \<and> j < thread_count s \<longrightarrow> thread_at j s' = thread_at j s) \<or>
     r = thread_count s \<and> entry \<noteq> 0 \<and> thread_count s < 32 \<and> created entry arg s s' \<and>
       (\<exists>m \<ge> 4096. (unat (th_stack_base (thread_at r s')), m) \<notin> heap_live (sc_heap s) \<and>
          heap_live (sc_heap s') = insert (unat (th_stack_base (thread_at r s')), m) (heap_live (sc_heap s))))"
proof (cases "entry = 0 \<or> thread_count s \<ge> 32")
  case True
  then show ?thesis using assms(1,3) by (auto simp: thread_create_def)
next
  case False
  let ?n = "thread_count s"
  have n: "0 \<le> ?n" "?n < 32" using assms(2) False by simp_all
  obtain base h where k: "kmalloc 4096 (sc_heap s) = Ok (base, h)"
    and law: "heap_inv h" "base = 0 \<and> heap_live h = heap_live (sc_heap s) \<or>
      base \<noteq> 0 \<and> (\<exists>m \<ge> unat (4096 :: u32). (unat base, m) \<notin> heap_live (sc_heap s) \<and>
        heap_live h = insert (unat base, m) (heap_live (sc_heap s)))"
    using heap.alloc_law [OF assms(3), of 4096] by (auto simp: serviceable_def)
  let ?s1 = "put_thread ?n ((thread_at ?n s)\<lparr>th_stack_size := 4096\<rparr>) s"
  let ?s2 = "(put_thread ?n ((thread_at ?n ?s1)\<lparr>th_stack_base := base\<rparr>) ?s1)\<lparr>sc_heap := h\<rparr>"
  have at2: "thread_at j ?s2 = (if j = ?n then (thread_at ?n s)\<lparr>th_stack_size := 4096, th_stack_base := base\<rparr>
      else thread_at j s)" if "0 \<le> j" for j
    using assms(1) n that by (simp add: thread_at_put)
  show ?thesis
  proof (cases "base = 0")
    case True
    then have "thread_create bootstrap name entry arg s = Ok (-1, ?s2)"
      using False k by (simp add: thread_create_def Let_def)
    then show ?thesis using True law assms(1) at2 by (intro exI [of _ "-1"] exI [of _ ?s2]) simp
  next
    case base: False
    let ?p = "push 0 (push 0 (push 0 (push 0 (push bootstrap (base + 4096, heap_mem h)))))"
    let ?t = "(thread_at ?n ?s2)\<lparr>th_esp := fst ?p, th_state := THREAD_RUNNABLE,
        th_name := (case name of Some n \<Rightarrow> n | None \<Rightarrow> lit ''thread''),
        th_tid := ?n, th_entry := entry, th_arg := arg\<rparr>"
    let ?s3 = "(put_thread ?n ?t ?s2)\<lparr>sc_heap := h\<lparr>heap_mem := snd ?p\<rparr>, thread_count := ?n + 1\<rparr>"
    have create: "thread_create bootstrap name entry arg s = Ok (?n, ?s3)"
      using False k base by (simp add: thread_create_def Let_def split: prod.split)
    have len2: "length (threads ?s2) = 32" using assms(1) by simp
    have at3: "thread_at j ?s3 = (if j = ?n then ?t else thread_at j s)" if "0 \<le> j" for j
      using thread_at_put [OF len2 n that, of ?t] at2 [OF that] by simp
    have new: "thread_at ?n ?s3 = ?t" using at3 [OF n(1)] by simp
    have "created entry arg s ?s3"
      unfolding created_def Let_def new
      using at3 at2 [OF n(1)] base assms(1) by (auto simp: push_def)
    moreover have "th_stack_base (thread_at ?n ?s3) = base" using new at2 [OF n(1)] by simp
    moreover have "\<exists>m \<ge> 4096. (unat base, m) \<notin> heap_live (sc_heap s) \<and>
        heap_live h = insert (unat base, m) (heap_live (sc_heap s))"
      using law(2) base by simp
    ultimately show ?thesis
      using create law(1) False
      by (intro exI [of _ ?n] exI [of _ ?s3]) (simp add: heap_inv_mem)
  qed
qed

section \<open>Runs of the scheduler\<close>

text \<open>
  The steps of the system as the scheduler sees them: its own operations by the running thread,
  and allocations and releases of other memory by anyone.
\<close>

inductive sched_step :: "sched \<Rightarrow> sched \<Rightarrow> bool" where
  yields: "sched_step s (thread_yield s)"
| exits: "thread_exit s = Ok s' \<Longrightarrow> sched_step s s'"
| creates: "thread_create b name entry arg s = Ok (r, s') \<Longrightarrow> sched_step s s'"
| preempts: "sched_step s (snd (sched_set_preempt v s))"
| allocates: "serviceable n \<Longrightarrow> kmalloc n (sc_heap s) = Ok (p, h) \<Longrightarrow> sched_step s (s\<lparr>sc_heap := h\<rparr>)"
| releases: "(unat p, m) \<in> heap_live (sc_heap s) \<Longrightarrow>
    (\<forall>i. 1 \<le> i \<and> i < thread_count s \<longrightarrow> p \<noteq> th_stack_base (thread_at i s)) \<Longrightarrow>
    kfree p (sc_heap s) = Ok h \<Longrightarrow> sched_step s (s\<lparr>sc_heap := h\<rparr>)"

inductive sched_run :: "sched \<Rightarrow> sched \<Rightarrow> bool" for s0 where
  start: "sched_run s0 s0"
| step: "sched_run s0 s \<Longrightarrow> sched_step s s' \<Longrightarrow> sched_run s0 s'"

definition sched_ok :: "sched \<Rightarrow> bool" where
  "sched_ok s \<longleftrightarrow> sched_wf s \<and> stacks_ok s"

lemma sched_wf_heap: "sched_wf (s\<lparr>sc_heap := h\<rparr>) = sched_wf s"
  by (simp add: sched_wf_def state_of_def)

lemma created_wf:
  assumes "sched_wf s" and "thread_count s < 32" and "created entry arg s s'"
  shows "sched_wf s'"
proof -
  note wf = sched_wfD [OF assms(1)]
  have c: "thread_count s' = thread_count s + 1" "current_tid s' = current_tid s" "length (threads s') = 32"
    "th_state (thread_at (thread_count s) s') = THREAD_RUNNABLE"
    "th_tid (thread_at (thread_count s) s') = thread_count s"
    and old: "\<And>j. 0 \<le> j \<Longrightarrow> j < thread_count s \<Longrightarrow> thread_at j s' = thread_at j s"
    using assms(3) unfolding created_def Let_def by blast+
  have "th_tid (thread_at i s') = i \<and> (state_of s' i = THREAD_RUNNING \<longrightarrow> i = current_tid s)"
    if "0 \<le> i" "i < thread_count s + 1" for i
  proof (cases "i = thread_count s")
    case True
    then show ?thesis using c(4,5) by (simp add: state_of_def)
  next
    case False
    then have i: "i < thread_count s" using that by simp
    have "state_of s i = THREAD_RUNNING \<longrightarrow> i = current_tid s" using wf(8) [OF that(1) i] by blast
    then show ?thesis
      using wf(7) [OF that(1) i] unfolding state_of_def old [OF that(1) i] by blast
  qed
  moreover have "state_of s' (current_tid s) = THREAD_RUNNING"
    using wf(6) unfolding state_of_def old [OF wf(4,5)] .
  moreover have "1 \<le> thread_count s + 1" "thread_count s + 1 \<le> 32" "current_tid s < thread_count s + 1"
    using wf(2,5) assms(2) by simp_all
  ultimately show ?thesis
    unfolding sched_wf_def c(1-3) using wf(4) by blast
qed

lemma created_stacks:
  assumes "stacks_ok s" and "1 \<le> thread_count s" and "heap_inv (sc_heap s')"
    and "created entry arg s s'" and "4096 \<le> m"
    and "(unat (th_stack_base (thread_at (thread_count s) s')), m) \<notin> heap_live (sc_heap s)"
    and "heap_live (sc_heap s') =
      insert (unat (th_stack_base (thread_at (thread_count s) s')), m) (heap_live (sc_heap s))"
  shows "stacks_ok s'"
proof -
  let ?n = "thread_count s" and ?base = "\<lambda>i. th_stack_base (thread_at i s')"
  have c: "thread_count s' = ?n + 1"
    and old: "\<And>j. 0 \<le> j \<Longrightarrow> j < ?n \<Longrightarrow> thread_at j s' = thread_at j s"
    using assms(4) unfolding created_def Let_def by blast+
  have live: "\<exists>k \<ge> 4096. (unat (?base i), k) \<in> heap_live (sc_heap s)" if "1 \<le> i" "i < ?n" for i
    using assms(1) that old [of i] by (simp add: stacks_ok_def)
  have fresh: "?base i \<noteq> ?base ?n" if i: "1 \<le> i" "i < ?n" for i
  proof
    assume eq: "?base i = ?base ?n"
    obtain k where k: "(unat (?base i), k) \<in> heap_live (sc_heap s)" using live [OF i] by blast
    then have "(unat (?base ?n), k) \<in> heap_live (sc_heap s')" "(unat (?base ?n), m) \<in> heap_live (sc_heap s')"
      using assms(7) eq by auto
    then have "k = m" using heap.live_size_unique [OF assms(3)] by blast
    then show False using k eq assms(6) by simp
  qed
  have "inj_on ?base {1..<?n}"
    using assms(1) old by (simp add: stacks_ok_def inj_on_def)
  moreover have "{1..<?n + 1} = insert ?n {1..<?n}" using assms(2) by auto
  moreover have "?base ?n \<notin> ?base ` ({1..<?n} - {?n})"
  proof
    assume "?base ?n \<in> ?base ` ({1..<?n} - {?n})"
    then obtain i where "?base ?n = ?base i" "i \<in> {1..<?n}" by blast
    then show False using fresh [of i] by simp
  qed
  ultimately have inj: "inj_on ?base {1..<?n + 1}"
    by (simp only: inj_on_insert) simp
  have "\<exists>k \<ge> 4096. (unat (?base i), k) \<in> heap_live (sc_heap s')" if "1 \<le> i" "i < ?n + 1" for i
  proof (cases "i = ?n")
    case True
    then show ?thesis using assms(5,7) by auto
  next
    case False
    then show ?thesis using live [of i] that assms(7) by auto
  qed
  then show ?thesis using inj assms(3) by (simp add: stacks_ok_def c)
qed

lemma sched_step_ok: "sched_step s s' \<Longrightarrow> sched_ok s \<Longrightarrow> sched_ok s'"
proof (induction rule: sched_step.induct)
  case (yields s)
  then have wf: "sched_wf s" and st: "stacks_ok s" by (simp_all add: sched_ok_def)
  let ?t = "find_next_runnable (current_tid s) False s"
  show ?case
  proof (cases "?t < 0")
    case True
    then show ?thesis using yields thread_yield_spec [OF wf] by simp
  next
    case False
    then have h: "handed_over s ?t THREAD_RUNNABLE (thread_yield s)" using thread_yield_spec [OF wf] by simp
    have "?t < thread_count s"
      using find_next_some(1) [OF sched_wfD(4,5) [OF wf] refl] False by simp
    then show ?thesis
      using handed_over_wf [OF wf h] handed_over_stacks [OF h st] False by (simp add: sched_ok_def)
  qed
next
  case (exits s s')
  then have wf: "sched_wf s" and st: "stacks_ok s" by (simp_all add: sched_ok_def)
  let ?t = "find_next_runnable (current_tid s) False s"
  have t: "0 \<le> ?t" and h: "handed_over s ?t THREAD_ZOMBIE s'"
    using thread_exit_spec [OF wf] exits(1) by (auto split: if_splits)
  have "?t < thread_count s"
    using find_next_some(1) [OF sched_wfD(4,5) [OF wf] refl] t by simp
  then show ?case
    using handed_over_wf [OF wf h] handed_over_stacks [OF h st] t by (simp add: sched_ok_def)
next
  case (creates b name entry arg s r s')
  then have wf: "sched_wf s" and st: "stacks_ok s" and inv: "heap_inv (sc_heap s)"
    by (simp_all add: sched_ok_def stacks_ok_def)
  note wfd = sched_wfD [OF wf]
  have inv': "heap_inv (sc_heap s')"
    using thread_create_spec [OF wfd(1,2) inv, of b name entry arg] creates(1) by auto
  consider "thread_count s' = thread_count s" "current_tid s' = current_tid s" "length (threads s') = 32"
      "heap_live (sc_heap s') = heap_live (sc_heap s)"
      "\<forall>j. 0 \<le> j \<and> j < thread_count s \<longrightarrow> thread_at j s' = thread_at j s"
    | m where "thread_count s < 32" "created entry arg s s'" "4096 \<le> m"
      "(unat (th_stack_base (thread_at (thread_count s) s')), m) \<notin> heap_live (sc_heap s)"
      "heap_live (sc_heap s') =
        insert (unat (th_stack_base (thread_at (thread_count s) s')), m) (heap_live (sc_heap s))"
    using thread_create_spec [OF wfd(1,2) inv, of b name entry arg] creates(1)
    by (elim exE conjE disjE) auto
  then show ?case
  proof cases
    case 1
    have "sched_wf s'"
      unfolding sched_wf_def 1(1-3) state_of_def
      using wf 1(5) by (auto simp: sched_wf_def state_of_def)
    moreover have "stacks_ok s'"
      using 1 inv' by (intro stacks_ok_cong [OF _ _ _ _ st]) auto
    ultimately show ?thesis by (simp add: sched_ok_def)
  next
    case 2
    then show ?thesis
      using created_wf [OF wf 2(1,2)] created_stacks [OF st wfd(2) inv' 2(2-5)] by (simp add: sched_ok_def)
  qed
next
  case (preempts s v)
  then show ?case
    by (simp add: sched_ok_def sched_set_preempt_def Let_def sched_wf_def stacks_ok_def state_of_def)
next
  case (allocates n s p h)
  then have inv: "heap_inv (sc_heap s)" by (simp add: sched_ok_def stacks_ok_def)
  note law = heap.alloc_Ok [OF inv allocates(1,2)]
  have sub: "heap_live (sc_heap s) \<subseteq> heap_live h" using law(2,3) by (cases "p = 0") auto
  have "stacks_ok (s\<lparr>sc_heap := h\<rparr>)"
  proof (rule stacks_ok_cong [where s = s])
    show "stacks_ok s" using allocates(3) by (simp add: sched_ok_def)
  qed (use law(1) sub in \<open>simp_all add: subsetD\<close>)
  then show ?case using allocates(3) by (simp add: sched_ok_def sched_wf_heap)
next
  case (releases p m s h)
  then have inv: "heap_inv (sc_heap s)" by (simp add: sched_ok_def stacks_ok_def)
  have law: "heap_inv h" "heap_live h = heap_live (sc_heap s) - {(unat p, m)}"
    using heap.release_law [OF inv releases(1)] releases(3) by auto
  have "stacks_ok (s\<lparr>sc_heap := h\<rparr>)"
  proof (rule stacks_ok_cong [where s = s])
    show "stacks_ok s" using releases(4) by (simp add: sched_ok_def)
    fix i k assume i: "1 \<le> i" "i < thread_count s"
      and k: "(unat (th_stack_base (thread_at i s)), k) \<in> heap_live (sc_heap s)"
    have "unat (th_stack_base (thread_at i s)) \<noteq> unat p"
      using releases(2) i by (auto simp: word_unat_eq_iff)
    then show "(unat (th_stack_base (thread_at i s)), k) \<in> heap_live (sc_heap (s\<lparr>sc_heap := h\<rparr>))"
      using k law(2) by simp
  qed (use law(1) in simp_all)
  then show ?case using releases(4) by (simp add: sched_ok_def sched_wf_heap)
qed

lemma sched_run_ok: "sched_run s0 s \<Longrightarrow> sched_ok s0 \<Longrightarrow> sched_ok s"
  by (induction rule: sched_run.induct) (auto intro: sched_step_ok)

section \<open>Exited threads\<close>

lemma handed_over_zombie:
  assumes "handed_over s t st s'" and "0 \<le> i" and "state_of s i = THREAD_ZOMBIE" and "i \<noteq> t"
    and "i \<noteq> current_tid s"
  shows "state_of s' i = THREAD_ZOMBIE"
  using assms unfolding handed_over_def by auto

lemma sched_step_zombie:
  assumes "sched_step s s'" and "sched_ok s" and "0 \<le> i" and "i < thread_count s"
    and "state_of s i = THREAD_ZOMBIE"
  shows "state_of s' i = THREAD_ZOMBIE" and "i < thread_count s'"
proof -
  have wf: "sched_wf s" and inv: "heap_inv (sc_heap s)" using assms(2) by (simp_all add: sched_ok_def stacks_ok_def)
  note wfd = sched_wfD [OF wf]
  let ?t = "find_next_runnable (current_tid s) False s"
  have cur: "i \<noteq> current_tid s" using wfd(6) assms(5) by auto
  have next_ne: "i \<noteq> ?t" if "\<not> ?t < 0"
    using find_next_some(3) [OF wfd(4,5) refl] that assms(5) by auto
  have "state_of s' i = THREAD_ZOMBIE \<and> i < thread_count s'"
    using assms(1)
  proof cases
    case yields
    show ?thesis
    proof (cases "?t < 0")
      case True
      then show ?thesis using yields thread_yield_spec [OF wf] assms(4,5) by simp
    next
      case False
      then have h: "handed_over s ?t THREAD_RUNNABLE s'" using yields thread_yield_spec [OF wf] by simp
      then have "thread_count s' = thread_count s" by (simp add: handed_over_def)
      then show ?thesis
        using handed_over_zombie [OF h assms(3,5) next_ne [OF False] cur] assms(4) by simp
    qed
  next
    case exits
    then have t: "\<not> ?t < 0" and h: "handed_over s ?t THREAD_ZOMBIE s'"
      using thread_exit_spec [OF wf] by (auto split: if_splits)
    then have "thread_count s' = thread_count s" by (simp add: handed_over_def)
    then show ?thesis
      using handed_over_zombie [OF h assms(3,5) next_ne [OF t] cur] assms(4) by simp
  next
    case (creates b name entry arg r)
    have "thread_at i s' = thread_at i s \<and> thread_count s \<le> thread_count s'"
      using thread_create_spec [OF wfd(1,2) inv, of b name entry arg] creates assms(3,4)
      by (elim exE conjE disjE) (auto simp: created_def Let_def)
    then show ?thesis using assms(4,5) by (simp add: state_of_def)
  qed (use assms(4,5) in \<open>simp_all add: state_of_def sched_set_preempt_def Let_def\<close>)
  then show "state_of s' i = THREAD_ZOMBIE" "i < thread_count s'" by simp_all
qed

section \<open>Fairness\<close>

lemma yield_towards:
  assumes "sched_wf s" and "0 \<le> t" and "t < thread_count s" and "state_of s t = THREAD_RUNNABLE"
  defines "s' \<equiv> thread_yield s"
  shows "sched_wf s'" and "thread_count s' = thread_count s"
    and "current_tid s' = t \<or>
      state_of s' t = THREAD_RUNNABLE \<and> dist s' (current_tid s') t < dist s (current_tid s) t"
proof -
  note wf = sched_wfD [OF assms(1)]
  let ?u = "find_next_runnable (current_tid s) False s"
  have tc: "t \<noteq> current_tid s" using assms(4) wf(6) by auto
  have u: "\<not> ?u < 0"
    using find_next_none [OF wf(4,5)] assms(2-4) tc by auto
  have h: "handed_over s ?u THREAD_RUNNABLE s'"
    using thread_yield_spec [OF assms(1)] u by (simp add: s'_def)
  have us: "?u < thread_count s" "?u \<noteq> current_tid s"
    and le: "dist s (current_tid s) ?u \<le> dist s (current_tid s) t"
    using find_next_some [OF wf(4,5) refl] u assms(2-4) tc by auto
  show "sched_wf s'" using handed_over_wf [OF assms(1) h _ us(1)] u by simp
  have f: "current_tid s' = ?u" "thread_count s' = thread_count s"
    and st: "\<And>j. 0 \<le> j \<Longrightarrow> state_of s' j = (if j = ?u then THREAD_RUNNING
      else if j = current_tid s then THREAD_RUNNABLE else state_of s j)"
    using h unfolding handed_over_def by blast+
  show "thread_count s' = thread_count s" by (rule f(2))
  show "current_tid s' = t \<or>
      state_of s' t = THREAD_RUNNABLE \<and> dist s' (current_tid s') t < dist s (current_tid s) t"
  proof (cases "t = ?u")
    case False
    let ?n = "thread_count s" and ?c = "current_tid s"
    have n: "0 < ?n" using wf(2) by simp
    have d0: "0 < dist s ?c ?u"
      using dist_bounds(1) [OF n, of ?c ?u] dist_zero [of ?u s ?c] us u wf(4,5) by fastforce
    have "dist s ?u t = (dist s ?c t - dist s ?c ?u) mod ?n"
      by (simp add: dist_def mod_diff_eq)
    also have "\<dots> = dist s ?c t - dist s ?c ?u"
      using le dist_bounds [OF n, of ?c t] dist_bounds(1) [OF n, of ?c ?u] by (intro mod_pos_pos_trivial) auto
    finally have "dist s ?u t < dist s ?c t" using d0 by simp
    then have "dist s' (current_tid s') t < dist s ?c t" by (simp add: dist_def f)
    then show ?thesis using st [OF assms(2)] False tc assms(4) by simp
  qed (simp add: f(1))
qed

lemma yields_reach:
  "sched_wf s \<Longrightarrow> 0 \<le> t \<Longrightarrow> t < thread_count s \<Longrightarrow> state_of s t = THREAD_RUNNABLE \<Longrightarrow>
   nat (dist s (current_tid s) t) \<le> k \<Longrightarrow> \<exists>n. 1 \<le> n \<and> n \<le> k \<and> current_tid ((thread_yield ^^ n) s) = t"
proof (induction k arbitrary: s)
  case 0
  have "t \<noteq> current_tid s" using 0 sched_wfD(6) [OF 0(1)] by auto
  then have "dist s (current_tid s) t \<noteq> 0"
    using dist_zero [of t s] 0 sched_wfD(4,5) [OF 0(1)] by simp
  then show ?case using 0 dist_bounds(1) [of s "current_tid s" t] sched_wfD(2) [OF 0(1)] by simp
next
  case (Suc k)
  note y = yield_towards [OF Suc.prems(1-4)]
  show ?case
  proof (cases "current_tid (thread_yield s) = t")
    case True
    then show ?thesis by (intro exI [of _ 1]) simp
  next
    case False
    then have *: "state_of (thread_yield s) t = THREAD_RUNNABLE"
      "nat (dist (thread_yield s) (current_tid (thread_yield s)) t) \<le> k"
      using y(3) Suc.prems(5) by auto
    obtain n where "1 \<le> n" "n \<le> k" "current_tid ((thread_yield ^^ n) (thread_yield s)) = t"
      using Suc.IH [OF y(1) Suc.prems(2) _ *] y(2) Suc.prems(3) by auto
    then show ?thesis by (intro exI [of _ "Suc n"]) (simp add: funpow_swap1)
  qed
qed

section \<open>The saved frame\<close>

lemma ld32_st32 [simp]: "ld32 (st32 a v m) a = v"
proof (rule bit_word_eqI)
  fix n assume "n < LENGTH(32)"
  then consider "n < 8" | "8 \<le> n" "n < 16" | "16 \<le> n" "n < 24" | "24 \<le> n" "n < 32"
    by fastforce
  then show "bit (ld32 (st32 a v m) a) n = bit v n"
    by cases (auto simp: ld32_def st32_def bit_simps)
qed

text \<open>A load sees through a store of a word at least four bytes away.\<close>

definition apart :: "u32 \<Rightarrow> u32 \<Rightarrow> bool" where
  "apart a b \<longleftrightarrow> 4 \<le> unat (b - a) \<and> unat (b - a) \<le> 0xFFFFFFFC"

lemma apart_ne:
  assumes "apart a b" and "i < 4" and "j < 4"
  shows "b + of_nat i \<noteq> a + of_nat j"
proof
  assume "b + of_nat i = a + of_nat j"
  then have "b - a = of_nat j - of_nat i" by (simp add: algebra_simps)
  moreover have "i = 0 \<or> i = 1 \<or> i = 2 \<or> i = 3" "j = 0 \<or> j = 1 \<or> j = 2 \<or> j = 3"
    using assms(2,3) by linarith+
  ultimately show False using assms(1) by (auto simp: apart_def unsigned_minus_1_eq_mask mask_eq_exp_minus_1)
qed

lemma ld32_other: "apart a b \<Longrightarrow> ld32 (st32 a v m) b = ld32 m b"
proof -
  assume d: "apart a b"
  have "st32 a v m (b + of_nat i) = m (b + of_nat i)" if "i < 4" for i
    using apart_ne [OF d that, of 0] apart_ne [OF d that, of 1] apart_ne [OF d that, of 2]
      apart_ne [OF d that, of 3] by (simp add: st32_def)
  from this [of 0] this [of 1] this [of 2] this [of 3]
  show ?thesis by (simp add: ld32_def)
qed

lemma ld32_cong: "(\<And>i. i < 4 \<Longrightarrow> m (a + of_nat i) = m' (a + of_nat i)) \<Longrightarrow> ld32 m a = ld32 m' a"
proof -
  assume e: "\<And>i. i < 4 \<Longrightarrow> m (a + of_nat i) = m' (a + of_nat i)"
  from e [of 0] e [of 1] e [of 2] e [of 3] show ?thesis by (simp add: ld32_def)
qed

text \<open>The frame a switch leaves behind, from the saved stack pointer upwards.\<close>

definition saved_sp :: "sched \<Rightarrow> u32" where
  "saved_sp s = esp (sc_cpu s) - 16"

definition switched_mem :: "int \<Rightarrow> u32 \<Rightarrow> sched \<Rightarrow> mem" where
  "switched_mem t e s = heap_mem (sc_heap (thread_switch t e s))"

lemma switch_frame:
  assumes "length (threads s) = 32" and "0 \<le> t" and "t < 32"
  shows "th_esp (thread_at t (thread_switch t e s)) = saved_sp s"
    and "ld32 (switched_mem t e s) (saved_sp s) = edi (sc_cpu s)"
    and "ld32 (switched_mem t e s) (saved_sp s + 4) = esi (sc_cpu s)"
    and "ld32 (switched_mem t e s) (saved_sp s + 8) = ebx (sc_cpu s)"
    and "ld32 (switched_mem t e s) (saved_sp s + 12) = ebp (sc_cpu s)"
    and "ld32 (switched_mem t e s) (saved_sp s + 16) = ld32 (heap_mem (sc_heap s)) (esp (sc_cpu s))"
  using assms
  by (simp_all add: switched_mem_def thread_switch_def push_def Let_def thread_at_put saved_sp_def
      ld32_other apart_def)

lemma switch_cpu:
  "sc_cpu (thread_switch t e s) =
     (let m = switched_mem t e s
      in \<lparr>eip = ld32 m (e + 16), esp = e + 20, ebp = ld32 m (e + 12), ebx = ld32 m (e + 8),
          esi = ld32 m (e + 4), edi = ld32 m e\<rparr>)"
  by (simp add: switched_mem_def thread_switch_def Let_def split: prod.split)

lemma frame_cong:
  assumes "\<forall>k<20. m (sp + of_nat k) = m' (sp + of_nat k)" and "d + 4 \<le> 20"
  shows "ld32 m (sp + of_nat d) = ld32 m' (sp + of_nat d)"
proof (rule ld32_cong)
  fix i :: nat assume "i < 4"
  then show "m (sp + of_nat d + of_nat i) = m' (sp + of_nat d + of_nat i)"
    using assms spec [OF assms(1), of "d + i"] by (simp add: add.assoc)
qed

section \<open>Properties\<close>

text \<open>A system just after \<open>sched_init\<close>, and the same with a second thread.\<close>

definition blank_thread :: thread where
  "blank_thread = \<lparr>th_esp = 0, th_stack_base = 0, th_stack_size = 0, th_state = THREAD_RUNNABLE,
     th_name = [], th_tid = 0, th_entry = 0, th_arg = 0\<rparr>"

definition boot_sched :: sched where
  "boot_sched = sched_init \<lparr>threads = replicate 32 blank_thread, thread_count = 0, current_tid = 0,
     preempt_enabled = 0, sc_heap = fresh_heap,
     sc_cpu = \<lparr>eip = 0x100000, esp = 0x9000, ebp = 1, ebx = 2, esi = 3, edi = 4\<rparr>\<rparr>"

definition two_threads :: sched where
  "two_threads = (case thread_create 0x100400 None 0x100500 7 boot_sched of
     Ok (r, s) \<Rightarrow> s | Fail e \<Rightarrow> boot_sched)"

lemma boot_sched [simp]:
  "sched_wf boot_sched" "sched_ok boot_sched" "thread_count boot_sched = 1"
  "current_tid boot_sched = 0" "sc_heap boot_sched = fresh_heap"
proof -
  show wf: "sched_wf boot_sched" by (simp add: boot_sched_def sched_init_wf)
  show f: "thread_count boot_sched = 1" "current_tid boot_sched = 0" "sc_heap boot_sched = fresh_heap"
    by (simp_all add: boot_sched_def sched_init_def)
  show "sched_ok boot_sched" using wf by (auto simp: sched_ok_def stacks_ok_def f fresh_heap(2))
qed

lemma two_threads:
  "\<exists>r. thread_create 0x100400 None 0x100500 7 boot_sched = Ok (r, two_threads)" "sched_ok two_threads"
  "thread_count two_threads = 2" "current_tid two_threads = 0"
  "state_of two_threads 1 = THREAD_RUNNABLE" "th_stack_base (thread_at 1 two_threads) = 0x18000010"
proof -
  note wf = sched_wfD [OF boot_sched(1)]
  have w: "wanted_size 4096 = 4096" by (simp add: wanted_size_def)
  have fit: "\<exists>c\<in>set [(16368, True)]. fits (wanted_size 4096) c" by (simp add: fits_def w)
  obtain p h cs where k: "kmalloc 4096 fresh_heap = Ok (p, h)" "served 4096 [(16368, True)] p cs"
    using kmalloc_spec [OF fresh_heap(1), of 4096] fit unfolding w by auto
  have p: "p \<noteq> 0" by (rule served_live(1) [OF k(2)])
  obtain r s where c: "thread_create 0x100400 None 0x100500 7 boot_sched = Ok (r, s)"
    using thread_create_spec [OF wf(1,2), of "0x100400" None "0x100500" 7] by (auto simp: fresh_heap(2))
  then have "r = 1" using k(1) p
    by (auto simp: thread_create_def Let_def split: prod.splits)
  then have cr: "created 0x100500 7 boot_sched s"
    using thread_create_spec [OF wf(1,2), of "0x100400" None "0x100500" 7] c
    by (auto simp: fresh_heap(2))
  have two: "two_threads = s" using c by (simp add: two_threads_def)
  have "unat p = 0x18000010"
    using served_split(1) [of 4096 "[]" 16368 "[]" p cs] k(2) by simp
  then have p18: "p = 0x18000010" by (simp add: word_unat_eq_iff)
  have "th_stack_base (thread_at 1 s) = p"
    using c k(1) p wf(1) by (auto simp: thread_create_def Let_def thread_at_put split: prod.splits)
  then show "th_stack_base (thread_at 1 two_threads) = 0x18000010" by (simp add: two p18)
  show "\<exists>r. thread_create 0x100400 None 0x100500 7 boot_sched = Ok (r, two_threads)" using c two by auto
  then show "sched_ok two_threads" using sched_step_ok [OF sched_step.creates] by fastforce
  show "thread_count two_threads = 2" "current_tid two_threads = 0"
    "state_of two_threads 1 = THREAD_RUNNABLE"
    using cr by (simp_all add: two created_def Let_def state_of_def)
qed

text \<open>
  C12: However the operations of the scheduler and other uses of the heap follow each other after
  \<open>sched_init\<close>, the thread table is well formed, exactly the current thread is running, and the
  stacks of the created threads are live blocks of the heap of at least 4 KiB that do not overlap.
\<close>

theorem sched_run_invariant:
  assumes "sched_run (sched_init s0) s" and "length (threads s0) = 32" and "heap_inv (sc_heap s0)"
  shows "sched_wf s \<and> {i. 0 \<le> i \<and> i < thread_count s \<and> state_of s i = THREAD_RUNNING} = {current_tid s} \<and>
    (\<forall>i j. 1 \<le> i \<and> i < thread_count s \<and> 1 \<le> j \<and> j < thread_count s \<and> i \<noteq> j \<longrightarrow>
       (let a = unat (th_stack_base (thread_at i s)); b = unat (th_stack_base (thread_at j s))
        in a + 4096 < b \<or> b + 4096 < a))"
proof -
  have "sched_wf (sched_init s0)" by (rule sched_init_wf [OF assms(2)])
  moreover have "stacks_ok (sched_init s0)" using assms(3) by (auto simp: stacks_ok_def sched_init_def)
  ultimately have ok: "sched_wf s" "stacks_ok s"
    using sched_run_ok [OF assms(1)] by (simp_all add: sched_ok_def)
  note wf = sched_wfD [OF ok(1)]
  have inv: "heap_inv (sc_heap s)" using ok(2) by (simp add: stacks_ok_def)
  have "let a = unat (th_stack_base (thread_at i s)); b = unat (th_stack_base (thread_at j s))
      in a + 4096 < b \<or> b + 4096 < a"
    if ij: "1 \<le> i" "i < thread_count s" "1 \<le> j" "j < thread_count s" "i \<noteq> j" for i j
  proof -
    obtain n where n: "n \<ge> 4096" "(unat (th_stack_base (thread_at i s)), n) \<in> heap_live (sc_heap s)"
      using ok(2) ij(1,2) unfolding stacks_ok_def by blast
    obtain m where m: "m \<ge> 4096" "(unat (th_stack_base (thread_at j s)), m) \<in> heap_live (sc_heap s)"
      using ok(2) ij(3,4) unfolding stacks_ok_def by blast
    have "inj_on (\<lambda>i. th_stack_base (thread_at i s)) {1..<thread_count s}"
      using ok(2) by (simp add: stacks_ok_def)
    from inj_onD [OF this, of i j] have "unat (th_stack_base (thread_at i s)) \<noteq> unat (th_stack_base (thread_at j s))"
      using ij by (auto simp: word_unat_eq_iff)
    then show ?thesis
      using heap.live_separate [OF inv n(2) m(2)] n(1) m(1) by (simp add: Let_def) linarith
  qed
  moreover have "{i. 0 \<le> i \<and> i < thread_count s \<and> state_of s i = THREAD_RUNNING} = {current_tid s}"
    using wf(4-6) wf(8) by blast
  ultimately show ?thesis using ok(1) by blast
qed

theorem sched_run_invariant_witness:
  "sched_wf (thread_yield boot_sched) \<and>
   {i. 0 \<le> i \<and> i < thread_count (thread_yield boot_sched) \<and>
       state_of (thread_yield boot_sched) i = THREAD_RUNNING} = {current_tid (thread_yield boot_sched)}"
proof -
  let ?s0 = "\<lparr>threads = replicate 32 blank_thread, thread_count = 0, current_tid = 0,
     preempt_enabled = 0, sc_heap = fresh_heap,
     sc_cpu = \<lparr>eip = 0x100000, esp = 0x9000, ebp = 1, ebx = 2, esi = 3, edi = 4\<rparr>\<rparr> :: sched"
  have "sched_run (sched_init ?s0) (thread_yield (sched_init ?s0))"
    by (rule sched_run.step [OF sched_run.start sched_step.yields])
  from sched_run_invariant [OF this] show ?thesis
    by (simp add: boot_sched_def fresh_heap(2))
qed

text \<open>
  C13: \<open>thread_yield\<close> is round robin: with no other runnable thread it returns at once and nothing
  changes; otherwise the processor goes to the runnable thread that comes first after the current
  one in the cyclic order of the table, the current thread becomes runnable, and no other thread
  changes state.
\<close>

theorem thread_yield_round_robin:
  assumes "sched_wf s"
  shows "if \<forall>t. 0 \<le> t \<and> t < thread_count s \<and> t \<noteq> current_tid s \<longrightarrow> state_of s t \<noteq> THREAD_RUNNABLE
    then thread_yield s = s
    else \<exists>t. state_of s t = THREAD_RUNNABLE \<and> 0 \<le> t \<and> t < thread_count s \<and>
      (\<forall>u. 0 \<le> u \<and> u < thread_count s \<and> u \<noteq> current_tid s \<and> state_of s u = THREAD_RUNNABLE \<longrightarrow>
         dist s (current_tid s) t \<le> dist s (current_tid s) u) \<and>
      handed_over s t THREAD_RUNNABLE (thread_yield s)"
proof -
  note wf = sched_wfD [OF assms]
  let ?t = "find_next_runnable (current_tid s) False s"
  show ?thesis
  proof (cases "?t < 0")
    case True
    then show ?thesis using thread_yield_spec [OF assms] find_next_none [OF wf(4,5)] by simp
  next
    case False
    then have "handed_over s ?t THREAD_RUNNABLE (thread_yield s)" using thread_yield_spec [OF assms] by simp
    moreover have "\<not> (\<forall>t. 0 \<le> t \<and> t < thread_count s \<and> t \<noteq> current_tid s \<longrightarrow>
        state_of s t \<noteq> THREAD_RUNNABLE)"
      using False find_next_none [OF wf(4,5)] by blast
    ultimately show ?thesis
      using find_next_some [OF wf(4,5) refl] False unfolding not_less by (simp only: if_False) blast
  qed
qed

theorem thread_yield_round_robin_witness:
  "\<exists>t. state_of two_threads t = THREAD_RUNNABLE \<and> handed_over two_threads t THREAD_RUNNABLE (thread_yield two_threads)"
proof -
  have wf: "sched_wf two_threads" using two_threads(2) by (simp add: sched_ok_def)
  have "\<not> (\<forall>t. 0 \<le> t \<and> t < thread_count two_threads \<and> t \<noteq> current_tid two_threads \<longrightarrow>
      state_of two_threads t \<noteq> THREAD_RUNNABLE)"
    using two_threads(3-5) by (auto intro!: exI [of _ 1])
  then show ?thesis using thread_yield_round_robin [OF wf] by (simp only: if_False) blast
qed

text \<open>
  C14: No runnable thread starves: if the threads only yield, a runnable thread runs after at most as many
  yields as its distance from the current thread in the cyclic order of the table, which is less than the
  number of threads.
\<close>

theorem thread_yield_fair:
  assumes "sched_wf s" and "0 \<le> t" and "t < thread_count s" and "state_of s t = THREAD_RUNNABLE"
  shows "\<exists>n. 1 \<le> n \<and> int n \<le> (t - current_tid s) mod thread_count s \<and> current_tid ((thread_yield ^^ n) s) = t"
proof -
  have "0 < thread_count s" using sched_wfD(2) [OF assms(1)] by simp
  note b = dist_bounds [OF this, of "current_tid s" t]
  obtain n where "1 \<le> n" "n \<le> nat (dist s (current_tid s) t)" "current_tid ((thread_yield ^^ n) s) = t"
    using yields_reach [OF assms order_refl] by blast
  then show ?thesis using b by (intro exI [of _ n]) (simp add: dist_def)
qed

theorem thread_yield_fair_witness: "current_tid (thread_yield two_threads) = 1"
proof -
  have "sched_wf two_threads" using two_threads(2) by (simp add: sched_ok_def)
  from thread_yield_fair [OF this, of 1] obtain n
    where "1 \<le> n" "int n \<le> 1" "current_tid ((thread_yield ^^ n) two_threads) = 1"
    by (auto simp: two_threads)
  then show ?thesis by (cases n) auto
qed

text \<open>
  C15: \<open>thread_exit\<close> panics exactly when no other thread is runnable; otherwise the exiting thread
  becomes a zombie, and a zombie stays one however the run continues: it is never scheduled again.
\<close>

theorem thread_exit_is_final:
  assumes "sched_ok s"
  shows "if \<forall>t. 0 \<le> t \<and> t < thread_count s \<and> t \<noteq> current_tid s \<longrightarrow> state_of s t \<noteq> THREAD_RUNNABLE
    then thread_exit s = Fail (Panic ''thread_exit: no runnable thread left'')
    else \<exists>s'. thread_exit s = Ok s' \<and>
      (\<forall>s2. sched_run s' s2 \<longrightarrow> state_of s2 (current_tid s) = THREAD_ZOMBIE \<and> current_tid s2 \<noteq> current_tid s)"
proof -
  have ok: "sched_wf s" using assms by (simp add: sched_ok_def)
  note wf = sched_wfD [OF ok]
  let ?c = "current_tid s" and ?t = "find_next_runnable (current_tid s) False s"
  show ?thesis
  proof (cases "?t < 0")
    case True
    then show ?thesis using thread_exit_spec [OF ok] find_next_none [OF wf(4,5)] by simp
  next
    case False
    then obtain s' where s': "thread_exit s = Ok s'" "handed_over s ?t THREAD_ZOMBIE s'"
      using thread_exit_spec [OF ok] by auto
    have ok': "sched_ok s'" using sched_step_ok [OF sched_step.exits [OF s'(1)] assms] .
    have ne: "?t \<noteq> ?c" using find_next_some(2) [OF wf(4,5) refl] False by simp
    have z: "state_of s' ?c = THREAD_ZOMBIE" "?c < thread_count s'"
      using s'(2) ne wf(4,5) unfolding handed_over_def by auto
    have "sched_ok s2 \<and> state_of s2 ?c = THREAD_ZOMBIE \<and> ?c < thread_count s2" if "sched_run s' s2" for s2
      using that
    proof induction
      case start
      then show ?case using ok' z by simp
    next
      case (step s2 s3)
      then show ?case using sched_step_ok [OF step(2)] sched_step_zombie [OF step(2) _ wf(4)] by blast
    qed
    moreover have "current_tid s2 \<noteq> ?c" if "sched_ok s2" "state_of s2 ?c = THREAD_ZOMBIE" for s2
      using that sched_wfD(6) [of s2] by (auto simp: sched_ok_def)
    moreover have "\<not> (\<forall>t. 0 \<le> t \<and> t < thread_count s \<and> t \<noteq> ?c \<longrightarrow> state_of s t \<noteq> THREAD_RUNNABLE)"
      using False find_next_none [OF wf(4,5)] by blast
    ultimately show ?thesis using s'(1) by (simp only: if_False) blast
  qed
qed

theorem thread_exit_is_final_witness:
  "thread_exit boot_sched = Fail (Panic ''thread_exit: no runnable thread left'')"
proof -
  have "\<forall>t. 0 \<le> t \<and> t < thread_count boot_sched \<and> t \<noteq> current_tid boot_sched \<longrightarrow>
      state_of boot_sched t \<noteq> THREAD_RUNNABLE"
    by auto
  then show ?thesis using thread_exit_is_final [OF boot_sched(2)] by (simp only: if_True)
qed

text \<open>
  A switch away from a thread and a later switch back to it are transparent: if the frame the
  first one pushed is intact when control returns, the thread continues at its return address
  with its stack pointer and its callee-saved registers as they were.
\<close>

theorem switch_resumes:
  assumes "length (threads s) = 32" and "0 \<le> t" and "t < 32"
    and "\<forall>k<20. switched_mem t2 (th_esp (thread_at t (thread_switch t e s))) s2 (saved_sp s + of_nat k) =
      switched_mem t e s (saved_sp s + of_nat k)"
  shows "sc_cpu (thread_switch t2 (th_esp (thread_at t (thread_switch t e s))) s2) =
    (sc_cpu s)\<lparr>eip := ld32 (heap_mem (sc_heap s)) (esp (sc_cpu s)), esp := esp (sc_cpu s) + 4\<rparr>"
proof -
  note frame = switch_frame [OF assms(1-3), of e]
  let ?sp = "saved_sp s"
  let ?m = "switched_mem t2 (th_esp (thread_at t (thread_switch t e s))) s2"
  have same: "ld32 ?m (?sp + of_nat d) = ld32 (switched_mem t e s) (?sp + of_nat d)" if "d + 4 \<le> 20" for d
    by (rule frame_cong [OF assms(4) that])
  show ?thesis
    using same [of 0] same [of 4] same [of 8] same [of 12] same [of 16] frame
    by (simp add: switch_cpu [of t2] Let_def saved_sp_def)
qed

theorem switch_resumes_witness:
  "sc_cpu (thread_switch 1 0x8FF0 (boot_sched\<lparr>sc_heap := sc_heap (thread_switch 0 0x5000 boot_sched),
      sc_cpu := \<lparr>eip = 0, esp = 0x5100, ebp = 0, ebx = 0, esi = 0, edi = 0\<rparr>\<rparr>)) =
    (sc_cpu boot_sched)\<lparr>eip := ld32 (heap_mem fresh_heap) 0x9000, esp := 0x9004\<rparr>"
proof -
  let ?s2 = "boot_sched\<lparr>sc_heap := sc_heap (thread_switch 0 0x5000 boot_sched),
      sc_cpu := \<lparr>eip = 0, esp = 0x5100, ebp = 0, ebx = 0, esi = 0, edi = 0\<rparr>\<rparr>"
  have len: "length (threads boot_sched) = 32" using sched_wfD(1) [OF boot_sched(1)] .
  have cpu: "esp (sc_cpu boot_sched) = 0x9000" by (simp add: boot_sched_def sched_init_def)
  have sp: "th_esp (thread_at 0 (thread_switch 0 0x5000 boot_sched)) = 0x8FF0"
    using switch_frame(1) [OF len, of 0 "0x5000"] by (simp add: saved_sp_def cpu)
  have "switched_mem 1 0x8FF0 ?s2 (0x8FF0 + of_nat k) = switched_mem 0 0x5000 boot_sched (0x8FF0 + of_nat k)"
    if "k < 20" for k
  proof -
    have "unat (0x8FF0 + of_nat k :: u32) = 0x8FF0 + k" using that by (simp add: unat_word_ariths unat_of_nat)
    then have "0x8FF0 + of_nat k \<noteq> (a :: u32)" if "unat a < 0x8FF0" for a using that by auto
    then show ?thesis by (simp add: switched_mem_def thread_switch_def push_def Let_def st32_def)
  qed
  then have "\<forall>k<20. switched_mem 1 (th_esp (thread_at 0 (thread_switch 0 0x5000 boot_sched))) ?s2
        (saved_sp boot_sched + of_nat k) =
      switched_mem 0 0x5000 boot_sched (saved_sp boot_sched + of_nat k)"
    unfolding sp saved_sp_def cpu by simp
  from switch_resumes [OF len _ _ this] show ?thesis by (simp add: sp cpu)
qed

lemma created_frame:
  assumes "thread_create b name entry arg s = Ok (r, s')" and "0 \<le> r" and "length (threads s) = 32"
    and "0 \<le> thread_count s"
  shows "\<exists>base. th_stack_base (thread_at r s') = base \<and> th_esp (thread_at r s') = base + 4076 \<and>
    ld32 (heap_mem (sc_heap s')) (base + 4092) = b \<and>
    (\<forall>d\<in>{4076, 4080, 4084, 4088}. ld32 (heap_mem (sc_heap s')) (base + d) = 0)"
proof -
  have ne: "entry \<noteq> 0" "thread_count s < 32"
    using assms(1,2) by (auto simp: thread_create_def split: if_splits)
  obtain base h where k: "kmalloc 4096 (sc_heap s) = Ok (base, h)" "base \<noteq> 0"
    using assms(1,2) ne
    by (cases "kmalloc 4096 (sc_heap s)") (auto simp: thread_create_def Let_def split: if_splits)
  have s': "r = thread_count s" "th_stack_base (thread_at r s') = base" "th_esp (thread_at r s') = base + 4076"
    "heap_mem (sc_heap s') = snd (push 0 (push 0 (push 0 (push 0 (push b (base + 4096, heap_mem h))))))"
    using assms ne k
    by (auto simp: thread_create_def Let_def thread_at_put push_def split: prod.splits)
  have mem: "heap_mem (sc_heap s') = st32 (base + 4076) 0 (st32 (base + 4080) 0 (st32 (base + 4084) 0
      (st32 (base + 4088) 0 (st32 (base + 4092) b (heap_mem h)))))"
    using s'(4) by (simp add: push_def add.commute)
  have far: "apart (base + c) (base + d) = (4 \<le> unat (d - c) \<and> unat (d - c) \<le> 0xFFFFFFFC)" for c d
    by (simp add: apart_def)
  show ?thesis unfolding mem using s'(2,3) by (simp add: ld32_other far)
qed

text \<open>
  A thread that \<open>thread_create\<close> made begins in \<open>thread_bootstrap\<close>, at the top of its own stack and
  with cleared registers, when it is switched to for the first time with its stack as created.
\<close>

theorem new_thread_starts:
  assumes "thread_create b name entry arg s = Ok (r, s')" and "0 \<le> r" and "sched_wf s"
    and "\<forall>k<20. switched_mem t2 (th_esp (thread_at r s')) s2 (th_esp (thread_at r s') + of_nat k) =
      heap_mem (sc_heap s') (th_esp (thread_at r s') + of_nat k)"
  shows "sc_cpu (thread_switch t2 (th_esp (thread_at r s')) s2) =
    \<lparr>eip = b, esp = th_stack_base (thread_at r s') + 4096, ebp = 0, ebx = 0, esi = 0, edi = 0\<rparr>"
proof -
  obtain base where base: "th_stack_base (thread_at r s') = base" "th_esp (thread_at r s') = base + 4076"
      "ld32 (heap_mem (sc_heap s')) (base + 4092) = b"
      "\<forall>d\<in>{4076, 4080, 4084, 4088}. ld32 (heap_mem (sc_heap s')) (base + d) = 0"
    using created_frame [OF assms(1,2)] sched_wfD(1,2) [OF assms(3)] by auto
  let ?m = "switched_mem t2 (base + 4076) s2"
  have same: "ld32 ?m (base + 4076 + of_nat d) = ld32 (heap_mem (sc_heap s')) (base + 4076 + of_nat d)"
    if "d + 4 \<le> 20" for d
    using frame_cong [OF assms(4) that] by (simp only: base(2))
  show ?thesis
    using same [of 0] same [of 4] same [of 8] same [of 12] same [of 16] base
    by (simp add: switch_cpu Let_def add.commute)
qed

theorem new_thread_starts_witness:
  "eip (sc_cpu (thread_switch 0 (th_esp (thread_at 1 two_threads))
      (two_threads\<lparr>sc_cpu := \<lparr>eip = 0, esp = 0x9000, ebp = 0, ebx = 0, esi = 0, edi = 0\<rparr>\<rparr>))) = 0x100400"
proof -
  let ?s2 = "two_threads\<lparr>sc_cpu := \<lparr>eip = 0, esp = 0x9000, ebp = 0, ebx = 0, esi = 0, edi = 0\<rparr>\<rparr>"
  note wf = sched_wfD [OF boot_sched(1)]
  obtain r where r: "thread_create 0x100400 None 0x100500 7 boot_sched = Ok (r, two_threads)"
    using two_threads(1) by blast
  have r1: "r = 1"
  proof -
    have "r = -1 \<and> thread_count two_threads = 1 \<or> r = 1"
      using thread_create_spec [OF wf(1,2), of "0x100400" None "0x100500" 7] r by (auto simp: fresh_heap(2))
    then show ?thesis using two_threads(3) by simp
  qed
  have len: "length (threads boot_sched) = 32" "0 \<le> thread_count boot_sched" using wf(1,2) by simp_all
  have esp: "th_esp (thread_at 1 two_threads) = 0x18000FFC"
    using created_frame [OF r _ len] two_threads(6) r1 by simp
  have "switched_mem 0 0x18000FFC ?s2 (0x18000FFC + of_nat k) =
      heap_mem (sc_heap two_threads) (0x18000FFC + of_nat k)" if "k < 20" for k
  proof -
    have "unat (0x18000FFC + of_nat k :: u32) = 0x18000FFC + k"
      using that by (simp add: unat_word_ariths unat_of_nat)
    then have "0x18000FFC + of_nat k \<noteq> (a :: u32)" if "unat a < 0x9000" for a using that by auto
    then show ?thesis by (simp add: switched_mem_def thread_switch_def push_def Let_def st32_def)
  qed
  then have "\<forall>k<20. switched_mem 0 (th_esp (thread_at r two_threads)) ?s2
        (th_esp (thread_at r two_threads) + of_nat k) =
      heap_mem (sc_heap two_threads) (th_esp (thread_at r two_threads) + of_nat k)"
    by (simp add: esp r1)
  from new_thread_starts [OF r _ boot_sched(1) this] show ?thesis by (simp add: r1)
qed

end
