(* ===== verification/Fs_Interface.thy ===== *)
theory Fs_Interface
  imports CString
begin

text \<open>
  The interface between the virtual file system and a file system, \<open>vfs_fs_ops_t\<close> of
  \<open>kernel/fs/vfs.h\<close>: a record of function pointers, each of which may be null. A node is an opaque
  pointer (\<open>None\<close> is the null pointer) and the state of the file system is passed explicitly.
  An operation with out-parameters returns \<open>Inl rc\<close> when it fails and \<open>Inr\<close> the values stored
  when it succeeds. A buffer is the list of its bytes, and \<open>None\<close> when it is null.
\<close>

record ('h, 's) fs_ops =
  op_get_root :: "(u32 \<Rightarrow> 's \<Rightarrow> 'h option res) option"
  op_lookup :: "(u32 \<Rightarrow> 'h option \<Rightarrow> u8 list option \<Rightarrow> 's \<Rightarrow> (int + ('h option \<times> bool)) res) option"
  op_create :: "(u32 \<Rightarrow> 'h option \<Rightarrow> u8 list option \<Rightarrow> bool \<Rightarrow> 's \<Rightarrow> ((int + 'h option) \<times> 's) res) option"
  op_read :: "(u32 \<Rightarrow> 'h option \<Rightarrow> u32 \<Rightarrow> u8 list option \<Rightarrow> u32 \<Rightarrow> 's \<Rightarrow> (int \<times> u8 list option) res) option"
  op_write :: "(u32 \<Rightarrow> 'h option \<Rightarrow> u32 \<Rightarrow> u8 list option \<Rightarrow> u32 \<Rightarrow> 's \<Rightarrow> (int \<times> 's) res) option"
  op_readdir :: "(u32 \<Rightarrow> 'h option \<Rightarrow> u32 \<Rightarrow> 's \<Rightarrow> (int + (u8 list \<times> bool \<times> u32)) res) option"
  op_size :: "(u32 \<Rightarrow> 'h option \<Rightarrow> 's \<Rightarrow> u32 res) option"

section \<open>Contracts\<close>

text \<open>
  What a file system that can be read promises to the virtual file system: its state is a set of
  directories, each a finite map from names to nodes, and a set of files, each a list of bytes.
\<close>

locale readable_fs =
  fixes get_root :: "u32 \<Rightarrow> 's \<Rightarrow> 'h option res"
    and lookup :: "u32 \<Rightarrow> 'h option \<Rightarrow> u8 list option \<Rightarrow> 's \<Rightarrow> (int + ('h option \<times> bool)) res"
    and rd :: "u32 \<Rightarrow> 'h option \<Rightarrow> u32 \<Rightarrow> u8 list option \<Rightarrow> u32 \<Rightarrow> 's \<Rightarrow> (int \<times> u8 list option) res"
    and inv :: "'s \<Rightarrow> bool"
    and root :: "'h"
    and is_dir :: "'s \<Rightarrow> 'h \<Rightarrow> bool"
    and is_file :: "'s \<Rightarrow> 'h \<Rightarrow> bool"
    and entry :: "'s \<Rightarrow> 'h \<Rightarrow> u8 list \<rightharpoonup> 'h \<times> bool"
    and bytes :: "'s \<Rightarrow> 'h \<Rightarrow> u8 list"
  assumes root_law: "inv s \<Longrightarrow> get_root ctx s = Ok (Some root) \<and> is_dir s root"
    and lookup_law: "inv s \<Longrightarrow> is_dir s d \<Longrightarrow> is_text nm \<Longrightarrow> lookup ctx (Some d) (Some nm) s =
      Ok (case entry s d nm of None \<Rightarrow> Inl (-1) | Some (n, b) \<Rightarrow> Inr (Some n, b))"
    and entry_law: "inv s \<Longrightarrow> is_dir s d \<Longrightarrow> entry s d nm = Some (n, b) \<Longrightarrow> if b then is_dir s n else is_file s n"
    and read_law: "inv s \<Longrightarrow> is_file s n \<Longrightarrow> unat k \<le> length buf \<Longrightarrow> rd ctx (Some n) off (Some buf) k s =
      (let ys = take (unat k) (drop (unat off) (bytes s n)) in Ok (int (length ys), Some (blit buf 0 ys)))"
begin

lemma entry_dir: "inv s \<Longrightarrow> is_dir s d \<Longrightarrow> entry s d nm = Some (n, True) \<Longrightarrow> is_dir s n"
  using entry_law [of s d nm n True] by simp

lemma entry_file: "inv s \<Longrightarrow> is_dir s d \<Longrightarrow> entry s d nm = Some (n, False) \<Longrightarrow> is_file s n"
  using entry_law [of s d nm n False] by simp

lemma lookup_found:
  "inv s \<Longrightarrow> is_dir s d \<Longrightarrow> is_text nm \<Longrightarrow> entry s d nm = Some (n, b) \<Longrightarrow>
   lookup ctx (Some d) (Some nm) s = Ok (Inr (Some n, b))"
  by (simp add: lookup_law)

lemma lookup_missing:
  "inv s \<Longrightarrow> is_dir s d \<Longrightarrow> is_text nm \<Longrightarrow> entry s d nm = None \<Longrightarrow>
   lookup ctx (Some d) (Some nm) s = Ok (Inl (-1))"
  by (simp add: lookup_law)

end

text \<open>
  A file system that can also be written: creation adds one entry or fails and changes nothing,
  a write splices the file and changes nothing else. \<open>cap\<close> is the largest size of a is_file.
\<close>

locale writable_fs = readable_fs get_root lookup rd inv root is_dir is_file entry bytes
  for get_root lookup rd inv root is_dir is_file entry and bytes :: "'s \<Rightarrow> 'h \<Rightarrow> u8 list" +
  fixes create :: "u32 \<Rightarrow> 'h option \<Rightarrow> u8 list option \<Rightarrow> bool \<Rightarrow> 's \<Rightarrow> ((int + 'h option) \<times> 's) res"
    and wr :: "u32 \<Rightarrow> 'h option \<Rightarrow> u32 \<Rightarrow> u8 list option \<Rightarrow> u32 \<Rightarrow> 's \<Rightarrow> (int \<times> 's) res"
    and cap :: nat
  assumes create_law: "inv s \<Longrightarrow> is_dir s d \<Longrightarrow> is_text nm \<Longrightarrow>
      \<exists>r s'. create ctx (Some d) (Some nm) isd s = Ok (r, s') \<and> inv s' \<and>
        (\<forall>e. is_dir s e \<longrightarrow> is_dir s' e) \<and> (\<forall>f. is_file s f \<longrightarrow> is_file s' f \<and> bytes s' f = bytes s f) \<and>
        (\<forall>e nm'. is_dir s e \<longrightarrow> (e, nm') \<noteq> (d, nm) \<longrightarrow> entry s' e nm' = entry s e nm') \<and>
        (case r of
           Inl rc \<Rightarrow> rc < 0 \<and> entry s' d nm = entry s d nm
         | Inr n \<Rightarrow> (\<exists>h. n = Some h \<and> entry s d nm = None \<and> entry s' d nm = Some (h, isd) \<and>
             (\<not> isd \<longrightarrow> bytes s' h = []) \<and> \<not> is_dir s h \<and> \<not> is_file s h))"
    and write_law: "inv s \<Longrightarrow> is_file s n \<Longrightarrow> unat k \<le> length src \<Longrightarrow>
      (let off' = min (unat off) (length (bytes s n)); c = min (unat k) (cap - off')
       in \<exists>s'. wr ctx (Some n) off (Some src) k s = Ok (int c, s') \<and> inv s' \<and>
            bytes s' n = blit (bytes s n) off' (take c src) \<and>
            (\<forall>e. is_dir s' e = is_dir s e) \<and> (\<forall>f. is_file s' f = is_file s f) \<and>
            (\<forall>f. is_file s f \<longrightarrow> f \<noteq> n \<longrightarrow> bytes s' f = bytes s f) \<and>
            (\<forall>e. is_dir s e \<longrightarrow> entry s' e = entry s e))"
begin

text \<open>A created file is found, empty; what was written to it is read back.\<close>

lemma create_then_lookup:
  assumes "inv s" and "is_dir s d" and "is_text nm" and "create ctx (Some d) (Some nm) isd s = Ok (Inr h, s')"
  shows "inv s'" and "lookup ctx' (Some d) (Some nm) s' = Ok (Inr (h, isd))"
  using create_law [OF assms(1-3), of ctx isd] assms lookup_found [of s' d nm _ isd ctx'] by auto

lemma write_then_read:
  assumes "inv s" and "is_file s n" and "length b = unat k" and "unat off \<le> length (bytes s n)"
    and "unat off + unat k \<le> cap" and "length buf = unat k"
  shows "\<exists>s'. wr ctx (Some n) off (Some b) k s = Ok (int (unat k), s') \<and> inv s' \<and>
    rd ctx' (Some n) off (Some buf) k s' = Ok (int (unat k), Some b)"
proof -
  have m: "min (unat off) (length (bytes s n)) = unat off" "min (unat k) (cap - unat off) = unat k"
    using assms(4,5) by simp_all
  obtain s' where s': "wr ctx (Some n) off (Some b) k s = Ok (int (unat k), s')" "inv s'"
      "bytes s' n = blit (bytes s n) (unat off) b" "is_file s' n"
    using write_law [OF assms(1,2), of k b off ctx] assms(2,3) by (auto simp: Let_def m)
  have "take (unat k) (drop (unat off) (bytes s' n)) = b"
    using assms(3,4) by (simp add: s'(3) blit_def)
  then show ?thesis
    using s' read_law [OF s'(2,4), of k buf ctx' off] assms(3,6) by (simp add: blit_def)
qed

end

end
