(* ===== verification/Ramfs.thy ===== *)
theory Ramfs
  imports Fs_Interface
begin

unbundle bit_operations_syntax

text \<open>
  The in-memory file system, \<open>kernel/fs/ramfs.c\<close>: a table of 96 nodes, each a file of at most 512
  bytes or a directory whose children form a chain of table indices. A node pointer is its index
  in the table. The flags \<open>used\<close> and \<open>is_dir\<close>, in which the code stores 0 and 1 only, are booleans.
\<close>

section \<open>State\<close>

record ramfs_node =
  rn_used :: bool
  rn_is_dir :: bool
  rn_parent :: int
  rn_first_child :: int
  rn_next_sibling :: int
  rn_name :: "u8 list"
  rn_data :: "u8 list"
  rn_size :: u32

abbreviation (input) "RAMFS_MAX_NODES \<equiv> (96 :: nat)"
abbreviation (input) "RAMFS_MAX_NAME \<equiv> (24 :: nat)"
abbreviation (input) "RAMFS_MAX_CONTENT \<equiv> (512 :: nat)"

type_synonym ramfs = "ramfs_node list"

text \<open>\<open>memset(&g_nodes[i], 0, sizeof(g_nodes[i]))\<close>.\<close>

definition zero_node :: ramfs_node where
  "zero_node = \<lparr>rn_used = False, rn_is_dir = False, rn_parent = 0, rn_first_child = 0,
     rn_next_sibling = 0, rn_name = replicate RAMFS_MAX_NAME 0,
     rn_data = replicate RAMFS_MAX_CONTENT 0, rn_size = 0\<rparr>"

definition node_at :: "int \<Rightarrow> ramfs \<Rightarrow> ramfs_node res" where
  "node_at i g = (if 0 \<le> i \<and> i < int RAMFS_MAX_NODES then Ok (g ! nat i) else Fail Wild)"

definition put_node :: "int \<Rightarrow> ramfs_node \<Rightarrow> ramfs \<Rightarrow> ramfs" where
  "put_node i n g = g[nat i := n]"

section \<open>Nodes\<close>

text \<open>The copy stops one character before \<open>bound\<close>; what it has written stays when it fails.\<close>

definition s_copy :: "u8 list \<Rightarrow> u8 list \<Rightarrow> nat \<Rightarrow> int \<times> u8 list" where
  "s_copy dst src bound =
     (if first_char src = 0 then (-1, dst)
      else
        (let n = min (bound - 1) (strlen src)
         in if n < strlen src then (-1, blit dst 0 (take n src))
            else (0, blit dst 0 (take n src @ [0]))))"

definition node_alloc :: "ramfs \<Rightarrow> int \<times> ramfs" where
  "node_alloc g =
     (case find (\<lambda>i. \<not> rn_used (g ! i)) [0..<RAMFS_MAX_NODES] of
        None \<Rightarrow> (-1, g)
      | Some i \<Rightarrow> (int i, g[i := zero_node\<lparr>rn_used := True, rn_parent := -1, rn_first_child := -1,
                                     rn_next_sibling := -1\<rparr>]))"

partial_function (option) find_child_from :: "ramfs \<Rightarrow> u8 list \<Rightarrow> int \<Rightarrow> int res option" where
  "find_child_from g name child =
     (if child < 0 then Some (Ok (-1))
      else case node_at child g of
             Fail e \<Rightarrow> Some (Fail e)
           | Ok c \<Rightarrow> if strcmp (rn_name c) name = 0 then Some (Ok child)
                    else find_child_from g name (rn_next_sibling c))"

definition node_find_child :: "int \<Rightarrow> u8 list \<Rightarrow> ramfs \<Rightarrow> int res" where
  "node_find_child dir_idx name g =
     rbind (node_at dir_idx g) (\<lambda>d. hang (find_child_from g name (rn_first_child d)))"

definition node_create_child :: "int \<Rightarrow> u8 list \<Rightarrow> bool \<Rightarrow> ramfs \<Rightarrow> (int \<times> ramfs) res" where
  "node_create_child dir_idx name is_dir g =
     rbind (node_find_child dir_idx name g) (\<lambda>found.
       if found \<ge> 0 then Ok (-1, g)
       else
         (let (idx, g) = node_alloc g
          in if idx < 0 then Ok (-2, g)
             else rbind (node_at idx g) (\<lambda>n.
               let (rc, nm) = s_copy (rn_name n) name RAMFS_MAX_NAME; n = n\<lparr>rn_name := nm\<rparr>
               in if rc < 0 then Ok (-1, put_node idx (n\<lparr>rn_used := False\<rparr>) g)
                  else
                    (let g = put_node idx (n\<lparr>rn_is_dir := is_dir, rn_parent := dir_idx\<rparr>) g
                     in rbind (node_at dir_idx g) (\<lambda>d.
                          rbind (node_at idx g) (\<lambda>n.
                            let g = put_node idx (n\<lparr>rn_next_sibling := rn_first_child d\<rparr>) g
                            in rbind (node_at dir_idx g) (\<lambda>d.
                                 Ok (idx, put_node dir_idx (d\<lparr>rn_first_child := idx\<rparr>) g))))))))"

section \<open>The operations behind the virtual file system\<close>

definition fs_get_root :: "u32 \<Rightarrow> ramfs \<Rightarrow> nat option res" where
  "fs_get_root ctx g = Ok (Some 0)"

definition fs_lookup ::
  "u32 \<Rightarrow> nat option \<Rightarrow> u8 list option \<Rightarrow> ramfs \<Rightarrow> (int + (nat option \<times> bool)) res" where
  "fs_lookup ctx dir name g =
     (case (dir, name) of
        (Some d, Some nm) \<Rightarrow>
          if d \<ge> RAMFS_MAX_NODES \<or> \<not> rn_is_dir (g ! d) then Ok (Inl (-1))
          else rbind (node_find_child (int d) nm g) (\<lambda>idx.
            if idx < 0 then Ok (Inl (-1))
            else rbind (node_at idx g) (\<lambda>n. Ok (Inr (Some (nat idx), rn_is_dir n))))
      | _ \<Rightarrow> Ok (Inl (-1)))"

definition fs_create ::
  "u32 \<Rightarrow> nat option \<Rightarrow> u8 list option \<Rightarrow> bool \<Rightarrow> ramfs \<Rightarrow> ((int + nat option) \<times> ramfs) res" where
  "fs_create ctx dir name is_dir g =
     (case (dir, name) of
        (Some d, Some nm) \<Rightarrow>
          if d \<ge> RAMFS_MAX_NODES \<or> \<not> rn_is_dir (g ! d) then Ok (Inl (-1), g)
          else rbind (node_create_child (int d) nm is_dir g) (\<lambda>(idx, g).
            if idx < 0 then Ok (Inl idx, g) else Ok (Inr (Some (nat idx)), g))
      | _ \<Rightarrow> Ok (Inl (-1), g))"

text \<open>
  A node pointer that reads or writes a file is used without a bounds check. A copy that runs past
  the end of the caller's buffer is a stray access.
\<close>

definition fs_read ::
  "u32 \<Rightarrow> nat option \<Rightarrow> u32 \<Rightarrow> u8 list option \<Rightarrow> u32 \<Rightarrow> ramfs \<Rightarrow> (int \<times> u8 list option) res" where
  "fs_read ctx node offset buf n g =
     (case node of
        None \<Rightarrow> Ok (-1, buf)
      | Some i \<Rightarrow> rbind (node_at (int i) g) (\<lambda>f.
          if rn_is_dir f then Ok (-1, buf)
          else case buf of
            None \<Rightarrow> Ok (-1, buf)
          | Some b \<Rightarrow>
              if offset \<ge> rn_size f then Ok (0, buf)
              else
                (let can = rn_size f - offset; can = (if can > n then n else can)
                 in if unat can > length b then Fail Wild
                    else Ok (uint can,
                             Some (blit b 0 (take (unat can) (drop (unat offset) (rn_data f))))))))"

definition fs_write ::
  "u32 \<Rightarrow> nat option \<Rightarrow> u32 \<Rightarrow> u8 list option \<Rightarrow> u32 \<Rightarrow> ramfs \<Rightarrow> (int \<times> ramfs) res" where
  "fs_write ctx node offset buf n g =
     (case node of
        None \<Rightarrow> Ok (-1, g)
      | Some i \<Rightarrow> rbind (node_at (int i) g) (\<lambda>f.
          if rn_is_dir f then Ok (-1, g)
          else case buf of
            None \<Rightarrow> Ok (-1, g)
          | Some b \<Rightarrow>
              (let offset = (if offset > rn_size f then rn_size f else offset);
                   can = of_nat RAMFS_MAX_CONTENT - offset;
                   can = (if can > n then n else can)
               in if can = 0 then Ok (0, g)
                  else if unat can > length b \<or> unat offset + unat can > RAMFS_MAX_CONTENT then Fail Wild
                  else
                    (let f = f\<lparr>rn_data := blit (rn_data f) (unat offset) (take (unat can) b)\<rparr>;
                         f = (if offset + can > rn_size f then f\<lparr>rn_size := offset + can\<rparr> else f)
                     in Ok (uint can, put_node (int i) f g)))))"

partial_function (option) readdir_from ::
  "ramfs \<Rightarrow> u32 \<Rightarrow> int \<Rightarrow> u32 \<Rightarrow> (int + (u8 list \<times> bool \<times> u32)) res option" where
  "readdir_from g index child cur =
     (if child < 0 then Some (Ok (Inl (-1)))
      else case node_at child g of
             Fail e \<Rightarrow> Some (Fail e)
           | Ok c \<Rightarrow> if cur = index then Some (Ok (Inr (c_text (rn_name c), rn_is_dir c, rn_size c)))
                    else readdir_from g index (rn_next_sibling c) (cur + 1))"

definition fs_readdir ::
  "u32 \<Rightarrow> nat option \<Rightarrow> u32 \<Rightarrow> ramfs \<Rightarrow> (int + (u8 list \<times> bool \<times> u32)) res" where
  "fs_readdir ctx dir index g =
     (case dir of
        None \<Rightarrow> Ok (Inl (-1))
      | Some d \<Rightarrow>
          if d \<ge> RAMFS_MAX_NODES \<or> \<not> rn_is_dir (g ! d) then Ok (Inl (-1))
          else hang (readdir_from g index (rn_first_child (g ! d)) 0))"

definition fs_size :: "u32 \<Rightarrow> nat option \<Rightarrow> ramfs \<Rightarrow> u32 res" where
  "fs_size ctx node g =
     (case node of
        None \<Rightarrow> Ok 0
      | Some i \<Rightarrow> rbind (node_at (int i) g) (\<lambda>n. Ok (if rn_is_dir n then 0 else rn_size n)))"

definition ramfs_ops :: "(nat, ramfs) fs_ops" where
  "ramfs_ops = \<lparr>op_get_root = Some fs_get_root, op_lookup = Some fs_lookup, op_create = Some fs_create,
     op_read = Some fs_read, op_write = Some fs_write, op_readdir = Some fs_readdir,
     op_size = Some fs_size\<rparr>"

section \<open>The direct interface\<close>

definition ramfs_init :: "ramfs \<Rightarrow> ramfs" where
  "ramfs_init g = (replicate RAMFS_MAX_NODES zero_node)[0 := zero_node\<lparr>rn_used := True, rn_is_dir := True,
     rn_parent := 0, rn_first_child := -1, rn_next_sibling := -1\<rparr>]"

definition ramfs_touch :: "u8 list option \<Rightarrow> ramfs \<Rightarrow> (int \<times> ramfs) res" where
  "ramfs_touch name g =
     (case name of
        None \<Rightarrow> Ok (-1, g)
      | Some nm \<Rightarrow>
          if first_char nm = 0 then Ok (-1, g)
          else rbind (node_find_child 0 nm g) (\<lambda>idx.
            if idx \<ge> 0 then Ok (0, g)
            else rbind (node_create_child 0 nm False g) (\<lambda>(idx, g).
              if idx = -2 then Ok (-2, g) else Ok (if idx < 0 then -1 else 0, g))))"

text \<open>
  The text of a file is replaced or extended. \<open>RAMFS_MAX_CONTENT - 1 - off\<close> wraps around when the
  file is full; the copy of almost 4 GiB that follows leaves the data array.
\<close>

definition store_off :: "bool \<Rightarrow> ramfs_node \<Rightarrow> u32" where
  "store_off appending f = (if appending then rn_size f else 0)"

definition store_len :: "u8 list \<Rightarrow> u32 \<Rightarrow> u32" where
  "store_len text off =
     (let len = of_nat (strlen text)
      in if off + len \<ge> of_nat RAMFS_MAX_CONTENT then of_nat (RAMFS_MAX_CONTENT - 1) - off else len)"

definition store_text :: "u8 list \<Rightarrow> bool \<Rightarrow> ramfs_node \<Rightarrow> ramfs_node res" where
  "store_text text appending f =
     (let off = store_off appending f; len = store_len text off
      in if unat len > strlen text \<or> unat off + unat len \<ge> RAMFS_MAX_CONTENT then Fail Wild
         else
           (let dat = (if len > 0 then blit (rn_data f) (unat off) (take (unat len) text) else rn_data f)
            in Ok (f\<lparr>rn_data := dat[unat (off + len) := 0], rn_size := off + len\<rparr>)))"

definition ramfs_write :: "u8 list option \<Rightarrow> u8 list option \<Rightarrow> bool \<Rightarrow> ramfs \<Rightarrow> (int \<times> ramfs) res" where
  "ramfs_write name text appending g =
     rbind (ramfs_touch name g) (\<lambda>(rc, g).
       if rc < 0 then Ok (-1, g)
       else rbind (node_find_child 0 (the name) g) (\<lambda>idx.
         if idx < 0 then Ok (-1, g)
         else rbind (node_at idx g) (\<lambda>f.
           rbind (store_text (case text of None \<Rightarrow> [] | Some t \<Rightarrow> t) appending f) (\<lambda>f.
             Ok (0, put_node idx f g)))))"

definition ramfs_read :: "u8 list \<Rightarrow> ramfs \<Rightarrow> (u8 list \<times> u32) option res" where
  "ramfs_read name g =
     rbind (node_find_child 0 name g) (\<lambda>idx.
       if idx < 0 then Ok None
       else rbind (node_at idx g) (\<lambda>f.
         if rn_is_dir f then Ok None else Ok (Some (rn_data f, rn_size f))))"

partial_function (option) remove_from :: "ramfs \<Rightarrow> u8 list \<Rightarrow> int \<Rightarrow> int \<Rightarrow> (int \<times> ramfs) res option" where
  "remove_from g name prev cur =
     (if cur < 0 then Some (Ok (-1, g))
      else case node_at cur g of
             Fail e \<Rightarrow> Some (Fail e)
           | Ok c \<Rightarrow>
               if strcmp (rn_name c) name = 0
               then Some (Ok (0, put_node cur zero_node
                      (if prev < 0 then put_node 0 ((g ! 0)\<lparr>rn_first_child := rn_next_sibling c\<rparr>) g
                       else put_node prev ((g ! nat prev)\<lparr>rn_next_sibling := rn_next_sibling c\<rparr>) g)))
               else remove_from g name cur (rn_next_sibling c))"

definition ramfs_remove :: "u8 list \<Rightarrow> ramfs \<Rightarrow> (int \<times> ramfs) res" where
  "ramfs_remove name g = hang (remove_from g name (-1) (rn_first_child (g ! 0)))"

partial_function (option) count_from :: "ramfs \<Rightarrow> int \<Rightarrow> u32 \<Rightarrow> u32 res option" where
  "count_from g cur n =
     (if cur < 0 then Some (Ok n)
      else case node_at cur g of
             Fail e \<Rightarrow> Some (Fail e)
           | Ok c \<Rightarrow> count_from g (rn_next_sibling c) (if rn_is_dir c then n else n + 1))"

definition ramfs_count :: "ramfs \<Rightarrow> u32 res" where
  "ramfs_count g = hang (count_from g (rn_first_child (g ! 0)) 0)"

partial_function (option) entry_from :: "ramfs \<Rightarrow> u32 \<Rightarrow> int \<Rightarrow> u32 \<Rightarrow> (int + (u8 list \<times> u32)) res option" where
  "entry_from g index cur curi =
     (if cur < 0 then Some (Ok (Inl (-1)))
      else case node_at cur g of
             Fail e \<Rightarrow> Some (Fail e)
           | Ok c \<Rightarrow>
               if rn_is_dir c then entry_from g index (rn_next_sibling c) curi
               else if curi = index then Some (Ok (Inr (c_text (rn_name c), rn_size c)))
               else entry_from g index (rn_next_sibling c) (curi + 1))"

definition ramfs_get_entry :: "u32 \<Rightarrow> ramfs \<Rightarrow> (int + (u8 list \<times> u32)) res" where
  "ramfs_get_entry index g = hang (entry_from g index (rn_first_child (g ! 0)) 0)"

section \<open>Chains of children\<close>

text \<open>
  \<open>chain g c xs\<close>: following the sibling links from \<open>c\<close> visits exactly the nodes \<open>xs\<close> and then
  ends. \<open>kids\<close> computes that list for a directory, with one step of fuel for every node.
\<close>

fun chain :: "ramfs \<Rightarrow> int \<Rightarrow> nat list \<Rightarrow> bool" where
  "chain g c [] \<longleftrightarrow> c < 0"
| "chain g c (x # xs) \<longleftrightarrow> c = int x \<and> x < 96 \<and> chain g (rn_next_sibling (g ! x)) xs"

fun walk :: "nat \<Rightarrow> ramfs \<Rightarrow> int \<Rightarrow> nat list" where
  "walk 0 g c = []"
| "walk (Suc k) g c =
     (if c < 0 \<or> c \<ge> 96 then [] else nat c # walk k g (rn_next_sibling (g ! nat c)))"

definition kids :: "ramfs \<Rightarrow> nat \<Rightarrow> nat list" where
  "kids g d = walk 96 g (rn_first_child (g ! d))"

definition node_name :: "ramfs \<Rightarrow> nat \<Rightarrow> u8 list" where
  "node_name g i = c_text (rn_name (g ! i))"

text \<open>What a directory maps names to, and the bytes of a file.\<close>

definition dir_map :: "ramfs \<Rightarrow> nat \<Rightarrow> u8 list \<rightharpoonup> nat" where
  "dir_map g d = map_of (map (\<lambda>i. (node_name g i, i)) (kids g d))"

definition file_bytes :: "ramfs \<Rightarrow> nat \<Rightarrow> u8 list" where
  "file_bytes g i = take (unat (rn_size (g ! i))) (rn_data (g ! i))"

lemma chain_cong:
  "(\<And>x. x \<in> set xs \<Longrightarrow> rn_next_sibling (g' ! x) = rn_next_sibling (g ! x)) \<Longrightarrow> chain g' c xs = chain g c xs"
  by (induction xs arbitrary: c) auto

lemma chain_bound: "chain g c xs \<Longrightarrow> x \<in> set xs \<Longrightarrow> x < 96"
  by (induction xs arbitrary: c) auto

lemma chain_neg [simp]: "c < 0 \<Longrightarrow> chain g c xs \<longleftrightarrow> xs = []"
  by (cases xs) auto

lemma walk_chain: "chain g c xs \<Longrightarrow> length xs \<le> k \<Longrightarrow> walk k g c = xs"
proof (induction xs arbitrary: c k)
  case Nil
  then show ?case by (cases k) auto
next
  case (Cons x xs)
  then show ?case by (cases k) auto
qed

lemma distinct_bound: "distinct xs \<Longrightarrow> (\<And>x. x \<in> set xs \<Longrightarrow> x < n) \<Longrightarrow> length xs \<le> n"
  by (metis atLeast0LessThan card_lessThan card_mono distinct_card finite_lessThan lessThan_iff subsetI)

lemma kids_chain: "chain g (rn_first_child (g ! d)) xs \<Longrightarrow> distinct xs \<Longrightarrow> kids g d = xs"
  unfolding kids_def by (rule walk_chain) (auto intro: distinct_bound chain_bound)

lemma node_at_index [simp]: "i < 96 \<Longrightarrow> node_at (int i) g = Ok (g ! i)"
  by (simp add: node_at_def)

lemma put_node_index [simp]: "put_node (int i) n g = g[i := n]"
  by (simp add: put_node_def)

section \<open>The loops over a chain\<close>

lemma find_child_chain:
  "chain g c xs \<Longrightarrow> find_child_from g name c =
     Some (Ok (case find (\<lambda>x. node_name g x = c_text name) xs of None \<Rightarrow> -1 | Some x \<Rightarrow> int x))"
proof (induction xs arbitrary: c)
  case Nil
  then show ?case by (simp add: find_child_from.simps)
next
  case (Cons x xs)
  then show ?case
    by (subst find_child_from.simps) (simp add: strcmp_eq_0 node_name_def)
qed

lemma readdir_chain:
  "chain g c xs \<Longrightarrow> unat cur + length xs < 2 ^ 32 \<Longrightarrow> cur \<le> index \<Longrightarrow> readdir_from g index c cur =
     Some (Ok (let k = unat index - unat cur
               in if k < length xs
                  then Inr (node_name g (xs ! k), rn_is_dir (g ! (xs ! k)), rn_size (g ! (xs ! k)))
                  else Inl (-1)))"
proof (induction xs arbitrary: c cur)
  case Nil
  then show ?case by (simp add: readdir_from.simps)
next
  case (Cons x xs)
  have cur1: "unat (cur + 1) = unat cur + 1" using Cons.prems(2) by (simp add: unat_word_ariths)
  show ?case
  proof (cases "cur = index")
    case True
    then show ?thesis using Cons.prems by (subst readdir_from.simps) (simp add: node_name_def)
  next
    case False
    then have lt: "cur + 1 \<le> index" "unat cur < unat index"
      using Cons.prems(3) cur1 by (auto simp: word_le_nat_alt word_unat_eq_iff)
    have "readdir_from g index c cur = readdir_from g index (rn_next_sibling (g ! x)) (cur + 1)"
      using False Cons.prems(1) by (subst readdir_from.simps) simp
    also have "\<dots> = Some (Ok (let k = unat index - unat (cur + 1)
               in if k < length xs
                  then Inr (node_name g (xs ! k), rn_is_dir (g ! (xs ! k)), rn_size (g ! (xs ! k)))
                  else Inl (-1)))"
      using Cons.prems cur1 lt by (intro Cons.IH) auto
    also have "\<dots> = Some (Ok (let k = unat index - unat cur
               in if k < length (x # xs)
                  then Inr (node_name g ((x # xs) ! k), rn_is_dir (g ! ((x # xs) ! k)),
                            rn_size (g ! ((x # xs) ! k)))
                  else Inl (-1)))"
      using lt(2) by (simp add: Let_def cur1 nth_Cons' less_diff_conv2 Suc_le_eq)
    finally show ?thesis .
  qed
qed

lemma count_chain:
  "chain g c xs \<Longrightarrow> count_from g c n = Some (Ok (n + of_nat (length (filter (\<lambda>x. \<not> rn_is_dir (g ! x)) xs))))"
proof (induction xs arbitrary: c n)
  case Nil
  then show ?case by (simp add: count_from.simps)
next
  case (Cons x xs)
  then show ?case by (subst count_from.simps) simp
qed

lemma remove_chain:
  "chain g c xs \<Longrightarrow> \<forall>x\<in>set xs. node_name g x \<noteq> c_text name \<Longrightarrow> remove_from g name prev c = Some (Ok (-1, g))"
proof (induction xs arbitrary: c prev)
  case Nil
  then show ?case by (simp add: remove_from.simps)
next
  case (Cons x xs)
  then show ?case by (subst remove_from.simps) (simp add: strcmp_eq_0 node_name_def)
qed

definition unlink :: "ramfs \<Rightarrow> int \<Rightarrow> nat \<Rightarrow> ramfs" where
  "unlink g prev y =
     (if prev < 0 then g[0 := (g ! 0)\<lparr>rn_first_child := rn_next_sibling (g ! y)\<rparr>]
      else g[nat prev := (g ! nat prev)\<lparr>rn_next_sibling := rn_next_sibling (g ! y)\<rparr>])[y := zero_node]"

lemma remove_chain_found:
  "chain g c (xs @ y # ys) \<Longrightarrow> \<forall>x\<in>set xs. node_name g x \<noteq> c_text name \<Longrightarrow> node_name g y = c_text name \<Longrightarrow>
   remove_from g name prev c =
     Some (Ok (0, unlink g (if xs = [] then prev else int (last xs)) y))"
proof (induction xs arbitrary: c prev)
  case Nil
  then show ?case
    by (subst remove_from.simps) (simp add: strcmp_eq_0 node_name_def unlink_def put_node_def)
next
  case (Cons x xs)
  then show ?case by (subst remove_from.simps) (simp add: strcmp_eq_0 node_name_def)
qed

lemma entry_chain:
  "chain g c xs \<Longrightarrow> unat cur + length xs < 2 ^ 32 \<Longrightarrow> cur \<le> index \<Longrightarrow> entry_from g index c cur =
     Some (Ok (let k = unat index - unat cur; fs = filter (\<lambda>x. \<not> rn_is_dir (g ! x)) xs
               in if k < length fs then Inr (node_name g (fs ! k), rn_size (g ! (fs ! k))) else Inl (-1)))"
proof (induction xs arbitrary: c cur)
  case Nil
  then show ?case by (simp add: entry_from.simps)
next
  case (Cons x xs)
  have cur1: "unat (cur + 1) = unat cur + 1" using Cons.prems(2) by (simp add: unat_word_ariths)
  consider "rn_is_dir (g ! x)" | "\<not> rn_is_dir (g ! x)" "cur = index" | "\<not> rn_is_dir (g ! x)" "cur \<noteq> index"
    by blast
  then show ?case
  proof cases
    case 1
    then show ?thesis using Cons by (subst entry_from.simps) simp
  next
    case 2
    then show ?thesis using Cons.prems by (subst entry_from.simps) (simp add: node_name_def)
  next
    case 3
    then have lt: "cur + 1 \<le> index" "unat cur < unat index"
      using Cons.prems(3) cur1 by (auto simp: word_le_nat_alt word_unat_eq_iff)
    have "entry_from g index c cur = entry_from g index (rn_next_sibling (g ! x)) (cur + 1)"
      using 3 Cons.prems(1) by (subst entry_from.simps) simp
    also have "\<dots> = Some (Ok (let k = unat index - unat (cur + 1); fs = filter (\<lambda>x. \<not> rn_is_dir (g ! x)) xs
               in if k < length fs then Inr (node_name g (fs ! k), rn_size (g ! (fs ! k))) else Inl (-1)))"
      using Cons.prems cur1 lt by (intro Cons.IH) auto
    also have "\<dots> = Some (Ok (let k = unat index - unat cur; fs = filter (\<lambda>x. \<not> rn_is_dir (g ! x)) (x # xs)
               in if k < length fs then Inr (node_name g (fs ! k), rn_size (g ! (fs ! k))) else Inl (-1)))"
      using lt(2) 3(1) by (simp add: Let_def cur1 nth_Cons' less_diff_conv2 Suc_le_eq)
    finally show ?thesis .
  qed
qed

end
