(* ===== verification/Ramfs_Laws.thy ===== *)
theory Ramfs_Laws
  imports Ramfs
begin

unbundle bit_operations_syntax

text \<open>
  The invariant of the node table of \<open>kernel/fs/ramfs.c\<close> and what every operation does to it: a
  directory is a finite map from names to nodes, a file a list of bytes. A node that is used but in
  no chain is possible (removing a directory leaves its children behind); a chain never reaches an
  unused node.
\<close>

section \<open>Invariant\<close>

definition node_ok :: "ramfs_node \<Rightarrow> bool" where
  "node_ok n \<longleftrightarrow> length (rn_name n) = 24 \<and> length (rn_data n) = 512 \<and> rn_size n \<le> 512 \<and>
     (rn_is_dir n \<longrightarrow> rn_used n)"

definition dir_ok :: "ramfs \<Rightarrow> nat \<Rightarrow> bool" where
  "dir_ok g d \<longleftrightarrow> chain g (rn_first_child (g ! d)) (kids g d) \<and>
     (\<forall>x\<in>set (kids g d). x \<noteq> 0 \<and> rn_used (g ! x) \<and> rn_parent (g ! x) = int d) \<and>
     distinct (map (node_name g) (kids g d))"

definition ramfs_inv :: "ramfs \<Rightarrow> bool" where
  "ramfs_inv g \<longleftrightarrow> length g = 96 \<and> (\<forall>i<96. node_ok (g ! i)) \<and> rn_used (g ! 0) \<and> rn_is_dir (g ! 0) \<and>
     (\<forall>d<96. rn_is_dir (g ! d) \<longrightarrow> dir_ok g d)"

text \<open>\<open>d\<close> is a directory of the table.\<close>

definition is_directory :: "ramfs \<Rightarrow> nat \<Rightarrow> bool" where
  "is_directory g d \<longleftrightarrow> d < 96 \<and> rn_is_dir (g ! d)"

lemma ramfs_invD:
  assumes "ramfs_inv g"
  shows "length g = 96" and "i < 96 \<Longrightarrow> node_ok (g ! i)" and "is_directory g 0"
    and "is_directory g d \<Longrightarrow> dir_ok g d" and "is_directory g d \<Longrightarrow> rn_used (g ! d)"
    and "is_directory g d \<Longrightarrow> d < 96" and "is_directory g d \<Longrightarrow> rn_is_dir (g ! d)"
  using assms by (auto simp: ramfs_inv_def is_directory_def node_ok_def)

lemma ramfs_invI:
  assumes "length g = 96" and "\<And>i. i < 96 \<Longrightarrow> node_ok (g ! i)" and "is_directory g 0"
    and "\<And>d. is_directory g d \<Longrightarrow> dir_ok g d"
  shows "ramfs_inv g"
  using assms by (auto simp: ramfs_inv_def is_directory_def node_ok_def)

lemma node_ok_links [simp]:
  "node_ok (n\<lparr>rn_first_child := c\<rparr>) = node_ok n" "node_ok (n\<lparr>rn_next_sibling := c\<rparr>) = node_ok n"
  by (simp_all add: node_ok_def)

lemma dir_okD:
  assumes "dir_ok g d"
  shows "chain g (rn_first_child (g ! d)) (kids g d)" and "distinct (kids g d)"
    and "x \<in> set (kids g d) \<Longrightarrow> x \<noteq> 0 \<and> x < 96 \<and> rn_used (g ! x) \<and> rn_parent (g ! x) = int d"
    and "distinct (map (node_name g) (kids g d))" and "length (kids g d) \<le> 96"
proof -
  show c: "chain g (rn_first_child (g ! d)) (kids g d)" and dm: "distinct (map (node_name g) (kids g d))"
    using assms by (simp_all add: dir_ok_def)
  show "x \<in> set (kids g d) \<Longrightarrow> x \<noteq> 0 \<and> x < 96 \<and> rn_used (g ! x) \<and> rn_parent (g ! x) = int d" for x
    using assms chain_bound [OF c] by (auto simp: dir_ok_def)
  show "distinct (kids g d)" using dm by (rule distinct_map [THEN iffD1, THEN conjunct1])
  then show "length (kids g d) \<le> 96" using chain_bound [OF c] by (rule distinct_bound)
qed

lemma dir_okI:
  assumes "chain g (rn_first_child (g ! d)) xs" and "distinct (map (node_name g) xs)"
    and "\<And>x. x \<in> set xs \<Longrightarrow> x \<noteq> 0 \<and> rn_used (g ! x) \<and> rn_parent (g ! x) = int d"
  shows "dir_ok g d" and "kids g d = xs"
proof -
  have "distinct xs" using assms(2) by (rule distinct_map [THEN iffD1, THEN conjunct1])
  with assms(1) show k: "kids g d = xs" by (rule kids_chain)
  show "dir_ok g d" using assms by (simp add: dir_ok_def k)
qed

text \<open>A directory is untouched where its own link and its children are.\<close>

lemma dir_frame:
  assumes "dir_ok g d" and "rn_first_child (g' ! d) = rn_first_child (g ! d)"
    and "\<And>x. x \<in> set (kids g d) \<Longrightarrow> rn_next_sibling (g' ! x) = rn_next_sibling (g ! x) \<and>
      rn_used (g' ! x) \<and> rn_parent (g' ! x) = int d \<and> rn_name (g' ! x) = rn_name (g ! x)"
  shows "dir_ok g' d" and "kids g' d = kids g d" and "dir_map g' d = dir_map g d"
proof -
  note ok = dir_okD [OF assms(1)]
  have nm: "map (node_name g') (kids g d) = map (node_name g) (kids g d)"
    using assms(3) by (simp add: node_name_def)
  have c: "chain g' (rn_first_child (g' ! d)) (kids g d)"
    using ok(1) assms(3) chain_cong [of "kids g d" g' g] by (simp add: assms(2))
  show "dir_ok g' d" and k: "kids g' d = kids g d"
    using dir_okI [OF c] nm ok assms(3) by simp_all
  show "dir_map g' d = dir_map g d"
    unfolding dir_map_def k using assms(3) by (simp add: node_name_def cong: map_cong)
qed

lemma distinct_map_other:
  assumes "distinct (map f (xs @ y # ys))" and "x \<in> set (xs @ ys)"
  shows "f x \<noteq> f y"
proof -
  have "f y \<notin> f ` set (xs @ ys)" using assms(1) by auto
  then show ?thesis using assms(2) by (metis imageI)
qed

lemma distinct_names:
  "(\<And>x. x \<in> set xs \<Longrightarrow> node_name g' x = node_name g x) \<Longrightarrow>
   distinct (map (node_name g') xs) = distinct (map (node_name g) xs)"
  by (simp cong: map_cong)

lemma dir_map_find:
  assumes "dir_ok g d"
  shows "find (\<lambda>x. node_name g x = nm) (kids g d) = dir_map g d nm"
proof -
  have "find (\<lambda>x. node_name g x = nm) xs = map_of (map (\<lambda>i. (node_name g i, i)) xs) nm" for xs
    by (induction xs) auto
  then show ?thesis by (simp add: dir_map_def)
qed

lemma dir_map_Some:
  assumes "dir_ok g d"
  shows "dir_map g d nm = Some x \<longleftrightarrow> x \<in> set (kids g d) \<and> node_name g x = nm"
proof -
  have "distinct (map fst (map (\<lambda>i. (node_name g i, i)) (kids g d)))"
    using dir_okD(4) [OF assms] by (simp add: comp_def)
  then show ?thesis by (auto simp: dir_map_def)
qed

lemma node_find_child_spec:
  assumes "ramfs_inv g" and "is_directory g d"
  shows "node_find_child (int d) nm g =
    Ok (case dir_map g d (c_text nm) of None \<Rightarrow> -1 | Some x \<Rightarrow> int x)"
proof -
  note ok = ramfs_invD [OF assms(1)]
  have d: "dir_ok g d" "d < 96" using ok(4,6) [OF assms(2)] by auto
  show ?thesis
    using find_child_chain [OF dir_okD(1) [OF d(1)], of nm] d
    by (simp add: node_find_child_def dir_map_find)
qed

lemma child_index:
  assumes "ramfs_inv g" and "is_directory g d" and "dir_map g d nm = Some x"
  shows "x < 96" and "x \<noteq> 0" and "rn_used (g ! x)" and "rn_parent (g ! x) = int d" and "x \<in> set (kids g d)"
proof -
  have d: "dir_ok g d" using ramfs_invD(4) [OF assms(1,2)] .
  then show "x < 96" "x \<noteq> 0" "rn_used (g ! x)" "rn_parent (g ! x) = int d" "x \<in> set (kids g d)"
    using assms(3) dir_okD(3) [OF d, of x] by (auto simp: dir_map_Some)
qed

section \<open>Creation\<close>

definition legal_name :: "u8 list \<Rightarrow> bool" where
  "legal_name nm \<longleftrightarrow> c_text nm \<noteq> [] \<and> length (c_text nm) < 24"

definition fresh_node :: "ramfs \<Rightarrow> nat option" where
  "fresh_node g = find (\<lambda>i. \<not> rn_used (g ! i)) [0..<96]"

definition new_node :: "ramfs \<Rightarrow> nat \<Rightarrow> u8 list \<Rightarrow> bool \<Rightarrow> ramfs_node" where
  "new_node g d nm isd = zero_node\<lparr>rn_used := True, rn_is_dir := isd, rn_parent := int d,
     rn_first_child := -1, rn_next_sibling := rn_first_child (g ! d),
     rn_name := blit (replicate 24 0) 0 (c_text nm @ [0])\<rparr>"

definition linked :: "ramfs \<Rightarrow> nat \<Rightarrow> nat \<Rightarrow> u8 list \<Rightarrow> bool \<Rightarrow> ramfs" where
  "linked g d x nm isd = g[x := new_node g d nm isd, d := (g ! d)\<lparr>rn_first_child := int x\<rparr>]"

definition discarded :: "ramfs \<Rightarrow> nat \<Rightarrow> u8 list \<Rightarrow> ramfs" where
  "discarded g x nm = g[x := zero_node\<lparr>rn_parent := -1, rn_first_child := -1, rn_next_sibling := -1,
     rn_name := snd (s_copy (replicate 24 0) nm 24)\<rparr>]"

lemma take_strlen: "take (strlen s) s = c_text s"
  by (induction s) auto

lemma s_copy_spec:
  "s_copy dst nm 24 =
     (if legal_name nm then (0, blit dst 0 (c_text nm @ [0])) else (-1, snd (s_copy dst nm 24)))"
proof -
  have "first_char nm = 0 \<longleftrightarrow> c_text nm = []" by (cases nm) auto
  then show ?thesis
    using take_strlen [of nm] by (auto simp: s_copy_def legal_name_def strlen_text Let_def min_def)
qed

lemma length_s_copy: "length dst = 24 \<Longrightarrow> length (snd (s_copy dst nm 24)) = 24"
  by (auto simp: s_copy_def Let_def blit_def min_def)

lemma fresh_node_Some: "fresh_node g = Some x \<Longrightarrow> x < 96 \<and> \<not> rn_used (g ! x)"
  by (auto simp: fresh_node_def find_Some_iff)

lemma fresh_not_child:
  assumes "dir_ok g d" and "fresh_node g = Some x"
  shows "x \<notin> set (kids g d)"
  using dir_okD(3) [OF assms(1), of x] fresh_node_Some [OF assms(2)] by blast

lemma node_create_child_spec:
  assumes inv: "ramfs_inv g" and d: "is_directory g d"
  shows "node_create_child (int d) nm isd g =
    (if dir_map g d (c_text nm) \<noteq> None then Ok (-1, g)
     else case fresh_node g of
            None \<Rightarrow> Ok (-2, g)
          | Some x \<Rightarrow> if legal_name nm then Ok (int x, linked g d x nm isd) else Ok (-1, discarded g x nm))"
proof -
  note found = node_find_child_spec [OF assms, of nm]
  have d96: "d < 96" and used: "rn_used (g ! d)" and len: "length g = 96"
    using ramfs_invD [OF inv] d by auto
  show ?thesis
  proof (cases "dir_map g d (c_text nm)")
    case None
    show ?thesis
    proof (cases "fresh_node g")
      case None
      then show ?thesis
        using found \<open>dir_map g d (c_text nm) = None\<close>
        by (simp add: node_create_child_def node_alloc_def fresh_node_def Let_def)
    next
      case (Some x)
      have x: "x < 96" "x \<noteq> d" using fresh_node_Some [OF Some] used by auto
      show ?thesis
        using found \<open>dir_map g d (c_text nm) = None\<close> Some x d96 len
        by (simp add: node_create_child_def node_alloc_def fresh_node_def [symmetric] Let_def
            s_copy_spec [of "rn_name _"] linked_def new_node_def discarded_def zero_node_def
            list_update_swap [of x d])
    qed
  qed (use found in \<open>simp add: node_create_child_def\<close>)
qed

text \<open>A new child appears under its name; nothing else changes.\<close>

lemma new_node_fields:
  assumes "legal_name nm"
  shows "node_ok (new_node g d nm isd)" and "c_text (rn_name (new_node g d nm isd)) = c_text nm"
    and "rn_used (new_node g d nm isd)" and "rn_parent (new_node g d nm isd) = int d"
    and "rn_next_sibling (new_node g d nm isd) = rn_first_child (g ! d)"
    and "rn_first_child (new_node g d nm isd) = -1" and "rn_is_dir (new_node g d nm isd) = isd"
    and "rn_size (new_node g d nm isd) = 0"
  using assms
  by (simp_all add: new_node_def zero_node_def node_ok_def legal_name_def blit_def c_text_terminated)

lemma linked_nth:
  assumes "length g = 96" and "x < 96" and "d < 96" and "x \<noteq> d"
  shows "linked g d x nm isd ! i =
    (if i = d then (g ! d)\<lparr>rn_first_child := int x\<rparr> else if i = x then new_node g d nm isd else g ! i)"
  using assms by (simp add: linked_def nth_list_update)

lemma linked_spec:
  fixes isd :: bool
  assumes inv: "ramfs_inv g" and d: "is_directory g d" and x: "fresh_node g = Some x"
    and nm: "legal_name nm" and new: "dir_map g d (c_text nm) = None"
  defines "g' \<equiv> linked g d x nm isd"
  shows "ramfs_inv g'" and "dir_map g' d = (dir_map g d)(c_text nm \<mapsto> x)"
    and "\<And>e. is_directory g e \<Longrightarrow> e \<noteq> d \<Longrightarrow> dir_map g' e = dir_map g e"
    and "\<And>e. is_directory g' e \<longleftrightarrow> is_directory g e \<or> e = x \<and> isd"
    and "isd \<Longrightarrow> dir_map g' x = Map.empty" and "file_bytes g' x = []"
    and "\<And>i. i \<noteq> x \<Longrightarrow> file_bytes g' i = file_bytes g i"
    and "\<And>i. i \<noteq> x \<Longrightarrow> rn_used (g' ! i) = rn_used (g ! i) \<and> rn_is_dir (g' ! i) = rn_is_dir (g ! i)"
    and "rn_used (g' ! x)" and "rn_is_dir (g' ! x) = isd"
proof -
  note I = ramfs_invD [OF inv]
  note N = new_node_fields [OF nm, of g d isd]
  have d96: "d < 96" and ud: "rn_used (g ! d)" and okd: "dir_ok g d" using I d by auto
  have x96: "x < 96" and ux: "\<not> rn_used (g ! x)" and xd: "x \<noteq> d" using fresh_node_Some [OF x] ud by auto
  have nd: "\<not> is_directory g x" using I(5) ux by blast
  have x0: "x \<noteq> 0" using I(3) nd by metis
  note nth = linked_nth [OF I(1) x96 d96 xd, of nm isd, folded g'_def]
  have other: "x \<notin> set (kids g e)" if "is_directory g e" for e
    using fresh_not_child [OF I(4) [OF that] x] .
  have frame: "dir_ok g' e \<and> dir_map g' e = dir_map g e" if e: "is_directory g e" "e \<noteq> d" for e
  proof -
    have "e \<noteq> x" using e nd by auto
    then have 1: "rn_first_child (g' ! e) = rn_first_child (g ! e)" using e by (simp add: nth)
    have 2: "rn_next_sibling (g' ! y) = rn_next_sibling (g ! y) \<and> rn_used (g' ! y) \<and>
        rn_parent (g' ! y) = int e \<and> rn_name (g' ! y) = rn_name (g ! y)" if y: "y \<in> set (kids g e)" for y
    proof -
      have "y \<noteq> x" using other [OF e(1)] y by auto
      then show ?thesis using dir_okD(3) [OF I(4) [OF e(1)] y] by (auto simp: nth)
    qed
    show ?thesis using dir_frame [OF I(4) [OF e(1)] 1 2] by blast
  qed
  have names: "node_name g' i = node_name g i" if "i \<noteq> x" for i using that by (simp add: node_name_def nth)
  have xname: "node_name g' x = c_text nm" using N(2) xd by (simp add: node_name_def nth)
  have chain: "chain g' (rn_first_child (g' ! d)) (x # kids g d)"
  proof -
    have "rn_next_sibling (g' ! y) = rn_next_sibling (g ! y)" if "y \<in> set (kids g d)" for y
      using that other [OF d] by (auto simp: nth)
    then have "chain g' (rn_first_child (g ! d)) (kids g d)"
      using dir_okD(1) [OF okd] chain_cong [of "kids g d" g' g] by blast
    then show ?thesis using x96 xd N(5) by (simp add: nth)
  qed
  have new': "\<forall>y\<in>set (kids g d). node_name g y \<noteq> c_text nm"
    using new dir_map_Some [OF okd, of "c_text nm"] by fastforce
  have kn: "node_name g' y = node_name g y" if "y \<in> set (kids g d)" for y
    using that other [OF d] by (intro names) auto
  then have km: "map (\<lambda>i. (node_name g' i, i)) (kids g d) = map (\<lambda>i. (node_name g i, i)) (kids g d)"
    by (intro map_cong) auto
  have dist: "distinct (map (node_name g') (x # kids g d))"
  proof -
    have "c_text nm \<notin> node_name g' ` set (kids g d)" using new' kn by auto
    then show ?thesis using dir_okD(4) [OF okd] distinct_names [OF kn] xname by simp
  qed
  have kid: "y \<noteq> 0 \<and> rn_used (g' ! y) \<and> rn_parent (g' ! y) = int d" if "y \<in> set (x # kids g d)" for y
    using that dir_okD(3) [OF okd, of y] N(3,4) x0 xd by (auto simp: nth)
  have D: "dir_ok g' d" "kids g' d = x # kids g d" using dir_okI [OF chain dist] kid by blast+
  show map: "dir_map g' d = (dir_map g d)(c_text nm \<mapsto> x)"
    unfolding dir_map_def D(2) list.map km by (simp add: xname)
  show dirs: "is_directory g' e \<longleftrightarrow> is_directory g e \<or> e = x \<and> isd" for e
    using N(7) nd xd x96 d by (auto simp: is_directory_def nth)
  have xok: "dir_ok g' x" "kids g' x = []"
    using dir_okI [of g' x "[]"] N(6) xd by (simp_all add: nth)
  then show "isd \<Longrightarrow> dir_map g' x = Map.empty" by (simp add: dir_map_def)
  have all: "dir_ok g' e" if "is_directory g' e" for e
    using that frame D(1) xok(1) dirs by (cases "e = d") auto
  have nok: "node_ok (g' ! i)" if "i < 96" for i
    using I(2) [OF that] I(2) [OF d96] N(1) by (simp add: nth node_ok_def)
  have "length g' = 96" using I(1) by (simp add: g'_def linked_def)
  then show "ramfs_inv g'" using nok all dirs I(3) by (intro ramfs_invI) blast+
  show "is_directory g e \<Longrightarrow> e \<noteq> d \<Longrightarrow> dir_map g' e = dir_map g e" for e using frame by blast
  show "file_bytes g' x = []" using N(8) xd by (simp add: file_bytes_def nth)
  show "i \<noteq> x \<Longrightarrow> file_bytes g' i = file_bytes g i" for i by (simp add: file_bytes_def nth)
  show "i \<noteq> x \<Longrightarrow> rn_used (g' ! i) = rn_used (g ! i) \<and> rn_is_dir (g' ! i) = rn_is_dir (g ! i)" for i
    by (simp add: nth)
  show "rn_used (g' ! x)" "rn_is_dir (g' ! x) = isd" using N(3,7) xd by (simp_all add: nth)
qed

text \<open>Writing to an unused node, or the data of a used one, changes no directory.\<close>

lemma update_frame:
  assumes inv: "ramfs_inv g" and y: "y < 96" and ok: "node_ok n"
    and same: "rn_used (g ! y) \<Longrightarrow> rn_used n \<and> rn_parent n = rn_parent (g ! y) \<and>
      rn_first_child n = rn_first_child (g ! y) \<and> rn_next_sibling n = rn_next_sibling (g ! y) \<and>
      rn_name n = rn_name (g ! y)"
    and dir: "rn_is_dir n = rn_is_dir (g ! y)"
  shows "ramfs_inv (g[y := n])" and "is_directory (g[y := n]) d = is_directory g d"
    and "is_directory g d \<Longrightarrow> dir_map (g[y := n]) d = dir_map g d"
proof -
  note I = ramfs_invD [OF inv]
  have nth: "g[y := n] ! i = (if i = y then n else g ! i)" for i using y I(1) by (simp add: nth_list_update)
  show dirs: "is_directory (g[y := n]) d = is_directory g d" for d
    using dir by (simp add: is_directory_def nth)
  have frame: "dir_ok (g[y := n]) e \<and> dir_map (g[y := n]) e = dir_map g e" if e: "is_directory g e" for e
  proof -
    have 1: "rn_first_child (g[y := n] ! e) = rn_first_child (g ! e)"
      using same I(5) [OF e] by (auto simp: nth)
    have 2: "rn_next_sibling (g[y := n] ! x) = rn_next_sibling (g ! x) \<and> rn_used (g[y := n] ! x) \<and>
        rn_parent (g[y := n] ! x) = int e \<and> rn_name (g[y := n] ! x) = rn_name (g ! x)"
      if "x \<in> set (kids g e)" for x
      using same dir_okD(3) [OF I(4) [OF e] that] by (auto simp: nth)
    show ?thesis using dir_frame [OF I(4) [OF e] 1 2] by blast
  qed
  then show "is_directory g d \<Longrightarrow> dir_map (g[y := n]) d = dir_map g d" by blast
  show "ramfs_inv (g[y := n])"
  proof (rule ramfs_invI)
    show "length (g[y := n]) = 96" using I(1) by simp
    show "node_ok (g[y := n] ! i)" if "i < 96" for i using I(2) [OF that] ok by (simp add: nth)
    show "is_directory (g[y := n]) 0" using I(3) dirs by blast
    show "dir_ok (g[y := n]) e" if "is_directory (g[y := n]) e" for e using that frame dirs by blast
  qed
qed

section \<open>Removal\<close>

lemma chain_tail: "chain g c (xs @ y # ys) \<Longrightarrow> chain g (rn_next_sibling (g ! y)) ys"
  by (induction xs arbitrary: c) auto

lemma chain_splice:
  "chain g c (xs @ y # ys) \<Longrightarrow> (\<And>x. x \<in> set xs \<Longrightarrow> rn_next_sibling (g' ! x) = rn_next_sibling (g ! x)) \<Longrightarrow>
   chain g' (rn_next_sibling (g' ! y)) zs \<Longrightarrow> chain g' c (xs @ y # zs)"
  by (induction xs arbitrary: c) auto

lemma zero_node_fields [simp]:
  "node_ok zero_node" "\<not> rn_used zero_node" "\<not> rn_is_dir zero_node"
  by (simp_all add: zero_node_def node_ok_def)

lemma unlink_nth:
  assumes "length g = 96" and "y < 96" and "nat p < 96" and "nat p \<noteq> y" and "y \<noteq> 0"
  shows "unlink g p y ! i =
    (if i = y then zero_node
     else if p < 0 \<and> i = 0 then (g ! 0)\<lparr>rn_first_child := rn_next_sibling (g ! y)\<rparr>
     else if 0 \<le> p \<and> i = nat p then (g ! i)\<lparr>rn_next_sibling := rn_next_sibling (g ! y)\<rparr>
     else g ! i)"
  using assms by (auto simp: unlink_def nth_list_update)

lemma unlink_spec:
  assumes inv: "ramfs_inv g" and xs: "kids g 0 = xs @ y # ys"
  defines "g' \<equiv> unlink g (if xs = [] then -1 else int (last xs)) y"
  shows "ramfs_inv g'" and "dir_map g' 0 = (dir_map g 0)(node_name g y := None)"
    and "\<And>e. is_directory g' e \<longleftrightarrow> is_directory g e \<and> e \<noteq> y"
    and "\<And>e. is_directory g' e \<Longrightarrow> e \<noteq> 0 \<Longrightarrow> dir_map g' e = dir_map g e"
    and "\<not> rn_used (g' ! y)" and "\<And>i. i \<noteq> y \<Longrightarrow> file_bytes g' i = file_bytes g i"
proof -
  note I = ramfs_invD [OF inv]
  have ok0: "dir_ok g 0" using I(4) [OF I(3)] .
  note K = dir_okD [OF ok0, unfolded xs]
  have y: "y \<noteq> 0" "y < 96" "rn_parent (g ! y) = 0" using K(3) [of y] by auto
  define p where "p = (if xs = [] then - 1 else int (last xs))"
  have last: "xs \<noteq> [] \<Longrightarrow> last xs \<in> set xs" by simp
  have p: "nat p < 96" "nat p \<noteq> y" "xs \<noteq> [] \<Longrightarrow> 0 \<le> p \<and> nat p = last xs" "xs = [] \<Longrightarrow> p = -1"
    using K(2) K(3) [of "last xs"] y last by (auto simp: p_def)
  note nth = unlink_nth [OF I(1) y(2) p(1,2) y(1), folded p_def, folded g'_def [folded p_def]]
  have pname: "node_name g' i = node_name g i" "rn_parent (g' ! i) = rn_parent (g ! i)"
      "rn_used (g' ! i) = rn_used (g ! i)" "rn_is_dir (g' ! i) = rn_is_dir (g ! i)"
      "file_bytes g' i = file_bytes g i" if "i \<noteq> y" for i
    using that by (auto simp: nth node_name_def file_bytes_def)
  have sib: "rn_next_sibling (g' ! i) = rn_next_sibling (g ! i)" if "i \<noteq> y" "xs = [] \<or> i \<noteq> last xs" for i
    using that p(3,4) by (cases "xs = []") (auto simp: nth)
  have tail: "chain g' (rn_next_sibling (g ! y)) ys"
    using chain_tail [OF K(1)] K(2) last sib chain_cong [of ys g' g] by fastforce
  have chain: "chain g' (rn_first_child (g' ! 0)) (xs @ ys)"
  proof (cases xs rule: rev_cases)
    case Nil
    then show ?thesis using tail p(4) y(1) by (simp add: nth)
  next
    case (snoc zs q)
    have c: "chain g (rn_first_child (g ! 0)) (zs @ q # y # ys)" using K(1) snoc by simp
    have q: "q = last xs" "rn_next_sibling (g' ! q) = rn_next_sibling (g ! y)"
      using snoc p(2,3) by (auto simp: nth)
    have "q \<notin> set zs" "y \<notin> set zs" using K(2) snoc by auto
    then have "rn_next_sibling (g' ! x) = rn_next_sibling (g ! x)" if "x \<in> set zs" for x
      using that sib q(1) by metis
    then have "chain g' (rn_first_child (g ! 0)) (zs @ q # ys)"
      using chain_splice [OF c] tail q(2) by simp
    then show ?thesis using snoc p(3) y(1) by (auto simp: nth)
  qed
  have dist: "distinct (map (node_name g') (xs @ ys))"
  proof -
    have "distinct (map (node_name g') (xs @ ys)) = distinct (map (node_name g) (xs @ ys))"
      using K(2) by (intro distinct_names pname(1)) auto
    then show ?thesis using K(4) by auto
  qed
  have kid: "x \<noteq> 0 \<and> rn_used (g' ! x) \<and> rn_parent (g' ! x) = int 0" if "x \<in> set (xs @ ys)" for x
  proof -
    have "x \<noteq> y" using that K(2) by auto
    then show ?thesis using that K(3) [of x] pname by auto
  qed
  have D: "dir_ok g' 0" "kids g' 0 = xs @ ys" using dir_okI [OF chain dist] kid by blast+
  show dirs: "is_directory g' e \<longleftrightarrow> is_directory g e \<and> e \<noteq> y" for e
    using pname(4) by (cases "e = y") (auto simp: is_directory_def nth)
  have ny: "node_name g x \<noteq> node_name g y" if "x \<in> set (xs @ ys)" for x
    using distinct_map_other [OF K(4) that] .
  show "dir_map g' 0 = (dir_map g 0)(node_name g y := None)"
  proof
    fix nm
    have "dir_map g' 0 nm = Some x \<longleftrightarrow> dir_map g 0 nm = Some x \<and> nm \<noteq> node_name g y" for x
    proof (cases "x = y")
      case True
      then show ?thesis using K(2) unfolding dir_map_Some [OF D(1)] dir_map_Some [OF ok0] D(2) xs by auto
    next
      case False
      then show ?thesis
        using pname(1) [OF False] ny [of x] unfolding dir_map_Some [OF D(1)] dir_map_Some [OF ok0] D(2) xs
        by auto
    qed
    then have eq: "dir_map g' 0 nm = Some x \<longleftrightarrow> ((dir_map g 0)(node_name g y := None)) nm = Some x" for x
      by simp
    show "dir_map g' 0 nm = ((dir_map g 0)(node_name g y := None)) nm"
    proof (cases "dir_map g' 0 nm")
      case None
      then show ?thesis using eq by (metis option.exhaust)
    qed (use eq in metis)
  qed
  have frame: "dir_ok g' e \<and> dir_map g' e = dir_map g e" if e: "is_directory g e" "e \<noteq> y" "e \<noteq> 0" for e
  proof -
    have 1: "rn_first_child (g' ! e) = rn_first_child (g ! e)" using e by (auto simp: nth)
    have 2: "rn_next_sibling (g' ! x) = rn_next_sibling (g ! x) \<and> rn_used (g' ! x) \<and>
        rn_parent (g' ! x) = int e \<and> rn_name (g' ! x) = rn_name (g ! x)" if x: "x \<in> set (kids g e)" for x
    proof -
      have xe: "rn_used (g ! x)" "rn_parent (g ! x) = int e"
        using dir_okD(3) [OF I(4) [OF e(1)] x] by auto
      have "x \<noteq> y" "xs \<noteq> [] \<longrightarrow> x \<noteq> last xs" using xe(2) y(3) K(3) [of "last xs"] e(3) by auto
      then show ?thesis using xe sib [of x] pname [of x] by (auto simp: nth)
    qed
    show ?thesis using dir_frame [OF I(4) [OF e(1)] 1 2] by blast
  qed
  show "is_directory g' e \<Longrightarrow> e \<noteq> 0 \<Longrightarrow> dir_map g' e = dir_map g e" for e using frame dirs by blast
  show "ramfs_inv g'"
  proof (rule ramfs_invI)
    show "length g' = 96" using I(1) by (simp add: g'_def unlink_def)
    show "node_ok (g' ! i)" if "i < 96" for i
      using I(2) [OF that] I(2) [of 0] by (auto simp: nth)
    show "is_directory g' 0" using dirs I(3) y(1) by blast
    show "dir_ok g' e" if "is_directory g' e" for e using that frame dirs D(1) by (cases "e = 0") auto
  qed
  show "\<not> rn_used (g' ! y)" by (simp add: nth)
  show "i \<noteq> y \<Longrightarrow> file_bytes g' i = file_bytes g i" for i by (rule pname(5))
qed

lemma ramfs_remove_spec:
  assumes inv: "ramfs_inv g"
  shows "ramfs_remove nm g =
    (case dir_map g 0 (c_text nm) of
       None \<Rightarrow> Ok (-1, g)
     | Some y \<Rightarrow> Ok (0, unlink g (let xs = takeWhile (\<lambda>x. x \<noteq> y) (kids g 0)
                                 in if xs = [] then -1 else int (last xs)) y))"
proof -
  note I = ramfs_invD [OF inv]
  have ok: "dir_ok g 0" using I(4) [OF I(3)] .
  show ?thesis
  proof (cases "dir_map g 0 (c_text nm)")
    case None
    then have "node_name g x \<noteq> c_text nm" if "x \<in> set (kids g 0)" for x
      using that dir_map_Some [OF ok, of "c_text nm" x] by auto
    then show ?thesis
      using remove_chain [OF dir_okD(1) [OF ok]] None by (simp add: ramfs_remove_def)
  next
    case (Some y)
    then have y: "y \<in> set (kids g 0)" "node_name g y = c_text nm" by (simp_all add: dir_map_Some [OF ok])
    obtain xs ys where split: "kids g 0 = xs @ y # ys" "y \<notin> set xs"
      using split_list_first [OF y(1)] by blast
    have tw: "takeWhile (\<lambda>x. x \<noteq> y) (kids g 0) = xs"
      unfolding split(1) using split(2) by (subst takeWhile_append2) auto
    have "\<forall>x\<in>set xs. node_name g x \<noteq> c_text nm"
      using distinct_map_other [OF dir_okD(4) [OF ok, unfolded split(1)]] y(2) by simp
    then show ?thesis
      using remove_chain_found [of g _ xs y ys nm "-1"] dir_okD(1) [OF ok] split y(2) Some tw
      by (simp add: ramfs_remove_def Let_def)
  qed
qed

section \<open>Reading and writing\<close>

lemma length_file_bytes: "node_ok (g ! i) \<Longrightarrow> length (file_bytes g i) = unat (rn_size (g ! i))"
  by (simp add: file_bytes_def node_ok_def word_le_nat_alt)

lemma fs_read_spec:
  assumes inv: "ramfs_inv g" and i: "i < 96" "\<not> rn_is_dir (g ! i)" and b: "unat n \<le> length b"
  defines "f \<equiv> file_bytes g i"
  shows "fs_read ctx (Some i) offset (Some b) n g =
    (let ys = take (unat n) (drop (unat offset) f) in Ok (int (length ys), Some (blit b 0 ys)))"
proof -
  have ok: "node_ok (g ! i)" using ramfs_invD(2) [OF inv i(1)] .
  have len: "length f = unat (rn_size (g ! i))" using length_file_bytes [OF ok] by (simp add: f_def)
  show ?thesis
  proof (cases "offset \<ge> rn_size (g ! i)")
    case True
    then have "length f \<le> unat offset" using len by (simp add: word_le_nat_alt)
    then show ?thesis using True i by (simp add: fs_read_def Let_def)
  next
    case False
    let ?c = "rn_size (g ! i) - offset"
    have c: "unat ?c = length f - unat offset" using False len by (simp add: unat_sub word_le_nat_alt)
    define can where "can = (if ?c > n then n else ?c)"
    have can: "unat can = min (length f - unat offset) (unat n)"
      using c by (auto simp: can_def word_less_nat_alt)
    have bytes: "take (unat can) (drop (unat offset) (rn_data (g ! i))) =
        take (unat n) (drop (unat offset) f)"
      using can len by (simp add: f_def file_bytes_def drop_take) (simp add: min.commute)
    have "fs_read ctx (Some i) offset (Some b) n g =
        Ok (uint can, Some (blit b 0 (take (unat can) (drop (unat offset) (rn_data (g ! i))))))"
      using False i b can by (simp add: fs_read_def Let_def can_def [symmetric])
    moreover have "int (unat can) = int (length (take (unat n) (drop (unat offset) f)))"
      unfolding can by (simp add: min.commute)
    then have "uint can = int (length (take (unat n) (drop (unat offset) f)))" by simp
    ultimately show ?thesis by (simp only: bytes Let_def)
  qed
qed

lemma blit_take:
  assumes "i \<le> n" and "i + length ys \<le> length xs" and "n \<le> length xs"
  shows "take (max n (i + length ys)) (blit xs i ys) = blit (take n xs) i ys"
proof -
  have i: "min (length xs) i = i" "min i n = i" "min i (length xs) = i" using assms by simp_all
  show ?thesis
  proof (cases "n \<le> i + length ys")
    case True
    then show ?thesis using assms by (simp add: blit_def max_def i)
  next
    case False
    then show ?thesis by (simp add: blit_def drop_take max_def i)
  qed
qed

lemma fs_write_spec:
  fixes offset :: u32
  assumes inv: "ramfs_inv g" and i: "i < 96" "\<not> rn_is_dir (g ! i)" and b: "unat n \<le> length b"
  defines "f \<equiv> file_bytes g i"
  defines "off \<equiv> min (unat offset) (length f)"
  defines "ys \<equiv> take (min (unat n) (512 - off)) b"
  obtains nd where "fs_write ctx (Some i) offset (Some b) n g = Ok (int (length ys), g[i := nd])"
    and "node_ok nd" and "rn_used nd = rn_used (g ! i)" and "rn_parent nd = rn_parent (g ! i)"
    and "rn_first_child nd = rn_first_child (g ! i)" and "rn_next_sibling nd = rn_next_sibling (g ! i)"
    and "rn_name nd = rn_name (g ! i)" and "\<not> rn_is_dir nd"
    and "take (unat (rn_size nd)) (rn_data nd) = blit f off ys"
proof -
  let ?n = "g ! i"
  have ok: "node_ok ?n" using ramfs_invD(2) [OF inv i(1)] .
  have len: "length f = unat (rn_size ?n)" using length_file_bytes [OF ok] by (simp add: f_def)
  have size: "length f \<le> 512" "length (rn_data ?n) = 512" "length (rn_name ?n) = 24"
    using ok len by (simp_all add: node_ok_def word_le_nat_alt)
  define o' where "o' = (if offset > rn_size ?n then rn_size ?n else offset)"
  have o': "unat o' = off" using len by (auto simp: o'_def off_def word_less_nat_alt)
  have off: "off \<le> 512" "off \<le> length f" using size by (auto simp: off_def)
  have c: "unat (512 - o') = 512 - off" using o' off by (simp add: unat_sub word_le_nat_alt)
  define can where "can = (if 512 - o' > n then n else 512 - o')"
  have can: "unat can = min (unat n) (512 - off)" using c by (auto simp: can_def word_less_nat_alt)
  have ys: "ys = take (unat can) b" "length ys = unat can" using b by (simp_all add: ys_def can)
  have sum: "unat (o' + can) = off + unat can" "off + unat can \<le> 512"
    using o' can off by (simp_all add: unat_plus_nowrap)
  define nd where "nd = (if can = 0 then ?n
    else ?n\<lparr>rn_data := blit (rn_data ?n) off ys, rn_size := max (rn_size ?n) (o' + can)\<rparr>)"
  have sz: "unat (rn_size nd) = max (length f) (off + length ys)"
    using sum len off by (auto simp: nd_def ys(2) max_def word_le_nat_alt)
  have "fs_write ctx (Some i) offset (Some b) n g = Ok (int (length ys), g[i := nd])"
  proof (cases "can = 0")
    case True
    then show ?thesis
      using i ys(2) by (simp add: fs_write_def Let_def o'_def [symmetric] can_def [symmetric] nd_def)
  next
    case False
    have "\<not> (unat can > length b \<or> unat o' + unat can > 512)" using can b sum o' by auto
    then show ?thesis
      using i False ys
      by (auto simp add: fs_write_def Let_def o'_def [symmetric] can_def [symmetric] nd_def o' max_def
          not_less not_le)
  qed
  moreover have "node_ok nd"
    using ok sum size ys(2) by (auto simp: nd_def node_ok_def max_def word_le_nat_alt)
  moreover have "take (unat (rn_size nd)) (rn_data nd) = blit f off ys"
  proof (cases "can = 0")
    case True
    then show ?thesis using ys(2) by (simp add: nd_def f_def file_bytes_def)
  next
    case False
    then have "rn_data nd = blit (rn_data ?n) off ys" by (simp add: nd_def)
    then show ?thesis
      using blit_take [of off "length f" ys "rn_data ?n"] off sum size len
      by (simp add: sz ys(2) f_def file_bytes_def)
  qed
  ultimately show thesis using i(2) by (intro that) (auto simp: nd_def)
qed

text \<open>What a write does to the file system: the file is spliced, all else stays.\<close>

lemma fs_write_effect:
  assumes inv: "ramfs_inv g" and i: "i < 96" "\<not> rn_is_dir (g ! i)" and b: "unat n \<le> length b"
  obtains g' where "fs_write ctx (Some i) offset (Some b) n g =
      Ok (int (min (unat n) (512 - min (unat offset) (length (file_bytes g i)))), g')"
    and "ramfs_inv g'"
    and "file_bytes g' i = blit (file_bytes g i) (min (unat offset) (length (file_bytes g i)))
      (take (min (unat n) (512 - min (unat offset) (length (file_bytes g i)))) b)"
    and "\<And>d. is_directory g' d = is_directory g d" and "\<And>d. is_directory g d \<Longrightarrow> dir_map g' d = dir_map g d"
    and "\<And>j. j \<noteq> i \<Longrightarrow> file_bytes g' j = file_bytes g j"
    and "\<And>j. rn_used (g' ! j) = rn_used (g ! j) \<and> rn_is_dir (g' ! j) = rn_is_dir (g ! j)"
proof -
  obtain nd where nd: "fs_write ctx (Some i) offset (Some b) n g =
      Ok (int (min (unat n) (512 - min (unat offset) (length (file_bytes g i)))), g[i := nd])"
      "node_ok nd" "rn_used nd = rn_used (g ! i)" "rn_parent nd = rn_parent (g ! i)"
      "rn_first_child nd = rn_first_child (g ! i)" "rn_next_sibling nd = rn_next_sibling (g ! i)"
      "rn_name nd = rn_name (g ! i)" "\<not> rn_is_dir nd"
      "take (unat (rn_size nd)) (rn_data nd) = blit (file_bytes g i) (min (unat offset) (length (file_bytes g i)))
        (take (min (unat n) (512 - min (unat offset) (length (file_bytes g i)))) b)"
    using fs_write_spec [OF inv i b, of ctx offset] b by auto
  have len: "length g = 96" using ramfs_invD [OF inv] by blast
  note U = update_frame [OF inv i(1) nd(2)]
  show thesis
  proof (rule that [of "g[i := nd]"])
    show "ramfs_inv (g[i := nd])" using U(1) nd i by simp
    show "is_directory (g[i := nd]) d = is_directory g d" for d using U(2) nd i by simp
    show "dir_map (g[i := nd]) d = dir_map g d" if "is_directory g d" for d using U(3) nd i that by simp
  qed (use nd i len in \<open>auto simp: file_bytes_def nth_list_update\<close>)
qed

end
