(* ===== verification/Ramfs_Spec.thy ===== *)
theory Ramfs_Spec
  imports Ramfs_Laws
begin

unbundle bit_operations_syntax

text \<open>
  The contract of the in-memory file system: the interpretation of the file-system interface on the
  operations of \<open>kernel/fs/ramfs.c\<close>, the reachable states of its node table, and the properties of
  its operations.
\<close>

section \<open>Creation and lookup\<close>

definition entry_of :: "ramfs \<Rightarrow> nat \<Rightarrow> u8 list \<rightharpoonup> nat \<times> bool" where
  "entry_of g d nm = map_option (\<lambda>x. (x, rn_is_dir (g ! x))) (dir_map g d nm)"

definition is_regular :: "ramfs \<Rightarrow> nat \<Rightarrow> bool" where
  "is_regular g i \<longleftrightarrow> i < 96 \<and> rn_used (g ! i) \<and> \<not> rn_is_dir (g ! i)"

text \<open>Nothing that existed before is changed, except perhaps one entry of one directory.\<close>

definition kept :: "ramfs \<Rightarrow> ramfs \<Rightarrow> nat \<Rightarrow> u8 list \<Rightarrow> bool" where
  "kept g g' d nm \<longleftrightarrow> (\<forall>e. is_directory g e \<longrightarrow> is_directory g' e) \<and>
     (\<forall>f. is_regular g f \<longrightarrow> is_regular g' f \<and> file_bytes g' f = file_bytes g f) \<and>
     (\<forall>e nm'. is_directory g e \<longrightarrow> (e, nm') \<noteq> (d, nm) \<longrightarrow> entry_of g' e nm' = entry_of g e nm')"

lemma kept_refl [simp]: "kept g g d nm"
  by (simp add: kept_def)

lemma fs_lookup_spec:
  assumes "ramfs_inv g" and "is_directory g d"
  shows "fs_lookup ctx (Some d) (Some nm) g =
    Ok (case entry_of g d (c_text nm) of None \<Rightarrow> Inl (-1) | Some (n, b) \<Rightarrow> Inr (Some n, b))"
proof -
  have d: "d < 96" "rn_is_dir (g ! d)" using ramfs_invD(6,7) [OF assms(1,2)] by auto
  show ?thesis
  proof (cases "dir_map g d (c_text nm)")
    case None
    then show ?thesis using d node_find_child_spec [OF assms, of nm] by (simp add: fs_lookup_def entry_of_def)
  next
    case (Some x)
    then show ?thesis
      using d node_find_child_spec [OF assms, of nm] child_index(1) [OF assms Some]
      by (simp add: fs_lookup_def entry_of_def)
  qed
qed

lemma discarded_spec:
  assumes inv: "ramfs_inv g" and x: "fresh_node g = Some x"
  shows "ramfs_inv (discarded g x nm)" and "kept g (discarded g x nm) d nm'"
    and "is_directory g e \<Longrightarrow> dir_map (discarded g x nm) e = dir_map g e"
proof -
  have x96: "x < 96" and ux: "\<not> rn_used (g ! x)" using fresh_node_Some [OF x] by auto
  have nd: "\<not> rn_is_dir (g ! x)" using ramfs_invD(2) [OF inv x96] ux by (auto simp: node_ok_def)
  let ?n = "zero_node\<lparr>rn_parent := -1, rn_first_child := -1, rn_next_sibling := -1,
     rn_name := snd (s_copy (replicate 24 0) nm 24)\<rparr>"
  have ok: "node_ok ?n" by (simp add: node_ok_def zero_node_def length_s_copy)
  have same: "rn_is_dir ?n = rn_is_dir (g ! x)" using nd by (simp add: zero_node_def)
  note U = update_frame [OF inv x96 ok _ same]
  show "ramfs_inv (discarded g x nm)" using U(1) ux by (simp add: discarded_def)
  have dm: "dir_map (discarded g x nm) e = dir_map g e" if "is_directory g e" for e
    using U(3) [OF _ that] ux by (simp add: discarded_def)
  then show "is_directory g e \<Longrightarrow> dir_map (discarded g x nm) e = dir_map g e" .
  have isd: "is_directory (discarded g x nm) e = is_directory g e" for e
    using U(2) ux by (simp add: discarded_def)
  have nth: "discarded g x nm ! i = g ! i" if "i \<noteq> x" for i using that by (simp add: discarded_def)
  have ent: "entry_of (discarded g x nm) e = entry_of g e" if e: "is_directory g e" for e
  proof
    fix k
    have "i \<noteq> x" if "dir_map g e k = Some i" for i using child_index(3) [OF inv e that] ux by auto
    then show "entry_of (discarded g x nm) e k = entry_of g e k"
      using dm [OF e] nth by (cases "dir_map g e k") (auto simp: entry_of_def)
  qed
  have "f \<noteq> x" if "is_regular g f" for f using that ux by (auto simp: is_regular_def)
  then show "kept g (discarded g x nm) d nm'"
    using isd ent nth by (auto simp: kept_def is_regular_def file_bytes_def)
qed

text \<open>The whole effect of \<open>fs_create\<close>.\<close>

lemma fs_create_spec:
  assumes inv: "ramfs_inv g" and d: "is_directory g d"
  shows "\<exists>r g'. fs_create ctx (Some d) (Some nm) isd g = Ok (r, g') \<and> ramfs_inv g' \<and>
    kept g g' d (c_text nm) \<and>
    (if entry_of g d (c_text nm) = None \<and> fresh_node g \<noteq> None \<and> legal_name nm
     then r = Inr (fresh_node g) \<and> entry_of g' d (c_text nm) = Some (the (fresh_node g), isd) \<and>
       file_bytes g' (the (fresh_node g)) = []
     else r = Inl (if entry_of g d (c_text nm) = None \<and> fresh_node g = None then -2 else -1) \<and>
       entry_of g' d = entry_of g d)"
proof -
  have d96: "d < 96" "rn_is_dir (g ! d)" using ramfs_invD(6,7) [OF inv d] by auto
  note spec = node_create_child_spec [OF inv d, of nm isd]
  have create: "fs_create ctx (Some d) (Some nm) isd g = rbind (node_create_child (int d) nm isd g)
      (\<lambda>(idx, g). if idx < 0 then Ok (Inl idx, g) else Ok (Inr (Some (nat idx)), g))"
    using d96 by (simp add: fs_create_def)
  consider (exists) y where "dir_map g d (c_text nm) = Some y"
    | (full) "dir_map g d (c_text nm) = None" "fresh_node g = None"
    | (illegal) x where "dir_map g d (c_text nm) = None" "fresh_node g = Some x" "\<not> legal_name nm"
    | (made) x where "dir_map g d (c_text nm) = None" "fresh_node g = Some x" "legal_name nm"
    by blast
  then show ?thesis
  proof cases
    case exists
    then show ?thesis using create spec inv by (simp add: entry_of_def)
  next
    case full
    then show ?thesis using create spec inv by (simp add: entry_of_def)
  next
    case illegal
    note D = discarded_spec [OF inv illegal(2), where nm = nm]
    have "entry_of (discarded g x nm) d k = entry_of g d k" for k
      using D(2) [of d k] D(2) [of d "0 # k"] d by (auto simp: kept_def)
    then have "entry_of (discarded g x nm) d = entry_of g d" by blast
    then show ?thesis using create spec illegal D(1,2) by (simp add: entry_of_def [of g])
  next
    case made
    note L = linked_spec [OF inv d made(2,3,1), where isd = isd]
    have x: "x < 96" "\<not> rn_used (g ! x)" using fresh_node_Some [OF made(2)] by auto
    let ?g' = "linked g d x nm isd"
    have ent: "entry_of ?g' e k = entry_of g e k" if e: "is_directory g e" and ne: "(e, k) \<noteq> (d, c_text nm)" for e k
    proof -
      have "dir_map ?g' e k = dir_map g e k" using L(2) L(3) [OF e] ne by (cases "e = d") auto
      moreover have "i \<noteq> x" if "dir_map g e k = Some i" for i
        using child_index(3) [OF inv e that] x(2) by auto
      ultimately show ?thesis using L(8) by (cases "dir_map g e k") (auto simp: entry_of_def)
    qed
    have "f \<noteq> x" if "is_regular g f" for f using that x by (auto simp: is_regular_def)
    then have "kept g ?g' d (c_text nm)"
      using ent L(4,7,8) by (auto simp: kept_def is_regular_def)
    moreover have "entry_of ?g' d (c_text nm) = Some (x, isd)" using L(2,10) by (simp add: entry_of_def)
    ultimately show ?thesis using create spec made L(1,6) by (simp add: entry_of_def [of g])
  qed
qed

section \<open>The interface of the virtual file system\<close>

interpretation ramdisk: writable_fs fs_get_root fs_lookup fs_read ramfs_inv 0 is_directory is_regular
  entry_of file_bytes fs_create fs_write 512
proof unfold_locales
  fix g :: ramfs and ctx :: u32
  assume "ramfs_inv g"
  then show "fs_get_root ctx g = Ok (Some 0) \<and> is_directory g 0"
    by (simp add: fs_get_root_def ramfs_invD(3))
next
  fix g :: ramfs and d :: nat and nm :: "u8 list" and ctx :: u32
  assume "ramfs_inv g" "is_directory g d" "is_text nm"
  then show "fs_lookup ctx (Some d) (Some nm) g =
      Ok (case entry_of g d nm of None \<Rightarrow> Inl (-1) | Some (n, b) \<Rightarrow> Inr (Some n, b))"
    by (simp add: fs_lookup_spec)
next
  fix g :: ramfs and d n :: nat and nm :: "u8 list" and b :: bool
  assume a: "ramfs_inv g" "is_directory g d" and e: "entry_of g d nm = Some (n, b)"
  then have "dir_map g d nm = Some n" "b = rn_is_dir (g ! n)" by (auto simp: entry_of_def)
  with child_index [OF a this(1)] show "if b then is_directory g n else is_regular g n"
    by (simp add: is_directory_def is_regular_def)
next
  fix g :: ramfs and n :: nat and k off ctx :: u32 and buf :: "u8 list"
  assume a: "ramfs_inv g" "is_regular g n" "unat k \<le> length buf"
  then show "fs_read ctx (Some n) off (Some buf) k g =
      (let ys = take (unat k) (drop (unat off) (file_bytes g n)) in Ok (int (length ys), Some (blit buf 0 ys)))"
    by (intro fs_read_spec) (simp_all add: is_regular_def)
next
  fix g :: ramfs and d :: nat and nm :: "u8 list" and isd :: bool and ctx :: u32
  assume a: "ramfs_inv g" "is_directory g d" "is_text nm"
  have nm: "c_text nm = nm" using a(3) by simp
  have fresh: "\<not> is_directory g x \<and> \<not> is_regular g x" if "fresh_node g = Some x" for x
    using fresh_node_Some [OF that] ramfs_invD(5) [OF a(1)] by (auto simp: is_regular_def)
  obtain r g' where R: "fs_create ctx (Some d) (Some nm) isd g = Ok (r, g')" "ramfs_inv g'" "kept g g' d nm"
      "if entry_of g d nm = None \<and> fresh_node g \<noteq> None \<and> legal_name nm
       then r = Inr (fresh_node g) \<and> entry_of g' d nm = Some (the (fresh_node g), isd) \<and>
         file_bytes g' (the (fresh_node g)) = []
       else r = Inl (if entry_of g d nm = None \<and> fresh_node g = None then -2 else -1) \<and>
         entry_of g' d = entry_of g d"
    using fs_create_spec [OF a(1,2), of ctx nm isd] unfolding nm by blast
  have "case r of
         Inl rc \<Rightarrow> rc < 0 \<and> entry_of g' d nm = entry_of g d nm
       | Inr n \<Rightarrow> (\<exists>h. n = Some h \<and> entry_of g d nm = None \<and> entry_of g' d nm = Some (h, isd) \<and>
           (\<not> isd \<longrightarrow> file_bytes g' h = []) \<and> \<not> is_directory g h \<and> \<not> is_regular g h)"
    using R(4) fresh by (auto split: if_splits)
  with R(1-3) show "\<exists>r g'. fs_create ctx (Some d) (Some nm) isd g = Ok (r, g') \<and> ramfs_inv g' \<and>
      (\<forall>e. is_directory g e \<longrightarrow> is_directory g' e) \<and>
      (\<forall>f. is_regular g f \<longrightarrow> is_regular g' f \<and> file_bytes g' f = file_bytes g f) \<and>
      (\<forall>e nm'. is_directory g e \<longrightarrow> (e, nm') \<noteq> (d, nm) \<longrightarrow> entry_of g' e nm' = entry_of g e nm') \<and>
      (case r of
         Inl rc \<Rightarrow> rc < 0 \<and> entry_of g' d nm = entry_of g d nm
       | Inr n \<Rightarrow> (\<exists>h. n = Some h \<and> entry_of g d nm = None \<and> entry_of g' d nm = Some (h, isd) \<and>
           (\<not> isd \<longrightarrow> file_bytes g' h = []) \<and> \<not> is_directory g h \<and> \<not> is_regular g h))"
    unfolding kept_def by blast
next
  fix g :: ramfs and n :: nat and k off ctx :: u32 and src :: "u8 list"
  assume a: "ramfs_inv g" "is_regular g n" "unat k \<le> length src"
  then have n: "n < 96" "\<not> rn_is_dir (g ! n)" by (auto simp: is_regular_def)
  obtain g' where g': "fs_write ctx (Some n) off (Some src) k g =
      Ok (int (min (unat k) (512 - min (unat off) (length (file_bytes g n)))), g')"
      "ramfs_inv g'"
      "file_bytes g' n = blit (file_bytes g n) (min (unat off) (length (file_bytes g n)))
        (take (min (unat k) (512 - min (unat off) (length (file_bytes g n)))) src)"
      "\<And>d. is_directory g' d = is_directory g d" "\<And>d. is_directory g d \<Longrightarrow> dir_map g' d = dir_map g d"
      "\<And>j. j \<noteq> n \<Longrightarrow> file_bytes g' j = file_bytes g j"
      "\<And>j. rn_used (g' ! j) = rn_used (g ! j) \<and> rn_is_dir (g' ! j) = rn_is_dir (g ! j)"
    using fs_write_effect [OF a(1) n a(3), of ctx off] by blast
  have "entry_of g' e = entry_of g e" if "is_directory g e" for e
    using g'(5) [OF that] g'(7) by (simp add: entry_of_def fun_eq_iff)
  then show "let off' = min (unat off) (length (file_bytes g n)); c = min (unat k) (512 - off')
      in \<exists>g'. fs_write ctx (Some n) off (Some src) k g = Ok (int c, g') \<and> ramfs_inv g' \<and>
        file_bytes g' n = blit (file_bytes g n) off' (take c src) \<and>
        (\<forall>e. is_directory g' e = is_directory g e) \<and> (\<forall>f. is_regular g' f = is_regular g f) \<and>
        (\<forall>f. is_regular g f \<longrightarrow> f \<noteq> n \<longrightarrow> file_bytes g' f = file_bytes g f) \<and>
        (\<forall>e. is_directory g e \<longrightarrow> entry_of g' e = entry_of g e)"
    using g' by (auto simp: Let_def is_regular_def intro!: exI [of _ g'])
qed

section \<open>The direct interface\<close>

lemma ramfs_init_inv: "ramfs_inv (ramfs_init g)" and ramfs_init_empty: "dir_map (ramfs_init g) 0 = Map.empty"
  and ramfs_init_dirs: "is_directory (ramfs_init g) d \<longleftrightarrow> d = 0"
proof -
  let ?g = "ramfs_init g"
  have nth: "?g ! i = (if i = 0 then zero_node\<lparr>rn_used := True, rn_is_dir := True,
     rn_parent := 0, rn_first_child := -1, rn_next_sibling := -1\<rparr> else zero_node)" if "i < 96" for i
    using that by (simp add: ramfs_init_def nth_list_update)
  have len: "length ?g = 96" by (simp add: ramfs_init_def)
  show dirs: "is_directory ?g d \<longleftrightarrow> d = 0" for d
    by (cases "d = 0") (auto simp: is_directory_def nth)
  have k: "dir_ok ?g 0" "kids ?g 0 = []" using dir_okI [of ?g 0 "[]"] by (simp_all add: nth)
  then show "dir_map ?g 0 = Map.empty" by (simp add: dir_map_def)
  show "ramfs_inv ?g"
  proof (rule ramfs_invI [OF len])
    show "node_ok (?g ! i)" if "i < 96" for i using nth [OF that] by (simp add: zero_node_def node_ok_def)
    show "is_directory ?g 0" using dirs by simp
    show "dir_ok ?g d" if "is_directory ?g d" for d using that dirs k by simp
  qed
qed

text \<open>\<open>ramfs_touch\<close> is a creation in the root that also succeeds where the name exists.\<close>

lemma ramfs_touch_spec:
  assumes inv: "ramfs_inv g"
  shows "ramfs_touch (Some nm) g =
    (if c_text nm = [] then Ok (-1, g)
     else if dir_map g 0 (c_text nm) \<noteq> None then Ok (0, g)
     else case fresh_node g of
            None \<Rightarrow> Ok (-2, g)
          | Some x \<Rightarrow> if legal_name nm then Ok (0, linked g 0 x nm False) else Ok (-1, discarded g x nm))"
proof -
  have root: "is_directory g 0" using ramfs_invD(3) [OF inv] .
  have first: "first_char nm = 0 \<longleftrightarrow> c_text nm = []" by (cases nm) auto
  show ?thesis
    using node_find_child_spec [OF inv root, of nm] node_create_child_spec [OF inv root, of nm False]
    by (auto simp: ramfs_touch_def first split: option.splits)
qed

lemma ramfs_touch_inv:
  assumes "ramfs_inv g"
  shows "\<exists>rc g'. ramfs_touch nm g = Ok (rc, g') \<and> ramfs_inv g' \<and> (nm \<noteq> None \<longrightarrow> 0 \<le> rc \<longrightarrow>
    dir_map g' 0 (c_text (the nm)) \<noteq> None)"
proof (cases nm)
  case None
  then show ?thesis using assms by (simp add: ramfs_touch_def)
next
  case (Some n)
  have root: "is_directory g 0" using ramfs_invD(3) [OF assms] .
  show ?thesis
    using ramfs_touch_spec [OF assms, of n] assms linked_spec(1,2) [OF assms root, of _ n False]
      discarded_spec(1) [OF assms] Some
    by (cases "fresh_node g"; cases "dir_map g 0 (c_text n)"; cases "legal_name n") auto
qed

definition written :: "u8 list \<Rightarrow> u8 list \<Rightarrow> bool \<Rightarrow> u8 list" where
  "written old tx appending = take 511 ((if appending then old else []) @ tx)"

lemma store_text_spec:
  assumes ok: "node_ok n" and tx: "is_text tx" "length tx < 2 ^ 31" and room: "appending \<Longrightarrow> rn_size n < 512"
  obtains nd where "store_text tx appending n = Ok nd"
    and "node_ok nd" and "rn_used nd = rn_used n" and "rn_parent nd = rn_parent n"
    and "rn_first_child nd = rn_first_child n" and "rn_next_sibling nd = rn_next_sibling n"
    and "rn_name nd = rn_name n" and "rn_is_dir nd = rn_is_dir n"
    and "take (unat (rn_size nd)) (rn_data nd) = written (take (unat (rn_size n)) (rn_data n)) tx appending"
proof -
  have size: "unat (rn_size n) \<le> 512" "length (rn_data n) = 512"
    using ok by (simp_all add: node_ok_def word_le_nat_alt)
  define off where "off = store_off appending n"
  define len where "len = store_len tx off"
  have off: "unat off \<le> 511" using room by (auto simp: off_def store_off_def word_less_nat_alt)
  have lt: "unat (of_nat (length tx) :: u32) = length tx" using tx(2) by (simp add: unat_of_nat)
  have sum: "unat (off + of_nat (length tx)) = unat off + length tx"
    using off tx(2) by (simp add: unat_plus_nowrap lt)
  have len: "unat len = min (length tx) (511 - unat off)"
    using off sum lt tx(1) by (auto simp: len_def store_len_def Let_def word_le_nat_alt unat_sub)
  have fits: "unat len \<le> length tx" "unat off + unat len < 512" using len off by auto
  have tot: "unat (off + len) = unat off + unat len" using fits by (simp add: unat_plus_nowrap)
  define d where "d = (if len > 0 then blit (rn_data n) (unat off) (take (unat len) tx) else rn_data n)"
  have d: "d = blit (rn_data n) (unat off) (take (unat len) tx)" by (auto simp: d_def word_gt_0)
  have dl: "length d = 512" unfolding d using fits size by simp
  define nd where "nd = n\<lparr>rn_data := d[unat (off + len) := 0], rn_size := off + len\<rparr>"
  have size_nd: "unat (rn_size nd) = unat off + unat len" by (simp add: nd_def tot)
  have "store_text tx appending n = Ok nd"
    using fits tx(1) by (simp add: store_text_def Let_def nd_def d_def flip: off_def len_def)
  moreover have "node_ok nd"
    using ok fits dl tot by (simp add: node_ok_def word_le_nat_alt nd_def)
  moreover have "take (unat (rn_size nd)) (rn_data nd) =
      written (take (unat (rn_size n)) (rn_data n)) tx appending"
  proof -
    have "take (unat off + unat len) d = take (unat off) (rn_data n) @ take (unat len) tx"
      using fits size off unfolding d blit_def by simp
    moreover have "take (unat len) tx = take (511 - unat off) tx"
      by (simp add: len min_def)
    ultimately have "take (unat (rn_size nd)) (rn_data nd) = take (unat off) (rn_data n) @ take (511 - unat off) tx"
      by (simp add: size_nd) (simp add: nd_def tot)
    also have "\<dots> = written (take (unat (rn_size n)) (rn_data n)) tx appending"
      using size off by (auto simp: written_def off_def store_off_def)
    finally show ?thesis .
  qed
  ultimately show thesis by (intro that [of nd]) (simp_all add: nd_def)
qed

lemma update_named:
  assumes inv: "ramfs_inv g" and found: "dir_map g 0 k = Some i" and ok: "node_ok nd"
    and same: "rn_used nd = rn_used (g ! i)" "rn_parent nd = rn_parent (g ! i)"
      "rn_first_child nd = rn_first_child (g ! i)" "rn_next_sibling nd = rn_next_sibling (g ! i)"
      "rn_name nd = rn_name (g ! i)" "rn_is_dir nd = rn_is_dir (g ! i)"
  shows "ramfs_inv (g[i := nd])" and "is_directory g d \<Longrightarrow> dir_map (g[i := nd]) d = dir_map g d"
    and "file_bytes (g[i := nd]) i = take (unat (rn_size nd)) (rn_data nd)"
    and "j \<noteq> i \<Longrightarrow> file_bytes (g[i := nd]) j = file_bytes g j" and "rn_is_dir (g[i := nd] ! j) = rn_is_dir (g ! j)"
proof -
  have i: "i < 96" using child_index(1) [OF inv ramfs_invD(3) [OF inv] found] .
  have len: "length g = 96" using ramfs_invD(1) [OF inv] .
  note U = update_frame [OF inv i ok]
  show "ramfs_inv (g[i := nd])" using U(1) same by simp
  show "is_directory g d \<Longrightarrow> dir_map (g[i := nd]) d = dir_map g d" using U(3) same by simp
  show "file_bytes (g[i := nd]) i = take (unat (rn_size nd)) (rn_data nd)"
    and "j \<noteq> i \<Longrightarrow> file_bytes (g[i := nd]) j = file_bytes g j"
    and "rn_is_dir (g[i := nd] ! j) = rn_is_dir (g ! j)"
    using i len same(6) by (auto simp: file_bytes_def nth_list_update)
qed

lemma ramfs_write_existing:
  assumes inv: "ramfs_inv g" and found: "dir_map g 0 (c_text nm) = Some i" and nm: "c_text nm \<noteq> []"
    and tx: "is_text tx" "length tx < 2 ^ 31" and room: "appending \<Longrightarrow> rn_size (g ! i) < 512"
  obtains g' where "ramfs_write (Some nm) (Some tx) appending g = Ok (0, g')" and "ramfs_inv g'"
    and "dir_map g' 0 = dir_map g 0" and "file_bytes g' i = written (file_bytes g i) tx appending"
    and "\<And>j. j \<noteq> i \<Longrightarrow> file_bytes g' j = file_bytes g j" and "\<And>j. rn_is_dir (g' ! j) = rn_is_dir (g ! j)"
proof -
  have root: "is_directory g 0" using ramfs_invD(3) [OF inv] .
  have i: "i < 96" using child_index(1) [OF inv root found] .
  obtain nd where nd: "store_text tx appending (g ! i) = Ok nd"
      "node_ok nd" "rn_used nd = rn_used (g ! i)" "rn_parent nd = rn_parent (g ! i)"
      "rn_first_child nd = rn_first_child (g ! i)" "rn_next_sibling nd = rn_next_sibling (g ! i)"
      "rn_name nd = rn_name (g ! i)" "rn_is_dir nd = rn_is_dir (g ! i)"
      "take (unat (rn_size nd)) (rn_data nd) = written (take (unat (rn_size (g ! i))) (rn_data (g ! i))) tx appending"
    using store_text_spec [OF ramfs_invD(2) [OF inv i] tx room] by blast
  have touch: "ramfs_touch (Some nm) g = Ok (0, g)" using ramfs_touch_spec [OF inv, of nm] found nm by simp
  have find: "node_find_child 0 nm g = Ok (int i)" using node_find_child_spec [OF inv root, of nm] found by simp
  have "ramfs_write (Some nm) (Some tx) appending g = Ok (0, g[i := nd])"
    using i nd(1) by (simp add: ramfs_write_def touch find)
  moreover note U = update_named [OF inv found nd(2-8)]
  ultimately show thesis using root nd(9) by (intro that [of "g[i := nd]"]) (simp_all add: U file_bytes_def [of g i])
qed

section \<open>Reachable states\<close>

text \<open>Any sequence of operations with any arguments, those that fail included.\<close>

inductive ramfs_step :: "ramfs \<Rightarrow> ramfs \<Rightarrow> bool" where
  create: "fs_create ctx dir nm isd g = Ok (r, g') \<Longrightarrow> ramfs_step g g'"
| write_at: "fs_write ctx node off buf n g = Ok (rc, g') \<Longrightarrow> ramfs_step g g'"
| touch: "ramfs_touch nm g = Ok (rc, g') \<Longrightarrow> ramfs_step g g'"
| replace_text: "ramfs_write nm tx appending g = Ok (rc, g') \<Longrightarrow> ramfs_step g g'"
| remove: "ramfs_remove nm' g = Ok (rc, g') \<Longrightarrow> ramfs_step g g'"

inductive ramfs_run :: "ramfs \<Rightarrow> ramfs \<Rightarrow> bool" for g0 where
  start: "ramfs_run g0 g0"
| more: "ramfs_run g0 g \<Longrightarrow> ramfs_step g g' \<Longrightarrow> ramfs_run g0 g'"

lemma fs_create_inv:
  assumes inv: "ramfs_inv g" and "fs_create ctx dir nm isd g = Ok (r, g')"
  shows "ramfs_inv g'"
proof (cases "\<exists>d n. dir = Some d \<and> nm = Some n \<and> is_directory g d")
  case True
  then obtain d n where "dir = Some d" "nm = Some n" "is_directory g d" by blast
  with fs_create_spec [OF inv this(3), of ctx n isd] assms(2) show ?thesis by auto
next
  case False
  then show ?thesis
    using assms by (auto simp: fs_create_def is_directory_def split: option.splits if_splits)
qed

lemma data_update:
  assumes inv: "ramfs_inv g" and i: "i < 96"
    and nd: "length dat = 512" "sz \<le> 512"
  shows "ramfs_inv (g[i := (g ! i)\<lparr>rn_data := dat, rn_size := sz\<rparr>])"
  using ramfs_invD(2) [OF inv i] nd by (intro update_frame(1) [OF inv i]) (simp_all add: node_ok_def)

lemma fs_write_inv:
  assumes inv: "ramfs_inv g" and w: "fs_write ctx node off buf n g = Ok (rc, g')"
  shows "ramfs_inv g'"
proof (cases "\<exists>i b. node = Some i \<and> buf = Some b \<and> i < 96 \<and> \<not> rn_is_dir (g ! i)")
  case True
  then obtain i b where i: "node = Some i" "buf = Some b" "i < 96" "\<not> rn_is_dir (g ! i)" by blast
  let ?n = "g ! i"
  have ok: "rn_size ?n \<le> 512" "length (rn_data ?n) = 512"
    using ramfs_invD(2) [OF inv i(3)] by (simp_all add: node_ok_def)
  define o' where "o' = (if off > rn_size ?n then rn_size ?n else off)"
  define can where "can = (if 512 - o' > n then n else 512 - o')"
  have w': "fs_write ctx node off buf n g = (if can = 0 then Ok (0, g)
      else if unat can > length b \<or> unat o' + unat can > 512 then Fail Wild
      else Ok (uint can, g[i := ?n\<lparr>rn_data := blit (rn_data ?n) (unat o') (take (unat can) b),
        rn_size := (if o' + can > rn_size ?n then o' + can else rn_size ?n)\<rparr>]))"
    using i by (auto simp: fs_write_def Let_def o'_def [symmetric] can_def [symmetric])
  show ?thesis
  proof (cases "can = 0 \<or> unat can > length b \<or> unat o' + unat can > 512")
    case True
    then show ?thesis using w w' inv by (auto split: if_splits)
  next
    case False
    then have "unat (o' + can) \<le> 512" by (simp add: unat_plus_nowrap)
    then have "ramfs_inv (g[i := ?n\<lparr>rn_data := blit (rn_data ?n) (unat o') (take (unat can) b),
        rn_size := (if o' + can > rn_size ?n then o' + can else rn_size ?n)\<rparr>])"
      using False ok by (intro data_update [OF inv i(3)]) (auto simp: word_le_nat_alt)
    then show ?thesis using w w' False by auto
  qed
next
  case False
  then show ?thesis
    using assms by (auto simp: fs_write_def node_at_def rbind_def split: option.splits if_splits)
qed

lemma store_text_update:
  assumes inv: "ramfs_inv g" and i: "i < 96" and st: "store_text tx appending (g ! i) = Ok nd"
  shows "ramfs_inv (g[i := nd])"
proof -
  have ok: "length (rn_data (g ! i)) = 512" using ramfs_invD(2) [OF inv i] by (simp add: node_ok_def)
  define off where "off = store_off appending (g ! i)"
  define len where "len = store_len tx off"
  define dat where "dat = (if len > 0 then blit (rn_data (g ! i)) (unat off) (take (unat len) tx)
    else rn_data (g ! i))[unat (off + len) := 0]"
  have "store_text tx appending (g ! i) = (if unat len > strlen tx \<or> unat off + unat len \<ge> 512 then Fail Wild
      else Ok ((g ! i)\<lparr>rn_data := dat, rn_size := off + len\<rparr>))"
    by (simp add: store_text_def Let_def dat_def flip: off_def len_def)
  then have nd: "nd = (g ! i)\<lparr>rn_data := dat, rn_size := off + len\<rparr>" "unat off + unat len < 512"
    using st by (auto split: if_splits)
  have "unat (off + len) < 512" using nd(2) by (simp add: unat_plus_nowrap)
  moreover have "length dat = 512" using nd(2) ok by (simp add: dat_def min_def)
  ultimately show ?thesis unfolding nd(1) by (intro data_update [OF inv i]) (auto simp: word_le_nat_alt)
qed

lemma ramfs_write_inv:
  assumes inv: "ramfs_inv g" and w: "ramfs_write nm tx appending g = Ok (rc, g')"
  shows "ramfs_inv g'"
proof -
  obtain rc1 g1 where t: "ramfs_touch nm g = Ok (rc1, g1)" "ramfs_inv g1"
      "nm \<noteq> None \<longrightarrow> 0 \<le> rc1 \<longrightarrow> dir_map g1 0 (c_text (the nm)) \<noteq> None"
    using ramfs_touch_inv [OF inv, of nm] by (elim exE conjE) (rule that; assumption)
  show ?thesis
  proof (cases "rc1 < 0")
    case True
    then show ?thesis using w t by (simp add: ramfs_write_def)
  next
    case False
    have "nm \<noteq> None" using t(1) False by (cases nm) (auto simp: ramfs_touch_def)
    then obtain i where i: "dir_map g1 0 (c_text (the nm)) = Some i" using t(3) False by auto
    have root: "is_directory g1 0" using ramfs_invD(3) [OF t(2)] .
    have i96: "i < 96" using child_index(1) [OF t(2) root i] .
    have "node_find_child 0 (the nm) g1 = Ok (int i)"
      using node_find_child_spec [OF t(2) root, of "the nm"] i by simp
    then show ?thesis
      using w t(1) False i96 store_text_update [OF t(2) i96]
      by (auto simp: ramfs_write_def rbind_Ok_iff)
  qed
qed

lemma ramfs_remove_inv:
  assumes inv: "ramfs_inv g"
  shows "\<exists>rc g'. ramfs_remove nm g = Ok (rc, g') \<and> ramfs_inv g' \<and>
    dir_map g' 0 = (dir_map g 0)(c_text nm := None) \<and> (rc = 0 \<longleftrightarrow> dir_map g 0 (c_text nm) \<noteq> None)"
proof (cases "dir_map g 0 (c_text nm)")
  case None
  then show ?thesis using ramfs_remove_spec [OF inv, of nm] inv by (auto simp: fun_upd_idem)
next
  case (Some y)
  have ok: "dir_ok g 0" using ramfs_invD(4) [OF inv ramfs_invD(3) [OF inv]] .
  have y: "y \<in> set (kids g 0)" "node_name g y = c_text nm" using Some by (simp_all add: dir_map_Some [OF ok])
  obtain xs ys where split: "kids g 0 = xs @ y # ys" "y \<notin> set xs"
    using split_list_first [OF y(1)] by blast
  have tw: "takeWhile (\<lambda>x. x \<noteq> y) (kids g 0) = xs"
    unfolding split(1) using split(2) by (subst takeWhile_append2) auto
  show ?thesis
    using ramfs_remove_spec [OF inv, of nm] unlink_spec(1,2) [OF inv split(1)] Some y(2) tw
    by (simp add: Let_def)
qed

lemma ramfs_step_inv:
  assumes "ramfs_inv g" and "ramfs_step g g'"
  shows "ramfs_inv g'"
  using assms(2)
proof (cases rule: ramfs_step.cases)
  case create
  then show ?thesis using fs_create_inv [OF assms(1)] by blast
next
  case write_at
  then show ?thesis using fs_write_inv [OF assms(1)] by blast
next
  case (touch nm rc)
  then show ?thesis using ramfs_touch_inv [OF assms(1), of nm] by auto
next
  case replace_text
  then show ?thesis using ramfs_write_inv [OF assms(1)] by blast
next
  case (remove nm' rc)
  then show ?thesis using ramfs_remove_inv [OF assms(1), of nm'] by auto
qed

lemma ramfs_run_inv: "ramfs_run g0 g \<Longrightarrow> ramfs_inv g0 \<Longrightarrow> ramfs_inv g"
  by (induction rule: ramfs_run.induct) (auto intro: ramfs_step_inv)

section \<open>Every loop ends\<close>

definition returns :: "'a res \<Rightarrow> bool" where
  "returns r = (case r of Ok _ \<Rightarrow> True | Fail _ \<Rightarrow> False)"

lemma returns_Ok [simp]: "returns (Ok x)"
  by (simp add: returns_def)

lemma returns_iff: "returns r \<longleftrightarrow> (\<exists>x. r = Ok x)"
  by (cases r) (simp_all add: returns_def)

lemma fs_lookup_returns:
  assumes "ramfs_inv g"
  shows "returns (fs_lookup ctx dir nm g)"
proof (cases "\<exists>d n. dir = Some d \<and> nm = Some n \<and> is_directory g d")
  case True
  then show ?thesis using fs_lookup_spec [OF assms] by auto
next
  case False
  then show ?thesis by (auto simp: fs_lookup_def is_directory_def split: option.splits)
qed

lemma fs_create_returns:
  assumes "ramfs_inv g"
  shows "returns (fs_create ctx dir nm isd g)"
proof (cases "\<exists>d n. dir = Some d \<and> nm = Some n \<and> is_directory g d")
  case True
  then obtain d n where dn: "dir = Some d" "nm = Some n" "is_directory g d" by blast
  then show ?thesis using fs_create_spec [OF assms dn(3), of ctx n isd] by auto
next
  case False
  then show ?thesis by (auto simp: fs_create_def is_directory_def split: option.splits)
qed

lemma fs_readdir_spec:
  assumes "ramfs_inv g" and "is_directory g d"
  shows "fs_readdir ctx (Some d) index g =
    Ok (if unat index < length (kids g d)
        then let x = kids g d ! unat index in Inr (node_name g x, rn_is_dir (g ! x), rn_size (g ! x))
        else Inl (-1))"
proof -
  have d: "d < 96" "rn_is_dir (g ! d)" "dir_ok g d" using ramfs_invD(4,6,7) [OF assms(1)] assms(2) by auto
  show ?thesis
    using readdir_chain [OF dir_okD(1) [OF d(3)], of 0 index] dir_okD(5) [OF d(3)] d(1,2)
    by (simp add: fs_readdir_def Let_def)
qed

lemma fs_readdir_returns:
  assumes "ramfs_inv g"
  shows "returns (fs_readdir ctx dir index g)"
proof (cases "\<exists>d. dir = Some d \<and> is_directory g d")
  case True
  then show ?thesis using fs_readdir_spec [OF assms] by auto
next
  case False
  then show ?thesis by (auto simp: fs_readdir_def is_directory_def split: option.splits)
qed

lemma ramfs_count_spec:
  assumes "ramfs_inv g"
  shows "ramfs_count g = Ok (of_nat (length (filter (\<lambda>x. \<not> rn_is_dir (g ! x)) (kids g 0))))"
proof -
  have "dir_ok g 0" using ramfs_invD(3,4) [OF assms] by blast
  from count_chain [OF dir_okD(1) [OF this], of 0] show ?thesis by (simp add: ramfs_count_def)
qed

lemma ramfs_get_entry_spec:
  assumes "ramfs_inv g"
  shows "ramfs_get_entry index g =
    (let fs = filter (\<lambda>x. \<not> rn_is_dir (g ! x)) (kids g 0)
     in Ok (if unat index < length fs
            then Inr (node_name g (fs ! unat index), rn_size (g ! (fs ! unat index))) else Inl (-1)))"
proof -
  have ok: "dir_ok g 0" using ramfs_invD(3,4) [OF assms] by blast
  show ?thesis
    using entry_chain [OF dir_okD(1) [OF ok], of 0 index] dir_okD(5) [OF ok]
    by (simp add: ramfs_get_entry_def Let_def)
qed

lemma ramfs_read_spec:
  assumes "ramfs_inv g"
  shows "ramfs_read nm g = Ok (case dir_map g 0 (c_text nm) of
      None \<Rightarrow> None
    | Some i \<Rightarrow> if rn_is_dir (g ! i) then None else Some (rn_data (g ! i), rn_size (g ! i)))"
proof -
  have root: "is_directory g 0" using ramfs_invD(3) [OF assms] .
  show ?thesis
    using node_find_child_spec [OF assms root, of nm] child_index(1) [OF assms root]
    by (auto simp: ramfs_read_def split: option.splits)
qed

lemma node_at_returns: "i < 96 \<Longrightarrow> returns (rbind (node_at (int i) g) f) \<longleftrightarrow> returns (f (g ! i))"
  by simp

lemma fs_file_returns:
  assumes "ramfs_inv g" and "i < 96" and "unat n \<le> length b"
  shows "returns (fs_read ctx (Some i) off (Some b) n g)" and "returns (fs_write ctx (Some i) off (Some b) n g)"
    and "returns (fs_size ctx (Some i) g)"
proof -
  show "returns (fs_read ctx (Some i) off (Some b) n g)"
  proof (cases "rn_is_dir (g ! i)")
    case False
    from fs_read_spec [OF assms(1,2) this assms(3)] show ?thesis by (simp add: Let_def)
  qed (use assms(2) in \<open>simp add: fs_read_def\<close>)
  show "returns (fs_write ctx (Some i) off (Some b) n g)"
  proof (cases "rn_is_dir (g ! i)")
    case False
    show ?thesis
      by (rule fs_write_effect [OF assms(1,2) False assms(3), where ctx = ctx and offset = off]) (simp only: returns_Ok)
  qed (use assms(2) in \<open>simp add: fs_write_def\<close>)
  show "returns (fs_size ctx (Some i) g)" using assms(2) by (simp add: fs_size_def)
qed

text \<open>The file \<open>nm\<close> of the root has no room left.\<close>

definition full_file :: "ramfs \<Rightarrow> u8 list option \<Rightarrow> bool" where
  "full_file g nm \<longleftrightarrow>
     (\<exists>n i. nm = Some n \<and> c_text n \<noteq> [] \<and> dir_map g 0 (c_text n) = Some i \<and> length (file_bytes g i) = 512)"

lemma store_text_returns:
  assumes ok: "node_ok n" and tx: "strlen tx < 2 ^ 31"
  shows "returns (store_text tx appending n) \<longleftrightarrow> \<not> (appending \<and> unat (rn_size n) = 512)"
proof -
  define off where "off = store_off appending n"
  define len where "len = store_len tx off"
  have size: "unat (rn_size n) \<le> 512" using ok by (simp add: node_ok_def word_le_nat_alt)
  then have off: "unat off \<le> 512" by (simp add: off_def store_off_def)
  have lt: "unat (of_nat (strlen tx) :: u32) = strlen tx" using tx by (simp add: unat_of_nat)
  have sum: "unat (off + of_nat (strlen tx)) = unat off + strlen tx"
    using off tx by (simp add: unat_plus_nowrap lt)
  have r: "returns (store_text tx appending n) \<longleftrightarrow> unat len \<le> strlen tx \<and> unat off + unat len < 512"
    by (auto simp: store_text_def Let_def returns_iff not_less not_le simp flip: off_def len_def)
  show ?thesis
  proof (cases "unat off = 512")
    case True
    then have "off = 512" by (simp add: word_unat_eq_iff)
    then have "len = - 1" using sum by (simp add: len_def store_len_def Let_def word_le_nat_alt)
    moreover have "appending \<and> unat (rn_size n) = 512" using True by (cases appending) (simp_all add: off_def store_off_def)
    moreover have "unat (- 1 :: u32) = 4294967295" by (simp add: unat_minus_one_u32)
    ultimately show ?thesis using r tx by simp
  next
    case False
    then have "unat len = min (strlen tx) (511 - unat off)"
      using off sum lt by (auto simp: len_def store_len_def Let_def word_le_nat_alt unat_sub)
    then show ?thesis using r False off by (auto simp: off_def store_off_def)
  qed
qed

lemma ramfs_write_returns:
  assumes inv: "ramfs_inv g" and tx: "strlen (case tx of None \<Rightarrow> [] | Some t \<Rightarrow> t) < 2 ^ 31"
  shows "returns (ramfs_write nm tx appending g) \<longleftrightarrow> \<not> (appending \<and> full_file g nm)"
proof -
  obtain rc g1 where t: "ramfs_touch nm g = Ok (rc, g1)" "ramfs_inv g1"
      "nm \<noteq> None \<longrightarrow> 0 \<le> rc \<longrightarrow> dir_map g1 0 (c_text (the nm)) \<noteq> None"
    using ramfs_touch_inv [OF inv, of nm] by (elim exE conjE) (rule that; assumption)
  have root: "is_directory g 0" "is_directory g1 0" using ramfs_invD(3) inv t(2) by blast+
  show ?thesis
  proof (cases "rc < 0")
    case True
    then have "\<not> full_file g nm" using t(1) ramfs_touch_spec [OF inv] by (auto simp: full_file_def split: if_splits)
    then show ?thesis using t(1) True by (simp add: ramfs_write_def)
  next
    case False
    then obtain n where n: "nm = Some n" using t(1) by (cases nm) (auto simp: ramfs_touch_def)
    then obtain i where i: "dir_map g1 0 (c_text n) = Some i" using t(3) False by auto
    have i96: "i < 96" using child_index(1) [OF t(2) root(2) i] .
    have find: "node_find_child 0 n g1 = Ok (int i)"
      using node_find_child_spec [OF t(2) root(2), of n] i by simp
    have sz: "length (file_bytes g1 i) = unat (rn_size (g1 ! i))"
      using ramfs_invD(2) [OF t(2) i96] by (simp add: file_bytes_def node_ok_def word_le_nat_alt)
    have full: "full_file g nm \<longleftrightarrow> length (file_bytes g1 i) = 512"
    proof (cases "dir_map g 0 (c_text n)")
      case None
      then obtain x where "fresh_node g = Some x" "legal_name n" "g1 = linked g 0 x n False"
        using t(1) False n ramfs_touch_spec [OF inv, of n] by (auto split: option.splits if_splits)
      with linked_spec(2,6) [OF inv root(1) this(1,2) None, of False] i None show ?thesis by (simp add: full_file_def n)
    next
      case (Some j)
      then have "g1 = g" "c_text n \<noteq> []" using t(1) False n ramfs_touch_spec [OF inv, of n] by (auto split: if_splits)
      then show ?thesis using i by (simp add: full_file_def n)
    qed
    have "returns (ramfs_write nm tx appending g) \<longleftrightarrow>
        returns (store_text (case tx of None \<Rightarrow> [] | Some t \<Rightarrow> t) appending (g1 ! i))"
      using t(1) False i96 by (auto simp: ramfs_write_def n find returns_iff rbind_Ok_iff)
    then show ?thesis using store_text_returns [OF ramfs_invD(2) [OF t(2) i96] tx] full sz by simp
  qed
qed

section \<open>Concrete states\<close>

definition one_file :: ramfs where
  "one_file = linked (ramfs_init []) 0 1 (lit ''a'') False"

lemma legal_a: "legal_name (lit ''a'')" "c_text (lit ''a'') = lit ''a''" "is_text (lit ''a'')"
  by (simp_all add: legal_name_def lit_def)

lemma fresh_init: "fresh_node (ramfs_init g) = Some 1"
proof -
  have "upt 0 96 = 0 # 1 # upt 2 96" by (simp add: upt_conv_Cons)
  then show ?thesis by (simp add: fresh_node_def ramfs_init_def zero_node_def)
qed

lemma one_file:
  shows "ramfs_inv one_file" and "dir_map one_file 0 = [lit ''a'' \<mapsto> 1]" and "is_directory one_file 0"
    and "is_regular one_file 1" and "file_bytes one_file 1 = []"
    and "ramfs_touch (Some (lit ''a'')) (ramfs_init []) = Ok (0, one_file)"
proof -
  note inv = ramfs_init_inv [of "[]"]
  have root: "is_directory (ramfs_init []) 0" by (simp add: ramfs_init_dirs)
  have none: "dir_map (ramfs_init []) 0 (c_text (lit ''a'')) = None" by (simp add: ramfs_init_empty)
  note L = linked_spec [OF inv root fresh_init legal_a(1) none, where isd = False, folded one_file_def]
  show "ramfs_inv one_file" by (rule L(1))
  show "dir_map one_file 0 = [lit ''a'' \<mapsto> 1]" using L(2) by (simp add: ramfs_init_empty legal_a)
  show "is_directory one_file 0" using L(4) root by blast
  show "is_regular one_file 1" using L(9,10) by (simp add: is_regular_def)
  show "file_bytes one_file 1 = []" by (rule L(6))
  show "ramfs_touch (Some (lit ''a'')) (ramfs_init []) = Ok (0, one_file)"
    using ramfs_touch_spec [OF inv, of "lit ''a''"] none fresh_init legal_a
    by (simp add: one_file_def lit_def)
qed

section \<open>Properties\<close>



text \<open>
  \<open>fs_create\<close> adds exactly one entry, for the lowest unused node and empty, when the name is legal
  (1 to 23 characters), new in its directory and a node is unused; in every other case it fails with
  -1, or -2 for a full table, and every directory and file is as before. A lookup afterwards finds the
  new node, and every other lookup in any directory gives what it gave.
\<close>

theorem ramfs_create_lookup:
  assumes "ramfs_inv g" and "is_directory g d" and "is_text nm"
  shows "\<exists>r g'. fs_create ctx (Some d) (Some nm) isd g = Ok (r, g') \<and> ramfs_inv g' \<and>
    (if entry_of g d nm = None \<and> fresh_node g \<noteq> None \<and> legal_name nm
     then r = Inr (fresh_node g) \<and> fs_lookup ctx (Some d) (Some nm) g' = Ok (Inr (fresh_node g, isd)) \<and>
       file_bytes g' (the (fresh_node g)) = []
     else r = Inl (if entry_of g d nm = None \<and> fresh_node g = None then -2 else -1) \<and>
       fs_lookup ctx (Some d) (Some nm) g' = fs_lookup ctx (Some d) (Some nm) g) \<and>
    (\<forall>e k. is_directory g e \<and> is_text k \<and> (e, k) \<noteq> (d, nm) \<longrightarrow>
      fs_lookup ctx (Some e) (Some k) g' = fs_lookup ctx (Some e) (Some k) g) \<and>
    (\<forall>f. is_regular g f \<longrightarrow> file_bytes g' f = file_bytes g f)"
proof -
  have nm: "c_text nm = nm" using assms(3) by simp
  obtain r g' where c: "fs_create ctx (Some d) (Some nm) isd g = Ok (r, g')" "ramfs_inv g'" "kept g g' d nm"
      "if entry_of g d nm = None \<and> fresh_node g \<noteq> None \<and> legal_name nm
       then r = Inr (fresh_node g) \<and> entry_of g' d nm = Some (the (fresh_node g), isd) \<and>
         file_bytes g' (the (fresh_node g)) = []
       else r = Inl (if entry_of g d nm = None \<and> fresh_node g = None then -2 else -1) \<and>
         entry_of g' d = entry_of g d"
    using fs_create_spec [OF assms(1,2), of ctx nm isd] unfolding nm by blast
  have d': "is_directory g' d" using c(3) assms(2) by (simp add: kept_def)
  have same: "fs_lookup ctx (Some e) (Some k) g' = fs_lookup ctx (Some e) (Some k) g"
    if "is_directory g e" "is_text k" "(e, k) \<noteq> (d, nm)" for e k
    using that c(3) fs_lookup_spec [OF assms(1), of e ctx k] fs_lookup_spec [OF c(2), of e ctx k]
    by (simp add: kept_def)
  show ?thesis
    using c fs_lookup_spec [OF c(2) d', of ctx nm] fs_lookup_spec [OF assms(1,2), of ctx nm] nm same
    by (intro exI [of _ r] exI [of _ g'] conjI) (auto simp: kept_def split: if_splits)
qed

theorem ramfs_create_lookup_witness:
  "\<exists>g'. fs_create 0 (Some 0) (Some (lit ''a'')) True (ramfs_init []) = Ok (Inr (Some 1), g') \<and>
    fs_lookup 0 (Some 0) (Some (lit ''a'')) g' = Ok (Inr (Some 1, True))"
proof -
  have "is_directory (ramfs_init []) 0" "entry_of (ramfs_init []) 0 (lit ''a'') = None"
    by (simp_all add: ramfs_init_dirs entry_of_def ramfs_init_empty)
  with ramfs_create_lookup [OF ramfs_init_inv [of "[]"] this(1) legal_a(3), of 0 True]
  show ?thesis using legal_a(1) by (auto simp: fresh_init)
qed

text \<open>
  What \<open>fs_write\<close> stores at an offset inside a file, up to 512 bytes, \<open>fs_read\<close> gives back, and the
  other files and all directories are as before.
\<close>

theorem ramfs_write_read:
  assumes "ramfs_inv g" and "is_regular g i" and "length src = unat n" and "length buf = unat n"
    and "unat off \<le> length (file_bytes g i)" and "unat off + unat n \<le> 512"
  shows "\<exists>g'. fs_write ctx (Some i) off (Some src) n g = Ok (int (unat n), g') \<and> ramfs_inv g' \<and>
    fs_read ctx (Some i) off (Some buf) n g' = Ok (int (unat n), Some src)"
  using ramdisk.write_then_read [OF assms(1-3,5,6,4)] by blast

theorem ramfs_write_read_witness:
  "\<exists>g'. fs_write 0 (Some 1) 0 (Some (lit ''hello'')) 5 one_file = Ok (5, g') \<and>
    fs_read 0 (Some 1) 0 (Some [0, 0, 0, 0, 0]) 5 g' = Ok (5, Some (lit ''hello''))"
  using ramfs_write_read [OF one_file(1,4), of "lit ''hello''" 5 "[0, 0, 0, 0, 0]" 0 0]
  by (auto simp: lit_def)

text \<open>
  \<open>ramfs_write\<close> replaces the text of a file, or appends to it, up to 511 bytes, and \<open>ramfs_read\<close>
  gives the new text; but appending to a file that a write through the virtual file system has filled
  to 512 bytes, even the empty text, copies almost 4 GiB over the end of the data array.
\<close>

theorem ramfs_write_text:
  assumes "ramfs_inv g" and "dir_map g 0 nm = Some i" and "nm \<noteq> []" and "is_text nm"
    and "\<not> rn_is_dir (g ! i)" and "is_text tx" and "length tx < 2 ^ 31"
  shows "if appending \<and> length (file_bytes g i) = 512
    then ramfs_write (Some nm) (Some tx) appending g = Fail Wild
    else \<exists>g' dat size. ramfs_write (Some nm) (Some tx) appending g = Ok (0, g') \<and>
      ramfs_read nm g' = Ok (Some (dat, size)) \<and>
      take (unat size) dat = take 511 ((if appending then file_bytes g i else []) @ tx)"
proof -
  have nm: "c_text nm = nm" using assms(4) by simp
  have root: "is_directory g 0" using ramfs_invD(3) [OF assms(1)] .
  have i: "i < 96" using child_index(1) [OF assms(1) root assms(2)] .
  have ok: "node_ok (g ! i)" using ramfs_invD(2) [OF assms(1) i] .
  have size: "length (file_bytes g i) = unat (rn_size (g ! i))" "unat (rn_size (g ! i)) \<le> 512"
    using length_file_bytes [OF ok] ok by (simp_all add: node_ok_def word_le_nat_alt)
  show ?thesis
  proof (cases "appending \<and> length (file_bytes g i) = 512")
    case True
    have "rn_size (g ! i) = 512" using True size by (simp add: word_unat_eq_iff)
    moreover have "unat (512 + of_nat (length tx) :: u32) = 512 + length tx"
      using assms(7) by (simp add: unat_word_ariths unat_of_nat)
    ultimately have "store_text tx appending (g ! i) = Fail Wild"
      using True assms(6,7) by (simp add: store_text_def store_off_def store_len_def Let_def word_le_nat_alt)
    moreover have "ramfs_touch (Some nm) g = Ok (0, g)" "node_find_child 0 nm g = Ok (int i)"
      using ramfs_touch_spec [OF assms(1), of nm] node_find_child_spec [OF assms(1) root, of nm] assms(2,3) nm
      by simp_all
    ultimately show ?thesis using True i by (simp add: ramfs_write_def)
  next
    case False
    have room: "appending \<Longrightarrow> rn_size (g ! i) < 512" using False size by (auto simp: word_less_nat_alt)
    obtain g' where g': "ramfs_write (Some nm) (Some tx) appending g = Ok (0, g')" "ramfs_inv g'"
        "dir_map g' 0 = dir_map g 0" "file_bytes g' i = written (file_bytes g i) tx appending"
        "\<And>j. rn_is_dir (g' ! j) = rn_is_dir (g ! j)"
      using ramfs_write_existing [OF assms(1), of nm i tx appending] assms(2,3,6,7) nm room by metis
    have "ramfs_read nm g' = Ok (Some (rn_data (g' ! i), rn_size (g' ! i)))"
      using ramfs_read_spec [OF g'(2), of nm] assms(2,5) g'(3,5) nm by simp
    then show ?thesis using False g'(1,4) by (auto simp: file_bytes_def written_def)
  qed
qed

theorem ramfs_write_text_witness:
  "\<exists>g. ramfs_inv g \<and> ramfs_write (Some (lit ''a'')) (Some []) True g = Fail Wild"
proof -
  let ?b = "replicate 512 (1 :: u8)"
  have i: "1 < (96 :: nat)" "\<not> rn_is_dir (one_file ! 1)" using one_file(4) by (auto simp: is_regular_def)
  obtain g' where g': "fs_write 0 (Some 1) 0 (Some ?b) 512 one_file = Ok (512, g')" "ramfs_inv g'"
      "file_bytes g' 1 = blit [] 0 (take 512 ?b)" "dir_map g' 0 = dir_map one_file 0"
      "\<not> rn_is_dir (g' ! 1)"
    using fs_write_effect [OF one_file(1) i, of 512 ?b 0 0] i one_file(3,5) by auto metis
  have "length (file_bytes g' 1) = 512" unfolding g'(3) by (simp add: blit_def)
  moreover have "dir_map g' 0 (lit ''a'') = Some 1" by (simp add: g'(4) one_file(2))
  ultimately have "ramfs_write (Some (lit ''a'')) (Some []) True g' = Fail Wild"
    using ramfs_write_text [OF g'(2), of "lit ''a''" 1 "[]" True] g'(5) legal_a by (simp add: lit_def)
  with g'(2) show ?thesis by blast
qed

end
