(* ===== verification/Vfs.thy ===== *)
theory Vfs
  imports Fs_Interface
begin

unbundle bit_operations_syntax

text \<open>
  The virtual file system, \<open>kernel/fs/vfs.c\<close>: path normalisation, a table of 4 mounts, a table of 32
  open files and the working directory, over any file systems that implement \<open>vfs_fs_ops_t\<close>. A
  character array that \<open>copy_str\<close> fills is its text. The type \<open>'s\<close> is the joint state of the mounted
  file systems, which the operations pass along.
\<close>

section \<open>State\<close>

abbreviation (input) "VFS_MAX_PATH \<equiv> (128 :: nat)"
abbreviation (input) "VFS_MAX_NAME \<equiv> (24 :: nat)"
abbreviation (input) "VFS_MAX_MOUNTS \<equiv> (4 :: nat)"
abbreviation (input) "VFS_MAX_FD \<equiv> (32 :: nat)"
abbreviation (input) "VFS_O_RDONLY \<equiv> (0x01 :: u32)"
abbreviation (input) "VFS_O_WRONLY \<equiv> (0x02 :: u32)"
abbreviation (input) "VFS_O_RDWR \<equiv> (0x03 :: u32)"
abbreviation (input) "VFS_O_CREATE \<equiv> (0x10 :: u32)"

record ('h, 's) vfs_mount_entry =
  mt_used :: bool
  mt_point :: "u8 list"
  mt_ops :: "('h, 's) fs_ops option"
  mt_ctx :: u32

record ('h, 's) vfs_fd =
  fd_used :: bool
  fd_flags :: u32
  fd_ops :: "('h, 's) fs_ops option"
  fd_ctx :: u32
  fd_node :: "'h option"
  fd_pos :: u32

record ('h, 's) vfs =
  mounts :: "('h, 's) vfs_mount_entry list"
  fds :: "('h, 's) vfs_fd list"
  cwd :: "u8 list"
  fs_state :: 's

record vfs_dirent =
  de_name :: "u8 list"
  de_is_dir :: bool
  de_size :: u32

record vfs_stat_rec =
  st_is_dir :: bool
  st_size :: u32

section \<open>Paths\<close>

definition s_len :: "u8 list \<Rightarrow> nat \<Rightarrow> nat" where
  "s_len s bound = strlen (take bound s)"

text \<open>The text that a destination of \<open>bound\<close> bytes receives, or nothing when it is too long.\<close>

definition copy_str :: "u8 list \<Rightarrow> nat \<Rightarrow> u8 list option" where
  "copy_str src bound =
     (let n = s_len src (bound - 1)
      in if first_char (drop n src) \<noteq> 0 then None else Some (take n src))"

text \<open>
  One path component: up to 23 of its characters, and the rest of the path after all of them. The
  path does not begin with a slash.
\<close>

definition next_seg :: "u8 list \<Rightarrow> u8 list \<times> u8 list" where
  "next_seg t = (take (VFS_MAX_NAME - 1) (takeWhile (\<lambda>c. c \<noteq> ch_slash) t), dropWhile (\<lambda>c. c \<noteq> ch_slash) t)"

definition skip_slashes :: "u8 list \<Rightarrow> u8 list" where
  "skip_slashes t = dropWhile (\<lambda>c. c = ch_slash) t"

lemma skip_slashes_shorter: "length (skip_slashes t) \<le> length t"
  by (simp add: skip_slashes_def length_dropWhile_le)

lemma next_seg_shorter: "skip_slashes t \<noteq> [] \<Longrightarrow> length (snd (next_seg (skip_slashes t))) < length t"
proof -
  assume ne: "skip_slashes t \<noteq> []"
  then obtain c u where t: "skip_slashes t = c # u" by (cases "skip_slashes t") auto
  then have "c \<noteq> ch_slash" using hd_dropWhile [of "\<lambda>c. c = ch_slash" t] by (auto simp: skip_slashes_def)
  then have "length (snd (next_seg (skip_slashes t))) \<le> length u"
    by (simp add: t next_seg_def length_dropWhile_le)
  then show ?thesis using skip_slashes_shorter [of t] t by simp
qed

lemma next_seg_rest:
  "(seg, rest) = next_seg (skip_slashes t) \<Longrightarrow> skip_slashes t \<noteq> [] \<Longrightarrow> length rest < length t"
  using next_seg_shorter [of t] by (metis snd_conv)

text \<open>The components of a path, \<open>.\<close> and \<open>..\<close> resolved against the stack \<open>segs\<close> of at most 16.\<close>

function norm_segs :: "u8 list \<Rightarrow> u8 list list \<Rightarrow> u8 list list option" where
  "norm_segs temp segs =
     (let t = skip_slashes temp
      in if t = [] then Some segs
         else
           (let (seg, rest) = next_seg t
            in if strcmp seg (lit ''.'') = 0 then norm_segs rest segs
               else if strcmp seg (lit ''..'') = 0
                 then norm_segs rest (if length segs > 0 then butlast segs else segs)
               else if length segs \<ge> 16 then None
               else case copy_str seg VFS_MAX_NAME of
                      None \<Rightarrow> None
                    | Some s \<Rightarrow> norm_segs rest (segs @ [s])))"
  by pat_completeness auto
termination
  by (relation "measure (\<lambda>(temp, segs). length temp)") (auto dest: next_seg_rest)

declare norm_segs.simps [simp del]

fun join_segs :: "u8 list \<Rightarrow> u8 list list \<Rightarrow> u8 list option" where
  "join_segs out [] = Some out"
| "join_segs out (s # segs) =
     (let n = s_len s VFS_MAX_NAME
      in if length out + n + 1 \<ge> VFS_MAX_PATH then None
         else join_segs ((if length out > 1 then out @ [ch_slash] else out) @ take n s) segs)"

definition absolute_text :: "u8 list \<Rightarrow> u8 list \<Rightarrow> u8 list option" where
  "absolute_text wd path =
     (if first_char path = ch_slash then copy_str path VFS_MAX_PATH
      else
        (let wd_len = s_len wd VFS_MAX_PATH
         in if wd_len + 1 \<ge> VFS_MAX_PATH then None
            else
              (let temp = take wd_len wd;
                   temp = (if wd_len > 1 then temp @ [ch_slash] else temp)
               in map_option (\<lambda>s. temp @ s) (copy_str path (VFS_MAX_PATH - length temp)))))"

definition normalize_path :: "u8 list \<Rightarrow> u8 list option \<Rightarrow> u8 list option" where
  "normalize_path wd path =
     (case path of
        None \<Rightarrow> None
      | Some p \<Rightarrow>
          (case absolute_text wd p of
             None \<Rightarrow> None
           | Some temp \<Rightarrow>
               (case norm_segs temp [] of
                  None \<Rightarrow> None
                | Some segs \<Rightarrow> join_segs [ch_slash] segs)))"

section \<open>Resolution\<close>

definition starts_with :: "u8 list \<Rightarrow> u8 list \<Rightarrow> bool" where
  "starts_with a b =
     (let n = strlen b
      in strncmp a b n = 0 \<and> (first_char (drop n a) = 0 \<or> first_char (drop n a) = ch_slash))"

definition best_mount ::
  "u8 list \<Rightarrow> ('h, 's) vfs_mount_entry \<Rightarrow> ('h, 's) vfs_mount_entry option \<times> nat \<Rightarrow>
   ('h, 's) vfs_mount_entry option \<times> nat" where
  "best_mount path m best =
     (if \<not> mt_used m then best
      else if \<not> starts_with path (mt_point m) then best
      else (let mlen = strlen (mt_point m) in if mlen \<ge> snd best then (Some m, mlen) else best))"

definition find_mount ::
  "u8 list \<Rightarrow> ('h, 's) vfs \<Rightarrow> (('h, 's) vfs_mount_entry \<times> u8 list) option" where
  "find_mount path v =
     (case fold (best_mount path) (mounts v) (None, 0) of
        (None, _) \<Rightarrow> None
      | (Some m, best_len) \<Rightarrow>
          (let sub = drop best_len path
           in Some (m, if first_char sub = ch_slash then tl sub else sub)))"

text \<open>The walk from the root of a mount; a component is truncated to 23 characters.\<close>

function resolve_segs ::
  "(u32 \<Rightarrow> 'h option \<Rightarrow> u8 list option \<Rightarrow> 's \<Rightarrow> (int + ('h option \<times> bool)) res) \<Rightarrow> u32 \<Rightarrow> 's \<Rightarrow>
   'h option \<Rightarrow> bool \<Rightarrow> u8 list \<Rightarrow> ('h option \<times> bool) option res" where
  "resolve_segs look ctx s cur is_dir sub =
     (if sub = [] then Ok (Some (cur, is_dir))
      else if \<not> is_dir then Ok None
      else
        (let t = skip_slashes sub
         in if t = [] then Ok (Some (cur, is_dir))
            else
              (let (seg, rest) = next_seg t
               in case look ctx cur (Some seg) s of
                    Fail e \<Rightarrow> Fail e
                  | Ok (Inl rc) \<Rightarrow> if rc < 0 then Ok None else resolve_segs look ctx s None is_dir rest
                  | Ok (Inr (next, is_dir)) \<Rightarrow> resolve_segs look ctx s next is_dir rest)))"
  by pat_completeness auto
termination
  by (relation "measure (\<lambda>(look, ctx, s, cur, is_dir, sub). length sub)") (auto dest: next_seg_rest)

declare resolve_segs.simps [simp del]

definition resolve_on_mount ::
  "('h, 's) vfs_mount_entry \<Rightarrow> u8 list \<Rightarrow> 's \<Rightarrow> ('h option \<times> bool) option res" where
  "resolve_on_mount m sub s =
     (case mt_ops m of
        None \<Rightarrow> Ok None
      | Some ops \<Rightarrow>
          (case (op_get_root ops, op_lookup ops) of
             (Some get_root, Some look) \<Rightarrow>
               rbind (get_root (mt_ctx m) s) (\<lambda>cur.
                 if first_char sub = 0 then Ok (Some (cur, True))
                 else resolve_segs look (mt_ctx m) s cur True sub)
           | _ \<Rightarrow> Ok None))"

definition resolve_path ::
  "u8 list option \<Rightarrow> ('h, 's) vfs \<Rightarrow> (('h, 's) vfs_mount_entry \<times> 'h option \<times> bool) option res" where
  "resolve_path path v =
     (case normalize_path (cwd v) path of
        None \<Rightarrow> Ok None
      | Some norm \<Rightarrow>
          (case find_mount norm v of
             None \<Rightarrow> Ok None
           | Some (m, sub) \<Rightarrow>
               rbind (resolve_on_mount m sub (fs_state v)) (\<lambda>r.
                 case r of None \<Rightarrow> Ok None | Some (node, is_dir) \<Rightarrow> Ok (Some (m, node, is_dir)))))"

text \<open>The mount and the directory that a path lies in, and its last component.\<close>

definition resolve_parent ::
  "u8 list option \<Rightarrow> ('h, 's) vfs \<Rightarrow> (('h, 's) vfs_mount_entry \<times> 'h option \<times> u8 list) option res" where
  "resolve_parent path v =
     (case normalize_path (cwd v) path of
        None \<Rightarrow> Ok None
      | Some norm \<Rightarrow>
          if strcmp norm (lit ''/'') = 0 then Ok None
          else
            (let leaf = rev (takeWhile (\<lambda>c. c \<noteq> ch_slash) (rev norm))
             in if length leaf = length norm then Ok None
                else case copy_str leaf VFS_MAX_NAME of
                  None \<Rightarrow> Ok None
                | Some out_leaf \<Rightarrow>
                    (let cut = length norm - length leaf - 1
                     in if cut \<noteq> 0 \<and> cut + 1 \<ge> VFS_MAX_PATH then Ok None
                        else rbind (resolve_path (Some (if cut = 0 then lit ''/'' else take cut norm)) v) (\<lambda>r.
                          case r of
                            None \<Rightarrow> Ok None
                          | Some (m, node, is_dir) \<Rightarrow> Ok (Some (m, node, out_leaf))))))"

section \<open>Operations\<close>

definition no_mount :: "('h, 's) vfs_mount_entry" where
  "no_mount = \<lparr>mt_used = False, mt_point = [], mt_ops = None, mt_ctx = 0\<rparr>"

definition no_fd :: "('h, 's) vfs_fd" where
  "no_fd = \<lparr>fd_used = False, fd_flags = 0, fd_ops = None, fd_ctx = 0, fd_node = None, fd_pos = 0\<rparr>"

definition vfs_init :: "('h, 's) vfs \<Rightarrow> ('h, 's) vfs" where
  "vfs_init v = v\<lparr>mounts := replicate VFS_MAX_MOUNTS no_mount, fds := replicate VFS_MAX_FD no_fd,
     cwd := [ch_slash]\<rparr>"

definition vfs_mount ::
  "u8 list option \<Rightarrow> ('h, 's) fs_ops option \<Rightarrow> u32 \<Rightarrow> ('h, 's) vfs \<Rightarrow> int \<times> ('h, 's) vfs" where
  "vfs_mount mountpoint ops ctx v =
     (if ops = None then (-1, v)
      else case normalize_path (cwd v) mountpoint of
        None \<Rightarrow> (-1, v)
      | Some norm \<Rightarrow>
          (case find (\<lambda>i. \<not> mt_used (mounts v ! i)) [0..<VFS_MAX_MOUNTS] of
             None \<Rightarrow> (-1, v)
           | Some i \<Rightarrow>
               (0, v\<lparr>mounts := (mounts v)[i := (mounts v ! i)\<lparr>mt_used := True,
                  mt_point := (case copy_str norm VFS_MAX_PATH of None \<Rightarrow> mt_point (mounts v ! i) | Some s \<Rightarrow> s),
                  mt_ops := ops, mt_ctx := ctx\<rparr>]\<rparr>)))"

text \<open>\<open>vfs_mkdir\<close> and \<open>vfs_create\<close> differ in one argument.\<close>

definition make_node :: "bool \<Rightarrow> u8 list option \<Rightarrow> ('h, 's) vfs \<Rightarrow> (int \<times> ('h, 's) vfs) res" where
  "make_node is_dir path v =
     rbind (resolve_parent path v) (\<lambda>r.
       case r of
         None \<Rightarrow> Ok (-1, v)
       | Some (m, parent, leaf) \<Rightarrow>
           (case mt_ops m of
              None \<Rightarrow> Fail Wild
            | Some ops \<Rightarrow>
                (case op_create ops of
                   None \<Rightarrow> Ok (-1, v)
                 | Some create \<Rightarrow>
                     rbind (create (mt_ctx m) parent (Some leaf) is_dir (fs_state v)) (\<lambda>(rc, s).
                       Ok (case rc of Inl e \<Rightarrow> e | Inr _ \<Rightarrow> 0, v\<lparr>fs_state := s\<rparr>)))))"

definition vfs_mkdir :: "u8 list option \<Rightarrow> ('h, 's) vfs \<Rightarrow> (int \<times> ('h, 's) vfs) res" where
  "vfs_mkdir path v = make_node True path v"

definition vfs_create :: "u8 list option \<Rightarrow> ('h, 's) vfs \<Rightarrow> (int \<times> ('h, 's) vfs) res" where
  "vfs_create path v = make_node False path v"

text \<open>The search for an unused descriptor, the last part of \<open>vfs_open\<close>.\<close>

definition take_fd ::
  "u32 \<Rightarrow> ('h, 's) vfs_mount_entry \<Rightarrow> 'h option \<Rightarrow> ('h, 's) vfs \<Rightarrow> int \<times> ('h, 's) vfs" where
  "take_fd flags m node v =
     (case find (\<lambda>i. \<not> fd_used (fds v ! i)) [0..<VFS_MAX_FD] of
        None \<Rightarrow> (-1, v)
      | Some i \<Rightarrow>
          (int i, v\<lparr>fds := (fds v)[i := \<lparr>fd_used = True, fd_flags = flags, fd_ops = mt_ops m,
             fd_ctx = mt_ctx m, fd_node = node, fd_pos = 0\<rparr>]\<rparr>))"

definition vfs_open :: "u8 list option \<Rightarrow> u32 \<Rightarrow> ('h, 's) vfs \<Rightarrow> (int \<times> ('h, 's) vfs) res" where
  "vfs_open path flags v =
     rbind (resolve_path path v) (\<lambda>r.
       case r of
         Some (m, node, False) \<Rightarrow> Ok (take_fd flags m node v)
       | _ \<Rightarrow>
           if flags AND VFS_O_CREATE = 0 then Ok (-1, v)
           else rbind (vfs_create path v) (\<lambda>(rc, v).
             if rc < 0 then Ok (-1, v)
             else rbind (resolve_path path v) (\<lambda>r.
               case r of
                 Some (m, node, False) \<Rightarrow> Ok (take_fd flags m node v)
               | _ \<Rightarrow> Ok (-1, v))))"

definition open_fd :: "int \<Rightarrow> ('h, 's) vfs \<Rightarrow> bool" where
  "open_fd fd v \<longleftrightarrow> \<not> (fd < 0 \<or> fd \<ge> int VFS_MAX_FD \<or> \<not> fd_used (fds v ! nat fd))"

definition advance :: "int \<Rightarrow> int \<Rightarrow> ('h, 's) vfs \<Rightarrow> ('h, 's) vfs" where
  "advance fd rc v =
     (if rc > 0
      then v\<lparr>fds := (fds v)[nat fd := (fds v ! nat fd)\<lparr>fd_pos := fd_pos (fds v ! nat fd) + of_int rc\<rparr>]\<rparr>
      else v)"

text \<open>An open descriptor whose \<open>ops\<close> pointer were null would be a stray access.\<close>

definition vfs_read ::
  "int \<Rightarrow> u8 list option \<Rightarrow> u32 \<Rightarrow> ('h, 's) vfs \<Rightarrow> (int \<times> u8 list option \<times> ('h, 's) vfs) res" where
  "vfs_read fd buf n v =
     (if \<not> open_fd fd v then Ok (-1, buf, v)
      else
        (let f = fds v ! nat fd
         in case fd_ops f of
              None \<Rightarrow> Fail Wild
            | Some ops \<Rightarrow>
                (case op_read ops of
                   None \<Rightarrow> Ok (-1, buf, v)
                 | Some rd \<Rightarrow>
                     if fd_flags f AND VFS_O_WRONLY = VFS_O_WRONLY then Ok (-1, buf, v)
                     else rbind (rd (fd_ctx f) (fd_node f) (fd_pos f) buf n (fs_state v)) (\<lambda>(rc, buf).
                       Ok (rc, buf, advance fd rc v)))))"

definition vfs_write :: "int \<Rightarrow> u8 list option \<Rightarrow> u32 \<Rightarrow> ('h, 's) vfs \<Rightarrow> (int \<times> ('h, 's) vfs) res" where
  "vfs_write fd buf n v =
     (if \<not> open_fd fd v then Ok (-1, v)
      else
        (let f = fds v ! nat fd
         in case fd_ops f of
              None \<Rightarrow> Fail Wild
            | Some ops \<Rightarrow>
                (case op_write ops of
                   None \<Rightarrow> Ok (-1, v)
                 | Some wr \<Rightarrow>
                     if fd_flags f AND VFS_O_WRONLY = 0 \<and> fd_flags f AND VFS_O_RDWR \<noteq> VFS_O_RDWR then Ok (-1, v)
                     else rbind (wr (fd_ctx f) (fd_node f) (fd_pos f) buf n (fs_state v)) (\<lambda>(rc, s).
                       Ok (rc, advance fd rc (v\<lparr>fs_state := s\<rparr>))))))"

definition vfs_close :: "int \<Rightarrow> ('h, 's) vfs \<Rightarrow> int \<times> ('h, 's) vfs" where
  "vfs_close fd v = (if \<not> open_fd fd v then (-1, v) else (0, v\<lparr>fds := (fds v)[nat fd := no_fd]\<rparr>))"

text \<open>The callback gets an entry and the caller's data, which it may change.\<close>

partial_function (option) listdir_from ::
  "(u32 \<Rightarrow> (int + (u8 list \<times> bool \<times> u32)) res) \<Rightarrow> (vfs_dirent \<Rightarrow> 'u \<Rightarrow> int \<times> 'u) \<Rightarrow> u32 \<Rightarrow> 'u \<Rightarrow> 'u res option" where
  "listdir_from entry_at callback index user =
     (case entry_at index of
        Fail e \<Rightarrow> Some (Fail e)
      | Ok (Inl rc) \<Rightarrow> Some (if rc < 0 then Ok user else Fail Wild)
      | Ok (Inr (name, is_dir, sz)) \<Rightarrow>
          (case callback \<lparr>de_name = name, de_is_dir = is_dir, de_size = sz\<rparr> user of
             (rc, user) \<Rightarrow>
               if rc \<noteq> 0 then Some (Ok user) else listdir_from entry_at callback (index + 1) user))"

definition vfs_listdir ::
  "u8 list option \<Rightarrow> (vfs_dirent \<Rightarrow> 'u \<Rightarrow> int \<times> 'u) option \<Rightarrow> 'u \<Rightarrow> ('h, 's) vfs \<Rightarrow> (int \<times> 'u) res" where
  "vfs_listdir path callback user v =
     (case callback of
        None \<Rightarrow> Ok (-1, user)
      | Some cb \<Rightarrow>
          rbind (resolve_path path v) (\<lambda>r.
            case r of
              Some (m, node, True) \<Rightarrow>
                (case mt_ops m of
                   None \<Rightarrow> Fail Wild
                 | Some ops \<Rightarrow>
                     (case op_readdir ops of
                        None \<Rightarrow> Ok (-1, user)
                      | Some rdd \<Rightarrow>
                          rbind (hang (listdir_from (\<lambda>i. rdd (mt_ctx m) node i (fs_state v)) cb 0 user))
                            (\<lambda>user. Ok (0, user))))
            | _ \<Rightarrow> Ok (-1, user)))"

definition vfs_stat :: "u8 list option \<Rightarrow> ('h, 's) vfs \<Rightarrow> (int + vfs_stat_rec) res" where
  "vfs_stat path v =
     rbind (resolve_path path v) (\<lambda>r.
       case r of
         None \<Rightarrow> Ok (Inl (-1))
       | Some (m, node, is_dir) \<Rightarrow>
           (case mt_ops m of
              None \<Rightarrow> Fail Wild
            | Some ops \<Rightarrow>
                (case (is_dir, op_size ops) of
                   (False, Some sz) \<Rightarrow>
                     rbind (sz (mt_ctx m) node (fs_state v)) (\<lambda>n. Ok (Inr \<lparr>st_is_dir = False, st_size = n\<rparr>))
                 | _ \<Rightarrow> Ok (Inr \<lparr>st_is_dir = is_dir, st_size = 0\<rparr>))))"

definition vfs_chdir :: "u8 list option \<Rightarrow> ('h, 's) vfs \<Rightarrow> (int \<times> ('h, 's) vfs) res" where
  "vfs_chdir path v =
     (case normalize_path (cwd v) path of
        None \<Rightarrow> Ok (-1, v)
      | Some norm \<Rightarrow>
          rbind (resolve_path (Some norm) v) (\<lambda>r.
            case r of
              Some (m, node, True) \<Rightarrow>
                Ok (0, case copy_str norm VFS_MAX_PATH of None \<Rightarrow> v | Some s \<Rightarrow> v\<lparr>cwd := s\<rparr>)
            | _ \<Rightarrow> Ok (-1, v)))"

definition vfs_getcwd :: "('h, 's) vfs \<Rightarrow> u8 list" where
  "vfs_getcwd v = cwd v"

end
