(* ===== verification/Vfs_Laws.thy ===== *)
theory Vfs_Laws
  imports Vfs
begin

unbundle bit_operations_syntax

text \<open>
  Facts about the virtual file system: what path normalisation computes, how mounts and descriptors
  behave, and what a client sees of a file system that keeps the contract of \<open>Fs_Interface\<close>.
\<close>

section \<open>Normal forms of paths\<close>

definition good_seg :: "u8 list \<Rightarrow> bool" where
  "good_seg s \<longleftrightarrow> s \<noteq> [] \<and> length s < 24 \<and> is_text s \<and> ch_slash \<notin> set s \<and> s \<noteq> lit ''.'' \<and> s \<noteq> lit ''..''"

definition render :: "u8 list list \<Rightarrow> u8 list" where
  "render segs = concat (map (\<lambda>s. ch_slash # s) segs)"

definition path_of :: "u8 list list \<Rightarrow> u8 list" where
  "path_of segs = (if segs = [] then [ch_slash] else render segs)"

definition normal_path :: "u8 list \<Rightarrow> bool" where
  "normal_path p \<longleftrightarrow> (\<exists>segs. p = path_of segs \<and> list_all good_seg segs \<and> length segs \<le> 16) \<and> length p < 128"

text \<open>The components of a path, and the stack machine that resolves dots.\<close>

fun split_on :: "u8 \<Rightarrow> u8 list \<Rightarrow> u8 list list" where
  "split_on c [] = [[]]"
| "split_on c (x # xs) = (if x = c then [] # split_on c xs
     else (case split_on c xs of [] \<Rightarrow> [[x]] | s # ss \<Rightarrow> (x # s) # ss))"

definition components :: "u8 list \<Rightarrow> u8 list list" where
  "components p = map (take 23) (filter (\<lambda>s. s \<noteq> []) (split_on ch_slash p))"

definition dot_step :: "u8 list \<Rightarrow> u8 list list \<Rightarrow> u8 list list" where
  "dot_step s segs = (if s = lit ''.'' then segs else if s = lit ''..'' then butlast segs else segs @ [s])"

lemma split_on_rest:
  "split_on c t = takeWhile (\<lambda>x. x \<noteq> c) t #
     (case dropWhile (\<lambda>x. x \<noteq> c) t of [] \<Rightarrow> [] | _ # u \<Rightarrow> split_on c u)"
  by (induction t) auto

lemma components_skip: "components (skip_slashes t) = components t"
  by (induction t) (auto simp: components_def skip_slashes_def)

lemma components_Nil: "skip_slashes t = [] \<Longrightarrow> components t = []"
  using components_skip [of t] by (simp add: components_def)

lemma skip_slashes_hd: "skip_slashes t = c # u \<Longrightarrow> c \<noteq> ch_slash"
  using hd_dropWhile [of "\<lambda>c. c = ch_slash" t] by (auto simp: skip_slashes_def)

lemma components_seg:
  assumes "skip_slashes t \<noteq> []" and "next_seg (skip_slashes t) = (seg, rest)"
  shows "components t = seg # components rest"
proof -
  obtain c u where cu: "skip_slashes t = c # u" using assms(1) by (cases "skip_slashes t") auto
  have c: "c \<noteq> ch_slash" using skip_slashes_hd [OF cu] .
  have seg: "seg = take 23 (takeWhile (\<lambda>c. c \<noteq> ch_slash) (c # u))"
    and rest: "rest = dropWhile (\<lambda>c. c \<noteq> ch_slash) (c # u)"
    using assms(2) by (simp_all add: cu next_seg_def)
  have hd: "rest = ch_slash # v" if "rest = d # v" for d v
    using that hd_dropWhile [of "\<lambda>c. c \<noteq> ch_slash" "c # u"] rest by auto
  have "components t = components (c # u)" using components_skip [of t] by (simp add: cu)
  also have "\<dots> = seg # components rest"
    using c hd unfolding components_def split_on_rest [of _ "c # u"] rest [symmetric] seg
    by (cases rest) (auto simp: components_def)
  finally show ?thesis .
qed

lemma next_seg_text:
  assumes "is_text t" and "next_seg (skip_slashes t) = (seg, rest)"
  shows "is_text seg" and "is_text rest" and "length seg < 24" and "ch_slash \<notin> set seg"
    and "skip_slashes t \<noteq> [] \<Longrightarrow> seg \<noteq> []"
proof -
  let ?w = "takeWhile (\<lambda>c. c \<noteq> ch_slash) (skip_slashes t)"
  have seg: "seg = take 23 ?w" and rest: "rest = dropWhile (\<lambda>c. c \<noteq> ch_slash) (skip_slashes t)"
    using assms(2) by (simp_all add: next_seg_def)
  have sub: "set seg \<subseteq> set ?w" unfolding seg by (rule set_take_subset)
  moreover have "set ?w \<subseteq> set (skip_slashes t)" by (auto dest: set_takeWhileD)
  moreover have "set rest \<subseteq> set (skip_slashes t)" unfolding rest by (auto dest: set_dropWhileD)
  moreover have "set (skip_slashes t) \<subseteq> set t" unfolding skip_slashes_def by (auto dest: set_dropWhileD)
  ultimately have "set seg \<subseteq> set t" "set rest \<subseteq> set t" by blast+
  then show "is_text seg" "is_text rest"
    using assms(1) by (simp_all add: is_text_def list_all_iff subset_iff)
  show "length seg < 24" by (simp add: seg)
  show "ch_slash \<notin> set seg" using sub set_takeWhileD [of ch_slash "\<lambda>c. c \<noteq> ch_slash"] by blast
  show "seg \<noteq> []" if "skip_slashes t \<noteq> []"
    using that assms(2) skip_slashes_hd [of t] by (cases "skip_slashes t") (auto simp: next_seg_def)
qed

lemma copy_str_text: "is_text s \<Longrightarrow> copy_str s b = (if length s < b \<or> length s = 0 then Some s else None)"
proof -
  assume t: "is_text s"
  have n: "s_len s (b - Suc 0) = min (b - Suc 0) (length s)" using t by (simp add: s_len_def)
  have fc: "(first_char (drop k s) = 0) = (length s \<le> k)" for k
  proof (cases "k < length s")
    case True
    then have "drop k s = s ! k # drop (Suc k) s" by (simp add: Cons_nth_drop_Suc)
    moreover have "s ! k \<noteq> 0" using t True by (simp add: is_text_def list_all_length)
    ultimately show ?thesis using True by simp
  qed simp
  show ?thesis
  proof (cases "length s < b")
    case True
    then have "min (b - Suc 0) (length s) = length s" by simp
    then show ?thesis using True by (simp add: copy_str_def n fc Let_def)
  next
    case False
    then have "min (b - Suc 0) (length s) = b - Suc 0" "length s \<le> b - Suc 0 \<longleftrightarrow> length s = 0" by linarith+
    then show ?thesis using False by (simp add: copy_str_def n fc Let_def)
  qed
qed

lemma dots_text [simp]: "is_text (lit ''.'')" "is_text (lit ''..'')" "is_text (lit ''/'')"
  by (simp_all add: lit_def)

lemma norm_segs_fold:
  "is_text t \<Longrightarrow> norm_segs t segs = Some out \<Longrightarrow> out = fold dot_step (components t) segs"
proof (induction t segs rule: norm_segs.induct)
  case (1 t segs)
  show ?case
  proof (cases "skip_slashes t = []")
    case True
    then show ?thesis using "1.prems" by (simp add: norm_segs.simps [of t] components_Nil)
  next
    case False
    obtain seg rest where ns: "next_seg (skip_slashes t) = (seg, rest)" by fastforce
    note T = next_seg_text [OF "1.prems"(1) ns]
    note IH = "1.IH" [OF refl False ns [symmetric] refl]
    have cmp: "strcmp seg (lit s) = 0 \<longleftrightarrow> seg = lit s" if "is_text (lit s)" for s
      using T(1) that by (simp add: strcmp_eq_0)
    have comp: "components t = seg # components rest" by (rule components_seg [OF False ns])
    have cp: "copy_str seg 24 = Some seg" using T by (simp add: copy_str_text)
    show ?thesis
      using "1.prems"(2) IH T False ns cp
      by (auto simp: norm_segs.simps [of t] comp dot_step_def cmp split: if_splits)
  qed
qed

lemma norm_segs_good:
  "is_text t \<Longrightarrow> norm_segs t segs = Some out \<Longrightarrow> list_all good_seg segs \<Longrightarrow> length segs \<le> 16 \<Longrightarrow>
   list_all good_seg out \<and> length out \<le> 16"
proof (induction t segs rule: norm_segs.induct)
  case (1 t segs)
  show ?case
  proof (cases "skip_slashes t = []")
    case True
    then show ?thesis using "1.prems" by (simp add: norm_segs.simps [of t])
  next
    case False
    obtain seg rest where ns: "next_seg (skip_slashes t) = (seg, rest)" by fastforce
    note T = next_seg_text [OF "1.prems"(1) ns]
    note IH = "1.IH" [OF refl False ns [symmetric] refl]
    have cmp: "strcmp seg (lit s) = 0 \<longleftrightarrow> seg = lit s" if "is_text (lit s)" for s
      using T(1) that by (simp add: strcmp_eq_0)
    have cp: "copy_str seg 24 = Some seg" using T by (simp add: copy_str_text)
    have bl: "list_all good_seg (butlast segs)"
      using "1.prems"(3) by (auto simp: list_all_iff dest: in_set_butlastD)
    have gs: "good_seg seg" if "seg \<noteq> lit ''.''" "seg \<noteq> lit ''..''"
      using that T False by (simp add: good_seg_def)
    show ?thesis
      using "1.prems" IH T(1,2) False ns cp bl gs
      by (auto simp: norm_segs.simps [of t] cmp split: if_splits)
  qed
qed

lemma render_simps [simp]: "render [] = []" "render (s # ss) = ch_slash # s @ render ss"
  by (simp_all add: render_def)

lemma render_text: "list_all good_seg segs \<Longrightarrow> is_text (render segs)"
  by (induction segs) (auto simp: good_seg_def)

lemma next_seg_render:
  assumes "good_seg s"
  shows "skip_slashes (ch_slash # s @ render ss) = s @ render ss"
    and "next_seg (s @ render ss) = (s, render ss)"
proof -
  obtain c u where s: "s = c # u" "c \<noteq> ch_slash" using assms by (cases s) (auto simp: good_seg_def)
  show "skip_slashes (ch_slash # s @ render ss) = s @ render ss" using s by (simp add: skip_slashes_def)
  have "\<forall>x\<in>set s. x \<noteq> ch_slash" using assms by (auto simp: good_seg_def)
  moreover have "takeWhile (\<lambda>c. c \<noteq> ch_slash) (render ss) = []" "dropWhile (\<lambda>c. c \<noteq> ch_slash) (render ss) = render ss"
    by (cases ss; simp)+
  ultimately show "next_seg (s @ render ss) = (s, render ss)"
    using assms by (simp add: next_seg_def good_seg_def)
qed

lemma norm_segs_render:
  "list_all good_seg ss \<Longrightarrow> length segs + length ss \<le> 16 \<Longrightarrow> norm_segs (render ss) segs = Some (segs @ ss)"
proof (induction ss arbitrary: segs)
  case Nil
  then show ?case by (simp add: norm_segs.simps [of "[]"] skip_slashes_def)
next
  case (Cons s ss)
  have s: "good_seg s" using Cons.prems(1) by simp
  have ne: "s @ render ss \<noteq> []" using s by (simp add: good_seg_def)
  have cmp: "strcmp s (lit ''.'') \<noteq> 0" "strcmp s (lit ''..'') \<noteq> 0"
    using s by (auto simp: strcmp_eq_0 good_seg_def)
  have cp: "copy_str s 24 = Some s" using s by (simp add: copy_str_text good_seg_def)
  show ?case
    using Cons ne cmp cp next_seg_render [OF s]
    by (subst norm_segs.simps) (simp add: Let_def)
qed

lemma join_segs_long:
  "list_all good_seg segs \<Longrightarrow> 1 < length out \<Longrightarrow> length out < 128 \<Longrightarrow>
   join_segs out segs = (if length (out @ render segs) < 128 then Some (out @ render segs) else None)"
proof (induction segs arbitrary: out)
  case (Cons s segs)
  have "s_len s 24 = length s" using Cons.prems(1) by (simp add: s_len_def good_seg_def)
  moreover have "s \<noteq> []" "out \<noteq> []" using Cons.prems by (auto simp: good_seg_def)
  ultimately show ?case using Cons.prems Cons.IH [of "out @ ch_slash # s"] by (auto simp: Let_def)
qed simp

lemma join_segs_path:
  assumes "list_all good_seg segs"
  shows "join_segs [ch_slash] segs = (if length (path_of segs) < 128 then Some (path_of segs) else None)"
proof (cases segs)
  case Nil
  then show ?thesis by (simp add: path_of_def)
next
  case (Cons s ss)
  have s: "good_seg s" using assms Cons by simp
  have "s_len s 24 = length s" "0 < length s" "length s < 24" using s by (auto simp: s_len_def good_seg_def)
  then show ?thesis
    using assms join_segs_long [of ss "ch_slash # s"] by (simp add: Cons path_of_def Let_def)
qed

lemma path_of_text: "list_all good_seg segs \<Longrightarrow> is_text (path_of segs)"
  by (simp add: path_of_def render_text)

lemma path_of_hd: "\<exists>u. path_of segs = ch_slash # u"
  by (cases segs) (simp_all add: path_of_def)

lemma norm_segs_path_of:
  "list_all good_seg segs \<Longrightarrow> length segs \<le> 16 \<Longrightarrow> norm_segs (path_of segs) [] = Some segs"
  using norm_segs_render [of segs "[]"]
  by (auto simp: path_of_def norm_segs.simps [of "[47]"] skip_slashes_def)

lemma normalize_absolute:
  assumes "is_text p" and "first_char p = ch_slash"
  shows "normalize_path wd (Some p) =
    (if length p < 128
     then case norm_segs p [] of None \<Rightarrow> None
          | Some segs \<Rightarrow> if length (path_of segs) < 128 then Some (path_of segs) else None
     else None)"
proof -
  have "length p \<noteq> 0" using assms(2) by auto
  then show ?thesis
    using assms norm_segs_good [OF assms(1), of "[]"] join_segs_path
    by (auto simp: normalize_path_def absolute_text_def copy_str_text split: option.splits)
qed

lemma normalize_normal:
  assumes "normal_path p"
  shows "normalize_path wd (Some p) = Some p"
proof -
  obtain segs where s: "p = path_of segs" "list_all good_seg segs" "length segs \<le> 16" "length p < 128"
    using assms by (auto simp: normal_path_def)
  have "first_char p = ch_slash" using path_of_hd [of segs] s(1) by auto
  then show ?thesis
    using normalize_absolute [of p wd] path_of_text [OF s(2)] s norm_segs_path_of [OF s(2,3)] by simp
qed

lemma normalize_relative:
  assumes "is_text wd" and "first_char wd = ch_slash" and "is_text p" and "first_char p \<noteq> ch_slash"
  shows "normalize_path wd (Some p) =
    normalize_path wd' (Some ((if length wd > 1 then wd @ [ch_slash] else wd) @ p))"
proof -
  let ?t = "if length wd > 1 then wd @ [ch_slash] else wd"
  have wd: "wd \<noteq> []" using assms(2) by auto
  have len: "s_len wd 128 = min (length wd) 128" using assms(1) by (simp add: s_len_def)
  have hd: "first_char (?t @ p) = ch_slash" using assms(2) wd by (cases wd) auto
  have t: "is_text (?t @ p)" using assms(1,3) by simp
  have abs: "absolute_text wd p = (if length (?t @ p) < 128 then Some (?t @ p) else None)"
    using assms(3,4) len wd
    by (cases "length wd > 1") (auto simp: absolute_text_def Let_def copy_str_text min_def)
  have "absolute_text wd' (?t @ p) = (if length (?t @ p) < 128 then Some (?t @ p) else None)"
    using hd t wd by (simp add: absolute_text_def copy_str_text)
  then show ?thesis using abs by (simp add: normalize_path_def)
qed

section \<open>Mounts\<close>

lemma first_char_text: "is_text s \<Longrightarrow> first_char s = 0 \<longleftrightarrow> s = []"
  by (cases s) auto

lemma starts_with_text:
  assumes "is_text a" and "is_text b"
  shows "starts_with a b \<longleftrightarrow> (\<exists>r. a = b @ r \<and> (r = [] \<or> first_char r = ch_slash))"
proof -
  have "strncmp a b (strlen b) = 0 \<longleftrightarrow> take (length b) a = b"
    using assms by (simp add: strncmp_eq_0)
  moreover have "take (length b) a = b \<longleftrightarrow> (\<exists>r. a = b @ r)" by (metis append_eq_conv_conj append_take_drop_id)
  moreover have "first_char (drop (length b) a) = 0 \<longleftrightarrow> drop (length b) a = []"
    using assms(1) by (intro first_char_text) simp
  ultimately show ?thesis using assms(2) by (auto simp: starts_with_def Let_def)
qed

definition matches :: "u8 list \<Rightarrow> ('h, 's) vfs_mount_entry \<Rightarrow> bool" where
  "matches path m \<longleftrightarrow> mt_used m \<and> starts_with path (mt_point m)"

lemma best_mount_fold:
  "fold (best_mount path) ms (b, n) = (b', n') \<Longrightarrow>
   (b' = b \<and> n' = n \<or> (\<exists>m\<in>set ms. matches path m \<and> b' = Some m \<and> n' = strlen (mt_point m) \<and> n \<le> n')) \<and>
   (\<forall>m\<in>set ms. matches path m \<longrightarrow> strlen (mt_point m) \<le> n' \<and> (n \<le> strlen (mt_point m) \<longrightarrow> b' \<noteq> None))"
proof (induction ms arbitrary: b n)
  case (Cons m ms)
  obtain b1 n1 where bn: "best_mount path m (b, n) = (b1, n1)" by fastforce
  have step: "(matches path m \<and> n \<le> strlen (mt_point m) \<and> b1 = Some m \<and> n1 = strlen (mt_point m)) \<or>
      ((matches path m \<longrightarrow> strlen (mt_point m) < n) \<and> b1 = b \<and> n1 = n)"
    using bn by (auto simp: best_mount_def matches_def Let_def split: if_splits)
  have "fold (best_mount path) ms (b1, n1) = (b', n')" using Cons.prems bn by simp
  from Cons.IH [OF this] step show ?case by fastforce
qed simp

text \<open>The mount found is a used one whose mount point is the longest that matches.\<close>

lemma find_mount_Some:
  assumes "find_mount path v = Some (m, sub)"
  shows "m \<in> set (mounts v)" and "matches path m"
    and "\<forall>m'\<in>set (mounts v). matches path m' \<longrightarrow> strlen (mt_point m') \<le> strlen (mt_point m)"
    and "sub = (let r = drop (strlen (mt_point m)) path in if first_char r = ch_slash then tl r else r)"
proof -
  obtain n where f: "fold (best_mount path) (mounts v) (None, 0) = (Some m, n)"
      "sub = (if first_char (drop n path) = ch_slash then tl (drop n path) else drop n path)"
    using assms by (auto simp: find_mount_def Let_def split: prod.splits option.splits)
  from best_mount_fold [OF f(1)] f(2) show "m \<in> set (mounts v)" "matches path m"
    "\<forall>m'\<in>set (mounts v). matches path m' \<longrightarrow> strlen (mt_point m') \<le> strlen (mt_point m)"
    "sub = (let r = drop (strlen (mt_point m)) path in if first_char r = ch_slash then tl r else r)"
    by (auto simp: Let_def)
qed

lemma find_mount_None: "find_mount path v = None \<longleftrightarrow> (\<forall>m\<in>set (mounts v). \<not> matches path m)"
proof -
  obtain b n where f: "fold (best_mount path) (mounts v) (None, 0) = (b, n)" by fastforce
  from best_mount_fold [OF f] show ?thesis
    by (cases b) (auto simp: find_mount_def f Let_def)
qed

lemma find_mount_cong: "mounts v' = mounts v \<Longrightarrow> find_mount path v' = find_mount path v"
  by (simp add: find_mount_def)

section \<open>Reachable states\<close>

definition vfs_ok :: "('h, 's) vfs \<Rightarrow> bool" where
  "vfs_ok v \<longleftrightarrow> length (mounts v) = 4 \<and> length (fds v) = 32 \<and> normal_path (cwd v) \<and>
     (\<forall>m\<in>set (mounts v). mt_used m \<longrightarrow> normal_path (mt_point m) \<and> mt_ops m \<noteq> None) \<and>
     (\<forall>f\<in>set (fds v). fd_used f \<longrightarrow> fd_ops f \<noteq> None)"

lemma normal_pathD:
  assumes "normal_path p"
  shows "is_text p" and "first_char p = ch_slash" and "length p < 128" and "p \<noteq> []"
proof -
  obtain segs where s: "p = path_of segs" "list_all good_seg segs" "length p < 128"
    using assms by (auto simp: normal_path_def)
  then show "is_text p" "length p < 128" by (simp_all add: path_of_text)
  show "first_char p = ch_slash" "p \<noteq> []" using path_of_hd [of segs] s(1) by auto
qed

lemma normalize_text_normal:
  assumes wd: "normal_path wd" and p: "is_text p" and q: "normalize_path wd (Some p) = Some q"
  shows "normal_path q"
proof -
  have abs: "normal_path q" if "is_text p'" "first_char p' = ch_slash" "normalize_path wd (Some p') = Some q" for p'
    using that norm_segs_good [OF that(1), of "[]"]
    by (auto simp: normalize_absolute [OF that(1,2)] normal_path_def split: option.splits if_splits)
  show ?thesis
  proof (cases "first_char p = ch_slash")
    case True
    then show ?thesis using abs [OF p] q by blast
  next
    case False
    note W = normal_pathD [OF wd]
    let ?p = "(if length wd > 1 then wd @ [ch_slash] else wd) @ p"
    have hd: "first_char ?p = ch_slash" using W(2,4) by (cases wd) auto
    have t: "is_text ?p" using p W(1) by simp
    have "normalize_path wd (Some ?p) = Some q" using normalize_relative [OF W(1,2) p False] q by simp
    from abs [OF t hd this] show ?thesis .
  qed
qed

lemma path_of_split: "path_of [] = lit ''/''" "segs \<noteq> [] \<Longrightarrow> path_of segs = render segs"
  by (simp_all add: path_of_def lit_def)

text \<open>A normal path other than the root does not lie below a mount at the root.\<close>

lemma root_matches:
  assumes "normal_path p" and "mt_point m = lit ''/''" and "mt_used m"
  shows "matches p m \<longleftrightarrow> p = lit ''/''"
proof -
  obtain segs where s: "p = path_of segs" "list_all good_seg segs"
    using assms(1) by (auto simp: normal_path_def)
  have slash: "lit ''/'' = [ch_slash]" by (simp add: lit_def)
  have t: "is_text p" using normal_pathD [OF assms(1)] by blast
  show ?thesis
  proof (cases segs)
    case Nil
    then show ?thesis using s(1) assms(2,3) by (simp add: matches_def path_of_def slash starts_with_text)
  next
    case (Cons x xs)
    then obtain c u where x: "x = c # u" "c \<noteq> ch_slash" using s(2) by (cases x) (auto simp: good_seg_def)
    then have p: "p = ch_slash # c # u @ render xs" using s(1) Cons by (simp add: path_of_def)
    show ?thesis
      using x(2) assms(2,3) starts_with_text [OF t, of "[ch_slash]"] by (simp add: matches_def slash) (simp add: p)
  qed
qed

inductive vfs_step :: "('h, 's) vfs \<Rightarrow> ('h, 's) vfs \<Rightarrow> bool" where
  mount: "is_text p \<Longrightarrow> vfs_mount (Some p) ops ctx v = (rc, v') \<Longrightarrow> vfs_step v v'"
| open_file: "is_text p \<Longrightarrow> vfs_open (Some p) flags v = Ok (fd, v') \<Longrightarrow> vfs_step v v'"
| read_file: "vfs_read fd buf n v = Ok (rc, buf', v') \<Longrightarrow> vfs_step v v'"
| write_file: "vfs_write fd buf n v = Ok (rc, v') \<Longrightarrow> vfs_step v v'"
| close_file: "vfs_close fd v = (rc, v') \<Longrightarrow> vfs_step v v'"
| make: "is_text p \<Longrightarrow> make_node is_dir (Some p) v = Ok (rc, v') \<Longrightarrow> vfs_step v v'"
| change_dir: "is_text p \<Longrightarrow> vfs_chdir (Some p) v = Ok (rc, v') \<Longrightarrow> vfs_step v v'"

inductive vfs_run :: "('h, 's) vfs \<Rightarrow> ('h, 's) vfs \<Rightarrow> bool" for v0 where
  start: "vfs_run v0 v0"
| more: "vfs_run v0 v \<Longrightarrow> vfs_step v v' \<Longrightarrow> vfs_run v0 v'"

lemma normal_root: "normal_path [ch_slash]"
  by (auto simp: normal_path_def path_of_def intro!: exI [of _ "[]"])

lemma vfs_init_ok: "vfs_ok (vfs_init v)"
  by (auto simp: vfs_ok_def vfs_init_def no_mount_def no_fd_def normal_root)

lemma vfs_okD:
  assumes "vfs_ok v"
  shows "length (mounts v) = 4" and "length (fds v) = 32" and "normal_path (cwd v)"
    and "m \<in> set (mounts v) \<Longrightarrow> mt_used m \<Longrightarrow> normal_path (mt_point m) \<and> mt_ops m \<noteq> None"
    and "i < 32 \<Longrightarrow> fd_used (fds v ! i) \<Longrightarrow> fd_ops (fds v ! i) \<noteq> None"
  using assms by (auto simp: vfs_ok_def)

lemma vfs_ok_fd:
  assumes "vfs_ok v" and "fd_used f \<longrightarrow> fd_ops f \<noteq> None"
  shows "vfs_ok (v\<lparr>fds := (fds v)[i := f]\<rparr>)"
  using assms set_update_subset_insert [of "fds v" i f] by (auto simp: vfs_ok_def)

lemma vfs_ok_fs [simp]: "vfs_ok (v\<lparr>fs_state := s\<rparr>) = vfs_ok v"
  by (simp add: vfs_ok_def)

lemma advance_ok: "vfs_ok v \<Longrightarrow> open_fd fd v \<Longrightarrow> vfs_ok (advance fd rc v)"
  using vfs_okD(5) [of v "nat fd"] by (auto simp: advance_def open_fd_def intro!: vfs_ok_fd)

lemma resolve_path_mount:
  assumes "resolve_path p v = Ok (Some (m, node, d))"
  shows "m \<in> set (mounts v)" and "mt_used m" and "\<exists>norm sub. normalize_path (cwd v) p = Some norm \<and>
    find_mount norm v = Some (m, sub) \<and> resolve_on_mount m sub (fs_state v) = Ok (Some (node, d))"
proof -
  obtain norm sub where r: "normalize_path (cwd v) p = Some norm" "find_mount norm v = Some (m, sub)"
      "resolve_on_mount m sub (fs_state v) = Ok (Some (node, d))"
    using assms by (auto simp: resolve_path_def rbind_Ok_iff split: option.splits)
  then show "\<exists>norm sub. normalize_path (cwd v) p = Some norm \<and>
    find_mount norm v = Some (m, sub) \<and> resolve_on_mount m sub (fs_state v) = Ok (Some (node, d))" by blast
  show "m \<in> set (mounts v)" "mt_used m" using find_mount_Some(1,2) [OF r(2)] by (auto simp: matches_def)
qed

lemma take_fd_spec:
  "take_fd flags m node v = (fd, v') \<Longrightarrow>
   fd = -1 \<and> v' = v \<or>
   (\<exists>i<32. fd = int i \<and> \<not> fd_used (fds v ! i) \<and> (\<forall>j<i. fd_used (fds v ! j)) \<and>
     v' = v\<lparr>fds := (fds v)[i := \<lparr>fd_used = True, fd_flags = flags, fd_ops = mt_ops m,
             fd_ctx = mt_ctx m, fd_node = node, fd_pos = 0\<rparr>]\<rparr>)"
  by (auto simp: take_fd_def find_Some_iff split: option.splits)

lemma make_node_state:
  assumes "make_node d p v = Ok (rc, v')"
  obtains s where "v' = v\<lparr>fs_state := s\<rparr>"
proof -
  have same: thesis if "v' = v" using that \<open>\<And>s. v' = v\<lparr>fs_state := s\<rparr> \<Longrightarrow> thesis\<close> [of "fs_state v"] by simp
  obtain r where r: "resolve_parent p v = Ok r" using assms by (auto simp: make_node_def rbind_Ok_iff)
  show thesis
  proof (cases r)
    case None
    then show thesis using assms r same by (simp add: make_node_def)
  next
    case (Some q)
    obtain m node leaf where q: "q = (m, node, leaf)" by (cases q)
    show thesis
    proof (cases "mt_ops m")
      case None
      then show thesis using assms r Some q by (simp add: make_node_def)
    next
      case ops: (Some ops)
      then show thesis
        using assms r Some q same that
        by (cases "op_create ops") (auto simp: make_node_def rbind_Ok_iff)
    qed
  qed
qed

text \<open>An open that succeeds has taken a descriptor, in a state that differs in the file systems only.\<close>

lemma vfs_open_cases:
  assumes "vfs_open p flags v = Ok (fd, v')"
  obtains (failed) s where "fd = -1" "v' = v\<lparr>fs_state := s\<rparr>"
  | (opened) s m node where "resolve_path p (v\<lparr>fs_state := s\<rparr>) = Ok (Some (m, node, False))"
      "take_fd flags m node (v\<lparr>fs_state := s\<rparr>) = (fd, v')"
proof -
  obtain r where r: "resolve_path p v = Ok r" using assms by (auto simp: vfs_open_def rbind_Ok_iff)
  have v: "v = v\<lparr>fs_state := fs_state v\<rparr>" by simp
  show thesis
  proof (cases "\<exists>m node. r = Some (m, node, False)")
    case True
    then obtain m node where m: "r = Some (m, node, False)" by blast
    then have "take_fd flags m node v = (fd, v')" using assms r by (simp add: vfs_open_def)
    then show thesis using opened [of "fs_state v" m node] r m by simp
  next
    case False
    show thesis
    proof (cases "flags AND 0x10 = 0")
      case True
      then have "fd = -1 \<and> v' = v"
        using assms r False by (auto simp: vfs_open_def split: option.splits bool.splits)
      then show thesis using failed [of "fs_state v"] by simp
    next
      case cr: False
      obtain rc v1 where c: "vfs_create p v = Ok (rc, v1)"
        using assms r False cr
        by (cases "vfs_create p v") (auto simp: vfs_open_def split: option.splits bool.splits)
      obtain s where v1: "v1 = v\<lparr>fs_state := s\<rparr>"
        using make_node_state [OF c [unfolded vfs_create_def]] .
      have rest: "(if rc < 0 then Ok (-1, v1) else rbind (resolve_path p v1) (\<lambda>r.
               case r of Some (m, node, False) \<Rightarrow> Ok (take_fd flags m node v1) | _ \<Rightarrow> Ok (-1, v1))) = Ok (fd, v')"
        using assms r False cr c by (auto simp: vfs_open_def split: option.splits bool.splits)
      show thesis
      proof (cases "rc < 0")
        case True
        then show thesis using rest failed [of s] v1 by simp
      next
        case False
        then obtain r1 where r1: "resolve_path p v1 = Ok r1" using rest by (auto simp: rbind_Ok_iff)
        show thesis
        proof (cases "\<exists>m node. r1 = Some (m, node, False)")
          case True
          then show thesis using rest r1 False opened [of s] v1 by auto
        next
          case n: False
          then have "fd = -1 \<and> v' = v1"
            using rest r1 False by (auto split: option.splits bool.splits)
          then show thesis using failed [of s] v1 by simp
        qed
      qed
    qed
  qed
qed

lemma vfs_open_ok:
  assumes ok: "vfs_ok v" and "vfs_open p flags v = Ok (fd, v')"
  shows "vfs_ok v'"
  using assms(2)
proof (cases rule: vfs_open_cases)
  case (failed s)
  then show ?thesis using ok by simp
next
  case (opened s m node)
  have "m \<in> set (mounts v)" "mt_used m" using resolve_path_mount [OF opened(1)] by auto
  then have "mt_ops m \<noteq> None" using vfs_okD(4) [OF ok] by blast
  moreover have "vfs_ok (v\<lparr>fs_state := s\<rparr>)" using ok by simp
  ultimately show ?thesis
    using take_fd_spec [OF opened(2)] vfs_ok_fd [of "v\<lparr>fs_state := s\<rparr>"] by fastforce
qed

lemma vfs_mount_ok:
  assumes ok: "vfs_ok v" and p: "is_text p" and "vfs_mount (Some p) ops ctx v = (rc, v')"
  shows "vfs_ok v'"
proof (cases "v' = v")
  case False
  then obtain norm i where m: "normalize_path (cwd v) (Some p) = Some norm" "ops \<noteq> None"
      "v' = v\<lparr>mounts := (mounts v)[i := (mounts v ! i)\<lparr>mt_used := True,
                  mt_point := (case copy_str norm VFS_MAX_PATH of None \<Rightarrow> mt_point (mounts v ! i) | Some s \<Rightarrow> s),
                  mt_ops := ops, mt_ctx := ctx\<rparr>]\<rparr>"
    using assms(3) by (auto simp: vfs_mount_def split: if_splits option.splits)
  have n: "normal_path norm" using normalize_text_normal [OF vfs_okD(3) [OF ok] p m(1)] .
  then have "copy_str norm 128 = Some norm" using normal_pathD [OF n] by (simp add: copy_str_text)
  then show ?thesis
    using ok n m set_update_subset_insert [of "mounts v" i] unfolding m(3) vfs_ok_def
    by (auto dest!: subsetD [OF set_update_subset_insert])
qed (use ok in simp)

lemma vfs_chdir_ok:
  assumes ok: "vfs_ok v" and p: "is_text p" and "vfs_chdir (Some p) v = Ok (rc, v')"
  shows "vfs_ok v'"
proof (cases "v' = v")
  case False
  then obtain norm where m: "normalize_path (cwd v) (Some p) = Some norm"
      "v' = (case copy_str norm VFS_MAX_PATH of None \<Rightarrow> v | Some s \<Rightarrow> v\<lparr>cwd := s\<rparr>)"
    using assms(3) by (auto simp: vfs_chdir_def rbind_Ok_iff split: option.splits bool.splits)
  have n: "normal_path norm" using normalize_text_normal [OF vfs_okD(3) [OF ok] p m(1)] .
  then have "copy_str norm 128 = Some norm" using normal_pathD [OF n] by (simp add: copy_str_text)
  then show ?thesis using ok n m(2) by (simp add: vfs_ok_def)
qed (use ok in simp)

lemma vfs_step_ok:
  assumes ok: "vfs_ok v" and "vfs_step v v'"
  shows "vfs_ok v'"
  using assms(2)
proof (cases rule: vfs_step.cases)
  case mount
  then show ?thesis using vfs_mount_ok [OF ok] by blast
next
  case open_file
  then show ?thesis using vfs_open_ok [OF ok] by blast
next
  case read_file
  then show ?thesis
    using ok by (auto simp: vfs_read_def Let_def rbind_Ok_iff advance_ok split: if_splits option.splits)
next
  case (write_file fd buf n rc)
  then show ?thesis
    using ok advance_ok [of "v\<lparr>fs_state := _\<rparr>" fd]
    by (auto simp: vfs_write_def Let_def rbind_Ok_iff open_fd_def split: if_splits option.splits)
next
  case (close_file fd rc)
  then show ?thesis
    using ok vfs_ok_fd [OF ok, of no_fd] by (auto simp: vfs_close_def no_fd_def split: if_splits)
next
  case make
  then show ?thesis using ok make_node_state vfs_ok_fs by metis
next
  case change_dir
  then show ?thesis using vfs_chdir_ok [OF ok] by blast
qed

lemma vfs_run_ok: "vfs_run v0 v \<Longrightarrow> vfs_ok v0 \<Longrightarrow> vfs_ok v"
  by (induction rule: vfs_run.induct) (auto intro: vfs_step_ok)

end
