(* ===== verification/Vfs_Spec.thy ===== *)
theory Vfs_Spec
  imports Vfs_Laws Ramfs_Spec
begin

unbundle bit_operations_syntax

text \<open>
  The virtual file system as a client of a file system that keeps the contract of \<open>Fs_Interface\<close>,
  proved once inside the locale and used here on the in-memory file system, and the properties of
  paths, mounts and descriptors.
\<close>

section \<open>A file directly below a mount point\<close>

text \<open>\<open>p\<close> is the path of a file \<open>nm\<close> in the root of the mount \<open>m\<close>, which implements \<open>ops\<close>.\<close>

definition below :: "('h, 's) vfs \<Rightarrow> ('h, 's) vfs_mount_entry \<Rightarrow> u8 list \<Rightarrow> u8 list \<Rightarrow> bool" where
  "below v m p nm \<longleftrightarrow> good_seg nm \<and>
     (\<exists>q. q \<noteq> [] \<and> p = q @ ch_slash # nm \<and> normal_path q \<and> normal_path p \<and>
       find_mount q v = Some (m, []) \<and> find_mount p v = Some (m, nm))"

lemma below_cong: "mounts v' = mounts v \<Longrightarrow> below v' m p nm = below v m p nm"
  by (simp add: below_def find_mount_cong [of v' v])

lemma belowD:
  assumes "below v m p nm"
  shows "normalize_path wd (Some p) = Some p" and "find_mount p v = Some (m, nm)" and "good_seg nm"
    and "is_text nm" and "nm \<noteq> []" and "ch_slash \<notin> set nm" and "length nm < 24"
  using assms normalize_normal by (auto simp: below_def good_seg_def)

lemma below_parent:
  assumes b: "below v m p nm"
    and root: "\<And>q. normal_path q \<Longrightarrow> find_mount q v = Some (m, []) \<Longrightarrow> resolve_path (Some q) v = Ok (Some (m, r, True))"
  shows "resolve_parent (Some p) v = Ok (Some (m, r, nm))"
proof -
  obtain q where q: "q \<noteq> []" "p = q @ ch_slash # nm" "normal_path q" "find_mount q v = Some (m, [])"
    using b by (auto simp: below_def)
  note B = belowD [OF b]
  have slash: "\<forall>x\<in>set (rev nm). x \<noteq> ch_slash" using B(6) by auto
  have "takeWhile (\<lambda>c. c \<noteq> ch_slash) (rev nm @ ch_slash # rev q) = rev nm"
    using slash by (subst takeWhile_append2) auto
  then have leaf: "rev (takeWhile (\<lambda>c. c \<noteq> ch_slash) (rev p)) = nm" by (simp add: q(2))
  have np: "p \<noteq> lit ''/''" using q(1,2) by (cases q) (auto simp: lit_def)
  have t: "is_text p" using b normal_pathD(1) by (auto simp: below_def)
  have "strcmp p (lit ''/'') \<noteq> 0" using np t by (simp add: strcmp_eq_0)
  moreover have "copy_str nm 24 = Some nm" using B(4,7) by (simp add: copy_str_text)
  moreover have "length p < 128" using b normal_pathD(3) by (auto simp: below_def)
  ultimately show ?thesis
    using B(1) [of "cwd v"] leaf q root [OF q(3,4)] by (simp add: resolve_parent_def Let_def)
qed

context readable_fs
begin

lemma resolve_root:
  assumes "inv (fs_state v)" and "find_mount q v = Some (m, [])" and "normal_path q"
    and "mt_ops m = Some ops" and "op_get_root ops = Some get_root" and "op_lookup ops = Some lookup"
  shows "resolve_path (Some q) v = Ok (Some (m, Some root, True))"
  using assms root_law [OF assms(1)] normalize_normal [OF assms(3)]
  by (simp add: resolve_path_def resolve_on_mount_def)

lemma resolve_below:
  assumes inv: "inv (fs_state v)" and b: "below v m p nm"
    and "mt_ops m = Some ops" and "op_get_root ops = Some get_root" and "op_lookup ops = Some lookup"
  shows "resolve_path (Some p) v =
    Ok (case entry (fs_state v) root nm of None \<Rightarrow> None | Some (n, d) \<Rightarrow> Some (m, Some n, d))"
proof -
  note B = belowD [OF b]
  have fc: "first_char nm \<noteq> 0" using B(4,5) by (cases nm) auto
  have sk: "skip_slashes nm = nm" using B(5,6) by (cases nm) (auto simp: skip_slashes_def)
  have "\<forall>x\<in>set nm. x \<noteq> ch_slash" using B(6) by auto
  then have tw: "takeWhile (\<lambda>c. c \<noteq> ch_slash) nm = nm" "dropWhile (\<lambda>c. c \<noteq> ch_slash) nm = []"
    by (simp_all add: takeWhile_eq_all_conv)
  have ns: "next_seg nm = (nm, [])" unfolding next_seg_def tw using B(7) by simp
  have r: "resolve_segs lookup c (fs_state v) (Some root) True nm =
      Ok (case entry (fs_state v) root nm of None \<Rightarrow> None | Some (n, d) \<Rightarrow> Some (Some n, d))" for c
    using lookup_law [OF inv, of root nm c] root_law [OF inv, of c] B(4,5) sk ns
    by (auto simp: resolve_segs.simps [of _ _ _ _ _ nm] resolve_segs.simps [of _ _ _ _ _ "[]"] Let_def
        split: option.splits)
  show ?thesis
    using B(1,2) assms(3-5) root_law [OF inv] fc r
    by (auto simp: resolve_path_def resolve_on_mount_def split: option.splits)
qed

end

context writable_fs
begin

lemma create_below:
  assumes inv: "inv (fs_state v)" and b: "below v m p nm"
    and ops: "mt_ops m = Some ops" "op_get_root ops = Some get_root" "op_lookup ops = Some lookup"
      "op_create ops = Some create"
  shows "make_node d (Some p) v = rbind (create (mt_ctx m) (Some root) (Some nm) d (fs_state v)) (\<lambda>(rc, s).
    Ok (case rc of Inl e \<Rightarrow> e | Inr _ \<Rightarrow> 0, v\<lparr>fs_state := s\<rparr>))"
proof -
  have "resolve_parent (Some p) v = Ok (Some (m, Some root, nm))"
    by (rule below_parent [OF b]) (rule resolve_root [OF inv _ _ ops(1-3)])
  then show ?thesis using ops by (simp add: make_node_def)
qed

text \<open>Opening a new file for writing creates it, empty, when it yields a descriptor.\<close>

lemma open_new:
  assumes inv: "inv (fs_state v)" and b: "below v m p nm"
    and ops: "mt_ops m = Some ops" "op_get_root ops = Some get_root" "op_lookup ops = Some lookup"
      "op_create ops = Some create"
    and new: "entry (fs_state v) root nm = None" and fl: "flags AND 0x10 \<noteq> 0"
    and opened: "vfs_open (Some p) flags v = Ok (fd, v')" "0 \<le> fd"
  obtains s h where "inv s" and "entry s root nm = Some (h, False)" and "bytes s h = []"
    and "take_fd flags m (Some h) (v\<lparr>fs_state := s\<rparr>) = (fd, v')"
proof -
  have none: "resolve_path (Some p) v = Ok None"
    using resolve_below [OF inv b ops(1-3)] new by simp
  have root: "is_dir (fs_state v) root" using root_law [OF inv] by blast
  obtain r s where c: "create (mt_ctx m) (Some root) (Some nm) False (fs_state v) = Ok (r, s)" "inv s"
      "case r of Inl rc \<Rightarrow> rc < 0 \<and> entry s root nm = entry (fs_state v) root nm
       | Inr n \<Rightarrow> (\<exists>h. n = Some h \<and> entry (fs_state v) root nm = None \<and> entry s root nm = Some (h, False) \<and>
           (\<not> False \<longrightarrow> bytes s h = []) \<and> \<not> is_dir (fs_state v) h \<and> \<not> is_file (fs_state v) h)"
    using create_law [OF inv root belowD(4) [OF b], of "mt_ctx m" False] by blast
  let ?v = "v\<lparr>fs_state := s\<rparr>"
  have made: "vfs_create (Some p) v = Ok (case r of Inl e \<Rightarrow> e | Inr _ \<Rightarrow> 0, ?v)"
    using create_below [OF inv b ops, of False] c(1) by (simp add: vfs_create_def)
  show thesis
  proof (cases r)
    case (Inl rc)
    then show thesis using opened made none fl c(3) by (simp add: vfs_open_def)
  next
    case (Inr n)
    then obtain h where h: "n = Some h" "entry s root nm = Some (h, False)" "bytes s h = []" using c(3) by auto
    have b': "below ?v m p nm" using b below_cong [of ?v v] by simp
    have "resolve_path (Some p) ?v = Ok (Some (m, Some h, False))"
      using resolve_below [OF _ b' ops(1-3)] c(2) h(2) by simp
    then have "take_fd flags m (Some h) ?v = (fd, v')"
      using opened(1) made none fl Inr by (simp add: vfs_open_def)
    then show thesis using that c(2) h(2,3) by blast
  qed
qed

text \<open>It yields one when the file system can create the file and a descriptor is unused.\<close>

lemma open_new_succeeds:
  assumes inv: "inv (fs_state v)" and b: "below v m p nm"
    and ops: "mt_ops m = Some ops" "op_get_root ops = Some get_root" "op_lookup ops = Some lookup"
      "op_create ops = Some create"
    and fl: "flags AND 0x10 \<noteq> 0"
    and made: "create (mt_ctx m) (Some root) (Some nm) False (fs_state v) = Ok (Inr n, s)"
    and free: "i < 32" "\<not> fd_used (fds v ! i)"
  shows "\<exists>fd v'. vfs_open (Some p) flags v = Ok (fd, v') \<and> 0 \<le> fd"
proof -
  have root: "is_dir (fs_state v) root" using root_law [OF inv] by blast
  obtain h where h: "inv s" "entry (fs_state v) root nm = None" "entry s root nm = Some (h, False)"
    using create_law [OF inv root belowD(4) [OF b], of "mt_ctx m" False] made by auto
  let ?v = "v\<lparr>fs_state := s\<rparr>"
  have none: "resolve_path (Some p) v = Ok None" using resolve_below [OF inv b ops(1-3)] h(2) by simp
  have create: "vfs_create (Some p) v = Ok (0, ?v)"
    using create_below [OF inv b ops, of False] made by (simp add: vfs_create_def)
  have "below ?v m p nm" using b below_cong [of ?v v] by simp
  then have "resolve_path (Some p) ?v = Ok (Some (m, Some h, False))"
    using resolve_below [OF _ _ ops(1-3)] h(1,3) by simp
  then have "vfs_open (Some p) flags v = Ok (take_fd flags m (Some h) ?v)"
    using none create fl by (simp add: vfs_open_def)
  moreover have "find (\<lambda>i. \<not> fd_used (fds v ! i)) [0..<32] \<noteq> None"
    using free by (auto simp: find_None_iff)
  then have "0 \<le> fst (take_fd flags m (Some h) ?v)" by (auto simp: take_fd_def split: option.splits)
  ultimately show ?thesis by (cases "take_fd flags m (Some h) ?v") auto
qed

text \<open>
  Write to a new file, close it, open it again and read: the data come back, cut to the largest size.
\<close>

lemma new_file_roundtrip:
  assumes inv: "inv (fs_state v)" and len: "length (fds v) = 32" and b: "below v m p nm"
    and ops: "mt_ops m = Some ops" "op_get_root ops = Some get_root" "op_lookup ops = Some lookup"
      "op_create ops = Some create" "op_read ops = Some rd" "op_write ops = Some wr"
    and new: "entry (fs_state v) root nm = None"
    and opened: "vfs_open (Some p) 0x12 v = Ok (fd, v1)" "0 \<le> fd"
    and data: "length dat = unat n" "length buf = unat n"
  shows "\<exists>v2 v3 fd' v4 v5. vfs_write fd (Some dat) n v1 = Ok (int (min (unat n) cap), v2) \<and>
    vfs_close fd v2 = (0, v3) \<and> vfs_open (Some p) 0x01 v3 = Ok (fd', v4) \<and> 0 \<le> fd' \<and>
    vfs_read fd' (Some buf) n v4 = Ok (int (min (unat n) cap), Some (take cap dat @ drop cap buf), v5)"
proof -
  obtain s h where s: "inv s" "entry s root nm = Some (h, False)" "bytes s h = []"
      "take_fd 0x12 m (Some h) (v\<lparr>fs_state := s\<rparr>) = (fd, v1)"
    using open_new [OF inv b ops(1-4) new _ opened] by auto
  obtain i where i: "i < 32" "fd = int i" "\<not> fd_used (fds v ! i)" "\<forall>j<i. fd_used (fds v ! j)"
      "v1 = v\<lparr>fs_state := s, fds := (fds v)[i := \<lparr>fd_used = True, fd_flags = 0x12, fd_ops = mt_ops m,
         fd_ctx = mt_ctx m, fd_node = Some h, fd_pos = 0\<rparr>]\<rparr>"
    using take_fd_spec [OF s(4)] opened(2) by auto
  have root: "is_dir s root" using root_law [OF s(1)] by blast
  have hf: "is_file s h" using entry_file [OF s(1) root s(2)] .
  let ?c = "int (min (unat n) cap)"
  have cut: "take (min (unat n) cap) dat = take cap dat" using data(1) by (simp add: min_def)
  obtain s2 where s2: "wr (mt_ctx m) (Some h) 0 (Some dat) n s = Ok (?c, s2)" "inv s2"
      "bytes s2 h = take cap dat" "is_file s2 h" "entry s2 root = entry s root"
    using hf write_law [OF s(1) hf, of n dat 0 "mt_ctx m"] data(1) root
    by (auto simp: Let_def s(3) blit_def cut)
  let ?w = "vfs_write fd (Some dat) n v1"
  obtain v2 where v2: "?w = Ok (?c, v2)" "v2 = advance fd ?c (v1\<lparr>fs_state := s2\<rparr>)"
    using i len s2(1) ops(1,6) by (auto simp: vfs_write_def open_fd_def)
  have o2: "open_fd fd v2" "mounts v2 = mounts v" "fs_state v2 = s2" "length (fds v2) = 32" "cwd v2 = cwd v"
      "\<And>j. j \<noteq> i \<Longrightarrow> fds v2 ! j = fds v ! j"
    using i(1,2,5) len by (auto simp: v2(2) advance_def open_fd_def)
  define v3 where "v3 = v2\<lparr>fds := (fds v2)[i := no_fd]\<rparr>"
  have v3: "vfs_close fd v2 = (0, v3)" using o2(1) i(2) by (simp add: vfs_close_def v3_def)
  have b3: "below v3 m p nm" using b below_cong [of v3 v] o2(2) by (simp add: v3_def)
  have r3: "resolve_path (Some p) v3 = Ok (Some (m, Some h, False))"
    using resolve_below [OF _ b3 ops(1-3)] s2(2,5) s(2) o2(3) by (simp add: v3_def)
  have free: "find (\<lambda>j. \<not> fd_used (fds v3 ! j)) [0..<32] = Some i"
    using i(1,4) o2(4,6) by (auto simp: find_Some_iff v3_def no_fd_def intro!: exI [of _ i])
  let ?f = "\<lparr>fd_used = True, fd_flags = 0x01, fd_ops = mt_ops m, fd_ctx = mt_ctx m, fd_node = Some h, fd_pos = 0\<rparr>"
  define v4 where "v4 = v3\<lparr>fds := (fds v3)[i := ?f]\<rparr>"
  have v4: "vfs_open (Some p) 0x01 v3 = Ok (int i, v4)"
    using r3 free by (simp add: vfs_open_def take_fd_def v4_def)
  have f4: "open_fd (int i) v4" "fds v4 ! i = ?f" "fs_state v4 = s2"
    using i(1) o2(3,4) by (simp_all add: v4_def v3_def open_fd_def)
  have "rd (mt_ctx m) (Some h) 0 (Some buf) n s2 = Ok (?c, Some (take cap dat @ drop cap buf))"
    using read_law [OF s2(2,4), of n buf "mt_ctx m" 0] data by (simp add: s2(3) blit_def min_def)
  then have "vfs_read (int i) (Some buf) n v4 = Ok (?c, Some (take cap dat @ drop cap buf), advance (int i) ?c v4)"
    using f4 ops(1,5) by (simp add: vfs_read_def)
  then show ?thesis using v2(1) v3 v4 by (intro exI conjI) auto
qed

end

section \<open>Concrete states\<close>

text \<open>The in-memory file system, empty, mounted at \<open>/r\<close>, and at the root as \<open>kmain\<close> does.\<close>

definition blank_vfs :: "(nat, ramfs) vfs" where
  "blank_vfs = vfs_init \<lparr>mounts = [], fds = [], cwd = [], fs_state = ramfs_init []\<rparr>"

definition r_vfs :: "(nat, ramfs) vfs" where
  "r_vfs = snd (vfs_mount (Some (lit ''/r'')) (Some ramfs_ops) 0 blank_vfs)"

definition root_vfs :: "(nat, ramfs) vfs" where
  "root_vfs = snd (vfs_mount (Some (lit ''/'')) (Some ramfs_ops) 0 blank_vfs)"

lemma blank_vfs_ok: "vfs_ok blank_vfs"
  by (simp add: blank_vfs_def vfs_init_ok)

lemma mount_blank:
  assumes "normal_path p"
  shows "vfs_mount (Some p) (Some ramfs_ops) 0 blank_vfs =
    (0, blank_vfs\<lparr>mounts := [\<lparr>mt_used = True, mt_point = p, mt_ops = Some ramfs_ops, mt_ctx = 0\<rparr>,
       no_mount, no_mount, no_mount]\<rparr>)"
proof -
  note P = normal_pathD [OF assms]
  have "copy_str p 128 = Some p" using P by (simp add: copy_str_text)
  moreover have "upt 0 4 = [0, 1, 2, 3]" by (simp add: upt_conv_Cons)
  moreover have "mounts blank_vfs = [no_mount, no_mount, no_mount, no_mount]"
    by (simp add: blank_vfs_def vfs_init_def numeral_eq_Suc)
  ultimately show ?thesis
    by (simp add: vfs_mount_def normalize_normal [OF assms] no_mount_def)
qed

lemma normal_lits: "normal_path (lit ''/'')" "normal_path (lit ''/r'')" "normal_path (lit ''/r/a'')"
proof -
  have g: "good_seg (lit ''r'')" "good_seg (lit ''a'')" by (simp_all add: good_seg_def lit_def)
  have I: "normal_path (path_of segs)" if "list_all good_seg segs" "length segs \<le> 16" "length (path_of segs) < 128" for segs
    using that by (auto simp: normal_path_def)
  have "lit ''/'' = path_of []" "lit ''/r'' = path_of [lit ''r'']" "lit ''/r/a'' = path_of [lit ''r'', lit ''a'']"
    by (simp_all add: path_of_def lit_def)
  then show "normal_path (lit ''/'')" "normal_path (lit ''/r'')" "normal_path (lit ''/r/a'')"
    using I [of "[]"] I [of "[lit ''r'']"] I [of "[lit ''r'', lit ''a'']"] g
    by (simp_all add: path_of_def lit_def)
qed

lemma r_vfs:
  shows "vfs_ok r_vfs" and "fs_state r_vfs = ramfs_init []" and "length (fds r_vfs) = 32"
    and "below r_vfs \<lparr>mt_used = True, mt_point = lit ''/r'', mt_ops = Some ramfs_ops, mt_ctx = 0\<rparr>
      (lit ''/r/a'') (lit ''a'')"
proof -
  note M = mount_blank [OF normal_lits(2)]
  have step: "vfs_step blank_vfs r_vfs"
    using vfs_step.mount [of "lit ''/r''" "Some ramfs_ops" 0 blank_vfs 0 r_vfs] M
    by (simp add: r_vfs_def) (simp add: lit_def)
  show "vfs_ok r_vfs" using vfs_step_ok [OF blank_vfs_ok step] .
  then show "length (fds r_vfs) = 32" by (rule vfs_okD)
  show "fs_state r_vfs = ramfs_init []" by (simp add: r_vfs_def M) (simp add: blank_vfs_def vfs_init_def)
  have mts: "mounts r_vfs = [\<lparr>mt_used = True, mt_point = lit ''/r'', mt_ops = Some ramfs_ops, mt_ctx = 0\<rparr>,
       no_mount, no_mount, no_mount]"
    by (simp add: r_vfs_def M)
  have q: "find_mount (lit ''/r'') r_vfs =
      Some (\<lparr>mt_used = True, mt_point = lit ''/r'', mt_ops = Some ramfs_ops, mt_ctx = 0\<rparr>, [])"
    and p: "find_mount (lit ''/r/a'') r_vfs =
      Some (\<lparr>mt_used = True, mt_point = lit ''/r'', mt_ops = Some ramfs_ops, mt_ctx = 0\<rparr>, lit ''a'')"
    by (simp_all add: mts find_mount_def best_mount_def no_mount_def starts_with_def lit_def Let_def)
  show "below r_vfs \<lparr>mt_used = True, mt_point = lit ''/r'', mt_ops = Some ramfs_ops, mt_ctx = 0\<rparr>
      (lit ''/r/a'') (lit ''a'')"
    using q p normal_lits unfolding below_def
    by (intro conjI exI [of _ "lit ''/r''"]) (simp_all add: good_seg_def lit_def)
qed

lemma root_vfs:
  shows "vfs_ok root_vfs" and "fs_state root_vfs = ramfs_init []"
    and "mounts root_vfs = [\<lparr>mt_used = True, mt_point = lit ''/'', mt_ops = Some ramfs_ops, mt_ctx = 0\<rparr>,
      no_mount, no_mount, no_mount]"
    and "find_mount (lit ''/'') root_vfs =
      Some (\<lparr>mt_used = True, mt_point = lit ''/'', mt_ops = Some ramfs_ops, mt_ctx = 0\<rparr>, [])"
    and "find_mount (lit ''/a'') root_vfs = None"
    and "cwd root_vfs = [ch_slash]"
proof -
  note M = mount_blank [OF normal_lits(1)]
  have step: "vfs_step blank_vfs root_vfs"
    using vfs_step.mount [of "lit ''/''" "Some ramfs_ops" 0 blank_vfs 0 root_vfs] M
    by (simp add: root_vfs_def lit_def)
  show "vfs_ok root_vfs" using vfs_step_ok [OF blank_vfs_ok step] .
  show "fs_state root_vfs = ramfs_init []" "cwd root_vfs = [ch_slash]"
    by (simp_all add: root_vfs_def M) (simp_all add: blank_vfs_def vfs_init_def)
  show mts: "mounts root_vfs = [\<lparr>mt_used = True, mt_point = lit ''/'', mt_ops = Some ramfs_ops, mt_ctx = 0\<rparr>,
      no_mount, no_mount, no_mount]"
    by (simp add: root_vfs_def M)
  show "find_mount (lit ''/'') root_vfs =
      Some (\<lparr>mt_used = True, mt_point = lit ''/'', mt_ops = Some ramfs_ops, mt_ctx = 0\<rparr>, [])"
    and "find_mount (lit ''/a'') root_vfs = None"
    by (simp_all add: mts find_mount_def best_mount_def no_mount_def starts_with_def lit_def Let_def)
qed

text \<open>Creating \<open>a\<close> in the empty in-memory file system.\<close>

lemma create_first:
  obtains g where "fs_create 0 (Some 0) (Some (lit ''a'')) False (ramfs_init []) = Ok (Inr (Some 1), g)"
    and "ramfs_inv g" and "entry_of g 0 (lit ''a'') = Some (1, False)"
proof -
  have "is_directory (ramfs_init []) 0" "entry_of (ramfs_init []) 0 (lit ''a'') = None"
    by (simp_all add: ramfs_init_dirs entry_of_def ramfs_init_empty)
  with fs_create_spec [OF ramfs_init_inv [of "[]"] this(1), of 0 "lit ''a''" False] legal_a fresh_init that
  show thesis by auto
qed

lemma r_vfs_open: "\<exists>v1. vfs_open (Some (lit ''/r/a'')) 0x12 r_vfs = Ok (0, v1)"
proof -
  let ?m = "\<lparr>mt_used = True, mt_point = lit ''/r'', mt_ops = Some ramfs_ops, mt_ctx = 0\<rparr>"
  have inv: "ramfs_inv (fs_state r_vfs)" by (simp add: r_vfs(2) ramfs_init_inv)
  have new: "entry_of (fs_state r_vfs) 0 (lit ''a'') = None" by (simp add: r_vfs(2) entry_of_def ramfs_init_empty)
  have ops: "mt_ops ?m = Some ramfs_ops" "op_get_root ramfs_ops = Some fs_get_root"
      "op_lookup ramfs_ops = Some fs_lookup" "op_create ramfs_ops = Some fs_create"
    by (simp_all add: ramfs_ops_def)
  have none: "resolve_path (Some (lit ''/r/a'')) r_vfs = Ok None"
    using ramdisk.resolve_below [OF inv r_vfs(4) ops(1-3)] new by simp
  obtain g where g: "fs_create 0 (Some 0) (Some (lit ''a'')) False (ramfs_init []) = Ok (Inr (Some 1), g)"
      "ramfs_inv g" "entry_of g 0 (lit ''a'') = Some (1, False)"
    using create_first .
  let ?v = "r_vfs\<lparr>fs_state := g\<rparr>"
  have made: "vfs_create (Some (lit ''/r/a'')) r_vfs = Ok (0, ?v)"
    using ramdisk.create_below [OF inv r_vfs(4) ops, of False] g(1) by (simp add: vfs_create_def r_vfs(2))
  have b: "below ?v ?m (lit ''/r/a'') (lit ''a'')" using r_vfs(4) below_cong [of ?v r_vfs] by simp
  have found: "resolve_path (Some (lit ''/r/a'')) ?v = Ok (Some (?m, Some 1, False))"
    using ramdisk.resolve_below [OF _ b ops(1-3)] g(2,3) by simp
  have "\<not> fd_used (fds r_vfs ! 0)"
    by (simp add: r_vfs_def mount_blank [OF normal_lits(2)]) (simp add: blank_vfs_def vfs_init_def no_fd_def)
  then have "find (\<lambda>i. \<not> fd_used (fds ?v ! i)) [0..<32] = Some 0"
    by (simp add: upt_conv_Cons)
  then show ?thesis using none made found by (simp add: vfs_open_def take_fd_def)
qed

section \<open>Properties\<close>

text \<open>
  C17: Path normalisation splits the path (after the working directory when it is relative) at slashes
  into components of at most 23 characters, drops empty ones and \<open>.\<close>, lets \<open>..\<close> remove the component
  before it, and joins the rest; the result is absolute, shorter than 128 characters, free of empty
  components, \<open>.\<close> and \<open>..\<close>, and normalising it again from any directory leaves it as it is.
\<close>

theorem normalize_path_resolves:
  assumes "normal_path wd" and "is_text p" and "normalize_path wd (Some p) = Some q"
  shows "q = path_of (fold dot_step (components (if first_char p = ch_slash then p else wd @ ch_slash # p)) []) \<and>
    normal_path q \<and> (\<forall>wd'. normalize_path wd' (Some q) = Some q)"
proof -
  note W = normal_pathD [OF assms(1)]
  have abs: "q = path_of (fold dot_step (components p') [])"
    if "is_text p'" "first_char p' = ch_slash" "normalize_path wd (Some p') = Some q" for p'
    using that norm_segs_fold [OF that(1), of "[]"]
    by (auto simp: normalize_absolute [OF that(1,2)] split: option.splits if_splits)
  have "q = path_of (fold dot_step (components (if first_char p = ch_slash then p else wd @ ch_slash # p)) [])"
  proof (cases "first_char p = ch_slash")
    case True
    then show ?thesis using abs [OF assms(2) _ assms(3)] by simp
  next
    case False
    let ?p = "(if length wd > 1 then wd @ [ch_slash] else wd) @ p"
    have "q = path_of (fold dot_step (components ?p) [])"
      using abs [of ?p] normalize_relative [OF W(1,2) assms(2) False] assms(2,3) W
      by (cases wd) auto
    moreover have "components ?p = components (wd @ ch_slash # p)"
    proof (cases "length wd > 1")
      case False
      then have "wd = [ch_slash]" using W(2,4) by (cases wd) auto
      then show ?thesis using components_skip [of "ch_slash # p"] components_skip [of "ch_slash # ch_slash # p"]
        by (simp add: skip_slashes_def)
    qed simp
    ultimately show ?thesis using False by simp
  qed
  moreover have "normal_path q" using normalize_text_normal [OF assms] .
  ultimately show ?thesis using normalize_normal by blast
qed

theorem normalize_path_resolves_witness:
  "normalize_path (lit ''/r'') (Some (lit ''../r/./a'')) = Some (lit ''/r/a'') \<and>
   normal_path (lit ''/r/a'')"
proof -
  have n: "normalize_path (lit ''/r'') (Some (lit ''../r/./a'')) = Some (lit ''/r/a'')"
    by (simp add: normalize_path_def absolute_text_def copy_str_def s_len_def lit_def Let_def
        norm_segs.simps skip_slashes_def next_seg_def)
  have "is_text (lit ''../r/./a'')" by (simp add: lit_def)
  from normalize_path_resolves [OF normal_lits(2) this n] n show ?thesis by blast
qed

text \<open>
  C18: In every state reached from \<open>vfs_init\<close> by mounting, opening, reading, writing, closing, creating
  and changing directory, the working directory and the mount points are normal paths, every mount
  in use and every open descriptor has its operations, and the tables keep their size.
\<close>

theorem vfs_reachable_ok:
  assumes "vfs_run (vfs_init v0) v"
  shows "vfs_ok v \<and> normal_path (vfs_getcwd v)"
  using vfs_run_ok [OF assms vfs_init_ok] vfs_okD(3) by (auto simp: vfs_getcwd_def)

theorem vfs_reachable_ok_witness: "normal_path (vfs_getcwd r_vfs)"
proof -
  have "vfs_step blank_vfs r_vfs"
    using vfs_step.mount [of "lit ''/r''" "Some ramfs_ops" 0 blank_vfs 0 r_vfs] mount_blank [OF normal_lits(2)]
    by (simp add: r_vfs_def) (simp add: lit_def)
  then have "vfs_run (vfs_init \<lparr>mounts = [], fds = [], cwd = [], fs_state = ramfs_init []\<rparr>) r_vfs"
    using vfs_run.more [OF vfs_run.start] by (simp add: blank_vfs_def)
  from vfs_reachable_ok [OF this] show ?thesis by blast
qed



text \<open>
  C20: A file system mounted at \<open>/\<close> cannot be opened into: the mount point \<open>/\<close> matches only the path \<open>/\<close>
  itself, so that opening any path not below another mount point fails, also with the create flag,
  and takes no descriptor.
\<close>

theorem root_mount_unreachable:
  assumes "vfs_ok v" and "is_text p"
    and "\<forall>m\<in>set (mounts v). mt_used m \<longrightarrow> mt_point m \<noteq> lit ''/'' \<longrightarrow>
      (\<forall>q. normalize_path (cwd v) (Some p) = Some q \<longrightarrow> \<not> starts_with q (mt_point m))"
    and "vfs_open (Some p) flags v = Ok (fd, v')"
  shows "fd = -1 \<and> fds v' = fds v"
  using assms(4)
proof (cases rule: vfs_open_cases)
  case (opened s m node)
  let ?v = "v\<lparr>fs_state := s\<rparr>"
  obtain norm sub where r: "normalize_path (cwd v) (Some p) = Some norm" "find_mount norm ?v = Some (m, sub)"
      "resolve_on_mount m sub s = Ok (Some (node, False))"
    using resolve_path_mount(3) [OF opened(1)] by auto
  have n: "normal_path norm" using normalize_text_normal [OF vfs_okD(3) [OF assms(1)] assms(2) r(1)] .
  note F = find_mount_Some [OF r(2)]
  have m: "m \<in> set (mounts v)" "mt_used m" "starts_with norm (mt_point m)"
    using F(1,2) by (auto simp: matches_def)
  then have root: "mt_point m = lit ''/''" using assms(3) r(1) by blast
  then have "norm = lit ''/''" using root_matches [OF n root m(2)] F(2) by blast
  then have "sub = []" using F(4) root by (simp add: lit_def)
  then show ?thesis
    using r(3) by (auto simp: resolve_on_mount_def rbind_Ok_iff split: option.splits)
qed simp

theorem root_mount_unreachable_witness:
  "\<exists>v'. vfs_open (Some (lit ''/a'')) 0x12 root_vfs = Ok (-1, v') \<and> fds v' = fds root_vfs"
proof -
  have n: "normal_path (lit ''/a'')"
  proof -
    have "lit ''/a'' = path_of [lit ''a'']" "good_seg (lit ''a'')" by (simp_all add: path_of_def lit_def good_seg_def)
    then show ?thesis by (auto simp: normal_path_def lit_def path_of_def intro!: exI [of _ "[lit ''a'']"])
  qed
  have norm: "normalize_path wd (Some (lit ''/a'')) = Some (lit ''/a'')" for wd by (rule normalize_normal [OF n])
  have none: "resolve_path (Some (lit ''/a'')) (root_vfs\<lparr>fs_state := s\<rparr>) = Ok None" for s
    using root_vfs(5) find_mount_cong [of "root_vfs\<lparr>fs_state := s\<rparr>" root_vfs] by (simp add: resolve_path_def norm)
  have none0: "resolve_path (Some (lit ''/a'')) root_vfs = Ok None" using none [of "fs_state root_vfs"] by simp
  have root: "resolve_path (Some (lit ''/'')) root_vfs =
      Ok (Some (\<lparr>mt_used = True, mt_point = lit ''/'', mt_ops = Some ramfs_ops, mt_ctx = 0\<rparr>, Some 0, True))"
    by (rule ramdisk.resolve_root [where ops = ramfs_ops, OF _ root_vfs(4) normal_lits(1)])
      (simp_all add: root_vfs(2) ramfs_init_inv ramfs_ops_def)
  have "resolve_parent (Some (lit ''/a'')) root_vfs =
      Ok (Some (\<lparr>mt_used = True, mt_point = lit ''/'', mt_ops = Some ramfs_ops, mt_ctx = 0\<rparr>, Some 0, lit ''a''))"
    using root by (simp add: resolve_parent_def norm) (simp add: lit_def copy_str_def s_len_def)
  moreover obtain g where "fs_create 0 (Some 0) (Some (lit ''a'')) False (ramfs_init []) = Ok (Inr (Some 1), g)"
    using create_first .
  ultimately have "vfs_create (Some (lit ''/a'')) root_vfs = Ok (0, root_vfs\<lparr>fs_state := g\<rparr>)"
    by (simp add: vfs_create_def make_node_def ramfs_ops_def root_vfs(2))
  then have o: "vfs_open (Some (lit ''/a'')) 0x12 root_vfs = Ok (-1, root_vfs\<lparr>fs_state := g\<rparr>)"
    using none none0 by (simp add: vfs_open_def)
  have "is_text (lit ''/a'')" by (simp add: lit_def)
  from root_mount_unreachable [OF root_vfs(1) this _ o] o show ?thesis by (auto simp: root_vfs(3) no_mount_def)
qed

text \<open>
  Descriptors do not disturb each other: \<open>vfs_open\<close> takes the lowest free one and starts at position
  0, reading and writing change only the position of their own, closing frees it; a descriptor opened
  with the write-only bit set, which includes \<open>VFS_O_RDWR\<close>, cannot be read.
\<close>

theorem vfs_descriptors:
  assumes "vfs_ok v"
  shows "(vfs_open p flags v = Ok (fd, v') \<and> 0 \<le> fd \<longrightarrow>
      \<not> fd_used (fds v ! nat fd) \<and> (\<forall>j<nat fd. fd_used (fds v ! j)) \<and> open_fd fd v' \<and>
      fd_pos (fds v' ! nat fd) = 0 \<and> fd_flags (fds v' ! nat fd) = flags \<and> (\<forall>k. k \<noteq> nat fd \<longrightarrow> fds v' ! k = fds v ! k)) \<and>
    (vfs_read fd buf n v = Ok (rc, buf', v') \<longrightarrow>
      fs_state v' = fs_state v \<and> (\<forall>k. k \<noteq> nat fd \<longrightarrow> fds v' ! k = fds v ! k) \<and>
      (open_fd fd v \<and> fd_flags (fds v ! nat fd) AND 0x02 = 0x02 \<longrightarrow> rc = -1 \<and> v' = v)) \<and>
    (vfs_write fd buf n v = Ok (rc, v') \<longrightarrow> (\<forall>k. k \<noteq> nat fd \<longrightarrow> fds v' ! k = fds v ! k)) \<and>
    (vfs_close fd v = (0, v') \<longrightarrow> \<not> open_fd fd v' \<and> (\<forall>k. k \<noteq> nat fd \<longrightarrow> fds v' ! k = fds v ! k))"
proof (intro conjI impI)
  assume o: "vfs_open p flags v = Ok (fd, v') \<and> 0 \<le> fd"
  then have "vfs_open p flags v = Ok (fd, v')" by simp
  then have "\<not> fd_used (fds v ! nat fd) \<and> (\<forall>j<nat fd. fd_used (fds v ! j)) \<and> open_fd fd v' \<and>
      fd_pos (fds v' ! nat fd) = 0 \<and> fd_flags (fds v' ! nat fd) = flags \<and> (\<forall>k. k \<noteq> nat fd \<longrightarrow> fds v' ! k = fds v ! k)"
  proof (cases rule: vfs_open_cases)
    case (opened s m node)
    then show ?thesis
      using take_fd_spec [OF opened(2)] o vfs_okD(2) [OF assms] by (auto simp: open_fd_def)
  qed (use o in simp)
  then show "\<not> fd_used (fds v ! nat fd)" "\<forall>j<nat fd. fd_used (fds v ! j)" "open_fd fd v'"
    "fd_pos (fds v' ! nat fd) = 0" "fd_flags (fds v' ! nat fd) = flags" "\<forall>k. k \<noteq> nat fd \<longrightarrow> fds v' ! k = fds v ! k"
    by blast+
next
  assume "vfs_read fd buf n v = Ok (rc, buf', v')"
  then have "fs_state v' = fs_state v \<and> (\<forall>k. k \<noteq> nat fd \<longrightarrow> fds v' ! k = fds v ! k) \<and>
      (open_fd fd v \<and> fd_flags (fds v ! nat fd) AND 0x02 = 0x02 \<longrightarrow> rc = -1 \<and> v' = v)"
    by (auto simp: vfs_read_def Let_def advance_def rbind_Ok_iff split: if_splits option.splits)
  then show "fs_state v' = fs_state v" "\<forall>k. k \<noteq> nat fd \<longrightarrow> fds v' ! k = fds v ! k"
    "open_fd fd v \<and> fd_flags (fds v ! nat fd) AND 0x02 = 0x02 \<Longrightarrow> rc = -1"
    "open_fd fd v \<and> fd_flags (fds v ! nat fd) AND 0x02 = 0x02 \<Longrightarrow> v' = v" by blast+
next
  assume "vfs_write fd buf n v = Ok (rc, v')"
  then show "\<forall>k. k \<noteq> nat fd \<longrightarrow> fds v' ! k = fds v ! k"
    by (auto simp: vfs_write_def Let_def advance_def rbind_Ok_iff split: if_splits option.splits)
next
  assume c: "vfs_close fd v = (0, v')"
  then show "\<not> open_fd fd v'" "\<forall>k. k \<noteq> nat fd \<longrightarrow> fds v' ! k = fds v ! k"
    using vfs_okD(2) [OF assms] by (auto simp: vfs_close_def open_fd_def no_fd_def split: if_splits)
qed

theorem vfs_descriptors_witness:
  "\<exists>v1. vfs_open (Some (lit ''/r/a'')) 0x12 r_vfs = Ok (0, v1) \<and> open_fd 0 v1 \<and> fd_pos (fds v1 ! 0) = 0"
proof -
  obtain v1 where v1: "vfs_open (Some (lit ''/r/a'')) 0x12 r_vfs = Ok (0, v1)" using r_vfs_open by blast
  from vfs_descriptors [OF r_vfs(1), of "Some (lit ''/r/a'')" "0x12" 0 v1] v1 show ?thesis by auto
qed

end
