(* ===== verification/Console_Text.thy ===== *)
theory Console_Text
  imports CString
begin

text \<open>
  What the programs send to the console: \<open>console_print\<close> and \<open>console_putc\<close> append characters to the text
  printed so far. The helpers for numbers and comparisons that the programs repeat (\<open>print_u32\<close>, \<open>streq\<close>
  of \<open>kernel/apps/app_fat32.c\<close> and others) are modelled once.
\<close>

definition line :: "string \<Rightarrow> u8 list" where
  "line s = lit s @ [ch_nl]"

section \<open>Decimal numbers\<close>

text \<open>The digits, lowest first; \<open>k\<close> is the room left in the buffer of 11 characters.\<close>

fun digits_rev :: "nat \<Rightarrow> u32 \<Rightarrow> u8 list" where
  "digits_rev 0 n = []"
| "digits_rev (Suc k) n = (if n = 0 then [] else (48 + ucast (n mod 10)) # digits_rev k (n div 10))"

definition print_u32 :: "u32 \<Rightarrow> u8 list" where
  "print_u32 n = (if n = 0 then [48] else rev (digits_rev 11 n))"

text \<open>The number a decimal numeral denotes.\<close>

definition dec_value :: "u8 list \<Rightarrow> nat" where
  "dec_value s = foldl (\<lambda>v c. 10 * v + (unat c - 48)) 0 s"

lemma digit_value: "unat (48 + ucast (n mod 10) :: u8) = 48 + unat n mod 10" for n :: u32
proof -
  have r: "unat n mod 10 < 10" by simp
  then have "unat (ucast (n mod 10) :: u8) = unat n mod 10"
    by (simp add: unsigned_ucast_eq take_bit_nat_eq_self unat_mod)
  then show ?thesis using r by (simp add: unat_word_ariths)
qed

lemma dec_value_rev_digits:
  "unat n < 10 ^ k \<Longrightarrow> dec_value (rev (digits_rev k n)) = unat n"
proof (induction k n rule: digits_rev.induct)
  case (2 k n)
  have "unat (n div 10) < 10 ^ k" using 2(2) by (simp add: unat_div div_less_iff_less_mult mult.commute)
  then show ?case using 2(1) digit_value [of n] by (simp add: dec_value_def unat_div)
qed (simp add: dec_value_def)

text \<open>The number printed is the number given; the buffer of 11 characters is large enough.\<close>

lemma print_u32_value: "dec_value (print_u32 n) = unat n"
proof -
  have "unat n < 10 ^ 11" using unat_u32_lt [of n] by (rule order.strict_trans) simp
  then show ?thesis using dec_value_rev_digits [of n 11] by (simp add: print_u32_def dec_value_def)
qed

section \<open>Comparing texts\<close>

function streq :: "u8 list \<Rightarrow> u8 list \<Rightarrow> bool" where
  "streq a b =
     (if first_char a \<noteq> 0 \<and> first_char b \<noteq> 0 \<and> first_char a = first_char b then streq (tl a) (tl b)
      else first_char a = 0 \<and> first_char b = 0)"
  by pat_completeness auto
termination
proof (relation "measure (\<lambda>(a, b). length a)")
  fix a b :: "u8 list" assume "first_char a \<noteq> 0 \<and> first_char b \<noteq> 0 \<and> first_char a = first_char b"
  then show "((tl a, tl b), a, b) \<in> measure (\<lambda>(a, b). length a)" by (cases a) auto
qed simp

declare streq.simps [simp del]

lemma streq_iff: "streq a b \<longleftrightarrow> c_text a = c_text b"
proof (induction a b rule: streq.induct)
  case (1 a b)
  then show ?case
    by (subst streq.simps) (cases a; cases b; auto simp: c_text_def)
qed

end
