(* ===== verification/Blockdev.thy ===== *)
theory Blockdev
  imports CString
begin

text \<open>
  The table of block devices (\<open>kernel/block/blockdev.c\<close>). A device is the copy of a \<open>blockdev_t\<close> that
  its driver registered. The callbacks get the device itself; here they get its data fields (\<open>bd_info\<close>),
  the sector, the count, the buffer (\<open>None\<close> for a null pointer) and the state \<open>'d\<close> of the hardware, and
  return the code, the buffer after the call and the new state. \<open>'c\<close> is what the \<open>ctx\<close> pointer points to.
\<close>

section \<open>Devices\<close>

datatype blockdev_type = BLOCKDEV_TYPE_ATA | BLOCKDEV_TYPE_VIRTIO | BLOCKDEV_TYPE_MEMDISK

record 'c bd_info =
  bd_name :: "u8 list"
  bd_type :: blockdev_type
  bd_sector_size :: u32
  bd_sector_count :: u32
  bd_ctx :: "'c option"

type_synonym ('c, 'd) blockdev_read_fn =
  "'c bd_info \<Rightarrow> u32 \<Rightarrow> u32 \<Rightarrow> u8 list option \<Rightarrow> 'd \<Rightarrow> (int \<times> u8 list option \<times> 'd) res"

type_synonym ('c, 'd) blockdev_write_fn =
  "'c bd_info \<Rightarrow> u32 \<Rightarrow> u32 \<Rightarrow> u8 list option \<Rightarrow> 'd \<Rightarrow> (int \<times> 'd) res"

record ('c, 'd) blockdev = "'c bd_info" +
  bd_read :: "('c, 'd) blockdev_read_fn option"
  bd_write :: "('c, 'd) blockdev_write_fn option"

section \<open>The registry\<close>

text \<open>\<open>g_blockdevs\<close> and \<open>g_blockdev_count\<close>; a zeroed entry has type 0, which is ATA.\<close>

abbreviation (input) BLOCKDEV_MAX :: u32 where "BLOCKDEV_MAX \<equiv> 8"

record ('c, 'd) registry =
  blockdevs :: "('c, 'd) blockdev list"
  blockdev_count :: u32

definition blank_dev :: "('c, 'd) blockdev" where
  "blank_dev = \<lparr>bd_name = replicate 8 0, bd_type = BLOCKDEV_TYPE_ATA, bd_sector_size = 0, bd_sector_count = 0,
     bd_ctx = None, bd_read = None, bd_write = None\<rparr>"

definition block_init :: "('c, 'd) registry" where
  "block_init = \<lparr>blockdevs = replicate 8 blank_dev, blockdev_count = 0\<rparr>"

definition block_register :: "('c, 'd) blockdev option \<Rightarrow> ('c, 'd) registry \<Rightarrow> int \<times> ('c, 'd) registry" where
  "block_register dev r =
     (case dev of
        None \<Rightarrow> (-1, r)
      | Some d \<Rightarrow>
          if bd_read d = None \<or> bd_sector_size d = 0 \<or> bd_sector_count d = 0 then (-1, r)
          else if blockdev_count r \<ge> BLOCKDEV_MAX then (-1, r)
          else (0, r\<lparr>blockdevs := (blockdevs r)[unat (blockdev_count r) := d], blockdev_count := blockdev_count r + 1\<rparr>))"

definition block_count :: "('c, 'd) registry \<Rightarrow> u32" where
  "block_count r = blockdev_count r"

text \<open>A pointer into the table is its index.\<close>

definition block_get :: "u32 \<Rightarrow> ('c, 'd) registry \<Rightarrow> nat option" where
  "block_get index r = (if index \<ge> blockdev_count r then None else Some (unat index))"

definition block_find :: "u8 list option \<Rightarrow> ('c, 'd) registry \<Rightarrow> nat option" where
  "block_find name r =
     (case name of
        None \<Rightarrow> None
      | Some nm \<Rightarrow> find (\<lambda>i. strcmp (bd_name (blockdevs r ! i)) nm = 0) [0..<unat (blockdev_count r)])"

text \<open>The values of the enumeration are the three constructors, so \<open>UNKNOWN\<close> is never returned for them.\<close>

fun block_type_name :: "blockdev_type \<Rightarrow> u8 list" where
  "block_type_name BLOCKDEV_TYPE_ATA = lit ''ATA''"
| "block_type_name BLOCKDEV_TYPE_VIRTIO = lit ''VIRTIO''"
| "block_type_name BLOCKDEV_TYPE_MEMDISK = lit ''MEMDISK''"

section \<open>The registry keeps what was registered\<close>

text \<open>The devices registered, in order.\<close>

definition registered :: "('c, 'd) registry \<Rightarrow> ('c, 'd) blockdev list" where
  "registered r = take (unat (blockdev_count r)) (blockdevs r)"

definition registry_ok :: "('c, 'd) registry \<Rightarrow> bool" where
  "registry_ok r \<longleftrightarrow> length (blockdevs r) = 8 \<and> unat (blockdev_count r) \<le> 8 \<and>
     (\<forall>d\<in>set (registered r). bd_read d \<noteq> None \<and> bd_sector_size d \<noteq> 0 \<and> bd_sector_count d \<noteq> 0)"

lemma registry_okD:
  assumes "registry_ok r"
  shows "length (blockdevs r) = 8" and "unat (blockdev_count r) \<le> 8"
    and "length (registered r) = unat (blockdev_count r)"
  using assms by (simp_all add: registry_ok_def registered_def)

lemma block_init_ok: "registry_ok block_init" "registered block_init = []"
  by (simp_all add: registry_ok_def block_init_def registered_def)

lemma block_register_ok:
  assumes ok: "registry_ok r" and reg: "block_register dev r = (rc, r')"
  shows "registry_ok r'" and "rc = 0 \<Longrightarrow> \<exists>d. dev = Some d \<and> registered r' = registered r @ [d]"
    and "rc \<noteq> 0 \<Longrightarrow> rc = -1 \<and> r' = r"
proof -
  note R = registry_okD [OF ok]
  consider (bad) "rc = -1" "r' = r"
    | (new) d where "dev = Some d" "bd_read d \<noteq> None" "bd_sector_size d \<noteq> 0" "bd_sector_count d \<noteq> 0" "rc = 0"
        "\<not> 8 \<le> blockdev_count r" "r' = r\<lparr>blockdevs := (blockdevs r)[unat (blockdev_count r) := d], blockdev_count := blockdev_count r + 1\<rparr>"
  proof (cases dev)
    case None
    then show thesis using bad reg by (simp add: block_register_def)
  next
    case (Some d)
    show thesis
    proof (cases "bd_read d = None \<or> bd_sector_size d = 0 \<or> bd_sector_count d = 0 \<or> blockdev_count r \<ge> 8")
      case True
      then show thesis using bad reg Some by (simp add: block_register_def split: if_splits)
    next
      case False
      then show thesis using new [OF Some] reg Some by (auto simp: block_register_def)
    qed
  qed
  then have "registry_ok r' \<and> (rc = 0 \<longrightarrow> (\<exists>d. dev = Some d \<and> registered r' = registered r @ [d])) \<and>
      (rc \<noteq> 0 \<longrightarrow> rc = -1 \<and> r' = r)"
  proof cases
    case bad
    then show ?thesis using ok by simp
  next
    case (new d)
    have n: "unat (blockdev_count r) < 8" using new(6) by (simp add: word_le_nat_alt)
    then have s: "unat (blockdev_count r + 1) = Suc (unat (blockdev_count r))"
      by (simp add: unat_word_ariths)
    then have "registered r' = registered r @ [d]"
      using R(1) n by (simp add: new(7) registered_def take_Suc_conv_app_nth)
    then show ?thesis using ok new n R(1) s by (auto simp: registry_ok_def)
  qed
  then show "registry_ok r'" and "rc = 0 \<Longrightarrow> \<exists>d. dev = Some d \<and> registered r' = registered r @ [d]"
    and "rc \<noteq> 0 \<Longrightarrow> rc = -1 \<and> r' = r" by blast+
qed

lemma block_find_registered:
  assumes "registry_ok r" and "block_find (Some nm) r = Some i"
  shows "i < length (registered r)" and "c_text (bd_name (registered r ! i)) = c_text nm"
    and "\<And>j. j < i \<Longrightarrow> c_text (bd_name (registered r ! j)) \<noteq> c_text nm"
  using assms registry_okD [OF assms(1)]
  by (auto simp: block_find_def find_Some_iff strcmp_eq_0 registered_def)

section \<open>What a driver promises\<close>

text \<open>
  A device stores sectors: \<open>content d\<close> is what the sectors hold while the hardware is in a state \<open>d\<close> in
  which it works (\<open>good\<close>). Reading one sector of the device gives its contents and changes none; writing
  one changes this one only; neither fails.
\<close>

definition sector_store :: "('c, 'd) blockdev \<Rightarrow> ('d \<Rightarrow> bool) \<Rightarrow> ('d \<Rightarrow> u32 \<Rightarrow> u8 list) \<Rightarrow> bool" where
  "sector_store b good content \<longleftrightarrow>
     (\<exists>rd wr. bd_read b = Some rd \<and> bd_write b = Some wr \<and> bd_sector_size b = 512 \<and>
       (\<forall>d lba buf. good d \<and> lba < bd_sector_count b \<and> length buf = 512 \<longrightarrow>
          length (content d lba) = 512 \<and>
          (\<exists>d'. rd (bd_info.truncate b) lba 1 (Some buf) d = Ok (0, Some (content d lba), d') \<and>
             good d' \<and> content d' = content d) \<and>
          (\<exists>d'. wr (bd_info.truncate b) lba 1 (Some buf) d = Ok (0, d') \<and>
             good d' \<and> content d' = (content d)(lba := buf))))"

end
