(* ===== verification/Fat32.thy ===== *)
theory Fat32
  imports Blockdev
begin

text \<open>
  The FAT32 driver (\<open>kernel/fs/fat32.c\<close>): its state is the objects \<open>fat32_device_t\<close> that exist
  (\<open>devices\<close>; \<open>None\<close> at the address of an object whose lifetime has ended), the state of the hardware and
  the text of the last error. A \<open>fat32_fs_t\<close> is a value whose \<open>dev\<close> field is such an address, or \<open>None\<close>
  for the null pointer. A sector is a list of 512 bytes.
\<close>

section \<open>State\<close>

record ('c, 'd) fat32_device =
  dv_bdev :: "('c, 'd) blockdev option"
  dv_sector_size :: u32
  dv_total_sectors :: u32

record fat32_fs =
  fs_dev :: "nat option"
  sectors_per_cluster :: u32
  reserved_sectors :: u32
  fat_count :: u32
  sectors_per_fat :: u32
  root_cluster :: u32
  fat_start_lba :: u32
  data_start_lba :: u32
  total_clusters :: u32

record fat32_dirent =
  fe_name83 :: "u8 list"
  fe_size :: u32

record ('c, 'd) fat32 =
  devices :: "nat \<Rightarrow> ('c, 'd) fat32_device option"
  hw :: 'd
  last_error :: "u8 list"

abbreviation (input) FAT32_ATTR_ARCHIVE :: u8 where "FAT32_ATTR_ARCHIVE \<equiv> 0x20"
abbreviation (input) FAT32_EOC :: u32 where "FAT32_EOC \<equiv> 0x0FFFFFFF"

section \<open>The error text\<close>

definition fat32_set_error :: "u8 list option \<Rightarrow> ('c, 'd) fat32 \<Rightarrow> ('c, 'd) fat32" where
  "fat32_set_error msg w =
     (let m = (case msg of None \<Rightarrow> lit ''unknown'' | Some s \<Rightarrow> s)
      in w\<lparr>last_error := blit (last_error w) 0 (take 95 m @ [0])\<rparr>)"

definition fat32_last_error :: "('c, 'd) fat32 \<Rightarrow> u8 list" where
  "fat32_last_error w = c_text (last_error w)"

definition fat32_clear_error :: "('c, 'd) fat32 \<Rightarrow> ('c, 'd) fat32" where
  "fat32_clear_error w = fat32_set_error (Some (lit ''ok'')) w"

text \<open>The statement \<open>{ fat32_set_error(msg); return -1; }\<close>.\<close>

definition give_up :: "string \<Rightarrow> ('c, 'd) fat32 \<Rightarrow> (int \<times> ('c, 'd) fat32) res" where
  "give_up msg w = Ok (-1, fat32_set_error (Some (lit msg)) w)"

section \<open>Sectors of a device\<close>

definition fat32_device_from_blockdev ::
  "nat option \<Rightarrow> ('c, 'd) blockdev option \<Rightarrow> ('c, 'd) fat32 \<Rightarrow> int \<times> ('c, 'd) fat32" where
  "fat32_device_from_blockdev dev bdev w =
     (case (dev, bdev) of
        (Some p, Some b) \<Rightarrow>
          if bd_read b = None then (-1, fat32_set_error (Some (lit ''device or read callback missing'')) w)
          else (0, w\<lparr>devices := (devices w)(p \<mapsto> \<lparr>dv_bdev = Some b, dv_sector_size = bd_sector_size b,
                       dv_total_sectors = bd_sector_count b\<rparr>)\<rparr>)
      | _ \<Rightarrow> (-1, fat32_set_error (Some (lit ''device or read callback missing'')) w))"

text \<open>The device a pointer points to; following the pointer to a dead object is a stray access.\<close>

definition device_at :: "nat option \<Rightarrow> ('c, 'd) fat32 \<Rightarrow> ('c, 'd) fat32_device option res" where
  "device_at dev w =
     (case dev of
        None \<Rightarrow> Ok None
      | Some p \<Rightarrow> (case devices w p of None \<Rightarrow> Fail Wild | Some d \<Rightarrow> Ok (Some d)))"

definition fat32_io_read ::
  "nat option \<Rightarrow> u32 \<Rightarrow> u32 \<Rightarrow> u8 list option \<Rightarrow> ('c, 'd) fat32 \<Rightarrow> (int \<times> u8 list option \<times> ('c, 'd) fat32) res" where
  "fat32_io_read dev sector_lba count buf w =
     rbind (device_at dev w) (\<lambda>d.
       case Option.bind d dv_bdev of
         None \<Rightarrow> Ok (-1, buf, fat32_set_error (Some (lit ''invalid read call'')) w)
       | Some b \<Rightarrow>
           (case (bd_read b, buf) of
              (Some rd, Some bs) \<Rightarrow>
                if count = 0 then Ok (-1, buf, fat32_set_error (Some (lit ''invalid read call'')) w)
                else rbind (rd (bd_info.truncate b) sector_lba count buf (hw w)) (\<lambda>(rc, buf, h).
                  if rc \<noteq> 0 then Ok (-1, buf, fat32_set_error (Some (lit ''block read failed'')) (w\<lparr>hw := h\<rparr>))
                  else Ok (0, buf, w\<lparr>hw := h\<rparr>))
            | _ \<Rightarrow> Ok (-1, buf, fat32_set_error (Some (lit ''invalid read call'')) w)))"

definition fat32_io_write ::
  "nat option \<Rightarrow> u32 \<Rightarrow> u32 \<Rightarrow> u8 list option \<Rightarrow> ('c, 'd) fat32 \<Rightarrow> (int \<times> ('c, 'd) fat32) res" where
  "fat32_io_write dev sector_lba count buf w =
     rbind (device_at dev w) (\<lambda>d.
       case Option.bind d dv_bdev of
         None \<Rightarrow> give_up ''invalid write call'' w
       | Some b \<Rightarrow>
           (case (bd_write b, buf) of
              (Some wr, Some bs) \<Rightarrow>
                if count = 0 then give_up ''invalid write call'' w
                else rbind (wr (bd_info.truncate b) sector_lba count buf (hw w)) (\<lambda>(rc, h).
                  if rc \<noteq> 0 then give_up ''block write failed'' (w\<lparr>hw := h\<rparr>)
                  else Ok (0, w\<lparr>hw := h\<rparr>))
            | _ \<Rightarrow> give_up ''invalid write call'' w))"

text \<open>
  The two calls as the driver makes them, \<open>if (fat32_io_read(dev, lba, 1, sec) != 0) \<dots>\<close> with a local
  array \<open>sec\<close>: \<open>None\<close> when the call fails. The array is uninitialised before the first read, which is
  modelled by zeros; the code uses it only after a read that succeeded.
\<close>

abbreviation zero_sector :: "u8 list" where "zero_sector \<equiv> replicate 512 0"

definition read_sec :: "nat option \<Rightarrow> u32 \<Rightarrow> ('c, 'd) fat32 \<Rightarrow> (u8 list option \<times> ('c, 'd) fat32) res" where
  "read_sec dev lba w =
     rbind (fat32_io_read dev lba 1 (Some zero_sector) w) (\<lambda>(rc, buf, w). Ok (if rc \<noteq> 0 then None else buf, w))"

definition write_sec :: "nat option \<Rightarrow> u32 \<Rightarrow> u8 list \<Rightarrow> ('c, 'd) fat32 \<Rightarrow> (unit option \<times> ('c, 'd) fat32) res" where
  "write_sec dev lba sec w =
     rbind (fat32_io_write dev lba 1 (Some sec) w) (\<lambda>(rc, w). Ok (if rc \<noteq> 0 then None else Some (), w))"

text \<open>\<open>if (m(\<dots>) != 0) { fat32_set_error(msg); return -1; }\<close>, followed by \<open>k\<close>.\<close>

definition or_fail ::
  "('a option \<times> ('c, 'd) fat32) res \<Rightarrow> string \<Rightarrow> ('a \<Rightarrow> ('c, 'd) fat32 \<Rightarrow> (int \<times> ('c, 'd) fat32) res) \<Rightarrow>
   (int \<times> ('c, 'd) fat32) res" where
  "or_fail m msg k = rbind m (\<lambda>(r, w). case r of None \<Rightarrow> give_up msg w | Some x \<Rightarrow> k x w)"

section \<open>Little-endian numbers\<close>

definition rd16 :: "u8 list \<Rightarrow> nat \<Rightarrow> u16" where
  "rd16 p i = ucast (p ! i) OR push_bit 8 (ucast (p ! (i + 1)))"

definition rd32 :: "u8 list \<Rightarrow> nat \<Rightarrow> u32" where
  "rd32 p i = ucast (p ! i) OR push_bit 8 (ucast (p ! (i + 1))) OR push_bit 16 (ucast (p ! (i + 2))) OR
     push_bit 24 (ucast (p ! (i + 3)))"

definition wr16 :: "u8 list \<Rightarrow> nat \<Rightarrow> u16 \<Rightarrow> u8 list" where
  "wr16 p i v = p[i := ucast (v AND 0xFF), i + 1 := ucast (drop_bit 8 v AND 0xFF)]"

definition wr32 :: "u8 list \<Rightarrow> nat \<Rightarrow> u32 \<Rightarrow> u8 list" where
  "wr32 p i v = p[i := ucast (v AND 0xFF), i + 1 := ucast (drop_bit 8 v AND 0xFF),
     i + 2 := ucast (drop_bit 16 v AND 0xFF), i + 3 := ucast (drop_bit 24 v AND 0xFF)]"

definition cluster_to_lba :: "fat32_fs \<Rightarrow> u32 \<Rightarrow> u32" where
  "cluster_to_lba fs cluster = data_start_lba fs + (cluster - 2) * sectors_per_cluster fs"

section \<open>8.3 names\<close>

definition upcase :: "u8 \<Rightarrow> u8" where
  "upcase c = (if 0x61 \<le> c \<and> c \<le> 0x7A then c - 32 else c)"

definition name_char :: "u8 \<Rightarrow> bool" where
  "name_char c \<longleftrightarrow> 0x41 \<le> c \<and> c \<le> 0x5A \<or> 0x30 \<le> c \<and> c \<le> 0x39 \<or> c = 0x5F"

text \<open>
  The loop over the characters of the name; \<open>pos\<close> is the next position. The variable \<open>ext_pos\<close> of the code
  is 8 throughout. Characters of 0x80 and above are negative for the code, and neither letters nor digits.
\<close>

fun name83_loop :: "u8 list \<Rightarrow> nat \<Rightarrow> u8 list \<Rightarrow> u8 list option" where
  "name83_loop [] pos out = Some out"
| "name83_loop (c # cs) pos out =
     (if c = ch_dot then (if pos = 0 \<or> pos > 8 then None else name83_loop cs 8 out)
      else (let c = upcase c
            in if \<not> name_char c then None
               else if pos < 8 then name83_loop cs (pos + 1) (out[pos := c])
               else if pos < 11 then name83_loop cs (pos + 1) (out[pos := c])
               else None))"

definition make_name83 :: "u8 list option \<Rightarrow> u8 list option" where
  "make_name83 name =
     (case name of
        None \<Rightarrow> None
      | Some nm \<Rightarrow> if nm = [] then None else name83_loop nm 0 (replicate 11 ch_space))"

section \<open>The file allocation table\<close>

definition fat_lba :: "fat32_fs \<Rightarrow> u32 \<Rightarrow> u32" where
  "fat_lba fs cluster = fat_start_lba fs + (cluster * 4) div 512"

definition fat_off :: "u32 \<Rightarrow> nat" where
  "fat_off cluster = unat ((cluster * 4) mod 512)"

definition fat_get :: "fat32_fs \<Rightarrow> u32 \<Rightarrow> ('c, 'd) fat32 \<Rightarrow> (u32 \<times> ('c, 'd) fat32) res" where
  "fat_get fs cluster w =
     rbind (read_sec (fs_dev fs) (fat_lba fs cluster) w) (\<lambda>(r, w).
       case r of
         None \<Rightarrow> Ok (FAT32_EOC, w)
       | Some sec \<Rightarrow> Ok (rd32 sec (fat_off cluster) AND 0x0FFFFFFF, w))"

text \<open>The loop that writes the sector into every copy \<open>f\<close> of the table.\<close>

fun write_fats :: "fat32_fs \<Rightarrow> u32 \<Rightarrow> u8 list \<Rightarrow> nat list \<Rightarrow> ('c, 'd) fat32 \<Rightarrow> (unit option \<times> ('c, 'd) fat32) res" where
  "write_fats fs lba sec [] w = Ok (Some (), w)"
| "write_fats fs lba sec (f # fats) w =
     rbind (write_sec (fs_dev fs) (lba + of_nat f * sectors_per_fat fs) sec w) (\<lambda>(r, w).
       case r of None \<Rightarrow> Ok (None, w) | Some _ \<Rightarrow> write_fats fs lba sec fats w)"

definition fat_set :: "fat32_fs \<Rightarrow> u32 \<Rightarrow> u32 \<Rightarrow> ('c, 'd) fat32 \<Rightarrow> (unit option \<times> ('c, 'd) fat32) res" where
  "fat_set fs cluster val w =
     rbind (read_sec (fs_dev fs) (fat_lba fs cluster) w) (\<lambda>(r, w).
       case r of
         None \<Rightarrow> Ok (None, w)
       | Some sec \<Rightarrow>
           write_fats fs (fat_lba fs cluster) (wr32 sec (fat_off cluster) val) [0..<unat (fat_count fs)] w)"

fun alloc_from :: "fat32_fs \<Rightarrow> nat list \<Rightarrow> ('c, 'd) fat32 \<Rightarrow> (u32 option \<times> ('c, 'd) fat32) res" where
  "alloc_from fs [] w = Ok (None, w)"
| "alloc_from fs (c # cs) w =
     rbind (fat_get fs (of_nat c) w) (\<lambda>(v, w).
       if v = 0 then
         rbind (fat_set fs (of_nat c) FAT32_EOC w) (\<lambda>(r, w).
           Ok (case r of None \<Rightarrow> None | Some _ \<Rightarrow> Some (of_nat c), w))
       else alloc_from fs cs w)"

definition alloc_cluster :: "fat32_fs \<Rightarrow> ('c, 'd) fat32 \<Rightarrow> (u32 option \<times> ('c, 'd) fat32) res" where
  "alloc_cluster fs w = alloc_from fs [2..<unat (total_clusters fs + 2)] w"

section \<open>The root directory\<close>

text \<open>The offsets of the 16 entries of a sector, and the loop over them.\<close>

definition entry_offs :: "nat list" where
  "entry_offs = map (\<lambda>k. 32 * k) [0..<16]"

fun scan_entries :: "u8 list \<Rightarrow> u8 list \<Rightarrow> nat list \<Rightarrow> nat option" where
  "scan_entries sec name83 [] = None"
| "scan_entries sec name83 (i # offs) =
     (if sec ! i = 0 then None
      else if sec ! i = 0xE5 then scan_entries sec name83 offs
      else if sec ! (i + 11) AND 0x0F = 0x0F then scan_entries sec name83 offs
      else if strncmp (drop i sec) name83 11 = 0 then Some i
      else scan_entries sec name83 offs)"

definition find_root_entry ::
  "fat32_fs \<Rightarrow> u8 list \<Rightarrow> ('c, 'd) fat32 \<Rightarrow> ((u32 \<times> nat) option \<times> ('c, 'd) fat32) res" where
  "find_root_entry fs name83 w =
     (let lba = cluster_to_lba fs (root_cluster fs)
      in rbind (read_sec (fs_dev fs) lba w) (\<lambda>(r, w).
           Ok (case r of
                 None \<Rightarrow> None
               | Some sec \<Rightarrow> map_option (\<lambda>i. (lba, i)) (scan_entries sec name83 entry_offs), w)))"

text \<open>The fields of the entry at an offset.\<close>

definition entry_cluster :: "u8 list \<Rightarrow> nat \<Rightarrow> u32" where
  "entry_cluster sec off = push_bit 16 (ucast (rd16 sec (off + 20))) OR ucast (rd16 sec (off + 26))"

definition put_entry :: "u8 list \<Rightarrow> nat \<Rightarrow> u8 list \<Rightarrow> u32 \<Rightarrow> u32 \<Rightarrow> u8 list" where
  "put_entry sec off name83 cluster len =
     (let sec = blit sec off (replicate 32 0);
          sec = blit sec off name83;
          sec = sec[off + 11 := FAT32_ATTR_ARCHIVE];
          sec = wr16 sec (off + 20) (ucast (drop_bit 16 cluster AND 0xFFFF));
          sec = wr16 sec (off + 26) (ucast (cluster AND 0xFFFF))
      in wr32 sec (off + 28) len)"

section \<open>Formatting\<close>

text \<open>
  The loop that finds the number of sectors of a table, at most 8 times round; \<open>None\<close> when the tables do
  not fit the disk.
\<close>

definition data_sectors :: "u32 \<Rightarrow> u32 \<Rightarrow> u32" where
  "data_sectors nsec spf = nsec - 32 - 2 * spf"

fun format_layout :: "nat \<Rightarrow> u32 \<Rightarrow> u32 \<Rightarrow> u32 option" where
  "format_layout 0 nsec spf = Some spf"
| "format_layout (Suc n) nsec spf =
     (if nsec \<le> 32 + 2 * spf + 1 then None
      else (let clusters = data_sectors nsec spf div 1;
                bytes = (clusters + 2) * 4;
                bytes = (bytes + 511) AND NOT 511
            in if bytes div 512 = spf then Some spf else format_layout n nsec (bytes div 512)))"

definition boot_sector :: "u32 \<Rightarrow> u32 \<Rightarrow> u8 list" where
  "boot_sector nsec spf =
     (let sec = zero_sector[0 := 0xEB, 1 := 0x58, 2 := 0x90];
          sec = blit sec 3 (lit ''RONINOS '');
          sec = wr16 sec 11 512;
          sec = sec[13 := 1];
          sec = wr16 sec 14 32;
          sec = sec[16 := 2];
          sec = wr16 sec 17 0;
          sec = wr16 sec 19 0;
          sec = sec[21 := 0xF8];
          sec = wr16 sec 22 0;
          sec = wr16 sec 24 63;
          sec = wr16 sec 26 255;
          sec = wr32 sec 28 0;
          sec = wr32 sec 32 nsec;
          sec = wr32 sec 36 spf;
          sec = wr16 sec 40 0;
          sec = wr16 sec 42 0;
          sec = wr32 sec 44 2;
          sec = wr16 sec 48 1;
          sec = wr16 sec 50 6;
          sec = sec[64 := 0x80, 66 := 0x29];
          sec = wr32 sec 67 0x12345678;
          sec = blit sec 71 (lit ''RONINOS    '');
          sec = blit sec 82 (lit ''FAT32   '')
      in sec[510 := 0x55, 511 := 0xAA])"

definition fsinfo_sector :: "u32 \<Rightarrow> u8 list" where
  "fsinfo_sector free_clusters =
     (let sec = wr32 zero_sector 0 0x41615252;
          sec = wr32 sec 484 0x61417272;
          sec = wr32 sec 488 free_clusters;
          sec = wr32 sec 492 3
      in sec[510 := 0x55, 511 := 0xAA])"

definition first_fat_sector :: "u8 list" where
  "first_fat_sector = wr32 (wr32 (wr32 zero_sector 0 0x0FFFFFF8) 4 FAT32_EOC) 8 FAT32_EOC"

definition format_writes :: "nat option \<Rightarrow> u32 \<Rightarrow> u32 \<Rightarrow> u32 \<Rightarrow> ('c, 'd) fat32 \<Rightarrow> (int \<times> ('c, 'd) fat32) res" where
  "format_writes dev nsec spf free_clusters w =
     or_fail (write_sec dev 0 (boot_sector nsec spf) w) ''write boot sector failed'' (\<lambda>_ w.
     or_fail (write_sec dev 1 (fsinfo_sector free_clusters) w) ''write fsinfo failed'' (\<lambda>_ w.
     or_fail (write_sec dev 2 (zero_sector[510 := 0x55, 511 := 0xAA]) w) ''write boot backup area failed'' (\<lambda>_ w.
     or_fail (read_sec dev 0 w) ''cannot read boot sector'' (\<lambda>sec w.
     or_fail (write_sec dev 6 sec w) ''write backup boot sector failed'' (\<lambda>_ w.
     or_fail (read_sec dev 1 w) ''read fsinfo for backup failed'' (\<lambda>sec w.
     or_fail (write_sec dev 7 sec w) ''write backup fsinfo failed'' (\<lambda>_ w.
     or_fail (write_sec dev 32 first_fat_sector w) ''write FAT #0 failed'' (\<lambda>_ w.
     or_fail (write_sec dev (32 + spf) first_fat_sector w) ''write FAT #1 failed'' (\<lambda>_ w.
     or_fail (write_sec dev (32 + 2 * spf) zero_sector w) ''write root directory cluster failed'' (\<lambda>_ w.
       Ok (0, fat32_set_error (Some (lit ''ok'')) w)))))))))))"

definition fat32_format :: "nat option \<Rightarrow> ('c, 'd) fat32 \<Rightarrow> (int \<times> ('c, 'd) fat32) res" where
  "fat32_format dev w =
     (let w = fat32_clear_error w
      in rbind (device_at dev w) (\<lambda>d.
           case d of
             None \<Rightarrow> give_up ''device missing read/write support'' w
           | Some d \<Rightarrow>
               if (case dv_bdev d of None \<Rightarrow> True | Some b \<Rightarrow> bd_read b = None \<or> bd_write b = None)
               then give_up ''device missing read/write support'' w
               else if dv_sector_size d \<noteq> 512 then give_up ''sector size must be 512 bytes'' w
               else if dv_total_sectors d < 256 then give_up ''disk too small'' w
               else
                 (case format_layout 8 (dv_total_sectors d) 1 of
                    None \<Rightarrow> give_up ''disk layout cannot fit FAT32 metadata'' w
                  | Some spf \<Rightarrow>
                      if dv_total_sectors d \<le> 32 + 2 * spf + 1
                      then give_up ''disk layout cannot fit FAT32 data area'' w
                      else
                        (let total_clusters = data_sectors (dv_total_sectors d) spf div 1
                         in if total_clusters < 2 then give_up ''not enough clusters'' w
                            else format_writes dev (dv_total_sectors d) spf (total_clusters - 1) w))))"

section \<open>Mounting\<close>

text \<open>
  \<open>fat32_mount\<close> fills in \<open>*fs\<close>, on some errors only in part. A boot sector with 0 sectors per cluster makes
  the division trap, and the exception handler of the kernel halts.
\<close>

definition fat32_mount ::
  "fat32_fs option \<Rightarrow> nat option \<Rightarrow> ('c, 'd) fat32 \<Rightarrow> (int \<times> fat32_fs option \<times> ('c, 'd) fat32) res" where
  "fat32_mount fs dev w =
     (let w = fat32_clear_error w;
          fail = (\<lambda>fs msg w. Ok (-1, fs, fat32_set_error (Some (lit msg)) w))
      in case fs of
           None \<Rightarrow> fail None ''mount arguments invalid'' w
         | Some fs0 \<Rightarrow>
             rbind (device_at dev w) (\<lambda>d.
               case d of
                 None \<Rightarrow> fail fs ''mount arguments invalid'' w
               | Some d \<Rightarrow>
                   if dv_sector_size d \<noteq> 512 then fail fs ''unsupported sector size'' w
                   else rbind (read_sec dev 0 w) (\<lambda>(r, w).
                     case r of
                       None \<Rightarrow> fail fs ''cannot read boot sector'' w
                     | Some sec \<Rightarrow>
                         if sec ! 510 \<noteq> 0x55 \<or> sec ! 511 \<noteq> 0xAA then fail fs ''boot signature missing'' w
                         else if rd16 sec 11 \<noteq> 512 then fail fs ''invalid bytes/sector in BPB'' w
                         else if rd16 sec 17 \<noteq> 0 then fail fs ''not a FAT32 BPB'' w
                         else
                           (let spc = ucast (sec ! 13); reserved = ucast (rd16 sec 14); fats = ucast (sec ! 16);
                                spf = rd32 sec 36; data_start = reserved + fats * spf;
                                fs1 = fs0\<lparr>fs_dev := dev, sectors_per_cluster := spc, reserved_sectors := reserved,
                                  fat_count := fats, sectors_per_fat := spf, root_cluster := rd32 sec 44,
                                  fat_start_lba := reserved, data_start_lba := data_start\<rparr>;
                                nsec = (if rd32 sec 32 = 0 then ucast (rd16 sec 19) else rd32 sec 32)
                            in if nsec \<le> data_start then fail (Some fs1) ''invalid layout: no data area'' w
                               else if spc = 0 then Fail (Panic ''EXCEPTION int=0 err=0'')
                               else
                                 (let fs2 = fs1\<lparr>total_clusters := (nsec - data_start) div spc\<rparr>
                                  in if total_clusters fs2 = 0 then fail (Some fs2) ''invalid cluster count'' w
                                     else Ok (0, Some fs2, fat32_set_error (Some (lit ''ok'')) w))))))"

section \<open>Files\<close>

text \<open>The entries a listing finds, at most \<open>room\<close> of them.\<close>

fun list_entries :: "u8 list \<Rightarrow> nat \<Rightarrow> nat list \<Rightarrow> fat32_dirent list" where
  "list_entries sec room [] = []"
| "list_entries sec room (i # offs) =
     (if room = 0 \<or> sec ! i = 0 then []
      else if sec ! i = 0xE5 then list_entries sec room offs
      else if sec ! (i + 11) AND 0x0F = 0x0F then list_entries sec room offs
      else \<lparr>fe_name83 = take 11 (drop i sec) @ [0], fe_size = rd32 sec (i + 28)\<rparr> # list_entries sec (room - 1) offs)"

text \<open>\<open>out\<close> is the caller's array; the result has the array and the count.\<close>

definition fat32_list_root ::
  "fat32_fs option \<Rightarrow> fat32_dirent list option \<Rightarrow> u32 \<Rightarrow> ('c, 'd) fat32 \<Rightarrow>
   (int \<times> (fat32_dirent list \<times> u32) option \<times> ('c, 'd) fat32) res" where
  "fat32_list_root fs out max_out w =
     (case (fs, out) of
        (Some fs, Some arr) \<Rightarrow>
          if max_out = 0 then Ok (-1, None, fat32_set_error (Some (lit ''invalid ls arguments'')) w)
          else rbind (read_sec (fs_dev fs) (cluster_to_lba fs (root_cluster fs)) w) (\<lambda>(r, w).
            case r of
              None \<Rightarrow> Ok (-1, None, fat32_set_error (Some (lit ''read root directory failed'')) w)
            | Some sec \<Rightarrow>
                (let es = list_entries sec (unat max_out) entry_offs
                 in if length es > length arr then Fail Wild
                    else Ok (0, Some (blit arr 0 es, of_nat (length es)), w)))
      | _ \<Rightarrow> Ok (-1, None, fat32_set_error (Some (lit ''invalid ls arguments'')) w))"

text \<open>
  The last part of \<open>fat32_write_file\<close>: \<open>sec\<close> is the directory sector at \<open>lba\<close>, \<open>off\<close> the entry to fill.
  Copying more than 512 bytes of data runs over the array \<open>sec\<close>.
\<close>

definition store_file ::
  "fat32_fs \<Rightarrow> u32 \<Rightarrow> u8 list \<Rightarrow> nat \<Rightarrow> u8 list \<Rightarrow> u8 list \<Rightarrow> u32 \<Rightarrow> ('c, 'd) fat32 \<Rightarrow> (int \<times> ('c, 'd) fat32) res" where
  "store_file fs lba sec off name83 data len w =
     or_fail (alloc_cluster fs w) ''no free cluster available'' (\<lambda>cluster w.
     or_fail (write_sec (fs_dev fs) lba (put_entry sec off name83 cluster len) w) ''write directory entry failed'' (\<lambda>_ w.
       if unat len > 512 \<or> unat len > length data then Fail Wild
       else
         or_fail (write_sec (fs_dev fs) (cluster_to_lba fs cluster) (blit zero_sector 0 (take (unat len) data)) w)
           ''write file data failed'' (\<lambda>_ w.
           Ok (0, fat32_set_error (Some (lit ''ok'')) w))))"

definition fat32_write_file ::
  "fat32_fs option \<Rightarrow> u8 list option \<Rightarrow> u8 list option \<Rightarrow> u32 \<Rightarrow> ('c, 'd) fat32 \<Rightarrow> (int \<times> ('c, 'd) fat32) res" where
  "fat32_write_file fs name data len w =
     (case (fs, data) of
        (Some fs, Some bytes) \<Rightarrow>
          if len > 512 * sectors_per_cluster fs then give_up ''file too large for current implementation'' w
          else
            (case make_name83 name of
               None \<Rightarrow> give_up ''invalid 8.3 filename'' w
             | Some name83 \<Rightarrow>
                 (let lba = cluster_to_lba fs (root_cluster fs)
                  in or_fail (read_sec (fs_dev fs) lba w) ''read root entry sector failed'' (\<lambda>sec w.
                     rbind (find_root_entry fs name83 w) (\<lambda>(found, w).
                       case found of
                         Some (lba, off) \<Rightarrow>
                           if entry_cluster sec off \<ge> 2 then
                             or_fail (fat_set fs (entry_cluster sec off) 0 w) ''free old cluster failed'' (\<lambda>_ w.
                               store_file fs lba sec off name83 bytes len w)
                           else store_file fs lba sec off name83 bytes len w
                       | None \<Rightarrow>
                           (case find (\<lambda>i. sec ! i = 0 \<or> sec ! i = 0xE5) entry_offs of
                              None \<Rightarrow> give_up ''root directory is full'' w
                            | Some off \<Rightarrow> store_file fs lba sec off name83 bytes len w)))))
      | _ \<Rightarrow> give_up ''invalid write arguments'' w)"

text \<open>\<open>out\<close> is the caller's buffer of \<open>out_cap\<close> bytes; the result has the buffer and the length.\<close>

definition fat32_read_file ::
  "fat32_fs option \<Rightarrow> u8 list option \<Rightarrow> u8 list option \<Rightarrow> u32 \<Rightarrow> ('c, 'd) fat32 \<Rightarrow>
   (int \<times> (u8 list \<times> u32) option \<times> ('c, 'd) fat32) res" where
  "fat32_read_file fs name out out_cap w =
     (let fail = (\<lambda>msg w. Ok (-1, None, fat32_set_error (Some (lit msg)) w))
      in case (fs, out) of
           (Some fs, Some buf) \<Rightarrow>
             if out_cap = 0 then fail ''invalid read arguments'' w
             else
               (case make_name83 name of
                  None \<Rightarrow> fail ''invalid 8.3 filename'' w
                | Some name83 \<Rightarrow>
                    rbind (find_root_entry fs name83 w) (\<lambda>(found, w).
                      case found of
                        None \<Rightarrow> fail ''file not found'' w
                      | Some (lba, off) \<Rightarrow>
                          rbind (read_sec (fs_dev fs) lba w) (\<lambda>(r, w).
                            case r of
                              None \<Rightarrow> fail ''read directory entry failed'' w
                            | Some sec \<Rightarrow>
                                (let len = rd32 sec (off + 28); cluster = entry_cluster sec off
                                 in if cluster < 2 then fail ''invalid file cluster'' w
                                    else if len + 1 > out_cap then fail ''output buffer too small'' w
                                    else rbind (read_sec (fs_dev fs) (cluster_to_lba fs cluster) w) (\<lambda>(r, w).
                                      case r of
                                        None \<Rightarrow> fail ''read file data failed'' w
                                      | Some sec \<Rightarrow>
                                          if unat len > 512 \<or> unat len \<ge> length buf then Fail Wild
                                          else Ok (0, Some (blit buf 0 (take (unat len) sec @ [0]), len),
                                                 fat32_set_error (Some (lit ''ok'')) w))))))
         | _ \<Rightarrow> fail ''invalid read arguments'' w)"

definition fat32_delete_file ::
  "fat32_fs option \<Rightarrow> u8 list option \<Rightarrow> ('c, 'd) fat32 \<Rightarrow> (int \<times> ('c, 'd) fat32) res" where
  "fat32_delete_file fs name w =
     (case fs of
        None \<Rightarrow> give_up ''invalid delete arguments'' w
      | Some fs \<Rightarrow>
          (case make_name83 name of
             None \<Rightarrow> give_up ''invalid 8.3 filename'' w
           | Some name83 \<Rightarrow>
               or_fail (find_root_entry fs name83 w) ''file not found'' (\<lambda>(lba, off) w.
               or_fail (read_sec (fs_dev fs) lba w) ''read directory entry failed'' (\<lambda>sec w.
                 let mark = (\<lambda>w. or_fail (write_sec (fs_dev fs) lba (sec[off := 0xE5]) w) ''write delete marker failed''
                               (\<lambda>_ w. Ok (0, fat32_set_error (Some (lit ''ok'')) w)))
                 in if entry_cluster sec off \<ge> 2
                    then or_fail (fat_set fs (entry_cluster sec off) 0 w) ''free cluster failed'' (\<lambda>_. mark)
                    else mark w))))"

end
