(* ===== verification/App_Fat32.thy ===== *)
theory App_Fat32
  imports Console_Text Fat32
begin

text \<open>
  The \<open>fat32\<close> command (\<open>kernel/apps/app_fat32.c\<close>): the selected device, an index into the registry, and
  the driver below. The \<open>fat32_device_t\<close> objects it makes are local variables; each is the object at address
  0 of the driver's world while the function that declares it runs, and dead afterwards.
\<close>

section \<open>State\<close>

record ('c, 'd) fat32_app =
  fa_fat :: "('c, 'd) fat32"
  fa_reg :: "('c, 'd) registry"
  g_selected :: "nat option"
  g_mounted :: bool
  fa_out :: "u8 list"

definition say :: "u8 list \<Rightarrow> ('c, 'd) fat32_app \<Rightarrow> ('c, 'd) fat32_app" where
  "say s a = a\<lparr>fa_out := fa_out a @ s\<rparr>"

text \<open>The address of a local device, and the end of its scope.\<close>

abbreviation (input) local_dev :: nat where "local_dev \<equiv> 0"

definition end_scope :: "('c, 'd) fat32_app \<Rightarrow> ('c, 'd) fat32_app" where
  "end_scope a = a\<lparr>fa_fat := (fa_fat a)\<lparr>devices := (devices (fa_fat a))(local_dev := None)\<rparr>\<rparr>"

text \<open>A local \<open>fat32_fs_t\<close> before it is mounted: its contents are arbitrary, and overwritten by a mount.\<close>

definition uninit_fs :: fat32_fs where
  "uninit_fs = \<lparr>fs_dev = None, sectors_per_cluster = 0, reserved_sectors = 0, fat_count = 0, sectors_per_fat = 0,
     root_cluster = 0, fat_start_lba = 0, data_start_lba = 0, total_clusters = 0\<rparr>"

section \<open>Helpers\<close>

definition print_capacity :: "u32 \<Rightarrow> u32 \<Rightarrow> u8 list" where
  "print_capacity ssize scount =
     (if ssize = 0 then lit ''0.00 MiB''
      else (let whole_mib = (scount div 2048) * (ssize div 512);
                frac = ((scount mod 2048) * 100) div 2048
            in print_u32 whole_mib @ lit ''.'' @ [48 + ucast (frac div 10), 48 + ucast (frac mod 10)] @ lit '' MiB''))"

definition usage :: "u8 list" where
  "usage = line ''fat32 select <disk>'' @ line ''fat32 format [disk] --yes'' @ line ''fat32 mount'' @
     line ''fat32 info'' @ line ''fat32 ls'' @ line ''fat32 write <NAME.EXT> <text>'' @
     line ''fat32 edit <NAME.EXT> <text>'' @ line ''fat32 cat <NAME.EXT>'' @ line ''fat32 rm <NAME.EXT>'' @
     line ''fat32 log''"

text \<open>The lines that report a failure of the driver.\<close>

definition report :: "string \<Rightarrow> ('c, 'd) fat32_app \<Rightarrow> ('c, 'd) fat32_app" where
  "report what a = say (line what @ lit ''reason: '' @ fat32_last_error (fa_fat a) @ [ch_nl]) a"

definition selected_dev :: "nat \<Rightarrow> ('c, 'd) fat32_app \<Rightarrow> ('c, 'd) blockdev" where
  "selected_dev i a = blockdevs (fa_reg a) ! i"

definition build_selected_dev :: "nat \<Rightarrow> ('c, 'd) fat32_app \<Rightarrow> int \<times> ('c, 'd) fat32_app" where
  "build_selected_dev dev a =
     (case g_selected a of
        None \<Rightarrow> (-1, say (line ''no device selected'') a)
      | Some i \<Rightarrow>
          (case fat32_device_from_blockdev (Some dev) (Some (selected_dev i a)) (fa_fat a) of
             (rc, w) \<Rightarrow>
               if rc \<noteq> 0 then (-1, say (line ''unable to use selected device'') (a\<lparr>fa_fat := w\<rparr>))
               else (0, a\<lparr>fa_fat := w\<rparr>)))"

text \<open>\<open>ensure_mounted\<close> mounts through a device that is a local variable of its own.\<close>

definition ensure_mounted :: "fat32_fs \<Rightarrow> ('c, 'd) fat32_app \<Rightarrow> (int \<times> fat32_fs \<times> ('c, 'd) fat32_app) res" where
  "ensure_mounted fs a =
     (case build_selected_dev local_dev a of
        (rc, a) \<Rightarrow>
          if rc \<noteq> 0 then Ok (-1, fs, end_scope a)
          else rbind (fat32_mount (Some fs) (Some local_dev) (fa_fat a)) (\<lambda>(rc, fs', w).
            let a = a\<lparr>fa_fat := w\<rparr>; fs = (case fs' of None \<Rightarrow> fs | Some f \<Rightarrow> f)
            in if rc \<noteq> 0 then Ok (-1, fs, end_scope (report ''mount failed'' (a\<lparr>g_mounted := False\<rparr>)))
               else Ok (0, fs, end_scope (a\<lparr>g_mounted := True\<rparr>))))"

section \<open>Commands\<close>

definition cmd_select :: "u8 list option \<Rightarrow> ('c, 'd) fat32_app \<Rightarrow> int \<times> ('c, 'd) fat32_app" where
  "cmd_select name a =
     (case block_find name (fa_reg a) of
        None \<Rightarrow> (1, say (line ''device not found'') a)
      | Some i \<Rightarrow>
          (0, say (lit ''selected: '' @ c_text (bd_name (selected_dev i a)) @ [ch_nl])
             (a\<lparr>g_selected := Some i, g_mounted := False\<rparr>)))"

text \<open>The loop over the arguments of \<open>format\<close>: whether \<open>--yes\<close> is one, and the first other one.\<close>

fun format_args :: "u8 list list \<Rightarrow> bool \<times> u8 list option \<Rightarrow> bool \<times> u8 list option" where
  "format_args [] r = r"
| "format_args (arg # args) (yes, disk) =
     (if streq arg (lit ''--yes'') then format_args args (True, disk)
      else if disk = None then format_args args (yes, Some arg)
      else format_args args (yes, disk))"

definition cmd_format :: "u8 list list \<Rightarrow> ('c, 'd) fat32_app \<Rightarrow> (int \<times> ('c, 'd) fat32_app) res" where
  "cmd_format argv a =
     (let (yes, disk) = format_args (drop 2 argv) (False, None);
          (rc, a) = (case disk of None \<Rightarrow> (0, a) | Some nm \<Rightarrow> cmd_select (Some nm) a)
      in if rc \<noteq> 0 then Ok (1, a)
         else
           (case g_selected a of
              None \<Rightarrow> Ok (1, say (line ''no device selected'') a)
            | Some i \<Rightarrow>
                if \<not> yes then
                  Ok (1, say (lit ''refusing to format without confirmation. use: fat32 format '' @
                    c_text (bd_name (selected_dev i a)) @ line '' --yes'') a)
                else if bd_write (selected_dev i a) = None then
                  Ok (1, say (line ''device is read-only / write not supported'') a)
                else
                  (case build_selected_dev local_dev a of
                     (rc, a) \<Rightarrow>
                       if rc \<noteq> 0 then Ok (1, end_scope a)
                       else if (case devices (fa_fat a) local_dev of None \<Rightarrow> True | Some d \<Rightarrow> dv_sector_size d \<noteq> 512) then
                         Ok (1, end_scope (say (line ''unsupported sector size'') a))
                       else rbind (fat32_format (Some local_dev) (fa_fat a)) (\<lambda>(rc, w).
                         let a = a\<lparr>fa_fat := w\<rparr>
                         in if rc \<noteq> 0 then Ok (1, end_scope (report ''format failed'' a))
                            else Ok (0, end_scope (say (lit ''fat32 formatted on '' @
                                   c_text (bd_name (selected_dev i a)) @ [ch_nl]) (a\<lparr>g_mounted := False\<rparr>)))))))"

definition cmd_info :: "('c, 'd) fat32_app \<Rightarrow> (int \<times> ('c, 'd) fat32_app) res" where
  "cmd_info a =
     (case g_selected a of
        None \<Rightarrow> Ok (1, say (line ''no device selected'') a)
      | Some i \<Rightarrow>
          (case build_selected_dev local_dev a of
             (rc, a) \<Rightarrow>
               if rc \<noteq> 0 then Ok (1, end_scope a)
               else
                 (let d = selected_dev i a;
                      a = say (lit ''selected device: '' @ c_text (bd_name d) @ [ch_nl] @ lit ''type: '' @
                        block_type_name (bd_type d) @ [ch_nl] @ lit ''sector size: '' @ print_u32 (bd_sector_size d) @
                        [ch_nl] @ lit ''sector count: '' @ print_u32 (bd_sector_count d) @ [ch_nl] @ lit ''capacity: '' @
                        print_capacity (bd_sector_size d) (bd_sector_count d) @ [ch_nl]) a
                  in rbind (fat32_mount (Some uninit_fs) (Some local_dev) (fa_fat a)) (\<lambda>(rc, fs, w).
                       let a = a\<lparr>fa_fat := w\<rparr>
                       in case (rc = 0, fs) of
                            (True, Some fs) \<Rightarrow>
                              Ok (0, end_scope (say (line ''formatted: yes'' @ line ''mounted: yes'' @ lit ''bytes/sector: '' @
                                print_u32 (bd_sector_size d) @ [ch_nl] @ lit ''sectors/cluster: '' @
                                print_u32 (sectors_per_cluster fs) @ [ch_nl] @ lit ''reserved sectors: '' @
                                print_u32 (reserved_sectors fs) @ [ch_nl] @ lit ''fat count: '' @ print_u32 (fat_count fs) @
                                [ch_nl] @ lit ''fat sectors: '' @ print_u32 (sectors_per_fat fs) @ [ch_nl] @
                                lit ''root cluster: '' @ print_u32 (root_cluster fs) @ [ch_nl]) (a\<lparr>g_mounted := True\<rparr>)))
                          | _ \<Rightarrow> Ok (0, end_scope (say (line ''formatted: no'' @ line ''mounted: no'') (a\<lparr>g_mounted := False\<rparr>)))))))"

text \<open>\<open>if (ensure_mounted(&fs) != 0) return 1;\<close> followed by \<open>k\<close>.\<close>

definition with_mounted ::
  "('c, 'd) fat32_app \<Rightarrow> (fat32_fs \<Rightarrow> ('c, 'd) fat32_app \<Rightarrow> (int \<times> ('c, 'd) fat32_app) res) \<Rightarrow>
   (int \<times> ('c, 'd) fat32_app) res" where
  "with_mounted a k = rbind (ensure_mounted uninit_fs a) (\<lambda>(rc, fs, a). if rc \<noteq> 0 then Ok (1, a) else k fs a)"

definition cmd_ls :: "('c, 'd) fat32_app \<Rightarrow> (int \<times> ('c, 'd) fat32_app) res" where
  "cmd_ls a =
     with_mounted a (\<lambda>fs a.
       rbind (fat32_list_root (Some fs) (Some (replicate 16 \<lparr>fe_name83 = replicate 12 0, fe_size = 0\<rparr>)) 16 (fa_fat a))
         (\<lambda>(rc, r, w).
           let a = a\<lparr>fa_fat := w\<rparr>
           in case (rc = 0, r) of
                (True, Some (entries, count)) \<Rightarrow>
                  if count = 0 then Ok (0, say (line ''root empty'') a)
                  else Ok (0, say (concat (map (\<lambda>e. c_text (fe_name83 e) @ lit '' ('' @ print_u32 (fe_size e) @ line '' B)'')
                                     (take (unat count) entries))) a)
              | _ \<Rightarrow> Ok (1, report ''ls failed'' a)))"

definition cmd_write :: "u8 list \<Rightarrow> u8 list \<Rightarrow> ('c, 'd) fat32_app \<Rightarrow> (int \<times> ('c, 'd) fat32_app) res" where
  "cmd_write name contents a =
     with_mounted a (\<lambda>fs a.
       rbind (fat32_write_file (Some fs) (Some name) (Some contents) (of_nat (strlen contents)) (fa_fat a)) (\<lambda>(rc, w).
         let a = a\<lparr>fa_fat := w\<rparr>
         in if rc \<noteq> 0 then Ok (1, report ''write failed (name must be 8.3, data <= 512 bytes)'' a) else Ok (0, a)))"

definition cmd_rm :: "u8 list \<Rightarrow> ('c, 'd) fat32_app \<Rightarrow> (int \<times> ('c, 'd) fat32_app) res" where
  "cmd_rm name a =
     with_mounted a (\<lambda>fs a.
       rbind (fat32_delete_file (Some fs) (Some name) (fa_fat a)) (\<lambda>(rc, w).
         let a = a\<lparr>fa_fat := w\<rparr>
         in if rc \<noteq> 0 then Ok (1, report ''delete failed'' a) else Ok (0, a)))"

definition cmd_cat :: "u8 list \<Rightarrow> ('c, 'd) fat32_app \<Rightarrow> (int \<times> ('c, 'd) fat32_app) res" where
  "cmd_cat name a =
     with_mounted a (\<lambda>fs a.
       rbind (fat32_read_file (Some fs) (Some name) (Some (replicate 513 0)) 513 (fa_fat a)) (\<lambda>(rc, r, w).
         let a = a\<lparr>fa_fat := w\<rparr>
         in case (rc = 0, r) of
              (True, Some (buf, len)) \<Rightarrow> Ok (0, say (c_text buf @ [ch_nl]) a)
            | _ \<Rightarrow> Ok (1, report ''read failed'' a)))"

text \<open>The arguments are the texts of \<open>argv\<close>.\<close>

definition app_fat32_main :: "u8 list list \<Rightarrow> ('c, 'd) fat32_app \<Rightarrow> (int \<times> ('c, 'd) fat32_app) res" where
  "app_fat32_main argv a =
     (let argc = length argv; cmd = (\<lambda>s. streq (argv ! 1) (lit s))
      in if argc < 2 then Ok (1, say usage a)
         else if cmd ''select'' then
           (if argc < 3 then Ok (1, say (line ''usage: fat32 select <disk>'') a) else Ok (cmd_select (Some (argv ! 2)) a))
         else if cmd ''format'' then cmd_format argv a
         else if cmd ''mount'' then with_mounted a (\<lambda>fs a. Ok (0, say (line ''mount ok'') a))
         else if cmd ''info'' then cmd_info a
         else if cmd ''ls'' then cmd_ls a
         else if cmd ''write'' \<or> cmd ''edit'' then
           (if argc < 4 then Ok (1, say (line ''usage: fat32 write|edit <NAME.EXT> <text>'') a)
            else cmd_write (argv ! 2) (argv ! 3) a)
         else if cmd ''rm'' then
           (if argc < 3 then Ok (1, say (line ''usage: fat32 rm <NAME.EXT>'') a) else cmd_rm (argv ! 2) a)
         else if cmd ''cat'' then
           (if argc < 3 then Ok (1, say (line ''usage: fat32 cat <NAME.EXT>'') a) else cmd_cat (argv ! 2) a)
         else if cmd ''log'' then
           Ok (0, say (lit ''fat32 last error: '' @ fat32_last_error (fa_fat a) @ [ch_nl]) a)
         else Ok (1, say usage a))"

end
