(* ===== verification/Fat32_Laws.thy ===== *)
theory Fat32_Laws
  imports Fat32
begin

text \<open>
  The facts the properties of the FAT32 driver rest on: little-endian numbers in a sector, the calls on a
  device that stores sectors, the layout of the tables on the disk, the allocation table as a function of
  the cluster, the root directory as a set of entries.
\<close>

lemma find_SomeD: "find P xs = Some x \<Longrightarrow> x \<in> set xs \<and> P x"
  by (auto simp: find_Some_iff)

lemma find_NoneD: "find P xs = None \<Longrightarrow> x \<in> set xs \<Longrightarrow> \<not> P x"
  by (simp add: find_None_iff)

lemma unat_of_nat32: "n < 4294967296 \<Longrightarrow> unat (of_nat n :: u32) = n"
  by (simp add: unat_of_nat take_bit_nat_eq_self)

section \<open>Little-endian numbers in a sector\<close>

lemma length_wr [simp]: "length (wr16 p i v) = length p" "length (wr32 p i u) = length p"
  by (simp_all add: wr16_def wr32_def)

lemma nth_wr16: "k \<noteq> i \<Longrightarrow> k \<noteq> i + 1 \<Longrightarrow> wr16 p i v ! k = p ! k"
  by (simp add: wr16_def nth_list_update)

lemma nth_wr32: "k < i \<or> i + 4 \<le> k \<Longrightarrow> wr32 p i v ! k = p ! k"
  by (auto simp: wr32_def nth_list_update)

lemma byte_masks: "(0xFF :: u16) = mask 8" "(0xFF :: u32) = mask 8" "(0xFFFF :: u32) = mask 16"
  by (simp_all add: mask_eq_exp_minus_1)

lemma join_bytes:
  "ucast (ucast (v AND 0xFF) :: u8) OR push_bit 8 (ucast (ucast (drop_bit 8 v AND 0xFF) :: u8)) = (v :: u16)"
  "ucast (ucast (u AND 0xFF) :: u8) OR push_bit 8 (ucast (ucast (drop_bit 8 u AND 0xFF) :: u8)) OR
   push_bit 16 (ucast (ucast (drop_bit 16 u AND 0xFF) :: u8)) OR
   push_bit 24 (ucast (ucast (drop_bit 24 u AND 0xFF) :: u8)) = (u :: u32)"
proof -
  show "ucast (ucast (v AND 0xFF) :: u8) OR push_bit 8 (ucast (ucast (drop_bit 8 v AND 0xFF) :: u8)) = (v :: u16)"
    unfolding byte_masks by (rule bit_word_eqI) (auto simp: bit_simps)
  show "ucast (ucast (u AND 0xFF) :: u8) OR push_bit 8 (ucast (ucast (drop_bit 8 u AND 0xFF) :: u8)) OR
     push_bit 16 (ucast (ucast (drop_bit 16 u AND 0xFF) :: u8)) OR
     push_bit 24 (ucast (ucast (drop_bit 24 u AND 0xFF) :: u8)) = (u :: u32)" (is "?l = u")
  proof (rule bit_word_eqI)
    fix n assume "n < LENGTH(32)"
    then consider "n < 8" | "8 \<le> n" "n < 16" | "16 \<le> n" "n < 24" | "24 \<le> n" "n < 32" by force
    then show "bit ?l n = bit u n"
      unfolding byte_masks by cases (simp_all add: bit_simps less_diff_conv2)
  qed
qed

lemma join_halves:
  "push_bit 16 (ucast (ucast (drop_bit 16 c AND 0xFFFF) :: u16)) OR ucast (ucast (c AND 0xFFFF) :: u16) = (c :: u32)"
  unfolding byte_masks by (rule bit_word_eqI) (auto simp: bit_simps)

lemma rd16_wr16: "i + 1 < length p \<Longrightarrow> rd16 (wr16 p i v) i = v"
  by (simp add: rd16_def wr16_def nth_list_update join_bytes)

lemma rd32_wr32: "i + 3 < length p \<Longrightarrow> rd32 (wr32 p i v) i = v"
  by (simp add: rd32_def wr32_def nth_list_update join_bytes)

lemma rd16_cong: "p ! i = q ! i \<Longrightarrow> p ! (i + 1) = q ! (i + 1) \<Longrightarrow> rd16 p i = rd16 q i"
  by (simp add: rd16_def)

lemma rd32_cong:
  assumes "\<And>k. k < 4 \<Longrightarrow> p ! (i + k) = q ! (i + k)"
  shows "rd32 p i = rd32 q i"
  using assms [of 0] assms [of 1] assms [of 2] assms [of 3] by (simp add: rd32_def)

section \<open>Calls on a device that stores sectors\<close>

text \<open>
  The object at \<open>dev\<close> is a device that stores sectors, with contents \<open>C\<close> at the moment.
\<close>

definition at_disk ::
  "nat option \<Rightarrow> ('c, 'd) blockdev \<Rightarrow> ('d \<Rightarrow> bool) \<Rightarrow> ('d \<Rightarrow> u32 \<Rightarrow> u8 list) \<Rightarrow> (u32 \<Rightarrow> u8 list) \<Rightarrow>
   ('c, 'd) fat32 \<Rightarrow> bool" where
  "at_disk dev b good content C w \<longleftrightarrow>
     (\<exists>p d. dev = Some p \<and> devices w p = Some d \<and> dv_bdev d = Some b \<and> dv_sector_size d = 512 \<and>
        dv_total_sectors d = bd_sector_count b) \<and>
     sector_store b good content \<and> good (hw w) \<and> content (hw w) = C"

lemma at_disk_error [simp]: "at_disk dev b good content C (fat32_set_error m w) \<longleftrightarrow> at_disk dev b good content C w"
  by (simp add: at_disk_def fat32_set_error_def Let_def)

lemma at_disk_length: "at_disk dev b good content C w \<Longrightarrow> lba < bd_sector_count b \<Longrightarrow> length (C lba) = 512"
  unfolding at_disk_def sector_store_def by (metis length_replicate)

lemma sector_storeD:
  assumes "sector_store b good content" and "good d" and "lba < bd_sector_count b" and "length buf = 512"
  shows "\<exists>rd h. bd_read b = Some rd \<and> rd (bd_info.truncate b) lba 1 (Some buf) d = Ok (0, Some (content d lba), h) \<and>
      good h \<and> content h = content d"
    and "\<exists>wr h. bd_write b = Some wr \<and> wr (bd_info.truncate b) lba 1 (Some buf) d = Ok (0, h) \<and>
      good h \<and> content h = (content d)(lba := buf)"
  using assms unfolding sector_store_def by fast+

lemma read_sec_at:
  assumes "at_disk dev b good content C w" and "lba < bd_sector_count b"
  shows "\<exists>w'. read_sec dev lba w = Ok (Some (C lba), w') \<and> at_disk dev b good content C w'"
proof -
  obtain p d where d: "dev = Some p" "devices w p = Some d" "dv_bdev d = Some b"
      and st: "sector_store b good content" "good (hw w)" and C: "content (hw w) = C"
    using assms(1) by (auto simp: at_disk_def)
  obtain rd h where r: "bd_read b = Some rd"
      "rd (bd_info.truncate b) lba 1 (Some zero_sector) (hw w) = Ok (0, Some (C lba), h)" "good h" "content h = C"
    using sector_storeD(1) [OF st assms(2), of zero_sector] C by auto
  have "read_sec dev lba w = Ok (Some (C lba), w\<lparr>hw := h\<rparr>)"
    using d r(1,2) by (simp add: read_sec_def fat32_io_read_def device_at_def)
  then show ?thesis using assms(1) r(3,4) by (auto simp: at_disk_def)
qed

lemma write_sec_at:
  assumes "at_disk dev b good content C w" and "lba < bd_sector_count b" and "length sec = 512"
  shows "\<exists>w'. write_sec dev lba sec w = Ok (Some (), w') \<and> at_disk dev b good content (C(lba := sec)) w'"
proof -
  obtain p d where d: "dev = Some p" "devices w p = Some d" "dv_bdev d = Some b"
      and st: "sector_store b good content" "good (hw w)" and C: "content (hw w) = C"
    using assms(1) by (auto simp: at_disk_def)
  obtain wr h where r: "bd_write b = Some wr"
      "wr (bd_info.truncate b) lba 1 (Some sec) (hw w) = Ok (0, h)" "good h" "content h = C(lba := sec)"
    using sector_storeD(2) [OF st assms(2,3)] C by auto
  have "write_sec dev lba sec w = Ok (Some (), w\<lparr>hw := h\<rparr>)"
    using d r(1,2) by (simp add: write_sec_def fat32_io_write_def device_at_def)
  then show ?thesis using assms(1) r(3,4) by (auto simp: at_disk_def)
qed

section \<open>Layout\<close>

text \<open>
  The areas of a mounted file system: the boot sectors, the copies of the allocation table, which has an
  entry for every cluster, and the data area, all on the disk of \<open>n\<close> sectors. Clusters are numbered from 2;
  as in FAT32, their numbers have 28 bits.
\<close>

definition fat32_layout :: "fat32_fs \<Rightarrow> nat \<Rightarrow> bool" where
  "fat32_layout fs n \<longleftrightarrow>
     n < 2 ^ 32 \<and> 1 \<le> unat (sectors_per_cluster fs) \<and> unat (sectors_per_cluster fs) < 2 ^ 8 \<and> 1 \<le> unat (fat_count fs) \<and> 1 \<le> unat (fat_start_lba fs) \<and>
     unat (fat_start_lba fs) + unat (fat_count fs) * unat (sectors_per_fat fs) \<le> unat (data_start_lba fs) \<and>
     unat (total_clusters fs) + 2 < 2 ^ 28 \<and> (unat (total_clusters fs) + 2) * 4 \<le> 512 * unat (sectors_per_fat fs) \<and>
     unat (data_start_lba fs) + unat (total_clusters fs) * unat (sectors_per_cluster fs) \<le> n \<and>
     2 \<le> unat (root_cluster fs) \<and> unat (root_cluster fs) < unat (total_clusters fs) + 2"

definition is_cluster :: "fat32_fs \<Rightarrow> u32 \<Rightarrow> bool" where
  "is_cluster fs c \<longleftrightarrow> 2 \<le> unat c \<and> unat c < unat (total_clusters fs) + 2"

lemma layout_root: "fat32_layout fs n \<Longrightarrow> is_cluster fs (root_cluster fs)"
  by (simp add: fat32_layout_def is_cluster_def)

lemma fat_pos:
  assumes "fat32_layout fs n" and "unat c < unat (total_clusters fs) + 2"
  shows "unat (fat_lba fs c) = unat (fat_start_lba fs) + unat c div 128"
    and "fat_off c = 4 * (unat c mod 128)"
    and "unat c div 128 < unat (sectors_per_fat fs)"
proof -
  note L = assms(1) [unfolded fat32_layout_def]
  have c4: "unat (c * 4) = unat c * 4"
    using L assms(2) by (simp add: unat_word_ariths)
  have "(unat (total_clusters fs) + 2) * 4 \<le> 512 * unat (sectors_per_fat fs)" using L by simp
  then show q: "unat c div 128 < unat (sectors_per_fat fs)" using assms(2) by (simp add: div_less_iff_less_mult)
  have q1: "unat (sectors_per_fat fs) \<le> unat (fat_count fs) * unat (sectors_per_fat fs)" using L by simp
  have "unat ((c * 4) div 512) = unat c div 128"
    by (simp add: unat_div c4)
  moreover have "unat (fat_start_lba fs) + unat c div 128 < 2 ^ 32" using L q q1 by linarith
  ultimately show "unat (fat_lba fs c) = unat (fat_start_lba fs) + unat c div 128"
    by (simp add: fat_lba_def unat_word_ariths)
  have "unat c * 4 mod 512 = 4 * (unat c mod 128)" using mult_mod_right [of 4 "unat c" 128] by (simp add: mult.commute)
  then show "fat_off c = 4 * (unat c mod 128)" by (simp add: fat_off_def unat_mod c4)
qed

text \<open>The copy \<open>f\<close> of a sector of the table.\<close>

lemma fat_copy_pos:
  assumes L: "fat32_layout fs n" and "unat c < unat (total_clusters fs) + 2" and "f < unat (fat_count fs)"
  shows "unat (fat_lba fs c + of_nat f * sectors_per_fat fs) =
      unat (fat_start_lba fs) + unat c div 128 + f * unat (sectors_per_fat fs)"
    and "unat (fat_start_lba fs) + unat c div 128 + f * unat (sectors_per_fat fs) < unat (data_start_lba fs)"
proof -
  note L' = L [unfolded fat32_layout_def]
  note P = fat_pos [OF assms(1,2)]
  have "Suc f * unat (sectors_per_fat fs) \<le> unat (fat_count fs) * unat (sectors_per_fat fs)"
    using assms(3) by (intro mult_le_mono1) simp
  then show lt: "unat (fat_start_lba fs) + unat c div 128 + f * unat (sectors_per_fat fs) < unat (data_start_lba fs)"
    using L' P(3) by simp
  have f: "unat (of_nat f :: u32) = f"
    using order.strict_trans [OF assms(3) unat_u32_lt] by (rule unat_of_nat32)
  have "unat (data_start_lba fs) < 2 ^ 32" using unat_u32_lt [of "data_start_lba fs"] by simp
  then have lt2: "unat (fat_start_lba fs) + unat c div 128 + f * unat (sectors_per_fat fs) < 2 ^ 32" using lt by linarith
  then have "unat (of_nat f * sectors_per_fat fs) = f * unat (sectors_per_fat fs)"
    using f by (simp add: unat_word_ariths)
  then show "unat (fat_lba fs c + of_nat f * sectors_per_fat fs) =
      unat (fat_start_lba fs) + unat c div 128 + f * unat (sectors_per_fat fs)"
    using lt2 P(1) by (simp add: unat_word_ariths)
qed

lemma cluster_pos:
  assumes L: "fat32_layout fs n" and "is_cluster fs c"
  shows "unat (cluster_to_lba fs c) = unat (data_start_lba fs) + (unat c - 2) * unat (sectors_per_cluster fs)"
    and "unat (cluster_to_lba fs c) < n" and "unat (data_start_lba fs) \<le> unat (cluster_to_lba fs c)"
proof -
  note L' = L [unfolded fat32_layout_def]
  have c: "2 \<le> unat c" "unat c < unat (total_clusters fs) + 2" using assms(2) by (simp_all add: is_cluster_def)
  have "Suc (unat c - 2) * unat (sectors_per_cluster fs) \<le> unat (total_clusters fs) * unat (sectors_per_cluster fs)"
    using c by (intro mult_le_mono1) simp
  then have lt: "unat (data_start_lba fs) + (unat c - 2) * unat (sectors_per_cluster fs) < n" using L' by simp
  have c2: "unat (c - 2) = unat c - 2"
    using c(1) by (subst unat_sub) (simp_all add: word_le_nat_alt)
  have "(unat c - 2) * unat (sectors_per_cluster fs) < 2 ^ 32" using lt L' by linarith
  then have "unat ((c - 2) * sectors_per_cluster fs) = (unat c - 2) * unat (sectors_per_cluster fs)"
    using c2 by (simp add: unat_word_ariths)
  then show eq: "unat (cluster_to_lba fs c) = unat (data_start_lba fs) + (unat c - 2) * unat (sectors_per_cluster fs)"
    using lt L' by (simp add: cluster_to_lba_def unat_word_ariths)
  then show "unat (cluster_to_lba fs c) < n" and "unat (data_start_lba fs) \<le> unat (cluster_to_lba fs c)"
    using lt by simp_all
qed

lemma cluster_inj:
  assumes "fat32_layout fs n" and "is_cluster fs c" and "is_cluster fs c'"
  shows "cluster_to_lba fs c = cluster_to_lba fs c' \<longleftrightarrow> c = c'"
proof
  assume "cluster_to_lba fs c = cluster_to_lba fs c'"
  then have "(unat c - 2) * unat (sectors_per_cluster fs) = (unat c' - 2) * unat (sectors_per_cluster fs)"
    using cluster_pos(1) [OF assms(1,2)] cluster_pos(1) [OF assms(1,3)] by (metis add_left_cancel)
  moreover have "0 < unat (sectors_per_cluster fs)" using assms(1) by (simp add: fat32_layout_def)
  ultimately have "unat c - 2 = unat c' - 2" using mult_right_cancel by blast
  then show "c = c'" using assms(2,3) by (auto simp: is_cluster_def word_unat_eq_iff)
qed simp

section \<open>The allocation table\<close>

text \<open>The entry of a cluster, read from the first copy, and the disk after a write of the entry.\<close>

definition fat_entry :: "fat32_fs \<Rightarrow> (u32 \<Rightarrow> u8 list) \<Rightarrow> u32 \<Rightarrow> u32" where
  "fat_entry fs C c = rd32 (C (fat_lba fs c)) (fat_off c) AND 0x0FFFFFFF"

definition fat_update :: "fat32_fs \<Rightarrow> u32 \<Rightarrow> u32 \<Rightarrow> (u32 \<Rightarrow> u8 list) \<Rightarrow> u32 \<Rightarrow> u8 list" where
  "fat_update fs c v C l =
     (if \<exists>f\<in>set [0..<unat (fat_count fs)]. l = fat_lba fs c + of_nat f * sectors_per_fat fs
      then wr32 (C (fat_lba fs c)) (fat_off c) v else C l)"

lemma fat_get_at:
  assumes "at_disk (fs_dev fs) b good content C w" and "fat32_layout fs (unat (bd_sector_count b))"
    and "unat c < unat (total_clusters fs) + 2"
  shows "\<exists>w'. fat_get fs c w = Ok (fat_entry fs C c, w') \<and> at_disk (fs_dev fs) b good content C w'"
proof -
  have "0 < unat (fat_count fs)" using assms(2) by (simp add: fat32_layout_def)
  from fat_copy_pos [OF assms(2,3) this] assms(2) have "fat_lba fs c < bd_sector_count b"
    by (simp add: word_less_nat_alt fat32_layout_def)
  from read_sec_at [OF assms(1) this] show ?thesis by (auto simp: fat_get_def fat_entry_def)
qed

lemma write_fats_at:
  assumes "at_disk (fs_dev fs) b good content C w" and "length sec = 512"
    and "\<forall>f\<in>set fats. lba + of_nat f * sectors_per_fat fs < bd_sector_count b"
  shows "\<exists>w'. write_fats fs lba sec fats w = Ok (Some (), w') \<and>
    at_disk (fs_dev fs) b good content
      (\<lambda>l. if \<exists>f\<in>set fats. l = lba + of_nat f * sectors_per_fat fs then sec else C l) w'"
  using assms
proof (induction fats arbitrary: C w)
  case Nil
  then show ?case by simp
next
  case (Cons f fats)
  let ?l = "lba + of_nat f * sectors_per_fat fs"
  obtain w1 where w1: "write_sec (fs_dev fs) ?l sec w = Ok (Some (), w1)"
      "at_disk (fs_dev fs) b good content (C(?l := sec)) w1"
    using write_sec_at [OF Cons.prems(1) _ Cons.prems(2), of ?l] Cons.prems(3) by auto
  obtain w2 where w2: "write_fats fs lba sec fats w1 = Ok (Some (), w2)"
      "at_disk (fs_dev fs) b good content
        (\<lambda>l. if \<exists>f\<in>set fats. l = lba + of_nat f * sectors_per_fat fs then sec else (C(?l := sec)) l) w2"
    using Cons.IH [OF w1(2) Cons.prems(2)] Cons.prems(3) by auto
  have "(\<lambda>l. if \<exists>f\<in>set fats. l = lba + of_nat f * sectors_per_fat fs then sec else (C(?l := sec)) l) =
      (\<lambda>l. if \<exists>f\<in>set (f # fats). l = lba + of_nat f * sectors_per_fat fs then sec else C l)"
    by (auto simp: fun_eq_iff)
  with w2(2) have "at_disk (fs_dev fs) b good content
      (\<lambda>l. if \<exists>f\<in>set (f # fats). l = lba + of_nat f * sectors_per_fat fs then sec else C l) w2" by simp
  then show ?case using w1(1) w2(1) by simp
qed

lemma fat_set_at:
  assumes "at_disk (fs_dev fs) b good content C w" and "fat32_layout fs (unat (bd_sector_count b))"
    and "unat c < unat (total_clusters fs) + 2"
  shows "\<exists>w'. fat_set fs c v w = Ok (Some (), w') \<and> at_disk (fs_dev fs) b good content (fat_update fs c v C) w'"
proof -
  have lba: "fat_lba fs c + of_nat f * sectors_per_fat fs < bd_sector_count b" if "f < unat (fat_count fs)" for f
    using fat_copy_pos [OF assms(2,3) that] assms(2) by (simp add: word_less_nat_alt fat32_layout_def)
  then have l0: "fat_lba fs c < bd_sector_count b" using assms(2) lba [of 0] by (simp add: fat32_layout_def)
  obtain w1 where w1: "read_sec (fs_dev fs) (fat_lba fs c) w = Ok (Some (C (fat_lba fs c)), w1)"
      "at_disk (fs_dev fs) b good content C w1"
    using read_sec_at [OF assms(1) l0] by blast
  have "length (wr32 (C (fat_lba fs c)) (fat_off c) v) = 512" using at_disk_length [OF assms(1) l0] by simp
  from write_fats_at [OF w1(2) this, of "[0..<unat (fat_count fs)]" "fat_lba fs c"] lba w1(1)
  show ?thesis unfolding fat_set_def by (auto simp: fat_update_def [abs_def])
qed

lemma fat_update_data:
  assumes "fat32_layout fs n" and "unat c < unat (total_clusters fs) + 2"
    and "unat l < unat (fat_start_lba fs) \<or> unat (data_start_lba fs) \<le> unat l"
  shows "fat_update fs c v C l = C l"
  using fat_copy_pos [OF assms(1,2)] assms(3) unfolding fat_update_def by force

lemma fat_update_cluster [simp]:
  assumes "fat32_layout fs n" and "is_cluster fs c" and "is_cluster fs k"
  shows "fat_update fs c v C (cluster_to_lba fs k) = C (cluster_to_lba fs k)"
  using fat_update_data [OF assms(1), of c "cluster_to_lba fs k"] cluster_pos(3) [OF assms(1,3)] assms(2)
  by (simp add: is_cluster_def)

lemma fat_entry_update:
  assumes L: "fat32_layout fs n" and c: "unat c < unat (total_clusters fs) + 2"
    and k: "unat k < unat (total_clusters fs) + 2" and len: "length (C (fat_lba fs c)) = 512"
  shows "fat_entry fs (fat_update fs c v C) k = (if k = c then v AND 0x0FFFFFFF else fat_entry fs C k)"
proof -
  note pc = fat_pos [OF L c] and pk = fat_pos [OF L k]
  have one: "0 < unat (fat_count fs)" using L by (simp add: fat32_layout_def)
  have hit: "(\<exists>f\<in>set [0..<unat (fat_count fs)]. fat_lba fs k = fat_lba fs c + of_nat f * sectors_per_fat fs) \<longleftrightarrow>
      unat k div 128 = unat c div 128"
  proof
    assume "\<exists>f\<in>set [0..<unat (fat_count fs)]. fat_lba fs k = fat_lba fs c + of_nat f * sectors_per_fat fs"
    then obtain f where f: "f < unat (fat_count fs)" "fat_lba fs k = fat_lba fs c + of_nat f * sectors_per_fat fs" by auto
    then have "unat k div 128 = unat c div 128 + f * unat (sectors_per_fat fs)"
      using fat_copy_pos(1) [OF L c f(1)] pk(1) by simp
    then have "f * unat (sectors_per_fat fs) < unat (sectors_per_fat fs)" using pk(3) by linarith
    then have "f = 0" by (cases f) simp_all
    then show "unat k div 128 = unat c div 128"
      using \<open>unat k div 128 = unat c div 128 + f * unat (sectors_per_fat fs)\<close> by simp
  next
    assume "unat k div 128 = unat c div 128"
    then have "fat_lba fs k = fat_lba fs c" using pc(1) pk(1) by (simp add: word_unat_eq_iff)
    then show "\<exists>f\<in>set [0..<unat (fat_count fs)]. fat_lba fs k = fat_lba fs c + of_nat f * sectors_per_fat fs"
      using one by (intro bexI [of _ 0]) auto
  qed
  show ?thesis
  proof (cases "unat k div 128 = unat c div 128")
    case False
    then show ?thesis using hit by (auto simp: fat_entry_def fat_update_def)
  next
    case True
    then have same: "fat_lba fs k = fat_lba fs c" using pc(1) pk(1) by (simp add: word_unat_eq_iff)
    have upd: "fat_update fs c v C (fat_lba fs k) = wr32 (C (fat_lba fs c)) (fat_off c) v"
      using hit True by (simp add: fat_update_def)
    show ?thesis
    proof (cases "k = c")
      case True
      have "fat_off c + 3 < 512" by (simp add: pc(2))
      then show ?thesis using upd True rd32_wr32 [of "fat_off c" "C (fat_lba fs c)" v] len by (simp add: fat_entry_def)
    next
      case False
      then have "unat k mod 128 \<noteq> unat c mod 128" using True by (metis div_mult_mod_eq word_unat_eq_iff)
      then have "fat_off k + 4 \<le> fat_off c \<or> fat_off c + 4 \<le> fat_off k" using pc(2) pk(2) by linarith
      then have "rd32 (wr32 (C (fat_lba fs c)) (fat_off c) v) (fat_off k) = rd32 (C (fat_lba fs c)) (fat_off k)"
        by (intro rd32_cong nth_wr32) auto
      then show ?thesis using upd False same by (simp add: fat_entry_def)
    qed
  qed
qed

text \<open>The search for a free cluster takes the lowest.\<close>

lemma alloc_from_at:
  assumes "at_disk (fs_dev fs) b good content C w" and L: "fat32_layout fs (unat (bd_sector_count b))"
    and "\<forall>c\<in>set cs. c < unat (total_clusters fs) + 2"
  shows "case find (\<lambda>c. fat_entry fs C (of_nat c) = 0) cs of
      None \<Rightarrow> \<exists>w'. alloc_from fs cs w = Ok (None, w') \<and> at_disk (fs_dev fs) b good content C w'
    | Some c \<Rightarrow> \<exists>w'. alloc_from fs cs w = Ok (Some (of_nat c), w') \<and>
        at_disk (fs_dev fs) b good content (fat_update fs (of_nat c) FAT32_EOC C) w'"
  using assms(1,3)
proof (induction cs arbitrary: w)
  case Nil
  then show ?case by simp
next
  case (Cons c cs)
  have "c < unat (total_clusters fs) + 2" "unat (total_clusters fs) + 2 < 2 ^ 28"
    using Cons.prems(2) L by (simp_all add: fat32_layout_def)
  then have c: "unat (of_nat c :: u32) < unat (total_clusters fs) + 2" by (simp add: unat_of_nat32)
  obtain w1 where w1: "fat_get fs (of_nat c) w = Ok (fat_entry fs C (of_nat c), w1)"
      "at_disk (fs_dev fs) b good content C w1"
    using fat_get_at [OF Cons.prems(1) L c] by blast
  show ?case
  proof (cases "fat_entry fs C (of_nat c) = 0")
    case True
    then show ?thesis using w1(1) fat_set_at [OF w1(2) L c, of FAT32_EOC] by auto
  next
    case False
    then show ?thesis using w1(1) Cons.IH [OF w1(2)] Cons.prems(2) by (simp split: option.splits)
  qed
qed

definition free_cluster :: "fat32_fs \<Rightarrow> (u32 \<Rightarrow> u8 list) \<Rightarrow> u32 \<Rightarrow> bool" where
  "free_cluster fs C c \<longleftrightarrow> is_cluster fs c \<and> fat_entry fs C c = 0"

lemma alloc_cluster_at:
  assumes A: "at_disk (fs_dev fs) b good content C w" and L: "fat32_layout fs (unat (bd_sector_count b))"
  shows "(\<exists>c w'. free_cluster fs C c \<and> alloc_cluster fs w = Ok (Some c, w') \<and>
            at_disk (fs_dev fs) b good content (fat_update fs c FAT32_EOC C) w') \<or>
         (\<forall>c. \<not> free_cluster fs C c) \<and> (\<exists>w'. alloc_cluster fs w = Ok (None, w') \<and> at_disk (fs_dev fs) b good content C w')"
proof -
  have t: "unat (total_clusters fs + 2) = unat (total_clusters fs) + 2" "unat (total_clusters fs) + 2 < 2 ^ 28"
    using L by (simp_all add: fat32_layout_def unat_word_ariths)
  let ?find = "find (\<lambda>c. fat_entry fs C (of_nat c) = 0) [2..<unat (total_clusters fs + 2)]"
  have R: "case ?find of
      None \<Rightarrow> \<exists>w'. alloc_cluster fs w = Ok (None, w') \<and> at_disk (fs_dev fs) b good content C w'
    | Some c \<Rightarrow> \<exists>w'. alloc_cluster fs w = Ok (Some (of_nat c), w') \<and>
        at_disk (fs_dev fs) b good content (fat_update fs (of_nat c) FAT32_EOC C) w'"
    unfolding alloc_cluster_def using t(1) by (intro alloc_from_at [OF A L]) auto
  show ?thesis
  proof (cases ?find)
    case None
    have "\<not> free_cluster fs C c" for c
    proof
      assume "free_cluster fs C c"
      then have "unat c \<in> set [2..<unat (total_clusters fs + 2)]" "fat_entry fs C (of_nat (unat c)) = 0"
        using t(1) by (auto simp: free_cluster_def is_cluster_def)
      then show False using None by (auto simp: find_None_iff)
    qed
    then show ?thesis using R None by simp
  next
    case (Some c)
    then have c: "2 \<le> c" "c < unat (total_clusters fs) + 2" "fat_entry fs C (of_nat c) = 0"
      using t(1) find_SomeD [OF Some] by auto
    then have "unat (of_nat c :: u32) = c" using t(2) by (intro unat_of_nat32) simp
    then have "free_cluster fs C (of_nat c)" using c by (simp add: free_cluster_def is_cluster_def)
    then show ?thesis using R Some by auto
  qed
qed

section \<open>The root directory\<close>

text \<open>
  A directory sector without garbage after its end mark and with no name twice; its live entries are a
  set, in which the loop of the driver finds an entry by name.
\<close>

definition is_live :: "u8 list \<Rightarrow> nat \<Rightarrow> bool" where
  "is_live sec i \<longleftrightarrow> i \<in> set entry_offs \<and> sec ! i \<noteq> 0 \<and> sec ! i \<noteq> 0xE5 \<and> sec ! (i + 11) AND 0x0F \<noteq> 0x0F"

definition name_at :: "u8 list \<Rightarrow> nat \<Rightarrow> u8 list" where
  "name_at sec i = take 11 (drop i sec)"

definition dirsec_ok :: "u8 list \<Rightarrow> bool" where
  "dirsec_ok sec \<longleftrightarrow> length sec = 512 \<and>
     (\<forall>i\<in>set entry_offs. \<forall>j\<in>set entry_offs. i < j \<and> sec ! i = 0 \<longrightarrow> sec ! j = 0) \<and>
     inj_on (name_at sec) {i. is_live sec i}"

definition name83 :: "u8 list \<Rightarrow> bool" where
  "name83 nm \<longleftrightarrow> length nm = 11 \<and> is_text nm \<and> nm ! 0 \<noteq> 0xE5"

lemma entry_offs_iff: "i \<in> set entry_offs \<longleftrightarrow> (\<exists>k<16. i = 32 * k)"
  by (auto simp: entry_offs_def)

lemma entry_offs_bound: "i \<in> set entry_offs \<Longrightarrow> i + 32 \<le> 512"
  by (auto simp: entry_offs_iff)

lemma entry_offs_apart:
  assumes "i \<in> set entry_offs" and "j \<in> set entry_offs" and "i \<noteq> j"
  shows "i + 32 \<le> j \<or> j + 32 \<le> i"
  using assms by (auto simp: entry_offs_iff)

lemma entry_offs_nth: "k < 16 \<Longrightarrow> entry_offs ! k = 32 * k"
  by (simp add: entry_offs_def)

lemma scan_entries_find:
  "scan_entries sec nm offs =
     find (\<lambda>i. sec ! i \<noteq> 0xE5 \<and> sec ! (i + 11) AND 0x0F \<noteq> 0x0F \<and> strncmp (drop i sec) nm 11 = 0)
       (takeWhile (\<lambda>i. sec ! i \<noteq> 0) offs)"
  by (induction offs) auto

lemma strncmp_text: "is_text t \<Longrightarrow> strncmp s t (length t) = 0 \<longleftrightarrow> take (length t) s = t"
proof (induction t arbitrary: s)
  case (Cons c t)
  then show ?case by (cases s) (auto simp: Let_def uint_u8)
qed simp

lemma strncmp_name: "name83 nm \<Longrightarrow> strncmp s nm 11 = 0 \<longleftrightarrow> take 11 s = nm"
  using strncmp_text [of nm s] by (simp add: name83_def)

lemma dir_takeWhile:
  assumes "dirsec_ok sec" and "i \<in> set entry_offs" and "sec ! i \<noteq> 0"
  shows "i \<in> set (takeWhile (\<lambda>i. sec ! i \<noteq> 0) entry_offs)"
proof -
  obtain k where k: "k < 16" "i = 32 * k" using assms(2) by (auto simp: entry_offs_iff)
  have "sec ! (entry_offs ! j) \<noteq> 0" if "j \<le> k" for j
  proof (cases "j = k")
    case False
    then have "32 * j \<in> set entry_offs" "32 * j < i" using that k by (auto simp: entry_offs_iff)
    then have "sec ! (32 * j) \<noteq> 0" using assms unfolding dirsec_ok_def by blast
    then show ?thesis using that k by (simp add: entry_offs_nth)
  qed (use assms(3) k in \<open>simp add: entry_offs_nth\<close>)
  then have "\<forall>x\<in>set (take (Suc k) entry_offs). sec ! x \<noteq> 0"
    by (auto simp: in_set_conv_nth)
  then have "takeWhile (\<lambda>i. sec ! i \<noteq> 0) (take (Suc k) entry_offs @ drop (Suc k) entry_offs) =
      take (Suc k) entry_offs @ takeWhile (\<lambda>i. sec ! i \<noteq> 0) (drop (Suc k) entry_offs)"
    by (intro takeWhile_append2) blast
  moreover have "i \<in> set (take (Suc k) entry_offs)"
    using k by (auto simp: in_set_conv_nth entry_offs_nth entry_offs_def intro!: exI [of _ k])
  ultimately show ?thesis by simp
qed

lemma live_set:
  assumes "dirsec_ok sec"
  shows "is_live sec i \<longleftrightarrow> i \<in> set (takeWhile (\<lambda>i. sec ! i \<noteq> 0) entry_offs) \<and> sec ! i \<noteq> 0xE5 \<and>
    sec ! (i + 11) AND 0x0F \<noteq> 0x0F"
  using dir_takeWhile [OF assms] by (auto simp: is_live_def dest: set_takeWhileD)

lemma scan_entries_iff:
  assumes "dirsec_ok sec" and "name83 nm"
  shows "scan_entries sec nm entry_offs = Some i \<longleftrightarrow> is_live sec i \<and> name_at sec i = nm"
proof -
  let ?P = "\<lambda>i. sec ! i \<noteq> 0xE5 \<and> sec ! (i + 11) AND 0x0F \<noteq> 0x0F \<and> strncmp (drop i sec) nm 11 = 0"
  have P: "j \<in> set (takeWhile (\<lambda>i. sec ! i \<noteq> 0) entry_offs) \<and> ?P j \<longleftrightarrow> is_live sec j \<and> name_at sec j = nm" for j
    by (auto simp: live_set [OF assms(1)] strncmp_name [OF assms(2)] name_at_def)
  have inj: "inj_on (name_at sec) {i. is_live sec i}" using assms(1) by (simp add: dirsec_ok_def)
  show ?thesis
  proof (cases "find ?P (takeWhile (\<lambda>i. sec ! i \<noteq> 0) entry_offs)")
    case None
    then have "\<not> (is_live sec j \<and> name_at sec j = nm)" for j using find_NoneD [OF None, of j] P [of j] by blast
    then show ?thesis using None by (auto simp: scan_entries_find)
  next
    case (Some j)
    then have j: "is_live sec j" "name_at sec j = nm" using P [of j] find_SomeD [OF Some] by blast+
    then have "is_live sec i \<and> name_at sec i = nm \<longleftrightarrow> i = j" using inj_onD [OF inj, of i j] by auto
    then show ?thesis using Some by (auto simp: scan_entries_find)
  qed
qed

text \<open>An entry is the 32 bytes at its offset.\<close>

lemma entry_same:
  assumes "length p = 512" and "length q = 512" and "i \<in> set entry_offs"
    and same: "\<And>k. k < 32 \<Longrightarrow> p ! (i + k) = q ! (i + k)"
  shows "is_live p i = is_live q i" and "name_at p i = name_at q i" and "entry_cluster p i = entry_cluster q i"
    and "rd32 p (i + 28) = rd32 q (i + 28)"
proof -
  note B = entry_offs_bound [OF assms(3)]
  show "is_live p i = is_live q i" using same [of 0] same [of 11] by (simp add: is_live_def)
  show "name_at p i = name_at q i"
    unfolding name_at_def using assms(1,2) B same by (intro nth_equalityI) auto
  show "entry_cluster p i = entry_cluster q i"
  proof -
    have "rd16 p (i + 20) = rd16 q (i + 20)" using same [of 20] same [of 21] by (intro rd16_cong) (simp_all add: add.commute)
    moreover have "rd16 p (i + 26) = rd16 q (i + 26)" using same [of 26] same [of 27] by (intro rd16_cong) (simp_all add: add.commute)
    ultimately show ?thesis by (simp add: entry_cluster_def)
  qed
  show "rd32 p (i + 28) = rd32 q (i + 28)"
    using same [of "28 + _"] by (intro rd32_cong) (simp add: add.assoc)
qed

lemma put_entry:
  assumes "length sec = 512" and "i \<in> set entry_offs" and "length nm = 11"
  shows "length (put_entry sec i nm c len) = 512"
    and "k < 512 \<Longrightarrow> k < i \<or> i + 32 \<le> k \<Longrightarrow> put_entry sec i nm c len ! k = sec ! k"
    and "k < 11 \<Longrightarrow> put_entry sec i nm c len ! (i + k) = nm ! k"
    and "put_entry sec i nm c len ! (i + 11) = FAT32_ATTR_ARCHIVE"
    and "entry_cluster (put_entry sec i nm c len) i = c"
    and "rd32 (put_entry sec i nm c len) (i + 28) = len"
proof -
  note B = entry_offs_bound [OF assms(2)]
  let ?s1 = "blit (blit sec i (replicate 32 0)) i nm"
  have l1: "length ?s1 = 512" using assms B by simp
  have n1: "?s1 ! k = (if i \<le> k \<and> k < i + 11 then nm ! (k - i) else if i \<le> k \<and> k < i + 32 then 0 else sec ! k)" if "k < 512" for k
    using that assms B by (auto simp: nth_blit)
  let ?hi = "ucast (drop_bit 16 c AND 0xFFFF) :: u16" and ?lo = "ucast (c AND 0xFFFF) :: u16"
  have eq: "put_entry sec i nm c len =
      wr32 (wr16 (wr16 (?s1[i + 11 := FAT32_ATTR_ARCHIVE]) (i + 20) ?hi) (i + 26) ?lo) (i + 28) len"
    by (simp add: put_entry_def)
  show "length (put_entry sec i nm c len) = 512" using l1 by (simp add: eq)
  show "k < 512 \<Longrightarrow> k < i \<or> i + 32 \<le> k \<Longrightarrow> put_entry sec i nm c len ! k = sec ! k"
    using n1 [of k] by (auto simp: eq nth_wr32 nth_wr16)
  show "k < 11 \<Longrightarrow> put_entry sec i nm c len ! (i + k) = nm ! k"
    using n1 [of "i + k"] B by (simp add: eq nth_wr32 nth_wr16)
  show "put_entry sec i nm c len ! (i + 11) = FAT32_ATTR_ARCHIVE"
    using l1 B by (simp add: eq nth_wr32 nth_wr16)
  show "rd32 (put_entry sec i nm c len) (i + 28) = len"
    using l1 B by (simp add: eq rd32_wr32)
  have "rd16 (put_entry sec i nm c len) (i + 26) = ?lo"
    using l1 B rd16_wr16 [of "i + 26"] by (simp add: eq rd16_def nth_wr32)
  moreover have "rd16 (put_entry sec i nm c len) (i + 20) = ?hi"
    using l1 B rd16_wr16 [of "i + 20"] by (simp add: eq rd16_def nth_wr32 nth_wr16)
  ultimately show "entry_cluster (put_entry sec i nm c len) i = c"
    by (simp add: entry_cluster_def join_halves)
qed

end
