(* ===== verification/Fat32_Spec.thy ===== *)
theory Fat32_Spec
  imports Fat32_Laws
begin

text \<open>
  The abstract view of a mounted file system, a map from 8.3 names to contents; the invariant that makes it
  one; and the properties: every operation of the driver acts on the map as its name says, and formatting
  and mounting give the empty map.
\<close>

section \<open>The map of files\<close>

definition root_sec :: "fat32_fs \<Rightarrow> (u32 \<Rightarrow> u8 list) \<Rightarrow> u8 list" where
  "root_sec fs C = C (cluster_to_lba fs (root_cluster fs))"

definition file_at :: "fat32_fs \<Rightarrow> (u32 \<Rightarrow> u8 list) \<Rightarrow> nat \<Rightarrow> u8 list" where
  "file_at fs C i =
     take (unat (rd32 (root_sec fs C) (i + 28))) (C (cluster_to_lba fs (entry_cluster (root_sec fs C) i)))"

definition fat32_files :: "fat32_fs \<Rightarrow> (u32 \<Rightarrow> u8 list) \<Rightarrow> u8 list \<Rightarrow> u8 list option" where
  "fat32_files fs C nm =
     (if name83 nm then map_option (file_at fs C) (scan_entries (root_sec fs C) nm entry_offs) else None)"

text \<open>
  Every live entry but those of \<open>X\<close> has a cluster of its own, allocated and not the root directory's,
  which holds the whole file.
\<close>

definition entries_ok :: "fat32_fs \<Rightarrow> (u32 \<Rightarrow> u8 list) \<Rightarrow> nat set \<Rightarrow> bool" where
  "entries_ok fs C X \<longleftrightarrow>
     (let sec = root_sec fs C; L = {i. is_live sec i} - X
      in inj_on (entry_cluster sec) L \<and>
         (\<forall>i\<in>L. is_cluster fs (entry_cluster sec i) \<and> entry_cluster sec i \<noteq> root_cluster fs \<and>
            fat_entry fs C (entry_cluster sec i) \<noteq> 0 \<and> unat (rd32 sec (i + 28)) \<le> 512 \<and> name83 (name_at sec i)))"

definition fat32_inv :: "fat32_fs \<Rightarrow> (u32 \<Rightarrow> u8 list) \<Rightarrow> bool" where
  "fat32_inv fs C \<longleftrightarrow>
     dirsec_ok (root_sec fs C) \<and> entries_ok fs C {} \<and> fat_entry fs C (root_cluster fs) \<noteq> 0"

lemma entries_okD:
  assumes "entries_ok fs C X" and "is_live (root_sec fs C) i" and "i \<notin> X"
  shows "is_cluster fs (entry_cluster (root_sec fs C) i)" "entry_cluster (root_sec fs C) i \<noteq> root_cluster fs"
    "fat_entry fs C (entry_cluster (root_sec fs C) i) \<noteq> 0" "unat (rd32 (root_sec fs C) (i + 28)) \<le> 512"
    "name83 (name_at (root_sec fs C) i)"
  using assms by (auto simp: entries_ok_def Let_def)

lemma entries_ok_inj:
  assumes "entries_ok fs C X" and "is_live (root_sec fs C) i" "i \<notin> X" "is_live (root_sec fs C) j" "j \<notin> X"
    and "entry_cluster (root_sec fs C) i = entry_cluster (root_sec fs C) j"
  shows "i = j"
  using assms unfolding entries_ok_def Let_def inj_on_def by blast

lemma entries_ok_empty: "entries_ok fs C {} \<Longrightarrow> entries_ok fs C X"
  unfolding entries_ok_def Let_def by (auto intro: inj_on_subset)

lemma files_iff:
  assumes "fat32_inv fs C"
  shows "fat32_files fs C nm = Some d \<longleftrightarrow>
    (\<exists>i. is_live (root_sec fs C) i \<and> name_at (root_sec fs C) i = nm \<and> d = file_at fs C i)"
proof (cases "name83 nm")
  case True
  have dir: "dirsec_ok (root_sec fs C)" using assms by (simp add: fat32_inv_def)
  show ?thesis
    using True by (auto simp: fat32_files_def scan_entries_iff [OF dir True])
next
  case False
  then show ?thesis using assms entries_okD(5) [of fs C "{}"] by (auto simp: fat32_inv_def fat32_files_def)
qed

lemma map_eq_iff_Some: "(\<And>k v. m k = Some v \<longleftrightarrow> m' k = Some v) \<Longrightarrow> m = m'"
  by (rule ext) (metis not_None_eq)

lemma inj_on_new:
  assumes "inj_on f L" and "\<And>j. j \<in> L \<Longrightarrow> g j = f j" and "\<And>j. j \<in> L \<Longrightarrow> f j \<noteq> g x"
  shows "inj_on g (insert x L)"
proof (rule inj_onI)
  fix i j assume "i \<in> insert x L" "j \<in> insert x L" "g i = g j"
  then show "i = j" using assms(2,3) inj_onD [OF assms(1), of i j] by (metis insertE)
qed

section \<open>Storing an entry\<close>

text \<open>
  The disk after the new cluster \<open>c\<close> has been allocated, the entry at \<open>off\<close> filled in and the data
  written, from a disk \<open>C\<close> in which all entries but that at \<open>off\<close> are in order.
\<close>

definition stored :: "fat32_fs \<Rightarrow> nat \<Rightarrow> u8 list \<Rightarrow> u32 \<Rightarrow> u32 \<Rightarrow> u8 list \<Rightarrow> (u32 \<Rightarrow> u8 list) \<Rightarrow> u32 \<Rightarrow> u8 list" where
  "stored fs off nm c len bytes C =
     ((fat_update fs c 0x0FFFFFFF C)
        (cluster_to_lba fs (root_cluster fs) := put_entry (root_sec fs C) off nm c len))
        (cluster_to_lba fs c := blit zero_sector 0 bytes)"

lemma put_entry_fields:
  fixes c ln :: u32
  assumes "length sec = 512" and "off \<in> set entry_offs" and "name83 nm"
  defines "sec2 \<equiv> put_entry sec off nm c ln"
  shows "length sec2 = 512" and "is_live sec2 off" and "name_at sec2 off = nm" and "entry_cluster sec2 off = c"
    and "rd32 sec2 (off + 28) = ln"
    and "j \<in> set entry_offs \<Longrightarrow> j \<noteq> off \<Longrightarrow> sec2 ! j = sec ! j"
    and "j \<noteq> off \<Longrightarrow> is_live sec2 j \<longleftrightarrow> is_live sec j"
    and "is_live sec j \<Longrightarrow> j \<noteq> off \<Longrightarrow> name_at sec2 j = name_at sec j"
    and "is_live sec j \<Longrightarrow> j \<noteq> off \<Longrightarrow> entry_cluster sec2 j = entry_cluster sec j"
    and "is_live sec j \<Longrightarrow> j \<noteq> off \<Longrightarrow> rd32 sec2 (j + 28) = rd32 sec (j + 28)"
proof -
  have nm: "length nm = 11" "nm ! 0 \<noteq> 0" "nm ! 0 \<noteq> 0xE5"
    using assms(3) by (auto simp: name83_def is_text_def list_all_length)
  note P = put_entry [OF assms(1,2) nm(1), where c = c and len = ln, folded sec2_def]
  note B = entry_offs_bound [OF assms(2)]
  show len: "length sec2 = 512" and "entry_cluster sec2 off = c" and "rd32 sec2 (off + 28) = ln"
    by (rule P)+
  show "is_live sec2 off"
    using P(3) [of 0] P(4) nm assms(2) by (simp add: is_live_def)
  show "name_at sec2 off = nm"
    unfolding name_at_def using len B nm(1) P(3) by (intro nth_equalityI) auto
  have same: "sec2 ! (j + k) = sec ! (j + k)" if "j \<in> set entry_offs" "j \<noteq> off" "k < 32" for j k
    using entry_offs_apart [OF that(1) assms(2) that(2)] entry_offs_bound [OF that(1)] that(3)
    by (intro P(2)) auto
  show "j \<in> set entry_offs \<Longrightarrow> j \<noteq> off \<Longrightarrow> sec2 ! j = sec ! j" using same [of j 0] by simp
  have ent: "is_live sec2 j = is_live sec j" "name_at sec2 j = name_at sec j" "entry_cluster sec2 j = entry_cluster sec j"
      "rd32 sec2 (j + 28) = rd32 sec (j + 28)" if "j \<in> set entry_offs" "j \<noteq> off" for j
    by (rule entry_same [OF len assms(1) that(1) same [OF that]], assumption)+
  show "j \<noteq> off \<Longrightarrow> is_live sec2 j \<longleftrightarrow> is_live sec j"
    using ent(1) [of j] by (cases "j \<in> set entry_offs") (auto simp: is_live_def)
  show "is_live sec j \<Longrightarrow> j \<noteq> off \<Longrightarrow> name_at sec2 j = name_at sec j"
    and "is_live sec j \<Longrightarrow> j \<noteq> off \<Longrightarrow> entry_cluster sec2 j = entry_cluster sec j"
    and "is_live sec j \<Longrightarrow> j \<noteq> off \<Longrightarrow> rd32 sec2 (j + 28) = rd32 sec (j + 28)"
    using ent(2-4) [of j] by (simp_all add: is_live_def)
qed

text \<open>The allocation table is not in the data area.\<close>

lemma fat_entry_data:
  assumes "fat32_layout fs n" and "unat k < unat (total_clusters fs) + 2"
    and "\<And>l. unat l < unat (data_start_lba fs) \<Longrightarrow> C l = C' l"
  shows "fat_entry fs C k = fat_entry fs C' k"
proof -
  have "0 < unat (fat_count fs)" using assms(1) by (simp add: fat32_layout_def)
  from fat_copy_pos [OF assms(1,2) this] have "unat (fat_lba fs k) < unat (data_start_lba fs)" by simp
  then show ?thesis using assms(3) by (simp add: fat_entry_def)
qed

lemma stored_view:
  fixes ln :: u32 and nm bytes :: "u8 list" and off :: nat
  assumes L: "fat32_layout fs n" and len: "\<forall>l. unat l < n \<longrightarrow> length (C l) = 512"
    and root: "fat_entry fs C (root_cluster fs) \<noteq> 0" and c: "free_cluster fs C c"
  defines "C2 \<equiv> stored fs off nm c ln bytes C"
  shows "root_sec fs C2 = put_entry (root_sec fs C) off nm c ln"
    and "C2 (cluster_to_lba fs c) = blit zero_sector 0 bytes"
    and "is_cluster fs k \<Longrightarrow> k \<noteq> c \<Longrightarrow> k \<noteq> root_cluster fs \<Longrightarrow> C2 (cluster_to_lba fs k) = C (cluster_to_lba fs k)"
    and "is_cluster fs k \<Longrightarrow> fat_entry fs C2 k = (if k = c then 0x0FFFFFFF else fat_entry fs C k)"
    and "unat l < unat (fat_start_lba fs) \<Longrightarrow> C2 l = C l"
proof -
  let ?U = "fat_update fs c 0x0FFFFFFF C"
  note R = layout_root [OF L]
  have cl: "is_cluster fs c" "c \<noteq> root_cluster fs" "unat c < unat (total_clusters fs) + 2"
    using c root by (auto simp: free_cluster_def is_cluster_def)
  have C2: "C2 = (?U(cluster_to_lba fs (root_cluster fs) := put_entry (root_sec fs C) off nm c ln))
      (cluster_to_lba fs c := blit zero_sector 0 bytes)"
    by (simp add: C2_def stored_def)
  show "root_sec fs C2 = put_entry (root_sec fs C) off nm c ln"
    using cluster_inj [OF L cl(1) R] cl(2) by (simp add: root_sec_def C2)
  show "C2 (cluster_to_lba fs c) = blit zero_sector 0 bytes" by (simp add: C2)
  show "is_cluster fs k \<Longrightarrow> k \<noteq> c \<Longrightarrow> k \<noteq> root_cluster fs \<Longrightarrow> C2 (cluster_to_lba fs k) = C (cluster_to_lba fs k)"
    using cluster_inj [OF L _ cl(1), of k] cluster_inj [OF L _ R, of k] fat_update_cluster [OF L cl(1)] by (simp add: C2)
  have data: "C2 l = ?U l" if "unat l < unat (data_start_lba fs)" for l
    using that cluster_pos(3) [OF L cl(1)] cluster_pos(3) [OF L R] by (auto simp: C2)
  show "fat_entry fs C2 k = (if k = c then 0x0FFFFFFF else fat_entry fs C k)" if k: "is_cluster fs k"
  proof -
    have k': "unat k < unat (total_clusters fs) + 2" using k by (simp add: is_cluster_def)
    have "0 < unat (fat_count fs)" using L by (simp add: fat32_layout_def)
    from fat_copy_pos [OF L cl(3) this] have "unat (fat_lba fs c) < n" using L by (simp add: fat32_layout_def)
    then show ?thesis
      using fat_entry_data [OF L k' data] fat_entry_update [OF L cl(3) k', of C] len by simp
  qed
  show "unat l < unat (fat_start_lba fs) \<Longrightarrow> C2 l = C l"
    using data [of l] fat_update_data [OF L cl(3), of l] L by (simp add: fat32_layout_def)
qed

lemma stored_inv:
  assumes L: "fat32_layout fs n" and len: "\<forall>l. unat l < n \<longrightarrow> length (C l) = 512"
    and E: "entries_ok fs C {off}" and D: "length (root_sec fs C) = 512"
      "\<forall>i\<in>set entry_offs. \<forall>j\<in>set entry_offs. i < j \<and> root_sec fs C ! i = 0 \<longrightarrow> root_sec fs C ! j = 0"
      "inj_on (name_at (root_sec fs C)) ({i. is_live (root_sec fs C) i} - {off})"
    and root: "fat_entry fs C (root_cluster fs) \<noteq> 0"
    and off: "off \<in> set entry_offs" "\<forall>i\<in>set entry_offs. i < off \<longrightarrow> root_sec fs C ! i \<noteq> 0"
    and nm: "name83 nm" "\<forall>i. is_live (root_sec fs C) i \<longrightarrow> i \<noteq> off \<longrightarrow> name_at (root_sec fs C) i \<noteq> nm"
    and c: "free_cluster fs C c" and bytes: "length bytes \<le> 512" "unat ln = length bytes"
  defines "C2 \<equiv> stored fs off nm c ln bytes C"
  shows "fat32_inv fs C2"
    and "fat32_files fs C2 k = Some d \<longleftrightarrow> k = nm \<and> d = bytes \<or>
      (\<exists>i. is_live (root_sec fs C) i \<and> i \<noteq> off \<and> name_at (root_sec fs C) i = k \<and> d = file_at fs C i)"
proof -
  let ?sec = "root_sec fs C" and ?s2 = "root_sec fs C2"
  note V = stored_view [where off = off and nm = nm and ln = ln and bytes = bytes, OF L len root c, folded C2_def]
  note F = put_entry_fields [where c = c and ln = ln, OF D(1) off(1) nm(1), folded V(1)]
  note R = layout_root [OF L]
  have cl: "is_cluster fs c" "c \<noteq> root_cluster fs" "fat_entry fs C c = 0"
    using c root by (auto simp: free_cluster_def)
  have live: "is_live ?s2 j \<longleftrightarrow> j = off \<or> is_live ?sec j \<and> j \<noteq> off" for j using F(2,7) by blast
  have L2: "{i. is_live ?s2 i} = insert off ({i. is_live ?sec i} - {off})" using live by auto
  have old: "is_cluster fs (entry_cluster ?sec j)" "entry_cluster ?sec j \<noteq> root_cluster fs" "entry_cluster ?sec j \<noteq> c"
      "fat_entry fs C (entry_cluster ?sec j) \<noteq> 0" "unat (rd32 ?sec (j + 28)) \<le> 512" "name83 (name_at ?sec j)"
    if "is_live ?sec j" "j \<noteq> off" for j
    using entries_okD [OF E that(1)] that(2) cl(3) by auto
  have file_old: "file_at fs C2 j = file_at fs C j" if "is_live ?sec j" "j \<noteq> off" for j
    unfolding file_at_def using F(9,10) [OF that] V(3) [OF old(1,3,2) [OF that]] by simp
  have file_new: "file_at fs C2 off = bytes"
    unfolding file_at_def using F(4,5) V(2) bytes by (simp add: blit_def)
  have "dirsec_ok ?s2" unfolding dirsec_ok_def
  proof (intro conjI ballI impI)
    show "length ?s2 = 512" by (rule F(1))
    fix i j assume ij: "i \<in> set entry_offs" "j \<in> set entry_offs" "i < j \<and> ?s2 ! i = 0"
    have "?s2 ! off \<noteq> 0" using F(2) by (simp add: is_live_def)
    then have i: "i \<noteq> off" "?sec ! i = 0" using ij F(6) [of i] by auto
    then have "j \<noteq> off" using off(2) ij by blast
    moreover have "?sec ! j = 0" using D(2) ij i(2) by blast
    ultimately show "?s2 ! j = 0" using F(6) [OF ij(2)] by simp
  next
    show "inj_on (name_at ?s2) {i. is_live ?s2 i}"
      unfolding L2 using F(3,8) nm(2) by (intro inj_on_new [OF D(3)]) auto
  qed
  moreover have "entries_ok fs C2 {}" unfolding entries_ok_def Let_def
  proof (intro conjI ballI)
    have "inj_on (entry_cluster ?sec) ({i. is_live ?sec i} - {off})" using E by (simp add: entries_ok_def Let_def)
    then show "inj_on (entry_cluster ?s2) ({i. is_live ?s2 i} - {})"
      unfolding L2 Diff_empty using F(4,9) old(3) by (intro inj_on_new) auto
  next
    fix i assume "i \<in> {i. is_live ?s2 i} - {}"
    then have i: "i = off \<or> is_live ?sec i \<and> i \<noteq> off" using live by simp
    show "is_cluster fs (entry_cluster ?s2 i)" using i F(4) F(9) [of i] old(1) [of i] cl(1) by auto
    show "entry_cluster ?s2 i \<noteq> root_cluster fs" using i F(4) F(9) [of i] old(2) [of i] cl(2) by auto
    show "fat_entry fs C2 (entry_cluster ?s2 i) \<noteq> 0"
      using i F(4) F(9) [of i] old [of i] cl(1) V(4) by auto
    show "unat (rd32 ?s2 (i + 28)) \<le> 512" using i F(5) F(10) [of i] old(5) [of i] bytes by auto
    show "name83 (name_at ?s2 i)" using i F(3) F(8) [of i] old(6) [of i] nm(1) by auto
  qed
  moreover have "fat_entry fs C2 (root_cluster fs) \<noteq> 0" using V(4) [OF R] cl(2) root by simp
  ultimately show inv: "fat32_inv fs C2" by (simp add: fat32_inv_def)
  show "fat32_files fs C2 k = Some d \<longleftrightarrow> k = nm \<and> d = bytes \<or>
      (\<exists>i. is_live ?sec i \<and> i \<noteq> off \<and> name_at ?sec i = k \<and> d = file_at fs C i)"
    unfolding files_iff [OF inv] using live F(3) F(8) file_old file_new by metis
qed

text \<open>A write to the allocation table leaves the directory and the data as they are.\<close>

lemma fat_update_view:
  assumes L: "fat32_layout fs n" and len: "\<forall>l. unat l < n \<longrightarrow> length (C l) = 512" and c: "is_cluster fs c"
  shows "root_sec fs (fat_update fs c v C) = root_sec fs C"
    and "is_cluster fs k \<Longrightarrow> fat_entry fs (fat_update fs c v C) k = (if k = c then v AND 0x0FFFFFFF else fat_entry fs C k)"
    and "is_cluster fs (entry_cluster (root_sec fs C) i) \<Longrightarrow> file_at fs (fat_update fs c v C) i = file_at fs C i"
    and "unat l < unat (fat_start_lba fs) \<Longrightarrow> fat_update fs c v C l = C l"
proof -
  have cl: "unat c < unat (total_clusters fs) + 2" using c by (simp add: is_cluster_def)
  have one: "0 < unat (fat_count fs)" using L by (simp add: fat32_layout_def)
  from fat_copy_pos [OF L cl this] have lba: "unat (fat_lba fs c) < n" using L by (simp add: fat32_layout_def)
  show r: "root_sec fs (fat_update fs c v C) = root_sec fs C"
    using fat_update_cluster [OF L c layout_root [OF L]] by (simp add: root_sec_def)
  show "is_cluster fs k \<Longrightarrow> fat_entry fs (fat_update fs c v C) k = (if k = c then v AND 0x0FFFFFFF else fat_entry fs C k)"
    using fat_entry_update [OF L cl, of k C v] len lba by (simp add: is_cluster_def)
  show "is_cluster fs (entry_cluster (root_sec fs C) i) \<Longrightarrow> file_at fs (fat_update fs c v C) i = file_at fs C i"
    using fat_update_cluster [OF L c] by (simp add: file_at_def r)
  show "unat l < unat (fat_start_lba fs) \<Longrightarrow> fat_update fs c v C l = C l"
    using fat_update_data [OF L cl, of l v C] by simp
qed

section \<open>The operations on a disk\<close>

lemma at_disk_len: "at_disk dev b good content C w \<Longrightarrow> \<forall>l. unat l < unat (bd_sector_count b) \<longrightarrow> length (C l) = 512"
  using at_disk_length by (auto simp: word_less_nat_alt)

lemma cluster_lba_less:
  "fat32_layout fs (unat (bd_sector_count b)) \<Longrightarrow> is_cluster fs c \<Longrightarrow> cluster_to_lba fs c < bd_sector_count b"
  using cluster_pos(2) by (simp add: word_less_nat_alt)

lemma read_root_at:
  assumes "at_disk (fs_dev fs) b good content C w" and L: "fat32_layout fs (unat (bd_sector_count b))"
  shows "\<exists>w'. read_sec (fs_dev fs) (cluster_to_lba fs (root_cluster fs)) w = Ok (Some (root_sec fs C), w') \<and>
    at_disk (fs_dev fs) b good content C w'"
  using read_sec_at [OF assms(1) cluster_lba_less [OF L layout_root [OF L]]] by (simp add: root_sec_def)

lemma find_root_entry_at:
  assumes "at_disk (fs_dev fs) b good content C w" and L: "fat32_layout fs (unat (bd_sector_count b))"
  shows "\<exists>w'. find_root_entry fs nm w = Ok (map_option (\<lambda>i. (cluster_to_lba fs (root_cluster fs), i))
      (scan_entries (root_sec fs C) nm entry_offs), w') \<and> at_disk (fs_dev fs) b good content C w'"
  using read_root_at [OF assms] by (auto simp: find_root_entry_def Let_def)

lemma or_fail_simps [simp]:
  "or_fail (Ok (Some x, w)) msg k = k x w"
  "or_fail (Ok (None, w)) msg k = give_up msg w"
  "or_fail (Fail e) msg k = Fail e"
  by (simp_all add: or_fail_def)

lemma give_up_at: "at_disk dev b good content C w \<Longrightarrow> \<exists>w'. give_up msg w = Ok (-1, w') \<and> at_disk dev b good content C w'"
  by (simp add: give_up_def)

lemma store_file_at:
  assumes A: "at_disk (fs_dev fs) b good content C w" and L: "fat32_layout fs (unat (bd_sector_count b))"
    and off: "off \<in> set entry_offs" and nm: "name83 nm" and len: "unat len \<le> 512" "unat len \<le> length data"
  shows "(\<exists>c w'. free_cluster fs C c \<and>
        store_file fs (cluster_to_lba fs (root_cluster fs)) (root_sec fs C) off nm data len w = Ok (0, w') \<and>
        at_disk (fs_dev fs) b good content (stored fs off nm c len (take (unat len) data) C) w') \<or>
      (\<forall>c. \<not> free_cluster fs C c) \<and>
      (\<exists>w'. store_file fs (cluster_to_lba fs (root_cluster fs)) (root_sec fs C) off nm data len w = Ok (-1, w') \<and>
        at_disk (fs_dev fs) b good content C w')"
proof (cases "\<exists>c. free_cluster fs C c")
  case True
  then obtain c w1 where c: "free_cluster fs C c" and w1: "alloc_cluster fs w = Ok (Some c, w1)"
      "at_disk (fs_dev fs) b good content (fat_update fs c 0x0FFFFFFF C) w1"
    using alloc_cluster_at [OF A L] by blast
  have cl: "is_cluster fs c" using c by (simp add: free_cluster_def)
  let ?e = "put_entry (root_sec fs C) off nm c len"
  have "length (root_sec fs C) = 512"
    using at_disk_length [OF A cluster_lba_less [OF L layout_root [OF L]]] by (simp add: root_sec_def)
  then have "length ?e = 512" using put_entry_fields(1) [OF _ off nm] by blast
  from write_sec_at [OF w1(2) cluster_lba_less [OF L layout_root [OF L]] this] obtain w2 where
    w2: "write_sec (fs_dev fs) (cluster_to_lba fs (root_cluster fs)) ?e w1 = Ok (Some (), w2)"
      "at_disk (fs_dev fs) b good content ((fat_update fs c 0x0FFFFFFF C)(cluster_to_lba fs (root_cluster fs) := ?e)) w2"
    by blast
  have "length (blit zero_sector 0 (take (unat len) data)) = 512" using len by simp
  from write_sec_at [OF w2(2) cluster_lba_less [OF L cl] this] obtain w3 where
    w3: "write_sec (fs_dev fs) (cluster_to_lba fs c) (blit zero_sector 0 (take (unat len) data)) w2 = Ok (Some (), w3)"
      "at_disk (fs_dev fs) b good content (stored fs off nm c len (take (unat len) data) C) w3"
    by (auto simp: stored_def)
  have "store_file fs (cluster_to_lba fs (root_cluster fs)) (root_sec fs C) off nm data len w =
      Ok (0, fat32_set_error (Some (lit ''ok'')) w3)"
    using w1(1) w2(1) w3(1) len by (simp add: store_file_def)
  then show ?thesis using c w3(2) by auto
next
  case False
  then obtain w1 where "alloc_cluster fs w = Ok (None, w1)" "at_disk (fs_dev fs) b good content C w1"
    using alloc_cluster_at [OF A L] by blast
  then show ?thesis using False by (simp add: store_file_def give_up_def)
qed

section \<open>8.3 names\<close>

lemma upcase_name_char: "name_char (upcase c) \<Longrightarrow> upcase c \<noteq> 0 \<and> upcase c \<noteq> 0xE5"
  by (auto simp: name_char_def)

lemma name83_loop_cons:
  "name83_loop (c # cs) pos out = Some nm \<longleftrightarrow>
     (if c = ch_dot then 0 < pos \<and> pos \<le> 8 \<and> name83_loop cs 8 out = Some nm
      else name_char (upcase c) \<and> pos < 11 \<and> name83_loop cs (pos + 1) (out[pos := upcase c]) = Some nm)"
  by (simp add: Let_def)

lemma name83_loop_sound:
  assumes "name83_loop cs pos out = Some nm" and "length out = 11" and "\<forall>b\<in>set out. b \<noteq> 0 \<and> b \<noteq> 0xE5"
  shows "length nm = 11 \<and> (\<forall>b\<in>set nm. b \<noteq> 0 \<and> b \<noteq> 0xE5)"
  using assms
proof (induction cs arbitrary: pos out)
  case (Cons c cs)
  show ?case
  proof (cases "c = ch_dot")
    case True
    then show ?thesis using Cons.IH [of 8 out] Cons.prems unfolding name83_loop_cons by simp
  next
    case False
    then have c: "name_char (upcase c)" "name83_loop cs (pos + 1) (out[pos := upcase c]) = Some nm"
      using Cons.prems(1) unfolding name83_loop_cons by simp_all
    have "\<forall>b\<in>set (out[pos := upcase c]). b \<noteq> 0 \<and> b \<noteq> 0xE5"
    proof
      fix b assume "b \<in> set (out[pos := upcase c])"
      then have "b \<in> insert (upcase c) (set out)" by (rule subsetD [OF set_update_subset_insert])
      then show "b \<noteq> 0 \<and> b \<noteq> 0xE5" using Cons.prems(3) upcase_name_char [OF c(1)] by (elim insertE) simp_all
    qed
    moreover have "length (out[pos := upcase c]) = 11" using Cons.prems(2) by simp
    ultimately show ?thesis using Cons.IH [OF c(2)] by blast
  qed
qed simp

lemma make_name83_sound: "make_name83 name = Some nm \<Longrightarrow> name83 nm"
  using name83_loop_sound [of _ 0 "replicate 11 ch_space" nm]
  by (auto simp: make_name83_def name83_def is_text_def list_all_iff split: option.splits if_splits)

section \<open>Writing, reading and deleting\<close>

definition room_for_file :: "fat32_fs \<Rightarrow> (u32 \<Rightarrow> u8 list) \<Rightarrow> bool" where
  "room_for_file fs C \<longleftrightarrow> (\<exists>c. free_cluster fs C c) \<and>
     (\<exists>i\<in>set entry_offs. root_sec fs C ! i = 0 \<or> root_sec fs C ! i = 0xE5)"

lemma dirsec_okD:
  assumes "dirsec_ok sec"
  shows "length sec = 512" "\<forall>i\<in>set entry_offs. \<forall>j\<in>set entry_offs. i < j \<and> sec ! i = 0 \<longrightarrow> sec ! j = 0"
    "inj_on (name_at sec) {i. is_live sec i}"
  using assms unfolding dirsec_ok_def by blast+

lemma slot_first:
  assumes "find (\<lambda>i. sec ! i = 0 \<or> sec ! i = 0xE5) entry_offs = Some off"
  shows "\<forall>i\<in>set entry_offs. i < off \<longrightarrow> sec ! i \<noteq> 0"
proof (intro ballI impI)
  fix i assume "i \<in> set entry_offs" "i < off"
  moreover obtain n where "n < length entry_offs" "off = entry_offs ! n" "\<forall>j<n. sec ! (entry_offs ! j) \<noteq> 0"
    using assms by (auto simp: find_Some_iff)
  ultimately show "sec ! i \<noteq> 0" by (auto simp: entry_offs_iff entry_offs_def)
qed

text \<open>Storing over the live entry of the name, whose old cluster has been freed.\<close>

lemma overwrite_ok:
  assumes L: "fat32_layout fs n" and len: "\<forall>l. unat l < n \<longrightarrow> length (C l) = 512" and inv: "fat32_inv fs C"
    and off: "is_live (root_sec fs C) off" "name_at (root_sec fs C) off = nm"
    and bytes: "length bytes \<le> 512" "unat ln = length bytes"
  defines "C1 \<equiv> fat_update fs (entry_cluster (root_sec fs C) off) 0 C"
  assumes len1: "\<forall>l. unat l < n \<longrightarrow> length (C1 l) = 512" and c: "free_cluster fs C1 c"
  shows "fat32_inv fs (stored fs off nm c ln bytes C1)"
    and "fat32_files fs (stored fs off nm c ln bytes C1) = (fat32_files fs C)(nm \<mapsto> bytes)"
    and "unat l < unat (fat_start_lba fs) \<Longrightarrow> stored fs off nm c ln bytes C1 l = C l"
proof -
  let ?sec = "root_sec fs C" and ?c = "entry_cluster (root_sec fs C) off"
  have dir: "dirsec_ok ?sec" and E: "entries_ok fs C {}" and root: "fat_entry fs C (root_cluster fs) \<noteq> 0"
    using inv by (simp_all add: fat32_inv_def)
  note D = dirsec_okD [OF dir] and old = entries_okD [OF E off(1)]
  have cl: "is_cluster fs ?c" and N: "name83 nm" using old(1,5) off(2) by simp_all
  note U = fat_update_view [where v = 0, OF L len cl, folded C1_def]
  have keep: "entries_ok fs C1 {off}"
    unfolding entries_ok_def Let_def U(1)
  proof (intro conjI ballI)
    show "inj_on (entry_cluster ?sec) ({i. is_live ?sec i} - {off})"
      using E by (auto simp: entries_ok_def Let_def intro: inj_on_subset)
  next
    fix i assume i: "i \<in> {i. is_live ?sec i} - {off}"
    then have "entry_cluster ?sec i \<noteq> ?c" using entries_ok_inj [OF E, of i off] off(1) by auto
    then show "fat_entry fs C1 (entry_cluster ?sec i) \<noteq> 0" using i entries_okD [OF E, of i] U(2) by simp
  qed (use entries_okD [OF E] in auto)
  have root1: "fat_entry fs C1 (root_cluster fs) \<noteq> 0"
    using root U(2) [OF layout_root [OF L]] old(2) by auto
  have uniq: "\<forall>i. is_live ?sec i \<longrightarrow> i \<noteq> off \<longrightarrow> name_at ?sec i \<noteq> nm"
    using inj_onD [OF D(3)] off by blast
  have offs: "off \<in> set entry_offs" "\<forall>i\<in>set entry_offs. i < off \<longrightarrow> ?sec ! i \<noteq> 0"
    using D(2) off(1) unfolding is_live_def by blast+
  have inj: "inj_on (name_at ?sec) ({i. is_live ?sec i} - {off})" using D(3) by (rule inj_on_subset) auto
  note S = stored_inv [where fs = fs and C = C1, unfolded U(1), OF L len1 keep D(1,2) inj root1 offs N uniq c bytes]
  show "fat32_inv fs (stored fs off nm c ln bytes C1)" by (rule S(1))
  show "fat32_files fs (stored fs off nm c ln bytes C1) = (fat32_files fs C)(nm \<mapsto> bytes)"
  proof (rule map_eq_iff_Some)
    fix k d
    show "fat32_files fs (stored fs off nm c ln bytes C1) k = Some d \<longleftrightarrow> ((fat32_files fs C)(nm \<mapsto> bytes)) k = Some d"
      unfolding S(2) using uniq off U(3) entries_okD(1) [OF E] files_iff [OF inv] by (auto simp: map_upd_Some_unfold)
  qed
  show "unat l < unat (fat_start_lba fs) \<Longrightarrow> stored fs off nm c ln bytes C1 l = C l"
    using stored_view(5) [OF L len1 root1 c] U(4) by simp
qed

text \<open>Storing into the first unused entry.\<close>

lemma add_ok:
  assumes L: "fat32_layout fs n" and len: "\<forall>l. unat l < n \<longrightarrow> length (C l) = 512" and inv: "fat32_inv fs C"
    and off: "find (\<lambda>i. root_sec fs C ! i = 0 \<or> root_sec fs C ! i = 0xE5) entry_offs = Some off"
    and nm: "name83 nm" "fat32_files fs C nm = None"
    and bytes: "length bytes \<le> 512" "unat ln = length bytes" and c: "free_cluster fs C c"
  shows "fat32_inv fs (stored fs off nm c ln bytes C)"
    and "fat32_files fs (stored fs off nm c ln bytes C) = (fat32_files fs C)(nm \<mapsto> bytes)"
    and "unat l < unat (fat_start_lba fs) \<Longrightarrow> stored fs off nm c ln bytes C l = C l"
proof -
  let ?sec = "root_sec fs C"
  have dir: "dirsec_ok ?sec" and E: "entries_ok fs C {}" and root: "fat_entry fs C (root_cluster fs) \<noteq> 0"
    using inv by (simp_all add: fat32_inv_def)
  note D = dirsec_okD [OF dir]
  have offs: "off \<in> set entry_offs" "\<not> is_live ?sec off" using find_SomeD [OF off] by (auto simp: is_live_def)
  have new: "\<forall>i. is_live ?sec i \<longrightarrow> i \<noteq> off \<longrightarrow> name_at ?sec i \<noteq> nm"
    using nm(2) files_iff [OF inv, of nm] by auto
  have inj: "inj_on (name_at ?sec) ({i. is_live ?sec i} - {off})" using D(3) by (rule inj_on_subset) auto
  note S = stored_inv [OF L len entries_ok_empty [OF E] D(1,2) inj root offs(1) slot_first [OF off] nm(1) new c bytes]
  show "fat32_inv fs (stored fs off nm c ln bytes C)" by (rule S(1))
  show "fat32_files fs (stored fs off nm c ln bytes C) = (fat32_files fs C)(nm \<mapsto> bytes)"
  proof (rule map_eq_iff_Some)
    fix k d
    show "fat32_files fs (stored fs off nm c ln bytes C) k = Some d \<longleftrightarrow> ((fat32_files fs C)(nm \<mapsto> bytes)) k = Some d"
      unfolding S(2) using new offs(2) files_iff [OF inv] by (auto simp: map_upd_Some_unfold)
  qed
  show "unat l < unat (fat_start_lba fs) \<Longrightarrow> stored fs off nm c ln bytes C l = C l"
    by (rule stored_view(5) [OF L len root c])
qed

lemma fat32_write_at:
  assumes A: "at_disk (fs_dev fs) b good content C w" and L: "fat32_layout fs (unat (bd_sector_count b))"
    and inv: "fat32_inv fs C" and nm: "make_name83 name = Some nm"
    and len: "unat len \<le> 512" "unat len \<le> length data"
  shows "if fat32_files fs C nm \<noteq> None \<or> room_for_file fs C then
      \<exists>w' C'. fat32_write_file (Some fs) name (Some data) len w = Ok (0, w') \<and> at_disk (fs_dev fs) b good content C' w' \<and>
        fat32_inv fs C' \<and> fat32_files fs C' = (fat32_files fs C)(nm \<mapsto> take (unat len) data) \<and>
        (\<forall>l. unat l < unat (fat_start_lba fs) \<longrightarrow> C' l = C l)
    else \<exists>w'. fat32_write_file (Some fs) name (Some data) len w = Ok (-1, w') \<and> at_disk (fs_dev fs) b good content C w'"
proof -
  let ?sec = "root_sec fs C" and ?root = "cluster_to_lba fs (root_cluster fs)" and ?bytes = "take (unat len) data"
  note LN = at_disk_len [OF A] and N = make_name83_sound [OF nm]
  have dir: "dirsec_ok ?sec" and E: "entries_ok fs C {}" using inv by (simp_all add: fat32_inv_def)
  have spc: "\<not> 512 * sectors_per_cluster fs < len"
    using L len by (simp add: fat32_layout_def word_less_nat_alt unat_word_ariths)
  have bl: "length ?bytes \<le> 512" "unat len = length ?bytes" using len by simp_all
  obtain w1 where w1: "read_sec (fs_dev fs) ?root w = Ok (Some ?sec, w1)" "at_disk (fs_dev fs) b good content C w1"
    using read_root_at [OF A L] by blast
  obtain w2 where w2: "find_root_entry fs nm w1 = Ok (map_option (\<lambda>i. (?root, i)) (scan_entries ?sec nm entry_offs), w2)"
      "at_disk (fs_dev fs) b good content C w2"
    using find_root_entry_at [OF w1(2) L] by blast
  show ?thesis
  proof (cases "scan_entries ?sec nm entry_offs")
    case (Some off)
    then have off: "is_live ?sec off" "name_at ?sec off = nm" using scan_entries_iff [OF dir N] by simp_all
    then have offs: "off \<in> set entry_offs" by (simp add: is_live_def)
    let ?c = "entry_cluster ?sec off"
    have cl: "is_cluster fs ?c" using entries_okD(1) [OF E off(1)] by simp
    then have "unat ?c < unat (total_clusters fs) + 2" by (simp add: is_cluster_def)
    from fat_set_at [OF w2(2) L this] obtain w3 where w3: "fat_set fs ?c 0 w2 = Ok (Some (), w3)"
        "at_disk (fs_dev fs) b good content (fat_update fs ?c 0 C) w3" by blast
    have "free_cluster fs (fat_update fs ?c 0 C) ?c"
      using cl fat_update_view(2) [OF L LN cl cl] by (simp add: free_cluster_def)
    with store_file_at [OF w3(2) L offs N len] obtain c w4 where c: "free_cluster fs (fat_update fs ?c 0 C) c"
        and w4: "store_file fs ?root ?sec off nm data len w3 = Ok (0, w4)"
          "at_disk (fs_dev fs) b good content (stored fs off nm c len ?bytes (fat_update fs ?c 0 C)) w4"
      unfolding fat_update_view(1) [OF L LN cl] by blast
    have run: "fat32_write_file (Some fs) name (Some data) len w = Ok (0, w4)"
      using spc nm w1(1) w2(1) Some w3(1) w4(1) cl
      by (simp add: fat32_write_file_def Let_def is_cluster_def word_le_nat_alt)
    have "fat32_files fs C nm \<noteq> None" using files_iff [OF inv] off by blast
    then show ?thesis using run w4(2) overwrite_ok [OF L LN inv off bl at_disk_len [OF w3(2)] c] by auto
  next
    case None
    then have fresh: "fat32_files fs C nm = None" by (simp add: fat32_files_def)
    let ?slot = "find (\<lambda>i. ?sec ! i = 0 \<or> ?sec ! i = 0xE5) entry_offs"
    have run: "fat32_write_file (Some fs) name (Some data) len w =
        (case ?slot of None \<Rightarrow> give_up ''root directory is full'' w2
         | Some off \<Rightarrow> store_file fs ?root ?sec off nm data len w2)"
      using spc nm w1(1) w2(1) None by (simp add: fat32_write_file_def Let_def)
    show ?thesis
    proof (cases ?slot)
      case None
      then have "\<not> room_for_file fs C" by (auto simp: room_for_file_def find_None_iff)
      then show ?thesis using run None fresh give_up_at [OF w2(2)] by simp
    next
      case (Some off)
      note off = find_SomeD [OF Some]
      from store_file_at [OF w2(2) L conjunct1 [OF off] N len] consider
        (ok) c w4 where "free_cluster fs C c" "store_file fs ?root ?sec off nm data len w2 = Ok (0, w4)"
          "at_disk (fs_dev fs) b good content (stored fs off nm c len ?bytes C) w4"
        | (full) w4 where "\<forall>c. \<not> free_cluster fs C c" "store_file fs ?root ?sec off nm data len w2 = Ok (-1, w4)"
          "at_disk (fs_dev fs) b good content C w4" by blast
      then show ?thesis
      proof cases
        case (ok c w4)
        then have "room_for_file fs C" using off by (auto simp: room_for_file_def)
        then show ?thesis using run Some ok add_ok [OF L LN inv Some N fresh bl ok(1)] by auto
      next
        case (full w4)
        then show ?thesis using run Some fresh by (auto simp: room_for_file_def)
      qed
    qed
  qed
qed

text \<open>Deleting the live entry of a name.\<close>

definition deleted :: "fat32_fs \<Rightarrow> nat \<Rightarrow> (u32 \<Rightarrow> u8 list) \<Rightarrow> u32 \<Rightarrow> u8 list" where
  "deleted fs off C = (fat_update fs (entry_cluster (root_sec fs C) off) 0 C)
     (cluster_to_lba fs (root_cluster fs) := (root_sec fs C)[off := 0xE5])"

lemma mark_entry:
  assumes "length sec = 512" and "is_live sec off"
  defines "sec2 \<equiv> sec[off := 0xE5]"
  shows "is_live sec2 j \<longleftrightarrow> is_live sec j \<and> j \<noteq> off"
    and "is_live sec j \<Longrightarrow> j \<noteq> off \<Longrightarrow> name_at sec2 j = name_at sec j \<and> entry_cluster sec2 j = entry_cluster sec j \<and>
      rd32 sec2 (j + 28) = rd32 sec (j + 28)"
proof -
  have off: "off \<in> set entry_offs" using assms(2) by (simp add: is_live_def)
  have ent: "is_live sec2 j = is_live sec j" "name_at sec2 j = name_at sec j"
      "entry_cluster sec2 j = entry_cluster sec j" "rd32 sec2 (j + 28) = rd32 sec (j + 28)"
    if "j \<in> set entry_offs" "j \<noteq> off"
  proof -
    have "sec2 ! (j + k) = sec ! (j + k)" if "k < 32" for k
      using entry_offs_apart [OF \<open>j \<in> set entry_offs\<close> off \<open>j \<noteq> off\<close>] that by (auto simp: sec2_def)
    from entry_same [OF _ assms(1) that(1) this]
    show "is_live sec2 j = is_live sec j" "name_at sec2 j = name_at sec j"
      "entry_cluster sec2 j = entry_cluster sec j" "rd32 sec2 (j + 28) = rd32 sec (j + 28)"
      using assms(1) by (simp_all add: sec2_def)
  qed
  have "\<not> is_live sec2 off" using assms(1) entry_offs_bound [OF off] by (simp add: is_live_def sec2_def)
  then show "is_live sec2 j \<longleftrightarrow> is_live sec j \<and> j \<noteq> off"
    using ent(1) by (auto simp: is_live_def)
  show "is_live sec j \<Longrightarrow> j \<noteq> off \<Longrightarrow> name_at sec2 j = name_at sec j \<and> entry_cluster sec2 j = entry_cluster sec j \<and>
      rd32 sec2 (j + 28) = rd32 sec (j + 28)"
    using ent(2-4) by (simp add: is_live_def)
qed

lemma delete_ok:
  assumes L: "fat32_layout fs n" and len: "\<forall>l. unat l < n \<longrightarrow> length (C l) = 512" and inv: "fat32_inv fs C"
    and off: "is_live (root_sec fs C) off" "name_at (root_sec fs C) off = nm"
  shows "fat32_inv fs (deleted fs off C)"
    and "fat32_files fs (deleted fs off C) = (fat32_files fs C)(nm := None)"
    and "unat l < unat (fat_start_lba fs) \<Longrightarrow> deleted fs off C l = C l"
proof -
  let ?sec = "root_sec fs C" and ?c = "entry_cluster (root_sec fs C) off" and ?D = "deleted fs off C"
  let ?C1 = "fat_update fs ?c 0 C"
  have dir: "dirsec_ok ?sec" and E: "entries_ok fs C {}" and root: "fat_entry fs C (root_cluster fs) \<noteq> 0"
    using inv by (simp_all add: fat32_inv_def)
  note D = dirsec_okD [OF dir] and old = entries_okD [OF E off(1)] and R = layout_root [OF L]
  have cl: "is_cluster fs ?c" using old(1) by simp
  note U = fat_update_view [where v = 0, OF L len cl]
  have sec2: "root_sec fs ?D = ?sec[off := 0xE5]" by (simp add: deleted_def root_sec_def)
  note M = mark_entry [OF D(1) off(1), folded sec2]
  have fat: "fat_entry fs ?D k = (if k = ?c then 0 else fat_entry fs C k)" if "is_cluster fs k" for k
  proof -
    have "fat_entry fs ?D k = fat_entry fs ?C1 k"
      using that cluster_pos(3) [OF L R] by (intro fat_entry_data [OF L]) (auto simp: deleted_def is_cluster_def)
    then show ?thesis using U(2) [OF that] by simp
  qed
  have data: "?D (cluster_to_lba fs k) = C (cluster_to_lba fs k)" if "is_cluster fs k" "k \<noteq> root_cluster fs" for k
    using that cluster_inj [OF L that(1) R] fat_update_cluster [OF L cl that(1)] by (simp add: deleted_def)
  have fl: "file_at fs ?D j = file_at fs C j" if "is_live ?sec j" "j \<noteq> off" for j
    using M(2) [OF that] data entries_okD(1,2) [OF E that(1)] by (simp add: file_at_def)
  have sub: "{i. is_live (root_sec fs ?D) i} = {i. is_live ?sec i} - {off}" using M(1) by auto
  have "dirsec_ok (root_sec fs ?D)" unfolding dirsec_ok_def sub
  proof (intro conjI ballI impI)
    show "length (root_sec fs ?D) = 512" using D(1) by (simp add: sec2)
    fix i j assume ij: "i \<in> set entry_offs" "j \<in> set entry_offs" "i < j \<and> root_sec fs ?D ! i = 0"
    have "off < 512" using entry_offs_bound [of off] off(1) by (simp add: is_live_def)
    then have i: "i \<noteq> off" "?sec ! i = 0" using ij(3) D(1) by (auto simp: sec2 nth_list_update split: if_splits)
    then have "?sec ! j = 0" using D(2) ij by blast
    moreover from this have "j \<noteq> off" using off(1) by (auto simp: is_live_def)
    ultimately show "root_sec fs ?D ! j = 0" by (simp add: sec2)
  next
    have "inj_on (name_at ?sec) ({i. is_live ?sec i} - {off})" using D(3) by (rule inj_on_subset) auto
    then show "inj_on (name_at (root_sec fs ?D)) ({i. is_live ?sec i} - {off})"
      by (rule inj_on_cong [THEN iffD1, rotated]) (use M(2) in auto)
  qed
  moreover have "entries_ok fs ?D {}" unfolding entries_ok_def Let_def sub
  proof (intro conjI ballI)
    have "inj_on (entry_cluster ?sec) ({i. is_live ?sec i} - {off})"
      using E by (auto simp: entries_ok_def Let_def intro: inj_on_subset)
    then show "inj_on (entry_cluster (root_sec fs ?D)) ({i. is_live ?sec i} - {off} - {})"
      by (subst inj_on_cong [where g = "entry_cluster ?sec"]) (use M(2) in auto)
  next
    fix i assume "i \<in> {i. is_live ?sec i} - {off} - {}"
    then have i: "is_live ?sec i" "i \<noteq> off" by auto
    note o' = entries_okD [OF E i(1)] and m = M(2) [OF i]
    have ne: "entry_cluster ?sec i \<noteq> ?c" using entries_ok_inj [OF E, of i off] off(1) i by auto
    show "is_cluster fs (entry_cluster (root_sec fs ?D) i)" "entry_cluster (root_sec fs ?D) i \<noteq> root_cluster fs"
      "fat_entry fs ?D (entry_cluster (root_sec fs ?D) i) \<noteq> 0" "unat (rd32 (root_sec fs ?D) (i + 28)) \<le> 512"
      "name83 (name_at (root_sec fs ?D) i)"
      using o' m fat ne by auto
  qed
  moreover have "fat_entry fs ?D (root_cluster fs) \<noteq> 0" using fat [OF R] root old(2) by auto
  ultimately show inv': "fat32_inv fs ?D" by (simp add: fat32_inv_def)
  show "fat32_files fs ?D = (fat32_files fs C)(nm := None)"
  proof (rule map_eq_iff_Some)
    fix k d
    have uniq: "\<forall>i. is_live ?sec i \<longrightarrow> name_at ?sec i = nm \<longrightarrow> i = off" using inj_onD [OF D(3)] off by blast
    have "fat32_files fs ?D k = Some d \<longleftrightarrow>
        (\<exists>i. is_live ?sec i \<and> i \<noteq> off \<and> name_at ?sec i = k \<and> d = file_at fs C i)"
      unfolding files_iff [OF inv'] M(1) using M(2) fl by (intro ex_cong1) auto
    also have "\<dots> \<longleftrightarrow> k \<noteq> nm \<and> fat32_files fs C k = Some d"
      unfolding files_iff [OF inv] using uniq off by blast
    finally show "fat32_files fs ?D k = Some d \<longleftrightarrow> ((fat32_files fs C)(nm := None)) k = Some d" by simp
  qed
  show "unat l < unat (fat_start_lba fs) \<Longrightarrow> ?D l = C l"
    using U(4) [of l] cluster_pos(3) [OF L R] L by (auto simp: deleted_def fat32_layout_def)
qed

lemma fat32_delete_at:
  assumes A: "at_disk (fs_dev fs) b good content C w" and L: "fat32_layout fs (unat (bd_sector_count b))"
    and inv: "fat32_inv fs C" and nm: "make_name83 name = Some nm"
  shows "if fat32_files fs C nm \<noteq> None then
      \<exists>w' C'. fat32_delete_file (Some fs) name w = Ok (0, w') \<and> at_disk (fs_dev fs) b good content C' w' \<and>
        fat32_inv fs C' \<and> fat32_files fs C' = (fat32_files fs C)(nm := None) \<and>
        (\<forall>l. unat l < unat (fat_start_lba fs) \<longrightarrow> C' l = C l)
    else \<exists>w'. fat32_delete_file (Some fs) name w = Ok (-1, w') \<and> at_disk (fs_dev fs) b good content C w'"
proof -
  let ?sec = "root_sec fs C" and ?root = "cluster_to_lba fs (root_cluster fs)"
  note LN = at_disk_len [OF A] and N = make_name83_sound [OF nm]
  have dir: "dirsec_ok ?sec" and E: "entries_ok fs C {}" using inv by (simp_all add: fat32_inv_def)
  obtain w1 where w1: "find_root_entry fs nm w = Ok (map_option (\<lambda>i. (?root, i)) (scan_entries ?sec nm entry_offs), w1)"
      "at_disk (fs_dev fs) b good content C w1"
    using find_root_entry_at [OF A L] by blast
  show ?thesis
  proof (cases "scan_entries ?sec nm entry_offs")
    case None
    then show ?thesis using w1 nm give_up_at [OF w1(2)] by (simp add: fat32_delete_file_def fat32_files_def)
  next
    case (Some off)
    then have off: "is_live ?sec off" "name_at ?sec off = nm" using scan_entries_iff [OF dir N] by simp_all
    let ?c = "entry_cluster ?sec off"
    have cl: "is_cluster fs ?c" using entries_okD(1) [OF E off(1)] by simp
    then have cl': "unat ?c < unat (total_clusters fs) + 2" by (simp add: is_cluster_def)
    obtain w2 where w2: "read_sec (fs_dev fs) ?root w1 = Ok (Some ?sec, w2)" "at_disk (fs_dev fs) b good content C w2"
      using read_root_at [OF w1(2) L] by blast
    obtain w3 where w3: "fat_set fs ?c 0 w2 = Ok (Some (), w3)"
        "at_disk (fs_dev fs) b good content (fat_update fs ?c 0 C) w3"
      using fat_set_at [OF w2(2) L cl'] by blast
    have "length (?sec[off := 0xE5]) = 512" using dirsec_okD(1) [OF dir] by simp
    from write_sec_at [OF w3(2) cluster_lba_less [OF L layout_root [OF L]] this] obtain w4 where
      w4: "write_sec (fs_dev fs) ?root (?sec[off := 0xE5]) w3 = Ok (Some (), w4)"
        "at_disk (fs_dev fs) b good content (deleted fs off C) w4" by (auto simp: deleted_def)
    have "fat32_delete_file (Some fs) name w = Ok (0, fat32_set_error (Some (lit ''ok'')) w4)"
      using w1(1) w2(1) w3(1) w4(1) nm Some cl
      by (simp add: fat32_delete_file_def Let_def is_cluster_def word_le_nat_alt)
    moreover have "fat32_files fs C nm \<noteq> None" using files_iff [OF inv] off by blast
    ultimately show ?thesis using w4(2) delete_ok [OF L LN inv off] by auto
  qed
qed

lemma fat32_read_at:
  assumes A: "at_disk (fs_dev fs) b good content C w" and L: "fat32_layout fs (unat (bd_sector_count b))"
    and inv: "fat32_inv fs C" and nm: "make_name83 name = Some nm"
    and buf: "cap \<noteq> 0" "length buf = unat cap"
  shows "case fat32_files fs C nm of
      None \<Rightarrow> \<exists>w'. fat32_read_file (Some fs) name (Some buf) cap w = Ok (-1, None, w') \<and> at_disk (fs_dev fs) b good content C w'
    | Some d \<Rightarrow> \<exists>w'. at_disk (fs_dev fs) b good content C w' \<and> length d \<le> 512 \<and>
        fat32_read_file (Some fs) name (Some buf) cap w =
          (if length d < unat cap then Ok (0, Some (blit buf 0 (d @ [0]), of_nat (length d)), w') else Ok (-1, None, w'))"
proof -
  let ?sec = "root_sec fs C" and ?root = "cluster_to_lba fs (root_cluster fs)"
  note N = make_name83_sound [OF nm]
  have dir: "dirsec_ok ?sec" and E: "entries_ok fs C {}" using inv by (simp_all add: fat32_inv_def)
  obtain w1 where w1: "find_root_entry fs nm w = Ok (map_option (\<lambda>i. (?root, i)) (scan_entries ?sec nm entry_offs), w1)"
      "at_disk (fs_dev fs) b good content C w1"
    using find_root_entry_at [OF A L] by blast
  show ?thesis
  proof (cases "scan_entries ?sec nm entry_offs")
    case None
    then show ?thesis using w1 nm buf by (simp add: fat32_read_file_def fat32_files_def Let_def)
  next
    case (Some off)
    then have off: "is_live ?sec off" using scan_entries_iff [OF dir N] by simp
    note o' = entries_okD [OF E off]
    let ?c = "entry_cluster ?sec off" and ?n = "rd32 ?sec (off + 28)"
    have cl: "is_cluster fs ?c" and n: "unat ?n \<le> 512" using o'(1,4) by simp_all
    have fl: "fat32_files fs C nm = Some (file_at fs C off)" using Some N by (simp add: fat32_files_def)
    have len: "length (file_at fs C off) = unat ?n"
      using at_disk_length [OF A cluster_lba_less [OF L cl]] n by (simp add: file_at_def)
    obtain w2 where w2: "read_sec (fs_dev fs) ?root w1 = Ok (Some ?sec, w2)" "at_disk (fs_dev fs) b good content C w2"
      using read_root_at [OF w1(2) L] by blast
    obtain w3 where w3: "read_sec (fs_dev fs) (cluster_to_lba fs ?c) w2 = Ok (Some (C (cluster_to_lba fs ?c)), w3)"
        "at_disk (fs_dev fs) b good content C w3"
      using read_sec_at [OF w2(2) cluster_lba_less [OF L cl]] by blast
    have n1: "?n + 1 \<le> cap \<longleftrightarrow> unat ?n < unat cap"
      using n by (simp add: word_le_nat_alt unat_word_ariths Suc_le_eq)
    show ?thesis
    proof (cases "unat ?n < unat cap")
      case True
      then have "fat32_read_file (Some fs) name (Some buf) cap w =
          Ok (0, Some (blit buf 0 (file_at fs C off @ [0]), ?n), fat32_set_error (Some (lit ''ok'')) w3)"
        using w1(1) w2(1) w3(1) nm Some cl n n1 buf
        by (simp add: fat32_read_file_def Let_def is_cluster_def word_le_nat_alt word_less_nat_alt file_at_def)
      then show ?thesis using fl len True w3(2) n by auto
    next
      case False
      then have "fat32_read_file (Some fs) name (Some buf) cap w =
          Ok (-1, None, fat32_set_error (Some (lit ''output buffer too small'')) w2)"
        using w1(1) w2(1) nm Some cl n1 buf
        by (simp add: fat32_read_file_def Let_def is_cluster_def word_le_nat_alt word_less_nat_alt)
      then show ?thesis using fl len False w2(2) n by auto
    qed
  qed
qed

end
