(* ===== verification/Fat32_Format.thy ===== *)
theory Fat32_Format
  imports Fat32_Spec
begin

text \<open>
  Listing, formatting and mounting on a disk, a disk in memory to try the driver on, and the properties of
  the FAT32 component.
\<close>

section \<open>Listing\<close>

lemma list_entries_eq:
  "list_entries sec room offs =
     map (\<lambda>i. \<lparr>fe_name83 = take 11 (drop i sec) @ [0], fe_size = rd32 sec (i + 28)\<rparr>)
       (take room (filter (\<lambda>i. sec ! i \<noteq> 0xE5 \<and> sec ! (i + 11) AND 0x0F \<noteq> 0x0F) (takeWhile (\<lambda>i. sec ! i \<noteq> 0) offs)))"
proof (induction sec room offs rule: list_entries.induct)
  case (2 sec room i offs)
  then show ?case by (cases room) auto
qed simp

text \<open>The entries of a directory sector with room for all of them.\<close>

lemma list_entries_live:
  assumes "dirsec_ok sec" and "16 \<le> room"
  shows "length (list_entries sec room entry_offs) \<le> 16"
    and "set (list_entries sec room entry_offs) =
      (\<lambda>i. \<lparr>fe_name83 = name_at sec i @ [0], fe_size = rd32 sec (i + 28)\<rparr>) ` {i. is_live sec i}"
    and "distinct (map fe_name83 (list_entries sec room entry_offs))"
proof -
  let ?L = "filter (\<lambda>i. sec ! i \<noteq> 0xE5 \<and> sec ! (i + 11) AND 0x0F \<noteq> 0x0F) (takeWhile (\<lambda>i. sec ! i \<noteq> 0) entry_offs)"
  have "length ?L \<le> length entry_offs"
    by (rule order.trans [OF length_filter_le length_takeWhile_le])
  then have len: "length ?L \<le> 16" by (simp add: entry_offs_def)
  have L: "set ?L = {i. is_live sec i}" using live_set [OF assms(1)] by auto
  have "distinct entry_offs" by (simp add: entry_offs_def distinct_map inj_on_def)
  then have d: "distinct ?L" by (intro distinct_filter distinct_takeWhile)
  have es: "list_entries sec room entry_offs = map (\<lambda>i. \<lparr>fe_name83 = name_at sec i @ [0], fe_size = rd32 sec (i + 28)\<rparr>) ?L"
    using len assms(2) unfolding list_entries_eq name_at_def by simp
  show "length (list_entries sec room entry_offs) \<le> 16" using len unfolding es by simp
  show "set (list_entries sec room entry_offs) =
      (\<lambda>i. \<lparr>fe_name83 = name_at sec i @ [0], fe_size = rd32 sec (i + 28)\<rparr>) ` {i. is_live sec i}"
    unfolding es set_map L ..
  have "inj_on (\<lambda>i. name_at sec i @ [0]) (set ?L)"
    using assms(1) unfolding L dirsec_ok_def inj_on_def by simp
  then have "distinct (map (\<lambda>i. name_at sec i @ [0]) ?L)" using d by (simp add: distinct_map)
  then show "distinct (map fe_name83 (list_entries sec room entry_offs))"
    unfolding es by (simp add: comp_def)
qed

lemma fat32_list_at:
  assumes A: "at_disk (fs_dev fs) b good content C w" and L: "fat32_layout fs (unat (bd_sector_count b))"
    and inv: "fat32_inv fs C" and cap: "16 \<le> unat cap" "length arr = unat cap"
  shows "\<exists>es w'. fat32_list_root (Some fs) (Some arr) cap w = Ok (0, Some (blit arr 0 es, of_nat (length es)), w') \<and>
    at_disk (fs_dev fs) b good content C w' \<and> distinct (map fe_name83 es) \<and>
    (\<forall>e. e \<in> set es \<longleftrightarrow> (\<exists>nm d. fat32_files fs C nm = Some d \<and> e = \<lparr>fe_name83 = nm @ [0], fe_size = of_nat (length d)\<rparr>))"
proof -
  let ?sec = "root_sec fs C"
  have dir: "dirsec_ok ?sec" and E: "entries_ok fs C {}" using inv by (simp_all add: fat32_inv_def)
  obtain w1 where w1: "read_sec (fs_dev fs) (cluster_to_lba fs (root_cluster fs)) w = Ok (Some ?sec, w1)"
      "at_disk (fs_dev fs) b good content C w1"
    using read_root_at [OF A L] by blast
  let ?es = "list_entries ?sec (unat cap) entry_offs"
  note P = list_entries_live [OF dir cap(1)]
  have cap0: "cap \<noteq> 0" using cap(1) by auto
  have run: "fat32_list_root (Some fs) (Some arr) cap w = Ok (0, Some (blit arr 0 ?es, of_nat (length ?es)), w1)"
    using w1(1) cap0 cap P(1) by (simp add: fat32_list_root_def Let_def)
  have size: "of_nat (length (file_at fs C i)) = rd32 ?sec (i + 28)" if "is_live ?sec i" for i
    using entries_okD(1,4) [OF E that] at_disk_length [OF A cluster_lba_less [OF L]] by (simp add: file_at_def)
  have "e \<in> set ?es \<longleftrightarrow> (\<exists>nm d. fat32_files fs C nm = Some d \<and> e = \<lparr>fe_name83 = nm @ [0], fe_size = of_nat (length d)\<rparr>)" for e
  proof
    assume "e \<in> set ?es"
    then obtain i where "is_live ?sec i" "e = \<lparr>fe_name83 = name_at ?sec i @ [0], fe_size = rd32 ?sec (i + 28)\<rparr>"
      unfolding P(2) by blast
    then show "\<exists>nm d. fat32_files fs C nm = Some d \<and> e = \<lparr>fe_name83 = nm @ [0], fe_size = of_nat (length d)\<rparr>"
      using size files_iff [OF inv] by (intro exI [of _ "name_at ?sec i"] exI [of _ "file_at fs C i"]) auto
  next
    assume "\<exists>nm d. fat32_files fs C nm = Some d \<and> e = \<lparr>fe_name83 = nm @ [0], fe_size = of_nat (length d)\<rparr>"
    then show "e \<in> set ?es" unfolding P(2) files_iff [OF inv] using size by auto
  qed
  then show ?thesis using run w1(2) P(3) by blast
qed

section \<open>The size of the tables\<close>

text \<open>
  The sectors a table needs when there are two tables of \<open>s\<close> sectors on a disk of \<open>n\<close>, and the size at
  which this is a fixed point: there is one unless the remainder of \<open>n\<close> by 130 is 31 or 32.
\<close>

definition fat_need :: "nat \<Rightarrow> nat \<Rightarrow> nat" where
  "fat_need n s = (n + 97 - 2 * s) div 128"

lemma fat_need_between: "2 * s \<le> n \<Longrightarrow> 128 * fat_need n s + 2 * s \<le> n + 97 \<and> n + 97 < 128 * fat_need n s + 128 + 2 * s"
  unfolding fat_need_def by linarith

lemma format_layout_step:
  assumes n: "256 \<le> unat n" "unat n < 2 ^ 28" and s: "8 * unat s \<le> unat n"
  shows "format_layout (Suc k) n s =
      (if fat_need (unat n) (unat s) = unat s then Some s else format_layout k n (of_nat (fat_need (unat n) (unat s))))"
    and "8 * fat_need (unat n) (unat s) \<le> unat n"
    and "unat (of_nat (fat_need (unat n) (unat s)) :: u32) = fat_need (unat n) (unat s)"
proof -
  have n': "unat n < 268435456" using n(2) by simp
  show b: "8 * fat_need (unat n) (unat s) \<le> unat n" using fat_need_between [of "unat s" "unat n"] n s by linarith
  then show u: "unat (of_nat (fat_need (unat n) (unat s)) :: u32) = fat_need (unat n) (unat s)"
    using n' by (intro unat_of_nat32) linarith
  have s2: "unat (2 * s) = 2 * unat s" using n s by (simp add: unat_word_ariths)
  have m: "unat (32 + 2 * s + 1) = 33 + 2 * unat s" using n s s2 by (simp add: unat_word_ariths)
  have d1: "unat (n - 32) = unat n - 32" using n by (subst unat_sub) (simp_all add: word_le_nat_alt)
  have d: "unat (data_sectors n s) = unat n - 32 - 2 * unat s"
    unfolding data_sectors_def using n s s2 d1 by (subst unat_sub) (simp_all add: word_le_nat_alt)
  let ?b = "(data_sectors n s div 1 + 2) * 4"
  have b4: "unat (?b + 511) = (unat n - 30 - 2 * unat s) * 4 + 511"
    using d n s by (simp add: unat_word_ariths)
  have mask: "(511 :: u32) = mask 9" by (simp add: mask_eq_exp_minus_1)
  have "unat (((?b + 511) AND NOT 511) div 512) = unat (?b + 511) div 512"
    unfolding mask unat_div unat_and_not_mask by simp
  also have "\<dots> = fat_need (unat n) (unat s)"
    unfolding b4 fat_need_def using n s by linarith
  finally have "((?b + 511) AND NOT 511) div 512 = of_nat (fat_need (unat n) (unat s))"
    using u by (simp add: word_unat_eq_iff)
  moreover have "of_nat (fat_need (unat n) (unat s)) = s \<longleftrightarrow> fat_need (unat n) (unat s) = unat s"
    using u by (simp add: word_unat_eq_iff)
  moreover have "\<not> n \<le> 32 + 2 * s + 1" using n s m by (simp add: word_le_nat_alt)
  ultimately show "format_layout (Suc k) n s =
      (if fat_need (unat n) (unat s) = unat s then Some s else format_layout k n (of_nat (fat_need (unat n) (unat s))))"
    by (simp add: Let_def)
qed

lemma format_layout_path:
  assumes "256 \<le> unat n" and "unat n < 2 ^ 28" and "fat_need (unat n) t = t"
    and "(fat_need (unat n) ^^ j) (unat s) = t" and "j < k" and "8 * unat s \<le> unat n"
  shows "format_layout k n s = Some (of_nat t)"
  using assms(4-6)
proof (induction j arbitrary: k s)
  case 0
  then obtain k' where "k = Suc k'" by (cases k) auto
  then show ?case using format_layout_step(1) [OF assms(1,2) 0(3)] 0(1) assms(3) by (auto simp: word_unat_eq_iff)
next
  case (Suc j)
  note st = format_layout_step [OF assms(1,2) Suc.prems(3)]
  obtain k' where k: "k = Suc k'" using Suc.prems(2) by (cases k) auto
  show ?case
  proof (cases "fat_need (unat n) (unat s) = unat s")
    case True
    then have "(fat_need (unat n) ^^ m) (unat s) = unat s" for m by (induction m) simp_all
    then have "t = unat s" using Suc.prems(1) by metis
    then show ?thesis using st(1) True k by simp
  next
    case False
    have "format_layout k' n (of_nat (fat_need (unat n) (unat s))) = Some (of_nat t)"
      using Suc.prems(1,2) k st(2,3) by (intro Suc.IH) (simp_all add: funpow_swap1)
    then show ?thesis using st(1) False k by simp
  qed
qed

lemma fat_need_near:
  assumes "130 * t \<le> n + 97" and "n \<le> 130 * t + 30" and "s \<le> t + d" and "t \<le> s + d" and "d \<le> 64 * e" and "8 * s \<le> n"
  shows "fat_need n s \<le> t + e \<and> t \<le> fat_need n s + e"
  using fat_need_between [of s n] assms by linarith

lemma fat_need_small: "256 \<le> n \<Longrightarrow> 8 * s \<le> n \<Longrightarrow> 8 * fat_need n s \<le> n"
  using fat_need_between [of s n] by linarith

text \<open>Six rounds from one sector reach the fixed point: the distance shrinks by 64 each round.\<close>

lemma fat_need_converges:
  assumes n: "256 \<le> n" "n < 2 ^ 28" and t: "130 * t \<le> n + 97" "n \<le> 130 * t + 30"
  shows "(fat_need n ^^ 6) 1 = t" and "fat_need n t = t"
proof -
  define s1 s2 s3 s4 s5 where S: "s1 = fat_need n 1" "s2 = fat_need n s1" "s3 = fat_need n s2" "s4 = fat_need n s3"
    "s5 = fat_need n s4"
  have n': "n < 268435456" using n(2) by simp
  have b: "8 * s1 \<le> n" "8 * s2 \<le> n" "8 * s3 \<le> n" "8 * s4 \<le> n" "8 * s5 \<le> n"
    unfolding S using n(1) by (auto intro!: fat_need_small)
  have d1: "s1 \<le> t + 32768 \<and> t \<le> s1 + 32768"
    unfolding S by (rule fat_need_near [OF t, where d = 2097152]) (use n n' t in linarith)+
  have d2: "s2 \<le> t + 512 \<and> t \<le> s2 + 512"
    unfolding S(2) by (rule fat_need_near [OF t, where d = 32768]) (use d1 b in linarith)+
  have d3: "s3 \<le> t + 8 \<and> t \<le> s3 + 8"
    unfolding S(3) by (rule fat_need_near [OF t, where d = 512]) (use d2 b in linarith)+
  have d4: "s4 \<le> t + 1 \<and> t \<le> s4 + 1"
    unfolding S(4) by (rule fat_need_near [OF t, where d = 8]) (use d3 b in linarith)+
  note B = fat_need_between
  have t8: "8 * t \<le> n" using n t by linarith
  show fix_t: "fat_need n t = t" using B [of t n] t t8 by linarith
  have low: "fat_need n s = t \<or> fat_need n s = t + 1 \<and> n \<ge> 130 * t + 29" if "s + 1 = t" for s
    using B [of s n] t t8 that by linarith
  have high: "fat_need n s = t \<or> fat_need n s + 1 = t \<and> n \<le> 130 * t - 96" if "s = t + 1" "8 * s \<le> n" for s
    using B [of s n] t that by linarith
  have "fat_need n s5 = t"
  proof (cases "s4 = t")
    case True
    then show ?thesis using fix_t S(5) by simp
  next
    case False
    then consider "s4 + 1 = t" | "s4 = t + 1" using d4 by linarith
    then show ?thesis
    proof cases
      case 1
      then have "s5 = t \<or> s5 = t + 1 \<and> n \<ge> 130 * t + 29" using low S(5) by simp
      then show ?thesis using fix_t high [of s5] b(5) t by auto
    next
      case 2
      then have "s5 = t \<or> s5 + 1 = t \<and> n \<le> 130 * t - 96" using high b(4) S(5) by simp
      then show ?thesis using fix_t low [of s5] n(1) by auto
    qed
  qed
  then show "(fat_need n ^^ 6) 1 = t" by (simp add: S numeral_eq_Suc)
qed

text \<open>Without a fixed point every round changes sides, and the eighth ends below.\<close>

lemma fat_need_alternates:
  assumes n: "256 \<le> n" and t: "130 * t = n + 98 \<or> 130 * t = n + 99" and s: "8 * s \<le> n"
  shows "s < t \<Longrightarrow> t \<le> fat_need n s" and "t \<le> s \<Longrightarrow> fat_need n s < t"
  using fat_need_between [of s n] t n s by linarith+

lemma fat_need_pos: "256 \<le> n \<Longrightarrow> 8 * s \<le> n \<Longrightarrow> 0 < fat_need n s"
  by (simp add: fat_need_def div_greater_zero_iff)

lemma format_layout_oscillates:
  assumes n: "256 \<le> unat n" "unat n < 2 ^ 28" and t: "130 * t = unat n + 98 \<or> 130 * t = unat n + 99"
    and s: "8 * unat s \<le> unat n" and side: "unat s < t \<longleftrightarrow> even k" and pos: "0 < unat s"
  shows "\<exists>spf. format_layout k n s = Some spf \<and> 8 * unat spf \<le> unat n \<and> unat spf < t \<and> 0 < unat spf"
  using s side pos
proof (induction k arbitrary: s)
  case (Suc k)
  note st = format_layout_step [OF n Suc.prems(1)] and alt = fat_need_alternates [OF n(1) t Suc.prems(1)]
  have "fat_need (unat n) (unat s) \<noteq> unat s" using alt by force
  moreover have "(fat_need (unat n) (unat s) < t) = even k" using alt Suc.prems(2) by (metis even_Suc leD leI)
  moreover have "0 < fat_need (unat n) (unat s)" by (rule fat_need_pos [OF n(1) Suc.prems(1)])
  ultimately show ?case using st Suc.IH [of "of_nat (fat_need (unat n) (unat s))"] by simp
qed auto

lemma fat_need_covers:
  assumes "2 * s + 32 \<le> n"
  shows "(n - 32 - 2 * s + 2) * 4 \<le> 512 * s \<longleftrightarrow> fat_need n s \<le> s"
proof -
  obtain m where "n = 2 * s + 32 + m" using assms by (metis le_iff_add)
  then show ?thesis by (simp add: fat_need_def less_Suc_eq_le [symmetric] div_less_iff_less_mult) linarith
qed

text \<open>The disks that have a fixed point.\<close>

lemma layout_target:
  shows "n mod 130 \<notin> {31, 32} \<Longrightarrow> \<exists>t. 130 * t \<le> n + 97 \<and> n \<le> 130 * t + (30 :: nat)"
    and "n mod 130 \<in> {31, 32} \<Longrightarrow> \<exists>t. 130 * t = n + 98 \<or> 130 * t = n + (99 :: nat)"
proof -
  define q r where "q = n div 130" and "r = n mod 130"
  then have n: "n = 130 * q + r" "r < 130" by simp_all
  show "n mod 130 \<notin> {31, 32} \<Longrightarrow> \<exists>t. 130 * t \<le> n + 97 \<and> n \<le> 130 * t + (30 :: nat)"
    using n unfolding r_def [symmetric] by (cases "r \<le> 30") (auto intro: exI [of _ q] exI [of _ "q + 1"])
  show "n mod 130 \<in> {31, 32} \<Longrightarrow> \<exists>t. 130 * t = n + 98 \<or> 130 * t = n + (99 :: nat)"
    using n unfolding r_def [symmetric] by (auto intro: exI [of _ "q + 1"])
qed

lemma format_layout_result:
  assumes n: "256 \<le> unat n" "unat n < 2 ^ 28"
  shows "\<exists>spf. format_layout 8 n 1 = Some spf \<and> 8 * unat spf \<le> unat n \<and> 0 < unat spf \<and>
    ((unat n - 32 - 2 * unat spf + 2) * 4 \<le> 512 * unat spf \<longleftrightarrow> unat n mod 130 \<notin> {31, 32})"
proof (cases "unat n mod 130 \<in> {31, 32}")
  case False
  obtain t where t: "130 * t \<le> unat n + 97" "unat n \<le> 130 * t + 30"
    using layout_target(1) [OF False] by blast
  note F = fat_need_converges [OF n t]
  have tn: "8 * t \<le> unat n" "t < 4294967296" using n t by simp_all
  have "format_layout 8 n 1 = Some (of_nat t)"
    by (rule format_layout_path [OF n F(2), of 6]) (use F(1) n in simp_all)
  moreover have "unat (of_nat t :: u32) = t" using tn(2) by (rule unat_of_nat32)
  moreover have "0 < t" using fat_need_pos [of "unat n" t] F(2) n(1) tn(1) by simp
  ultimately show ?thesis using False tn(1) F(2) fat_need_covers [of t "unat n"] n(1) by auto
next
  case True
  obtain t where t: "130 * t = unat n + 98 \<or> 130 * t = unat n + 99"
    using layout_target(2) [OF True] by blast
  then have "1 < t" using n(1) by linarith
  then obtain spf where s: "format_layout 8 n 1 = Some spf" "8 * unat spf \<le> unat n" "unat spf < t" "0 < unat spf"
    using format_layout_oscillates [OF n t, of 1 8] n(1) by auto
  then have "t \<le> fat_need (unat n) (unat spf)" using fat_need_alternates(1) [OF n(1) t] by blast
  then show ?thesis using s True fat_need_covers [of "unat spf" "unat n"] n(1) by auto
qed

section \<open>Formatting and mounting\<close>

lemma rd16_wr16_other: "j + 1 < i \<or> i + 1 < j \<Longrightarrow> rd16 (wr16 p i v) j = rd16 p j"
  by (auto simp: rd16_def nth_wr16)

lemma rd16_wr32_other: "j + 1 < i \<or> i + 3 < j \<Longrightarrow> rd16 (wr32 p i v) j = rd16 p j"
  by (auto simp: rd16_def nth_wr32)

lemma rd32_wr16_other: "j + 3 < i \<or> i + 1 < j \<Longrightarrow> rd32 (wr16 p i v) j = rd32 p j"
  by (auto simp: rd32_def nth_wr16)

lemma rd32_wr32_other: "j + 3 < i \<or> i + 3 < j \<Longrightarrow> rd32 (wr32 p i v) j = rd32 p j"
  by (auto simp: rd32_def nth_wr32)

lemma rd_update_other:
  "k < j \<or> j + 1 < k \<Longrightarrow> rd16 (p[k := x]) j = rd16 p j"
  "k < j \<or> j + 3 < k \<Longrightarrow> rd32 (p[k := x]) j = rd32 p j"
  by (auto simp: rd16_def rd32_def)

lemma nth_blit_other: "i + length ys \<le> length xs \<Longrightarrow> k < i \<or> i + length ys \<le> k \<Longrightarrow> k < length xs \<Longrightarrow> blit xs i ys ! k = xs ! k"
  by (auto simp: nth_blit)

lemma rd_blit_other:
  "i + length ys \<le> length p \<Longrightarrow> j + 1 < i \<or> i + length ys \<le> j \<Longrightarrow> j + 1 < length p \<Longrightarrow> rd16 (blit p i ys) j = rd16 p j"
  "i + length ys \<le> length p \<Longrightarrow> j + 3 < i \<or> i + length ys \<le> j \<Longrightarrow> j + 3 < length p \<Longrightarrow> rd32 (blit p i ys) j = rd32 p j"
  by (auto simp: rd16_def rd32_def nth_blit_other)

lemmas sector_simps = rd16_wr16 rd16_wr16_other rd16_wr32_other rd32_wr32 rd32_wr16_other rd32_wr32_other
  rd_update_other nth_blit_other rd_blit_other nth_wr16 nth_wr32

lemma length_lit [simp]: "length (lit s) = length s"
  by (simp add: lit_def)

lemma boot_sector_fields:
  "length (boot_sector n spf) = 512" "boot_sector n spf ! 510 = 0x55" "boot_sector n spf ! 511 = 0xAA"
  "rd16 (boot_sector n spf) 11 = 512" "rd16 (boot_sector n spf) 17 = 0" "boot_sector n spf ! 13 = 1"
  "rd16 (boot_sector n spf) 14 = 32" "boot_sector n spf ! 16 = 2" "rd32 (boot_sector n spf) 36 = spf"
  "rd32 (boot_sector n spf) 44 = 2" "rd32 (boot_sector n spf) 32 = n"
  by (simp_all add: boot_sector_def Let_def sector_simps)

lemma first_fat_root: "rd32 first_fat_sector 8 = 0x0FFFFFFF" "length first_fat_sector = 512"
  by (simp_all add: first_fat_sector_def sector_simps)

end
