(* ===== verification/Fat32_Props.thy ===== *)
theory Fat32_Props
  imports Fat32_Format
begin

text \<open>
  Formatting and mounting on a disk, a disk in memory to try the driver on, and the properties of the FAT32
  component.
\<close>

section \<open>Formatting and mounting\<close>

text \<open>The contents of the disk after formatting.\<close>

definition formatted :: "u32 \<Rightarrow> u32 \<Rightarrow> (u32 \<Rightarrow> u8 list) \<Rightarrow> u32 \<Rightarrow> u8 list" where
  "formatted n spf C = C(0 := boot_sector n spf, 1 := fsinfo_sector (data_sectors n spf div 1 - 1),
     2 := zero_sector[510 := 0x55, 511 := 0xAA], 6 := boot_sector n spf,
     7 := fsinfo_sector (data_sectors n spf div 1 - 1), 32 := first_fat_sector, 32 + spf := first_fat_sector,
     32 + 2 * spf := zero_sector)"

lemma or_fail_write:
  assumes "at_disk dev b good content C w" and "lba < bd_sector_count b" and "length sec = 512"
    and "\<And>w'. at_disk dev b good content (C(lba := sec)) w' \<Longrightarrow> \<exists>w''. k () w' = Ok (rc, w'') \<and> Q w''"
  shows "\<exists>w''. or_fail (write_sec dev lba sec w) msg k = Ok (rc, w'') \<and> Q w''"
  using write_sec_at [OF assms(1-3)] assms(4) by auto

lemma or_fail_read:
  assumes "at_disk dev b good content C w" and "lba < bd_sector_count b"
    and "\<And>w'. at_disk dev b good content C w' \<Longrightarrow> \<exists>w''. k (C lba) w' = Ok (rc, w'') \<and> Q w''"
  shows "\<exists>w''. or_fail (read_sec dev lba w) msg k = Ok (rc, w'') \<and> Q w''"
  using read_sec_at [OF assms(1,2)] assms(3) by auto

lemma length_fsinfo: "length (fsinfo_sector n) = 512"
  by (simp add: fsinfo_sector_def)

lemma layout_bounds:
  assumes n: "256 \<le> unat n" "unat n < 2 ^ 28" and s: "8 * unat spf \<le> unat n"
  shows "unat (2 * spf) = 2 * unat spf" and "unat (32 + 2 * spf) = 32 + 2 * unat spf"
    and "unat (32 + spf) = 32 + unat spf" and "unat (32 + 2 * spf + 1) = 33 + 2 * unat spf"
    and "unat (data_sectors n spf) = unat n - 32 - 2 * unat spf"
proof -
  have n': "unat n < 268435456" using n(2) by simp
  show s2: "unat (2 * spf) = 2 * unat spf" using n s by (simp add: unat_word_ariths)
  show "unat (32 + 2 * spf) = 32 + 2 * unat spf" "unat (32 + spf) = 32 + unat spf" "unat (32 + 2 * spf + 1) = 33 + 2 * unat spf"
    using n' s s2 by (simp_all add: unat_word_ariths)
  have d1: "unat (n - 32) = unat n - 32" using n by (subst unat_sub) (simp_all add: word_le_nat_alt)
  show "unat (data_sectors n spf) = unat n - 32 - 2 * unat spf"
    unfolding data_sectors_def using n s s2 d1 by (subst unat_sub) (simp_all add: word_le_nat_alt)
qed

lemma format_writes_at:
  assumes A: "at_disk dev b good content C w" and n: "256 \<le> unat (bd_sector_count b)" "unat (bd_sector_count b) < 2 ^ 28"
    and s: "8 * unat spf \<le> unat (bd_sector_count b)"
  shows "\<exists>w'. format_writes dev (bd_sector_count b) spf (data_sectors (bd_sector_count b) spf div 1 - 1) w = Ok (0, w') \<and>
    at_disk dev b good content (formatted (bd_sector_count b) spf C) w'"
proof -
  let ?n = "bd_sector_count b"
  have lt: "0 < ?n" "1 < ?n" "2 < ?n" "6 < ?n" "7 < ?n" "32 < ?n" "32 + spf < ?n" "32 + 2 * spf < ?n"
    using n s layout_bounds [OF n s] by (simp_all add: word_less_nat_alt)
  have len: "length (boot_sector ?n spf) = 512" "length (zero_sector[510 := 0x55, 511 := 0xAA]) = 512"
      "length first_fat_sector = 512" "length zero_sector = 512"
    using boot_sector_fields(1) first_fat_root(2) by simp_all
  show ?thesis
    unfolding format_writes_def
    apply (rule or_fail_write [OF A lt(1) len(1)])
    apply (erule or_fail_write [OF _ lt(2) length_fsinfo])
    apply (erule or_fail_write [OF _ lt(3) len(2)])
    apply (erule or_fail_read [OF _ lt(1)])
    apply (erule or_fail_write [OF _ lt(4)], simp add: len)
    apply (erule or_fail_read [OF _ lt(2)])
    apply (erule or_fail_write [OF _ lt(5)], simp add: length_fsinfo)
    apply (erule or_fail_write [OF _ lt(6) len(3)])
    apply (erule or_fail_write [OF _ lt(7) len(3)])
    apply (erule or_fail_write [OF _ lt(8) len(4)])
    apply (simp add: formatted_def)
    done
qed

lemma fat32_format_at:
  assumes A: "at_disk dev b good content C w" and n: "256 \<le> unat (bd_sector_count b)" "unat (bd_sector_count b) < 2 ^ 28"
  shows "\<exists>spf w'. format_layout 8 (bd_sector_count b) 1 = Some spf \<and> fat32_format dev w = Ok (0, w') \<and>
    at_disk dev b good content (formatted (bd_sector_count b) spf C) w'"
proof -
  let ?n = "bd_sector_count b"
  obtain spf where spf: "format_layout 8 ?n 1 = Some spf" "8 * unat spf \<le> unat ?n"
    using format_layout_result [OF n] by blast
  note B = layout_bounds [OF n spf(2)]
  obtain p d where d: "dev = Some p" "devices w p = Some d" "dv_bdev d = Some b" "dv_sector_size d = 512"
      "dv_total_sectors d = ?n" and st: "sector_store b good content" using A by (auto simp: at_disk_def)
  have rw: "bd_read b \<noteq> None" "bd_write b \<noteq> None" using st by (auto simp: sector_store_def)
  have small: "\<not> ?n < 256" "\<not> ?n \<le> 32 + 2 * spf + 1" "\<not> data_sectors ?n spf div 1 < 2"
    using n spf(2) B by (simp_all add: word_less_nat_alt word_le_nat_alt)
  have dev: "device_at dev (fat32_clear_error w) = Ok (Some d)"
    using d by (simp add: device_at_def fat32_clear_error_def fat32_set_error_def Let_def)
  have A': "at_disk dev b good content C (fat32_clear_error w)" using A by (simp add: fat32_clear_error_def)
  have "fat32_format dev w =
      format_writes dev ?n spf (data_sectors ?n spf div 1 - 1) (fat32_clear_error w)"
    unfolding fat32_format_def Let_def dev rbind_simps option.case d(3-5) spf(1) using rw small by auto
  then show ?thesis using spf format_writes_at [OF A' n spf(2)] by auto
qed

text \<open>The file system that mounting a formatted disk gives.\<close>

definition fresh_fs :: "nat option \<Rightarrow> u32 \<Rightarrow> u32 \<Rightarrow> fat32_fs" where
  "fresh_fs dev n spf = \<lparr>fs_dev = dev, sectors_per_cluster = 1, reserved_sectors = 32, fat_count = 2,
     sectors_per_fat = spf, root_cluster = 2, fat_start_lba = 32, data_start_lba = 32 + 2 * spf,
     total_clusters = data_sectors n spf\<rparr>"

lemma fat32_mount_at:
  assumes A: "at_disk dev b good content C w" and n: "256 \<le> unat (bd_sector_count b)" "unat (bd_sector_count b) < 2 ^ 28"
    and s: "8 * unat spf \<le> unat (bd_sector_count b)" and C: "C 0 = boot_sector (bd_sector_count b) spf"
  shows "\<exists>w'. fat32_mount (Some fs0) dev w = Ok (0, Some (fresh_fs dev (bd_sector_count b) spf), w') \<and>
    at_disk dev b good content C w'"
proof -
  let ?n = "bd_sector_count b"
  note B = layout_bounds [OF n s]
  obtain p d where d: "dev = Some p" "devices w p = Some d" "dv_sector_size d = 512" using A by (auto simp: at_disk_def)
  have dev: "device_at dev (fat32_clear_error w) = Ok (Some d)"
    using d by (simp add: device_at_def fat32_clear_error_def fat32_set_error_def Let_def)
  have A': "at_disk dev b good content C (fat32_clear_error w)" using A by (simp add: fat32_clear_error_def)
  have "0 < ?n" using n by (simp add: word_less_nat_alt)
  from read_sec_at [OF A' this] C obtain w1 where
    w1: "read_sec dev 0 (fat32_clear_error w) = Ok (Some (boot_sector ?n spf), w1)" "at_disk dev b good content C w1"
    by auto
  have "?n - (32 + 2 * spf) = data_sectors ?n spf" by (simp add: data_sectors_def algebra_simps)
  moreover have "?n \<noteq> 0" "\<not> ?n \<le> 32 + 2 * spf" "data_sectors ?n spf \<noteq> 0"
    using n s B by (auto simp: word_le_nat_alt word_unat_eq_iff)
  moreover note n0 = calculation
  have "fat32_mount (Some fs0) dev w =
      Ok (0, Some (fresh_fs dev ?n spf), fat32_set_error (Some (lit ''ok'')) w1)"
    unfolding fat32_mount_def Let_def option.case dev rbind_simps d(3) w1(1)
    using n0 by (simp add: boot_sector_fields fresh_fs_def)
  then show ?thesis using w1(2) by simp
qed

lemma fresh_fs_ok:
  assumes n: "256 \<le> unat n" "unat n < 2 ^ 28" and s: "8 * unat spf \<le> unat n" and spf: "0 < unat spf"
  shows "fat32_layout (fresh_fs dev n spf) (unat n) \<longleftrightarrow> (unat n - 32 - 2 * unat spf + 2) * 4 \<le> 512 * unat spf"
    and "fat32_inv (fresh_fs dev n spf) (formatted n spf C)"
    and "fat32_files (fresh_fs dev n spf) (formatted n spf C) = (\<lambda>_. None)"
proof -
  let ?fs = "fresh_fs dev n spf" and ?C = "formatted n spf C"
  note B = layout_bounds [OF n s]
  have n': "unat n < 268435456" using n(2) by simp
  show L: "fat32_layout ?fs (unat n) \<longleftrightarrow> (unat n - 32 - 2 * unat spf + 2) * 4 \<le> 512 * unat spf"
  proof -
    have "unat n - (32 + 2 * unat spf) < 268435454" using n' n(1) by linarith
    then show ?thesis unfolding fat32_layout_def fresh_fs_def using B n n' s by simp
  qed
  have root: "root_sec ?fs ?C = zero_sector"
    by (simp add: root_sec_def fresh_fs_def cluster_to_lba_def formatted_def)
  have zero: "zero_sector ! i = 0" if "i \<in> set entry_offs" for i
    using entry_offs_bound [OF that] by simp
  then have dead: "\<not> is_live zero_sector i" for i by (auto simp: is_live_def)
  have "dirsec_ok zero_sector" unfolding dirsec_ok_def using zero dead by (auto simp: inj_on_def)
  moreover have "entries_ok ?fs ?C {}" unfolding entries_ok_def Let_def root using dead by (auto simp: inj_on_def)
  moreover have "fat_entry ?fs ?C (root_cluster ?fs) \<noteq> 0"
  proof -
    have "(32 :: u32) \<noteq> 32 + 2 * spf" using B spf by (auto simp: word_unat_eq_iff)
    then have "?C 32 = first_fat_sector" by (simp add: formatted_def)
    then show ?thesis by (simp add: fat_entry_def fat_lba_def fat_off_def fresh_fs_def first_fat_root)
  qed
  ultimately show inv: "fat32_inv ?fs ?C" by (simp add: fat32_inv_def root)
  show "fat32_files ?fs ?C = (\<lambda>_. None)"
    by (rule map_eq_iff_Some) (simp add: files_iff [OF inv] root dead)
qed

section \<open>A disk in memory\<close>

text \<open>A device of 256 sectors whose hardware is the list of its sectors, to try the driver on.\<close>

definition mem_read :: "(unit, u32 \<Rightarrow> u8 list) blockdev_read_fn" where
  "mem_read dev lba count buf h =
     (if count \<noteq> 1 \<or> lba \<ge> bd_sector_count dev \<or> buf = None then Ok (-1, buf, h) else Ok (0, Some (h lba), h))"

definition mem_write :: "(unit, u32 \<Rightarrow> u8 list) blockdev_write_fn" where
  "mem_write dev lba count buf h =
     (case buf of
        None \<Rightarrow> Ok (-1, h)
      | Some bs \<Rightarrow> if count \<noteq> 1 \<or> lba \<ge> bd_sector_count dev then Ok (-1, h) else Ok (0, h(lba := bs)))"

definition mem_dev :: "(unit, u32 \<Rightarrow> u8 list) blockdev" where
  "mem_dev = \<lparr>bd_name = lit ''md0'' @ replicate 5 0, bd_type = BLOCKDEV_TYPE_MEMDISK, bd_sector_size = 512,
     bd_sector_count = 256, bd_ctx = None, bd_read = Some mem_read, bd_write = Some mem_write\<rparr>"

definition mem_good :: "(u32 \<Rightarrow> u8 list) \<Rightarrow> bool" where
  "mem_good h \<longleftrightarrow> (\<forall>l. length (h l) = 512)"

lemma mem_dev_store: "sector_store mem_dev mem_good (\<lambda>h. h)"
  by (simp add: sector_store_def mem_dev_def mem_read_def mem_write_def mem_good_def bd_info.truncate_def
      not_le [symmetric])

definition mem_world :: "(u32 \<Rightarrow> u8 list) \<Rightarrow> (unit, u32 \<Rightarrow> u8 list) fat32" where
  "mem_world C = \<lparr>devices = [0 \<mapsto> \<lparr>dv_bdev = Some mem_dev, dv_sector_size = 512, dv_total_sectors = 256\<rparr>],
     hw = C, last_error = replicate 96 0\<rparr>"

lemma mem_world_at: "mem_good C \<Longrightarrow> at_disk (Some 0) mem_dev mem_good (\<lambda>h. h) C (mem_world C)"
  using mem_dev_store by (simp add: at_disk_def mem_world_def) (simp add: mem_dev_def)

abbreviation blank_disk :: "u32 \<Rightarrow> u8 list" where "blank_disk \<equiv> \<lambda>_. zero_sector"

lemma mem_good_blank: "mem_good blank_disk"
  by (simp add: mem_good_def)

text \<open>The disk formatted and mounted.\<close>

definition mem_fs :: fat32_fs where
  "mem_fs = fresh_fs (Some 0) 256 2"

definition mem_formatted :: "u32 \<Rightarrow> u8 list" where
  "mem_formatted = formatted 256 2 blank_disk"

lemma mem_count: "bd_sector_count mem_dev = 256"
  by (simp add: mem_dev_def)

lemma mem_formatted_good: "mem_good mem_formatted"
  by (simp add: mem_good_def mem_formatted_def formatted_def boot_sector_fields length_fsinfo first_fat_root)

lemma mem_fs_ok:
  "at_disk (fs_dev mem_fs) mem_dev mem_good (\<lambda>h. h) mem_formatted (mem_world mem_formatted)"
  "fat32_layout mem_fs (unat (bd_sector_count mem_dev))" "fat32_inv mem_fs mem_formatted"
  "fat32_files mem_fs mem_formatted = (\<lambda>_. None)"
  using mem_world_at [OF mem_formatted_good] fresh_fs_ok [of 256 2]
  by (simp_all add: mem_fs_def mem_formatted_def mem_count) (simp add: fresh_fs_def)

lemma mem_room: "room_for_file mem_fs mem_formatted"
proof -
  have root: "root_sec mem_fs mem_formatted = zero_sector"
    by (simp add: root_sec_def mem_fs_def fresh_fs_def cluster_to_lba_def mem_formatted_def formatted_def)
  have "free_cluster mem_fs mem_formatted 3"
    by (simp add: free_cluster_def is_cluster_def mem_fs_def fresh_fs_def data_sectors_def fat_entry_def fat_lba_def
        fat_off_def mem_formatted_def formatted_def first_fat_sector_def sector_simps)
      (simp add: rd32_def)
  moreover have "0 \<in> set entry_offs" by (simp add: entry_offs_iff)
  ultimately show ?thesis unfolding room_for_file_def root by (auto intro!: bexI [of _ 0])
qed

lemma name_a_txt: "make_name83 (Some (lit ''a.txt'')) = Some (lit ''A       TXT'')"
  by code_simp

section \<open>Properties\<close>

text \<open>
  C21: Formatting a disk of 256 to \<open>2^28 - 1\<close> sectors finds a layout within its eight rounds, and the tables
  have an entry for every cluster exactly if the number of sectors does not leave 31 or 32 modulo 130; for
  these the rounds alternate between two sizes and end with the one that is too small.
\<close>

theorem fat32_table_size:
  assumes "256 \<le> unat n" and "unat n < 2 ^ 28"
  shows "\<exists>spf. format_layout 8 n 1 = Some spf \<and> 32 + 2 * unat spf + 2 \<le> unat n \<and>
    ((unat n - 32 - 2 * unat spf + 2) * 4 \<le> 512 * unat spf \<longleftrightarrow> unat n mod 130 \<notin> {31, 32})"
proof -
  obtain spf where s: "format_layout 8 n 1 = Some spf" "8 * unat spf \<le> unat n"
      "(unat n - 32 - 2 * unat spf + 2) * 4 \<le> 512 * unat spf \<longleftrightarrow> unat n mod 130 \<notin> {31, 32}"
    using format_layout_result [OF assms] by blast
  moreover have "32 + 2 * unat spf + 2 \<le> unat n" using s(2) assms(1) by linarith
  ultimately show ?thesis by blast
qed

theorem fat32_table_size_witness:
  "\<exists>spf. format_layout 8 292 1 = Some spf \<and> \<not> (unat (292 :: u32) - 32 - 2 * unat spf + 2) * 4 \<le> 512 * unat spf"
  using fat32_table_size [of 292] by auto



text \<open>
  C23: Writing a file of at most 512 bytes updates the map of files at its name, if the file exists or the
  directory and the table have room, and leaves every other file, the layout and the boot sectors as they
  are; otherwise it fails and the disk is as before.
\<close>

theorem fat32_write_updates:
  assumes "at_disk (fs_dev fs) b good content C w" and "fat32_layout fs (unat (bd_sector_count b))" and "fat32_inv fs C"
    and "make_name83 name = Some nm" and "unat len \<le> 512" and "unat len \<le> length data"
  shows "if fat32_files fs C nm \<noteq> None \<or> room_for_file fs C then
      \<exists>w' C'. fat32_write_file (Some fs) name (Some data) len w = Ok (0, w') \<and> at_disk (fs_dev fs) b good content C' w' \<and>
        fat32_inv fs C' \<and> fat32_files fs C' = (fat32_files fs C)(nm \<mapsto> take (unat len) data) \<and>
        (\<forall>l. unat l < unat (fat_start_lba fs) \<longrightarrow> C' l = C l)
    else \<exists>w'. fat32_write_file (Some fs) name (Some data) len w = Ok (-1, w') \<and> at_disk (fs_dev fs) b good content C w'"
  by (rule fat32_write_at [OF assms])

theorem fat32_write_updates_witness:
  "\<exists>w'. fat32_write_file (Some mem_fs) (Some (lit ''a.txt'')) (Some (lit ''hi'')) 2 (mem_world mem_formatted) = Ok (0, w') \<and>
    fat32_files mem_fs (hw w') = [lit ''A       TXT'' \<mapsto> lit ''hi'']"
  using fat32_write_updates [OF mem_fs_ok(1-3) name_a_txt, of 2 "lit ''hi''"] mem_room mem_fs_ok(4)
  by (auto simp: at_disk_def)

text \<open>
  C24: Reading a file gives the contents the map has for its name, closed by a NUL byte, if the buffer has
  room for both, and fails without touching the buffer otherwise; a listing has exactly one entry per file,
  with its name and size.
\<close>

theorem fat32_read_looks_up:
  assumes "at_disk (fs_dev fs) b good content C w" and "fat32_layout fs (unat (bd_sector_count b))" and "fat32_inv fs C"
    and "make_name83 name = Some nm" and "16 \<le> unat cap" and "length buf = unat cap" and "length arr = unat cap"
  shows "(case fat32_files fs C nm of
      None \<Rightarrow> \<exists>w'. fat32_read_file (Some fs) name (Some buf) cap w = Ok (-1, None, w') \<and> at_disk (fs_dev fs) b good content C w'
    | Some d \<Rightarrow> \<exists>w'. at_disk (fs_dev fs) b good content C w' \<and> length d \<le> 512 \<and>
        fat32_read_file (Some fs) name (Some buf) cap w =
          (if length d < unat cap then Ok (0, Some (blit buf 0 (d @ [0]), of_nat (length d)), w') else Ok (-1, None, w'))) \<and>
    (\<exists>es w'. fat32_list_root (Some fs) (Some arr) cap w = Ok (0, Some (blit arr 0 es, of_nat (length es)), w') \<and>
      at_disk (fs_dev fs) b good content C w' \<and> distinct (map fe_name83 es) \<and>
      (\<forall>e. e \<in> set es \<longleftrightarrow> (\<exists>k d. fat32_files fs C k = Some d \<and> e = \<lparr>fe_name83 = k @ [0], fe_size = of_nat (length d)\<rparr>)))"
proof -
  have "cap \<noteq> 0" using assms(5) by auto
  from fat32_read_at [OF assms(1-4) this assms(6)] fat32_list_at [OF assms(1-3,5,7)] show ?thesis by (rule conjI)
qed

theorem fat32_read_looks_up_witness:
  "\<exists>w'. fat32_read_file (Some mem_fs) (Some (lit ''a.txt'')) (Some (replicate 16 0)) 16 (mem_world mem_formatted) =
    Ok (-1, None, w')"
  using fat32_read_looks_up [OF mem_fs_ok(1-3) name_a_txt, of 16 "replicate 16 0"
      "replicate 16 \<lparr>fe_name83 = [], fe_size = 0\<rparr>"] mem_fs_ok(4)
  by auto

text \<open>
  C25: Deleting a file removes exactly its name from the map of files and keeps the invariant; deleting a
  name that has no file fails and the disk is as before.
\<close>

theorem fat32_delete_removes:
  assumes "at_disk (fs_dev fs) b good content C w" and "fat32_layout fs (unat (bd_sector_count b))" and "fat32_inv fs C"
    and "make_name83 name = Some nm"
  shows "if fat32_files fs C nm \<noteq> None then
      \<exists>w' C'. fat32_delete_file (Some fs) name w = Ok (0, w') \<and> at_disk (fs_dev fs) b good content C' w' \<and>
        fat32_inv fs C' \<and> fat32_files fs C' = (fat32_files fs C)(nm := None) \<and>
        (\<forall>l. unat l < unat (fat_start_lba fs) \<longrightarrow> C' l = C l)
    else \<exists>w'. fat32_delete_file (Some fs) name w = Ok (-1, w') \<and> at_disk (fs_dev fs) b good content C w'"
  by (rule fat32_delete_at [OF assms])

theorem fat32_delete_removes_witness:
  "\<exists>w' w'' C'. fat32_write_file (Some mem_fs) (Some (lit ''a.txt'')) (Some (lit ''hi'')) 2 (mem_world mem_formatted) = Ok (0, w') \<and>
    fat32_delete_file (Some mem_fs) (Some (lit ''a.txt'')) w' = Ok (0, w'') \<and> fat32_files mem_fs C' = (\<lambda>_. None)"
proof -
  obtain w' C' where w: "fat32_write_file (Some mem_fs) (Some (lit ''a.txt'')) (Some (lit ''hi'')) 2 (mem_world mem_formatted) = Ok (0, w')"
      "at_disk (fs_dev mem_fs) mem_dev mem_good (\<lambda>h. h) C' w'" "fat32_inv mem_fs C'"
      "fat32_files mem_fs C' = [lit ''A       TXT'' \<mapsto> lit ''hi'']"
    using fat32_write_at [OF mem_fs_ok(1-3) name_a_txt, of 2 "lit ''hi''"] mem_room mem_fs_ok(4) by auto
  from fat32_delete_removes [OF w(2) mem_fs_ok(2) w(3) name_a_txt] w show ?thesis by auto
qed

text \<open>
  On a file system with more than one sector per cluster, writing a file of more than 512 bytes that
  passes the length check copies it over the end of the 512-byte buffer.
\<close>

theorem fat32_write_overruns:
  assumes A: "at_disk (fs_dev fs) b good content C w" and L: "fat32_layout fs (unat (bd_sector_count b))" and inv: "fat32_inv fs C"
    and nm: "make_name83 name = Some nm" and len: "512 < unat len" "unat len \<le> 512 * unat (sectors_per_cluster fs)"
    and room: "room_for_file fs C" "fat32_files fs C nm = None"
  shows "fat32_write_file (Some fs) name (Some data) len w = Fail Wild"
proof -
  let ?sec = "root_sec fs C" and ?root = "cluster_to_lba fs (root_cluster fs)"
  note N = make_name83_sound [OF nm]
  have dir: "dirsec_ok ?sec" using inv by (simp add: fat32_inv_def)
  have "unat (512 * sectors_per_cluster fs) = 512 * unat (sectors_per_cluster fs)"
    using L by (simp add: fat32_layout_def unat_word_ariths)
  then have spc: "\<not> 512 * sectors_per_cluster fs < len" using len(2) by (simp add: word_less_nat_alt)
  obtain w1 where w1: "read_sec (fs_dev fs) ?root w = Ok (Some ?sec, w1)" "at_disk (fs_dev fs) b good content C w1"
    using read_root_at [OF A L] by blast
  obtain w2 where w2: "find_root_entry fs nm w1 = Ok (map_option (\<lambda>i. (?root, i)) (scan_entries ?sec nm entry_offs), w2)"
      "at_disk (fs_dev fs) b good content C w2"
    using find_root_entry_at [OF w1(2) L] by blast
  have none: "scan_entries ?sec nm entry_offs = None" using room(2) N by (simp add: fat32_files_def)
  obtain off where off: "find (\<lambda>i. ?sec ! i = 0 \<or> ?sec ! i = 0xE5) entry_offs = Some off"
    using room(1) by (cases "find (\<lambda>i. ?sec ! i = 0 \<or> ?sec ! i = 0xE5) entry_offs") (auto simp: room_for_file_def find_None_iff)
  obtain c w3 where w3: "alloc_cluster fs w2 = Ok (Some c, w3)"
      "at_disk (fs_dev fs) b good content (fat_update fs c 0x0FFFFFFF C) w3"
    using alloc_cluster_at [OF w2(2) L] room(1) unfolding room_for_file_def by blast
  have "length (put_entry ?sec off nm c len) = 512"
    using find_SomeD [OF off] by (intro put_entry_fields(1) [OF dirsec_okD(1) [OF dir] _ N]) simp
  from write_sec_at [OF w3(2) cluster_lba_less [OF L layout_root [OF L]] this] obtain w4 where
    "write_sec (fs_dev fs) ?root (put_entry ?sec off nm c len) w3 = Ok (Some (), w4)" by blast
  then show ?thesis
    using spc nm w1(1) w2(1) none off w3(1) len(1) by (simp add: fat32_write_file_def store_file_def Let_def)
qed

text \<open>The formatted disk, seen as one with two sectors per cluster.\<close>

definition mem_fs2 :: fat32_fs where
  "mem_fs2 = mem_fs\<lparr>sectors_per_cluster := 2, total_clusters := 100\<rparr>"

lemma mem_fs2_ok:
  "fs_dev mem_fs2 = Some 0" "fat32_layout mem_fs2 256" "fat32_inv mem_fs2 mem_formatted" "room_for_file mem_fs2 mem_formatted"
  "fat32_files mem_fs2 mem_formatted = (\<lambda>_. None)"
proof -
  have root: "root_sec mem_fs2 mem_formatted = root_sec mem_fs mem_formatted" "root_cluster mem_fs2 = root_cluster mem_fs"
    by (simp_all add: root_sec_def mem_fs2_def mem_fs_def fresh_fs_def cluster_to_lba_def)
  have fat: "fat_entry mem_fs2 C c = fat_entry mem_fs C c" for C c
    by (simp add: fat_entry_def fat_lba_def mem_fs2_def)
  have none: "scan_entries (root_sec mem_fs mem_formatted) nm entry_offs = None" if "name83 nm" for nm
    using fun_cong [OF mem_fs_ok(4), of nm] that by (simp add: fat32_files_def)
  have dir: "dirsec_ok (root_sec mem_fs mem_formatted)" using mem_fs_ok(3) by (simp add: fat32_inv_def)
  have E: "entries_ok mem_fs mem_formatted {}" using mem_fs_ok(3) by (simp add: fat32_inv_def)
  have dead: "\<not> is_live (root_sec mem_fs mem_formatted) i" for i
    using none entries_okD(5) [OF E, of i] scan_entries_iff [OF dir] by fastforce
  show "fs_dev mem_fs2 = Some 0" by (simp add: mem_fs2_def mem_fs_def fresh_fs_def)
  show "fat32_layout mem_fs2 256" by (simp add: fat32_layout_def mem_fs2_def mem_fs_def fresh_fs_def)
  show "fat32_inv mem_fs2 mem_formatted"
    using mem_fs_ok(3) dead by (auto simp: fat32_inv_def entries_ok_def root fat)
  have "free_cluster mem_fs2 mem_formatted 3"
    by (simp add: free_cluster_def fat is_cluster_def mem_fs2_def)
      (simp add: mem_fs_def fresh_fs_def fat_entry_def fat_lba_def
        fat_off_def mem_formatted_def formatted_def first_fat_sector_def sector_simps rd32_def)
  then show "room_for_file mem_fs2 mem_formatted" using mem_room unfolding room_for_file_def root by blast
  show "fat32_files mem_fs2 mem_formatted = (\<lambda>_. None)"
    by (rule ext) (simp add: fat32_files_def root none)
qed

theorem fat32_write_overruns_witness:
  "fat32_write_file (Some mem_fs2) (Some (lit ''a.txt'')) (Some (replicate 600 65)) 600 (mem_world mem_formatted) = Fail Wild"
  using fat32_write_overruns [of mem_fs2 mem_dev mem_good "\<lambda>h. h" mem_formatted "mem_world mem_formatted",
      OF _ _ mem_fs2_ok(3) name_a_txt _ _ mem_fs2_ok(4)] mem_fs_ok(1) mem_fs2_ok mem_count
  by (simp add: mem_fs2_def mem_fs_def fresh_fs_def)

end
