(* ===== verification/App_Fat32_Spec.thy ===== *)
theory App_Fat32_Spec
  imports App_Fat32 Fat32_Props
begin

text \<open>
  What the \<open>fat32\<close> command does with a disk that the driver formatted: selecting it and formatting work,
  but every command that mounts goes on with a pointer to a device object that has gone out of scope.
\<close>

section \<open>Mounting the selected disk\<close>

text \<open>The selected device stores sectors, and the driver formatted it with tables of \<open>spf\<close> sectors.\<close>

definition formatted_selected ::
  "('c, 'd) blockdev \<Rightarrow> ('d \<Rightarrow> bool) \<Rightarrow> ('d \<Rightarrow> u32 \<Rightarrow> u8 list) \<Rightarrow> u32 \<Rightarrow> ('c, 'd) fat32_app \<Rightarrow> bool" where
  "formatted_selected b good content spf a \<longleftrightarrow>
     (\<exists>i. g_selected a = Some i \<and> selected_dev i a = b) \<and> sector_store b good content \<and> good (hw (fa_fat a)) \<and>
     256 \<le> unat (bd_sector_count b) \<and> unat (bd_sector_count b) < 2 ^ 28 \<and> 8 * unat spf \<le> unat (bd_sector_count b) \<and>
     content (hw (fa_fat a)) 0 = boot_sector (bd_sector_count b) spf"

lemma build_selected_dev_ok:
  assumes "formatted_selected b good content spf a"
  shows "\<exists>a'. build_selected_dev local_dev a = (0, a') \<and>
    at_disk (Some local_dev) b good content (content (hw (fa_fat a))) (fa_fat a')"
proof -
  obtain i where i: "g_selected a = Some i" "selected_dev i a = b" using assms by (auto simp: formatted_selected_def)
  have st: "sector_store b good content" "good (hw (fa_fat a))" using assms by (simp_all add: formatted_selected_def)
  then obtain rd where "bd_read b = Some rd" "bd_sector_size b = 512" by (auto simp: sector_store_def)
  then show ?thesis using i st
    by (simp add: build_selected_dev_def fat32_device_from_blockdev_def at_disk_def)
qed

lemma ensure_mounted_dead:
  assumes "formatted_selected b good content spf a"
  shows "\<exists>a'. ensure_mounted fs0 a = Ok (0, fresh_fs (Some local_dev) (bd_sector_count b) spf, a') \<and>
    devices (fa_fat a') local_dev = None"
proof -
  obtain a1 where a1: "build_selected_dev local_dev a = (0, a1)"
      "at_disk (Some local_dev) b good content (content (hw (fa_fat a))) (fa_fat a1)"
    using build_selected_dev_ok [OF assms] by blast
  obtain w where "fat32_mount (Some fs0) (Some local_dev) (fa_fat a1) =
      Ok (0, Some (fresh_fs (Some local_dev) (bd_sector_count b) spf), w)"
    using fat32_mount_at [OF a1(2)] assms by (auto simp: formatted_selected_def)
  then show ?thesis using a1(1) by (simp add: ensure_mounted_def Let_def end_scope_def)
qed

text \<open>Every access through the dead object is a stray one.\<close>

lemma dead_io:
  assumes "devices w p = None"
  shows "read_sec (Some p) lba w = Fail Wild" and "find_root_entry (fs\<lparr>fs_dev := Some p\<rparr>) nm w = Fail Wild"
  using assms by (simp_all add: read_sec_def fat32_io_read_def device_at_def find_root_entry_def Let_def)

section \<open>Properties\<close>

text \<open>
  C26: On a disk that the driver formatted, every command of \<open>fat32\<close> that works with files, once it has
  mounted the disk, accesses the device object that was a local variable of \<open>ensure_mounted\<close> and no longer
  exists.
\<close>

theorem fat32_commands_use_dead_device:
  assumes "formatted_selected b good content spf a" and "make_name83 (Some nm) = Some nm83" and "strlen contents \<le> 512"
  shows "cmd_ls a = Fail Wild \<and> cmd_cat nm a = Fail Wild \<and> cmd_rm nm a = Fail Wild \<and> cmd_write nm contents a = Fail Wild"
proof -
  let ?fs = "fresh_fs (Some local_dev) (bd_sector_count b) spf"
  obtain a' where m: "ensure_mounted uninit_fs a = Ok (0, ?fs, a')" and d: "devices (fa_fat a') local_dev = None"
    using ensure_mounted_dead [OF assms(1)] by blast
  have fs: "fs_dev ?fs = Some local_dev" "sectors_per_cluster ?fs = 1" by (simp_all add: fresh_fs_def)
  have r: "read_sec (fs_dev ?fs) lba (fa_fat a') = Fail Wild" for lba using dead_io(1) [OF d] fs by simp
  have f: "find_root_entry ?fs k (fa_fat a') = Fail Wild" for k using r by (simp add: find_root_entry_def Let_def)
  have len: "\<not> 512 < (of_nat (strlen contents) :: u32)"
    using assms(3) by (simp add: word_less_nat_alt unat_of_nat32)
  have "cmd_ls a = Fail Wild" using m r by (simp add: cmd_ls_def with_mounted_def fat32_list_root_def)
  moreover have "cmd_cat nm a = Fail Wild" using m f assms(2) by (simp add: cmd_cat_def with_mounted_def fat32_read_file_def Let_def)
  moreover have "cmd_rm nm a = Fail Wild" using m f assms(2) by (simp add: cmd_rm_def with_mounted_def fat32_delete_file_def)
  moreover have "cmd_write nm contents a = Fail Wild"
    using m r assms(2) len fs by (simp add: cmd_write_def with_mounted_def fat32_write_file_def Let_def)
  ultimately show ?thesis by blast
qed

definition mem_app :: "(unit, u32 \<Rightarrow> u8 list) fat32_app" where
  "mem_app = \<lparr>fa_fat = mem_world mem_formatted, fa_reg = snd (block_register (Some mem_dev) block_init),
     g_selected = Some 0, g_mounted = False, fa_out = []\<rparr>"

theorem fat32_commands_use_dead_device_witness:
  "app_fat32_main [lit ''fat32'', lit ''cat'', lit ''a.txt''] mem_app = Fail Wild"
proof -
  have "selected_dev 0 mem_app = mem_dev"
    by (simp add: selected_dev_def mem_app_def block_register_def block_init_def mem_dev_def)
  then have "formatted_selected mem_dev mem_good (\<lambda>h. h) 2 mem_app"
    using mem_dev_store mem_formatted_good
    by (simp add: formatted_selected_def mem_count)
      (simp add: mem_app_def mem_world_def mem_formatted_def formatted_def)
  from fat32_commands_use_dead_device [OF this name_a_txt, of "[]"]
  have cat: "cmd_cat (lit ''a.txt'') mem_app = Fail Wild" by simp
  have "streq (lit ''cat'') (lit s) \<longleftrightarrow> s = ''cat''" if "s \<in> {''select'', ''format'', ''mount'', ''info'', ''ls'', ''write'', ''edit'', ''rm'', ''cat''}" for s
    using that by (auto simp: streq_iff lit_def)
  then show ?thesis using cat by (simp add: app_fat32_main_def Let_def)
qed

end
