(* ===== verification/Keyboard.thy ===== *)
theory Keyboard
  imports CString
begin

text \<open>
  The keyboard driver (\<open>kernel/input/keyboard.c\<close>): a state machine over the scan codes the controller
  delivers, one per interrupt. A step gives the new state, the key event passed to the shell, if any, and
  the values written to the ports of the interrupt controllers afterwards (\<open>kernel/pic.c\<close>).
\<close>

section \<open>Events\<close>

datatype key_code =
    KEY_NONE | KEY_CHAR | KEY_ENTER | KEY_BACKSPACE | KEY_DELETE | KEY_LEFT | KEY_RIGHT | KEY_UP | KEY_DOWN
  | KEY_HOME | KEY_END | KEY_PAGEUP | KEY_PAGEDOWN | KEY_TAB

abbreviation (input) KEYMOD_SHIFT :: u8 where "KEYMOD_SHIFT \<equiv> 1"
abbreviation (input) KEYMOD_CTRL :: u8 where "KEYMOD_CTRL \<equiv> 2"
abbreviation (input) KEYMOD_ALT :: u8 where "KEYMOD_ALT \<equiv> 4"

record key_event =
  ev_code :: key_code
  ev_ch :: u8
  ev_mods :: u8

record keyboard =
  g_mods :: u8
  g_e0 :: u8

section \<open>Key maps\<close>

definition keymap :: "u8 list" where
  "keymap = [0, 27] @ lit ''1234567890-='' @ [0, 9] @ lit ''qwertyuiop[]'' @ [10, 0] @ lit ''asdfghjkl;'' @
     [39, 96, 0, 92] @ lit ''zxcvbnm,./'' @ [0] @ lit ''*'' @ [0] @ lit '' '' @ replicate 70 0"

definition keymap_shift :: "u8 list" where
  "keymap_shift = [0, 27] @ lit ''!@#$%^&*()_+'' @ [0, 9] @ lit ''QWERTYUIOP{}'' @ [10, 0] @ lit ''ASDFGHJKL:'' @
     [34, 126, 0, 124] @ lit ''ZXCVBNM<>?'' @ [0] @ lit ''*'' @ [0] @ lit '' '' @ replicate 70 0"

definition map_ascii :: "u8 \<Rightarrow> keyboard \<Rightarrow> u8" where
  "map_ascii sc k =
     (if sc \<ge> 128 then 0 else if g_mods k AND KEYMOD_SHIFT \<noteq> 0 then keymap_shift ! unat sc else keymap ! unat sc)"

text \<open>The keys behind the prefix \<open>0xE0\<close>, and the keys with codes of their own.\<close>

definition extended_key :: "u8 \<Rightarrow> key_code" where
  "extended_key sc =
     (if sc = 0x4B then KEY_LEFT else if sc = 0x4D then KEY_RIGHT else if sc = 0x48 then KEY_UP
      else if sc = 0x50 then KEY_DOWN else if sc = 0x47 then KEY_HOME else if sc = 0x4F then KEY_END
      else if sc = 0x49 then KEY_PAGEUP else if sc = 0x51 then KEY_PAGEDOWN else if sc = 0x53 then KEY_DELETE
      else KEY_NONE)"

definition special_key :: "u8 \<Rightarrow> key_code" where
  "special_key sc =
     (if sc = 0x1C then KEY_ENTER else if sc = 0x0E then KEY_BACKSPACE else if sc = 0x0F then KEY_TAB
      else if sc = 0x48 then KEY_UP else if sc = 0x50 then KEY_DOWN else if sc = 0x47 then KEY_HOME
      else if sc = 0x4F then KEY_END else if sc = 0x49 then KEY_PAGEUP else if sc = 0x51 then KEY_PAGEDOWN
      else KEY_NONE)"

section \<open>The driver\<close>

definition on_key_press :: "u8 \<Rightarrow> keyboard \<Rightarrow> keyboard \<times> key_event option" where
  "on_key_press sc k =
     (let ev = \<lparr>ev_code = KEY_NONE, ev_ch = 0, ev_mods = g_mods k\<rparr>
      in if g_e0 k \<noteq> 0 then
           (k\<lparr>g_e0 := 0\<rparr>, if extended_key sc \<noteq> KEY_NONE then Some (ev\<lparr>ev_code := extended_key sc\<rparr>) else None)
         else if special_key sc \<noteq> KEY_NONE then (k, Some (ev\<lparr>ev_code := special_key sc\<rparr>))
         else (let c = map_ascii sc k
               in (k, if 32 \<le> c \<and> c \<le> 126 then Some (ev\<lparr>ev_code := KEY_CHAR, ev_ch := c\<rparr>) else None)))"

definition keyboard_init :: keyboard where
  "keyboard_init = \<lparr>g_mods = 0, g_e0 = 0\<rparr>"

text \<open>End of interrupt: the commands written to the slave controller, for its lines, and the master.\<close>

definition pic_send_eoi :: "u8 \<Rightarrow> (u16 \<times> u8) list" where
  "pic_send_eoi irq = (if irq \<ge> 8 then [(0xA0, 0x20)] else []) @ [(0x20, 0x20)]"

definition keyboard_isr :: "u8 \<Rightarrow> keyboard \<Rightarrow> keyboard \<times> key_event option \<times> (u16 \<times> u8) list" where
  "keyboard_isr sc k =
     (if sc = 0xE0 then (k\<lparr>g_e0 := 1\<rparr>, None, pic_send_eoi 1)
      else if sc AND 0x80 \<noteq> 0 then
        (let rel = sc AND 0x7F;
             m = g_mods k;
             m = (if rel = 0x2A \<or> rel = 0x36 then m AND NOT KEYMOD_SHIFT else m);
             m = (if rel = 0x1D then m AND NOT KEYMOD_CTRL else m);
             m = (if rel = 0x38 then m AND NOT KEYMOD_ALT else m)
         in (k\<lparr>g_mods := m\<rparr>, None, pic_send_eoi 1))
      else if sc = 0x2A \<or> sc = 0x36 then (k\<lparr>g_mods := g_mods k OR KEYMOD_SHIFT\<rparr>, None, pic_send_eoi 1)
      else if sc = 0x1D then (k\<lparr>g_mods := g_mods k OR KEYMOD_CTRL\<rparr>, None, pic_send_eoi 1)
      else if sc = 0x38 then (k\<lparr>g_mods := g_mods k OR KEYMOD_ALT\<rparr>, None, pic_send_eoi 1)
      else (let (k, ev) = on_key_press sc k in (k, ev, pic_send_eoi 1)))"

text \<open>The events of a sequence of scan codes.\<close>

fun keyboard_run :: "u8 list \<Rightarrow> keyboard \<Rightarrow> keyboard \<times> key_event list" where
  "keyboard_run [] k = (k, [])"
| "keyboard_run (sc # scs) k =
     (case keyboard_isr sc k of
        (k, ev, _) \<Rightarrow> (case keyboard_run scs k of (k, evs) \<Rightarrow> (k, (case ev of None \<Rightarrow> [] | Some e \<Rightarrow> [e]) @ evs)))"

section \<open>Events are well formed\<close>

text \<open>A character event carries a printable ASCII character; other events carry none.\<close>

definition event_ok :: "key_event \<Rightarrow> bool" where
  "event_ok e \<longleftrightarrow> (if ev_code e = KEY_CHAR then 32 \<le> ev_ch e \<and> ev_ch e \<le> 126 else ev_ch e = 0 \<and> ev_code e \<noteq> KEY_NONE)"

lemma special_not_char: "special_key sc \<noteq> KEY_CHAR" "extended_key sc \<noteq> KEY_CHAR"
  by (simp_all add: special_key_def extended_key_def)

lemma on_key_press_event: "on_key_press sc k = (k', Some e) \<Longrightarrow> event_ok e \<and> ev_mods e = g_mods k"
  using special_not_char [of sc] by (auto simp: on_key_press_def event_ok_def Let_def split: if_splits)

lemma keyboard_isr_event: "keyboard_isr sc k = (k', Some e, out) \<Longrightarrow> event_ok e \<and> ev_mods e = g_mods k"
  using on_key_press_event [of sc k] by (auto simp: keyboard_isr_def Let_def split: if_splits prod.splits)

lemma keyboard_run_events: "e \<in> set (snd (keyboard_run scs k)) \<Longrightarrow> event_ok e"
proof (induction scs arbitrary: k)
  case (Cons sc scs)
  obtain k1 ev out where s: "keyboard_isr sc k = (k1, ev, out)" by (metis prod_cases3)
  obtain k2 evs where r: "keyboard_run scs k1 = (k2, evs)" by fastforce
  show ?case using Cons.prems Cons.IH [of k1] keyboard_isr_event [of sc k k1] s r by (cases ev) auto
qed simp

lemma pic_send_eoi_1 [simp]: "pic_send_eoi 1 = [(0x20, 0x20)]"
  by (simp add: pic_send_eoi_def word_le_nat_alt)

text \<open>Make codes are those below \<open>0x80\<close>.\<close>

lemma make_code: "sc AND 0x80 = 0 \<longleftrightarrow> sc < 128" for sc :: u8
proof -
  have "sc AND 0x80 = 0 \<longleftrightarrow> \<not> bit sc 7" using and_exp_eq_0_iff_not_bit [of sc 7] by simp
  also have "bit sc 7 \<longleftrightarrow> odd (unat sc div 128)"
  proof -
    have "bit (unat sc) 7 = bit sc 7" by (simp add: bit_unsigned_iff)
    then show ?thesis by (simp add: bit_iff_odd)
  qed
  also have "odd (unat sc div 128) \<longleftrightarrow> \<not> unat sc < 128"
  proof -
    have "unat sc < 256" using unsigned_less [of sc] by simp
    then have "unat sc div 128 < 2" by (simp add: div_less_iff_less_mult)
    then show ?thesis by (auto simp: less_2_cases_iff div_eq_0_iff)
  qed
  finally show ?thesis by (simp add: word_less_nat_alt)
qed

section \<open>Properties\<close>

text \<open>
  With no prefix pending, the press of a key whose code is neither a modifier nor special gives the
  character the key map has for it, by the state of the shift key, and no event if this is not printable;
  the state stays as it is, and every interrupt is acknowledged exactly once.
\<close>

theorem keyboard_decodes:
  assumes "g_e0 k = 0" and "sc < 128" and "sc \<notin> {0x2A, 0x36, 0x1D, 0x38}" and "special_key sc = KEY_NONE"
  shows "keyboard_isr sc k =
    (k, let c = (if odd (g_mods k) then keymap_shift else keymap) ! unat sc
        in if 32 \<le> c \<and> c \<le> 126 then Some \<lparr>ev_code = KEY_CHAR, ev_ch = c, ev_mods = g_mods k\<rparr> else None, [(0x20, 0x20)])"
proof -
  have "sc AND 0x80 = 0" using assms(2) make_code by blast
  moreover have "\<not> 128 \<le> sc" "sc \<noteq> 0xE0" using assms(2) by auto
  moreover have "(g_mods k AND 1 = 0) = even (g_mods k)" by (simp add: and_one_eq even_iff_mod_2_eq_zero)
  ultimately show ?thesis
    using assms by (simp add: keyboard_isr_def on_key_press_def map_ascii_def Let_def)
qed

theorem keyboard_decodes_witness:
  "fst (snd (keyboard_isr 0x1E (keyboard_init\<lparr>g_mods := 1\<rparr>))) = Some \<lparr>ev_code = KEY_CHAR, ev_ch = 65, ev_mods = 1\<rparr>"
proof -
  have "keymap_shift ! 30 = 65" by code_simp
  then show ?thesis
    using keyboard_decodes [of "keyboard_init\<lparr>g_mods := 1\<rparr>" "0x1E"] by (simp add: keyboard_init_def special_key_def)
qed

text \<open>
  The release of an extended key, and the press or release of right control and right alt, leave the
  prefix pending: the key pressed next is taken for an extended one and gives no event, although it gives
  one without them.
\<close>

theorem extended_release_swallows_key:
  assumes "0x80 \<le> r \<and> r \<noteq> 0xE0 \<or> r = 0x1D \<or> r = 0x38"
    and "sc < 128" and "sc \<notin> {0x2A, 0x36, 0x1D, 0x38}" and "extended_key sc = KEY_NONE"
  shows "snd (keyboard_run [0xE0, r, sc] k) = []"
proof -
  have r: "\<exists>k'. keyboard_isr r (k\<lparr>g_e0 := 1\<rparr>) = (k', None, [(0x20, 0x20)]) \<and> g_e0 k' = 1"
    using assms(1) make_code [of r] by (auto simp: keyboard_isr_def Let_def)
  have "sc AND 0x80 = 0" using assms(2) make_code by blast
  moreover have "sc \<noteq> 0xE0" using assms(2) by auto
  ultimately have "keyboard_isr sc k' = (k'\<lparr>g_e0 := 0\<rparr>, None, [(0x20, 0x20)])" if "g_e0 k' = 1" for k'
    using assms(3,4) that by (simp add: keyboard_isr_def on_key_press_def Let_def)
  moreover have "keyboard_isr 0xE0 k = (k\<lparr>g_e0 := 1\<rparr>, None, [(0x20, 0x20)])" by (simp add: keyboard_isr_def)
  ultimately show ?thesis using r by auto
qed

text \<open>An arrow key is pressed and released, and the letter typed after it is lost.\<close>

theorem extended_release_swallows_key_witness:
  "snd (keyboard_run [0xE0, 0xC8, 0x1E] keyboard_init) = [] \<and> snd (keyboard_run [0x1E] keyboard_init) \<noteq> []"
proof -
  have "keymap ! 30 = 97" by code_simp
  then have "snd (keyboard_run [0x1E] keyboard_init) \<noteq> []"
    by (simp add: keyboard_init_def keyboard_isr_def on_key_press_def special_key_def map_ascii_def Let_def)
  moreover have "snd (keyboard_run [0xE0, 0xC8, 0x1E] keyboard_init) = []"
    by (rule extended_release_swallows_key) (simp_all add: extended_key_def)
  ultimately show ?thesis by simp
qed

end
