(* ===== verification/Shell.thy ===== *)
theory Shell
  imports Keyboard
begin

text \<open>
  The shell's line editor (\<open>kernel/shell/shell.c\<close>). A key event changes the editor's state and makes a
  sequence of calls to the terminal, the console and the interpreter of commands; nothing comes back from
  these, so the handler gives the sequence. Indices are natural numbers, and an access outside an array or
  the loop that a length of 0 decremented would start is \<open>Wild\<close>.
\<close>

section \<open>State\<close>

abbreviation (input) SHELL_LINE_MAX :: nat where "SHELL_LINE_MAX \<equiv> 128"
abbreviation (input) SHELL_HISTORY_MAX :: nat where "SHELL_HISTORY_MAX \<equiv> 32"

record shell =
  g_line :: "u8 list"
  g_len :: nat
  g_cursor :: nat
  g_history :: "u8 list list"
  g_hist_count :: nat
  g_hist_index :: int
  g_simple_mode :: bool

datatype shell_call =
    Set_Input_Line "u8 list" nat nat  \<comment> \<open>\<open>terminal_set_input_line\<close>\<close>
  | Set_Prompt "u8 list"              \<comment> \<open>\<open>terminal_set_prompt\<close>\<close>
  | Scroll_Lines int                  \<comment> \<open>\<open>terminal_scroll_lines\<close>\<close>
  | Terminal_Putc u8
  | Console_Putc u8
  | Console_Print "u8 list"
  | Execute_Line "u8 list"            \<comment> \<open>\<open>shell_execute_line\<close>\<close>

section \<open>Helpers\<close>

definition put :: "u8 list \<Rightarrow> nat \<Rightarrow> u8 \<Rightarrow> u8 list res" where
  "put xs i c = (if i < length xs then Ok (xs[i := c]) else Fail Wild)"

definition simple_prompt :: "shell_call list" where
  "simple_prompt = [Console_Print (lit ''ronin> '')]"

definition redraw_input :: "shell \<Rightarrow> shell_call list" where
  "redraw_input s = (if g_simple_mode s then [] else [Set_Input_Line (g_line s) (g_len s) (g_cursor s)])"

definition history_store :: "shell \<Rightarrow> shell res" where
  "history_store s =
     (if g_len s = 0 then Ok s
      else if g_hist_count s > 0 \<and> strcmp (g_history s ! (g_hist_count s - 1)) (g_line s) = 0 then Ok s
      else
        (let (i, hist, count) =
           (if g_hist_count s < SHELL_HISTORY_MAX then (g_hist_count s, g_history s, g_hist_count s + 1)
            else (SHELL_HISTORY_MAX - 1, tl (g_history s) @ [last (g_history s)], g_hist_count s))
         in if length (g_history s) \<noteq> SHELL_HISTORY_MAX \<or> g_len s > length (g_line s) \<or> g_len s \<ge> length (hist ! i) then Fail Wild
            else Ok (s\<lparr>g_history := hist[i := blit (hist ! i) 0 (take (g_len s) (g_line s) @ [0])], g_hist_count := count\<rparr>)))"

text \<open>The loop of \<open>history_load\<close>: the characters up to the NUL byte, at most 127.\<close>

definition history_load :: "int \<Rightarrow> shell \<Rightarrow> shell res" where
  "history_load index s =
     (if index < 0 \<or> index \<ge> int (g_hist_count s) then Ok s
      else
        (let t = take (SHELL_LINE_MAX - 1) (c_text (g_history s ! nat index))
         in if length t < length (g_line s)
            then Ok (s\<lparr>g_line := blit (g_line s) 0 (t @ [0]), g_len := length t, g_cursor := length t\<rparr>)
            else Fail Wild))"

text \<open>The line is emptied: \<open>g_line[0] = 0; g_len = 0; g_cursor = 0;\<close>\<close>

definition clear_input :: "shell \<Rightarrow> shell res" where
  "clear_input s = rbind (put (g_line s) 0 0) (\<lambda>l. Ok (s\<lparr>g_line := l, g_len := 0, g_cursor := 0\<rparr>))"

text \<open>The loops that move the characters from \<open>i\<close> on: one place up to make room at \<open>c\<close>, one place down.\<close>

fun shift_up :: "nat \<Rightarrow> nat \<Rightarrow> u8 list \<Rightarrow> u8 list" where
  "shift_up i c l = (if i > c then shift_up (i - 1) c (l[i := l ! (i - 1)]) else l)"

declare shift_up.simps [simp del]

function shift_down :: "nat \<Rightarrow> nat \<Rightarrow> u8 list \<Rightarrow> u8 list" where
  "shift_down i n l = (if i < n then shift_down (i + 1) n (l[i := l ! (i + 1)]) else l)"
  by pat_completeness auto
termination by (relation "measure (\<lambda>(i, n, l). n - i)") auto

declare shift_down.simps [simp del]

text \<open>The loops of control-left and control-right.\<close>

fun left_while :: "(u8 \<Rightarrow> bool) \<Rightarrow> u8 list \<Rightarrow> nat \<Rightarrow> nat" where
  "left_while P l 0 = 0"
| "left_while P l (Suc c) = (if P (l ! c) then left_while P l c else Suc c)"

function right_while :: "(u8 \<Rightarrow> bool) \<Rightarrow> u8 list \<Rightarrow> nat \<Rightarrow> nat \<Rightarrow> nat" where
  "right_while P l n c = (if c < n \<and> P (l ! c) then right_while P l n (c + 1) else c)"
  by pat_completeness auto
termination by (relation "measure (\<lambda>(P, l, n, c). n - c)") auto

declare right_while.simps [simp del]

section \<open>Keys\<close>

definition shell_init :: "bool \<Rightarrow> shell \<Rightarrow> (shell \<times> shell_call list) res" where
  "shell_init framebuffer s =
     rbind (clear_input s) (\<lambda>s.
       let s = s\<lparr>g_simple_mode := framebuffer\<rparr>
       in Ok (s, (if framebuffer then [] else [Set_Prompt (lit ''ronin> '')]) @ redraw_input s @
            (if framebuffer then simple_prompt else [])))"

definition key_char :: "u8 \<Rightarrow> shell \<Rightarrow> shell res" where
  "key_char ch s =
     (if g_len s < SHELL_LINE_MAX - 1 then
        (let l = shift_up (g_len s) (g_cursor s) (g_line s)
         in rbind (put l (g_cursor s) ch) (\<lambda>l.
            rbind (put l (g_len s + 1) 0) (\<lambda>l.
            Ok (s\<lparr>g_line := l, g_len := g_len s + 1, g_cursor := g_cursor s + 1\<rparr>))))
      else Ok s)"

definition key_backspace :: "shell \<Rightarrow> shell res" where
  "key_backspace s =
     (if g_cursor s > 0 then
        if g_len s = 0 then Fail Wild
        else
          (let l = shift_down (g_cursor s - 1) (g_len s - 1) (g_line s)
           in rbind (put l (g_len s - 1) 0) (\<lambda>l.
              Ok (s\<lparr>g_line := l, g_len := g_len s - 1, g_cursor := g_cursor s - 1\<rparr>)))
      else Ok s)"

definition key_delete :: "shell \<Rightarrow> shell res" where
  "key_delete s =
     (if g_cursor s < g_len s then
        (let l = shift_down (g_cursor s) (g_len s - 1) (g_line s)
         in rbind (put l (g_len s - 1) 0) (\<lambda>l. Ok (s\<lparr>g_line := l, g_len := g_len s - 1\<rparr>)))
      else Ok s)"

definition key_left :: "u8 \<Rightarrow> shell \<Rightarrow> shell" where
  "key_left mods s =
     (if mods AND KEYMOD_CTRL \<noteq> 0 then
        s\<lparr>g_cursor := left_while (\<lambda>c. c \<noteq> ch_space) (g_line s)
            (left_while (\<lambda>c. c = ch_space) (g_line s) (g_cursor s))\<rparr>
      else if g_cursor s > 0 then s\<lparr>g_cursor := g_cursor s - 1\<rparr> else s)"

definition key_right :: "u8 \<Rightarrow> shell \<Rightarrow> shell" where
  "key_right mods s =
     (if mods AND KEYMOD_CTRL \<noteq> 0 then
        s\<lparr>g_cursor := right_while (\<lambda>c. c = ch_space) (g_line s) (g_len s)
            (right_while (\<lambda>c. c \<noteq> ch_space) (g_line s) (g_len s) (g_cursor s))\<rparr>
      else if g_cursor s < g_len s then s\<lparr>g_cursor := g_cursor s + 1\<rparr> else s)"

definition key_up :: "shell \<Rightarrow> shell res" where
  "key_up s =
     (if g_hist_count s > 0 then
        (let i = (if g_hist_index s < 0 then int (g_hist_count s) - 1
                  else if g_hist_index s > 0 then g_hist_index s - 1 else g_hist_index s)
         in history_load i (s\<lparr>g_hist_index := i\<rparr>))
      else Ok s)"

definition key_down :: "shell \<Rightarrow> shell res" where
  "key_down s =
     (if g_hist_count s > 0 \<and> g_hist_index s \<ge> 0 then
        (let i = g_hist_index s + 1
         in if i \<ge> int (g_hist_count s) then clear_input (s\<lparr>g_hist_index := -1\<rparr>)
            else history_load i (s\<lparr>g_hist_index := i\<rparr>))
      else Ok s)"

text \<open>Enter: the line is stored, executed and emptied. \<open>nl\<close> is the call that ends the line on the screen.\<close>

definition key_enter :: "shell_call \<Rightarrow> shell \<Rightarrow> (shell \<times> shell_call list) res" where
  "key_enter nl s =
     rbind (history_store s) (\<lambda>s.
     rbind (clear_input (s\<lparr>g_hist_index := -1\<rparr>)) (\<lambda>s'.
       Ok (s', [nl, Execute_Line (g_line s)])))"

definition simple_key :: "key_event \<Rightarrow> shell \<Rightarrow> (shell \<times> shell_call list) res" where
  "simple_key ev s =
     (case ev_code ev of
        KEY_CHAR \<Rightarrow>
          if g_len s < SHELL_LINE_MAX - 1 \<and> g_cursor s = g_len s then
            rbind (put (g_line s) (g_cursor s) (ev_ch ev)) (\<lambda>l.
            rbind (put l (g_cursor s + 1) 0) (\<lambda>l.
            Ok (s\<lparr>g_line := l, g_len := g_cursor s + 1, g_cursor := g_cursor s + 1\<rparr>, [Console_Putc (ev_ch ev)])))
          else Ok (s, [])
      | KEY_BACKSPACE \<Rightarrow>
          if g_cursor s > 0 \<and> g_cursor s = g_len s then
            rbind (put (g_line s) (g_len s - 1) 0) (\<lambda>l.
            Ok (s\<lparr>g_line := l, g_len := g_len s - 1, g_cursor := g_cursor s - 1\<rparr>,
              [Console_Putc 8, Console_Putc ch_space, Console_Putc 8]))
          else Ok (s, [])
      | KEY_ENTER \<Rightarrow>
          rbind (key_enter (Console_Putc ch_nl) s) (\<lambda>(s, calls). Ok (s, calls @ simple_prompt))
      | _ \<Rightarrow> Ok (s, []))"

definition shell_handle_key :: "key_event \<Rightarrow> shell \<Rightarrow> (shell \<times> shell_call list) res" where
  "shell_handle_key ev s =
     (if g_simple_mode s then simple_key ev s
      else if ev_code ev = KEY_PAGEUP \<or> ev_code ev = KEY_UP \<and> ev_mods ev AND KEYMOD_SHIFT \<noteq> 0 then
        Ok (s, [Scroll_Lines 8])
      else if ev_code ev = KEY_PAGEDOWN \<or> ev_code ev = KEY_DOWN \<and> ev_mods ev AND KEYMOD_SHIFT \<noteq> 0 then
        Ok (s, [Scroll_Lines (-8)])
      else
        (let edit = (\<lambda>r. rbind r (\<lambda>s. Ok (s, redraw_input s)))
         in case ev_code ev of
              KEY_CHAR \<Rightarrow> edit (key_char (ev_ch ev) s)
            | KEY_BACKSPACE \<Rightarrow> edit (key_backspace s)
            | KEY_DELETE \<Rightarrow> edit (key_delete s)
            | KEY_LEFT \<Rightarrow> edit (Ok (key_left (ev_mods ev) s))
            | KEY_RIGHT \<Rightarrow> edit (Ok (key_right (ev_mods ev) s))
            | KEY_HOME \<Rightarrow> edit (Ok (s\<lparr>g_cursor := 0\<rparr>))
            | KEY_END \<Rightarrow> edit (Ok (s\<lparr>g_cursor := g_len s\<rparr>))
            | KEY_UP \<Rightarrow> edit (key_up s)
            | KEY_DOWN \<Rightarrow> edit (key_down s)
            | KEY_ENTER \<Rightarrow> rbind (key_enter (Terminal_Putc ch_nl) s) (\<lambda>(s, calls). Ok (s, calls @ redraw_input s))
            | _ \<Rightarrow> edit (Ok s)))"

text \<open>The keyboard interrupt: the driver decodes the scan code and calls the shell before it acknowledges.\<close>

definition irq1_handler :: "u8 \<Rightarrow> keyboard \<times> shell \<Rightarrow> ((keyboard \<times> shell) \<times> shell_call list) res" where
  "irq1_handler sc ks =
     (case keyboard_isr sc (fst ks) of
        (k, ev, out) \<Rightarrow>
          (case ev of
             None \<Rightarrow> Ok ((k, snd ks), [])
           | Some e \<Rightarrow> rbind (shell_handle_key e (snd ks)) (\<lambda>(s, calls). Ok ((k, s), calls))))"

end
