(* ===== verification/Shell_Spec.thy ===== *)
theory Shell_Spec
  imports Shell
begin

text \<open>
  The shell's line editor keeps an abstract editor: a text, a cursor in it, the lines entered so far and
  the place in them. Its operations are the list operations a user expects; every key event the keyboard
  driver can produce refines one of them.
\<close>

section \<open>The abstract editor\<close>

record editor =
  ed_text :: "u8 list"
  ed_cursor :: nat
  ed_hist :: "u8 list list"
  ed_index :: int

definition ed_load :: "int \<Rightarrow> editor \<Rightarrow> editor" where
  "ed_load i e = e\<lparr>ed_index := i, ed_text := ed_hist e ! nat i, ed_cursor := length (ed_hist e ! nat i)\<rparr>"

definition ed_clear :: "editor \<Rightarrow> editor" where
  "ed_clear e = e\<lparr>ed_index := -1, ed_text := [], ed_cursor := 0\<rparr>"

text \<open>The last 32 lines are remembered, without empty lines and repetitions.\<close>

definition ed_remember :: "u8 list \<Rightarrow> u8 list list \<Rightarrow> u8 list list" where
  "ed_remember t hist =
     (if t = [] \<or> hist \<noteq> [] \<and> last hist = t then hist else drop (length hist - 31) (hist @ [t]))"

definition ed_key :: "key_event \<Rightarrow> editor \<Rightarrow> editor" where
  "ed_key ev e =
     (let t = ed_text e; c = ed_cursor e
      in case ev_code ev of
           KEY_CHAR \<Rightarrow> if length t < 127 then e\<lparr>ed_text := take c t @ ev_ch ev # drop c t, ed_cursor := c + 1\<rparr> else e
         | KEY_BACKSPACE \<Rightarrow> if c > 0 then e\<lparr>ed_text := take (c - 1) t @ drop c t, ed_cursor := c - 1\<rparr> else e
         | KEY_DELETE \<Rightarrow> e\<lparr>ed_text := take c t @ drop (c + 1) t\<rparr>
         | KEY_LEFT \<Rightarrow>
             if ev_mods ev AND KEYMOD_CTRL \<noteq> 0
             then e\<lparr>ed_cursor := length (dropWhile (\<lambda>x. x \<noteq> ch_space) (dropWhile (\<lambda>x. x = ch_space) (rev (take c t))))\<rparr>
             else e\<lparr>ed_cursor := c - 1\<rparr>
         | KEY_RIGHT \<Rightarrow>
             if ev_mods ev AND KEYMOD_CTRL \<noteq> 0
             then e\<lparr>ed_cursor := length t - length (dropWhile (\<lambda>x. x = ch_space) (dropWhile (\<lambda>x. x \<noteq> ch_space) (drop c t)))\<rparr>
             else e\<lparr>ed_cursor := min (c + 1) (length t)\<rparr>
         | KEY_HOME \<Rightarrow> e\<lparr>ed_cursor := 0\<rparr>
         | KEY_END \<Rightarrow> e\<lparr>ed_cursor := length t\<rparr>
         | KEY_UP \<Rightarrow>
             if ev_mods ev AND KEYMOD_SHIFT \<noteq> 0 \<or> ed_hist e = [] then e
             else ed_load (if ed_index e < 0 then int (length (ed_hist e)) - 1 else max 0 (ed_index e - 1)) e
         | KEY_DOWN \<Rightarrow>
             if ev_mods ev AND KEYMOD_SHIFT \<noteq> 0 \<or> ed_index e < 0 then e
             else if ed_index e + 1 < int (length (ed_hist e)) then ed_load (ed_index e + 1) e
             else ed_clear e
         | KEY_ENTER \<Rightarrow> ed_clear (e\<lparr>ed_hist := ed_remember t (ed_hist e)\<rparr>)
         | _ \<Rightarrow> e)"

text \<open>On the framebuffer console the line is edited at its end only.\<close>

definition ed_simple :: "key_event \<Rightarrow> editor \<Rightarrow> editor" where
  "ed_simple ev e =
     (if ev_code ev = KEY_ENTER \<or> ev_code ev \<in> {KEY_CHAR, KEY_BACKSPACE} \<and> ed_cursor e = length (ed_text e)
      then ed_key ev e else e)"

definition ed_step :: "bool \<Rightarrow> key_event \<Rightarrow> editor \<Rightarrow> editor" where
  "ed_step simple ev = (if simple then ed_simple ev else ed_key ev)"

text \<open>The lines entered in a sequence of events.\<close>

fun ed_lines :: "bool \<Rightarrow> key_event list \<Rightarrow> editor \<Rightarrow> u8 list list" where
  "ed_lines simple [] e = []"
| "ed_lines simple (ev # evs) e =
     (if ev_code ev = KEY_ENTER then [ed_text e] else []) @ ed_lines simple evs (ed_step simple ev e)"

section \<open>Abstraction and invariant\<close>

definition line_text :: "shell \<Rightarrow> u8 list" where
  "line_text s = take (g_len s) (g_line s)"

definition editor_of :: "shell \<Rightarrow> editor" where
  "editor_of s = \<lparr>ed_text = line_text s, ed_cursor = g_cursor s,
     ed_hist = map c_text (take (g_hist_count s) (g_history s)), ed_index = g_hist_index s\<rparr>"

definition shell_ok :: "shell \<Rightarrow> bool" where
  "shell_ok s \<longleftrightarrow> length (g_line s) = 128 \<and> g_len s < 128 \<and> g_cursor s \<le> g_len s \<and> g_line s ! g_len s = 0 \<and>
     is_text (line_text s) \<and> length (g_history s) = 32 \<and> g_hist_count s \<le> 32 \<and>
     (\<forall>h\<in>set (g_history s). length h = 128 \<and> length (c_text h) < 128) \<and>
     -1 \<le> g_hist_index s \<and> g_hist_index s < int (g_hist_count s)"

text \<open>The lines given to the interpreter of commands.\<close>

fun executed :: "shell_call list \<Rightarrow> u8 list list" where
  "executed [] = []"
| "executed (Execute_Line l # calls) = c_text l # executed calls"
| "executed (_ # calls) = executed calls"

lemma executed_append [simp]: "executed (xs @ ys) = executed xs @ executed ys"
  by (induction xs rule: executed.induct) auto

lemma c_text_line: "shell_ok s \<Longrightarrow> c_text (g_line s) = line_text s"
proof -
  assume ok: "shell_ok s"
  then have "g_line s = line_text s @ 0 # drop (Suc (g_len s)) (g_line s)"
    using id_take_nth_drop [of "g_len s" "g_line s"] by (simp add: shell_ok_def line_text_def)
  moreover have "is_text (line_text s)" using ok by (simp add: shell_ok_def)
  ultimately show ?thesis using c_text_terminated by metis
qed

lemma length_line_text [simp]: "shell_ok s \<Longrightarrow> length (line_text s) = g_len s"
  by (auto simp: shell_ok_def line_text_def)

section \<open>The loops\<close>

lemma shift_up:
  assumes "i < length l"
  shows "length (shift_up i c l) = length l \<and>
    (\<forall>k<length l. shift_up i c l ! k = (if c < k \<and> k \<le> i then l ! (k - 1) else l ! k))"
  using assms
proof (induction i c l rule: shift_up.induct)
  case (1 i c l)
  show ?case
  proof (cases "i > c")
    case True
    then have "shift_up i c l = shift_up (i - 1) c (l[i := l ! (i - 1)])" by (subst shift_up.simps) simp
    then show ?thesis using 1 True by (auto simp: nth_list_update)
  next
    case False
    then show ?thesis by (subst (1 2) shift_up.simps) auto
  qed
qed

lemma shift_down:
  assumes "n < length l"
  shows "length (shift_down i n l) = length l \<and>
    (\<forall>k<length l. shift_down i n l ! k = (if i \<le> k \<and> k < n then l ! (k + 1) else l ! k))"
  using assms
proof (induction i n l rule: shift_down.induct)
  case (1 i n l)
  show ?case
  proof (cases "i < n")
    case True
    then have "shift_down i n l = shift_down (i + 1) n (l[i := l ! (i + 1)])" by (subst shift_down.simps) simp
    then show ?thesis using 1 True by (auto simp: nth_list_update not_less_eq_eq dest: le_antisym)
  next
    case False
    then show ?thesis by (subst (1 2) shift_down.simps) auto
  qed
qed

lemma insert_char:
  assumes "n < length l" and "c \<le> n"
  shows "take (Suc n) ((shift_up n c l)[c := x]) = take c (take n l) @ x # drop c (take n l)"
proof (rule nth_equalityI)
  show "length (take (Suc n) ((shift_up n c l)[c := x])) = length (take c (take n l) @ x # drop c (take n l))"
    using shift_up [OF assms(1), of c] assms by simp
next
  fix i assume "i < length (take (Suc n) ((shift_up n c l)[c := x]))"
  then have "i \<le> n" by simp
  then show "take (Suc n) ((shift_up n c l)[c := x]) ! i = (take c (take n l) @ x # drop c (take n l)) ! i"
    using shift_up [OF assms(1), of c] assms by (auto simp: nth_append nth_Cons' nth_list_update)
qed

lemma remove_char:
  assumes "n < length l" and "c < n"
  shows "take (n - 1) (shift_down c (n - 1) l) = take c (take n l) @ drop (Suc c) (take n l)"
proof -
  have "n - 1 < length l" using assms by simp
  note down = shift_down [OF this, of c]
  show ?thesis
  proof (rule nth_equalityI)
    show "length (take (n - 1) (shift_down c (n - 1) l)) = length (take c (take n l) @ drop (Suc c) (take n l))"
      using down assms by simp
  next
    fix i assume "i < length (take (n - 1) (shift_down c (n - 1) l))"
    then have "i < n - 1" by simp
    then show "take (n - 1) (shift_down c (n - 1) l) ! i = (take c (take n l) @ drop (Suc c) (take n l)) ! i"
      using down assms by (auto simp: nth_append)
  qed
qed

lemma dropWhile_as_drop: "dropWhile P xs = drop (length xs - length (dropWhile P xs)) xs"
proof -
  have "length (takeWhile P xs) + length (dropWhile P xs) = length xs"
    by (metis length_append takeWhile_dropWhile_id)
  then have "length (takeWhile P xs) = length xs - length (dropWhile P xs)" by simp
  then show ?thesis by (metis dropWhile_eq_drop)
qed

lemma left_while: "c \<le> length l \<Longrightarrow> left_while P l c = length (dropWhile P (rev (take c l)))"
  by (induction c) (auto simp: take_Suc_conv_app_nth)

lemma left_while_le: "left_while P l c \<le> c"
  by (induction c) auto

lemma right_while:
  "n \<le> length l \<Longrightarrow> c \<le> n \<Longrightarrow> right_while P l n c = n - length (dropWhile P (drop c (take n l)))"
proof (induction P l n c rule: right_while.induct)
  case (1 P l n c)
  show ?case
  proof (cases "c < n")
    case True
    then have "drop c (take n l) = l ! c # drop (c + 1) (take n l)"
      using 1(2) by (simp add: Cons_nth_drop_Suc [symmetric])
    then show ?thesis using 1 True by (subst right_while.simps) auto
  next
    case False
    then show ?thesis using 1(3) by (subst right_while.simps) auto
  qed
qed

lemma right_while_bounds: "c \<le> n \<Longrightarrow> c \<le> right_while P l n c \<and> right_while P l n c \<le> n"
proof (induction P l n c rule: right_while.induct)
  case (1 P l n c)
  then show ?case by (subst (1 2) right_while.simps) auto
qed

section \<open>The operations refine the editor's\<close>

text \<open>An operation ends in a state that keeps the invariant and the console mode and stands for \<open>e\<close>.\<close>

definition yields :: "shell res \<Rightarrow> bool \<Rightarrow> editor \<Rightarrow> bool" where
  "yields r simple e \<longleftrightarrow> (\<exists>s. r = Ok s \<and> shell_ok s \<and> g_simple_mode s = simple \<and> editor_of s = e)"

lemma yields_Ok: "yields (Ok s) simple e \<longleftrightarrow> shell_ok s \<and> g_simple_mode s = simple \<and> editor_of s = e"
  by (auto simp: yields_def)

lemma editor_of_simps [simp]:
  "ed_text (editor_of s) = line_text s"
  "ed_cursor (editor_of s) = g_cursor s"
  "ed_hist (editor_of s) = map c_text (take (g_hist_count s) (g_history s))"
  "ed_index (editor_of s) = g_hist_index s"
  by (simp_all add: editor_of_def)

text \<open>A new line: its array, its length and the cursor.\<close>

lemma new_line:
  assumes "shell_ok s" and "length l = 128" and "n < 128" and "c \<le> n" and "l ! n = 0" and "is_text (take n l)"
  shows "yields (Ok (s\<lparr>g_line := l, g_len := n, g_cursor := c\<rparr>)) (g_simple_mode s)
    ((editor_of s)\<lparr>ed_text := take n l, ed_cursor := c\<rparr>)"
  using assms by (auto simp: yields_Ok shell_ok_def editor_of_def line_text_def)

lemma new_cursor:
  assumes "shell_ok s" and "c \<le> g_len s"
  shows "yields (Ok (s\<lparr>g_cursor := c\<rparr>)) (g_simple_mode s) ((editor_of s)\<lparr>ed_cursor := c\<rparr>)"
  using assms by (auto simp: yields_Ok shell_ok_def editor_of_def line_text_def)

lemma new_index:
  assumes "shell_ok s" and "-1 \<le> i" and "i < int (g_hist_count s)"
  shows "shell_ok (s\<lparr>g_hist_index := i\<rparr>) \<and> editor_of (s\<lparr>g_hist_index := i\<rparr>) = (editor_of s)\<lparr>ed_index := i\<rparr>"
  using assms by (auto simp: shell_ok_def editor_of_def line_text_def)

lemma key_char:
  assumes ok: "shell_ok s" and "ch \<noteq> 0" and mode: "\<not> g_len s < 127 \<longrightarrow> e = editor_of s"
    and e: "g_len s < 127 \<longrightarrow> e = (editor_of s)\<lparr>ed_text := take (g_cursor s) (line_text s) @ ch # drop (g_cursor s) (line_text s),
      ed_cursor := g_cursor s + 1\<rparr>"
  shows "yields (key_char ch s) (g_simple_mode s) e"
proof (cases "g_len s < 127")
  case True
  define l where "l = (shift_up (g_len s) (g_cursor s) (g_line s))[g_cursor s := ch, g_len s + 1 := 0]"
  have b: "length (g_line s) = 128" "g_cursor s \<le> g_len s" "is_text (line_text s)" using ok by (auto simp: shell_ok_def)
  have len: "length (shift_up (g_len s) (g_cursor s) (g_line s)) = 128"
    using shift_up [of "g_len s" "g_line s"] True b(1) by simp
  have "take (g_len s + 1) l = take (g_cursor s) (line_text s) @ ch # drop (g_cursor s) (line_text s)"
    using insert_char [of "g_len s" "g_line s" "g_cursor s" ch] True b by (simp add: l_def line_text_def)
  moreover have "key_char ch s = Ok (s\<lparr>g_line := l, g_len := g_len s + 1, g_cursor := g_cursor s + 1\<rparr>)"
    using True len b(2) by (simp add: key_char_def put_def l_def)
  ultimately show ?thesis
    using new_line [OF ok, of l "g_len s + 1" "g_cursor s + 1"] True b len e \<open>ch \<noteq> 0\<close> by (simp add: l_def)
qed (use assms in \<open>simp add: key_char_def yields_Ok\<close>)

lemma remove_at:
  assumes ok: "shell_ok s" and "k < g_len s" and "c \<le> g_len s - 1"
  defines "l \<equiv> (shift_down k (g_len s - 1) (g_line s))[g_len s - 1 := 0]"
  shows "length (shift_down k (g_len s - 1) (g_line s)) = 128 \<and>
    yields (Ok (s\<lparr>g_line := l, g_len := g_len s - 1, g_cursor := c\<rparr>)) (g_simple_mode s)
     ((editor_of s)\<lparr>ed_text := take k (line_text s) @ drop (k + 1) (line_text s), ed_cursor := c\<rparr>)"
proof
  have b: "length (g_line s) = 128" "g_len s < 128" "is_text (line_text s)" using ok by (auto simp: shell_ok_def)
  show len: "length (shift_down k (g_len s - 1) (g_line s)) = 128"
    using shift_down [of "g_len s - 1" "g_line s"] b by simp
  have "take (g_len s - 1) l = take k (line_text s) @ drop (k + 1) (line_text s)"
    using remove_char [of "g_len s" "g_line s" k] assms(2) b by (simp add: l_def line_text_def)
  then show "yields (Ok (s\<lparr>g_line := l, g_len := g_len s - 1, g_cursor := c\<rparr>)) (g_simple_mode s)
     ((editor_of s)\<lparr>ed_text := take k (line_text s) @ drop (k + 1) (line_text s), ed_cursor := c\<rparr>)"
    using new_line [OF ok, of l "g_len s - 1" c] b len assms(2,3) by (simp add: l_def)
qed

lemma key_backspace:
  assumes ok: "shell_ok s"
  shows "yields (key_backspace s) (g_simple_mode s)
    (if g_cursor s > 0 then (editor_of s)\<lparr>ed_text := take (g_cursor s - 1) (line_text s) @ drop (g_cursor s) (line_text s),
       ed_cursor := g_cursor s - 1\<rparr> else editor_of s)"
proof (cases "g_cursor s > 0")
  case True
  have b: "g_cursor s \<le> g_len s" "g_len s < 128" using ok by (simp_all add: shell_ok_def)
  then have "g_cursor s - 1 < g_len s" "g_cursor s - 1 \<le> g_len s - 1" "g_len s - 1 < 128" using True by auto
  then show ?thesis
    using True b remove_at [OF ok, of "g_cursor s - 1" "g_cursor s - 1"] by (simp add: key_backspace_def put_def)
qed (use ok in \<open>simp add: key_backspace_def yields_Ok\<close>)

lemma key_delete:
  assumes ok: "shell_ok s"
  shows "yields (key_delete s) (g_simple_mode s)
    ((editor_of s)\<lparr>ed_text := take (g_cursor s) (line_text s) @ drop (g_cursor s + 1) (line_text s)\<rparr>)"
proof (cases "g_cursor s < g_len s")
  case True
  have "(editor_of s)\<lparr>ed_text := t, ed_cursor := g_cursor s\<rparr> = (editor_of s)\<lparr>ed_text := t\<rparr>" for t
    by (simp add: editor_of_def)
  note same = this
  have "g_cursor s \<le> g_len s - 1" "g_len s - 1 < 128" using True ok by (auto simp: shell_ok_def)
  then show ?thesis
    using True remove_at [OF ok, of "g_cursor s" "g_cursor s"] by (simp add: key_delete_def put_def same)
next
  case False
  then show ?thesis using ok by (simp add: key_delete_def yields_Ok editor_of_def)
qed

lemma key_left:
  assumes ok: "shell_ok s"
  shows "yields (Ok (key_left mods s)) (g_simple_mode s)
    ((editor_of s)\<lparr>ed_cursor := (if mods AND KEYMOD_CTRL \<noteq> 0
       then length (dropWhile (\<lambda>x. x \<noteq> ch_space) (dropWhile (\<lambda>x. x = ch_space) (rev (take (g_cursor s) (line_text s)))))
       else g_cursor s - 1)\<rparr>)"
proof -
  have b: "g_cursor s \<le> g_len s" "g_len s < length (g_line s)" using ok by (auto simp: shell_ok_def)
  define c where "c = left_while (\<lambda>c. c = ch_space) (g_line s) (g_cursor s)"
  have c: "c \<le> g_cursor s" unfolding c_def by (rule left_while_le)
  define r where "r = rev (take (g_cursor s) (line_text s))"
  have t: "take (g_cursor s) (line_text s) = take (g_cursor s) (g_line s)" using b by (simp add: line_text_def)
  have c_r: "c = length (dropWhile (\<lambda>x. x = ch_space) r)"
    using left_while [of "g_cursor s" "g_line s"] b t by (simp add: c_def r_def)
  have "length r = g_cursor s" using b t by (simp add: r_def)
  then have "dropWhile (\<lambda>x. x = ch_space) r = drop (g_cursor s - c) r"
    using dropWhile_as_drop [of "\<lambda>x. x = ch_space" r] c_r by simp
  also have "\<dots> = rev (take c (g_line s))"
    using c b by (simp add: r_def t drop_rev)
  finally have "rev (take c (g_line s)) = dropWhile (\<lambda>x. x = ch_space) r" ..
  then have "left_while (\<lambda>c. c \<noteq> ch_space) (g_line s) c
      = length (dropWhile (\<lambda>x. x \<noteq> ch_space) (dropWhile (\<lambda>x. x = ch_space) r))"
    using left_while [of c "g_line s"] c b by simp
  moreover have "left_while (\<lambda>c. c \<noteq> ch_space) (g_line s) c \<le> g_len s"
    using left_while_le [of "\<lambda>c. c \<noteq> ch_space" "g_line s" c] c b by simp
  ultimately show ?thesis
    using new_cursor [OF ok, of "left_while (\<lambda>c. c \<noteq> ch_space) (g_line s) c"] new_cursor [OF ok, of "g_cursor s - 1"] b
      new_cursor [OF ok, of "g_cursor s"]
    by (auto simp: key_left_def c_def r_def)
qed

lemma key_right:
  assumes ok: "shell_ok s"
  shows "yields (Ok (key_right mods s)) (g_simple_mode s)
    ((editor_of s)\<lparr>ed_cursor := (if mods AND KEYMOD_CTRL \<noteq> 0
       then g_len s - length (dropWhile (\<lambda>x. x = ch_space) (dropWhile (\<lambda>x. x \<noteq> ch_space) (drop (g_cursor s) (line_text s))))
       else min (g_cursor s + 1) (g_len s))\<rparr>)"
proof -
  have b: "g_cursor s \<le> g_len s" "g_len s < length (g_line s)" using ok by (auto simp: shell_ok_def)
  define r where "r = drop (g_cursor s) (line_text s)"
  define c where "c = right_while (\<lambda>c. c \<noteq> ch_space) (g_line s) (g_len s) (g_cursor s)"
  have c: "g_cursor s \<le> c" "c \<le> g_len s"
    using right_while_bounds [of "g_cursor s" "g_len s" "\<lambda>c. c \<noteq> ch_space" "g_line s"] b by (auto simp: c_def)
  have len: "length r = g_len s - g_cursor s" using ok b by (simp add: r_def)
  have c_r: "c = g_len s - length (dropWhile (\<lambda>x. x \<noteq> ch_space) r)"
    using right_while [of "g_len s" "g_line s" "g_cursor s"] b by (simp add: c_def r_def line_text_def)
  have "length (dropWhile (\<lambda>x. x \<noteq> ch_space) r) \<le> length r" by (rule length_dropWhile_le)
  then have "length r - length (dropWhile (\<lambda>x. x \<noteq> ch_space) r) = c - g_cursor s" using c_r len b by simp
  then have "drop c (line_text s) = dropWhile (\<lambda>x. x \<noteq> ch_space) r"
    using dropWhile_as_drop [of "\<lambda>x. x \<noteq> ch_space" r] c by (simp add: r_def add.commute)
  then have "right_while (\<lambda>c. c = ch_space) (g_line s) (g_len s) c
      = g_len s - length (dropWhile (\<lambda>x. x = ch_space) (dropWhile (\<lambda>x. x \<noteq> ch_space) r))"
    using right_while [of "g_len s" "g_line s" c] c b by (simp add: line_text_def)
  moreover have "right_while (\<lambda>c. c = ch_space) (g_line s) (g_len s) c \<le> g_len s"
    using right_while_bounds [OF c(2)] by simp
  moreover have "key_right mods s = s\<lparr>g_cursor := min (g_cursor s + 1) (g_len s)\<rparr>" if "mods AND KEYMOD_CTRL = 0"
    using that b by (cases "g_cursor s < g_len s") (auto simp: key_right_def)
  ultimately show ?thesis
    using new_cursor [OF ok, of "right_while (\<lambda>c. c = ch_space) (g_line s) (g_len s) c"]
      new_cursor [OF ok, of "min (g_cursor s + 1) (g_len s)"]
    by (cases "mods AND KEYMOD_CTRL = 0") (simp_all add: key_right_def c_def r_def)
qed

lemma clear_input:
  assumes ok: "shell_ok s"
  shows "yields (clear_input (s\<lparr>g_hist_index := -1\<rparr>)) (g_simple_mode s) (ed_clear (editor_of s))"
proof -
  let ?s = "s\<lparr>g_hist_index := -1\<rparr>"
  have i: "shell_ok ?s" "editor_of ?s = (editor_of s)\<lparr>ed_index := -1\<rparr>" using new_index [OF ok, of "-1"] by auto
  have "length (g_line s) = 128" using ok by (simp add: shell_ok_def)
  then show ?thesis
    using new_line [OF i(1), of "(g_line s)[0 := 0]" 0 0] i(2) by (simp add: clear_input_def put_def ed_clear_def)
qed

lemma history_entry:
  assumes "shell_ok s" and "0 \<le> i" and "i < int (g_hist_count s)"
  shows "ed_hist (editor_of s) ! nat i = c_text (g_history s ! nat i) \<and> length (c_text (g_history s ! nat i)) < 128"
proof -
  have i: "nat i < g_hist_count s" "nat i < length (g_history s)" using assms by (auto simp: shell_ok_def)
  then have "g_history s ! nat i \<in> set (g_history s)" by simp
  then show ?thesis using assms(1) i by (auto simp: shell_ok_def)
qed

lemma history_load:
  assumes ok: "shell_ok s" and i: "0 \<le> i" "i < int (g_hist_count s)"
  shows "yields (history_load i (s\<lparr>g_hist_index := i\<rparr>)) (g_simple_mode s) (ed_load i (editor_of s))"
proof -
  let ?s = "s\<lparr>g_hist_index := i\<rparr>"
  have s: "shell_ok ?s" "editor_of ?s = (editor_of s)\<lparr>ed_index := i\<rparr>" using new_index [OF ok, of i] i by auto
  define t where "t = c_text (g_history s ! nat i)"
  have t: "ed_hist (editor_of s) ! nat i = t" "length t < 128" "is_text t"
    using history_entry [OF ok i] by (auto simp: t_def)
  have len: "length (g_line s) = 128" using ok by (simp add: shell_ok_def)
  let ?l = "blit (g_line s) 0 (t @ [0])"
  have "length ?l = 128" using t len by simp
  moreover have "?l ! length t = 0" "take (length t) ?l = t" by (simp_all add: blit_def nth_append)
  moreover have "history_load i ?s = Ok (?s\<lparr>g_line := ?l, g_len := length t, g_cursor := length t\<rparr>)"
    using i t(2) len by (simp add: history_load_def Let_def t_def [symmetric])
  ultimately show ?thesis
    using new_line [OF s(1), of ?l "length t" "length t"] t s(2) by (simp add: ed_load_def)
qed

lemma history_store:
  assumes ok: "shell_ok s"
  shows "yields (history_store s) (g_simple_mode s)
    ((editor_of s)\<lparr>ed_hist := ed_remember (line_text s) (ed_hist (editor_of s))\<rparr>) \<and>
    (\<forall>s'. history_store s = Ok s' \<longrightarrow> g_line s' = g_line s)"
proof -
  define hist where "hist = ed_hist (editor_of s)"
  have len_hist: "length hist = g_hist_count s" using ok by (auto simp: hist_def shell_ok_def)
  have b: "length (g_line s) = 128" "g_len s < 128" "length (g_history s) = 32" "g_hist_count s \<le> 32"
    using ok by (auto simp: shell_ok_def)
  have t: "c_text (g_line s) = line_text s" "length (line_text s) = g_len s" "is_text (line_text s)"
    using ok c_text_line by (auto simp: shell_ok_def)
  have seen: "strcmp (g_history s ! (g_hist_count s - 1)) (g_line s) = 0 \<longleftrightarrow> last hist = line_text s" if "g_hist_count s > 0"
  proof -
    have "hist \<noteq> []" using that len_hist by auto
    then have "last hist = c_text (g_history s ! (g_hist_count s - 1))"
      using b that len_hist by (simp add: last_conv_nth hist_def min_def)
    then show ?thesis by (simp add: strcmp_eq_0 t)
  qed
  show ?thesis
  proof (cases "line_text s = [] \<or> hist \<noteq> [] \<and> last hist = line_text s")
    case True
    have "hist \<noteq> [] \<longleftrightarrow> g_hist_count s > 0" using len_hist by (metis length_greater_0_conv)
    then have "g_len s = 0 \<or> g_hist_count s > 0 \<and> strcmp (g_history s ! (g_hist_count s - 1)) (g_line s) = 0"
      using True seen t(2) by auto
    then have "history_store s = Ok s" unfolding history_store_def by (rule disjE) simp_all
    moreover have "(editor_of s)\<lparr>ed_hist := ed_hist (editor_of s)\<rparr> = editor_of s" by simp
    ultimately show ?thesis using True ok by (simp add: yields_Ok ed_remember_def hist_def)
  next
    case False
    define full where "full = (\<not> g_hist_count s < 32)"
    define i where "i = (if full then 31 else g_hist_count s)"
    define h where "h = (if full then tl (g_history s) @ [last (g_history s)] else g_history s)"
    define n where "n = (if full then 32 else g_hist_count s + 1)"
    define e where "e = blit (h ! i) 0 (line_text s @ [0])"
    have i: "i < 32" "length h = 32" using b by (auto simp: i_def h_def full_def)
    have set_h: "set h \<subseteq> set (g_history s)"
    proof -
      have "g_history s \<noteq> []" using b by auto
      then show ?thesis by (auto simp: h_def intro: list.set_sel(2) last_in_set)
    qed
    have "h ! i \<in> set h" using i by simp
    with set_h have "h ! i \<in> set (g_history s)" ..
    then have hi: "length (h ! i) = 128" using ok by (simp add: shell_ok_def)
    have e: "length e = 128" "c_text e = line_text s"
      using hi t b c_text_terminated [of "line_text s"] by (auto simp: e_def blit_def)
    have store: "history_store s = Ok (s\<lparr>g_history := h[i := e], g_hist_count := n\<rparr>)"
    proof -
      have "g_len s \<noteq> 0" using False t(2) by (metis length_0_conv)
      moreover have "\<not> (g_hist_count s > 0 \<and> strcmp (g_history s ! (g_hist_count s - 1)) (g_line s) = 0)"
        using False seen len_hist by auto
      moreover have "take (g_len s) (g_line s) = line_text s" by (simp add: line_text_def)
      ultimately show ?thesis
        using b hi by (auto simp: history_store_def Let_def full_def i_def h_def n_def e_def split: if_splits)
    qed
    have "map c_text (take n (h[i := e])) = ed_remember (line_text s) hist"
    proof (cases full)
      case True
      then have "take n (h[i := e]) = tl (g_history s) @ [e]"
        using b i by (simp add: n_def i_def h_def list_update_append)
      moreover have "g_hist_count s = 32" using True b by (simp add: full_def)
      then have "hist = map c_text (g_history s)" using b by (simp add: hist_def)
      ultimately show ?thesis
        using False e b by (auto simp: ed_remember_def drop_Suc map_tl neq_Nil_conv)
    next
      case not_full: False
      then have "take n (h[i := e]) = take (g_hist_count s) (g_history s) @ [e]"
        using b by (simp add: n_def i_def h_def full_def take_Suc_conv_app_nth)
      then show ?thesis using False not_full e len_hist b by (auto simp: ed_remember_def hist_def full_def)
    qed
    moreover have "\<forall>x\<in>set (h[i := e]). length x = 128 \<and> length (c_text x) < 128"
    proof
      fix x assume "x \<in> set (h[i := e])"
      then have "x = e \<or> x \<in> set (g_history s)" using set_h set_update_subset_insert [of h i e] by blast
      moreover have "length (c_text e) < 128" using e(2) t(2) b(2) by metis
      ultimately show "length x = 128 \<and> length (c_text x) < 128" using ok e(1) by (auto simp: shell_ok_def)
    qed
    ultimately show ?thesis
      using ok i b store
      by (auto simp: yields_Ok shell_ok_def editor_of_def line_text_def n_def full_def hist_def)
  qed
qed

text \<open>\<open>g_hist_count\<close> in terms of the editor.\<close>

lemma hist_empty: "shell_ok s \<Longrightarrow> ed_hist (editor_of s) = [] \<longleftrightarrow> g_hist_count s = 0"
  by (auto simp: shell_ok_def)

lemma hist_length: "shell_ok s \<Longrightarrow> length (ed_hist (editor_of s)) = g_hist_count s"
  by (auto simp: shell_ok_def)

lemma key_up:
  assumes ok: "shell_ok s" and "g_hist_count s > 0"
  shows "yields (key_up s) (g_simple_mode s)
    (ed_load (if g_hist_index s < 0 then int (g_hist_count s) - 1 else max 0 (g_hist_index s - 1)) (editor_of s))"
proof -
  define i where "i = (if g_hist_index s < 0 then int (g_hist_count s) - 1 else max 0 (g_hist_index s - 1))"
  have "g_hist_index s < int (g_hist_count s)" using ok by (simp add: shell_ok_def)
  then have "0 \<le> i" "i < int (g_hist_count s)" using assms(2) by (auto simp: i_def)
  moreover have "key_up s = history_load i (s\<lparr>g_hist_index := i\<rparr>)"
    using assms(2) by (auto simp: key_up_def i_def Let_def max_def)
  ultimately show ?thesis using history_load [OF ok] by (simp add: i_def)
qed

lemma key_down:
  assumes ok: "shell_ok s" and "g_hist_index s \<ge> 0"
  shows "yields (key_down s) (g_simple_mode s)
    (if g_hist_index s + 1 < int (g_hist_count s) then ed_load (g_hist_index s + 1) (editor_of s) else ed_clear (editor_of s))"
proof -
  have "g_hist_index s < int (g_hist_count s)" using ok by (simp add: shell_ok_def)
  then show ?thesis
    using assms history_load [OF ok, of "g_hist_index s + 1"] clear_input [OF ok] by (auto simp: key_down_def Let_def)
qed

lemma key_enter:
  assumes ok: "shell_ok s" and "executed [nl] = []"
  shows "\<exists>s' calls. key_enter nl s = Ok (s', calls) \<and> executed calls = [line_text s] \<and> shell_ok s' \<and>
    g_simple_mode s' = g_simple_mode s \<and>
    editor_of s' = ed_clear ((editor_of s)\<lparr>ed_hist := ed_remember (line_text s) (ed_hist (editor_of s))\<rparr>)"
proof -
  obtain s1 where s1: "history_store s = Ok s1" "shell_ok s1" "g_simple_mode s1 = g_simple_mode s" "g_line s1 = g_line s"
    "editor_of s1 = (editor_of s)\<lparr>ed_hist := ed_remember (line_text s) (ed_hist (editor_of s))\<rparr>"
    using history_store [OF ok] unfolding yields_def by blast
  obtain s2 where "clear_input (s1\<lparr>g_hist_index := -1\<rparr>) = Ok s2" "shell_ok s2" "g_simple_mode s2 = g_simple_mode s"
    "editor_of s2 = ed_clear (editor_of s1)" using clear_input [OF s1(2)] unfolding yields_def s1(3) by blast
  moreover have "executed [nl, Execute_Line (g_line s1)] = [line_text s]"
    using assms s1(4) c_text_line [OF ok] by (cases nl) auto
  ultimately show ?thesis using s1(1) unfolding key_enter_def s1(5) [symmetric] by simp
qed

text \<open>A key that edits the line shows it afterwards and executes nothing.\<close>

lemma edit_yields:
  assumes "yields r simple e"
  shows "\<exists>s' calls. rbind r (\<lambda>s. Ok (s, redraw_input s)) = Ok (s', calls) \<and> executed calls = [] \<and> shell_ok s' \<and>
    g_simple_mode s' = simple \<and> editor_of s' = e"
proof -
  obtain s' where "r = Ok s'" "shell_ok s'" "g_simple_mode s' = simple" "editor_of s' = e"
    using assms by (auto simp: yields_def)
  then show ?thesis by (auto simp: redraw_input_def)
qed

lemma shell_handle_key:
  assumes ok: "shell_ok s" and ev: "event_ok ev"
  shows "\<exists>s' calls. shell_handle_key ev s = Ok (s', calls) \<and>
    executed calls = (if ev_code ev = KEY_ENTER then [line_text s] else []) \<and> shell_ok s' \<and>
    g_simple_mode s' = g_simple_mode s \<and> editor_of s' = ed_step (g_simple_mode s) ev (editor_of s)"
  (is "?P (shell_handle_key ev s)")
proof (cases "g_simple_mode s")
  case mode: True
  have b: "length (g_line s) = 128" "g_len s < 128" using ok by (auto simp: shell_ok_def)
  have new: "shell_ok s'" "editor_of s' = (editor_of s)\<lparr>ed_text := take n l, ed_cursor := n\<rparr>"
    if "s' = s\<lparr>g_line := l, g_len := n, g_cursor := n\<rparr>" "length l = 128" "n < 128" "l ! n = 0" "is_text (take n l)" for s' l n
    using new_line [OF ok that(2,3) _ that(4,5), of n] that(1) by (simp_all add: yields_Ok)
  show ?thesis
  proof (cases "ev_code ev")
    case KEY_CHAR
    then have ch: "ev_ch ev \<noteq> 0" using ev by (auto simp: event_ok_def)
    let ?l = "(g_line s)[g_len s := ev_ch ev, Suc (g_len s) := 0]"
    let ?s = "s\<lparr>g_line := ?l, g_len := Suc (g_len s), g_cursor := Suc (g_len s)\<rparr>"
    have "take (Suc (g_len s)) ?l = line_text s @ [ev_ch ev]"
      using b by (simp add: line_text_def take_Suc_conv_app_nth)
    then show ?thesis
      using mode KEY_CHAR ok b ch new [of ?s "Suc (g_len s)" ?l] shell_ok_def [of s]
      by (auto simp: shell_handle_key_def simple_key_def put_def ed_step_def ed_simple_def ed_key_def Let_def editor_of_def)
  next
    case KEY_BACKSPACE
    let ?l = "(g_line s)[g_len s - 1 := 0]"
    let ?s = "s\<lparr>g_line := ?l, g_len := g_len s - 1, g_cursor := g_len s - 1\<rparr>"
    have "take (g_len s - 1) ?l = take (g_len s - 1) (line_text s)" using b by (simp add: line_text_def)
    then show ?thesis
      using mode KEY_BACKSPACE ok b new [of ?s "g_len s - 1" ?l] shell_ok_def [of s]
      by (auto simp: shell_handle_key_def simple_key_def put_def ed_step_def ed_simple_def ed_key_def Let_def editor_of_def)
  next
    case KEY_ENTER
    then show ?thesis
      using mode key_enter [OF ok, of "Console_Putc ch_nl"]
      by (auto simp: shell_handle_key_def simple_key_def simple_prompt_def ed_step_def ed_simple_def ed_key_def)
  qed (use mode ok in \<open>simp_all add: shell_handle_key_def simple_key_def ed_step_def ed_simple_def\<close>)
next
  case mode: False
  note defs = shell_handle_key_def ed_step_def ed_key_def Let_def
  have b: "g_cursor s \<le> g_len s" "g_len s < 128" using ok by (auto simp: shell_ok_def)
  show ?thesis
  proof (cases "ev_code ev")
    case KEY_CHAR
    then have "ev_ch ev \<noteq> 0" using ev by (auto simp: event_ok_def)
    then show ?thesis
      using mode KEY_CHAR ok edit_yields [OF key_char [OF ok]] by (simp add: defs)
  next
    case KEY_BACKSPACE
    then show ?thesis using mode edit_yields [OF key_backspace [OF ok]] by (simp add: defs)
  next
    case KEY_DELETE
    then show ?thesis using mode edit_yields [OF key_delete [OF ok]] by (simp add: defs)
  next
    case KEY_LEFT
    then show ?thesis using mode edit_yields [OF key_left [OF ok, of "ev_mods ev"]] by (simp add: defs)
  next
    case KEY_RIGHT
    then show ?thesis using mode ok edit_yields [OF key_right [OF ok, of "ev_mods ev"]] by (simp add: defs)
  next
    case KEY_HOME
    then show ?thesis using mode edit_yields [OF new_cursor [OF ok, of 0]] by (simp add: defs)
  next
    case KEY_END
    then show ?thesis using mode ok edit_yields [OF new_cursor [OF ok, of "g_len s"]] by (simp add: defs)
  next
    case KEY_UP
    show ?thesis
    proof (cases "ev_mods ev AND KEYMOD_SHIFT \<noteq> 0")
      case True
      then show ?thesis using mode KEY_UP ok by (simp add: defs)
    next
      case False
      show ?thesis
      proof (cases "g_hist_count s > 0")
        case True
        then show ?thesis
          using mode KEY_UP False ok edit_yields [OF key_up [OF ok True]] hist_length [OF ok] hist_empty [OF ok]
          by (simp add: defs split: if_splits)
      next
        case none: False
        then have "yields (key_up s) (g_simple_mode s) (editor_of s)" using ok by (simp add: key_up_def yields_Ok)
        then show ?thesis using mode KEY_UP False none edit_yields by (fastforce simp: defs)
      qed
    qed
  next
    case KEY_DOWN
    show ?thesis
    proof (cases "ev_mods ev AND KEYMOD_SHIFT \<noteq> 0")
      case True
      then show ?thesis using mode KEY_DOWN ok by (simp add: defs)
    next
      case False
      show ?thesis
      proof (cases "g_hist_index s \<ge> 0")
        case True
        then show ?thesis
          using mode KEY_DOWN False edit_yields [OF key_down [OF ok True]] hist_length [OF ok] by (simp add: defs split: if_splits)
      next
        case none: False
        then have "yields (key_down s) (g_simple_mode s) (editor_of s)" using ok by (simp add: key_down_def yields_Ok)
        then show ?thesis using mode KEY_DOWN False none edit_yields by (fastforce simp: defs)
      qed
    qed
  next
    case KEY_ENTER
    then show ?thesis
      using mode key_enter [OF ok, of "Terminal_Putc ch_nl"] by (auto simp: defs redraw_input_def)
  qed (use mode ok in \<open>simp_all add: defs redraw_input_def\<close>)
qed

section \<open>Sessions\<close>

text \<open>The state before \<open>shell_init\<close>, and the calls of a sequence of keyboard interrupts.\<close>

definition shell_boot :: shell where
  "shell_boot = \<lparr>g_line = replicate 128 0, g_len = 0, g_cursor = 0, g_history = replicate 32 (replicate 128 0),
     g_hist_count = 0, g_hist_index = -1, g_simple_mode = False\<rparr>"

fun shell_run :: "u8 list \<Rightarrow> keyboard \<times> shell \<Rightarrow> ((keyboard \<times> shell) \<times> shell_call list) res" where
  "shell_run [] ks = Ok (ks, [])"
| "shell_run (sc # scs) ks =
     rbind (irq1_handler sc ks) (\<lambda>(ks, calls).
     rbind (shell_run scs ks) (\<lambda>(ks, calls'). Ok (ks, calls @ calls')))"

definition editor_init :: editor where
  "editor_init = \<lparr>ed_text = [], ed_cursor = 0, ed_hist = [], ed_index = -1\<rparr>"

lemma c_text_zeros [simp]: "c_text (replicate n 0) = []"
  by (cases n) auto

lemma shell_init_ok:
  "\<exists>s calls. shell_init framebuffer shell_boot = Ok (s, calls) \<and> shell_ok s \<and> g_simple_mode s = framebuffer \<and>
     editor_of s = editor_init \<and> executed calls = []"
proof -
  have "(replicate 128 (0 :: u8))[0 := 0] = replicate 128 0" by (intro nth_equalityI) (auto simp: nth_list_update)
  then show ?thesis
    by (auto simp: shell_init_def clear_input_def put_def shell_boot_def shell_ok_def editor_of_def editor_init_def
        line_text_def redraw_input_def simple_prompt_def)
qed

lemma fold_ed_step_lines:
  "ed_lines simple (evs @ evs') e = ed_lines simple evs e @ ed_lines simple evs' (fold (ed_step simple) evs e)"
  by (induction evs arbitrary: e) auto

lemma shell_run_refines:
  assumes "shell_ok s"
  shows "\<exists>s' calls. shell_run scs (k, s) = Ok ((fst (keyboard_run scs k), s'), calls) \<and> shell_ok s' \<and>
    g_simple_mode s' = g_simple_mode s \<and>
    editor_of s' = fold (ed_step (g_simple_mode s)) (snd (keyboard_run scs k)) (editor_of s) \<and>
    executed calls = ed_lines (g_simple_mode s) (snd (keyboard_run scs k)) (editor_of s)"
  using assms
proof (induction scs arbitrary: k s)
  case (Cons sc scs)
  obtain k1 ev out where key: "keyboard_isr sc k = (k1, ev, out)" by (metis prod_cases3)
  obtain k2 evs where run: "keyboard_run scs k1 = (k2, evs)" by fastforce
  obtain s1 calls where s1: "irq1_handler sc (k, s) = Ok ((k1, s1), calls)" "shell_ok s1" "g_simple_mode s1 = g_simple_mode s"
    "editor_of s1 = (case ev of None \<Rightarrow> editor_of s | Some e \<Rightarrow> ed_step (g_simple_mode s) e (editor_of s))"
    "executed calls = (case ev of Some e \<Rightarrow> if ev_code e = KEY_ENTER then [line_text s] else [] | None \<Rightarrow> [])"
  proof (cases ev)
    case None
    then show thesis using that [of s "[]"] key Cons.prems by (simp add: irq1_handler_def)
  next
    case (Some e)
    then have "event_ok e" using keyboard_isr_event key by blast
    from shell_handle_key [OF Cons.prems this] show thesis using that Some key by (auto simp: irq1_handler_def)
  qed
  from Cons.IH [OF s1(2), of k1] run show ?case
    using s1 key by (cases ev) auto
qed simp

section \<open>Properties\<close>

text \<open>
  C27: From boot, whatever scan codes the keyboard delivers, in either console mode, no key handler leaves
  the bounds of its arrays; the line keeps its terminating NUL byte and at most 127 characters, the cursor
  stays in it, and the history holds at most 32 lines.
\<close>

theorem shell_never_overruns:
  "\<exists>s0 calls0 k s calls. shell_init framebuffer shell_boot = Ok (s0, calls0) \<and>
     shell_run scs (keyboard_init, s0) = Ok ((k, s), calls) \<and> shell_ok s"
  using shell_init_ok [of framebuffer] shell_run_refines by metis

text \<open>
  C28: The line editor refines its specification on lists, in either console mode: the scan codes of a
  session, decoded by the keyboard driver, change the line as the list operations say (on the terminal
  insertion, deletion, movement of the cursor and a history of the last 32 lines; on the framebuffer only
  characters at the end, backspace and enter), and exactly the lines entered are given to the interpreter of
  commands.
\<close>

theorem shell_refines_editor:
  assumes "shell_ok s"
  shows "\<exists>s' calls. shell_run scs (k, s) = Ok ((fst (keyboard_run scs k), s'), calls) \<and>
    g_simple_mode s' = g_simple_mode s \<and>
    editor_of s' = fold (ed_step (g_simple_mode s)) (snd (keyboard_run scs k)) (editor_of s) \<and>
    executed calls = ed_lines (g_simple_mode s) (snd (keyboard_run scs k)) (editor_of s)"
  using shell_run_refines [OF assms, of scs k] by blast

text \<open>
  The keys \<open>a\<close>, \<open>b\<close>, left, \<open>c\<close> and enter: the line \<open>acb\<close> is executed on the terminal, \<open>abc\<close> on the framebuffer.
\<close>

theorem shell_refines_editor_witness:
  "\<forall>simple. \<exists>ks calls. shell_run [0x1E, 0x30, 0xE0, 0x4B, 0x2E, 0x1C] (keyboard_init, shell_boot\<lparr>g_simple_mode := simple\<rparr>) = Ok (ks, calls) \<and>
     executed calls = [if simple then lit ''abc'' else lit ''acb'']"
proof
  fix simple
  let ?s = "shell_boot\<lparr>g_simple_mode := simple\<rparr>"
  have "shell_ok ?s" by (auto simp: shell_ok_def shell_boot_def line_text_def)
  from shell_refines_editor [OF this, of "[0x1E, 0x30, 0xE0, 0x4B, 0x2E, 0x1C]" keyboard_init]
  obtain ks calls where r: "shell_run [0x1E, 0x30, 0xE0, 0x4B, 0x2E, 0x1C] (keyboard_init, ?s) = Ok (ks, calls)"
    "executed calls = ed_lines simple (snd (keyboard_run [0x1E, 0x30, 0xE0, 0x4B, 0x2E, 0x1C] keyboard_init)) (editor_of ?s)"
    by auto
  have "editor_of ?s = editor_init" by (simp add: editor_of_def shell_boot_def editor_init_def line_text_def)
  moreover have "ed_lines False (snd (keyboard_run [0x1E, 0x30, 0xE0, 0x4B, 0x2E, 0x1C] keyboard_init)) editor_init = [lit ''acb'']"
    "ed_lines True (snd (keyboard_run [0x1E, 0x30, 0xE0, 0x4B, 0x2E, 0x1C] keyboard_init)) editor_init = [lit ''abc'']"
    by code_simp+
  ultimately show "\<exists>ks calls. shell_run [0x1E, 0x30, 0xE0, 0x4B, 0x2E, 0x1C] (keyboard_init, ?s) = Ok (ks, calls) \<and>
     executed calls = [if simple then lit ''abc'' else lit ''acb'']"
    using r by (cases simple) auto
qed

end
