(* ===== verification/Commands.thy ===== *)
theory Commands
  imports Shell Console_Text
begin

text \<open>
  The interpreter of command lines (\<open>kernel/shell/commands.c\<close>) with the table of programs
  (\<open>kernel/apps/apps.c\<close>), the timer (\<open>kernel/pit.c\<close>) whose ticks \<open>uptime\<close> reads, and the reference
  tokenizer the argument parser is compared with. The parser works in place: it writes NUL bytes into the
  buffer and gives the offsets at which the arguments start.
\<close>

section \<open>The argument parser\<close>

definition is_blank :: "u8 \<Rightarrow> bool" where
  "is_blank c \<longleftrightarrow> c = ch_space \<or> c = ch_tab"

text \<open>The byte at \<open>p\<close>; a read behind the buffer is a stray access.\<close>

definition char_at :: "u8 list \<Rightarrow> nat \<Rightarrow> u8 res" where
  "char_at buf p = (if p < length buf then Ok (buf ! p) else Fail Wild)"

lemma char_at_inside: "char_at buf p = Ok c \<Longrightarrow> p < length buf"
  by (simp add: char_at_def split: if_splits)

text \<open>\<open>while (*p == ' ' || *p == '\t') *p++ = 0;\<close>\<close>

function skip_blanks :: "u8 list \<Rightarrow> nat \<Rightarrow> (u8 list \<times> nat) res" where
  "skip_blanks buf p =
     (case char_at buf p of
        Fail e \<Rightarrow> Fail e
      | Ok c \<Rightarrow> if is_blank c then skip_blanks (buf[p := 0]) (p + 1) else Ok (buf, p))"
  by pat_completeness auto
termination
  by (relation "measure (\<lambda>(buf, p). length buf - p)") (auto dest: char_at_inside)

declare skip_blanks.simps [simp del]

text \<open>\<open>while (*p && \<dots>) p++;\<close> up to the byte that ends an argument.\<close>

function scan_to :: "(u8 \<Rightarrow> bool) \<Rightarrow> u8 list \<Rightarrow> nat \<Rightarrow> nat res" where
  "scan_to stop buf p =
     (case char_at buf p of
        Fail e \<Rightarrow> Fail e
      | Ok c \<Rightarrow> if c \<noteq> 0 \<and> \<not> stop c then scan_to stop buf (p + 1) else Ok p)"
  by pat_completeness auto
termination
  by (relation "measure (\<lambda>(stop, buf, p). length buf - p)") (auto dest: char_at_inside)

declare scan_to.simps [simp del]

text \<open>The byte that ended an argument is overwritten, unless it is the end of the text: \<open>if (*p) *p++ = 0;\<close>\<close>

definition cut_at :: "u8 list \<Rightarrow> nat \<Rightarrow> (u8 list \<times> nat) res" where
  "cut_at buf p = rbind (char_at buf p) (\<lambda>c. Ok (if c \<noteq> 0 then (buf[p := 0], p + 1) else (buf, p)))"

text \<open>The loop of \<open>parse_args\<close>; \<open>n\<close> is the room left in \<open>argv\<close>.\<close>

fun parse_loop :: "nat \<Rightarrow> u8 list \<Rightarrow> nat \<Rightarrow> (u8 list \<times> nat list) res" where
  "parse_loop 0 buf p = rbind (char_at buf p) (\<lambda>_. Ok (buf, []))"
| "parse_loop (Suc n) buf p =
     rbind (char_at buf p) (\<lambda>c.
       if c = 0 then Ok (buf, [])
       else rbind (skip_blanks buf p) (\<lambda>(buf, p).
         rbind (char_at buf p) (\<lambda>c.
           if c = 0 then Ok (buf, [])
           else
             (let quoted = (c = ch_quote);
                  q = (if quoted then p + 1 else p)
              in rbind (scan_to (if quoted then (\<lambda>c. c = ch_quote) else is_blank) buf q) (\<lambda>e.
                 rbind (cut_at buf e) (\<lambda>(buf, p).
                 rbind (parse_loop n buf p) (\<lambda>(buf, argv). Ok (buf, q # argv))))))))"

definition parse_args :: "u8 list \<Rightarrow> nat \<Rightarrow> (u8 list \<times> nat list) res" where
  "parse_args buf max_argv = parse_loop max_argv buf 0"

text \<open>The strings that \<open>argv\<close> points to.\<close>

definition arg_texts :: "u8 list \<times> nat list \<Rightarrow> u8 list list" where
  "arg_texts r = map (\<lambda>q. c_text (drop q (fst r))) (snd r)"

section \<open>The timer\<close>

record pit =
  g_ticks :: u32
  g_hz :: u32

text \<open>The values written to the ports of the timer accompany the new state.\<close>

definition pit_init :: "u32 \<Rightarrow> pit \<Rightarrow> pit \<times> (u16 \<times> u8) list" where
  "pit_init hz t =
     (let hz = (if hz = 0 then 100 else hz);
          divisor = 1193182 div hz;
          divisor = (if divisor = 0 then 1 else divisor)
      in (t\<lparr>g_hz := hz\<rparr>, [(0x43, 0x36), (0x40, ucast (divisor AND 0xFF)), (0x40, ucast (drop_bit 8 divisor AND 0xFF))]))"

text \<open>
  The tick: the interrupt is acknowledged, and the running thread yields if preemption is on (the second
  result).
\<close>

definition pit_irq_handler :: "bool \<Rightarrow> pit \<Rightarrow> pit \<times> (u16 \<times> u8) list \<times> bool" where
  "pit_irq_handler preempt t = (t\<lparr>g_ticks := g_ticks t + 1\<rparr>, pic_send_eoi 0, preempt)"

section \<open>Programs\<close>

text \<open>What a command does: calls to the console and the terminal, a program started, a port written.\<close>

datatype command_call =
    Print "u8 list"
  | Clear_Scrollback
  | Write_Error "u8 list"
  | Run_Main "u8 list" "u8 list list"   \<comment> \<open>the program's \<open>main\<close> with its arguments\<close>
  | Disable_Interrupts
  | Out_Port u16 u8
  | Halted                              \<comment> \<open>the processor halts forever\<close>

text \<open>A program of the table: its name, its help text and whether it has a \<open>main\<close>.\<close>

record app_entry =
  app_name :: "u8 list"
  app_help :: "u8 list"
  app_has_main :: bool

definition app :: "string \<Rightarrow> string \<Rightarrow> bool \<Rightarrow> app_entry" where
  "app name help m = \<lparr>app_name = lit name, app_help = lit help, app_has_main = m\<rparr>"

definition g_apps :: "app_entry list" where
  "g_apps =
    [app ''help'' ''List all kernel apps'' False,
     app ''echo'' ''echo <text> - print text'' True,
     app ''clear'' ''clear - clear screen'' True,
     app ''about'' ''about - show kernel info'' True,
     app ''meminfo'' ''meminfo - show heap statistics'' True,
     app ''heap_test'' ''heap_test - run allocator self test'' True,
     app ''spawn'' ''spawn <n> - create worker threads'' True,
     app ''yield'' ''yield - switch to next runnable thread'' True,
     app ''ps'' ''ps - dump scheduler thread table'' True,
     app ''preempt'' ''preempt on|off - timer scheduling toggle'' True,
     app ''fs'' ''fs <cmd> - legacy RAMFS ops (ls/touch/write/append/cat/cp/mv/rm)'' True,
     app ''fat32'' ''fat32 <cmd> - FAT32 on selected blockdev (select/format/mount/info/ls/...)'' True,
     app ''ls'' ''ls [path] - list directory'' True,
     app ''cat'' ''cat <path> - print file'' True,
     app ''pwd'' ''pwd - print current directory'' True,
     app ''cd'' ''cd [path] - change directory'' True,
     app ''disk'' ''disk [info/read] - list block devices'' True]"

datatype builtin = Cmd_Help | Cmd_Clear | Cmd_Clean | Cmd_Echo | Cmd_Uname | Cmd_Mem | Cmd_Uptime | Cmd_Reboot

definition g_cmds :: "(u8 list \<times> u8 list \<times> builtin) list" where
  "g_cmds =
    [(lit ''help'', lit ''show command list'', Cmd_Help),
     (lit ''clear'', lit ''clear terminal'', Cmd_Clear),
     (lit ''clean'', lit ''alias for clear'', Cmd_Clean),
     (lit ''echo'', lit ''echo [text]'', Cmd_Echo),
     (lit ''uname'', lit ''show OS name'', Cmd_Uname),
     (lit ''mem'', lit ''show memory info'', Cmd_Mem),
     (lit ''uptime'', lit ''show uptime'', Cmd_Uptime),
     (lit ''reboot'', lit ''reboot machine'', Cmd_Reboot)]"

definition shell_print_help :: "u8 list" where
  "shell_print_help =
     line ''Builtins:'' @
     concat (map (\<lambda>(name, help, _). lit ''  '' @ name @ lit '' - '' @ help @ [ch_nl]) g_cmds) @
     line ''Apps:'' @
     concat (map (\<lambda>a. if app_has_main a then lit ''  '' @ app_name a @ lit '' - '' @ app_help a @ [ch_nl] else []) g_apps)"

text \<open>\<open>print_u32\<close> of this file, with room for 16 digits.\<close>

definition shell_print_u32 :: "u32 \<Rightarrow> u8 list" where
  "shell_print_u32 v = (if v = 0 then [48] else rev (digits_rev 16 v))"

definition cmd_echo :: "u8 list list \<Rightarrow> u8 list" where
  "cmd_echo argv = concat (map (\<lambda>i. (if i > 1 then [ch_space] else []) @ argv ! i) [1..<length argv]) @ [ch_nl]"

definition cmd_uptime :: "pit \<Rightarrow> u8 list" where
  "cmd_uptime t =
     (let hz = (if g_hz t = 0 then 100 else g_hz t)
      in lit ''uptime: '' @ shell_print_u32 (g_ticks t div hz) @ line ''s'')"

text \<open>
  \<open>reboot\<close> waits, for a bounded time, until the keyboard controller takes a command; the values read from
  its port play no part in what follows.
\<close>

definition run_builtin :: "pit \<Rightarrow> builtin \<Rightarrow> u8 list list \<Rightarrow> command_call list" where
  "run_builtin t cmd argv =
     (case cmd of
        Cmd_Help \<Rightarrow> [Print shell_print_help]
      | Cmd_Clear \<Rightarrow> [Clear_Scrollback]
      | Cmd_Clean \<Rightarrow> [Clear_Scrollback]
      | Cmd_Echo \<Rightarrow> [Print (cmd_echo argv)]
      | Cmd_Uname \<Rightarrow> [Print (line ''RoninOS v2-shell i386'')]
      | Cmd_Mem \<Rightarrow> [Run_Main (lit ''meminfo'') [lit ''meminfo'']]
      | Cmd_Uptime \<Rightarrow> [Print (cmd_uptime t)]
      | Cmd_Reboot \<Rightarrow> [Print (line ''Rebooting...''), Disable_Interrupts, Out_Port 0x64 0xFE, Halted])"

definition find_builtin :: "u8 list \<Rightarrow> builtin option" where
  "find_builtin name = map_option (snd \<circ> snd) (find (\<lambda>(n, _, _). strcmp name n = 0) g_cmds)"

definition find_app :: "u8 list \<Rightarrow> app_entry option" where
  "find_app name = find (\<lambda>a. strcmp name (app_name a) = 0) g_apps"

text \<open>The copy of the line: at most 127 characters, terminated; the rest of the buffer is not used.\<close>

definition line_copy :: "u8 list \<Rightarrow> u8 list" where
  "line_copy l = take 127 (c_text l) @ [0]"

definition shell_execute_line :: "pit \<Rightarrow> u8 list \<Rightarrow> command_call list res" where
  "shell_execute_line t l =
     rbind (parse_args (line_copy l) 16) (\<lambda>r. Ok
       (case arg_texts r of
          [] \<Rightarrow> []
        | name # args \<Rightarrow>
            (case find_builtin name of
               Some cmd \<Rightarrow> run_builtin t cmd (name # args)
             | None \<Rightarrow>
                 (case find_app name of
                    Some a \<Rightarrow> if app_has_main a then [Run_Main (app_name a) (name # args)]
                              else [Write_Error (line ''Unknown command. Type 'help'.'')]
                  | None \<Rightarrow> [Write_Error (line ''Unknown command. Type 'help'.'')]))))"

end
