(* ===== verification/Commands_Spec.thy ===== *)
theory Commands_Spec
  imports Commands
begin

text \<open>
  The parser that cuts the line in place is equivalent to a tokenizer on lists, and the dispatch runs what
  the tables have for the first token.
\<close>

section \<open>The reference tokenizer\<close>

text \<open>
  Tokens are separated by blanks; a token that starts with a quotation mark ends at the next one. The
  character that ends a token is dropped with it.
\<close>

fun tokens :: "nat \<Rightarrow> u8 list \<Rightarrow> u8 list list" where
  "tokens 0 s = []"
| "tokens (Suc n) s =
     (case dropWhile is_blank s of
        [] \<Rightarrow> []
      | c # t \<Rightarrow>
          if c = ch_quote then takeWhile (\<lambda>x. x \<noteq> ch_quote) t # tokens n (tl (dropWhile (\<lambda>x. x \<noteq> ch_quote) t))
          else takeWhile (\<lambda>x. \<not> is_blank x) (c # t) # tokens n (tl (dropWhile (\<lambda>x. \<not> is_blank x) (c # t))))"

section \<open>The text from an offset on\<close>

text \<open>The byte at an offset, as if the buffer were followed by NUL bytes.\<close>

definition peek :: "u8 list \<Rightarrow> nat \<Rightarrow> u8" where
  "peek buf p = (if p < length buf then buf ! p else 0)"

lemma peek_inside: "peek buf p \<noteq> 0 \<Longrightarrow> p < length buf"
  by (simp add: peek_def split: if_splits)

lemma char_at_Ok: "char_at buf p = Ok c \<longleftrightarrow> p < length buf \<and> c = peek buf p"
  by (auto simp: char_at_def peek_def)

lemma char_at_peek: "p < length buf \<Longrightarrow> char_at buf p = Ok (peek buf p)"
  by (simp add: char_at_Ok)

definition text_at :: "u8 list \<Rightarrow> nat \<Rightarrow> u8 list" where
  "text_at buf p = c_text (drop p buf)"

lemma text_at_rec: "text_at buf p = (if peek buf p = 0 then [] else peek buf p # text_at buf (p + 1))"
proof (cases "p < length buf")
  case True
  then have "drop p buf = buf ! p # drop (p + 1) buf" by (simp add: Cons_nth_drop_Suc)
  then show ?thesis using True by (simp add: text_at_def peek_def)
qed (simp add: text_at_def peek_def)

lemma text_at_empty: "text_at buf p = [] \<longleftrightarrow> peek buf p = 0"
  by (subst text_at_rec) simp

lemma text_at_cong:
  assumes "\<forall>k\<ge>p. peek buf' k = peek buf k"
  shows "text_at buf' p = text_at buf p"
  using assms
proof (induction "length buf + length buf' - p" arbitrary: p rule: less_induct)
  case less
  show ?case
  proof (cases "peek buf p = 0")
    case False
    then have "p < length buf" by (rule peek_inside)
    moreover have "\<forall>k\<ge>p + 1. peek buf' k = peek buf k" using less(2) by simp
    ultimately have "text_at buf' (p + 1) = text_at buf (p + 1)" using less(1) [of "p + 1"] by simp
    then show ?thesis using less(2) by (subst (1 2) text_at_rec) simp
  next
    case True
    then have "peek buf' p = 0" using less(2) by simp
    then show ?thesis using True text_at_rec [of buf p] text_at_rec [of buf' p] by simp
  qed
qed

text \<open>A text is the characters up to the first NUL byte.\<close>

lemma text_at_interval:
  assumes "q \<le> e" and "\<forall>k. q \<le> k \<and> k < e \<longrightarrow> peek buf k \<noteq> 0" and "peek buf e = 0"
  shows "text_at buf q = map (peek buf) [q..<e]"
  using assms
proof (induction "e - q" arbitrary: q)
  case 0
  then have "q = e" by simp
  then show ?case using 0 by (simp add: text_at_empty)
next
  case (Suc d)
  then have "q < e" by linarith
  moreover have "text_at buf (Suc q) = map (peek buf) [Suc q..<e]"
    using Suc by (intro Suc(1)) auto
  moreover have "peek buf q \<noteq> 0" using Suc(4) \<open>q < e\<close> by simp
  ultimately show ?case using text_at_rec [of buf q] upt_conv_Cons [of q e] by simp
qed

lemma peek_update: "peek (buf[p := 0]) k = (if k = p then 0 else peek buf k)"
  by (auto simp: peek_def nth_list_update)

section \<open>The loops\<close>

text \<open>The parser keeps what lies before its position and only writes NUL bytes.\<close>

definition cuts :: "nat \<Rightarrow> u8 list \<Rightarrow> u8 list \<Rightarrow> bool" where
  "cuts p buf buf' \<longleftrightarrow> (\<forall>k<p. peek buf' k = peek buf k) \<and> (\<forall>k. peek buf k = 0 \<longrightarrow> peek buf' k = 0)"

lemma cuts_refl [simp]: "cuts p buf buf"
  by (simp add: cuts_def)

lemma cuts_trans: "cuts p a b \<Longrightarrow> cuts q b c \<Longrightarrow> p \<le> q \<Longrightarrow> cuts p a c"
  by (simp add: cuts_def)

lemma skip_blanks:
  "skip_blanks buf p = Ok (buf', p') \<Longrightarrow>
   p \<le> p' \<and> cuts p buf buf' \<and> text_at buf' p' = dropWhile is_blank (text_at buf p)"
proof (induction buf p rule: skip_blanks.induct)
  case (1 buf p)
  then have p: "p < length buf"
    by (subst (asm) (2) skip_blanks.simps) (simp add: char_at_def split: if_splits)
  note c = char_at_peek [OF p]
  show ?case
  proof (cases "is_blank (peek buf p)")
    case True
    then have "skip_blanks (buf[p := 0]) (p + 1) = Ok (buf', p')" using 1(2) c by (simp add: skip_blanks.simps [of buf])
    from 1(1) [OF c True this]
    have ih: "p + 1 \<le> p'" "cuts (p + 1) (buf[p := 0]) buf'"
      "text_at buf' p' = dropWhile is_blank (text_at (buf[p := 0]) (p + 1))" by auto
    have "text_at (buf[p := 0]) (p + 1) = text_at buf (p + 1)"
      by (rule text_at_cong) (simp add: peek_update)
    moreover have "peek buf p \<noteq> 0" using True by (auto simp: is_blank_def)
    moreover have "cuts p buf (buf[p := 0])" by (simp add: cuts_def peek_update)
    then have "cuts p buf buf'" using ih(2) by (rule cuts_trans) simp
    ultimately show ?thesis using ih True text_at_rec [of buf p] by simp
  next
    case False
    then have "buf' = buf" "p' = p" using 1(2) c by (auto simp: skip_blanks.simps [of buf])
    then show ?thesis using False text_at_rec [of buf p] by simp
  qed
qed

lemma scan_to:
  "scan_to stop buf p = Ok e \<Longrightarrow>
   p \<le> e \<and> (\<forall>k. p \<le> k \<and> k < e \<longrightarrow> peek buf k \<noteq> 0) \<and>
   takeWhile (\<lambda>c. \<not> stop c) (text_at buf p) = map (peek buf) [p..<e] \<and>
   text_at buf e = dropWhile (\<lambda>c. \<not> stop c) (text_at buf p)"
proof (induction stop buf p rule: scan_to.induct)
  case (1 stop buf p)
  then have p: "p < length buf"
    by (subst (asm) (2) scan_to.simps) (simp add: char_at_def split: if_splits)
  note c = char_at_peek [OF p]
  show ?case
  proof (cases "peek buf p \<noteq> 0 \<and> \<not> stop (peek buf p)")
    case True
    then have e: "scan_to stop buf (p + 1) = Ok e" using 1(2) c by (simp add: scan_to.simps [of stop buf p])
    note ih = 1(1) [OF c True e]
    have "peek buf k \<noteq> 0" if "p \<le> k" "k < e" for k
      using ih that True by (cases "k = p") auto
    moreover have "text_at buf p = peek buf p # text_at buf (p + 1)" using True text_at_rec [of buf p] by simp
    moreover have "[p..<e] = p # [p + 1..<e]" using ih by (simp add: upt_conv_Cons)
    ultimately show ?thesis using ih True by auto
  next
    case False
    then have "e = p" using 1(2) c by (auto simp: scan_to.simps [of stop buf p])
    then show ?thesis using False text_at_rec [of buf p] by auto
  qed
qed

lemma cut_at:
  assumes "cut_at buf e = Ok (buf', p')"
  shows "e \<le> p' \<and> cuts e buf buf' \<and> peek buf' e = 0 \<and> text_at buf' p' = tl (text_at buf e)"
proof (cases "peek buf e \<noteq> 0")
  case True
  then have "buf' = buf[e := 0]" "p' = e + 1" using assms by (auto simp: cut_at_def rbind_Ok_iff char_at_Ok)
  moreover have "text_at (buf[e := 0]) (e + 1) = text_at buf (e + 1)"
    by (rule text_at_cong) (simp add: peek_update)
  ultimately show ?thesis using True text_at_rec [of buf e] by (simp add: cuts_def peek_update)
next
  case False
  then show ?thesis using assms text_at_empty [of buf e] by (auto simp: cut_at_def rbind_Ok_iff char_at_Ok)
qed

text \<open>An argument stays as it was scanned, whatever is cut after its end.\<close>

lemma argument_text:
  assumes "scan_to stop buf q = Ok e" and "cut_at buf e = Ok (buf1, p1)" and "cuts p1 buf1 buf2"
  shows "text_at buf2 q = takeWhile (\<lambda>c. \<not> stop c) (text_at buf q)"
proof -
  note scan = scan_to [OF assms(1)] and cut = cut_at [OF assms(2)]
  have same: "peek buf2 k = peek buf k" if "k < e" for k
    using that cut assms(3) by (auto simp: cuts_def)
  have "peek buf2 e = 0" using cut assms(3) by (auto simp: cuts_def)
  then have "text_at buf2 q = map (peek buf2) [q..<e]"
    using scan same by (intro text_at_interval) auto
  also have "\<dots> = map (peek buf) [q..<e]" using same by simp
  finally show ?thesis using scan by simp
qed

lemma parse_loop_tokens:
  "parse_loop n buf p = Ok (buf', argv) \<Longrightarrow>
   cuts p buf buf' \<and> map (text_at buf') argv = tokens n (text_at buf p)"
proof (induction n arbitrary: buf p buf' argv)
  case 0
  then show ?case by (simp add: rbind_Ok_iff)
next
  case (Suc n)
  show ?case
  proof (cases "peek buf p = 0")
    case True
    then show ?thesis using Suc.prems text_at_empty [of buf p] by (auto simp: rbind_Ok_iff char_at_Ok)
  next
    case False
    obtain b1 p1 where skip: "skip_blanks buf p = Ok (b1, p1)"
      using Suc.prems False by (auto simp: rbind_Ok_iff char_at_Ok)
    note s = skip_blanks [OF skip]
    show ?thesis
    proof (cases "peek b1 p1 = 0")
      case True
      then have "dropWhile is_blank (text_at buf p) = []" using s text_at_empty [of b1 p1] by simp
      then have "tokens (Suc n) (text_at buf p) = []" by (simp only: tokens.simps list.case)
      moreover have "buf' = b1" "argv = []" using Suc.prems False skip True by (auto simp: rbind_Ok_iff char_at_Ok)
      ultimately show ?thesis using s by simp
    next
      case more: False
      define quoted where "quoted = (peek b1 p1 = ch_quote)"
      define q where "q = (if quoted then p1 + 1 else p1)"
      define stop where "stop = (if quoted then (\<lambda>c. c = ch_quote) else is_blank)"
      obtain e b2 p2 av where sc: "scan_to stop b1 q = Ok e" and cut: "cut_at b1 e = Ok (b2, p2)"
        and loop: "parse_loop n b2 p2 = Ok (buf', av)" and res: "argv = q # av"
        using Suc.prems False skip more by (auto simp: rbind_Ok_iff char_at_Ok quoted_def q_def stop_def Let_def)
      note ih = Suc.IH [OF loop] and c = cut_at [OF cut] and scan = scan_to [OF sc]
      have "text_at b1 p1 = peek b1 p1 # text_at b1 (p1 + 1)" using more text_at_rec [of b1 p1] by simp
      then have "tokens (Suc n) (text_at buf p)
          = takeWhile (\<lambda>x. \<not> stop x) (text_at b1 q) # tokens n (tl (dropWhile (\<lambda>x. \<not> stop x) (text_at b1 q)))"
        using s by (simp add: quoted_def stop_def q_def)
      moreover have "text_at buf' q = takeWhile (\<lambda>c. \<not> stop c) (text_at b1 q)"
        using argument_text [OF sc cut] ih by blast
      moreover have "text_at b2 p2 = tl (dropWhile (\<lambda>x. \<not> stop x) (text_at b1 q))" using c scan by simp
      moreover have "cuts p buf buf'"
      proof (rule cuts_trans [OF _ cuts_trans])
        show "cuts p buf b1" "cuts e b1 b2" "cuts p2 b2 buf'" "e \<le> p2" using s c ih by auto
        show "p \<le> e" using s scan by (auto simp: q_def split: if_splits)
      qed
      ultimately show ?thesis using ih res by simp
    qed
  qed
qed

text \<open>A buffer that holds a NUL byte from the position on is never read behind its end.\<close>

definition ended :: "u8 list \<Rightarrow> nat \<Rightarrow> bool" where
  "ended buf p \<longleftrightarrow> (\<exists>k\<ge>p. k < length buf \<and> buf ! k = 0)"

lemma ended_char:
  assumes "ended buf p"
  shows "char_at buf p = Ok (peek buf p)" and "peek buf p \<noteq> 0 \<Longrightarrow> ended buf (p + 1) \<and> ended (buf[p := 0]) (p + 1)"
proof -
  obtain k where k: "p \<le> k" "k < length buf" "buf ! k = 0" using assms by (auto simp: ended_def)
  then show "char_at buf p = Ok (peek buf p)" by (simp add: char_at_Ok)
  show "ended buf (p + 1) \<and> ended (buf[p := 0]) (p + 1)" if "peek buf p \<noteq> 0"
  proof -
    have "k \<noteq> p" using that k by (auto simp: peek_def)
    then show ?thesis using k by (auto simp: ended_def intro!: exI [of _ k])
  qed
qed

lemma skip_blanks_ended: "ended buf p \<Longrightarrow> \<exists>buf' p'. skip_blanks buf p = Ok (buf', p') \<and> ended buf' p'"
proof (induction buf p rule: skip_blanks.induct)
  case (1 buf p)
  note c = ended_char [OF 1(2)]
  have "is_blank (peek buf p) \<Longrightarrow> peek buf p \<noteq> 0" by (auto simp: is_blank_def)
  then show ?case
    using 1(1) [OF c(1)] c(2) 1(2) by (cases "is_blank (peek buf p)") (simp_all add: skip_blanks.simps [of buf p] c(1))
qed

lemma scan_to_ended: "ended buf p \<Longrightarrow> \<exists>e. scan_to stop buf p = Ok e \<and> ended buf e"
proof (induction stop buf p rule: scan_to.induct)
  case (1 stop buf p)
  note c = ended_char [OF 1(2)]
  show ?case
    using 1(1) [OF c(1)] c(2) 1(2)
    by (cases "peek buf p \<noteq> 0 \<and> \<not> stop (peek buf p)") (auto simp: scan_to.simps [of stop buf p] c(1))
qed

lemma parse_loop_ended: "ended buf p \<Longrightarrow> \<exists>r. parse_loop n buf p = Ok r"
proof (induction n arbitrary: buf p)
  case 0
  then show ?case by (simp add: ended_char(1))
next
  case (Suc n)
  note c = ended_char(1) [OF Suc.prems]
  obtain b1 p1 where s: "skip_blanks buf p = Ok (b1, p1)" "ended b1 p1" using skip_blanks_ended [OF Suc.prems] by blast
  note c1 = ended_char [OF s(2)]
  show ?case
  proof (cases "peek b1 p1 = 0")
    case True
    then show ?thesis using c s c1(1) by simp
  next
    case False
    let ?q = "if peek b1 p1 = ch_quote then p1 + 1 else p1"
    let ?stop = "if peek b1 p1 = ch_quote then (\<lambda>c. c = ch_quote) else is_blank"
    have "ended b1 ?q" using s(2) c1(2) [OF False] by simp
    then obtain e where e: "scan_to ?stop b1 ?q = Ok e" "ended b1 e" using scan_to_ended by blast
    obtain b2 p2 where cut: "cut_at b1 e = Ok (b2, p2)" "ended b2 p2"
      using ended_char [OF e(2)] e(2) by (cases "peek b1 e = 0") (simp_all add: cut_at_def)
    obtain r where "parse_loop n b2 p2 = Ok r" using Suc.IH [OF cut(2)] by blast
    then show ?thesis using c s(1) c1(1) False e(1) cut(1) by (cases r) (simp add: Let_def)
  qed
qed

lemma parse_args_texts:
  "case parse_args buf n of Ok r \<Rightarrow> arg_texts r = tokens n (c_text buf) | Fail e \<Rightarrow> 0 \<notin> set buf"
proof (cases "parse_args buf n")
  case (Ok r)
  obtain buf' argv where r: "r = (buf', argv)" by fastforce
  then have "map (text_at buf') argv = tokens n (text_at buf 0)"
    using parse_loop_tokens [of n buf 0] Ok by (simp add: parse_args_def)
  moreover have "text_at buf' = (\<lambda>q. c_text (drop q buf'))" by (simp add: fun_eq_iff text_at_def)
  ultimately show ?thesis using r Ok by (simp add: arg_texts_def text_at_def)
next
  case (Fail e)
  then have "\<not> ended buf 0" using parse_loop_ended [of buf 0 n] by (auto simp: parse_args_def)
  then show ?thesis using Fail by (auto simp: ended_def in_set_conv_nth)
qed

text \<open>The tables are searched by \<open>strcmp\<close>; their names are texts without repetitions.\<close>

lemma find_distinct:
  assumes "distinct (map f xs)" and "x \<in> set xs"
  shows "find (\<lambda>y. f x = f y) xs = Some x"
  using assms by (induction xs) (auto simp: image_iff)

lemma lit_text: "list_all (\<lambda>c. of_char c \<noteq> (0 :: u8)) s \<Longrightarrow> c_text (lit s) = lit s"
  by (rule c_text_is_text) (simp add: is_text_def lit_def list_all_iff)

lemma cmds_names: "distinct (map fst g_cmds) \<and> list_all (\<lambda>c. is_text (fst c)) g_cmds"
  by code_simp

lemma apps_names: "distinct (map app_name g_apps) \<and> list_all (\<lambda>a. is_text (app_name a)) g_apps"
  by code_simp

lemma tokens_text: "is_text s \<Longrightarrow> \<forall>t\<in>set (tokens n s). is_text t"
proof (induction n s rule: tokens.induct)
  case (2 n s)
  have tl: "is_text xs \<Longrightarrow> is_text (tl xs)" for xs by (cases xs) auto
  have dw: "is_text xs \<Longrightarrow> is_text (dropWhile P xs)" for P xs
    by (auto simp: is_text_def list_all_iff dest: set_dropWhileD)
  have tw: "is_text xs \<Longrightarrow> is_text (takeWhile P xs)" for P xs
    by (auto simp: is_text_def list_all_iff dest: set_takeWhileD)
  have d: "is_text (dropWhile is_blank s)" using dw [OF 2(3)] .
  show ?case
  proof (cases "dropWhile is_blank s")
    case (Cons c t)
    then have t: "is_text (c # t)" "is_text t" using d by simp_all
    show ?thesis
    proof (cases "c = ch_quote")
      case True
      have "\<forall>x\<in>set (tokens n (tl (dropWhile (\<lambda>x. x \<noteq> ch_quote) t))). is_text x"
        using 2(1) [OF Cons True tl [OF dw [OF t(2)]]] .
      moreover have "is_text (takeWhile (\<lambda>x. x \<noteq> ch_quote) t)" using tw [OF t(2)] .
      ultimately show ?thesis unfolding tokens.simps Cons list.case using True by simp
    next
      case False
      have "\<forall>x\<in>set (tokens n (tl (dropWhile (\<lambda>x. \<not> is_blank x) (c # t)))). is_text x"
        using 2(2) [OF Cons False tl [OF dw [OF t(1)]]] .
      moreover have "is_text (takeWhile (\<lambda>x. \<not> is_blank x) (c # t))" using tw [OF t(1)] .
      ultimately show ?thesis unfolding tokens.simps Cons list.case using False
        by (simp del: takeWhile.simps dropWhile.simps)
    qed
  next
    case Nil
    show ?thesis unfolding tokens.simps Nil list.case by simp
  qed
qed simp

lemma find_builtin_Some:
  assumes "(name, help, cmd) \<in> set g_cmds"
  shows "find_builtin name = Some cmd"
proof -
  have t: "\<forall>c\<in>set g_cmds. c_text (fst c) = fst c" using cmds_names by (simp add: list_all_iff)
  then have "c_text name = name" using assms by force
  then have "find (\<lambda>c. strcmp name (fst c) = 0) g_cmds = find (\<lambda>c. fst (name, help, cmd) = fst c) g_cmds"
    using t by (intro find_cong) (auto simp: strcmp_eq_0)
  also have "\<dots> = Some (name, help, cmd)" using cmds_names assms by (intro find_distinct) auto
  finally show ?thesis by (simp add: find_builtin_def case_prod_unfold)
qed

lemma find_builtin_None:
  assumes "is_text name" and "name \<notin> fst ` set g_cmds"
  shows "find_builtin name = None"
proof -
  have "\<forall>c\<in>set g_cmds. c_text (fst c) = fst c" using cmds_names by (simp add: list_all_iff)
  then have "strcmp name (fst c) \<noteq> 0" if "c \<in> set g_cmds" for c using that assms by (auto simp: strcmp_eq_0)
  then have "find (\<lambda>c. strcmp name (fst c) = 0) g_cmds = None" unfolding find_None_iff by blast
  then show ?thesis by (simp add: find_builtin_def case_prod_unfold)
qed

lemma find_app_Some:
  assumes "a \<in> set g_apps"
  shows "find_app (app_name a) = Some a"
proof -
  have t: "\<forall>a\<in>set g_apps. c_text (app_name a) = app_name a" using apps_names by (simp add: list_all_iff)
  then have "find_app (app_name a) = find (\<lambda>b. app_name a = app_name b) g_apps"
    using assms unfolding find_app_def by (intro find_cong) (auto simp: strcmp_eq_0)
  also have "\<dots> = Some a" using apps_names assms by (intro find_distinct) auto
  finally show ?thesis .
qed

lemma find_app_None:
  assumes "is_text name" and "name \<notin> app_name ` set g_apps"
  shows "find_app name = None"
proof -
  have "\<forall>a\<in>set g_apps. c_text (app_name a) = app_name a" using apps_names by (simp add: list_all_iff)
  then show ?thesis using assms by (force simp: find_app_def find_None_iff strcmp_eq_0)
qed

lemma line_tokens: "\<exists>r. parse_args (line_copy l) 16 = Ok r \<and> arg_texts r = tokens 16 (take 127 (c_text l))"
proof -
  have "0 \<in> set (line_copy l)" by (simp add: line_copy_def)
  moreover have "c_text (line_copy l) = take 127 (c_text l)" by (simp add: line_copy_def c_text_terminated)
  ultimately show ?thesis using parse_args_texts [where buf = "line_copy l" and n = 16] by (auto split: res.splits)
qed

text \<open>Every program has a \<open>main\<close> unless a builtin has its name.\<close>

lemma apps_main: "list_all (\<lambda>a. app_has_main a \<or> app_name a \<in> set (map fst g_cmds)) g_apps"
  by code_simp

section \<open>Properties\<close>

text \<open>
  C29: The argument parser, which cuts the line in place, is equivalent to the tokenizer on lists: the
  strings \<open>argv\<close> points to after it has returned are the first \<open>n\<close> tokens of the line, and it returns
  unless the buffer has no NUL byte.
\<close>

theorem parse_args_tokens:
  "case parse_args buf n of Ok r \<Rightarrow> arg_texts r = tokens n (c_text buf) | Fail e \<Rightarrow> 0 \<notin> set buf"
  by (rule parse_args_texts)

text \<open>
  C30: A line runs the builtin that its first token names, with the tokens as arguments; otherwise the
  program of this name; any other name gives the error message, and a line of blanks does nothing. A
  program that has the name of a builtin, as \<open>echo\<close> and \<open>clear\<close> have, never runs.
\<close>

theorem shell_dispatch:
  "case tokens 16 (take 127 (c_text l)) of
     [] \<Rightarrow> shell_execute_line t l = Ok []
   | name # args \<Rightarrow>
       (\<forall>help cmd. (name, help, cmd) \<in> set g_cmds \<longrightarrow> shell_execute_line t l = Ok (run_builtin t cmd (name # args))) \<and>
       (name \<notin> fst ` set g_cmds \<longrightarrow>
          (\<forall>a\<in>set g_apps. app_name a = name \<longrightarrow> shell_execute_line t l = Ok [Run_Main name (name # args)]) \<and>
          (name \<notin> app_name ` set g_apps \<longrightarrow>
             shell_execute_line t l = Ok [Write_Error (line ''Unknown command. Type 'help'.'')]))"
proof (cases "tokens 16 (take 127 (c_text l))")
  case Nil
  then show ?thesis using line_tokens [of l] by (auto simp: shell_execute_line_def)
next
  case (Cons name args)
  have "is_text (take 127 (c_text l))" by simp
  from tokens_text [OF this, of 16] have "is_text name" unfolding Cons by simp
  then have none: "find_builtin name = None" if "name \<notin> fst ` set g_cmds" using that by (rule find_builtin_None)
  have run: "shell_execute_line t l = Ok (case find_builtin name of
      Some cmd \<Rightarrow> run_builtin t cmd (name # args)
    | None \<Rightarrow> (case find_app name of
        Some a \<Rightarrow> if app_has_main a then [Run_Main (app_name a) (name # args)] else [Write_Error (line ''Unknown command. Type 'help'.'')]
      | None \<Rightarrow> [Write_Error (line ''Unknown command. Type 'help'.'')]))"
    using line_tokens [of l] unfolding Cons by (auto simp: shell_execute_line_def)
  have "shell_execute_line t l = Ok (run_builtin t cmd (name # args))" if "(name, info, cmd) \<in> set g_cmds" for info cmd
    unfolding run find_builtin_Some [OF that] by simp
  moreover have "shell_execute_line t l = Ok [Run_Main name (name # args)]"
    if "name \<notin> fst ` set g_cmds" "a \<in> set g_apps" "app_name a = name" for a
  proof -
    have "app_has_main a" using apps_main that by (auto simp: list_all_iff)
    then show ?thesis unfolding run none [OF that(1)] using find_app_Some [OF that(2)] that(3) by simp
  qed
  moreover have "shell_execute_line t l = Ok [Write_Error (line ''Unknown command. Type 'help'.'')]"
    if "name \<notin> fst ` set g_cmds" "name \<notin> app_name ` set g_apps"
    unfolding run none [OF that(1)] using find_app_None [OF \<open>is_text name\<close> that(2)] by simp
  ultimately show ?thesis unfolding Cons by auto
qed

text \<open>\<open>clear\<close> is a builtin, \<open>cat\<close> a program, and \<open>boot\<close> neither.\<close>

theorem shell_dispatch_witness:
  "shell_execute_line \<lparr>g_ticks = 0, g_hz = 100\<rparr> (lit '' clear now'') = Ok [Clear_Scrollback] \<and>
   shell_execute_line \<lparr>g_ticks = 0, g_hz = 100\<rparr> (lit ''cat \"a b\"'') = Ok [Run_Main (lit ''cat'') [lit ''cat'', lit ''a b'']] \<and>
   shell_execute_line \<lparr>g_ticks = 0, g_hz = 100\<rparr> (lit ''boot'') = Ok [Write_Error (line ''Unknown command. Type 'help'.'')]"
proof -
  let ?t = "\<lparr>g_ticks = 0, g_hz = 100\<rparr> :: pit"
  have tok: "tokens 16 (take 127 (c_text (lit '' clear now''))) = [lit ''clear'', lit ''now'']"
    "tokens 16 (take 127 (c_text (lit ''cat \"a b\"''))) = [lit ''cat'', lit ''a b'']"
    "tokens 16 (take 127 (c_text (lit ''boot''))) = [lit ''boot'']"
    by code_simp+
  have mem: "(lit ''clear'', lit ''clear terminal'', Cmd_Clear) \<in> set g_cmds" by (simp add: g_cmds_def)
  have "lit ''cat'' \<notin> fst ` set g_cmds" "lit ''boot'' \<notin> fst ` set g_cmds" "lit ''boot'' \<notin> app_name ` set g_apps"
    by code_simp+
  moreover have "app ''cat'' ''cat <path> - print file'' True \<in> set g_apps" by (simp add: g_apps_def)
  moreover have "app_name (app ''cat'' ''cat <path> - print file'' True) = lit ''cat''" by (simp add: app_def)
  ultimately show ?thesis
    using shell_dispatch [where l = "lit '' clear now''" and t = ?t] shell_dispatch [where l = "lit ''cat \"a b\"''" and t = ?t]
      shell_dispatch [where l = "lit ''boot''" and t = ?t] mem
    unfolding tok list.case by (auto simp: run_builtin_def)
qed

end
