(* ===== verification/Terminal.thy ===== *)
theory Terminal
  imports CString
begin

text \<open>
  The text terminal on the VGA display (\<open>kernel/terminal/terminal.c\<close>, \<open>kernel/ui/theme.h\<close>). The output
  goes to a ring of 512 lines of 80 cells, numbered by absolute 32-bit line numbers; \<open>terminal_render\<close>
  writes the 80 by 25 display memory, of which the last two rows show the input line and the status. The
  display memory and the last values written to the cursor ports are part of the state.
\<close>

abbreviation (input) TERM_WIDTH :: nat where "TERM_WIDTH \<equiv> 80"
abbreviation (input) TERM_OUTPUT_ROWS :: nat where "TERM_OUTPUT_ROWS \<equiv> 23"
abbreviation (input) TERM_SCROLLBACK_LINES :: nat where "TERM_SCROLLBACK_LINES \<equiv> 512"

section \<open>State\<close>

record theme =
  th_bg :: u8
  th_output :: u8
  th_prompt :: u8
  th_input :: u8
  th_error :: u8
  th_status :: u8
  th_accent :: u8

record term_cell =
  cell_ch :: u8
  cell_attr :: u8

record terminal =
  g_lines :: "term_cell list list"
  g_total_lines :: u32
  g_current_line :: u32
  g_current_col :: nat
  g_scroll_offset :: int
  g_current_attr :: u8
  g_theme :: theme
  g_prompt :: "u8 list"
  g_input :: "u8 list"
  g_input_len :: nat
  g_input_cursor :: nat
  g_status :: "u8 list"
  vga :: "u16 list"
  vga_cursor :: "(u16 \<times> u8) list"

definition THEME_RONIN_DARK :: theme where
  "THEME_RONIN_DARK = \<lparr>th_bg = 0, th_output = 7, th_prompt = 10, th_input = 15, th_error = 12, th_status = 11, th_accent = 14\<rparr>"

definition theme_attr :: "u8 \<Rightarrow> u8 \<Rightarrow> u8" where
  "theme_attr fg bg = push_bit 4 bg OR (fg AND 0x0F)"

text \<open>The statics before \<open>terminal_init\<close>; the contents of the display memory are those of the boot.\<close>

definition terminal_boot :: "u16 list \<Rightarrow> terminal" where
  "terminal_boot mem =
     \<lparr>g_lines = replicate 512 (replicate 80 \<lparr>cell_ch = 0, cell_attr = 0\<rparr>), g_total_lines = 1, g_current_line = 0,
      g_current_col = 0, g_scroll_offset = 0, g_current_attr = 7,
      g_theme = \<lparr>th_bg = 0, th_output = 0, th_prompt = 0, th_input = 0, th_error = 0, th_status = 0, th_accent = 0\<rparr>,
      g_prompt = lit ''ronin> '' @ replicate 25 0, g_input = replicate 128 0, g_input_len = 0, g_input_cursor = 0,
      g_status = lit ''PgUp/PgDn scroll  Up/Down history'' @ replicate 47 0, vga = mem, vga_cursor = []\<rparr>"

section \<open>Lines\<close>

definition output_attr :: "terminal \<Rightarrow> u8" where
  "output_attr t = theme_attr (th_output (g_theme t)) (th_bg (g_theme t))"

definition vga_entry :: "u8 \<Rightarrow> u8 \<Rightarrow> u16" where
  "vga_entry c attr = ucast c OR push_bit 8 (ucast attr)"

definition first_abs_line :: "terminal \<Rightarrow> u32" where
  "first_abs_line t = (if g_total_lines t > 512 then g_total_lines t - 512 else 0)"

definition line_index :: "u32 \<Rightarrow> nat" where
  "line_index abs_line = unat abs_line mod TERM_SCROLLBACK_LINES"

definition blank_line :: "u8 \<Rightarrow> term_cell list" where
  "blank_line attr = replicate TERM_WIDTH \<lparr>cell_ch = ch_space, cell_attr = attr\<rparr>"

definition clear_line :: "u32 \<Rightarrow> terminal \<Rightarrow> terminal" where
  "clear_line abs_line t = t\<lparr>g_lines := (g_lines t)[line_index abs_line := blank_line (output_attr t)]\<rparr>"

definition ensure_current_line_initialized :: "terminal \<Rightarrow> terminal" where
  "ensure_current_line_initialized t = (if g_current_col t = 0 then clear_line (g_current_line t) t else t)"

definition linefeed :: "terminal \<Rightarrow> terminal" where
  "linefeed t =
     (let n = g_current_line t + 1;
          t = t\<lparr>g_current_col := 0, g_current_line := n, g_total_lines := n + 1\<rparr>
      in (clear_line n t)\<lparr>g_scroll_offset := 0\<rparr>)"

text \<open>A cell of the current line is written.\<close>

definition set_cell :: "nat \<Rightarrow> u8 \<Rightarrow> terminal \<Rightarrow> terminal" where
  "set_cell col c t =
     (let idx = line_index (g_current_line t)
      in t\<lparr>g_lines := (g_lines t)[idx := (g_lines t ! idx)[col := \<lparr>cell_ch = c, cell_attr = g_current_attr t\<rparr>]]\<rparr>)"

text \<open>\<open>char\<close> is signed: bytes from 128 on are below 32 and print nothing, as those above 126 do.\<close>

definition put_output_char :: "u8 \<Rightarrow> terminal \<Rightarrow> terminal" where
  "put_output_char c t =
     (if c = ch_nl then linefeed t
      else if c = 13 then t\<lparr>g_current_col := 0\<rparr>
      else if c = 8 then
        (if g_current_col t > 0
         then set_cell (g_current_col t - 1) ch_space (t\<lparr>g_current_col := g_current_col t - 1\<rparr>)
         else t)
      else if c < 32 \<or> c > 126 then t
      else
        (let t = ensure_current_line_initialized t;
             t = set_cell (g_current_col t) c t;
             t = t\<lparr>g_current_col := g_current_col t + 1\<rparr>
         in if g_current_col t \<ge> TERM_WIDTH then linefeed t else t))"

section \<open>Escape sequences\<close>

text \<open>
  The attribute a sequence sets and its length. The text stands for the string up to its NUL byte; the
  test \<open>s[2] == '3' && s[4] == 'm'\<close> reads one byte past the NUL of a text that ends after the 3.
\<close>

definition parse_ansi_code :: "theme \<Rightarrow> u8 list \<Rightarrow> (u8 \<times> nat) option res" where
  "parse_ansi_code th s =
     (case s of
        a # b # rest \<Rightarrow>
          if a \<noteq> 27 \<or> b \<noteq> 91 then Ok None
          else
            (case rest of
               x # y # _ \<Rightarrow>
                 if x = 48 \<and> y = 109 then Ok (Some (theme_attr (th_output th) (th_bg th), 4))
                 else if x = 51 then
                   (case rest of
                      _ # _ # z # _ \<Rightarrow>
                        if z = 109 \<and> y = 49 then Ok (Some (theme_attr 4 (th_bg th), 5))
                        else if z = 109 \<and> y = 50 then Ok (Some (theme_attr 2 (th_bg th), 5))
                        else Ok None
                    | _ \<Rightarrow> Ok None)
                 else Ok None
             | [x] \<Rightarrow> if x = 51 then Fail Wild else Ok None
             | [] \<Rightarrow> Ok None)
      | _ \<Rightarrow> Ok None)"

lemma parse_ansi_code_length: "parse_ansi_code th s = Ok (Some (attr, n)) \<Longrightarrow> 0 < n \<and> n \<le> length s"
  by (auto simp: parse_ansi_code_def split: list.splits if_splits)

section \<open>The display\<close>

definition set_hw_cursor :: "nat \<Rightarrow> nat \<Rightarrow> (u16 \<times> u8) list" where
  "set_hw_cursor row col =
     (let pos = of_nat (row * TERM_WIDTH + col) :: u16
      in [(0x3D4, 0x0F), (0x3D5, ucast (pos AND 0xFF)), (0x3D4, 0x0E), (0x3D5, ucast (drop_bit 8 pos AND 0xFF))])"

definition output_cell :: "terminal \<Rightarrow> u32 \<Rightarrow> nat \<Rightarrow> term_cell" where
  "output_cell t abs_line col =
     (if abs_line \<le> g_current_line t \<and> abs_line \<ge> first_abs_line t
      then g_lines t ! line_index abs_line ! col
      else \<lparr>cell_ch = ch_space, cell_attr = output_attr t\<rparr>)"

definition cell_entry :: "term_cell \<Rightarrow> u16" where
  "cell_entry c = vga_entry (cell_ch c) (cell_attr c)"

definition output_rows :: "terminal \<Rightarrow> u32 \<Rightarrow> u16 list" where
  "output_rows t up =
     concat (map (\<lambda>row. map (\<lambda>col. cell_entry (output_cell t (up + of_nat row) col)) [0..<TERM_WIDTH]) [0..<TERM_OUTPUT_ROWS])"

definition input_row :: "terminal \<Rightarrow> u16 list" where
  "input_row t =
     (let prompt_attr = theme_attr (th_prompt (g_theme t)) (th_bg (g_theme t));
          input_attr = theme_attr (th_input (g_theme t)) (th_bg (g_theme t));
          p = take TERM_WIDTH (c_text (g_prompt t));
          i = take (TERM_WIDTH - length p) (take (g_input_len t) (g_input t));
          row = replicate TERM_WIDTH (vga_entry ch_space input_attr)
      in blit (blit row 0 (map (\<lambda>c. vga_entry c prompt_attr) p)) (length p) (map (\<lambda>c. vga_entry c input_attr) i))"

definition status_row :: "terminal \<Rightarrow> u16 list" where
  "status_row t =
     map (\<lambda>col. vga_entry (if g_status t ! col \<noteq> 0 then g_status t ! col else ch_space) (theme_attr (th_status (g_theme t)) 1))
       [0..<TERM_WIDTH]"

definition terminal_render :: "terminal \<Rightarrow> terminal" where
  "terminal_render t =
     (let first = first_abs_line t;
          bottom = g_current_line t;
          off = (if g_scroll_offset t < 0 then 0 else g_scroll_offset t);
          off = (if bottom < of_int off then sint bottom else off);
          t = t\<lparr>g_scroll_offset := off\<rparr>;
          back = 22 + of_int off :: u32;
          up = (if bottom \<ge> back then bottom - back else 0);
          up = (if up < first then first else up);
          cursor_col = strlen (g_prompt t) + g_input_cursor t;
          cursor_col = (if cursor_col \<ge> TERM_WIDTH then TERM_WIDTH - 1 else cursor_col)
      in t\<lparr>vga := output_rows t up @ input_row t @ status_row t, vga_cursor := set_hw_cursor TERM_OUTPUT_ROWS cursor_col\<rparr>)"

section \<open>Operations\<close>

text \<open>\<open>for (i = 0; i < TERM_SCROLLBACK_LINES; i++) clear_line(i);\<close> after the counters are reset.\<close>

definition reset_lines :: "terminal \<Rightarrow> terminal" where
  "reset_lines t =
     (let t = t\<lparr>g_total_lines := 1, g_current_line := 0, g_current_col := 0, g_scroll_offset := 0,
                g_current_attr := output_attr t\<rparr>
      in fold (\<lambda>i. clear_line (of_nat i)) [0..<TERM_SCROLLBACK_LINES] t)"

definition terminal_init :: "theme option \<Rightarrow> terminal \<Rightarrow> terminal" where
  "terminal_init th t =
     terminal_render (reset_lines (t\<lparr>g_theme := (case th of Some x \<Rightarrow> x | None \<Rightarrow> THEME_RONIN_DARK)\<rparr>))"

definition terminal_apply_theme :: "theme option \<Rightarrow> terminal \<Rightarrow> terminal" where
  "terminal_apply_theme th t =
     (case th of
        None \<Rightarrow> t
      | Some x \<Rightarrow> (let t = t\<lparr>g_theme := x\<rparr> in terminal_render (t\<lparr>g_current_attr := output_attr t\<rparr>)))"

definition terminal_clear_scrollback :: "terminal \<Rightarrow> terminal" where
  "terminal_clear_scrollback t = terminal_render (reset_lines t)"

function write_chars :: "u8 list \<Rightarrow> terminal \<Rightarrow> terminal res" where
  "write_chars s t =
     (case s of
        [] \<Rightarrow> Ok t
      | c # cs \<Rightarrow>
          (case parse_ansi_code (g_theme t) s of
             Fail e \<Rightarrow> Fail e
           | Ok (Some (attr, n)) \<Rightarrow> write_chars (drop n s) (t\<lparr>g_current_attr := attr\<rparr>)
           | Ok None \<Rightarrow> write_chars cs (put_output_char c t)))"
  by pat_completeness auto
termination
  by (relation "measure (\<lambda>(s, t). length s)") (auto dest: parse_ansi_code_length)

declare write_chars.simps [simp del]

definition terminal_write :: "u8 list \<Rightarrow> terminal \<Rightarrow> terminal res" where
  "terminal_write s t = rbind (write_chars s t) (\<lambda>t. Ok (terminal_render t))"

definition terminal_putc :: "u8 \<Rightarrow> terminal \<Rightarrow> terminal" where
  "terminal_putc c t = terminal_render (put_output_char c t)"

definition terminal_write_error :: "u8 list \<Rightarrow> terminal \<Rightarrow> terminal res" where
  "terminal_write_error s t =
     rbind (terminal_write s (t\<lparr>g_current_attr := theme_attr (th_error (g_theme t)) (th_bg (g_theme t))\<rparr>))
       (\<lambda>t'. Ok (t'\<lparr>g_current_attr := g_current_attr t\<rparr>))"

text \<open>The copies stop one byte before the end of the array.\<close>

definition terminal_set_prompt :: "u8 list \<Rightarrow> terminal \<Rightarrow> terminal" where
  "terminal_set_prompt s t =
     (let p = take 31 (c_text s) in terminal_render (t\<lparr>g_prompt := blit (g_prompt t) 0 (p @ [0])\<rparr>))"

definition terminal_set_input_line :: "u8 list option \<Rightarrow> nat \<Rightarrow> nat \<Rightarrow> terminal \<Rightarrow> terminal" where
  "terminal_set_input_line input len cursor t =
     (case input of
        None \<Rightarrow> terminal_render (t\<lparr>g_input := (g_input t)[0 := 0], g_input_len := 0, g_input_cursor := 0\<rparr>)
      | Some l \<Rightarrow>
          (let len = (if len \<ge> 128 then 127 else len)
           in terminal_render (t\<lparr>g_input := blit (g_input t) 0 (take len l @ [0]), g_input_len := len,
                g_input_cursor := (if cursor > len then len else cursor)\<rparr>)))"

definition terminal_scroll_lines :: "int \<Rightarrow> terminal \<Rightarrow> terminal" where
  "terminal_scroll_lines delta t =
     (let max_off = sint (g_current_line t - first_abs_line t);
          off = g_scroll_offset t + delta;
          off = (if off < 0 then 0 else off);
          off = (if off > max_off then max_off else off)
      in terminal_render (t\<lparr>g_scroll_offset := off\<rparr>))"

definition terminal_set_status :: "u8 list \<Rightarrow> terminal \<Rightarrow> terminal" where
  "terminal_set_status s t =
     (let p = take 79 (c_text s) in terminal_render (t\<lparr>g_status := p @ replicate (80 - length p) 0\<rparr>))"

end
