(* ===== verification/Terminal_Spec.thy ===== *)
theory Terminal_Spec
  imports Terminal
begin

text \<open>
  The terminal keeps an abstract log: all lines printed so far, of which the ring holds the last 512. Every
  write refines the same write on the log, and the display shows a window of it.
\<close>

section \<open>The abstract log\<close>

record scrollback =
  log_lines :: "term_cell list list"
  log_col :: nat
  log_attr :: u8

definition log_newline :: "term_cell list \<Rightarrow> scrollback \<Rightarrow> scrollback" where
  "log_newline blank L = L\<lparr>log_lines := log_lines L @ [blank], log_col := 0\<rparr>"

text \<open>The cell at \<open>col\<close> of the last line.\<close>

definition log_cell :: "nat \<Rightarrow> u8 \<Rightarrow> scrollback \<Rightarrow> scrollback" where
  "log_cell col c L =
     L\<lparr>log_lines := butlast (log_lines L) @ [(last (log_lines L))[col := \<lparr>cell_ch = c, cell_attr = log_attr L\<rparr>]]\<rparr>"

text \<open>A character printed at the start of a line clears it first; the last column starts a new line.\<close>

definition log_put :: "term_cell list \<Rightarrow> u8 \<Rightarrow> scrollback \<Rightarrow> scrollback" where
  "log_put blank c L =
     (if c = ch_nl then log_newline blank L
      else if c = 13 then L\<lparr>log_col := 0\<rparr>
      else if c = 8 then
        (if log_col L > 0 then log_cell (log_col L - 1) ch_space (L\<lparr>log_col := log_col L - 1\<rparr>) else L)
      else if c < 32 \<or> c > 126 then L
      else
        (let L = (if log_col L = 0 then L\<lparr>log_lines := butlast (log_lines L) @ [blank]\<rparr> else L);
             L = (log_cell (log_col L) c L)\<lparr>log_col := log_col L + 1\<rparr>
         in if log_col L \<ge> TERM_WIDTH then log_newline blank L else L))"

function log_write :: "theme \<Rightarrow> u8 list \<Rightarrow> scrollback \<Rightarrow> scrollback res" where
  "log_write th s L =
     (case s of
        [] \<Rightarrow> Ok L
      | c # cs \<Rightarrow>
          (case parse_ansi_code th s of
             Fail e \<Rightarrow> Fail e
           | Ok (Some (attr, n)) \<Rightarrow> log_write th (drop n s) (L\<lparr>log_attr := attr\<rparr>)
           | Ok None \<Rightarrow> log_write th cs (log_put (blank_line (theme_attr (th_output th) (th_bg th))) c L)))"
  by pat_completeness auto
termination
  by (relation "measure (\<lambda>(th, s, L). length s)") (auto dest: parse_ansi_code_length)

declare log_write.simps [simp del]

section \<open>The ring holds the end of the log\<close>

definition shows_log :: "terminal \<Rightarrow> scrollback \<Rightarrow> bool" where
  "shows_log t L \<longleftrightarrow>
     unat (g_current_line t) + 1 = length (log_lines L) \<and> g_total_lines t = g_current_line t + 1 \<and>
     length (log_lines L) < 2 ^ 32 \<and> length (g_lines t) = 512 \<and>
     (\<forall>k<length (log_lines L). length (log_lines L) \<le> k + 512 \<longrightarrow> g_lines t ! (k mod 512) = log_lines L ! k) \<and>
     g_current_col t = log_col L \<and> log_col L < 80 \<and> g_current_attr t = log_attr L \<and>
     0 \<le> g_scroll_offset t \<and> g_scroll_offset t < int (min (length (log_lines L)) 512)"

text \<open>The window: the row at the top, and what every cell of the output rows shows.\<close>

definition window_start :: "terminal \<Rightarrow> scrollback \<Rightarrow> nat" where
  "window_start t L = max (length (log_lines L) - 512) (length (log_lines L) - 23 - nat (g_scroll_offset t))"

definition shows_window :: "terminal \<Rightarrow> scrollback \<Rightarrow> bool" where
  "shows_window t L \<longleftrightarrow>
     (\<forall>row<23. \<forall>col<80. vga t ! (row * 80 + col) =
        (if window_start t L + row < length (log_lines L)
         then cell_entry (log_lines L ! (window_start t L + row) ! col)
         else vga_entry ch_space (output_attr t)))"

lemma shows_log_nonempty: "shows_log t L \<Longrightarrow> log_lines L \<noteq> []"
  by (auto simp: shows_log_def)

text \<open>Lines that share a slot of the ring are 512 apart.\<close>

lemma ring_slots:
  fixes k j n :: nat
  assumes "n \<le> k + 512" and "k < n" and "j < n" and "n \<le> j + 512"
  shows "k mod 512 = j mod 512 \<longleftrightarrow> k = j"
proof
  assume eq: "k mod 512 = j mod 512"
  define a b r where "a = k div 512" and "b = j div 512" and "r = k mod 512"
  have "k = 512 * a + r" "j = 512 * b + r"
    using mult_div_mod_eq [of 512 k] mult_div_mod_eq [of 512 j] eq by (simp_all only: a_def b_def r_def)
  moreover have "\<not> a < b" "\<not> b < a"
  proof -
    show "\<not> a < b"
    proof
      assume "a < b"
      then have "512 * a + 512 \<le> 512 * b" by simp
      then show False using calculation assms by linarith
    qed
    show "\<not> b < a"
    proof
      assume "b < a"
      then have "512 * b + 512 \<le> 512 * a" by simp
      then show False using calculation assms by linarith
    qed
  qed
  ultimately show "k = j" by simp
qed simp

lemma linefeed:
  assumes log: "shows_log t L" and room: "length (log_lines L) + 1 < 2 ^ 32"
  shows "shows_log (linefeed t) (log_newline (blank_line (output_attr t)) L) \<and> g_theme (linefeed t) = g_theme t"
proof -
  define n where "n = length (log_lines L)"
  define ls where "ls = (g_lines t)[n mod 512 := blank_line (output_attr t)]"
  have n: "unat (g_current_line t) + 1 = n" "length (g_lines t) = 512" "n < 2 ^ 32" "n + 1 < 2 ^ 32" "n > 0"
    using log room by (auto simp: shows_log_def n_def)
  have line: "unat (g_current_line t + 1) = n" using n by (simp add: unat_plus_nowrap)
  have t: "linefeed t = t\<lparr>g_current_col := 0, g_current_line := g_current_line t + 1, g_total_lines := g_current_line t + 2,
      g_lines := ls, g_scroll_offset := 0\<rparr>"
    using line by (simp add: linefeed_def clear_line_def line_index_def Let_def ls_def output_attr_def)
  have "ls ! (k mod 512) = (log_lines L @ [blank_line (output_attr t)]) ! k" if "k < n + 1" "n + 1 \<le> k + 512" for k
  proof (cases "k = n")
    case True
    then show ?thesis using n by (simp add: ls_def n_def [symmetric] nth_append)
  next
    case False
    then have "k mod 512 \<noteq> n mod 512" using ring_slots [of "n + 1" k n] that by auto
    then show ?thesis using that False log by (auto simp: ls_def nth_append shows_log_def n_def)
  qed
  moreover have "length ls = 512" using n by (simp add: ls_def)
  ultimately show ?thesis
    using log line n unfolding t by (auto simp: shows_log_def log_newline_def n_def)
qed

lemma cell_frame [simp]:
  "g_current_col (set_cell col c t) = g_current_col t"
  "g_theme (set_cell col c t) = g_theme t"
  "log_col (log_cell col c L) = log_col L"
  by (simp_all add: set_cell_def log_cell_def Let_def)

text \<open>Changes of the last line.\<close>

lemma last_line:
  assumes log: "shows_log t L" and col: "c < 80"
  defines "i \<equiv> line_index (g_current_line t)"
  shows "i < 512" "g_lines t ! i = last (log_lines L)"
    "shows_log (t\<lparr>g_lines := (g_lines t)[i := x], g_current_col := c\<rparr>)
       (L\<lparr>log_lines := butlast (log_lines L) @ [x], log_col := c\<rparr>)"
proof -
  define n where "n = length (log_lines L)"
  have n: "unat (g_current_line t) = n - 1" "n > 0" "length (g_lines t) = 512" using log by (auto simp: shows_log_def n_def)
  have i: "i = (n - 1) mod 512" using n by (simp add: i_def line_index_def)
  then show "i < 512" by simp
  have ring: "\<forall>k<n. n \<le> k + 512 \<longrightarrow> g_lines t ! (k mod 512) = log_lines L ! k" using log by (simp add: shows_log_def n_def)
  then have "g_lines t ! i = log_lines L ! (n - 1)" using n i by simp
  also have "\<dots> = last (log_lines L)" using n by (simp add: n_def last_conv_nth)
  finally show "g_lines t ! i = last (log_lines L)" .
  have "(g_lines t)[i := x] ! (k mod 512) = (butlast (log_lines L) @ [x]) ! k" if "k < n" "n \<le> k + 512" for k
  proof (cases "k = n - 1")
    case True
    then show ?thesis using n i by (simp add: n_def nth_append)
  next
    case False
    then have "k mod 512 \<noteq> i" using ring_slots [of n k "n - 1"] that n i by auto
    then show ?thesis using ring that False n by (auto simp: n_def nth_append nth_butlast)
  qed
  then show "shows_log (t\<lparr>g_lines := (g_lines t)[i := x], g_current_col := c\<rparr>)
       (L\<lparr>log_lines := butlast (log_lines L) @ [x], log_col := c\<rparr>)"
    using log n col by (auto simp: shows_log_def n_def)
qed

lemma set_cell:
  assumes log: "shows_log t L" and col: "col' < 80"
  shows "shows_log ((set_cell col c t)\<lparr>g_current_col := col'\<rparr>) ((log_cell col c L)\<lparr>log_col := col'\<rparr>)"
proof -
  have "g_current_attr t = log_attr L" using log by (simp add: shows_log_def)
  then show ?thesis
    using last_line [OF log col] by (simp add: set_cell_def log_cell_def Let_def)
qed

lemma new_col: "shows_log t L \<Longrightarrow> c < 80 \<Longrightarrow> shows_log (t\<lparr>g_current_col := c\<rparr>) (L\<lparr>log_col := c\<rparr>)"
  by (auto simp: shows_log_def)

lemma put_output_char:
  assumes log: "shows_log t L" and room: "length (log_lines L) + 1 < 2 ^ 32"
  shows "shows_log (put_output_char c t) (log_put (blank_line (output_attr t)) c L) \<and> g_theme (put_output_char c t) = g_theme t"
proof -
  have col: "g_current_col t = log_col L" "log_col L < 80" using log by (auto simp: shows_log_def)
  consider (nl) "c = ch_nl" | (cr) "c = 13" | (bs) "c = 8" | (skip) "c \<notin> {ch_nl, 13, 8}" "c < 32 \<or> c > 126"
    | (put) "c \<notin> {ch_nl, 13, 8}" "\<not> (c < 32 \<or> c > 126)" by blast
  then show ?thesis
  proof cases
    case nl
    then show ?thesis using linefeed [OF log room] by (simp add: put_output_char_def log_put_def)
  next
    case cr
    then show ?thesis using new_col [OF log, of 0] by (simp add: put_output_char_def log_put_def)
  next
    case bs
    show ?thesis
    proof (cases "log_col L > 0")
      case True
      have "shows_log ((set_cell (log_col L - 1) ch_space t)\<lparr>g_current_col := log_col L - 1\<rparr>)
          ((log_cell (log_col L - 1) ch_space L)\<lparr>log_col := log_col L - 1\<rparr>)" using set_cell [OF log] col by simp
      moreover have "(set_cell k x t)\<lparr>g_current_col := k\<rparr> = set_cell k x (t\<lparr>g_current_col := k\<rparr>)" for k x
        by (simp add: set_cell_def Let_def)
      moreover have "(log_cell k x L)\<lparr>log_col := k\<rparr> = log_cell k x (L\<lparr>log_col := k\<rparr>)" for k x
        by (simp add: log_cell_def)
      ultimately show ?thesis using True bs col by (simp add: put_output_char_def log_put_def)
    next
      case False
      then show ?thesis using bs log col by (simp add: put_output_char_def log_put_def)
    qed
  next
    case skip
    then show ?thesis using log by (simp add: put_output_char_def log_put_def)
  next
    case put
    define t1 where "t1 = ensure_current_line_initialized t"
    define L1 where "L1 = (if log_col L = 0 then L\<lparr>log_lines := butlast (log_lines L) @ [blank_line (output_attr t)]\<rparr> else L)"
    have "t\<lparr>g_lines := l, g_current_col := 0\<rparr> = t\<lparr>g_lines := l\<rparr>" "L\<lparr>log_lines := m, log_col := 0\<rparr> = L\<lparr>log_lines := m\<rparr>"
      if "log_col L = 0" for l m using that col by simp_all
    note drop_col = this
    have log1: "shows_log t1 L1"
      using last_line(3) [OF log, of 0 "blank_line (output_attr t)"] log col
      by (cases "log_col L = 0")
        (simp_all add: t1_def L1_def ensure_current_line_initialized_def clear_line_def drop_col)
    have same: "log_col L1 = log_col L" "length (log_lines L1) = length (log_lines L)" "output_attr t1 = output_attr t"
      "g_current_col t1 = log_col L" "g_theme t1 = g_theme t"
      using col shows_log_nonempty [OF log]
      by (auto simp: L1_def t1_def ensure_current_line_initialized_def clear_line_def output_attr_def)
    define t2 where "t2 = (set_cell (log_col L) c t1)\<lparr>g_current_col := log_col L + 1\<rparr>"
    define L2 where "L2 = (log_cell (log_col L) c L1)\<lparr>log_col := log_col L + 1\<rparr>"
    have fold: "put_output_char c t = (if log_col L + 1 \<ge> 80 then linefeed t2 else t2)"
      "log_put (blank_line (output_attr t)) c L = (if log_col L + 1 \<ge> 80 then log_newline (blank_line (output_attr t)) L2 else L2)"
      using put col same by (auto simp: put_output_char_def log_put_def Let_def t1_def [symmetric] L1_def [symmetric] t2_def L2_def)
    have th: "g_theme t2 = g_theme t" "output_attr t2 = output_attr t"
      using same by (simp_all add: t2_def set_cell_def Let_def output_attr_def)
    show ?thesis
    proof (cases "log_col L + 1 \<ge> 80")
      case False
      then show ?thesis using set_cell [OF log1, of "log_col L + 1"] th unfolding fold by (simp add: t2_def L2_def)
    next
      case True
      define t3 where "t3 = t2\<lparr>g_current_col := log_col L\<rparr>"
      define L3 where "L3 = L2\<lparr>log_col := log_col L\<rparr>"
      have "shows_log t3 L3" using set_cell [OF log1, of "log_col L"] col(2) by (simp add: t3_def L3_def t2_def L2_def)
      moreover have "length (log_lines L3) + 1 < 2 ^ 32"
        using room same shows_log_nonempty [OF log1] by (simp add: L3_def L2_def log_cell_def)
      ultimately have "shows_log (linefeed t3) (log_newline (blank_line (output_attr t3)) L3)" using linefeed by blast
      moreover have "linefeed t3 = linefeed t2" by (simp add: t3_def linefeed_def clear_line_def output_attr_def)
      moreover have "log_newline b L3 = log_newline b L2" for b by (simp add: L3_def log_newline_def)
      moreover have "output_attr t3 = output_attr t" using th by (simp add: t3_def output_attr_def)
      moreover have "g_theme (linefeed t2) = g_theme t"
        using th by (simp add: linefeed_def clear_line_def Let_def)
      ultimately show ?thesis using True unfolding fold by simp
    qed
  qed
qed

lemma log_put_length: "log_lines L \<noteq> [] \<Longrightarrow> length (log_lines (log_put blank c L)) \<le> length (log_lines L) + 1"
  by (auto simp: log_put_def log_newline_def log_cell_def Let_def)

lemma log_put_grows: "log_lines L \<noteq> [] \<Longrightarrow> length (log_lines L) \<le> length (log_lines (log_put blank c L))"
  by (auto simp: log_put_def log_newline_def log_cell_def Let_def)

text \<open>A new line scrolls to the end; nothing else a character does scrolls.\<close>

lemma put_output_scroll:
  assumes log: "shows_log t L"
  shows "g_scroll_offset (put_output_char c t) =
    (if length (log_lines L) < length (log_lines (log_put blank c L)) then 0 else g_scroll_offset t)"
proof -
  have lf: "g_scroll_offset (linefeed u) = 0" for u by (simp add: linefeed_def Let_def)
  have nl: "length (log_lines (log_newline b M)) = length (log_lines M) + 1" for b M by (simp add: log_newline_def)
  have cell: "log_lines M \<noteq> [] \<Longrightarrow> length (log_lines (log_cell k x M)) = length (log_lines M)" for k x M
    by (simp add: log_cell_def)
  have keep: "g_scroll_offset (set_cell k x u) = g_scroll_offset u" "g_current_col (set_cell k x u) = g_current_col u"
    "g_scroll_offset (ensure_current_line_initialized u) = g_scroll_offset u"
    "g_current_col (ensure_current_line_initialized u) = g_current_col u" for k x u
    by (simp_all add: set_cell_def Let_def ensure_current_line_initialized_def clear_line_def)
  have "g_current_col t = log_col L" using log by (simp add: shows_log_def)
  then show ?thesis
    using shows_log_nonempty [OF log] by (simp add: put_output_char_def log_put_def Let_def lf nl cell keep)
qed

lemma write_chars_log:
  assumes "shows_log t L" and "length (log_lines L) + length s < 2 ^ 32"
  shows "case log_write (g_theme t) s L of
      Ok L' \<Rightarrow> (\<exists>t'. write_chars s t = Ok t' \<and> shows_log t' L' \<and> g_theme t' = g_theme t \<and>
        length (log_lines L) \<le> length (log_lines L') \<and>
        g_scroll_offset t' = (if length (log_lines L) < length (log_lines L') then 0 else g_scroll_offset t))
    | Fail e \<Rightarrow> write_chars s t = Fail e"
  using assms
proof (induction s t arbitrary: L rule: write_chars.induct)
  case (1 s t)
  show ?case
  proof (cases s)
    case Nil
    then show ?thesis using 1 by (simp add: log_write.simps [of _ "[]"] write_chars.simps [of "[]"])
  next
    case (Cons c cs)
    let ?p = "parse_ansi_code (g_theme t) s"
    show ?thesis
    proof (cases ?p)
      case (Fail e)
      then show ?thesis unfolding Cons by (simp add: log_write.simps [of _ "c # cs"] write_chars.simps [of "c # cs"])
    next
      case p: (Ok r)
      show ?thesis
      proof (cases r)
        case None
        have put: "shows_log (put_output_char c t) (log_put (blank_line (output_attr t)) c L)"
          and th: "g_theme (put_output_char c t) = g_theme t"
          using put_output_char [OF 1(3)] 1(4) Cons by auto
        have room: "length (log_lines (log_put (blank_line (output_attr t)) c L)) + length cs < 2 ^ 32"
          using log_put_length [of L "blank_line (output_attr t)" c] shows_log_nonempty [OF 1(3)] 1(4) Cons by simp
        have w: "write_chars s t = write_chars cs (put_output_char c t)"
          "log_write (g_theme t) s L = log_write (g_theme t) cs (log_put (blank_line (output_attr t)) c L)"
          using p None unfolding Cons
          by (simp_all add: log_write.simps [of _ "c # cs"] write_chars.simps [of "c # cs"] output_attr_def)
        note grow = log_put_grows [OF shows_log_nonempty [OF 1(3)], of "blank_line (output_attr t)" c]
        show ?thesis
          using 1(1) [OF Cons p None put room] put_output_scroll [OF 1(3), of c "blank_line (output_attr t)"] grow
          unfolding w th by (auto split: res.splits)
      next
        case (Some an)
        obtain attr n where an: "an = (attr, n)" by fastforce
        have log: "shows_log (t\<lparr>g_current_attr := attr\<rparr>) (L\<lparr>log_attr := attr\<rparr>)" using 1(3) by (simp add: shows_log_def)
        have room: "length (log_lines (L\<lparr>log_attr := attr\<rparr>)) + length (drop n s) < 2 ^ 32" using 1(4) by simp
        have w: "write_chars s t = write_chars (drop n s) (t\<lparr>g_current_attr := attr\<rparr>)"
          "log_write (g_theme t) s L = log_write (g_theme t) (drop n s) (L\<lparr>log_attr := attr\<rparr>)"
          "g_theme (t\<lparr>g_current_attr := attr\<rparr>) = g_theme t" "g_scroll_offset (t\<lparr>g_current_attr := attr\<rparr>) = g_scroll_offset t"
          "log_lines (L\<lparr>log_attr := attr\<rparr>) = log_lines L"
          using p Some an unfolding Cons
          by (simp_all add: log_write.simps [of _ "c # cs"] write_chars.simps [of "c # cs"])
        show ?thesis using 1(2) [OF Cons p Some an [symmetric] log room] unfolding w .
      qed
    qed
  qed
qed

section \<open>The display shows a window of the log\<close>

text \<open>An element of a concatenation of lists of equal length.\<close>

lemma nth_concat_rows:
  assumes "\<forall>i<n. length (f i) = w" and "row < n" and "col < w"
  shows "concat (map f [0..<n]) ! (row * w + col) = f row ! col"
  using assms
proof (induction n arbitrary: row)
  case (Suc n)
  have len: "length (concat (map f [0..<n])) = n * w"
  proof -
    have "map length (map f [0..<n]) = replicate n w" using Suc.prems(1) by (intro nth_equalityI) auto
    then show ?thesis by (simp add: length_concat sum_list_replicate)
  qed
  show ?case
  proof (cases "row < n")
    case True
    then have "row * w + col < n * w"
      using Suc.prems(3) by (metis add.commute add_strict_left_mono less_le_trans mult_Suc mult_le_mono1 Suc_leI)
    then show ?thesis using Suc True len by (simp add: nth_append)
  next
    case False
    then have "row = n" using Suc.prems(2) by simp
    then show ?thesis using len by (simp add: nth_append)
  qed
qed simp

lemma render_fields:
  assumes "shows_log t L"
  shows "g_scroll_offset (terminal_render t) = g_scroll_offset t" "shows_log (terminal_render t) L"
    "output_attr (terminal_render t) = output_attr t" "g_theme (terminal_render t) = g_theme t"
    "\<exists>up. unat up = window_start t L \<and> vga (terminal_render t) = output_rows t up @ input_row t @ status_row t"
proof -
  define n where "n = length (log_lines L)"
  define k where "k = nat (g_scroll_offset t)"
  have l: "unat (g_current_line t) = n - 1" "g_total_lines t = g_current_line t + 1" "n < 2 ^ 32" "n > 0"
    "k < n" "k < 512" "g_scroll_offset t = int k"
    using assms by (auto simp: shows_log_def n_def k_def)
  have "unat (g_total_lines t) = n" using l by (simp add: unat_plus_nowrap)
  then have first: "unat (first_abs_line t) = n - 512"
    by (auto simp: first_abs_line_def word_less_nat_alt unat_sub word_le_nat_alt)
  have ofk: "unat (of_int (int k) :: u32) = k" using l(6) by (simp add: unat_of_nat)
  have clamp: "\<not> g_current_line t < of_int (g_scroll_offset t)" using l ofk by (simp add: word_less_nat_alt)
  have bk: "unat (22 + of_int (int k) :: u32) = 22 + k" using ofk l(6) by (simp add: unat_plus_nowrap)
  define up where "up = (if g_current_line t \<ge> 22 + of_int (int k) then g_current_line t - (22 + of_int (int k)) else 0)"
  have up: "unat up = n - 23 - k" using bk l by (auto simp: up_def word_le_nat_alt unat_sub)
  define up' where "up' = (if up < first_abs_line t then first_abs_line t else up)"
  have start: "unat up' = window_start t L"
    using up first by (auto simp: up'_def word_less_nat_alt window_start_def n_def k_def)
  have e: "(if g_scroll_offset t < 0 then 0 else g_scroll_offset t) = int k" "t\<lparr>g_scroll_offset := int k\<rparr> = t"
    "(g_current_line t < of_int (int k)) = False" using l(7) clamp by simp_all
  have t: "\<exists>c. terminal_render t = t\<lparr>vga := output_rows t up' @ input_row t @ status_row t, vga_cursor := c\<rparr>"
    unfolding terminal_render_def Let_def e if_False up_def [symmetric] up'_def [symmetric] by blast
  then show "g_scroll_offset (terminal_render t) = g_scroll_offset t" "shows_log (terminal_render t) L"
    "output_attr (terminal_render t) = output_attr t" "g_theme (terminal_render t) = g_theme t"
    "\<exists>up. unat up = window_start t L \<and> vga (terminal_render t) = output_rows t up @ input_row t @ status_row t"
    using assms start by (auto simp: shows_log_def output_attr_def)
qed

lemma length_output_rows: "length (output_rows t up) = 1840"
proof -
  have "map length (map (\<lambda>row. map (\<lambda>col. cell_entry (output_cell t (up + of_nat row) col)) [0..<80]) [0..<23]) = replicate 23 80"
    by (intro nth_equalityI) auto
  then show ?thesis unfolding output_rows_def length_concat by (simp add: sum_list_replicate)
qed

text \<open>After rendering, the output rows show the window.\<close>

lemma render_window:
  assumes log: "shows_log t L"
  shows "shows_log (terminal_render t) L \<and> shows_window (terminal_render t) L \<and> g_theme (terminal_render t) = g_theme t"
proof -
  obtain up where up: "unat up = window_start t L" "vga (terminal_render t) = output_rows t up @ input_row t @ status_row t"
    using render_fields(5) [OF log] by blast
  define n where "n = length (log_lines L)"
  define w where "w = window_start t L"
  have l: "unat (g_current_line t) = n - 1" "g_total_lines t = g_current_line t + 1" "n < 2 ^ 32" "n > 0"
    using log by (auto simp: shows_log_def n_def)
  have "unat (g_total_lines t) = n" using l by (simp add: unat_plus_nowrap)
  then have first: "unat (first_abs_line t) = n - 512"
    by (auto simp: first_abs_line_def word_less_nat_alt unat_sub word_le_nat_alt)
  have w: "n - 512 \<le> w" "w < n" using l by (auto simp: w_def window_start_def n_def)
  have cell: "cell_entry (output_cell t (up + of_nat row) col) =
      (if w + row < n then cell_entry (log_lines L ! (w + row) ! col) else vga_entry ch_space (output_attr t))" if "row < 23" for row col
  proof -
    have r: "unat (of_nat row :: u32) = row" using that by (simp add: unat_of_nat)
    have "w + row < 2 ^ 32"
    proof (cases "n < 23")
      case True then show ?thesis using w that by simp
    next
      case False
      then have "w \<le> n - 23" by (auto simp: w_def window_start_def n_def)
      then show ?thesis using False l that by simp
    qed
    then have line: "unat (up + of_nat row) = w + row" using up(1) r by (simp add: unat_plus_nowrap w_def)
    show ?thesis
    proof (cases "w + row < n")
      case True
      have "g_lines t ! ((w + row) mod 512) = log_lines L ! (w + row)"
        using log True w by (auto simp: shows_log_def n_def)
      moreover have "w + row \<le> n - 1" "n - 512 \<le> w + row" using True w by auto
      ultimately show ?thesis using True line l first
        by (simp add: output_cell_def word_le_nat_alt line_index_def)
    next
      case False
      then have "\<not> w + row \<le> n - 1" using l by simp
      then show ?thesis using False line l by (simp add: output_cell_def word_le_nat_alt cell_entry_def)
    qed
  qed
  have "vga (terminal_render t) ! (row * 80 + col) =
      (if w + row < n then cell_entry (log_lines L ! (w + row) ! col) else vga_entry ch_space (output_attr t))"
    if "row < 23" "col < 80" for row col
  proof -
    have "row * 80 + col < 1840" using that by simp
    then have "vga (terminal_render t) ! (row * 80 + col) = output_rows t up ! (row * 80 + col)"
      using length_output_rows by (simp add: up(2) nth_append)
    also have "\<dots> = map (\<lambda>col. cell_entry (output_cell t (up + of_nat row) col)) [0..<80] ! col"
      unfolding output_rows_def using that by (intro nth_concat_rows) auto
    finally show ?thesis using that cell by simp
  qed
  moreover have "window_start (terminal_render t) L = w"
    using render_fields(1) [OF log] by (simp add: window_start_def w_def)
  ultimately show ?thesis
    using render_fields [OF log] by (simp add: shows_window_def n_def)
qed

section \<open>Initial state\<close>

definition log_init :: "theme \<Rightarrow> scrollback" where
  "log_init th = (let attr = theme_attr (th_output th) (th_bg th)
     in \<lparr>log_lines = [blank_line attr], log_col = 0, log_attr = attr\<rparr>)"

lemma clear_lines:
  "n \<le> 512 \<Longrightarrow> length (g_lines t) = 512 \<Longrightarrow>
   \<exists>ls. fold (\<lambda>i. clear_line (of_nat i)) [0..<n] t = t\<lparr>g_lines := ls\<rparr> \<and> length ls = 512 \<and>
     (\<forall>i<n. ls ! i = blank_line (output_attr t))"
proof (induction n)
  case 0
  then show ?case by (intro exI [of _ "g_lines t"]) simp
next
  case (Suc n)
  then obtain ls where ls: "fold (\<lambda>i. clear_line (of_nat i)) [0..<n] t = t\<lparr>g_lines := ls\<rparr>" "length ls = 512"
    "\<forall>i<n. ls ! i = blank_line (output_attr t)" by auto
  have "line_index (of_nat n) = n" using Suc.prems by (simp add: line_index_def unat_of_nat)
  then have "fold (\<lambda>i. clear_line (of_nat i)) [0..<Suc n] t = t\<lparr>g_lines := ls[n := blank_line (output_attr t)]\<rparr>"
    by (simp add: ls(1)) (simp add: clear_line_def output_attr_def)
  then show ?case using ls(2,3) Suc.prems
    by (intro exI [of _ "ls[n := blank_line (output_attr t)]"]) (auto simp: nth_list_update less_Suc_eq)
qed

lemma reset_lines_log:
  assumes "length (g_lines t) = 512"
  shows "shows_log (reset_lines t) (log_init (g_theme t)) \<and> g_theme (reset_lines t) = g_theme t"
proof -
  define t0 where "t0 = t\<lparr>g_total_lines := 1, g_current_line := 0, g_current_col := 0, g_scroll_offset := 0,
                g_current_attr := output_attr t\<rparr>"
  have "reset_lines t = fold (\<lambda>i. clear_line (of_nat i)) [0..<512] t0"
    by (simp only: reset_lines_def Let_def t0_def)
  moreover have "length (g_lines t0) = 512" using assms by (simp add: t0_def)
  ultimately obtain ls where ls: "reset_lines t = t0\<lparr>g_lines := ls\<rparr>" "length ls = 512" "\<forall>i<512. ls ! i = blank_line (output_attr t0)"
    using clear_lines [of 512 t0] by auto
  have "ls ! 0 = blank_line (output_attr t)" using ls(3) by (simp add: t0_def output_attr_def)
  then show ?thesis
    using ls(2) unfolding ls(1) by (simp add: t0_def shows_log_def log_init_def output_attr_def Let_def)
qed

section \<open>Scrolling\<close>

lemma scroll_lines:
  assumes log: "shows_log t L"
  shows "shows_log (terminal_scroll_lines delta t) L \<and> shows_window (terminal_scroll_lines delta t) L \<and>
    g_scroll_offset (terminal_scroll_lines delta t) =
      (if g_scroll_offset t + delta < 0 then 0
       else min (g_scroll_offset t + delta) (int (min (length (log_lines L)) 512) - 1))"
proof -
  define n where "n = length (log_lines L)"
  have l: "unat (g_current_line t) = n - 1" "g_total_lines t = g_current_line t + 1" "n < 2 ^ 32" "n > 0"
    using log by (auto simp: shows_log_def n_def)
  have "unat (g_total_lines t) = n" using l by (simp add: unat_plus_nowrap)
  then have first: "unat (first_abs_line t) = n - 512"
    by (auto simp: first_abs_line_def word_less_nat_alt unat_sub word_le_nat_alt)
  have "first_abs_line t \<le> g_current_line t" using first l by (simp add: word_le_nat_alt)
  then have d: "unat (g_current_line t - first_abs_line t) = min n 512 - 1"
    using first l by (simp add: unat_sub min_def)
  then have u: "uint (g_current_line t - first_abs_line t) = int (min n 512 - 1)" by (simp only: uint_nat)
  have dist: "sint (g_current_line t - first_abs_line t) = int (min n 512 - 1)"
    unfolding sint_uint u by (rule signed_take_bit_int_eq_self) auto
  define off where "off = (if g_scroll_offset t + delta < 0 then 0 else min (g_scroll_offset t + delta) (int (min n 512) - 1))"
  define t' where "t' = t\<lparr>g_scroll_offset := off\<rparr>"
  have "terminal_scroll_lines delta t = terminal_render t'"
    using dist l by (auto simp: terminal_scroll_lines_def Let_def t'_def off_def min_def)
  moreover have "shows_log t' L" using log l by (auto simp: shows_log_def t'_def off_def n_def min_def)
  ultimately show ?thesis
    using render_window [of t' L] render_fields(1) [of t' L] by (simp add: t'_def off_def n_def)
qed

section \<open>Properties\<close>

text \<open>
  C31: Writing to the terminal refines writing to an unbounded log: the ring of 512 lines goes on to hold
  the end of the log, escape sequences set colours and print nothing, and afterwards the 23 output rows of
  the display show the log from the scroll position on. A text that starts a new line scrolls to the end, so
  that the last 23 lines are shown, and a text that does not leaves the scroll position. Only a text that
  ends in the middle of the sequence of a colour is read past its end.
\<close>

theorem terminal_write_refines:
  assumes "shows_log t L" and "length (log_lines L) + length s < 2 ^ 32"
  shows "case log_write (g_theme t) s L of
      Ok L' \<Rightarrow> (\<exists>t'. terminal_write s t = Ok t' \<and> shows_log t' L' \<and> shows_window t' L' \<and>
        g_scroll_offset t' = (if length (log_lines L) < length (log_lines L') then 0 else g_scroll_offset t) \<and>
        (length (log_lines L) < length (log_lines L') \<longrightarrow> window_start t' L' = length (log_lines L') - 23))
    | Fail e \<Rightarrow> terminal_write s t = Fail e"
proof (cases "log_write (g_theme t) s L")
  case (Ok L')
  then obtain t' where t': "write_chars s t = Ok t'" "shows_log t' L'"
    "g_scroll_offset t' = (if length (log_lines L) < length (log_lines L') then 0 else g_scroll_offset t)"
    using write_chars_log [OF assms] by auto
  have "g_scroll_offset (terminal_render t') = g_scroll_offset t'" by (rule render_fields(1) [OF t'(2)])
  then show ?thesis using Ok t' render_window [OF t'(2)] by (simp add: terminal_write_def window_start_def)
next
  case (Fail e)
  then show ?thesis using write_chars_log [OF assms] by (simp add: terminal_write_def)
qed

text \<open>A red \<open>x\<close> on a fresh terminal.\<close>

theorem terminal_write_refines_witness:
  "\<exists>t'. terminal_write (27 # lit ''[31mx'') (terminal_init None (terminal_boot (replicate 2000 0))) = Ok t' \<and> vga t' ! 0 = 0x0478"
proof -
  define t where "t = terminal_init None (terminal_boot (replicate 2000 0))"
  define t0 where "t0 = reset_lines (terminal_boot (replicate 2000 0)\<lparr>g_theme := THEME_RONIN_DARK\<rparr>)"
  have t0: "shows_log t0 (log_init THEME_RONIN_DARK)" "g_theme t0 = THEME_RONIN_DARK"
    using reset_lines_log [of "terminal_boot (replicate 2000 0)\<lparr>g_theme := THEME_RONIN_DARK\<rparr>"]
    by (simp_all add: t0_def terminal_boot_def)
  have "t = terminal_render t0" by (simp add: t_def t0_def terminal_init_def)
  then have t: "shows_log t (log_init THEME_RONIN_DARK)" "g_theme t = THEME_RONIN_DARK"
    using render_window [OF t0(1)] t0(2) by simp_all
  have e: "log_write THEME_RONIN_DARK (27 # lit ''[31mx'') (log_init THEME_RONIN_DARK) =
      Ok \<lparr>log_lines = [(blank_line 7)[0 := \<lparr>cell_ch = 120, cell_attr = 4\<rparr>]], log_col = 1, log_attr = 4\<rparr>"
    by code_simp
  have room: "length (log_lines (log_init THEME_RONIN_DARK)) + length (27 # lit ''[31mx'') < 2 ^ 32"
    by (simp add: log_init_def lit_def Let_def)
  let ?L = "\<lparr>log_lines = [(blank_line 7)[0 := \<lparr>cell_ch = 120, cell_attr = 4\<rparr>]], log_col = 1, log_attr = 4\<rparr> :: scrollback"
  obtain t' where t': "terminal_write (27 # lit ''[31mx'') t = Ok t'" "shows_window t' ?L"
    using terminal_write_refines [OF t(1) room] unfolding t(2) e by auto
  have "window_start t' ?L = 0" by (simp add: window_start_def)
  then have "vga t' ! (0 * 80 + 0) = cell_entry (log_lines ?L ! 0 ! 0)"
    using t'(2) unfolding shows_window_def by (drule_tac spec [of _ 0]) simp
  moreover have "cell_entry (log_lines ?L ! 0 ! 0) = 0x0478" by code_simp
  ultimately show ?thesis using t'(1) unfolding t_def by auto
qed

text \<open>
  Every line that the ring still holds can be scrolled into view: some offset makes one of the output
  rows show it.
\<close>

theorem scroll_reaches_every_line:
  assumes "shows_log t L" and "k < length (log_lines L)" and "length (log_lines L) \<le> k + 512"
  shows "\<exists>delta. \<exists>row<23. \<forall>col<80. vga (terminal_scroll_lines delta t) ! (row * 80 + col) = cell_entry (log_lines L ! k ! col)"
proof -
  define n where "n = length (log_lines L)"
  define delta where "delta = int (n - 1 - k) - g_scroll_offset t"
  define t' where "t' = terminal_scroll_lines delta t"
  have t': "shows_window t' L" "g_scroll_offset t' = int (n - 1 - k)"
    using scroll_lines [OF assms(1), of delta] assms(2,3) by (auto simp: t'_def delta_def n_def min_def)
  define w where "w = window_start t' L"
  have w: "w \<le> k" "k - w < 23" using assms(2,3) t'(2) by (auto simp: w_def window_start_def n_def)
  then have "\<forall>col<80. vga t' ! ((k - w) * 80 + col) = cell_entry (log_lines L ! k ! col)"
    using t'(1) assms(2) unfolding shows_window_def w_def [symmetric] by (auto dest!: spec [of _ "k - w"])
  then show ?thesis using w(2) unfolding t'_def by blast
qed

theorem scroll_reaches_every_line_witness:
  "\<exists>delta. \<exists>row<23. \<forall>col<80. vga (terminal_scroll_lines delta (terminal_init None (terminal_boot (replicate 2000 0)))) ! (row * 80 + col) =
     cell_entry (blank_line 7 ! col)"
proof -
  define t0 where "t0 = reset_lines (terminal_boot (replicate 2000 0)\<lparr>g_theme := THEME_RONIN_DARK\<rparr>)"
  have "shows_log t0 (log_init THEME_RONIN_DARK)"
    using reset_lines_log [of "terminal_boot (replicate 2000 0)\<lparr>g_theme := THEME_RONIN_DARK\<rparr>"]
    by (simp add: t0_def terminal_boot_def)
  then have "shows_log (terminal_init None (terminal_boot (replicate 2000 0))) (log_init THEME_RONIN_DARK)"
    using render_window by (simp add: t0_def terminal_init_def)
  moreover have "log_lines (log_init THEME_RONIN_DARK) = [blank_line 7]" by code_simp
  ultimately show ?thesis
    using scroll_reaches_every_line [of "terminal_init None (terminal_boot (replicate 2000 0))" "log_init THEME_RONIN_DARK" 0] by simp
qed

end
