(* ===== verification/Initrd.thy ===== *)
theory Initrd
  imports Multiboot Vfs Console_Text
begin

text \<open>
  The file system of the boot modules (\<open>kernel/fs/initrd.c\<close>): a table of up to 32 files whose contents
  stay where the boot loader put them, filled from the module tags of the Multiboot2 block. Its state is
  the table and the memory that its \<open>data\<close> pointers read; a node is the root or an index of the table.
\<close>

section \<open>State\<close>

abbreviation (input) INITRD_MAX_FILES :: nat where "INITRD_MAX_FILES \<equiv> 32"
abbreviation (input) INITRD_MAX_NAME :: nat where "INITRD_MAX_NAME \<equiv> 32"

record initrd_file =
  if_used :: bool
  if_data :: u32
  if_size :: u32
  if_name :: "u8 list"

record initrd =
  ir_files :: "initrd_file list"
  ir_count :: nat

datatype initrd_node = Root_Sentinel | Module_File nat

type_synonym initrd_state = "initrd \<times> mem"

definition no_file :: initrd_file where
  "no_file = \<lparr>if_used = False, if_data = 0, if_size = 0, if_name = replicate INITRD_MAX_NAME 0\<rparr>"

definition initrd_zero :: initrd where
  "initrd_zero = \<lparr>ir_files = replicate INITRD_MAX_FILES no_file, ir_count = 0\<rparr>"

section \<open>Names\<close>

definition append_u32 :: "u32 \<Rightarrow> u8 list" where
  "append_u32 n = (if n = 0 then [48] else rev (digits_rev 10 n))"

text \<open>\<open>while (start < p) { if (*start == '/') last = start + 1; start++; }\<close>\<close>

fun last_component :: "u8 list \<Rightarrow> u8 list \<Rightarrow> u8 list" where
  "last_component l [] = l"
| "last_component l (c # cs) = last_component (if c = ch_slash then cs else l) cs"

text \<open>The text written; \<open>cmdline\<close> is the text of the command line.\<close>

definition basename_from_cmdline :: "u8 list \<Rightarrow> nat \<Rightarrow> u32 \<Rightarrow> u8 list" where
  "basename_from_cmdline cmdline out_sz idx =
     (let word = takeWhile (\<lambda>c. c \<noteq> ch_space) cmdline;
          out = take (out_sz - 1) (last_component word word)
      in if cmdline = [] \<or> out = [] then lit ''module'' @ append_u32 idx else out)"

section \<open>Operations\<close>

definition initrd_get_root :: "u32 \<Rightarrow> initrd_state \<Rightarrow> initrd_node option res" where
  "initrd_get_root ctx g = Ok (Some Root_Sentinel)"

definition initrd_lookup ::
  "u32 \<Rightarrow> initrd_node option \<Rightarrow> u8 list option \<Rightarrow> initrd_state \<Rightarrow> (int + (initrd_node option \<times> bool)) res" where
  "initrd_lookup ctx dir name g =
     (case (dir, name) of
        (Some Root_Sentinel, Some nm) \<Rightarrow>
          (case find (\<lambda>i. if_used (ir_files (fst g) ! i) \<and> strcmp (if_name (ir_files (fst g) ! i)) nm = 0)
                  [0..<ir_count (fst g)] of
             Some i \<Rightarrow> Ok (Inr (Some (Module_File i), False))
           | None \<Rightarrow> Ok (Inl (-1)))
      | _ \<Rightarrow> Ok (Inl (-1)))"

definition initrd_create ::
  "u32 \<Rightarrow> initrd_node option \<Rightarrow> u8 list option \<Rightarrow> bool \<Rightarrow> initrd_state \<Rightarrow> ((int + initrd_node option) \<times> initrd_state) res" where
  "initrd_create ctx dir name is_dir g = Ok (Inl (-1), g)"

definition initrd_read ::
  "u32 \<Rightarrow> initrd_node option \<Rightarrow> u32 \<Rightarrow> u8 list option \<Rightarrow> u32 \<Rightarrow> initrd_state \<Rightarrow> (int \<times> u8 list option) res" where
  "initrd_read ctx node offset buf n g =
     (case (node, buf) of
        (None, _) \<Rightarrow> Ok (-1, buf)
      | (Some _, None) \<Rightarrow> Ok (-1, buf)
      | (Some Root_Sentinel, Some b) \<Rightarrow> Fail Wild
      | (Some (Module_File i), Some b) \<Rightarrow>
          (let f = ir_files (fst g) ! i
           in if offset \<ge> if_size f then Ok (0, buf)
              else
                (let can = if_size f - offset; can = (if can > n then n else can)
                 in if unat can > length b then Fail Wild
                    else Ok (sint can, Some (blit b 0 (map (\<lambda>k. snd g (if_data f + offset + of_nat k)) [0..<unat can]))))))"

definition initrd_write ::
  "u32 \<Rightarrow> initrd_node option \<Rightarrow> u32 \<Rightarrow> u8 list option \<Rightarrow> u32 \<Rightarrow> initrd_state \<Rightarrow> (int \<times> initrd_state) res" where
  "initrd_write ctx node offset buf n g = Ok (-1, g)"

text \<open>The files in use, counted from 0.\<close>

definition initrd_readdir ::
  "u32 \<Rightarrow> initrd_node option \<Rightarrow> u32 \<Rightarrow> initrd_state \<Rightarrow> (int + (u8 list \<times> bool \<times> u32)) res" where
  "initrd_readdir ctx dir index g =
     (case dir of
        Some Root_Sentinel \<Rightarrow>
          (let used = filter if_used (take (ir_count (fst g)) (ir_files (fst g)))
           in if unat index < length used
              then Ok (Inr (if_name (used ! unat index), False, if_size (used ! unat index)))
              else Ok (Inl (-1)))
      | _ \<Rightarrow> Ok (Inl (-1)))"

definition initrd_size :: "u32 \<Rightarrow> initrd_node option \<Rightarrow> initrd_state \<Rightarrow> u32 res" where
  "initrd_size ctx node g =
     (case node of
        None \<Rightarrow> Ok 0
      | Some Root_Sentinel \<Rightarrow> Fail Wild
      | Some (Module_File i) \<Rightarrow> Ok (if_size (ir_files (fst g) ! i)))"

definition g_initrd_ops :: "(initrd_node, initrd_state) fs_ops" where
  "g_initrd_ops = \<lparr>op_get_root = Some initrd_get_root, op_lookup = Some initrd_lookup, op_create = Some initrd_create,
     op_read = Some initrd_read, op_write = Some initrd_write, op_readdir = Some initrd_readdir,
     op_size = Some initrd_size\<rparr>"

section \<open>The boot modules\<close>

text \<open>The string at an address; \<open>None\<close> when no NUL byte follows in the whole memory.\<close>

partial_function (option) read_string :: "mem \<Rightarrow> u32 \<Rightarrow> u8 list option" where
  "read_string m a = (if m a = 0 then Some [] else Option.bind (read_string m (a + 1)) (\<lambda>s. Some (m a # s)))"

definition module_file :: "mem \<Rightarrow> u32 \<Rightarrow> u32 \<Rightarrow> u8 list \<Rightarrow> initrd_file" where
  "module_file m tag idx cmdline =
     \<lparr>if_used = True, if_data = mod_start m tag, if_size = mod_end m tag - mod_start m tag,
      if_name = blit (replicate INITRD_MAX_NAME 0) 0 (basename_from_cmdline cmdline INITRD_MAX_NAME idx)\<rparr>"

text \<open>The body of the loop over the tags, on the table and \<open>mod_idx\<close>.\<close>

definition add_module :: "mem \<Rightarrow> u32 \<Rightarrow> initrd \<times> u32 \<Rightarrow> (initrd \<times> u32) option" where
  "add_module m tag gi =
     (case gi of
        (g, idx) \<Rightarrow>
          if tag_type m tag = MULTIBOOT2_TAG_TYPE_MODULE then
            if ir_count g < INITRD_MAX_FILES then
              Option.bind (read_string m (tag + 16)) (\<lambda>cmdline.
                Some (g\<lparr>ir_files := (ir_files g)[ir_count g := module_file m tag idx cmdline], ir_count := ir_count g + 1\<rparr>, idx + 1))
            else Some (g, idx + 1)
          else Some (g, idx))"

text \<open>
  \<open>ctx\<close> is the address of \<open>g_initrd\<close>. The texts are those printed on the console. The state of the file
  system is a part of the joint state of all mounted ones: \<open>get\<close> and \<open>put\<close> read and replace it, and \<open>ops\<close>
  is \<open>g_initrd_ops\<close> on the joint state.
\<close>

definition initrd_mount_on ::
  "('h, 's) fs_ops \<Rightarrow> ('s \<Rightarrow> initrd_state) \<Rightarrow> (initrd_state \<Rightarrow> 's \<Rightarrow> 's) \<Rightarrow>
   u32 \<Rightarrow> u32 \<Rightarrow> u32 \<Rightarrow> ('h, 's) vfs \<Rightarrow> (u8 list \<times> ('h, 's) vfs) res" where
  "initrd_mount_on ops get put ctx mb_magic mb_info_addr v =
     (let m = snd (get (fs_state v));
          v = v\<lparr>fs_state := put (initrd_zero, m) (fs_state v)\<rparr>
      in case vfs_mount (Some (lit ''/initrd'')) (Some ops) ctx v of
           (rc, v) \<Rightarrow>
             if rc < 0 then Ok (line ''initrd: mount failed'', v)
             else if mb_magic \<noteq> MULTIBOOT2_BOOTLOADER_MAGIC \<or> mb_info_addr = 0 then
               Ok (line ''initrd: no multiboot2 modules'', v)
             else
               (case tag_walk (add_module m) m (mb_info_addr + 8) (mb_info_addr + info_total_size m mb_info_addr - 8)
                       (initrd_zero, 0) of
                  None \<Rightarrow> Fail Hang
                | Some (g, idx) \<Rightarrow>
                    Ok (if ir_count g = 0 then line ''initrd: mounted empty'' else line ''initrd: mounted modules'',
                        v\<lparr>fs_state := put (g, m) (fs_state v)\<rparr>)))"

text \<open>On the state of this file system alone.\<close>

definition initrd_mount_from_multiboot ::
  "u32 \<Rightarrow> u32 \<Rightarrow> u32 \<Rightarrow> (initrd_node, initrd_state) vfs \<Rightarrow> (u8 list \<times> (initrd_node, initrd_state) vfs) res" where
  "initrd_mount_from_multiboot = initrd_mount_on g_initrd_ops (\<lambda>g. g) (\<lambda>g _. g)"

end
