(* ===== verification/Initrd_Spec.thy ===== *)
theory Initrd_Spec
  imports Initrd Vfs_Spec
begin

text \<open>
  The contract of the boot-module file system: the interpretation of the file-system interface on the
  operations of \<open>kernel/fs/initrd.c\<close>, the table that the scan of the Multiboot2 tags builds, and reading
  a module through the virtual file system.
\<close>

section \<open>The interface\<close>

definition initrd_inv :: "initrd_state \<Rightarrow> bool" where
  "initrd_inv g \<longleftrightarrow> length (ir_files (fst g)) = 32 \<and> ir_count (fst g) \<le> 32 \<and>
     (\<forall>i<ir_count (fst g). if_used (ir_files (fst g) ! i) \<and> unat (if_size (ir_files (fst g) ! i)) < 2 ^ 31)"

definition initrd_is_file :: "initrd_state \<Rightarrow> initrd_node \<Rightarrow> bool" where
  "initrd_is_file g n \<longleftrightarrow> (case n of Root_Sentinel \<Rightarrow> False | Module_File i \<Rightarrow> i < ir_count (fst g))"

definition module_index :: "initrd \<Rightarrow> u8 list \<Rightarrow> nat option" where
  "module_index g nm = find (\<lambda>i. c_text (if_name (ir_files g ! i)) = nm) [0..<ir_count g]"

definition initrd_entry :: "initrd_state \<Rightarrow> initrd_node \<Rightarrow> u8 list \<rightharpoonup> initrd_node \<times> bool" where
  "initrd_entry g d nm = map_option (\<lambda>i. (Module_File i, False)) (module_index (fst g) nm)"

definition module_bytes :: "initrd_state \<Rightarrow> initrd_node \<Rightarrow> u8 list" where
  "module_bytes g n =
     (case n of
        Root_Sentinel \<Rightarrow> []
      | Module_File i \<Rightarrow>
          map (\<lambda>k. snd g (if_data (ir_files (fst g) ! i) + of_nat k)) [0..<unat (if_size (ir_files (fst g) ! i))])"

lemma sint_small: "unat w < 2 ^ 31 \<Longrightarrow> sint w = int (unat w)" for w :: u32
proof -
  assume w: "unat w < 2 ^ 31"
  have u: "uint w = int (unat w)" by (rule uint_nat)
  show ?thesis unfolding sint_uint u by (rule signed_take_bit_int_eq_self) (use w in \<open>simp_all del: of_nat_unat\<close>)
qed

interpretation modules: readable_fs initrd_get_root initrd_lookup initrd_read initrd_inv Root_Sentinel
  "\<lambda>g n. n = Root_Sentinel" initrd_is_file initrd_entry module_bytes
proof unfold_locales
  fix g :: initrd_state and ctx :: u32
  show "initrd_get_root ctx g = Ok (Some Root_Sentinel) \<and> Root_Sentinel = Root_Sentinel"
    by (simp add: initrd_get_root_def)
next
  fix g :: initrd_state and d nm and ctx :: u32
  assume "initrd_inv g" "d = Root_Sentinel" "is_text nm"
  moreover from this have "find (\<lambda>i. if_used (ir_files (fst g) ! i) \<and> strcmp (if_name (ir_files (fst g) ! i)) nm = 0) [0..<ir_count (fst g)]
      = find (\<lambda>i. c_text (if_name (ir_files (fst g) ! i)) = nm) [0..<ir_count (fst g)]"
    by (intro find_cong) (auto simp: initrd_inv_def strcmp_eq_0)
  ultimately show "initrd_lookup ctx (Some d) (Some nm) g =
      Ok (case initrd_entry g d nm of None \<Rightarrow> Inl (-1) | Some (n, b) \<Rightarrow> Inr (Some n, b))"
    by (simp add: initrd_lookup_def initrd_entry_def module_index_def split: option.splits)
next
  fix g :: initrd_state and d nm n b
  assume "initrd_entry g d nm = Some (n, b)"
  then show "if b then n = Root_Sentinel else initrd_is_file g n"
    by (auto simp: initrd_entry_def module_index_def initrd_is_file_def find_Some_iff)
next
  fix g :: initrd_state and n and buf :: "u8 list" and ctx off k :: u32
  assume inv: "initrd_inv g" and f: "initrd_is_file g n" and room: "unat k \<le> length buf"
  obtain i where n: "n = Module_File i" "i < ir_count (fst g)"
    using f by (auto simp: initrd_is_file_def split: initrd_node.splits)
  define d where "d = ir_files (fst g) ! i"
  have sz: "unat (if_size d) < 2 ^ 31" using inv n by (simp add: initrd_inv_def d_def)
  define ys where "ys = take (unat k) (drop (unat off) (module_bytes g n))"
  show "initrd_read ctx (Some n) off (Some buf) k g =
      (let ys = take (unat k) (drop (unat off) (module_bytes g n)) in Ok (int (length ys), Some (blit buf 0 ys)))"
  proof (cases "off \<ge> if_size d")
    case True
    then have "ys = []" using n by (simp add: ys_def module_bytes_def d_def word_le_nat_alt)
    then show ?thesis unfolding Let_def ys_def [symmetric] using True n by (simp add: initrd_read_def d_def [symmetric])
  next
    case False
    define can where "can = (if if_size d - off > k then k else if_size d - off)"
    have lt: "unat off < unat (if_size d)" using False by (simp add: word_le_nat_alt not_le)
    have "unat (if_size d - off) = unat (if_size d) - unat off" using False by (intro unat_sub) simp
    then have can: "unat can = min (unat k) (unat (if_size d) - unat off)"
      by (auto simp: can_def word_less_nat_alt)
    have "ys = map (\<lambda>j. snd g (if_data d + off + of_nat j)) [0..<unat can]"
    proof (rule nth_equalityI)
      show "length ys = length (map (\<lambda>j. snd g (if_data d + off + of_nat j)) [0..<unat can])"
        using can by (simp add: ys_def module_bytes_def n(1) d_def [symmetric] min.commute)
      fix j assume j: "j < length ys"
      then have "j < unat (if_size d) - unat off" by (simp add: ys_def module_bytes_def n(1) d_def [symmetric])
      then have "unat off + j < unat (if_size d)" by linarith
      with j show "ys ! j = map (\<lambda>j. snd g (if_data d + off + of_nat j)) [0..<unat can] ! j"
        using can lt by (simp add: ys_def module_bytes_def n(1) d_def [symmetric] add.assoc)
    qed
    moreover have "length ys = unat can" using calculation by simp
    moreover have "sint can = int (unat can)" using can sz by (intro sint_small) auto
    moreover have "\<not> unat can > length buf" using can room by simp
    ultimately show ?thesis
      unfolding Let_def ys_def [symmetric]
      using False n(1) by (simp add: initrd_read_def Let_def d_def [symmetric] can_def [symmetric])
  qed
qed

section \<open>Reading an existing file\<close>

context readable_fs
begin

text \<open>A file below a mount point is opened on the lowest free descriptor and read from its start.\<close>

lemma read_existing:
  assumes inv: "inv (fs_state v)" and b: "below v m p nm"
    and ops: "mt_ops m = Some ops" "op_get_root ops = Some get_root" "op_lookup ops = Some lookup" "op_read ops = Some rd"
    and entry: "entry (fs_state v) root nm = Some (h, False)"
    and free: "length (fds v) = 32" "i < 32" "\<not> fd_used (fds v ! i)" and room: "unat n \<le> length buf"
  shows "\<exists>fd v1 v2. vfs_open (Some p) 0x01 v = Ok (fd, v1) \<and> 0 \<le> fd \<and>
    vfs_read fd (Some buf) n v1 =
      Ok (int (length (take (unat n) (bytes (fs_state v) h))), Some (blit buf 0 (take (unat n) (bytes (fs_state v) h))), v2)"
proof -
  have r: "resolve_path (Some p) v = Ok (Some (m, Some h, False))"
    using resolve_below [OF inv b ops(1-3)] entry by simp
  obtain j where j: "find (\<lambda>j. \<not> fd_used (fds v ! j)) [0..<32] = Some j" "j < 32"
  proof (cases "find (\<lambda>j. \<not> fd_used (fds v ! j)) [0..<32]")
    case None
    then have "fd_used (fds v ! i)" using free(2) unfolding find_None_iff by auto
    then show thesis using free(3) by simp
  next
    case (Some k)
    then have "k < 32" by (auto simp: find_Some_iff)
    then show thesis using that Some by simp
  qed
  let ?f = "\<lparr>fd_used = True, fd_flags = 0x01, fd_ops = mt_ops m, fd_ctx = mt_ctx m, fd_node = Some h, fd_pos = 0\<rparr>"
  define v1 where "v1 = v\<lparr>fds := (fds v)[j := ?f]\<rparr>"
  have v1: "vfs_open (Some p) 0x01 v = Ok (int j, v1)"
    using r j by (simp add: vfs_open_def take_fd_def v1_def)
  have f: "open_fd (int j) v1" "fds v1 ! j = ?f" "fs_state v1 = fs_state v"
    using j(2) free(1) by (simp_all add: v1_def open_fd_def)
  have "is_file (fs_state v) h" using entry_file [OF inv _ entry] root_law [OF inv] by blast
  then have "rd (mt_ctx m) (Some h) 0 (Some buf) n (fs_state v) =
      Ok (int (length (take (unat n) (bytes (fs_state v) h))), Some (blit buf 0 (take (unat n) (bytes (fs_state v) h))))"
    using read_law [OF inv _ room, of h "mt_ctx m" 0] by (simp add: Let_def)
  then have "\<exists>v2. vfs_read (int j) (Some buf) n v1 =
      Ok (int (length (take (unat n) (bytes (fs_state v) h))), Some (blit buf 0 (take (unat n) (bytes (fs_state v) h))), v2)"
    using f ops(1,4) by (simp add: vfs_read_def)
  then show ?thesis using v1 by (intro exI [of _ "int j"]) auto
qed

end

section \<open>The scan\<close>

text \<open>The table after the modules \<open>M\<close>, whose command lines are \<open>cmd\<close>.\<close>

definition holds_modules :: "mem \<Rightarrow> (u32 \<Rightarrow> u8 list) \<Rightarrow> u32 list \<Rightarrow> initrd \<Rightarrow> bool" where
  "holds_modules m cmd M g \<longleftrightarrow> length (ir_files g) = 32 \<and> ir_count g = min 32 (length M) \<and>
     (\<forall>i<ir_count g. ir_files g ! i = module_file m (M ! i) (of_nat i) (cmd (M ! i)))"

lemma scan_modules:
  assumes "holds_modules m cmd M g"
    and "\<forall>t\<in>set ts. tag_type m t = 3 \<longrightarrow> read_string m (t + 16) = Some (cmd t)"
  shows "\<exists>g' idx'. ofold (add_module m) ts (g, of_nat (length M)) = Some (g', idx') \<and>
    holds_modules m cmd (M @ filter (\<lambda>t. tag_type m t = 3) ts) g'"
  using assms
proof (induction ts arbitrary: M g)
  case (Cons t ts)
  show ?case
  proof (cases "tag_type m t = 3")
    case False
    then show ?thesis using Cons by (simp add: add_module_def)
  next
    case mod: True
    have cmd: "read_string m (t + 16) = Some (cmd t)" using Cons.prems(2) mod by simp
    define g1 where "g1 = (if ir_count g < 32
        then g\<lparr>ir_files := (ir_files g)[ir_count g := module_file m t (of_nat (length M)) (cmd t)], ir_count := ir_count g + 1\<rparr> else g)"
    have step: "add_module m t (g, of_nat (length M)) = Some (g1, of_nat (length (M @ [t])))"
      using mod cmd by (simp add: add_module_def g1_def add.commute)
    have h: "length (ir_files g) = 32" "ir_count g = min 32 (length M)"
      "\<forall>i<ir_count g. ir_files g ! i = module_file m (M ! i) (of_nat i) (cmd (M ! i))"
      using Cons.prems(1) by (auto simp: holds_modules_def)
    have "holds_modules m cmd (M @ [t]) g1"
    proof (cases "length M < 32")
      case True
      then have "ir_count g = length M" using h by simp
      then show ?thesis using h True by (auto simp: holds_modules_def g1_def nth_append nth_list_update less_Suc_eq)
    next
      case False
      then show ?thesis using h by (auto simp: holds_modules_def g1_def nth_append)
    qed
    from Cons.IH [OF this] Cons.prems(2) mod step show ?thesis by simp
  qed
qed simp

lemma initrd_mount_on_scan:
  assumes "vfs_mount (Some (lit ''/initrd'')) (Some ops) ctx (v\<lparr>fs_state := put (initrd_zero, m) (fs_state v)\<rparr>) = (rc, v1)"
    and "0 \<le> rc" and "snd (get (fs_state v)) = m" and "a \<noteq> 0"
    and chain: "tag_chain m (a + info_total_size m a - 8) (a + 8) ts"
    and cmds: "\<forall>t\<in>set ts. tag_type m t = 3 \<longrightarrow> read_string m (t + 16) = Some (cmd t)"
  shows "\<exists>msg g. initrd_mount_on ops get put ctx MULTIBOOT2_BOOTLOADER_MAGIC a v =
      Ok (msg, v1\<lparr>fs_state := put (g, m) (fs_state v1)\<rparr>) \<and>
    holds_modules m cmd (filter (\<lambda>t. tag_type m t = 3) ts) g"
proof -
  have "holds_modules m cmd [] initrd_zero" by (simp add: holds_modules_def initrd_zero_def)
  from scan_modules [OF this cmds] obtain g idx where
    "ofold (add_module m) ts (initrd_zero, 0) = Some (g, idx)" "holds_modules m cmd (filter (\<lambda>t. tag_type m t = 3) ts) g"
    by auto
  then show ?thesis
    using assms(1-4) tag_walk_chain [OF chain, of "add_module m" "(initrd_zero, 0)"]
    by (auto simp: initrd_mount_on_def Let_def)
qed

lemma initrd_mount_scan:
  assumes "vfs_mount (Some (lit ''/initrd'')) (Some g_initrd_ops) ctx (v\<lparr>fs_state := (initrd_zero, m)\<rparr>) = (rc, v1)" and "0 \<le> rc"
    and "snd (fs_state v) = m" and "a \<noteq> 0"
    and "tag_chain m (a + info_total_size m a - 8) (a + 8) ts"
    and "\<forall>t\<in>set ts. tag_type m t = 3 \<longrightarrow> read_string m (t + 16) = Some (cmd t)"
  shows "\<exists>msg g. initrd_mount_from_multiboot ctx MULTIBOOT2_BOOTLOADER_MAGIC a v = Ok (msg, v1\<lparr>fs_state := (g, m)\<rparr>) \<and>
    holds_modules m cmd (filter (\<lambda>t. tag_type m t = 3) ts) g"
  unfolding initrd_mount_from_multiboot_def
  using initrd_mount_on_scan [where ops = g_initrd_ops and get = "\<lambda>g. g" and put = "\<lambda>g _. g", OF _ assms(2) _ assms(4-6)] assms(1,3) by simp

section \<open>Names\<close>

lemma read_string_text:
  assumes "read_string m a = Some s"
  shows "is_text s"
proof (rule read_string.raw_induct [where P = "\<lambda>m a s. is_text s", OF _ assms])
  fix f :: "mem \<Rightarrow> u32 \<Rightarrow> u8 list option" and m a s
  assume "\<And>m a s. f m a = Some s \<Longrightarrow> is_text s"
    and "(if m a = 0 then Some [] else Option.bind (f m (a + 1)) (\<lambda>s. Some (m a # s))) = Some s"
  then show "is_text s" by (auto simp: bind_eq_Some_conv split: if_splits)
qed

lemma digits_rev_text: "length (digits_rev k n) \<le> k \<and> is_text (digits_rev k n)"
proof (induction k n rule: digits_rev.induct)
  case (2 k n)
  have "unat (48 + ucast (n mod 10) :: u8) \<noteq> 0" by (simp only: digit_value)
  then have "(48 + ucast (n mod 10) :: u8) \<noteq> 0" by (metis unat_0)
  then show ?case using 2 by simp
qed simp

lemma is_text_rev [simp]: "is_text (rev s) = is_text s"
  by (simp add: is_text_def)

lemma last_component_text: "is_text l \<Longrightarrow> is_text s \<Longrightarrow> is_text (last_component l s)"
  by (induction l s rule: last_component.induct) auto

lemma basename_text:
  assumes "is_text cmdline"
  shows "is_text (basename_from_cmdline cmdline 32 idx) \<and> length (basename_from_cmdline cmdline 32 idx) < 32"
proof -
  have w: "is_text (takeWhile P cmdline)" for P
    using assms by (auto simp: is_text_def list_all_iff dest: set_takeWhileD)
  have "is_text (append_u32 idx) \<and> length (append_u32 idx) \<le> 10"
    using digits_rev_text [of 10 idx] by (simp add: append_u32_def)
  moreover have "is_text (lit ''module'')" "length (lit ''module'') = 6" by (simp_all add: lit_def)
  ultimately show ?thesis
    using last_component_text [OF w w] by (auto simp: basename_from_cmdline_def Let_def)
qed

lemma module_file_name:
  assumes "is_text cmdline"
  shows "c_text (if_name (module_file m t idx cmdline)) = basename_from_cmdline cmdline 32 idx"
proof -
  define b where "b = basename_from_cmdline cmdline 32 idx"
  have "is_text b" "length b < 32" using basename_text [OF assms] by (auto simp: b_def)
  moreover from this have "drop (length b) (replicate 32 (0 :: u8)) = 0 # replicate (31 - length b) 0"
    by (simp add: Suc_diff_le [symmetric] del: replicate.simps) (simp flip: replicate_Suc)
  ultimately show ?thesis by (simp add: module_file_def b_def [symmetric] blit_def c_text_terminated)
qed

section \<open>The files of the table\<close>

text \<open>The \<open>i\<close>-th module is the file of its name when no module before it has this name.\<close>

lemma held_modules:
  assumes g: "holds_modules m cmd M g"
    and mods: "\<forall>t\<in>set M. read_string m (t + 16) = Some (cmd t) \<and> unat (mod_end m t - mod_start m t) < 2 ^ 31"
    and i: "i < length M" "i < 32"
    and name: "basename_from_cmdline (cmd (M ! i)) 32 (of_nat i) = nm"
      "\<forall>j<i. basename_from_cmdline (cmd (M ! j)) 32 (of_nat j) \<noteq> nm"
  shows "initrd_inv (g, m)" and "initrd_entry (g, m) Root_Sentinel nm = Some (Module_File i, False)"
    and "module_bytes (g, m) (Module_File i) =
      map (\<lambda>k. m (mod_start m (M ! i) + of_nat k)) [0..<unat (mod_end m (M ! i) - mod_start m (M ! i))]"
proof -
  have h: "length (ir_files g) = 32" "ir_count g = min 32 (length M)"
    "\<And>j. j < ir_count g \<Longrightarrow> ir_files g ! j = module_file m (M ! j) (of_nat j) (cmd (M ! j))"
    using g by (auto simp: holds_modules_def)
  show "initrd_inv (g, m)" using h mods by (auto simp: initrd_inv_def module_file_def)
  have nm: "c_text (if_name (ir_files g ! j)) = basename_from_cmdline (cmd (M ! j)) 32 (of_nat j)" if "j < ir_count g" for j
  proof -
    have "M ! j \<in> set M" using that h(2) by simp
    then have "is_text (cmd (M ! j))" using read_string_text mods by blast
    then show ?thesis using h(3) [OF that] module_file_name by simp
  qed
  have i': "i < ir_count g" using i h(2) by simp
  have "module_index g nm = Some i"
    unfolding module_index_def find_Some_iff using i' nm name by (intro exI [of _ i]) auto
  then show "initrd_entry (g, m) Root_Sentinel nm = Some (Module_File i, False)" by (simp add: initrd_entry_def)
  show "module_bytes (g, m) (Module_File i) =
      map (\<lambda>k. m (mod_start m (M ! i) + of_nat k)) [0..<unat (mod_end m (M ! i) - mod_start m (M ! i))]"
    using h(3) [OF i'] by (simp add: module_bytes_def module_file_def)
qed

section \<open>An example block\<close>

text \<open>One module \<open>a\<close> with the two bytes \<open>hi\<close>.\<close>

definition module_block :: "u8 list" where
  "module_block =
     [40,0,0,0, 0,0,0,0,
      3,0,0,0, 18,0,0,0, 0x28,0x10,0,0, 0x2A,0x10,0,0, 97,0,0,0,0,0,0,0,
      0,0,0,0, 8,0,0,0,
      104,105]"

definition module_mem :: mem where
  "module_mem a = (let i = unat (a - 0x1000) in if i < length module_block then module_block ! i else 0)"

definition module_vfs :: "(initrd_node, initrd_state) vfs" where
  "module_vfs = vfs_init \<lparr>mounts = [], fds = [], cwd = [], fs_state = (initrd_zero, module_mem)\<rparr>"

lemma module_block_facts:
  "tag_chain module_mem (0x1000 + info_total_size module_mem 0x1000 - 8) 0x1008 [0x1008]"
  "tag_type module_mem 0x1008 = 3" "mod_start module_mem 0x1008 = 0x1028" "mod_end module_mem 0x1008 = 0x102A"
  "read_string module_mem 0x1018 = Some [97]" "module_mem 0x1028 = 104" "module_mem 0x1029 = 105"
proof -
  show "tag_chain module_mem (0x1000 + info_total_size module_mem 0x1000 - 8) 0x1008 [0x1008]"
    "tag_type module_mem 0x1008 = 3" "mod_start module_mem 0x1008 = 0x1028" "mod_end module_mem 0x1008 = 0x102A"
    by (simp_all add: tag_end_def tag_size_def tag_type_def mod_start_def mod_end_def info_total_size_def ld32_def
        module_mem_def module_block_def Let_def)
  have "module_mem 0x1018 = 97" "module_mem 0x1019 = 0" by (simp_all add: module_mem_def module_block_def Let_def)
  then show "read_string module_mem 0x1018 = Some [97]"
    by (simp add: read_string.simps [of module_mem "0x1018"] read_string.simps [of module_mem "0x1019"])
  show "module_mem 0x1028 = 104" "module_mem 0x1029 = 105" by (simp_all add: module_mem_def module_block_def Let_def)
qed

lemma initrd_paths: "normal_path (lit ''/initrd'')" "normal_path (lit ''/initrd/a'')"
proof -
  have g: "good_seg (lit ''initrd'')" "good_seg (lit ''a'')" by (simp_all add: good_seg_def lit_def)
  have I: "normal_path (path_of segs)" if "list_all good_seg segs" "length segs \<le> 16" "length (path_of segs) < 128" for segs
    using that by (auto simp: normal_path_def)
  have "lit ''/initrd'' = path_of [lit ''initrd'']" "lit ''/initrd/a'' = path_of [lit ''initrd'', lit ''a'']"
    by (simp_all add: path_of_def lit_def)
  then show "normal_path (lit ''/initrd'')" "normal_path (lit ''/initrd/a'')"
    using I [of "[lit ''initrd'']"] I [of "[lit ''initrd'', lit ''a'']"] g by (simp_all add: path_of_def lit_def)
qed

lemma module_vfs_mount:
  defines "mt \<equiv> \<lparr>mt_used = True, mt_point = lit ''/initrd'', mt_ops = Some g_initrd_ops, mt_ctx = 0x5000\<rparr>"
  defines "v1 \<equiv> module_vfs\<lparr>mounts := [mt, no_mount, no_mount, no_mount]\<rparr>"
  shows "vfs_mount (Some (lit ''/initrd'')) (Some g_initrd_ops) 0x5000 module_vfs = (0, v1)"
    and "below v1 mt (lit ''/initrd/a'') (lit ''a'')"
proof -
  note P = normal_pathD [OF initrd_paths(1)]
  have "copy_str (lit ''/initrd'') 128 = Some (lit ''/initrd'')" using P by (simp add: copy_str_text)
  moreover have "upt 0 4 = [0, 1, 2, 3]" by (simp add: upt_conv_Cons)
  moreover have "mounts module_vfs = [no_mount, no_mount, no_mount, no_mount]"
    by (simp add: module_vfs_def vfs_init_def numeral_eq_Suc)
  ultimately show "vfs_mount (Some (lit ''/initrd'')) (Some g_initrd_ops) 0x5000 module_vfs = (0, v1)"
    by (simp add: vfs_mount_def normalize_normal [OF initrd_paths(1)] no_mount_def v1_def mt_def)
  have q: "find_mount (lit ''/initrd'') v1 = Some (mt, [])" and p: "find_mount (lit ''/initrd/a'') v1 = Some (mt, lit ''a'')"
    by (simp_all add: v1_def mt_def find_mount_def best_mount_def no_mount_def starts_with_def lit_def Let_def)
  show "below v1 mt (lit ''/initrd/a'') (lit ''a'')"
    using q p initrd_paths unfolding below_def
    by (intro conjI exI [of _ "lit ''/initrd''"]) (simp_all add: good_seg_def lit_def)
qed

section \<open>Properties\<close>

text \<open>
  The boot modules are files: when the tags of the Multiboot2 block chain to their end, mounting the
  file system returns, and the \<open>i\<close>-th module, if it is among the first 32 and no module before it has its
  name, is opened under its name below the mount point and read as the bytes the boot loader has put
  between the two addresses of its tag. The table holds exactly the modules, in the order of the tags.
\<close>

theorem initrd_serves_modules:
  assumes mount: "vfs_mount (Some (lit ''/initrd'')) (Some g_initrd_ops) ctx (v\<lparr>fs_state := (initrd_zero, m)\<rparr>) = (rc, v1)"
      "0 \<le> rc" "snd (fs_state v) = m" "a \<noteq> 0"
    and chain: "tag_chain m (a + info_total_size m a - 8) (a + 8) ts"
    and cmds: "\<forall>t\<in>set ts. tag_type m t = 3 \<longrightarrow> read_string m (t + 16) = Some (cmd t)"
    and sizes: "\<forall>t\<in>set ts. tag_type m t = 3 \<longrightarrow> unat (mod_end m t - mod_start m t) < 2 ^ 31"
    and M: "M = filter (\<lambda>t. tag_type m t = 3) ts" "i < length M" "i < 32"
    and name: "basename_from_cmdline (cmd (M ! i)) 32 (of_nat i) = nm"
      "\<forall>j<i. basename_from_cmdline (cmd (M ! j)) 32 (of_nat j) \<noteq> nm"
    and path: "below v1 mt p nm" "mt_ops mt = Some g_initrd_ops"
    and free: "length (fds v1) = 32" "k < 32" "\<not> fd_used (fds v1 ! k)" and room: "unat n \<le> length buf"
  shows "\<exists>msg v2 fd v3 v4. initrd_mount_from_multiboot ctx MULTIBOOT2_BOOTLOADER_MAGIC a v = Ok (msg, v2) \<and>
    holds_modules m cmd M (fst (fs_state v2)) \<and> vfs_open (Some p) 0x01 v2 = Ok (fd, v3) \<and> 0 \<le> fd \<and>
    (let ys = map (\<lambda>k. m (mod_start m (M ! i) + of_nat k)) [0..<min (unat n) (unat (mod_end m (M ! i) - mod_start m (M ! i)))]
     in vfs_read fd (Some buf) n v3 = Ok (int (length ys), Some (blit buf 0 ys), v4))"
proof -
  obtain msg g where g: "initrd_mount_from_multiboot ctx MULTIBOOT2_BOOTLOADER_MAGIC a v = Ok (msg, v1\<lparr>fs_state := (g, m)\<rparr>)"
    "holds_modules m cmd M g" using initrd_mount_scan [OF mount chain cmds] unfolding M(1) by blast
  define v2 where "v2 = v1\<lparr>fs_state := (g, m)\<rparr>"
  have "\<forall>t\<in>set M. read_string m (t + 16) = Some (cmd t) \<and> unat (mod_end m t - mod_start m t) < 2 ^ 31"
    using cmds sizes by (simp add: M(1))
  note H = held_modules [OF g(2) this M(2,3) name]
  have entry: "initrd_entry (fs_state v2) Root_Sentinel nm = Some (Module_File i, False)" using H(2) by (simp add: v2_def)
  have b: "below v2 mt p nm" using path(1) below_cong [of v2 v1] by (simp add: v2_def)
  have ops: "op_get_root g_initrd_ops = Some initrd_get_root" "op_lookup g_initrd_ops = Some initrd_lookup"
    "op_read g_initrd_ops = Some initrd_read" by (simp_all add: g_initrd_ops_def)
  define t where "t = M ! i"
  have "module_bytes (fs_state v2) (Module_File i) =
      map (\<lambda>k. m (mod_start m t + of_nat k)) [0..<unat (mod_end m t - mod_start m t)]"
    using H(3) by (simp add: v2_def t_def)
  then have "take (unat n) (module_bytes (fs_state v2) (Module_File i)) =
      map (\<lambda>k. m (mod_start m t + of_nat k)) [0..<min (unat n) (unat (mod_end m t - mod_start m t))]"
    by (simp add: take_map take_upt min_def)
  moreover have "initrd_inv (fs_state v2)" "length (fds v2) = 32" "\<not> fd_used (fds v2 ! k)" using H(1) free by (simp_all add: v2_def)
  ultimately have "\<exists>fd v3 v4. vfs_open (Some p) 0x01 v2 = Ok (fd, v3) \<and> 0 \<le> fd \<and>
    (let ys = map (\<lambda>k. m (mod_start m t + of_nat k)) [0..<min (unat n) (unat (mod_end m t - mod_start m t))]
     in vfs_read fd (Some buf) n v3 = Ok (int (length ys), Some (blit buf 0 ys), v4))"
    using modules.read_existing [OF _ b path(2) ops entry _ free(2) _ room] unfolding Let_def by simp
  then show ?thesis using g unfolding v2_def [symmetric] t_def [symmetric]
    by (intro exI [of _ msg] exI [of _ v2]) (auto simp: v2_def)
qed

theorem initrd_serves_modules_witness:
  "\<exists>msg v2 fd v3 v4. initrd_mount_from_multiboot 0x5000 MULTIBOOT2_BOOTLOADER_MAGIC 0x1000 module_vfs = Ok (msg, v2) \<and>
     vfs_open (Some (lit ''/initrd/a'')) 0x01 v2 = Ok (fd, v3) \<and> vfs_read fd (Some [0, 0]) 2 v3 = Ok (2, Some (lit ''hi''), v4)"
proof -
  have name: "basename_from_cmdline [97] 32 0 = lit ''a''" by code_simp
  have state: "module_vfs\<lparr>fs_state := (initrd_zero, module_mem)\<rparr> = module_vfs" "snd (fs_state module_vfs) = module_mem"
    by (simp_all add: module_vfs_def vfs_init_def)
  have "length (fds module_vfs) = 32" "\<not> fd_used (fds module_vfs ! 0)"
    by (simp_all add: module_vfs_def vfs_init_def no_fd_def)
  then have "\<exists>msg v2 fd v3 v4. initrd_mount_from_multiboot 0x5000 MULTIBOOT2_BOOTLOADER_MAGIC 0x1000 module_vfs = Ok (msg, v2) \<and>
    holds_modules module_mem (\<lambda>_. [97]) [0x1008] (fst (fs_state v2)) \<and> vfs_open (Some (lit ''/initrd/a'')) 0x01 v2 = Ok (fd, v3) \<and> 0 \<le> fd \<and>
    (let ys = map (\<lambda>k. module_mem (mod_start module_mem ([0x1008] ! 0) + of_nat k))
        [0..<min (unat (2 :: u32)) (unat (mod_end module_mem ([0x1008] ! 0) - mod_start module_mem ([0x1008] ! 0)))]
     in vfs_read fd (Some [0, 0]) 2 v3 = Ok (int (length ys), Some (blit [0, 0] 0 ys), v4))"
    by (intro initrd_serves_modules [where v = module_vfs and m = module_mem and ts = "[0x1008]" and cmd = "\<lambda>_. [97]" and i = 0 and k = 0
          and nm = "lit ''a''" and rc = 0 and ctx = "0x5000", unfolded state, OF module_vfs_mount(1) _ _ _ _ _ _ _ _ _ _ _ module_vfs_mount(2)])
      (use module_block_facts name state in \<open>simp_all\<close>)
  moreover have "[0..<2] = [0, 1 :: nat]" by (simp add: upt_conv_Cons)
  ultimately show ?thesis using module_block_facts by (auto simp: Let_def blit_def lit_def)
qed

end
