(* ===== verification/Kernel.thy ===== *)
theory Kernel
  imports Heap_Laws Console_Text
begin

text \<open>
  The memory part of the boot sequence (\<open>kernel/kernel.c\<close>): \<open>kmain\<close> initialises the physical memory
  manager, paging and the heap one after the other and runs a self test. \<open>dir_addr\<close> is the address of the
  page directory, \<open>pg\<close> and \<open>h\<close> hold the statics of paging and heap before.
\<close>

section \<open>The code\<close>

definition memory_smoke_test :: "heap \<Rightarrow> (u8 list \<times> heap) res" where
  "memory_smoke_test h =
     rbind (kmalloc 16 h) (\<lambda>(a, h).
     rbind (kmalloc 4096 h) (\<lambda>(b, h).
     rbind (kmalloc 8192 h) (\<lambda>(c, h).
       if a = 0 \<or> b = 0 \<or> c = 0 then Fail (Panic ''memory smoke: allocation failed'')
       else rbind (kfree b (h\<lparr>heap_mem := (heap_mem h)(a := 0x11, b := 0x22, c := 0x33)\<rparr>)) (\<lambda>h.
            rbind (kmalloc 4096 h) (\<lambda>(d, h).
              if d = 0 then Fail (Panic ''memory smoke: realloc alloc failed'')
              else
                (let h = h\<lparr>heap_mem := (heap_mem h)(d := 0x44)\<rparr>
                 in if a = c \<or> a = d \<or> c = d then Fail (Panic ''memory smoke: overlap detected'')
                    else rbind (kfree a h) (\<lambda>h. rbind (kfree c h) (\<lambda>h. rbind (kfree d h) (\<lambda>h.
                      Ok (line ''Memory smoke: kmalloc/kfree...'' @ line ''Memory smoke: PASS'', h))))))))))"

definition kmain_memory ::
  "mem \<Rightarrow> u32 \<Rightarrow> u32 \<Rightarrow> framebuffer option \<Rightarrow> u32 \<Rightarrow> u32 \<Rightarrow> u32 \<Rightarrow> pmm \<Rightarrow> paging \<Rightarrow> heap \<Rightarrow> (u8 list \<times> heap) res" where
  "kmain_memory m kernel_start kernel_end fb dir_addr mb_magic mb_info_addr p pg h =
     rbind (pmm_init m kernel_start kernel_end mb_magic mb_info_addr p) (\<lambda>p.
     rbind (paging_init fb dir_addr (pmm_get_max_phys_addr p) pg) (\<lambda>pg.
     rbind (heap_init (h\<lparr>heap_pmm := p, heap_pg := pg\<rparr>)) memory_smoke_test))"

section \<open>The self test\<close>

lemma heap_rep_mem [simp]: "heap_rep (h\<lparr>heap_mem := m\<rparr>) cs = heap_rep h cs"
  by (simp add: heap_rep_def heap_backed_blocks heap_cells_def)

text \<open>An allocation from the first block that fits, and a release, on the cells.\<close>

lemma kmalloc_cells:
  assumes "heap_rep h (xs @ (n, True) # ys)" and "\<forall>c\<in>set xs. \<not> fits (wanted_size bytes) c"
    and "wanted_size bytes \<le> n" and "serviceable bytes"
  shows "\<exists>p h'. kmalloc bytes h = Ok (p, h') \<and> unat p = heap_base + span xs + 16 \<and>
    heap_rep h' (xs @ take_cell (wanted_size bytes) n @ ys)"
proof -
  have "bytes \<noteq> 0" "unat bytes \<le> 0xFFFFEFF0" using assms(4) by (auto simp: serviceable_def word_le_nat_alt)
  moreover have "\<exists>c\<in>set (xs @ (n, True) # ys). fits (wanted_size bytes) c" using assms(3) by (simp add: fits_def)
  ultimately obtain p h' cs' where k: "kmalloc bytes h = Ok (p, h')" "heap_rep h' cs'"
      "served (wanted_size bytes) (xs @ (n, True) # ys) p cs'"
    using kmalloc_spec [OF assms(1)] by metis
  then show ?thesis using served_split [OF k(3) assms(2,3)] by blast
qed

lemma smoke_test_passes:
  assumes "heap_rep h [(16368, True)]"
  shows "\<exists>h'. memory_smoke_test h = Ok (line ''Memory smoke: kmalloc/kfree...'' @ line ''Memory smoke: PASS'', h') \<and>
    heap_rep h' [(16368, True)]"
proof -
  have w: "wanted_size 16 = 16" "wanted_size 4096 = 4096" "wanted_size 8192 = 8192" by (simp_all add: wanted_size_def)
  have s: "serviceable 16" "serviceable 4096" "serviceable 8192" by (simp_all add: serviceable_def)
  have t: "take_cell 16 16368 = [(16, False), (16336, True)]" "take_cell 4096 16336 = [(4096, False), (12224, True)]"
    "take_cell 8192 12224 = [(8192, False), (4016, True)]" "take_cell 4096 4096 = [(4096, False)]"
    by (simp_all add: take_cell_def split_cell_def)
  obtain a h1 where a: "kmalloc 16 h = Ok (a, h1)" "unat a = heap_base + 16" "heap_rep h1 [(16, False), (16336, True)]"
    using kmalloc_cells [of h "[]" 16368 "[]" 16] assms w s t by auto
  obtain b h2 where b: "kmalloc 4096 h1 = Ok (b, h2)" "unat b = heap_base + 48"
    "heap_rep h2 [(16, False), (4096, False), (12224, True)]"
    using kmalloc_cells [of h1 "[(16, False)]" 16336 "[]" 4096] a(3) w s t by (auto simp: fits_def)
  obtain c h3 where c: "kmalloc 8192 h2 = Ok (c, h3)" "unat c = heap_base + 4160"
    "heap_rep h3 [(16, False), (4096, False), (8192, False), (4016, True)]"
    using kmalloc_cells [of h2 "[(16, False), (4096, False)]" 12224 "[]" 8192] b(3) w s t by (auto simp: fits_def)
  define h3' where "h3' = h3\<lparr>heap_mem := (heap_mem h3)(a := 0x11, b := 0x22, c := 0x33)\<rparr>"
  obtain h4 where h4: "kfree b h3' = Ok h4" "heap_rep h4 [(16, False), (4096, True), (8192, False), (4016, True)]"
    using kfree_spec [of h3' "[(16, False)]" 4096 "[(8192, False), (4016, True)]" b] c(3) b(2)
    by (auto simp: h3'_def free_cells_def)
  obtain d h5 where d: "kmalloc 4096 h4 = Ok (d, h5)" "unat d = heap_base + 48"
    "heap_rep h5 [(16, False), (4096, False), (8192, False), (4016, True)]"
    using kmalloc_cells [of h4 "[(16, False)]" 4096 "[(8192, False), (4016, True)]" 4096] h4(2) w s t by (auto simp: fits_def)
  define h5' where "h5' = h5\<lparr>heap_mem := (heap_mem h5)(d := 0x44)\<rparr>"
  obtain h6 where h6: "kfree a h5' = Ok h6" "heap_rep h6 [(16, True), (4096, False), (8192, False), (4016, True)]"
    using kfree_spec [of h5' "[]" 16 "[(4096, False), (8192, False), (4016, True)]" a] d(3) a(2)
    by (auto simp: h5'_def free_cells_def)
  obtain h7 where h7: "kfree c h6 = Ok h7" "heap_rep h7 [(16, True), (4096, False), (12224, True)]"
    using kfree_spec [of h6 "[(16, True), (4096, False)]" 8192 "[(4016, True)]" c] h6(2) c(2)
    by (auto simp: free_cells_def)
  obtain h8 where h8: "kfree d h7 = Ok h8" "heap_rep h8 [(16368, True)]"
    using kfree_spec [of h7 "[(16, True)]" 4096 "[(12224, True)]" d] h7(2) d(2)
    by (auto simp: free_cells_def)
  have ne: "a \<noteq> 0" "b \<noteq> 0" "c \<noteq> 0" "d \<noteq> 0" "a \<noteq> c" "a \<noteq> d" "c \<noteq> d" using a(2) b(2) c(2) d(2) by auto
  have "memory_smoke_test h = Ok (line ''Memory smoke: kmalloc/kfree...'' @ line ''Memory smoke: PASS'', h8)"
    using ne unfolding memory_smoke_test_def a(1) rbind_simps prod.case b(1) c(1) h3'_def [symmetric]
    by (simp add: h4(1) d(1) h6(1) h7(1) h8(1) Let_def flip: h5'_def)
  then show ?thesis using h8(2) by blast
qed

section \<open>The sequence\<close>

lemma paging_init_dirs:
  assumes "pool_ok (pg_pool pg)" and "limit \<le> 0x20000000" and "fb_range fb = None"
  shows "\<exists>pg'. paging_init fb dir limit pg = Ok pg' \<and> paging_wf pg' \<and> card (pd_present pg' \<union> {96..99}) \<le> 256"
proof -
  have fits: "init_fits fb limit"
  proof (rule init_fits_1GiB [OF _ assms(3)])
    show "limit \<le> 0x40000000" using assms(2) by (simp add: word_le_nat_alt)
  qed
  let ?blank = "pg\<lparr>pg_dir := replicate 1024 0, pg_tables_used := 0\<rparr>"
  note f = init_fits_identity [OF fits]
  obtain s1 where s1: "map_range_identity 0 limit PAGE_WRITE ?blank = Ok (0, s1)" "paging_wf s1" "pd_present s1 = range_dirs 0 limit"
    using map_range_identity_spec [OF blank_wf(1) [OF assms(1)] f(1), of PAGE_WRITE] f(2) by (auto simp: blank_wf)
  let ?pg = "s1\<lparr>pg_cr3 := dir, pg_enabled := True\<rparr>"
  have "paging_init fb dir limit pg = Ok ?pg"
    using s1(1) assms(3) by (simp add: paging_init_def map_framebuffer_range)
  moreover have "paging_wf ?pg = paging_wf s1" "pd_present ?pg = pd_present s1"
    by (simp_all add: paging_wf_def pd_present_def pd_base_def [abs_def] pool_slot_def)
  moreover have "range_dirs 0 limit \<union> {96..99} \<subseteq> {..<256}"
    using range_dirs_le [of limit] assms(2) by (auto simp: word_le_nat_alt)
  then have "card (range_dirs 0 limit \<union> {96..99}) \<le> 256" using card_mono [of "{..<256 :: nat}"] by simp
  ultimately show ?thesis using s1(2,3) by simp
qed

lemma pmm_init_inv:
  assumes "mb2_block m info ts ents" and "info \<noteq> 0"
  shows "\<exists>p. pmm_init m ks ke MULTIBOOT2_BOOTLOADER_MAGIC info s = Ok p \<and> pmm_inv p \<and>
    unat (pmm_get_max_phys_addr p) \<le> 0x20000000 \<and> card (frames_avail p) = card (free_set p)"
proof -
  obtain p where p: "pmm_init m ks ke MULTIBOOT2_BOOTLOADER_MAGIC info s = Ok p" "pmm_idle p"
    "free_set p = {n. n < unat (total_frames p) \<and> available_frame m ts ents n \<and> \<not> reserved_frame m ks ke info ts n}"
    using pmm_init_total [OF assms] by blast
  have "0 \<notin> free_set p" by (simp add: p(3) reserved_frame_def frame_touches_def)
  then have "pmm_inv p" using p(2) by (simp add: pmm_inv_def)
  moreover have "unat (pmm_max_addr p) \<le> 0x20000000" using p(2) by (simp add: pmm_idle_def pmm_wf_def)
  moreover have wf: "pmm_wf p" using p(2) by (simp add: pmm_idle_def)
  have "inj_on frame_addr (free_set p)"
    using free_set_bound [OF wf] by (auto intro!: inj_onI simp: frame_addr_inj)
  then have "card (frames_avail p) = card (free_set p)" by (simp add: frames_avail_def card_image)
  ultimately show ?thesis using p(1) by (auto simp: pmm_get_max_phys_addr_def)
qed

lemma heap_init_starved:
  assumes "pmm_inv (heap_pmm h)" and "paging_wf (heap_pg h)" and "card (pd_present (heap_pg h) \<union> {96..99}) \<le> 256"
    and "card (frames_avail (heap_pmm h)) < 4"
  shows "heap_init h = Fail (Panic ''heap_init: out of physical memory'')"
proof -
  define h1 where "h1 = h\<lparr>g_heap_start := KHEAP_BASE, g_heap_end := KHEAP_BASE,
    g_heap_limit := KHEAP_BASE + KHEAP_MAX_SIZE, heap_lock_word := 0\<rparr>"
  have "heap_backed h1" "card (frames_avail (heap_pmm h1)) < 4"
    using assms by (simp_all add: h1_def heap_backed_def heap_geometry_def heap_pages_def)
  then show ?thesis using init_pages_out_of_memory [of h1 4] by (simp add: heap_init_def h1_def)
qed

section \<open>Properties\<close>

text \<open>
  The memory part of the boot succeeds on every well-formed Multiboot2 block that leaves four frames
  free, however much memory the block describes: the identity map always fits the pool of page tables, the
  heap comes up, the self test passes, and afterwards no block is live and all of the heap is one free block.
  With fewer free frames it panics in \<open>heap_init\<close> and nowhere else.
\<close>

theorem boot_memory:
  assumes "mb2_block m info ts ents" and "info \<noteq> 0" and "pool_ok (pg_pool pg)" and "fb_range fb = None"
  shows "\<exists>p'. pmm_init m ks ke MULTIBOOT2_BOOTLOADER_MAGIC info p = Ok p' \<and>
    (if 4 \<le> card (free_set p')
     then \<exists>h'. kmain_memory m ks ke fb dir MULTIBOOT2_BOOTLOADER_MAGIC info p pg h =
         Ok (line ''Memory smoke: kmalloc/kfree...'' @ line ''Memory smoke: PASS'', h') \<and>
         heap_rep h' [(16368, True)] \<and> heap_live h' = {}
     else kmain_memory m ks ke fb dir MULTIBOOT2_BOOTLOADER_MAGIC info p pg h =
         Fail (Panic ''heap_init: out of physical memory''))"
proof -
  obtain p' where p': "pmm_init m ks ke MULTIBOOT2_BOOTLOADER_MAGIC info p = Ok p'" "pmm_inv p'"
    "unat (pmm_get_max_phys_addr p') \<le> 0x20000000" "card (frames_avail p') = card (free_set p')"
    using pmm_init_inv [OF assms(1,2)] by blast
  have "pmm_get_max_phys_addr p' \<le> 0x20000000" using p'(3) by (simp add: word_le_nat_alt)
  then obtain pg' where pg': "paging_init fb dir (pmm_get_max_phys_addr p') pg = Ok pg'" "paging_wf pg'"
    "card (pd_present pg' \<union> {96..99}) \<le> 256" using paging_init_dirs [OF assms(3) _ assms(4)] by blast
  define h0 where "h0 = h\<lparr>heap_pmm := p', heap_pg := pg'\<rparr>"
  have run: "kmain_memory m ks ke fb dir MULTIBOOT2_BOOTLOADER_MAGIC info p pg h = rbind (heap_init h0) memory_smoke_test"
    by (simp add: kmain_memory_def p'(1) pg'(1) h0_def)
  have fields: "heap_pmm h0 = p'" "heap_pg h0 = pg'" by (simp_all add: h0_def)
  show ?thesis
  proof (cases "4 \<le> card (free_set p')")
    case True
    then obtain h1 where "heap_init h0 = Ok h1" "heap_rep h1 [(16368, True)]"
      using heap_init_spec [of h0] p'(2,4) pg'(2,3) fields by auto
    moreover from smoke_test_passes [OF this(2)] obtain h' where
      "memory_smoke_test h1 = Ok (line ''Memory smoke: kmalloc/kfree...'' @ line ''Memory smoke: PASS'', h')"
      "heap_rep h' [(16368, True)]" by blast
    ultimately show ?thesis using True p'(1) run heap_live_rep [of h' "[(16368, True)]"] by auto
  next
    case False
    then have "heap_init h0 = Fail (Panic ''heap_init: out of physical memory'')"
      using heap_init_starved [of h0] p'(2,4) pg'(2,3) fields by auto
    then show ?thesis using False p'(1) run by auto
  qed
qed

theorem boot_memory_witness:
  "\<exists>p'. pmm_init example_mem 0x100000 0x180000 MULTIBOOT2_BOOTLOADER_MAGIC 0x1000 pmm_zero = Ok p' \<and>
    (if 4 \<le> card (free_set p')
     then \<exists>h'. kmain_memory example_mem 0x100000 0x180000 None 0x300000 MULTIBOOT2_BOOTLOADER_MAGIC 0x1000 pmm_zero boot_paging raw_heap =
         Ok (line ''Memory smoke: kmalloc/kfree...'' @ line ''Memory smoke: PASS'', h') \<and>
         heap_rep h' [(16368, True)] \<and> heap_live h' = {}
     else kmain_memory example_mem 0x100000 0x180000 None 0x300000 MULTIBOOT2_BOOTLOADER_MAGIC 0x1000 pmm_zero boot_paging raw_heap =
         Fail (Panic ''heap_init: out of physical memory''))"
  by (rule boot_memory [OF example_mb2_block]) (simp_all add: fb_range_def)

end
