(* ===== verification/Fb_Console.thy ===== *)
theory Fb_Console
  imports CString
begin

text \<open>
  The console on a linear framebuffer (\<open>kernel/fb_console.c\<close>): characters of a built-in font are drawn into
  the memory of the display, a grid of cells remembers them so that the cursor can be erased, and a line
  feed on the last row moves the picture up. The memory is part of the state; addresses and sizes are
  32-bit words with the wrap-around of the code, and an index outside the array of cells is \<open>Wild\<close>.
\<close>

section \<open>State\<close>

record fbcon =
  g_fb :: u32
  g_width :: u32
  g_height :: u32
  g_pitch :: u32
  g_bpp :: u32
  g_cols :: u32
  g_rows :: u32
  g_cursor_x :: u32
  g_cursor_y :: u32
  g_font_w :: u32
  g_font_h :: u32
  g_cells :: "u8 list"
  g_track_cells :: bool
  fb_mem :: mem

abbreviation (input) MAX_FB_COLS :: u32 where "MAX_FB_COLS \<equiv> 512"
abbreviation (input) MAX_FB_ROWS :: u32 where "MAX_FB_ROWS \<equiv> 256"

text \<open>The order of the colours in a pixel and the font are options of the build.\<close>

datatype fb_format = FB_FMT_BGRA | FB_FMT_RGBA

definition g_fmt :: fb_format where "g_fmt = FB_FMT_BGRA"

datatype fb_font = Font_8x16 | Font_16x32

text \<open>The statics at boot.\<close>

definition fbcon_zero :: "mem \<Rightarrow> fbcon" where
  "fbcon_zero m =
     \<lparr>g_fb = 0, g_width = 0, g_height = 0, g_pitch = 0, g_bpp = 0, g_cols = 0, g_rows = 0, g_cursor_x = 0,
      g_cursor_y = 0, g_font_w = 0, g_font_h = 0, g_cells = replicate 131072 0, g_track_cells = False, fb_mem = m\<rparr>"

section \<open>Pixels\<close>

definition pack_color :: "u32 \<Rightarrow> u32" where
  "pack_color rgb =
     (let r = drop_bit 16 rgb AND 0xFF; g = drop_bit 8 rgb AND 0xFF; b = rgb AND 0xFF
      in if g_fmt = FB_FMT_BGRA then b OR push_bit 8 g OR push_bit 16 r else r OR push_bit 8 g OR push_bit 16 b)"

definition fb_plot :: "u32 \<Rightarrow> u32 \<Rightarrow> u32 \<Rightarrow> fbcon \<Rightarrow> fbcon" where
  "fb_plot x y rgb f =
     (if x \<ge> g_width f \<or> y \<ge> g_height f then f
      else
        (let p = g_fb f + y * g_pitch f + x * (g_bpp f div 8);
             pix = pack_color rgb;
             m = (fb_mem f)(p := ucast (pix AND 0xFF), p + 1 := ucast (drop_bit 8 pix AND 0xFF),
                            p + 2 := ucast (drop_bit 16 pix AND 0xFF))
         in if g_bpp f = 32 then f\<lparr>fb_mem := m(p + 3 := 0)\<rparr>
            else if g_bpp f = 24 then f\<lparr>fb_mem := m\<rparr>
            else f))"

section \<open>The font\<close>

definition glyph_table :: "(u8 \<times> u8 list) list" where
  "glyph_table = map (\<lambda>(c, r). (of_char c, r))
    [(CHR ''A'', [14,17,17,31,17,17,17]), (CHR ''B'', [30,17,17,30,17,17,30]), (CHR ''C'', [14,17,16,16,16,17,14]),
     (CHR ''D'', [30,17,17,17,17,17,30]), (CHR ''E'', [31,16,16,30,16,16,31]), (CHR ''F'', [31,16,16,30,16,16,16]),
     (CHR ''G'', [14,17,16,23,17,17,14]), (CHR ''H'', [17,17,17,31,17,17,17]), (CHR ''I'', [31,4,4,4,4,4,31]),
     (CHR ''J'', [7,2,2,2,2,18,12]), (CHR ''K'', [17,18,20,24,20,18,17]), (CHR ''L'', [16,16,16,16,16,16,31]),
     (CHR ''M'', [17,27,21,21,17,17,17]), (CHR ''N'', [17,25,21,19,17,17,17]), (CHR ''O'', [14,17,17,17,17,17,14]),
     (CHR ''P'', [30,17,17,30,16,16,16]), (CHR ''Q'', [14,17,17,17,21,18,13]), (CHR ''R'', [30,17,17,30,20,18,17]),
     (CHR ''S'', [15,16,16,14,1,1,30]), (CHR ''T'', [31,4,4,4,4,4,4]), (CHR ''U'', [17,17,17,17,17,17,14]),
     (CHR ''V'', [17,17,17,17,17,10,4]), (CHR ''W'', [17,17,17,21,21,21,10]), (CHR ''X'', [17,17,10,4,10,17,17]),
     (CHR ''Y'', [17,17,10,4,4,4,4]), (CHR ''Z'', [31,1,2,4,8,16,31]), (CHR ''0'', [14,17,19,21,25,17,14]),
     (CHR ''1'', [4,12,4,4,4,4,14]), (CHR ''2'', [14,17,1,2,4,8,31]), (CHR ''3'', [30,1,1,14,1,1,30]),
     (CHR ''4'', [2,6,10,18,31,2,2]), (CHR ''5'', [31,16,16,30,1,1,30]), (CHR ''6'', [14,16,16,30,17,17,14]),
     (CHR ''7'', [31,1,2,4,8,8,8]), (CHR ''8'', [14,17,17,14,17,17,14]), (CHR ''9'', [14,17,17,15,1,1,14]),
     (CHR ''-'', [0,0,0,31,0,0,0]), (CHR ''_'', [0,0,0,0,0,0,31]), (CHR ''.'', [0,0,0,0,0,6,6]),
     (CHR '','', [0,0,0,0,0,6,4]), (CHR '':'', [0,6,6,0,6,6,0]), (CHR '';'', [0,6,6,0,6,4,0]),
     (CHR ''/'', [1,2,2,4,8,8,16]), (CHR 0x5C, [16,8,8,4,2,2,1]), (CHR ''('', [2,4,8,8,8,4,2]),
     (CHR '')'', [8,4,2,2,2,4,8]), (CHR ''['', [14,8,8,8,8,8,14]), (CHR '']'', [14,2,2,2,2,2,14]),
     (CHR ''='', [0,31,0,31,0,0,0]), (CHR ''+'', [0,4,4,31,4,4,0]), (CHR ''*'', [0,17,10,4,10,17,0]),
     (CHR ''!'', [4,4,4,4,4,0,4]), (CHR ''?'', [14,17,1,2,4,0,4]), (CHR ''|'', [4,4,4,4,4,4,4])]"

text \<open>Characters that have no glyph are shown as a question mark; small letters as capitals.\<close>

definition glyph5x7_row :: "u8 \<Rightarrow> nat \<Rightarrow> u8" where
  "glyph5x7_row c row =
     (if row \<ge> 7 then 0
      else
        (let c = (if 97 \<le> c \<and> c \<le> 122 then c - 32 else c)
         in if c = ch_space then 0
            else (case map_of glyph_table c of Some r \<Rightarrow> r | None \<Rightarrow> [14,17,1,2,4,0,4]) ! row))"

definition glyph8x16_row :: "u8 \<Rightarrow> nat \<Rightarrow> u8" where
  "glyph8x16_row c row =
     (if row \<ge> 16 then 0
      else
        (let src = [255,0,0,1,1,2,2,3,3,4,4,5,5,6,6,255] ! row :: u8
         in if src = 255 then 0 else push_bit 1 (glyph5x7_row c (unat src))))"

definition glyph16x32_row :: "u8 \<Rightarrow> nat \<Rightarrow> u16" where
  "glyph16x32_row c row =
     (if row \<ge> 32 then 0
      else fold (\<lambda>x bits16. if glyph8x16_row c (row div 2) AND push_bit (7 - x) 1 \<noteq> 0
                            then bits16 OR push_bit (14 - x * 2) 3 else bits16) [0..<8] 0)"

section \<open>Cells\<close>

definition cell_get :: "u32 \<Rightarrow> u32 \<Rightarrow> fbcon \<Rightarrow> u8 res" where
  "cell_get cx cy f =
     (if \<not> g_track_cells f \<or> cx \<ge> g_cols f \<or> cy \<ge> g_rows f then Ok ch_space
      else
        (let i = unat (cy * g_cols f + cx)
         in if i < length (g_cells f) then Ok (g_cells f ! i) else Fail Wild))"

definition cell_set :: "u32 \<Rightarrow> u32 \<Rightarrow> u8 \<Rightarrow> fbcon \<Rightarrow> fbcon res" where
  "cell_set cx cy c f =
     (if \<not> g_track_cells f \<or> cx \<ge> g_cols f \<or> cy \<ge> g_rows f then Ok f
      else
        (let i = unat (cy * g_cols f + cx)
         in if i < length (g_cells f) then Ok (f\<lparr>g_cells := (g_cells f)[i := c]\<rparr>) else Fail Wild))"

text \<open>The two nested loops that plot the pixels \<open>(x0 + x, y0 + y)\<close> for which \<open>P y x\<close> holds.\<close>

definition plot_where :: "nat \<Rightarrow> nat \<Rightarrow> (nat \<Rightarrow> nat \<Rightarrow> bool) \<Rightarrow> u32 \<Rightarrow> u32 \<Rightarrow> u32 \<Rightarrow> fbcon \<Rightarrow> fbcon" where
  "plot_where h w P rgb x0 y0 f =
     fold (\<lambda>y. fold (\<lambda>x f. if P y x then fb_plot (x0 + of_nat x) (y0 + of_nat y) rgb f else f) [0..<w]) [0..<h] f"

definition draw_cell :: "u8 \<Rightarrow> u32 \<Rightarrow> u32 \<Rightarrow> fbcon \<Rightarrow> fbcon" where
  "draw_cell c cx cy f =
     (let x0 = cx * g_font_w f; y0 = cy * g_font_h f
      in if cx \<ge> g_cols f \<or> cy \<ge> g_rows f then f
         else
           (let f = plot_where (unat (g_font_h f)) (unat (g_font_w f)) (\<lambda>y x. True) 0x000000 x0 y0 f
            in if g_font_w f = 8 \<and> g_font_h f = 16
               then plot_where 16 8 (\<lambda>y x. glyph8x16_row c y AND push_bit (7 - x) 1 \<noteq> 0) 0xE0E0E0 x0 y0 f
               else plot_where 32 16 (\<lambda>y x. glyph16x32_row c y AND push_bit (15 - x) 1 \<noteq> 0) 0xE0E0E0 x0 y0 f))"

text \<open>The bar at the lower edge of the cell.\<close>

definition draw_cursor :: "fbcon \<Rightarrow> fbcon" where
  "draw_cursor f =
     (if g_fb f = 0 \<or> g_cursor_x f \<ge> g_cols f \<or> g_cursor_y f \<ge> g_rows f then f
      else
        (let x0 = g_cursor_x f * g_font_w f;
             y0 = g_cursor_y f * g_font_h f + (g_font_h f - g_font_h f div 8)
         in fold (\<lambda>y. fold (\<lambda>x. fb_plot (of_nat x) (of_nat y) 0x50A0FF) [unat x0..<unat (x0 + g_font_w f)])
              [unat y0..<unat (g_cursor_y f * g_font_h f + g_font_h f)] f))"

definition erase_cursor :: "fbcon \<Rightarrow> fbcon res" where
  "erase_cursor f =
     rbind (cell_get (g_cursor_x f) (g_cursor_y f) f) (\<lambda>c. Ok (draw_cell c (g_cursor_x f) (g_cursor_y f) f))"

section \<open>Operations\<close>

definition scroll_up :: "fbcon \<Rightarrow> fbcon res" where
  "scroll_up f =
     (if g_fb f = 0 \<or> g_height f \<le> g_font_h f then Ok f
      else
        (let px_row_bytes = g_pitch f * g_font_h f;
             move_bytes = g_pitch f * (g_height f - g_font_h f);
             m = memmove (g_fb f) (g_fb f + px_row_bytes) (unat move_bytes) (fb_mem f);
             m = memset (g_fb f + move_bytes) 0 (unat px_row_bytes) m;
             f = f\<lparr>fb_mem := m\<rparr>;
             n = unat ((g_rows f - 1) * g_cols f);
             cols = unat (g_cols f)
         in if g_track_cells f \<and> g_rows f > 1 then
              if n + cols \<le> length (g_cells f) then
                (let cells = blit (g_cells f) 0 (take n (drop cols (g_cells f)));
                     cells = blit cells n (replicate cols ch_space)
                 in Ok (f\<lparr>g_cells := cells, g_cursor_y := g_rows f - 1\<rparr>))
              else Fail Wild
            else Ok (f\<lparr>g_cursor_y := g_rows f - 1\<rparr>)))"

definition fb_newline :: "fbcon \<Rightarrow> fbcon res" where
  "fb_newline f =
     (let f = f\<lparr>g_cursor_x := 0, g_cursor_y := g_cursor_y f + 1\<rparr>
      in if g_cursor_y f \<ge> g_rows f then rbind (scroll_up f) (\<lambda>f. Ok (f\<lparr>g_cursor_y := g_rows f - 1\<rparr>))
         else Ok f)"

definition clear_pixels :: "fbcon \<Rightarrow> mem" where
  "clear_pixels f =
     (let fb_bytes = g_pitch f * g_height f
      in if g_bpp f = 32
         then fold (\<lambda>i m. memset (g_fb f + 4 * of_nat i) 0 4 m) [0..<unat (fb_bytes div 4)] (fb_mem f)
         else memset (g_fb f) 0 (unat fb_bytes) (fb_mem f))"

definition fb_clear :: "fbcon \<Rightarrow> fbcon res" where
  "fb_clear f =
     (if g_fb f = 0 then Ok f
      else
        (let f = f\<lparr>fb_mem := clear_pixels f\<rparr>;
             n = unat (g_cols f * g_rows f)
         in if g_track_cells f \<and> n > length (g_cells f) then Fail Wild
            else
              (let cells = (if g_track_cells f then blit (g_cells f) 0 (replicate n ch_space) else g_cells f)
               in Ok (draw_cursor (f\<lparr>g_cursor_x := 0, g_cursor_y := 0, g_cells := cells\<rparr>)))))"

definition fb_init :: "fb_font \<Rightarrow> u32 \<Rightarrow> u32 \<Rightarrow> u32 \<Rightarrow> u32 \<Rightarrow> u32 \<Rightarrow> fbcon \<Rightarrow> (bool \<times> fbcon) res" where
  "fb_init font addr width height pitch bpp f =
     (if addr = 0 \<or> width = 0 \<or> height = 0 \<or> pitch = 0 then Ok (False, f)
      else if \<not> (bpp = 32 \<or> bpp = 24) then Ok (False, f)
      else
        (let font_w = (if font = Font_8x16 then 8 else 16);
             font_h = (if font = Font_8x16 then 16 else 32);
             f = f\<lparr>g_fb := addr, g_width := width, g_height := height, g_pitch := pitch, g_bpp := bpp,
                   g_cols := width div font_w, g_rows := height div font_h, g_font_w := font_w, g_font_h := font_h\<rparr>
         in if g_cols f = 0 \<or> g_rows f = 0 then Ok (False, f)
            else
              (let f = f\<lparr>g_cursor_x := 0, g_cursor_y := 0,
                         g_track_cells := (g_cols f \<le> MAX_FB_COLS \<and> g_rows f \<le> MAX_FB_ROWS)\<rparr>
               in rbind (fb_clear f) (\<lambda>f. Ok (True, draw_cursor f)))))"

definition fb_putc :: "u8 \<Rightarrow> fbcon \<Rightarrow> fbcon res" where
  "fb_putc c f =
     (if g_fb f = 0 then Ok f
      else rbind (erase_cursor f) (\<lambda>f.
        if c = 13 then Ok (draw_cursor (f\<lparr>g_cursor_x := 0\<rparr>))
        else if c = ch_nl then rbind (fb_newline f) (\<lambda>f. Ok (draw_cursor f))
        else if c = 8 then
          (let f = (if g_cursor_x f > 0 then f\<lparr>g_cursor_x := g_cursor_x f - 1\<rparr>
                    else if g_cursor_y f > 0 then f\<lparr>g_cursor_x := g_cols f - 1, g_cursor_y := g_cursor_y f - 1\<rparr>
                    else f);
               f = draw_cell ch_space (g_cursor_x f) (g_cursor_y f) f
           in rbind (cell_set (g_cursor_x f) (g_cursor_y f) ch_space f) (\<lambda>f. Ok (draw_cursor f)))
        else
          rbind (cell_set (g_cursor_x f) (g_cursor_y f) c (draw_cell c (g_cursor_x f) (g_cursor_y f) f)) (\<lambda>f.
            let f = f\<lparr>g_cursor_x := g_cursor_x f + 1\<rparr>
            in rbind (if g_cursor_x f \<ge> g_cols f then fb_newline f else Ok f) (\<lambda>f. Ok (draw_cursor f)))))"

fun fb_print :: "u8 list \<Rightarrow> fbcon \<Rightarrow> fbcon res" where
  "fb_print [] f = Ok f"
| "fb_print (c # s) f = rbind (fb_putc c f) (fb_print s)"

end
