(* ===== verification/Ports.thy ===== *)
theory Ports
  imports Prelude
begin

text \<open>
  The input and output ports (\<open>kernel/ports.h\<close>). What a port instruction does is up to the hardware: the
  four instructions are a parameter, functions on the state of the devices. The serial line
  (\<open>kernel/serial.c\<close>) and the interrupt controllers (\<open>kernel/pic.c\<close>) are programs over them.
\<close>

record 'd ports =
  inb :: "u16 \<Rightarrow> 'd \<Rightarrow> u8 \<times> 'd"
  outb :: "u16 \<Rightarrow> u8 \<Rightarrow> 'd \<Rightarrow> 'd"
  inw :: "u16 \<Rightarrow> 'd \<Rightarrow> u16 \<times> 'd"
  outw :: "u16 \<Rightarrow> u16 \<Rightarrow> 'd \<Rightarrow> 'd"

text \<open>A sequence of bytes written to ports.\<close>

definition outs :: "'d ports \<Rightarrow> (u16 \<times> u8) list \<Rightarrow> 'd \<Rightarrow> 'd" where
  "outs p ws d = fold (\<lambda>(port, v). outb p port v) ws d"

lemma outs_simps [simp]: "outs p [] d = d" "outs p ((port, v) # ws) d = outs p ws (outb p port v d)"
  by (simp_all add: outs_def)

text \<open>
  The devices after any accesses to the ports of \<open>S\<close> by bytes, and to those of \<open>W\<close> by reading words: what these
  accesses keep, a part of the program that makes no others keeps.
\<close>

inductive port_run :: "'d ports \<Rightarrow> u16 set \<Rightarrow> u16 set \<Rightarrow> 'd \<Rightarrow> 'd \<Rightarrow> bool" for p S W where
  run_refl: "port_run p S W d d"
| run_in: "port_run p S W d e \<Longrightarrow> port \<in> S \<Longrightarrow> port_run p S W d (snd (inb p port e))"
| run_out: "port_run p S W d e \<Longrightarrow> port \<in> S \<Longrightarrow> port_run p S W d (outb p port x e)"
| run_word: "port_run p S W d e \<Longrightarrow> port \<in> W \<Longrightarrow> port_run p S W d (snd (inw p port e))"

lemma run_trans: "port_run p S W e f \<Longrightarrow> port_run p S W d e \<Longrightarrow> port_run p S W d f"
  by (induction rule: port_run.induct) (blast intro: run_refl run_in run_out run_word)+

lemma run_keeps:
  assumes "port_run p S W d e" and "P d"
    and "\<And>port d. port \<in> S \<Longrightarrow> P d \<Longrightarrow> P (snd (inb p port d))" and "\<And>port x d. port \<in> S \<Longrightarrow> P d \<Longrightarrow> P (outb p port x d)"
    and "\<And>port d. port \<in> W \<Longrightarrow> P d \<Longrightarrow> P (snd (inw p port d))"
  shows "P e"
  using assms by (induction rule: port_run.induct) simp_all

lemma run_outs: "fst ` set ws \<subseteq> S \<Longrightarrow> port_run p S W d (outs p ws d)"
proof (induction ws rule: rev_induct)
  case (snoc w ws)
  then show ?case by (cases w) (auto simp: outs_def intro: run_out)
qed (simp add: run_refl)

definition io_wait :: "'d ports \<Rightarrow> 'd \<Rightarrow> 'd" where
  "io_wait p d = outb p 0x80 0 d"

section \<open>The serial line\<close>

abbreviation (input) COM1_PORT :: u16 where "COM1_PORT \<equiv> 0x3F8"

abbreviation (input) com1_ports :: "u16 set" where "com1_ports \<equiv> {port. port - COM1_PORT < 8}"

definition serial_init :: "'d ports \<Rightarrow> 'd \<Rightarrow> 'd" where
  "serial_init p d =
     outs p [(COM1_PORT + 1, 0x00), (COM1_PORT + 3, 0x80), (COM1_PORT + 0, 0x03), (COM1_PORT + 1, 0x00),
             (COM1_PORT + 3, 0x03), (COM1_PORT + 2, 0xC7), (COM1_PORT + 4, 0x0B)] d"

definition serial_tx_ready :: "'d ports \<Rightarrow> 'd \<Rightarrow> bool \<times> 'd" where
  "serial_tx_ready p d = (case inb p (COM1_PORT + 5) d of (v, d) \<Rightarrow> (v AND 0x20 \<noteq> 0, d))"

text \<open>The loop that waits for the transmitter; \<open>None\<close> if it never gets ready.\<close>

partial_function (option) serial_wait :: "'d ports \<Rightarrow> 'd \<Rightarrow> 'd option" where
  "serial_wait p d = (if fst (serial_tx_ready p d) then Some (snd (serial_tx_ready p d)) else serial_wait p (snd (serial_tx_ready p d)))"

definition serial_putc :: "'d ports \<Rightarrow> u8 \<Rightarrow> 'd \<Rightarrow> 'd res" where
  "serial_putc p c d = (case serial_wait p d of None \<Rightarrow> Fail Hang | Some d \<Rightarrow> Ok (outb p COM1_PORT c d))"

fun serial_print :: "'d ports \<Rightarrow> u8 list \<Rightarrow> 'd \<Rightarrow> 'd res" where
  "serial_print p [] d = Ok d"
| "serial_print p (c # s) d =
     rbind (if c = ch_nl then serial_putc p 13 d else Ok d) (\<lambda>d.
     rbind (serial_putc p c d) (serial_print p s))"

section \<open>The interrupt controllers\<close>

text \<open>The masks are read before the controllers are programmed and written back at the end.\<close>

definition pic_remap :: "'d ports \<Rightarrow> u32 \<Rightarrow> u32 \<Rightarrow> 'd \<Rightarrow> 'd" where
  "pic_remap p offset1 offset2 d =
     (case inb p 0x21 d of (a1, d) \<Rightarrow>
      case inb p 0xA1 d of (a2, d) \<Rightarrow>
        let cmd = (\<lambda>port v d. io_wait p (outb p port v d));
            d = cmd 0x20 0x11 d; d = cmd 0xA0 0x11 d;
            d = cmd 0x21 (ucast offset1) d; d = cmd 0xA1 (ucast offset2) d;
            d = cmd 0x21 4 d; d = cmd 0xA1 2 d;
            d = cmd 0x21 1 d; d = cmd 0xA1 1 d
        in outb p 0xA1 a2 (outb p 0x21 a1 d))"

section \<open>What the serial line does\<close>

text \<open>
  What the code relies on, the documented behaviour of a 16550: while the transmitter is full, bit 5 of the
  line status is clear, and it is set after finitely many reads of the status (\<open>uv_wait\<close>: how many of them
  still say full). A character written to the data port of a transmitter that is not full is taken, and the
  transmitter may then be full for any time; with bit 7 of the line control set, the port is the divisor.
  Writing the other registers takes no character. Accesses to the ports of other devices take no character
  either; how long the transmitter stays full after them is left open.
\<close>

record uart_view =
  uv_wait :: nat
  uv_dlab :: bool
  uv_taken :: "u8 list"

definition uart_line :: "'d ports \<Rightarrow> ('d \<Rightarrow> uart_view) \<Rightarrow> bool" where
  "uart_line p view \<longleftrightarrow>
     (\<forall>d. fst (inb p (COM1_PORT + 5) d) AND 0x20 \<noteq> 0 \<longleftrightarrow> uv_wait (view d) = 0) \<and>
     (\<forall>d. view (snd (inb p (COM1_PORT + 5) d)) = (view d)\<lparr>uv_wait := uv_wait (view d) - 1\<rparr>) \<and>
     (\<forall>c d. \<not> uv_dlab (view d) \<and> uv_wait (view d) = 0 \<longrightarrow>
        (\<exists>b. view (outb p COM1_PORT c d) = (view d)\<lparr>uv_wait := b, uv_taken := uv_taken (view d) @ [c]\<rparr>)) \<and>
     (\<forall>c d. uv_dlab (view d) \<longrightarrow> (\<exists>b. view (outb p COM1_PORT c d) = (view d)\<lparr>uv_wait := b\<rparr>)) \<and>
     (\<forall>x d. \<exists>b. view (outb p (COM1_PORT + 3) x d) = (view d)\<lparr>uv_wait := b, uv_dlab := x AND 0x80 \<noteq> 0\<rparr>) \<and>
     (\<forall>x d. \<forall>i\<in>{1, 2, 4}. \<exists>b. view (outb p (COM1_PORT + i) x d) = (view d)\<lparr>uv_wait := b\<rparr>)"

lemma uart_lineD:
  assumes "uart_line p view"
  shows "fst (inb p (COM1_PORT + 5) d) AND 0x20 \<noteq> 0 \<longleftrightarrow> uv_wait (view d) = 0"
    and "view (snd (inb p (COM1_PORT + 5) d)) = (view d)\<lparr>uv_wait := uv_wait (view d) - 1\<rparr>"
    and "\<not> uv_dlab (view d) \<Longrightarrow> uv_wait (view d) = 0 \<Longrightarrow>
      \<exists>b. view (outb p COM1_PORT c d) = (view d)\<lparr>uv_wait := b, uv_taken := uv_taken (view d) @ [c]\<rparr>"
    and "uv_dlab (view d) \<Longrightarrow> \<exists>b. view (outb p COM1_PORT c d) = (view d)\<lparr>uv_wait := b\<rparr>"
    and "\<exists>b. view (outb p (COM1_PORT + 3) x d) = (view d)\<lparr>uv_wait := b, uv_dlab := x AND 0x80 \<noteq> 0\<rparr>"
    and "i \<in> {1, 2, 4} \<Longrightarrow> \<exists>b. view (outb p (COM1_PORT + i) x d) = (view d)\<lparr>uv_wait := b\<rparr>"
  using assms unfolding uart_line_def by blast+

section \<open>Printing\<close>

definition crlf :: "u8 list \<Rightarrow> u8 list" where
  "crlf s = concat (map (\<lambda>c. if c = ch_nl then [13, ch_nl] else [c]) s)"

text \<open>The loop ends: every read of the status brings the transmitter closer.\<close>

lemma serial_wait_returns:
  assumes "uart_line p view"
  shows "\<exists>e. serial_wait p d = Some e \<and> port_run p com1_ports {} d e \<and> view e = (view d)\<lparr>uv_wait := 0\<rparr>"
proof (induction "uv_wait (view d)" arbitrary: d)
  case 0
  then have "serial_wait p d = Some (snd (inb p (COM1_PORT + 5) d))"
    using uart_lineD(1) [OF assms, of d] by (subst serial_wait.simps) (simp add: serial_tx_ready_def split_beta)
  moreover have "port_run p com1_ports {} d (snd (inb p (COM1_PORT + 5) d))" by (rule run_in [OF run_refl]) simp
  ultimately show ?case using 0 uart_lineD(2) [OF assms, of d] by auto
next
  case (Suc n)
  let ?d = "snd (inb p (COM1_PORT + 5) d)"
  have v: "view ?d = (view d)\<lparr>uv_wait := n\<rparr>" using Suc(2) uart_lineD(2) [OF assms, of d] by (simp flip: Suc(2))
  then obtain e where e: "serial_wait p ?d = Some e" "port_run p com1_ports {} ?d e" "view e = (view ?d)\<lparr>uv_wait := 0\<rparr>"
    using Suc(1) [of ?d] by auto
  have "serial_wait p d = serial_wait p ?d"
    using uart_lineD(1) [OF assms, of d] Suc(2) by (subst serial_wait.simps) (simp add: serial_tx_ready_def split_beta)
  moreover have "port_run p com1_ports {} d ?d" by (rule run_in [OF run_refl]) simp
  ultimately show ?case using e v run_trans by fastforce
qed

lemma serial_putc_returns:
  assumes "uart_line p view"
  shows "\<exists>e. serial_putc p c d = Ok e \<and> port_run p com1_ports {} d e \<and>
    (\<not> uv_dlab (view d) \<longrightarrow> \<not> uv_dlab (view e) \<and> uv_taken (view e) = uv_taken (view d) @ [c])"
proof -
  obtain e where e: "serial_wait p d = Some e" "port_run p com1_ports {} d e" "view e = (view d)\<lparr>uv_wait := 0\<rparr>"
    using serial_wait_returns [OF assms] by blast
  have "port_run p com1_ports {} d (outb p COM1_PORT c e)" using e(2) by (rule run_out) simp
  moreover have "serial_putc p c d = Ok (outb p COM1_PORT c e)" using e(1) by (simp add: serial_putc_def)
  ultimately show ?thesis using uart_lineD(3) [OF assms, of e c] e(3) by auto
qed

lemma crlf_simps: "crlf [] = []" "crlf (c # s) = (if c = ch_nl then [13, ch_nl] else [c]) @ crlf s"
  by (simp_all add: crlf_def)

lemma serial_print_returns:
  assumes "uart_line p view"
  shows "\<exists>e. serial_print p s d = Ok e \<and> port_run p com1_ports {} d e \<and>
    (\<not> uv_dlab (view d) \<longrightarrow> \<not> uv_dlab (view e) \<and> uv_taken (view e) = uv_taken (view d) @ crlf s)"
proof (induction s arbitrary: d)
  case Nil
  then show ?case by (simp add: run_refl crlf_simps)
next
  case (Cons c s)
  obtain d1 where 1: "(if c = ch_nl then serial_putc p 13 d else Ok d) = Ok d1" "port_run p com1_ports {} d d1"
    "\<not> uv_dlab (view d) \<longrightarrow> \<not> uv_dlab (view d1) \<and> uv_taken (view d1) = uv_taken (view d) @ (if c = ch_nl then [13] else [])"
    using serial_putc_returns [OF assms, of 13 d] by (cases "c = ch_nl") (auto intro: run_refl)
  obtain d2 where 2: "serial_putc p c d1 = Ok d2" "port_run p com1_ports {} d1 d2"
    "\<not> uv_dlab (view d1) \<longrightarrow> \<not> uv_dlab (view d2) \<and> uv_taken (view d2) = uv_taken (view d1) @ [c]"
    using serial_putc_returns [OF assms] by blast
  obtain e where e: "serial_print p s d2 = Ok e" "port_run p com1_ports {} d2 e"
    "\<not> uv_dlab (view d2) \<longrightarrow> \<not> uv_dlab (view e) \<and> uv_taken (view e) = uv_taken (view d2) @ crlf s"
    using Cons.IH by blast
  have "port_run p com1_ports {} d e" using run_trans [OF e(2) run_trans [OF 2(2) 1(2)]] .
  then show ?case using 1 2 e by (auto simp: crlf_simps)
qed

lemma serial_init_run: "port_run p com1_ports {} d (serial_init p d)"
  unfolding serial_init_def by (rule run_outs) simp

text \<open>After the initialisation the data port takes characters.\<close>

lemma serial_init_view:
  assumes "uart_line p view"
  shows "\<not> uv_dlab (view (serial_init p d))" "uv_taken (view (serial_init p d)) = uv_taken (view d)"
proof -
  note D = uart_lineD [OF assms]
  have other: "uv_dlab (view (outb p (COM1_PORT + i) x e)) = uv_dlab (view e)"
    "uv_taken (view (outb p (COM1_PORT + i) x e)) = uv_taken (view e)" if "i \<in> {1, 2, 4}" for i x e
    using D(6) [OF that, of x e] by auto
  have lcr: "uv_dlab (view (outb p (COM1_PORT + 3) x e)) \<longleftrightarrow> x AND 0x80 \<noteq> 0"
    "uv_taken (view (outb p (COM1_PORT + 3) x e)) = uv_taken (view e)" for x e
    using D(5) [of x e] by auto
  have divisor: "uv_taken (view (outb p COM1_PORT x e)) = uv_taken (view e)" if "uv_dlab (view e)" for x e
    using D(4) [OF that, of x] by auto
  have o: "uv_dlab (view (outb p (COM1_PORT + 1) x e)) = uv_dlab (view e)" "uv_taken (view (outb p (COM1_PORT + 1) x e)) = uv_taken (view e)"
    "uv_dlab (view (outb p (COM1_PORT + 2) x e)) = uv_dlab (view e)" "uv_taken (view (outb p (COM1_PORT + 2) x e)) = uv_taken (view e)"
    "uv_dlab (view (outb p (COM1_PORT + 4) x e)) = uv_dlab (view e)" "uv_taken (view (outb p (COM1_PORT + 4) x e)) = uv_taken (view e)" for x e
    by (rule other; simp)+
  show "\<not> uv_dlab (view (serial_init p d))" "uv_taken (view (serial_init p d)) = uv_taken (view d)"
    by (simp_all add: serial_init_def divisor o [simplified] lcr [simplified])
qed

end
