(* ===== verification/Console.thy ===== *)
theory Console
  imports Fb_Console Terminal Multiboot Ports Console_Text
begin

text \<open>
  The console (\<open>kernel/console.c\<close>): it looks for a framebuffer in the Multiboot2 block, starts the
  framebuffer console or the terminal, and sends every character to the one it has chosen and to the serial
  line. The memory of the machine is the memory of the framebuffer console. The overlay of a debug build is
  left out.
\<close>

datatype console_backend = CONSOLE_BACKEND_TERMINAL | CONSOLE_BACKEND_FB

record 'd console =
  g_backend :: console_backend
  g_fb_phys_addr :: u64
  g_fb_pitch :: u32
  g_fb_width :: u32
  g_fb_height :: u32
  g_fb_bpp :: u32
  g_fb_valid :: bool
  con_fb :: fbcon
  con_term :: terminal
  con_dev :: 'd

definition framebuffer_width :: "mem \<Rightarrow> u32 \<Rightarrow> u32" where "framebuffer_width m t = ld32 m (t + 20)"
definition framebuffer_bpp :: "mem \<Rightarrow> u32 \<Rightarrow> u8" where "framebuffer_bpp m t = m (t + 28)"

section \<open>Numbers\<close>

definition fb_u32 :: "u32 \<Rightarrow> u8 list" where
  "fb_u32 n = (if n = 0 then [48] else rev (digits_rev 10 n))"

definition fb_hex32 :: "u32 \<Rightarrow> u8 list" where
  "fb_hex32 n = lit ''0x'' @ map (\<lambda>shift. lit ''0123456789ABCDEF'' ! unat (drop_bit shift n AND 0xF)) [28, 24, 20, 16, 12, 8, 4, 0]"

section \<open>The framebuffer of the boot loader\<close>

text \<open>The loop over the tags; \<open>None\<close> when it never ends.\<close>

partial_function (option) find_framebuffer_from :: "mem \<Rightarrow> u32 \<Rightarrow> u32 \<Rightarrow> u32 option option" where
  "find_framebuffer_from m info off =
     (if \<not> off + 8 \<le> info_total_size m info then Some None
      else if tag_type m (info + off) = MULTIBOOT2_TAG_TYPE_END then Some None
      else if tag_type m (info + off) = MULTIBOOT2_TAG_TYPE_FRAMEBUFFER \<and> tag_size m (info + off) \<ge> 32 then Some (Some (info + off))
      else find_framebuffer_from m info ((off + tag_size m (info + off) + 7) AND NOT 7))"

definition find_mb2_framebuffer :: "mem \<Rightarrow> u32 \<Rightarrow> u32 \<Rightarrow> u32 option res" where
  "find_mb2_framebuffer m mb_magic mb_info_addr =
     (if mb_magic \<noteq> MULTIBOOT2_BOOTLOADER_MAGIC \<or> mb_info_addr = 0 then Ok None
      else case find_framebuffer_from m mb_info_addr 8 of None \<Rightarrow> Fail Hang | Some r \<Rightarrow> Ok r)"

section \<open>Operations\<close>

definition to_serial :: "'d ports \<Rightarrow> u8 list \<Rightarrow> 'd console \<Rightarrow> 'd console res" where
  "to_serial p s k = rbind (serial_print p s (con_dev k)) (\<lambda>d. Ok (k\<lparr>con_dev := d\<rparr>))"

definition banner :: "'d console \<Rightarrow> u8 list" where
  "banner k =
     [82, 0xC5, 0x8D] @ line ''ninOS UEFI'' @ lit ''Framebuffer: '' @ fb_u32 (g_fb_width k) @ lit ''x'' @ fb_u32 (g_fb_height k) @
     lit ''x'' @ fb_u32 (g_fb_bpp k) @ lit '' pitch='' @ fb_u32 (g_fb_pitch k) @ lit '' addr='' @ fb_hex32 (ucast (g_fb_phys_addr k)) @
     [ch_nl] @ line ''If you see this, framebuffer console works.''"

text \<open>The terminal is started, with a line on the serial line that says why.\<close>

definition use_terminal :: "'d ports \<Rightarrow> mem \<Rightarrow> u32 option \<Rightarrow> 'd console \<Rightarrow> 'd console res" where
  "use_terminal p m fb k =
     (let k = k\<lparr>g_backend := CONSOLE_BACKEND_TERMINAL, con_term := terminal_init (Some THEME_RONIN_DARK) (con_term k)\<rparr>
      in case fb of
           None \<Rightarrow> to_serial p (line ''console: no multiboot2 framebuffer tag, using VGA terminal'') k
         | Some t \<Rightarrow>
             if framebuffer_bpp m t \<noteq> 32 \<and> framebuffer_bpp m t \<noteq> 24
             then to_serial p (line ''console: unsupported framebuffer bpp, using VGA terminal'') k
             else to_serial p (line ''console: framebuffer init failed, using VGA terminal'') k)"

text \<open>The framebuffer console has been started.\<close>

definition use_framebuffer :: "'d ports \<Rightarrow> mem \<Rightarrow> u32 \<Rightarrow> 'd console \<Rightarrow> 'd console res" where
  "use_framebuffer p m t k =
     (let k = k\<lparr>g_backend := CONSOLE_BACKEND_FB, g_fb_phys_addr := framebuffer_addr m t, g_fb_pitch := framebuffer_pitch m t,
                g_fb_width := framebuffer_width m t, g_fb_height := framebuffer_height m t,
                g_fb_bpp := ucast (framebuffer_bpp m t), g_fb_valid := True\<rparr>
      in rbind (to_serial p (line ''console: framebuffer backend active'') k) (\<lambda>k.
         rbind (fb_print (banner k) (con_fb k)) (\<lambda>f. Ok (k\<lparr>con_fb := f\<rparr>))))"

definition console_init :: "'d ports \<Rightarrow> fb_font \<Rightarrow> u32 \<Rightarrow> u32 \<Rightarrow> 'd console \<Rightarrow> 'd console res" where
  "console_init p font mb_magic mb_info_addr k =
     (let k = k\<lparr>g_fb_phys_addr := 0, g_fb_pitch := 0, g_fb_width := 0, g_fb_height := 0, g_fb_bpp := 0, g_fb_valid := False,
                con_dev := serial_init p (con_dev k)\<rparr>;
          m = fb_mem (con_fb k)
      in rbind (find_mb2_framebuffer m mb_magic mb_info_addr) (\<lambda>fb.
           case fb of
             None \<Rightarrow> use_terminal p m fb k
           | Some t \<Rightarrow>
               if framebuffer_bpp m t = 32 \<or> framebuffer_bpp m t = 24 then
                 if framebuffer_addr m t > 0xFFFFFFFF then
                   rbind (to_serial p (line ''console: framebuffer above 4GiB, fallback to VGA terminal'') k) (use_terminal p m fb)
                 else
                   rbind (fb_init font (ucast (framebuffer_addr m t)) (framebuffer_width m t) (framebuffer_height m t)
                            (framebuffer_pitch m t) (ucast (framebuffer_bpp m t)) (con_fb k)) (\<lambda>(started, f).
                     let k = k\<lparr>con_fb := f\<rparr>
                     in if started then use_framebuffer p m t k else use_terminal p m fb k)
               else use_terminal p m fb k))"

definition console_using_framebuffer :: "'d console \<Rightarrow> bool" where
  "console_using_framebuffer k \<longleftrightarrow> g_backend k = CONSOLE_BACKEND_FB"

text \<open>Address, pitch, width, height and bits per pixel.\<close>

definition console_get_framebuffer :: "'d console \<Rightarrow> (u64 \<times> u32 \<times> u32 \<times> u32 \<times> u32) option" where
  "console_get_framebuffer k =
     (if g_backend k \<noteq> CONSOLE_BACKEND_FB \<or> \<not> g_fb_valid k then None
      else Some (g_fb_phys_addr k, g_fb_pitch k, g_fb_width k, g_fb_height k, g_fb_bpp k))"

definition console_clear :: "u8 \<Rightarrow> 'd console \<Rightarrow> 'd console res" where
  "console_clear color k =
     (if g_backend k = CONSOLE_BACKEND_FB then rbind (fb_clear (con_fb k)) (\<lambda>f. Ok (k\<lparr>con_fb := f\<rparr>))
      else Ok (k\<lparr>con_term := terminal_clear_scrollback (con_term k)\<rparr>))"

definition console_putc :: "'d ports \<Rightarrow> u8 \<Rightarrow> 'd console \<Rightarrow> 'd console res" where
  "console_putc p c k =
     rbind (if g_backend k = CONSOLE_BACKEND_FB then rbind (fb_putc c (con_fb k)) (\<lambda>f. Ok (k\<lparr>con_fb := f\<rparr>))
            else Ok (k\<lparr>con_term := terminal_putc c (con_term k)\<rparr>)) (\<lambda>k.
     rbind (serial_putc p c (con_dev k)) (\<lambda>d. Ok (k\<lparr>con_dev := d\<rparr>)))"

definition console_print :: "'d ports \<Rightarrow> u8 list \<Rightarrow> 'd console \<Rightarrow> 'd console res" where
  "console_print p s k =
     rbind (if g_backend k = CONSOLE_BACKEND_FB then rbind (fb_print s (con_fb k)) (\<lambda>f. Ok (k\<lparr>con_fb := f\<rparr>))
            else rbind (terminal_write s (con_term k)) (\<lambda>t. Ok (k\<lparr>con_term := t\<rparr>))) (to_serial p s)"

end
