(* ===== verification/Fb_Spec.thy ===== *)
theory Fb_Spec
  imports Fb_Console
begin

text \<open>
  What the framebuffer console shows. A pixel is three bytes at an offset of the frame; plotting changes
  one pixel, drawing a cell or the cursor a set of pixels, and nothing outside the frame. The screen that
  the cells describe is a list of rows, and the console refines the obvious operations on it.
\<close>

section \<open>Geometry\<close>

abbreviation fb_P :: "fbcon \<Rightarrow> nat" where "fb_P f \<equiv> unat (g_pitch f)"
abbreviation fb_W :: "fbcon \<Rightarrow> nat" where "fb_W f \<equiv> unat (g_width f)"
abbreviation fb_H :: "fbcon \<Rightarrow> nat" where "fb_H f \<equiv> unat (g_height f)"
abbreviation fb_B :: "fbcon \<Rightarrow> nat" where "fb_B f \<equiv> unat (g_bpp f) div 8"
abbreviation fb_C :: "fbcon \<Rightarrow> nat" where "fb_C f \<equiv> unat (g_cols f)"
abbreviation fb_R :: "fbcon \<Rightarrow> nat" where "fb_R f \<equiv> unat (g_rows f)"
abbreviation cell_w :: "fbcon \<Rightarrow> nat" where "cell_w f \<equiv> unat (g_font_w f)"
abbreviation cell_h :: "fbcon \<Rightarrow> nat" where "cell_h f \<equiv> unat (g_font_h f)"
abbreviation fb_X :: "fbcon \<Rightarrow> nat" where "fb_X f \<equiv> unat (g_cursor_x f)"
abbreviation fb_Y :: "fbcon \<Rightarrow> nat" where "fb_Y f \<equiv> unat (g_cursor_y f)"

text \<open>The frame lies in the address space and its rows in the pitch; the grid fits the array of cells.\<close>

definition frame_fits :: "u32 \<Rightarrow> u32 \<Rightarrow> u32 \<Rightarrow> u32 \<Rightarrow> u32 \<Rightarrow> bool" where
  "frame_fits addr width height pitch bpp \<longleftrightarrow>
     addr \<noteq> 0 \<and> (bpp = 24 \<or> bpp = 32 \<and> unat pitch mod 4 = 0) \<and>
     unat width * (unat bpp div 8) \<le> unat pitch \<and> unat addr + unat pitch * unat height \<le> 2 ^ 32"

definition frame_ok :: "fbcon \<Rightarrow> bool" where
  "frame_ok f \<longleftrightarrow>
     frame_fits (g_fb f) (g_width f) (g_height f) (g_pitch f) (g_bpp f) \<and>
     (g_font_w f = 8 \<and> g_font_h f = 16 \<or> g_font_w f = 16 \<and> g_font_h f = 32) \<and>
     fb_C f = fb_W f div cell_w f \<and> fb_R f = fb_H f div cell_h f \<and>
     1 \<le> fb_C f \<and> fb_C f \<le> 512 \<and> 2 \<le> fb_R f \<and> fb_R f \<le> 256 \<and>
     g_track_cells f \<and> length (g_cells f) = 131072"

definition fb_inv :: "fbcon \<Rightarrow> bool" where
  "fb_inv f \<longleftrightarrow> frame_ok f \<and> fb_X f < fb_C f \<and> fb_Y f < fb_R f"

lemma fb_invD: "fb_inv f \<Longrightarrow> frame_ok f" "fb_inv f \<Longrightarrow> fb_X f < fb_C f" "fb_inv f \<Longrightarrow> fb_Y f < fb_R f"
  by (simp_all add: fb_inv_def)

lemma frame_fits_bounds:
  assumes "frame_ok f"
  shows "g_fb f \<noteq> 0" "3 \<le> fb_B f" "fb_W f * fb_B f \<le> fb_P f" "unat (g_fb f) + fb_P f * fb_H f \<le> 2 ^ 32"
    "fb_P f * fb_H f < 2 ^ 32"
proof -
  show f: "g_fb f \<noteq> 0" "3 \<le> fb_B f" "fb_W f * fb_B f \<le> fb_P f" "unat (g_fb f) + fb_P f * fb_H f \<le> 2 ^ 32"
    using assms by (auto simp: frame_ok_def frame_fits_def)
  have "0 < unat (g_fb f)" using f(1) by (simp add: unat_gt_0)
  then show "fb_P f * fb_H f < 2 ^ 32" using f(4) by linarith
qed

lemma frame_cells:
  assumes "frame_ok f"
  shows "0 < cell_w f" "0 < cell_h f" "fb_C f * cell_w f \<le> fb_W f" "fb_R f * cell_h f \<le> fb_H f"
    "fb_H f < fb_R f * cell_h f + cell_h f" "fb_R f * fb_C f \<le> 131072" "cell_w f \<le> 16" "cell_h f \<le> 32"
    "cell_h f < fb_H f"
proof -
  have font: "cell_w f = 8 \<and> cell_h f = 16 \<or> cell_w f = 16 \<and> cell_h f = 32"
    and c: "fb_C f = fb_W f div cell_w f" "fb_R f = fb_H f div cell_h f" "fb_C f \<le> 512" "fb_R f \<le> 256" "2 \<le> fb_R f"
    using assms by (auto simp: frame_ok_def)
  show p: "0 < cell_w f" "0 < cell_h f" "cell_w f \<le> 16" "cell_h f \<le> 32" using font by auto
  show "fb_C f * cell_w f \<le> fb_W f" by (simp add: c(1))
  show r: "fb_R f * cell_h f \<le> fb_H f" by (simp add: c(2))
  show "fb_H f < fb_R f * cell_h f + cell_h f"
    using mod_less_divisor [OF p(2), of "fb_H f"] div_mult_mod_eq [of "fb_H f" "cell_h f"] unfolding c(2) by linarith
  have "fb_R f * fb_C f \<le> 256 * 512" using c(3,4) by (rule mult_le_mono [rotated])
  then show "fb_R f * fb_C f \<le> 131072" by simp
  have "2 * cell_h f \<le> fb_H f" using mult_le_mono1 [OF c(5), of "cell_h f"] r by linarith
  then show "cell_h f < fb_H f" using p(2) by linarith
qed

section \<open>Pixels\<close>

definition fbyte :: "fbcon \<Rightarrow> nat \<Rightarrow> u8" where
  "fbyte f n = fb_mem f (g_fb f + of_nat n)"

definition pixel_off :: "fbcon \<Rightarrow> nat \<Rightarrow> nat \<Rightarrow> nat" where
  "pixel_off f x y = y * fb_P f + x * fb_B f"

definition pixel :: "fbcon \<Rightarrow> nat \<Rightarrow> nat \<Rightarrow> u8 \<times> u8 \<times> u8" where
  "pixel f x y = (fbyte f (pixel_off f x y), fbyte f (pixel_off f x y + 1), fbyte f (pixel_off f x y + 2))"

definition colour :: "u32 \<Rightarrow> u8 \<times> u8 \<times> u8" where
  "colour rgb = (let p = pack_color rgb
     in (ucast (p AND 0xFF), ucast (drop_bit 8 p AND 0xFF), ucast (drop_bit 16 p AND 0xFF)))"

lemma colour_black [simp]: "colour 0 = (0, 0, 0)"
  by (simp add: colour_def pack_color_def g_fmt_def)

lemma pixel_inside:
  assumes "frame_ok f" and "x < fb_W f" and "y < fb_H f"
  shows "pixel_off f x y + fb_B f \<le> fb_P f * fb_H f"
proof -
  have "Suc x * fb_B f \<le> fb_W f * fb_B f" using assms(2) by (intro mult_le_mono1) simp
  then have "x * fb_B f + fb_B f \<le> fb_P f" using frame_fits_bounds(3) [OF assms(1)] by simp
  moreover have "Suc y * fb_P f \<le> fb_H f * fb_P f" using assms(3) by (intro mult_le_mono1) simp
  ultimately show ?thesis by (simp add: pixel_off_def mult.commute)
qed

text \<open>Different pixels do not overlap.\<close>

lemma pixel_apart:
  assumes ok: "frame_ok f" and "x < fb_W f" and "x' < fb_W f" and "(x, y) \<noteq> (x', y')"
  shows "pixel_off f x y + fb_B f \<le> pixel_off f x' y' \<or> pixel_off f x' y' + fb_B f \<le> pixel_off f x y"
proof -
  have lin: "pixel_off f a b + fb_B f \<le> pixel_off f a' b'" if "a < fb_W f" and "b < b' \<or> b = b' \<and> a < a'" for a b a' b'
  proof -
    have "Suc a * fb_B f \<le> fb_W f * fb_B f" using that(1) by (intro mult_le_mono1) simp
    then have row: "a * fb_B f + fb_B f \<le> fb_P f" using frame_fits_bounds(3) [OF ok] by simp
    from that(2) show ?thesis
    proof
      assume "b < b'"
      then have "Suc b * fb_P f \<le> b' * fb_P f" by (intro mult_le_mono1) simp
      then show ?thesis using row by (simp add: pixel_off_def)
    next
      assume b: "b = b' \<and> a < a'"
      then have "Suc a * fb_B f \<le> a' * fb_B f" by (intro mult_le_mono1) simp
      then show ?thesis using b by (simp add: pixel_off_def)
    qed
  qed
  have "y < y' \<or> y = y' \<and> x < x' \<or> (y' < y \<or> y' = y \<and> x' < x)" using assms(4) by auto
  then show ?thesis using lin assms(2,3) by blast
qed

lemma unat_fb_addr:
  assumes "frame_ok f" and "n < fb_P f * fb_H f"
  shows "unat (g_fb f + of_nat n) = unat (g_fb f) + n"
  using assms(2) frame_fits_bounds(4) [OF assms(1)] by (intro unat_offset)

lemma fb_addr_eq:
  assumes "frame_ok f" and "n < fb_P f * fb_H f" and "k < fb_P f * fb_H f"
  shows "g_fb f + of_nat n = g_fb f + of_nat k \<longleftrightarrow> n = k"
  using unat_fb_addr [OF assms(1,2)] unat_fb_addr [OF assms(1,3)] by (metis add_left_cancel)

section \<open>Painting sets of pixels\<close>

text \<open>Everything but the memory stays, no byte outside the frame changes, and the pixels of \<open>S\<close> take a colour.\<close>

definition outside :: "fbcon \<Rightarrow> u32 \<Rightarrow> bool" where
  "outside f a \<longleftrightarrow> unat a < unat (g_fb f) \<or> unat (g_fb f) + fb_P f * fb_H f \<le> unat a"

definition paints :: "(nat \<times> nat) set \<Rightarrow> u8 \<times> u8 \<times> u8 \<Rightarrow> fbcon \<Rightarrow> fbcon \<Rightarrow> bool" where
  "paints S col f f' \<longleftrightarrow>
     (\<exists>m. f' = f\<lparr>fb_mem := m\<rparr>) \<and> (\<forall>a. outside f a \<longrightarrow> fb_mem f' a = fb_mem f a) \<and>
     (\<forall>x y. x < fb_W f \<longrightarrow> y < fb_H f \<longrightarrow> pixel f' x y = (if (x, y) \<in> S then col else pixel f x y))"

lemma paints_refl: "paints {} col f f"
  by (auto simp: paints_def intro: exI [of _ "fb_mem f"])

lemma paints_geometry:
  assumes "paints S col f f'"
  shows "g_fb f' = g_fb f" "g_width f' = g_width f" "g_height f' = g_height f" "g_pitch f' = g_pitch f" "g_bpp f' = g_bpp f"
    "g_cols f' = g_cols f" "g_rows f' = g_rows f" "g_cursor_x f' = g_cursor_x f" "g_cursor_y f' = g_cursor_y f"
    "g_font_w f' = g_font_w f" "g_font_h f' = g_font_h f" "g_cells f' = g_cells f" "g_track_cells f' = g_track_cells f"
  using assms by (auto simp: paints_def)

lemma paints_ok: "paints S col f f' \<Longrightarrow> frame_ok f' = frame_ok f"
  by (simp add: frame_ok_def paints_geometry)

lemma paints_outside: "paints S col f f' \<Longrightarrow> outside f' a = outside f a"
  by (simp add: outside_def paints_geometry)

lemma paints_trans:
  assumes "paints S col f g" and "paints T col g h"
  shows "paints (S \<union> T) col f h"
proof -
  have "\<exists>m. h = f\<lparr>fb_mem := m\<rparr>" using assms by (auto simp: paints_def)
  moreover have "\<forall>a. outside f a \<longrightarrow> fb_mem h a = fb_mem f a"
    using assms paints_outside [OF assms(1)] by (simp add: paints_def)
  moreover have "pixel h x y = (if (x, y) \<in> S \<union> T then col else pixel f x y)" if "x < fb_W f" "y < fb_H f" for x y
  proof -
    have "pixel g x y = (if (x, y) \<in> S then col else pixel f x y)"
      using assms(1) that by (simp add: paints_def)
    moreover have "pixel h x y = (if (x, y) \<in> T then col else pixel g x y)"
      using assms(2) that by (simp add: paints_def paints_geometry [OF assms(1)])
    ultimately show ?thesis by simp
  qed
  ultimately show ?thesis unfolding paints_def by blast
qed

lemma paints_fold:
  assumes "\<And>x f. x \<in> set xs \<Longrightarrow> frame_ok f \<Longrightarrow> paints (S x) col f (step x f)" and "frame_ok f"
  shows "paints (\<Union>x\<in>set xs. S x) col f (fold step xs f)"
  using assms
proof (induction xs arbitrary: f)
  case Nil
  then show ?case by (simp add: paints_refl)
next
  case (Cons x xs)
  have one: "paints (S x) col f (step x f)" using Cons.prems by simp
  have "paints (\<Union>x\<in>set xs. S x) col (step x f) (fold step xs (step x f))"
    using Cons.prems paints_ok [OF one] by (intro Cons.IH) simp_all
  from paints_trans [OF one this] show ?case by simp
qed

lemma paints_cong: "paints S col f f' \<Longrightarrow> (\<And>x y. x < fb_W f \<Longrightarrow> y < fb_H f \<Longrightarrow> (x, y) \<in> S \<longleftrightarrow> (x, y) \<in> T) \<Longrightarrow> paints T col f f'"
  unfolding paints_def by simp

section \<open>Plotting\<close>

lemma plot_addr: "of_nat (pixel_off f (unat x) (unat y)) = y * g_pitch f + x * (g_bpp f div 8)"
proof -
  have "fb_B f = unat (g_bpp f div 8)" by (simp add: unat_div)
  then show ?thesis by (simp add: pixel_off_def)
qed

text \<open>Bytes written from an offset on.\<close>

lemma fbyte_written:
  assumes "frame_ok f" and "length bs \<le> 4" and "k + length bs \<le> fb_P f * fb_H f" and "n < fb_P f * fb_H f"
    and "m = fold (\<lambda>i m. m(g_fb f + of_nat (k + i) := bs ! i)) [0..<length bs] (fb_mem f)"
  shows "m (g_fb f + of_nat n) = (if k \<le> n \<and> n < k + length bs then bs ! (n - k) else fbyte f n)"
proof -
  have step: "j \<le> length bs \<Longrightarrow> fold (\<lambda>i m. m(g_fb f + of_nat (k + i) := bs ! i)) [0..<j] (fb_mem f) (g_fb f + of_nat n) =
    (if k \<le> n \<and> n < k + j then bs ! (n - k) else fbyte f n)" for j
  proof (induction j)
    case 0
    have "\<not> (k \<le> n \<and> n < k + 0)" by simp
    then show ?case by (auto simp: fbyte_def)
  next
    case (Suc j)
    have "g_fb f + of_nat n = g_fb f + of_nat (k + j) \<longleftrightarrow> n = k + j"
      using Suc.prems assms(3,4) by (intro fb_addr_eq [OF assms(1)]) simp_all
    then show ?case using Suc by auto
  qed
  show ?thesis unfolding assms(5) using step [of "length bs"] by simp
qed

lemma upt_3_4: "[0..<3] = [0, 1, 2]" "[0..<4] = [0, 1, 2, 3 :: nat]"
  by (simp_all add: upt_rec)

lemma fb_plot_bytes:
  assumes "frame_ok f" and "unat x < fb_W f" and "unat y < fb_H f"
  shows "\<exists>bs. fb_plot x y rgb f =
      f\<lparr>fb_mem := fold (\<lambda>i m. m(g_fb f + of_nat (pixel_off f (unat x) (unat y) + i) := bs ! i)) [0..<length bs] (fb_mem f)\<rparr> \<and>
    length bs = fb_B f \<and> (bs ! 0, bs ! 1, bs ! 2) = colour rgb"
proof -
  let ?p = "g_fb f + of_nat (pixel_off f (unat x) (unat y))"
  let ?pix = "pack_color rgb"
  let ?a = "ucast (?pix AND 0xFF) :: u8" and ?b = "ucast (drop_bit 8 ?pix AND 0xFF) :: u8"
  let ?c = "ucast (drop_bit 16 ?pix AND 0xFF) :: u8"
  have in_frame: "\<not> (x \<ge> g_width f \<or> y \<ge> g_height f)" using assms(2,3) by (simp add: word_le_nat_alt not_le)
  have col: "colour rgb = (?a, ?b, ?c)" by (simp add: colour_def Let_def)
  have "g_bpp f = 24 \<or> g_bpp f = 32" using assms(1) by (auto simp: frame_ok_def frame_fits_def)
  then show ?thesis
  proof
    assume bpp: "g_bpp f = 24"
    show ?thesis
      using in_frame col
      by (intro exI [of _ "[?a, ?b, ?c]"]) (simp add: fb_plot_def plot_addr Let_def bpp upt_3_4 add.assoc)
  next
    assume bpp: "g_bpp f = 32"
    show ?thesis
      using in_frame col
      by (intro exI [of _ "[?a, ?b, ?c, 0]"]) (simp add: fb_plot_def plot_addr Let_def bpp upt_3_4 add.assoc)
  qed
qed

lemma fold_outside:
  assumes "frame_ok f" and "k + n \<le> fb_P f * fb_H f" and "outside f a"
  shows "fold (\<lambda>i m. m(g_fb f + of_nat (k + i) := bs i)) [0..<n] m a = m a"
  using assms(2)
proof (induction n)
  case (Suc n)
  have "unat (g_fb f + of_nat (k + n)) = unat (g_fb f) + (k + n)" using Suc.prems by (intro unat_fb_addr [OF assms(1)]) simp
  then have "a \<noteq> g_fb f + of_nat (k + n)" using assms(3) Suc.prems by (auto simp: outside_def)
  then show ?case using Suc by simp
qed simp

lemma fb_plot_paints:
  assumes ok: "frame_ok f"
  shows "paints {(unat x, unat y)} (colour rgb) f (fb_plot x y rgb f)"
proof (cases "unat x < fb_W f \<and> unat y < fb_H f")
  case False
  then have eq: "fb_plot x y rgb f = f" by (auto simp: fb_plot_def word_le_nat_alt not_less)
  have "paints {(unat x, unat y)} (colour rgb) f f"
    using False by (intro paints_cong [OF paints_refl]) auto
  then show ?thesis by (simp only: eq)
next
  case True
  let ?o = "pixel_off f (unat x) (unat y)"
  obtain bs where f': "fb_plot x y rgb f =
      f\<lparr>fb_mem := fold (\<lambda>i m. m(g_fb f + of_nat (?o + i) := bs ! i)) [0..<length bs] (fb_mem f)\<rparr>"
    and len: "length bs = fb_B f" and col: "(bs ! 0, bs ! 1, bs ! 2) = colour rgb"
    using fb_plot_bytes [OF ok] True by blast
  have room: "?o + length bs \<le> fb_P f * fb_H f" using pixel_inside [OF ok] True len by simp
  have b3: "3 \<le> fb_B f" and b4: "length bs \<le> 4"
    using ok len by (auto simp: frame_ok_def frame_fits_def)
  have byte: "fbyte (fb_plot x y rgb f) n = (if ?o \<le> n \<and> n < ?o + fb_B f then bs ! (n - ?o) else fbyte f n)"
    if "n < fb_P f * fb_H f" for n
    using fbyte_written [OF ok b4 room that refl] by (simp add: fbyte_def f' len)
  have "pixel (fb_plot x y rgb f) i j = (if (i, j) \<in> {(unat x, unat y)} then colour rgb else pixel f i j)"
    if ij: "i < fb_W f" "j < fb_H f" for i j
  proof -
    let ?k = "pixel_off f i j"
    have k: "?k + fb_B f \<le> fb_P f * fb_H f" using pixel_inside [OF ok ij] .
    have off: "pixel_off (fb_plot x y rgb f) a b = pixel_off f a b" for a b by (simp add: f' pixel_off_def)
    show ?thesis
    proof (cases "(i, j) = (unat x, unat y)")
      case True
      then show ?thesis using byte [of ?k] byte [of "?k + 1"] byte [of "?k + 2"] k b3 col by (simp add: pixel_def off)
    next
      case False
      from pixel_apart [OF ok ij(1) _ False] True
      have "?k + fb_B f \<le> ?o \<or> ?o + fb_B f \<le> ?k" by simp
      then show ?thesis
        using byte [of ?k] byte [of "?k + 1"] byte [of "?k + 2"] k b3 False by (auto simp: pixel_def off)
    qed
  qed
  moreover have "fold (\<lambda>i m. m(g_fb f + of_nat (?o + i) := bs ! i)) [0..<length bs] (fb_mem f) a = fb_mem f a" if "outside f a" for a
    using that by (rule fold_outside [OF ok room])
  then have "\<forall>a. outside f a \<longrightarrow> fb_mem (fb_plot x y rgb f) a = fb_mem f a" by (simp add: f')
  ultimately show ?thesis unfolding paints_def using f' by blast
qed

lemma plot_where_paints:
  assumes ok: "frame_ok f" and "unat x0 + w \<le> 2 ^ 32" and "unat y0 + h \<le> 2 ^ 32"
  shows "paints {(unat x0 + x, unat y0 + y) | x y. x < w \<and> y < h \<and> P y x} (colour rgb) f (plot_where h w P rgb x0 y0 f)"
proof -
  let ?row = "\<lambda>y. fold (\<lambda>x f. if P y x then fb_plot (x0 + of_nat x) (y0 + of_nat y) rgb f else f) [0..<w]"
  let ?S = "\<lambda>y x. if P y x then {(unat x0 + x, unat y0 + y)} else {}"
  have one: "paints (?S y x) (colour rgb) g (if P y x then fb_plot (x0 + of_nat x) (y0 + of_nat y) rgb g else g)"
    if "x \<in> set [0..<w]" "y \<in> set [0..<h]" "frame_ok g" for x y g
  proof -
    have "unat (x0 + of_nat x) = unat x0 + x" "unat (y0 + of_nat y) = unat y0 + y"
      using that assms(2,3) by (auto intro: unat_offset)
    then show ?thesis using fb_plot_paints [OF that(3), of "x0 + of_nat x" "y0 + of_nat y" rgb] by (simp add: paints_refl)
  qed
  have "paints (\<Union>x\<in>set [0..<w]. ?S y x) (colour rgb) g (?row y g)" if "y \<in> set [0..<h]" "frame_ok g" for y g
    by (rule paints_fold [OF one [OF _ that(1)] that(2)])
  then have "paints (\<Union>y\<in>set [0..<h]. \<Union>x\<in>set [0..<w]. ?S y x) (colour rgb) f (plot_where h w P rgb x0 y0 f)"
    unfolding plot_where_def by (rule paints_fold [OF _ ok])
  then show ?thesis by (rule paints_cong) (auto split: if_splits)
qed

section \<open>Cells and the cursor\<close>

definition glyph_bit :: "nat \<Rightarrow> u8 \<Rightarrow> nat \<Rightarrow> nat \<Rightarrow> bool" where
  "glyph_bit w c x y =
     (if w = 8 then glyph8x16_row c y AND push_bit (7 - x) 1 \<noteq> 0 else glyph16x32_row c y AND push_bit (15 - x) 1 \<noteq> 0)"

definition cell_colour :: "nat \<Rightarrow> u8 \<Rightarrow> nat \<Rightarrow> nat \<Rightarrow> u8 \<times> u8 \<times> u8" where
  "cell_colour w c x y = (if glyph_bit w c x y then colour 0xE0E0E0 else (0, 0, 0))"

text \<open>Only the memory of the frame changes, and afterwards the pixels are those of \<open>p\<close>.\<close>

definition drawn :: "(nat \<Rightarrow> nat \<Rightarrow> u8 \<times> u8 \<times> u8) \<Rightarrow> fbcon \<Rightarrow> fbcon \<Rightarrow> bool" where
  "drawn p f f' \<longleftrightarrow>
     (\<exists>m. f' = f\<lparr>fb_mem := m\<rparr>) \<and> (\<forall>a. outside f a \<longrightarrow> fb_mem f' a = fb_mem f a) \<and>
     (\<forall>x y. x < fb_W f \<longrightarrow> y < fb_H f \<longrightarrow> pixel f' x y = p x y)"

lemma paints_drawn: "paints S col f f' \<longleftrightarrow> drawn (\<lambda>x y. if (x, y) \<in> S then col else pixel f x y) f f'"
  by (simp add: paints_def drawn_def)

lemma drawn_geometry:
  assumes "drawn p f f'"
  shows "g_fb f' = g_fb f" "g_width f' = g_width f" "g_height f' = g_height f" "g_pitch f' = g_pitch f" "g_bpp f' = g_bpp f"
    "g_cols f' = g_cols f" "g_rows f' = g_rows f" "g_cursor_x f' = g_cursor_x f" "g_cursor_y f' = g_cursor_y f"
    "g_font_w f' = g_font_w f" "g_font_h f' = g_font_h f" "g_cells f' = g_cells f" "g_track_cells f' = g_track_cells f"
  using assms by (auto simp: drawn_def)

lemma drawn_frame: "drawn p f f' \<Longrightarrow> frame_ok f' = frame_ok f" "drawn p f f' \<Longrightarrow> fb_inv f' = fb_inv f"
  "drawn p f f' \<Longrightarrow> outside f' a = outside f a"
  by (simp_all add: frame_ok_def fb_inv_def outside_def drawn_geometry)

lemma drawn_trans:
  assumes "drawn p f g" and "drawn q g h"
  shows "drawn q f h"
proof -
  have "\<exists>m. h = f\<lparr>fb_mem := m\<rparr>" using assms by (auto simp: drawn_def)
  moreover have "\<forall>a. outside f a \<longrightarrow> fb_mem h a = fb_mem f a"
    using assms drawn_frame(3) [OF assms(1)] by (simp add: drawn_def)
  ultimately show ?thesis using assms(2) by (simp add: drawn_def drawn_geometry [OF assms(1)])
qed

lemma drawn_cong: "drawn p f f' \<Longrightarrow> (\<And>x y. x < fb_W f \<Longrightarrow> y < fb_H f \<Longrightarrow> p x y = q x y) \<Longrightarrow> drawn q f f'"
  by (simp add: drawn_def)

lemma in_cell:
  fixes i j w h :: nat
  assumes "0 < w" and "0 < h"
  shows "(i, j) \<in> {(c * w + x, d * h + y) | x y. x < w \<and> y < h \<and> P y x} \<longleftrightarrow>
    i div w = c \<and> j div h = d \<and> P (j mod h) (i mod w)"
proof
  assume "i div w = c \<and> j div h = d \<and> P (j mod h) (i mod w)"
  moreover have "i = i div w * w + i mod w" "j = j div h * h + j mod h" by (simp_all only: div_mult_mod_eq)
  moreover have "i mod w < w" "j mod h < h" using assms by simp_all
  ultimately show "(i, j) \<in> {(c * w + x, d * h + y) | x y. x < w \<and> y < h \<and> P y x}" by blast
qed (use assms in auto)

text \<open>The origin of a cell, and the end of the cell, in the arithmetic of the code.\<close>

lemma cell_origin:
  assumes "frame_ok f" and "unat cx < fb_C f" and "unat cy < fb_R f"
  shows "unat (cx * g_font_w f) = unat cx * cell_w f" "unat (cy * g_font_h f) = unat cy * cell_h f"
    "unat cx * cell_w f + cell_w f < 2 ^ 32" "unat cy * cell_h f + cell_h f < 2 ^ 32"
proof -
  have b: "fb_C f \<le> 512" "fb_R f \<le> 256" using assms(1) by (auto simp: frame_ok_def)
  have "unat cx * cell_w f \<le> 512 * 16" "unat cy * cell_h f \<le> 256 * 32"
    using frame_cells(7,8) [OF assms(1)] assms(2,3) b by (intro mult_le_mono; simp)+
  then show "unat (cx * g_font_w f) = unat cx * cell_w f" "unat (cy * g_font_h f) = unat cy * cell_h f"
    "unat cx * cell_w f + cell_w f < 2 ^ 32" "unat cy * cell_h f + cell_h f < 2 ^ 32"
    using frame_cells(7,8) [OF assms(1)] by (simp_all add: unat_word_ariths)
qed

lemma draw_cell_drawn:
  assumes ok: "frame_ok f" and c: "unat cx < fb_C f" "unat cy < fb_R f"
  shows "drawn (\<lambda>x y. if x div cell_w f = unat cx \<and> y div cell_h f = unat cy
                      then cell_colour (cell_w f) c (x mod cell_w f) (y mod cell_h f) else pixel f x y)
    f (draw_cell c cx cy f)"
proof -
  let ?x0 = "cx * g_font_w f" and ?y0 = "cy * g_font_h f"
  note o = cell_origin [OF ok c]
  have room: "unat ?x0 + cell_w f \<le> 2 ^ 32" "unat ?y0 + cell_h f \<le> 2 ^ 32" using o by simp_all
  define g where "g = plot_where (cell_h f) (cell_w f) (\<lambda>y x. True) 0 ?x0 ?y0 f"
  have "paints {(unat ?x0 + x, unat ?y0 + y) | x y. x < cell_w f \<and> y < cell_h f \<and> True} (colour 0) f g"
    unfolding g_def by (rule plot_where_paints [OF ok room])
  then have fill: "drawn (\<lambda>x y. if x div cell_w f = unat cx \<and> y div cell_h f = unat cy then (0, 0, 0) else pixel f x y) f g"
    unfolding paints_drawn o(1,2) using in_cell [OF frame_cells(1,2) [OF ok], of _ _ _ _ "\<lambda>y x. True"]
    by (auto elim!: drawn_cong)
  have okg: "frame_ok g" using ok drawn_frame(1) [OF fill] by simp
  let ?bit = "\<lambda>y x. glyph_bit (cell_w f) c x y"
  have h: "draw_cell c cx cy f = plot_where (cell_h f) (cell_w f) ?bit 0xE0E0E0 ?x0 ?y0 g"
  proof -
    have "\<not> (cx \<ge> g_cols f \<or> cy \<ge> g_rows f)" using c by (simp add: word_le_nat_alt not_le)
    then have "draw_cell c cx cy f =
        (if g_font_w g = 8 \<and> g_font_h g = 16
         then plot_where 16 8 (\<lambda>y x. glyph8x16_row c y AND push_bit (7 - x) 1 \<noteq> 0) 0xE0E0E0 ?x0 ?y0 g
         else plot_where 32 16 (\<lambda>y x. glyph16x32_row c y AND push_bit (15 - x) 1 \<noteq> 0) 0xE0E0E0 ?x0 ?y0 g)"
      unfolding draw_cell_def Let_def g_def by (simp only: if_False)
    moreover have "g_font_w f = 8 \<and> g_font_h f = 16 \<or> g_font_w f = 16 \<and> g_font_h f = 32"
      using ok by (simp add: frame_ok_def)
    ultimately show ?thesis by (auto simp: drawn_geometry [OF fill] glyph_bit_def)
  qed
  have "paints {(unat ?x0 + x, unat ?y0 + y) | x y. x < cell_w f \<and> y < cell_h f \<and> ?bit y x} (colour 0xE0E0E0) g
      (draw_cell c cx cy f)"
    unfolding h by (rule plot_where_paints [OF okg room])
  then have "drawn (\<lambda>x y. if x div cell_w f = unat cx \<and> y div cell_h f = unat cy \<and> ?bit (y mod cell_h f) (x mod cell_w f)
      then colour 0xE0E0E0 else pixel g x y) g (draw_cell c cx cy f)"
    unfolding paints_drawn o(1,2) using in_cell [OF frame_cells(1,2) [OF ok], of _ _ _ _ ?bit]
    by (auto elim!: drawn_cong)
  from drawn_trans [OF fill this] show ?thesis
    by (rule drawn_cong) (use fill in \<open>auto simp: drawn_def cell_colour_def\<close>)
qed

definition in_bar :: "fbcon \<Rightarrow> nat \<Rightarrow> nat \<Rightarrow> bool" where
  "in_bar f x y \<longleftrightarrow> x div cell_w f = fb_X f \<and> y div cell_h f = fb_Y f \<and> cell_h f - cell_h f div 8 \<le> y mod cell_h f"

lemma between_cell: "0 < w \<Longrightarrow> d \<le> w \<Longrightarrow> c * w + d \<le> i \<and> i < c * w + w \<longleftrightarrow> i div w = c \<and> d \<le> i mod w" for i :: nat
proof
  assume w: "0 < w" and "d \<le> w" and i: "c * w + d \<le> i \<and> i < c * w + w"
  then have "i = c * w + (i - c * w)" "i - c * w < w" by linarith+
  then have "i div w = c" "i mod w = i - c * w" using w by (metis div_mult_self3 div_less add.right_neutral less_not_refl2, metis mod_mult_self3 mod_less)
  then show "i div w = c \<and> d \<le> i mod w" using i by linarith
next
  assume w: "0 < w" and i: "i div w = c \<and> d \<le> i mod w"
  then show "c * w + d \<le> i \<and> i < c * w + w"
    using mod_less_divisor [OF w, of i] div_mult_mod_eq [of i w] by (metis add_le_cancel_left nat_add_left_cancel_less)
qed

lemma draw_cursor_drawn:
  assumes inv: "fb_inv f"
  shows "drawn (\<lambda>x y. if in_bar f x y then colour 0x50A0FF else pixel f x y) f (draw_cursor f)"
proof -
  note ok = fb_invD(1) [OF inv]
  note o = cell_origin [OF ok fb_invD(2,3) [OF inv]]
  let ?x0 = "g_cursor_x f * g_font_w f" and ?y1 = "g_cursor_y f * g_font_h f"
  have b: "g_font_h f div 8 \<le> g_font_h f" "unat (g_font_h f div 8) = cell_h f div 8"
    by (simp_all add: word_le_nat_alt unat_div)
  have bar: "unat (g_font_h f - g_font_h f div 8) = cell_h f - cell_h f div 8"
    using b by (simp add: unat_sub)
  have xs: "unat ?x0 = fb_X f * cell_w f" "unat (?x0 + g_font_w f) = fb_X f * cell_w f + cell_w f"
    using o by (simp_all add: unat_plus_nowrap)
  have ys: "unat (?y1 + (g_font_h f - g_font_h f div 8)) = fb_Y f * cell_h f + (cell_h f - cell_h f div 8)"
    "unat (?y1 + g_font_h f) = fb_Y f * cell_h f + cell_h f"
    using o bar by (simp_all add: unat_plus_nowrap)
  let ?xs = "[fb_X f * cell_w f..<fb_X f * cell_w f + cell_w f]"
  let ?ys = "[fb_Y f * cell_h f + (cell_h f - cell_h f div 8)..<fb_Y f * cell_h f + cell_h f]"
  have "\<not> (g_fb f = 0 \<or> g_cursor_x f \<ge> g_cols f \<or> g_cursor_y f \<ge> g_rows f)"
    using fb_invD(2,3) [OF inv] frame_fits_bounds(1) [OF ok] by (simp add: word_le_nat_alt not_le)
  then have d: "draw_cursor f = fold (\<lambda>y. fold (\<lambda>x. fb_plot (of_nat x) (of_nat y) 0x50A0FF) ?xs) ?ys f"
    by (simp add: draw_cursor_def Let_def xs ys)
  have one: "paints {(x, y)} (colour 0x50A0FF) g (fb_plot (of_nat x) (of_nat y) 0x50A0FF g)"
    if "x \<in> set ?xs" "y \<in> set ?ys" "frame_ok g" for x y g
  proof -
    have "x < 2 ^ 32" "y < 2 ^ 32" using that(1,2) o(3,4) by simp_all
    then show ?thesis using fb_plot_paints [OF that(3), of "of_nat x" "of_nat y" "0x50A0FF"] by (simp add: unat_of_nat)
  qed
  have "paints (\<Union>x\<in>set ?xs. {(x, y)}) (colour 0x50A0FF) g (fold (\<lambda>x. fb_plot (of_nat x) (of_nat y) 0x50A0FF) ?xs g)"
    if "y \<in> set ?ys" "frame_ok g" for y g
    by (rule paints_fold [OF one [OF _ that(1)] that(2)])
  then have p: "paints (\<Union>y\<in>set ?ys. \<Union>x\<in>set ?xs. {(x, y)}) (colour 0x50A0FF) f (draw_cursor f)"
    unfolding d by (rule paints_fold [OF _ ok])
  have "(x, y) \<in> (\<Union>y\<in>set ?ys. \<Union>x\<in>set ?xs. {(x, y)}) \<longleftrightarrow> in_bar f x y" for x y
    using between_cell [OF frame_cells(1) [OF ok], of 0 "fb_X f" x]
      between_cell [OF frame_cells(2) [OF ok], of "cell_h f - cell_h f div 8" "fb_Y f" y]
    by (auto simp: in_bar_def)
  then show ?thesis using p unfolding paints_drawn by (auto elim!: drawn_cong)
qed

section \<open>What the display shows\<close>

definition fb_cell :: "fbcon \<Rightarrow> nat \<Rightarrow> nat \<Rightarrow> u8" where
  "fb_cell f cx cy = g_cells f ! (cy * fb_C f + cx)"

text \<open>The picture of the cells, black beside the grid, without and with the cursor.\<close>

definition picture :: "fbcon \<Rightarrow> nat \<Rightarrow> nat \<Rightarrow> u8 \<times> u8 \<times> u8" where
  "picture f x y =
     (if x < fb_C f * cell_w f \<and> y < fb_R f * cell_h f
      then cell_colour (cell_w f) (fb_cell f (x div cell_w f) (y div cell_h f)) (x mod cell_w f) (y mod cell_h f)
      else (0, 0, 0))"

definition shows_cells :: "fbcon \<Rightarrow> bool" where
  "shows_cells f \<longleftrightarrow> (\<forall>x y. x < fb_W f \<longrightarrow> y < fb_H f \<longrightarrow> pixel f x y = picture f x y)"

definition displays :: "fbcon \<Rightarrow> bool" where
  "displays f \<longleftrightarrow>
     (\<forall>x y. x < fb_W f \<longrightarrow> y < fb_H f \<longrightarrow> pixel f x y = (if in_bar f x y then colour 0x50A0FF else picture f x y))"

text \<open>The same frame, with no byte outside it changed.\<close>

definition same_frame_as :: "fbcon \<Rightarrow> fbcon \<Rightarrow> bool" where
  "same_frame_as f f' \<longleftrightarrow>
     g_fb f' = g_fb f \<and> g_width f' = g_width f \<and> g_height f' = g_height f \<and> g_pitch f' = g_pitch f \<and> g_bpp f' = g_bpp f \<and>
     g_cols f' = g_cols f \<and> g_rows f' = g_rows f \<and> g_font_w f' = g_font_w f \<and> g_font_h f' = g_font_h f \<and>
     g_track_cells f' = g_track_cells f \<and> length (g_cells f') = length (g_cells f) \<and>
     (\<forall>a. outside f a \<longrightarrow> fb_mem f' a = fb_mem f a)"

lemma same_frame_as_refl [simp]: "same_frame_as f f"
  by (simp add: same_frame_as_def)

lemma same_frame_as_trans: "same_frame_as f g \<Longrightarrow> same_frame_as g h \<Longrightarrow> same_frame_as f h"
  by (auto simp: same_frame_as_def outside_def)

lemma same_frame_as_ok: "same_frame_as f f' \<Longrightarrow> frame_ok f' = frame_ok f"
  by (auto simp: same_frame_as_def frame_ok_def)

lemma drawn_same_frame: "drawn p f f' \<Longrightarrow> same_frame_as f f'"
  using drawn_geometry [of p f f'] by (auto simp: same_frame_as_def drawn_def)

lemma drawn_picture: "drawn p f f' \<Longrightarrow> picture f' = picture f" "drawn p f f' \<Longrightarrow> in_bar f' = in_bar f"
  "drawn p f f' \<Longrightarrow> fb_cell f' = fb_cell f"
  by (auto simp: picture_def in_bar_def fb_cell_def drawn_geometry fun_eq_iff)

lemma draw_cursor_shows:
  assumes "fb_inv f" and "shows_cells f \<or> displays f"
  shows "displays (draw_cursor f)" "same_frame_as f (draw_cursor f)" "fb_inv (draw_cursor f)"
    "g_cells (draw_cursor f) = g_cells f" "g_cursor_x (draw_cursor f) = g_cursor_x f" "g_cursor_y (draw_cursor f) = g_cursor_y f"
proof -
  note d = draw_cursor_drawn [OF assms(1)]
  show "displays (draw_cursor f)"
    using assms(2) d unfolding displays_def shows_cells_def drawn_picture [OF d] drawn_geometry [OF d]
    by (auto simp: drawn_def)
  show "same_frame_as f (draw_cursor f)" by (rule drawn_same_frame [OF d])
  show "fb_inv (draw_cursor f)" using assms(1) drawn_frame(2) [OF d] by simp
  show "g_cells (draw_cursor f) = g_cells f" "g_cursor_x (draw_cursor f) = g_cursor_x f" "g_cursor_y (draw_cursor f) = g_cursor_y f"
    by (rule drawn_geometry [OF d])+
qed

text \<open>The index of a cell in the array.\<close>

lemma cell_index:
  assumes "frame_ok f" and "unat cx < fb_C f" and "unat cy < fb_R f"
  shows "unat (cy * g_cols f + cx) = unat cy * fb_C f + unat cx" "unat cy * fb_C f + unat cx < length (g_cells f)"
proof -
  have "Suc (unat cy) * fb_C f \<le> fb_R f * fb_C f" using assms(3) by (intro mult_le_mono1) simp
  then have lt: "unat cy * fb_C f + unat cx < 131072" using assms(2) frame_cells(6) [OF assms(1)] by simp
  then show "unat (cy * g_cols f + cx) = unat cy * fb_C f + unat cx" by (simp add: unat_word_ariths)
  show "unat cy * fb_C f + unat cx < length (g_cells f)" using lt assms(1) by (simp add: frame_ok_def)
qed

lemma cell_index_inj: "x < c \<Longrightarrow> x' < c \<Longrightarrow> y * c + x = y' * c + x' \<Longrightarrow> x = x' \<and> y = y'" for c :: nat
  by (metis add.commute div_less div_mult_self3 less_nat_zero_code mod_less mod_mult_self3 add.right_neutral)

lemma erase_cursor_shows:
  assumes inv: "fb_inv f" and "displays f"
  shows "\<exists>g. erase_cursor f = Ok g \<and> shows_cells g \<and> same_frame_as f g \<and> fb_inv g \<and> g_cells g = g_cells f \<and>
    g_cursor_x g = g_cursor_x f \<and> g_cursor_y g = g_cursor_y f"
proof -
  note ok = fb_invD(1) [OF inv] and xy = fb_invD(2,3) [OF inv]
  let ?c = "fb_cell f (fb_X f) (fb_Y f)"
  let ?g = "draw_cell ?c (g_cursor_x f) (g_cursor_y f) f"
  have "\<not> (\<not> g_track_cells f \<or> g_cursor_x f \<ge> g_cols f \<or> g_cursor_y f \<ge> g_rows f)"
    using xy ok by (simp add: word_le_nat_alt not_le frame_ok_def)
  then have "cell_get (g_cursor_x f) (g_cursor_y f) f = Ok ?c"
    using cell_index [OF ok xy] by (simp add: cell_get_def Let_def fb_cell_def)
  then have e: "erase_cursor f = Ok ?g" by (simp add: erase_cursor_def)
  note d = draw_cell_drawn [OF ok xy, of ?c]
  have "pixel ?g x y = picture ?g x y" if xy': "x < fb_W f" "y < fb_H f" for x y
  proof -
    have p: "pixel ?g x y = (if x div cell_w f = fb_X f \<and> y div cell_h f = fb_Y f
        then cell_colour (cell_w f) ?c (x mod cell_w f) (y mod cell_h f) else pixel f x y)"
      using d xy' by (simp add: drawn_def)
    show ?thesis
    proof (cases "x div cell_w f = fb_X f \<and> y div cell_h f = fb_Y f")
      case True
      then have "x div cell_w f < fb_C f" "y div cell_h f < fb_R f" using xy by simp_all
      then have "x < fb_C f * cell_w f" "y < fb_R f * cell_h f"
        using frame_cells(1,2) [OF ok] by (simp_all add: div_less_iff_less_mult)
      then show ?thesis using True p unfolding drawn_picture [OF d] by (simp add: picture_def)
    next
      case False
      then have "\<not> in_bar f x y" by (auto simp: in_bar_def)
      then show ?thesis using p False assms(2) xy' unfolding drawn_picture [OF d] by (simp add: displays_def)
    qed
  qed
  then have "shows_cells ?g" by (simp add: shows_cells_def drawn_geometry [OF d])
  then show ?thesis using e drawn_same_frame [OF d] drawn_frame(2) [OF d] inv drawn_geometry [OF d] by simp
qed

text \<open>A character written into a cell.\<close>

lemma write_cell_shows:
  assumes inv: "fb_inv f" and sh: "shows_cells f"
  shows "\<exists>g. cell_set (g_cursor_x f) (g_cursor_y f) c (draw_cell c (g_cursor_x f) (g_cursor_y f) f) = Ok g \<and>
    shows_cells g \<and> same_frame_as f g \<and> fb_inv g \<and> g_cells g = (g_cells f)[fb_Y f * fb_C f + fb_X f := c] \<and>
    g_cursor_x g = g_cursor_x f \<and> g_cursor_y g = g_cursor_y f"
proof -
  note ok = fb_invD(1) [OF inv] and xy = fb_invD(2,3) [OF inv]
  let ?h = "draw_cell c (g_cursor_x f) (g_cursor_y f) f"
  let ?i = "fb_Y f * fb_C f + fb_X f"
  note d = draw_cell_drawn [OF ok xy, of c]
  define g where "g = ?h\<lparr>g_cells := (g_cells f)[?i := c]\<rparr>"
  have "\<not> (\<not> g_track_cells f \<or> g_cursor_x f \<ge> g_cols f \<or> g_cursor_y f \<ge> g_rows f)"
    using xy ok by (simp add: word_le_nat_alt not_le frame_ok_def)
  then have s: "cell_set (g_cursor_x f) (g_cursor_y f) c ?h = Ok g"
    using cell_index [OF ok xy] by (simp add: cell_set_def Let_def drawn_geometry [OF d] g_def)
  have geo: "g_fb g = g_fb f" "g_width g = g_width f" "g_height g = g_height f" "g_pitch g = g_pitch f" "g_bpp g = g_bpp f"
    "g_cols g = g_cols f" "g_rows g = g_rows f" "g_cursor_x g = g_cursor_x f" "g_cursor_y g = g_cursor_y f"
    "g_font_w g = g_font_w f" "g_font_h g = g_font_h f" "g_track_cells g = g_track_cells f"
    by (simp_all add: g_def drawn_geometry [OF d])
  have same: "same_frame_as f g"
    using drawn_same_frame [OF d] by (simp add: same_frame_as_def g_def)
  have "pixel g x y = picture g x y" if xy': "x < fb_W f" "y < fb_H f" for x y
  proof -
    let ?cx = "x div cell_w f" and ?cy = "y div cell_h f"
    have "pixel g x y = pixel ?h x y" by (simp add: g_def pixel_def fbyte_def pixel_off_def)
    then have p: "pixel g x y = (if ?cx = fb_X f \<and> ?cy = fb_Y f
        then cell_colour (cell_w f) c (x mod cell_w f) (y mod cell_h f) else pixel f x y)"
      using d xy' by (simp add: drawn_def)
    have grid: "x < fb_C f * cell_w f \<and> y < fb_R f * cell_h f \<longleftrightarrow> ?cx < fb_C f \<and> ?cy < fb_R f"
      using frame_cells(1,2) [OF ok] by (simp add: div_less_iff_less_mult)
    have cell: "fb_cell g ?cx ?cy = (if ?cx = fb_X f \<and> ?cy = fb_Y f then c else fb_cell f ?cx ?cy)"
      if "?cx < fb_C f"
    proof (cases "?cx = fb_X f \<and> ?cy = fb_Y f")
      case True
      then show ?thesis using cell_index(2) [OF ok xy] by (simp add: fb_cell_def geo) (simp add: g_def)
    next
      case False
      then have "?cy * fb_C f + ?cx \<noteq> ?i" using cell_index_inj [OF that xy(1)] by blast
      then show ?thesis using False by (auto simp: fb_cell_def geo) (simp_all add: g_def)
    qed
    have "pixel f x y = picture f x y" using sh xy' by (simp add: shows_cells_def)
    then show ?thesis
      using p cell xy unfolding picture_def geo grid by auto
  qed
  then have "shows_cells g" by (simp add: shows_cells_def geo)
  moreover have "fb_inv g" using inv same_frame_as_ok [OF same] by (simp add: fb_inv_def geo)
  ultimately show ?thesis using s same geo by (simp add: g_def)
qed

section \<open>Scrolling\<close>

lemma scroll_bytes:
  assumes ok: "frame_ok f"
  defines "m \<equiv> memset (g_fb f + g_pitch f * (g_height f - g_font_h f)) 0 (unat (g_pitch f * g_font_h f))
      (memmove (g_fb f) (g_fb f + g_pitch f * g_font_h f) (unat (g_pitch f * (g_height f - g_font_h f))) (fb_mem f))"
  shows "n < fb_P f * fb_H f \<Longrightarrow>
      m (g_fb f + of_nat n) = (if n < fb_P f * (fb_H f - cell_h f) then fbyte f (n + fb_P f * cell_h f) else 0)"
    and "outside f a \<Longrightarrow> m a = fb_mem f a"
proof -
  let ?mv = "fb_P f * (fb_H f - cell_h f)" and ?row = "fb_P f * cell_h f"
  note base = frame_fits_bounds(4,5) [OF ok]
  have h: "cell_h f < fb_H f" by (rule frame_cells(9) [OF ok])
  have sum: "?mv + ?row = fb_P f * fb_H f"
  proof -
    have "?mv + ?row = fb_P f * (fb_H f - cell_h f + cell_h f)" by (simp only: add_mult_distrib2)
    then show ?thesis using h by simp
  qed
  then have le: "?mv \<le> fb_P f * fb_H f" "?row \<le> fb_P f * fb_H f" by linarith+
  have sub: "unat (g_height f - g_font_h f) = fb_H f - cell_h f" using h by (simp add: unat_sub word_le_nat_alt)
  have "?row < 2 ^ 32" "?mv < 2 ^ 32" using le base(2) by linarith+
  then have w: "unat (g_pitch f * g_font_h f) = ?row" "unat (g_pitch f * (g_height f - g_font_h f)) = ?mv"
    by (simp_all add: unat_word_ariths sub)
  have h0: "0 < fb_H f - cell_h f" "0 < cell_h f" using h frame_cells(2) [OF ok] by simp_all
  have P0: "0 < fb_P f"
  proof -
    have "1 \<le> fb_W f" using frame_cells(1,3) [OF ok] ok by (auto simp: frame_ok_def intro: order.trans [rotated])
    then have "1 * 3 \<le> fb_W f * fb_B f" using frame_fits_bounds(2) [OF ok] by (rule mult_le_mono)
    then show ?thesis using frame_fits_bounds(3) [OF ok] by linarith
  qed
  then have pos: "0 < ?mv" "0 < ?row" using h0 by simp_all
  have wo: "g_pitch f * g_font_h f = of_nat ?row" "g_pitch f * (g_height f - g_font_h f) = of_nat ?mv"
    by (simp_all only: w [symmetric] of_nat_unat ucast_id)
  have "?row < fb_P f * fb_H f" "?mv < fb_P f * fb_H f" using sum pos by linarith+
  note srcb = unat_fb_addr [OF ok this(1)] and dstb = unat_fb_addr [OF ok this(2)]
  let ?m1 = "memmove (g_fb f) (g_fb f + of_nat ?row) ?mv (fb_mem f)"
  have b1: "unat (g_fb f) + ?mv \<le> 2 ^ 32" using base(1) le by linarith
  have b2: "unat (g_fb f + of_nat ?row) + ?mv \<le> 2 ^ 32" using base(1) srcb sum by linarith
  note mv = memmove_correct [OF b1 b2, of "fb_mem f"]
  have m: "m = memset (g_fb f + of_nat ?mv) 0 ?row ?m1" unfolding m_def w unfolding wo ..
  have b3: "unat (g_fb f + of_nat ?mv) + ?row \<le> 2 ^ 32" using base(1) dstb sum by linarith
  note ms = memset_bytes [OF b3, of 0 ?m1]
  show "m (g_fb f + of_nat n) = (if n < ?mv then fbyte f (n + ?row) else 0)" if n: "n < fb_P f * fb_H f"
  proof -
    have a: "unat (g_fb f + of_nat n) = unat (g_fb f) + n" by (rule unat_fb_addr [OF ok n])
    show ?thesis
    proof (cases "n < ?mv")
      case True
      then have "m (g_fb f + of_nat n) = ?m1 (g_fb f + of_nat n)" unfolding m ms a dstb by simp
      also have "\<dots> = fb_mem f (g_fb f + of_nat ?row + of_nat n)" using mv True by blast
      finally show ?thesis using True by (simp add: fbyte_def algebra_simps)
    next
      case False
      then show ?thesis using n sum unfolding m ms a dstb by simp
    qed
  qed
  show "m a = fb_mem f a" if o: "outside f a"
  proof -
    have "unat a < unat (g_fb f) \<or> unat (g_fb f) + ?mv \<le> unat a" using o le unfolding outside_def by linarith
    then have "?m1 a = fb_mem f a" using mv by blast
    then show ?thesis using o sum unfolding m ms dstb by (auto simp: outside_def)
  qed
qed

lemma glyph_blank [simp]: "glyph_bit w 32 x y = False"
proof -
  have "glyph8x16_row 32 r = 0" for r by (simp add: glyph8x16_row_def glyph5x7_row_def Let_def)
  moreover have "fold (\<lambda>x b. b) xs b = b" for xs :: "nat list" and b :: u16 by (induction xs) simp_all
  ultimately show ?thesis by (simp add: glyph_bit_def glyph16x32_row_def)
qed

text \<open>The cells after a scroll.\<close>

definition cells_scrolled :: "nat \<Rightarrow> nat \<Rightarrow> u8 list \<Rightarrow> u8 list" where
  "cells_scrolled c r cells =
     blit (blit cells 0 (take ((r - 1) * c) (drop c cells))) ((r - 1) * c) (replicate c ch_space)"

lemma cells_scrolled_nth:
  assumes "2 \<le> r" and "r * c \<le> length cells" and "y < r" and "x < c"
  shows "cells_scrolled c r cells ! (y * c + x) = (if y + 1 < r then cells ! ((y + 1) * c + x) else ch_space)"
    "length (cells_scrolled c r cells) = length cells"
proof -
  let ?n = "(r - 1) * c"
  have n: "?n + c = r * c" using assms(1) by (simp add: diff_mult_distrib)
  let ?a = "take ?n (drop c cells)"
  have la: "length ?a = ?n" using n assms(2) by simp
  have l1: "length (blit cells 0 ?a) = length cells" using la n assms(2) by (intro length_blit) simp
  then show "length (cells_scrolled c r cells) = length cells"
    unfolding cells_scrolled_def using n assms(2) by (subst length_blit) simp_all
  have k: "y * c + x < r * c"
  proof -
    have "Suc y * c \<le> r * c" using assms(3) by (intro mult_le_mono1) simp
    then show ?thesis using assms(4) by simp
  qed
  have "cells_scrolled c r cells ! (y * c + x) =
      (if ?n \<le> y * c + x \<and> y * c + x < ?n + c then ch_space else blit cells 0 ?a ! (y * c + x))"
    unfolding cells_scrolled_def using k n assms(2) l1 by (subst nth_blit) auto
  moreover have "blit cells 0 ?a ! (y * c + x) = cells ! ((y + 1) * c + x)" if "y * c + x < ?n"
    using that k la n assms(2) by (subst nth_blit) (auto simp: algebra_simps)
  moreover have "y * c + x < ?n \<longleftrightarrow> y + 1 < r"
  proof
    assume "y + 1 < r"
    then have "Suc y * c \<le> ?n" by (intro mult_le_mono1) simp
    then show "y * c + x < ?n" using assms(4) by simp
  next
    assume lt: "y * c + x < ?n"
    then have "y * c < (r - 1) * c" by linarith
    then have "y < r - 1" by (simp only: mult_less_cancel2)
    then show "y + 1 < r" by simp
  qed
  ultimately show "cells_scrolled c r cells ! (y * c + x) = (if y + 1 < r then cells ! ((y + 1) * c + x) else ch_space)"
    using k n by (auto simp: not_less)
qed

lemma scroll_up_shows:
  assumes ok: "frame_ok f" and sh: "shows_cells f"
  shows "\<exists>g. scroll_up f = Ok g \<and> shows_cells g \<and> same_frame_as f g \<and>
    g_cells g = cells_scrolled (fb_C f) (fb_R f) (g_cells f) \<and> g_cursor_x g = g_cursor_x f \<and> g_cursor_y g = g_rows f - 1"
proof -
  have r2: "2 \<le> fb_R f" and len: "length (g_cells f) = 131072" and track: "g_track_cells f" using ok by (auto simp: frame_ok_def)
  note rc = frame_cells(6) [OF ok]
  let ?m = "memset (g_fb f + g_pitch f * (g_height f - g_font_h f)) 0 (unat (g_pitch f * g_font_h f))
      (memmove (g_fb f) (g_fb f + g_pitch f * g_font_h f) (unat (g_pitch f * (g_height f - g_font_h f))) (fb_mem f))"
  define g where "g = f\<lparr>g_cells := cells_scrolled (fb_C f) (fb_R f) (g_cells f), g_cursor_y := g_rows f - 1, fb_mem := ?m\<rparr>"
  have r1: "unat (g_rows f - 1) = fb_R f - 1" using r2 by (simp add: unat_sub word_le_nat_alt)
  have nw: "(fb_R f - 1) * fb_C f + fb_C f = fb_R f * fb_C f" using r2 by (simp add: diff_mult_distrib)
  then have n: "unat ((g_rows f - 1) * g_cols f) = (fb_R f - 1) * fb_C f" using rc by (simp add: unat_word_ariths r1)
  have "\<not> (g_fb f = 0 \<or> g_height f \<le> g_font_h f)" "g_rows f > 1"
    using frame_fits_bounds(1) [OF ok] frame_cells(9) [OF ok] r2 by (simp_all add: word_le_nat_alt word_less_nat_alt)
  then have s: "scroll_up f = Ok g"
    using track len rc nw by (simp add: scroll_up_def Let_def n g_def cells_scrolled_def)
  have lcs: "length (cells_scrolled (fb_C f) (fb_R f) (g_cells f)) = length (g_cells f)"
    using rc len r2 ok by (intro cells_scrolled_nth(2) [where y = 0 and x = 0]) (auto simp: frame_ok_def)
  have same: "same_frame_as f g"
    using lcs scroll_bytes(2) [OF ok] by (simp add: same_frame_as_def g_def)
  have byte: "fbyte g k = (if k < fb_P f * (fb_H f - cell_h f) then fbyte f (k + fb_P f * cell_h f) else 0)"
    if "k < fb_P f * fb_H f" for k
    using scroll_bytes(1) [OF ok that] by (simp add: fbyte_def g_def)
  have pix: "pixel g x y = (if y < fb_H f - cell_h f then pixel f x (y + cell_h f) else (0, 0, 0))"
    if xy: "x < fb_W f" "y < fb_H f" for x y
  proof -
    let ?k = "pixel_off f x y"
    have k: "?k + 2 < fb_P f * fb_H f" using pixel_inside [OF ok xy] frame_fits_bounds(2) [OF ok] by linarith
    have xb: "x * fb_B f + fb_B f \<le> fb_P f"
    proof -
      have "Suc x * fb_B f \<le> fb_W f * fb_B f" using xy(1) by (intro mult_le_mono1) simp
      then show ?thesis using frame_fits_bounds(3) [OF ok] by simp
    qed
    have off: "pixel_off g x y = ?k" "pixel_off f x (y + cell_h f) = ?k + fb_P f * cell_h f"
      by (simp_all add: pixel_off_def g_def algebra_simps)
    show ?thesis
    proof (cases "y < fb_H f - cell_h f")
      case True
      then have "Suc y * fb_P f \<le> (fb_H f - cell_h f) * fb_P f" by (intro mult_le_mono1) simp
      then have "?k + 2 < fb_P f * (fb_H f - cell_h f)"
        using xb frame_fits_bounds(2) [OF ok] by (simp add: pixel_off_def mult.commute)
      then show ?thesis using True k by (simp add: pixel_def off byte algebra_simps)
    next
      case False
      then have "(fb_H f - cell_h f) * fb_P f \<le> y * fb_P f" by (intro mult_le_mono1) simp
      then have "fb_P f * (fb_H f - cell_h f) \<le> ?k"
        unfolding pixel_off_def by (subst mult.commute) (rule trans_le_add1)
      then show ?thesis using False k by (simp add: pixel_def off byte)
    qed
  qed
  have "pixel g x y = picture g x y" if xy: "x < fb_W f" "y < fb_H f" for x y
  proof -
    let ?cx = "x div cell_w f" and ?cy = "y div cell_h f" and ?grid = "x < fb_C f * cell_w f \<and> y < fb_R f * cell_h f"
    have grid: "?grid \<longleftrightarrow> ?cx < fb_C f \<and> ?cy < fb_R f"
      using frame_cells(1,2) [OF ok] by (simp add: div_less_iff_less_mult)
    have pg: "picture g x y = (if ?grid then cell_colour (cell_w f) (if ?cy + 1 < fb_R f then fb_cell f ?cx (?cy + 1) else ch_space)
        (x mod cell_w f) (y mod cell_h f) else (0, 0, 0))"
      using cells_scrolled_nth(1) [OF r2, of "fb_C f" "g_cells f" ?cy ?cx] rc len grid
      by (simp add: picture_def g_def fb_cell_def)
    have nxt: "(y + cell_h f) div cell_h f = ?cy + 1" "(y + cell_h f) mod cell_h f = y mod cell_h f"
      using frame_cells(2) [OF ok] by (simp_all add: div_add_self2)
    have up: "pixel f x (y + cell_h f) = picture f x (y + cell_h f)" if "y < fb_H f - cell_h f"
      using sh xy(1) that by (simp add: shows_cells_def)
    have cyr: "y + cell_h f < fb_R f * cell_h f \<longleftrightarrow> ?cy + 1 < fb_R f"
      using nxt(1) frame_cells(2) [OF ok] by (simp flip: div_less_iff_less_mult)
    show ?thesis
    proof (cases "?cy + 1 < fb_R f")
      case True
      then have "y < fb_H f - cell_h f" using cyr frame_cells(4) [OF ok] by linarith
      moreover have "?grid \<longleftrightarrow> x < fb_C f * cell_w f" using True grid frame_cells(1) [OF ok] by (auto simp: div_less_iff_less_mult)
      ultimately show ?thesis using True cyr up pix [OF xy] pg by (simp add: picture_def nxt)
    next
      case False
      then have "pixel g x y = (0, 0, 0)" using cyr up pix [OF xy] by (simp add: picture_def)
      moreover have "picture g x y = (0, 0, 0)" using False pg by (simp add: cell_colour_def)
      ultimately show ?thesis by simp
    qed
  qed
  then have "shows_cells g" by (simp add: shows_cells_def g_def)
  then show ?thesis using s same by (simp add: g_def)
qed

section \<open>The abstract screen\<close>

record screen =
  sc_rows :: "u8 list list"
  sc_x :: nat
  sc_y :: nat

definition blank_screen :: "nat \<Rightarrow> nat \<Rightarrow> screen" where
  "blank_screen cols rows = \<lparr>sc_rows = replicate rows (replicate cols ch_space), sc_x = 0, sc_y = 0\<rparr>"

definition screen_set :: "u8 \<Rightarrow> screen \<Rightarrow> screen" where
  "screen_set c s = s\<lparr>sc_rows := (sc_rows s)[sc_y s := (sc_rows s ! sc_y s)[sc_x s := c]]\<rparr>"

definition screen_newline :: "screen \<Rightarrow> screen" where
  "screen_newline s =
     (if sc_y s + 1 < length (sc_rows s) then s\<lparr>sc_x := 0, sc_y := sc_y s + 1\<rparr>
      else s\<lparr>sc_rows := tl (sc_rows s) @ [replicate (length (hd (sc_rows s))) ch_space], sc_x := 0\<rparr>)"

definition screen_put :: "u8 \<Rightarrow> screen \<Rightarrow> screen" where
  "screen_put c s =
     (if c = 13 then s\<lparr>sc_x := 0\<rparr>
      else if c = ch_nl then screen_newline s
      else if c = 8 then
        screen_set ch_space
          (if sc_x s > 0 then s\<lparr>sc_x := sc_x s - 1\<rparr>
           else if sc_y s > 0 then s\<lparr>sc_x := length (hd (sc_rows s)) - 1, sc_y := sc_y s - 1\<rparr>
           else s)
      else
        (let t = (screen_set c s)\<lparr>sc_x := sc_x s + 1\<rparr>
         in if sc_x t \<ge> length (hd (sc_rows s)) then screen_newline t else t))"

definition screen_of :: "fbcon \<Rightarrow> screen" where
  "screen_of f =
     \<lparr>sc_rows = map (\<lambda>y. map (\<lambda>x. fb_cell f x y) [0..<fb_C f]) [0..<fb_R f], sc_x = fb_X f, sc_y = fb_Y f\<rparr>"

lemma screen_of_simps [simp]:
  "sc_x (screen_of f) = fb_X f" "sc_y (screen_of f) = fb_Y f" "length (sc_rows (screen_of f)) = fb_R f"
  "0 < fb_R f \<Longrightarrow> length (hd (sc_rows (screen_of f))) = fb_C f"
  by (simp_all add: screen_of_def hd_map)

lemma screen_of_rows:
  assumes "fb_C g = fb_C f" and "fb_R g = fb_R f" and "\<And>x y. x < fb_C f \<Longrightarrow> y < fb_R f \<Longrightarrow> fb_cell g x y = rows ! y ! x"
    and "length rows = fb_R f" and "\<And>y. y < fb_R f \<Longrightarrow> length (rows ! y) = fb_C f"
  shows "screen_of g = \<lparr>sc_rows = rows, sc_x = fb_X g, sc_y = fb_Y g\<rparr>"
  using assms by (auto simp: screen_of_def intro!: nth_equalityI)

lemma nth_screen_of:
  "y < fb_R f \<Longrightarrow> x < fb_C f \<Longrightarrow> sc_rows (screen_of f) ! y ! x = fb_cell f x y"
  "y < fb_R f \<Longrightarrow> length (sc_rows (screen_of f) ! y) = fb_C f"
  by (simp_all add: screen_of_def)

lemma screen_cell_set:
  assumes "fb_inv f" and "same_frame_as f g" and "g_cells g = (g_cells f)[fb_Y f * fb_C f + fb_X f := c]"
    and "g_cursor_x g = g_cursor_x f" and "g_cursor_y g = g_cursor_y f"
  shows "screen_of g = screen_set c (screen_of f)"
proof -
  let ?rows = "(sc_rows (screen_of f))[fb_Y f := (sc_rows (screen_of f) ! fb_Y f)[fb_X f := c]]"
  note ok = fb_invD(1) [OF assms(1)] and xy = fb_invD(2,3) [OF assms(1)]
  have geo: "fb_C g = fb_C f" "fb_R g = fb_R f" using assms(2) by (simp_all add: same_frame_as_def)
  have "fb_cell g x y = ?rows ! y ! x" if "x < fb_C f" "y < fb_R f" for x y
  proof (cases "x = fb_X f \<and> y = fb_Y f")
    case True
    then show ?thesis using xy cell_index(2) [OF ok xy] assms(3) by (simp add: fb_cell_def geo nth_screen_of)
  next
    case False
    then have "y * fb_C f + x \<noteq> fb_Y f * fb_C f + fb_X f" using cell_index_inj [OF that(1) xy(1)] by blast
    then have "fb_cell g x y = fb_cell f x y" using assms(3) by (simp add: fb_cell_def geo)
    moreover have "?rows ! y ! x = sc_rows (screen_of f) ! y ! x"
      using False xy that by (cases "y = fb_Y f") (auto simp: nth_screen_of)
    ultimately show ?thesis using that by (simp add: nth_screen_of)
  qed
  from screen_of_rows [OF geo this] show ?thesis
    using xy assms(4,5) by (simp add: screen_set_def screen_of_def nth_list_update)
qed

lemma screen_scrolled:
  assumes ok: "frame_ok f" and "same_frame_as f g" and "g_cells g = cells_scrolled (fb_C f) (fb_R f) (g_cells f)"
  shows "sc_rows (screen_of g) = tl (sc_rows (screen_of f)) @ [replicate (fb_C f) ch_space]"
proof -
  let ?rows = "tl (sc_rows (screen_of f)) @ [replicate (fb_C f) ch_space]"
  have r: "2 \<le> fb_R f" "fb_R f * fb_C f \<le> length (g_cells f)" using ok frame_cells(6) [OF ok] by (auto simp: frame_ok_def)
  have geo: "fb_C g = fb_C f" "fb_R g = fb_R f" using assms(2) by (simp_all add: same_frame_as_def)
  have row: "?rows ! y = (if y + 1 < fb_R f then sc_rows (screen_of f) ! (y + 1) else replicate (fb_C f) ch_space)"
    if "y < fb_R f" for y
    using that by (auto simp: nth_append nth_tl)
  have "fb_cell g x y = ?rows ! y ! x" if "x < fb_C f" "y < fb_R f" for x y
    using cells_scrolled_nth(1) [OF r that(2,1)] that assms(3) by (simp add: fb_cell_def geo row nth_screen_of)
  from screen_of_rows [OF geo this] show ?thesis
    using r(1) by (simp add: row nth_screen_of)
qed

section \<open>The operations\<close>

lemma cursor_moved [simp]:
  "shows_cells (f\<lparr>g_cursor_x := a\<rparr>) = shows_cells f" "shows_cells (f\<lparr>g_cursor_y := b\<rparr>) = shows_cells f"
  "same_frame_as f (g\<lparr>g_cursor_x := a\<rparr>) = same_frame_as f g" "same_frame_as f (g\<lparr>g_cursor_y := b\<rparr>) = same_frame_as f g"
  "same_frame_as (f\<lparr>g_cursor_x := a\<rparr>) g = same_frame_as f g" "same_frame_as (f\<lparr>g_cursor_y := b\<rparr>) g = same_frame_as f g"
  "frame_ok (f\<lparr>g_cursor_x := a\<rparr>) = frame_ok f" "frame_ok (f\<lparr>g_cursor_y := b\<rparr>) = frame_ok f"
  by (simp_all add: shows_cells_def picture_def fb_cell_def pixel_def fbyte_def pixel_off_def same_frame_as_def outside_def frame_ok_def)

lemma screen_of_moved [simp]:
  "screen_of (f\<lparr>g_cursor_x := a\<rparr>) = (screen_of f)\<lparr>sc_x := unat a\<rparr>"
  "screen_of (f\<lparr>g_cursor_y := b\<rparr>) = (screen_of f)\<lparr>sc_y := unat b\<rparr>"
  by (simp_all add: screen_of_def fb_cell_def)

lemma fb_newline_shows:
  assumes ok: "frame_ok f" and sh: "shows_cells f" and y: "fb_Y f < fb_R f"
  shows "\<exists>g. fb_newline f = Ok g \<and> shows_cells g \<and> same_frame_as f g \<and> fb_inv g \<and> screen_of g = screen_newline (screen_of f)"
proof -
  have c: "1 \<le> fb_C f" "fb_R f \<le> 256" "2 \<le> fb_R f" using ok by (auto simp: frame_ok_def)
  have y1: "unat (g_cursor_y f + 1) = fb_Y f + 1" using y c(2) by (simp add: unat_word_ariths)
  show ?thesis
  proof (cases "fb_Y f + 1 < fb_R f")
    case True
    let ?g = "f\<lparr>g_cursor_x := 0, g_cursor_y := g_cursor_y f + 1\<rparr>"
    have "fb_newline f = Ok ?g" using True y1 by (simp add: fb_newline_def Let_def word_le_nat_alt)
    moreover have "fb_inv ?g" using True ok y1 c(1) by (simp add: fb_inv_def)
    moreover have "screen_of ?g = screen_newline (screen_of f)" using True y1 by (simp add: screen_newline_def)
    ultimately show ?thesis using sh by simp
  next
    case False
    let ?f = "f\<lparr>g_cursor_x := 0, g_cursor_y := g_cursor_y f + 1\<rparr>"
    obtain g where g: "scroll_up ?f = Ok g" "shows_cells g" "same_frame_as f g"
      "g_cells g = cells_scrolled (fb_C f) (fb_R f) (g_cells f)" "g_cursor_x g = 0" "g_cursor_y g = g_rows f - 1"
      using scroll_up_shows [of ?f] ok sh by auto
    have r: "unat (g_rows f - 1) = fb_R f - 1" using c(3) by (simp add: unat_sub word_le_nat_alt)
    have geo: "g_rows g = g_rows f" "g_cols g = g_cols f" using g(3) by (simp_all add: same_frame_as_def)
    have "fb_newline f = Ok (g\<lparr>g_cursor_y := g_rows f - 1\<rparr>)"
      using False y1 g(1) by (simp add: fb_newline_def Let_def word_le_nat_alt geo)
    moreover have "g\<lparr>g_cursor_y := g_rows f - 1\<rparr> = g" using g(6) by simp
    moreover have "fb_inv g" using ok same_frame_as_ok [OF g(3)] c g(5,6) r by (simp add: fb_inv_def geo)
    moreover have "screen_of g = screen_newline (screen_of f)"
    proof -
      have "sc_rows (screen_of g) = sc_rows (screen_newline (screen_of f))"
        using screen_scrolled [OF ok g(3,4)] False c(3) by (simp add: screen_newline_def)
      moreover have "sc_x (screen_of g) = sc_x (screen_newline (screen_of f))"
        "sc_y (screen_of g) = sc_y (screen_newline (screen_of f))"
        using False y g(5,6) r by (simp_all add: screen_newline_def)
      ultimately show ?thesis by (intro screen.equality) simp_all
    qed
    ultimately show ?thesis using g by simp
  qed
qed

lemma fb_putc_shows:
  assumes inv: "fb_inv f" and d: "displays f"
  shows "\<exists>g. fb_putc c f = Ok g \<and> displays g \<and> same_frame_as f g \<and> fb_inv g \<and> screen_of g = screen_put c (screen_of f)"
proof -
  obtain e where e: "erase_cursor f = Ok e" "shows_cells e" "same_frame_as f e" "fb_inv e" "g_cells e = g_cells f"
    "g_cursor_x e = g_cursor_x f" "g_cursor_y e = g_cursor_y f"
    using erase_cursor_shows [OF inv d] by blast
  have geo: "g_cols e = g_cols f" "g_rows e = g_rows f" using e(3) by (simp_all add: same_frame_as_def)
  have sc: "screen_of e = screen_of f" using e(5-7) by (simp add: screen_of_def fb_cell_def geo)
  note okf = fb_invD(1) [OF inv] and ok = fb_invD(1) [OF e(4)] and xy = fb_invD(2,3) [OF e(4)]
  have R: "0 < fb_R f" "1 \<le> fb_C f" "fb_C f \<le> 512" using okf by (auto simp: frame_ok_def)
  text \<open>The cursor is drawn at the end.\<close>
  have fin: ?thesis if "fb_putc c f = Ok (draw_cursor g)" "shows_cells g" "same_frame_as e g" "fb_inv g"
    "screen_of g = screen_put c (screen_of e)" for g
  proof -
    note s = draw_cursor_shows [OF that(4)]
    have sd: "displays (draw_cursor g)" "same_frame_as g (draw_cursor g)" "fb_inv (draw_cursor g)" "screen_of (draw_cursor g) = screen_of g"
      using s that(2) draw_cursor_drawn [OF that(4)]
      by (auto simp: screen_of_def fb_cell_def drawn_geometry)
    have "same_frame_as f (draw_cursor g)" using e(3) that(3) sd(2) by (blast intro: same_frame_as_trans)
    then show ?thesis using that(1,5) sd sc by auto
  qed
  have put: "fb_putc c f = rbind (Ok e) (\<lambda>f.
        if c = 13 then Ok (draw_cursor (f\<lparr>g_cursor_x := 0\<rparr>))
        else if c = ch_nl then rbind (fb_newline f) (\<lambda>f. Ok (draw_cursor f))
        else if c = 8 then
          (let f = (if g_cursor_x f > 0 then f\<lparr>g_cursor_x := g_cursor_x f - 1\<rparr>
                    else if g_cursor_y f > 0 then f\<lparr>g_cursor_x := g_cols f - 1, g_cursor_y := g_cursor_y f - 1\<rparr>
                    else f);
               f = draw_cell ch_space (g_cursor_x f) (g_cursor_y f) f
           in rbind (cell_set (g_cursor_x f) (g_cursor_y f) ch_space f) (\<lambda>f. Ok (draw_cursor f)))
        else
          rbind (cell_set (g_cursor_x f) (g_cursor_y f) c (draw_cell c (g_cursor_x f) (g_cursor_y f) f)) (\<lambda>f.
            let f = f\<lparr>g_cursor_x := g_cursor_x f + 1\<rparr>
            in rbind (if g_cursor_x f \<ge> g_cols f then fb_newline f else Ok f) (\<lambda>f. Ok (draw_cursor f))))"
    using frame_fits_bounds(1) [OF okf] e(1) by (simp add: fb_putc_def)
  consider "c = 13" | "c = ch_nl" | "c = 8" | "c \<noteq> 13" "c \<noteq> ch_nl" "c \<noteq> 8" by blast
  then show ?thesis
  proof cases
    case 1
    have "fb_putc c f = Ok (draw_cursor (e\<lparr>g_cursor_x := 0\<rparr>))" unfolding put using 1 by simp
    then show ?thesis using 1 e(2) ok xy
      by (intro fin [of "e\<lparr>g_cursor_x := 0\<rparr>"]) (simp_all add: fb_inv_def screen_put_def)
  next
    case 2
    obtain g where "fb_newline e = Ok g" "shows_cells g" "same_frame_as e g" "fb_inv g" "screen_of g = screen_newline (screen_of e)"
      using fb_newline_shows [OF ok e(2) xy(2)] by blast
    moreover from this(1) have "fb_putc c f = Ok (draw_cursor g)" unfolding put using 2 by simp
    ultimately show ?thesis using 2 by (intro fin [of g]) (simp_all add: screen_put_def)
  next
    case 3
    define b where "b = (if g_cursor_x e > 0 then e\<lparr>g_cursor_x := g_cursor_x e - 1\<rparr>
        else if g_cursor_y e > 0 then e\<lparr>g_cursor_x := g_cols e - 1, g_cursor_y := g_cursor_y e - 1\<rparr> else e)"
    have dec: "unat (w - 1) = unat w - 1" if "0 < w" for w :: u32
      using that by (simp add: unat_sub word_le_nat_alt unat_gt_0 Suc_le_eq word_neq_0_conv)
    have bi: "fb_inv b" "shows_cells b" "same_frame_as e b"
      using e(2,4) ok xy R dec [of "g_cursor_x e"] dec [of "g_cursor_y e"] dec [of "g_cols e"]
      by (auto simp: b_def fb_inv_def word_less_nat_alt geo)
    have bs: "screen_of b = (if sc_x (screen_of e) > 0 then (screen_of e)\<lparr>sc_x := sc_x (screen_of e) - 1\<rparr>
        else if sc_y (screen_of e) > 0 then (screen_of e)\<lparr>sc_x := fb_C e - 1, sc_y := sc_y (screen_of e) - 1\<rparr> else screen_of e)"
      using R dec [of "g_cursor_x e"] dec [of "g_cursor_y e"] dec [of "g_cols e"]
      by (auto simp: b_def word_less_nat_alt geo)
    obtain g where g: "cell_set (g_cursor_x b) (g_cursor_y b) ch_space (draw_cell ch_space (g_cursor_x b) (g_cursor_y b) b) = Ok g"
      "shows_cells g" "same_frame_as b g" "fb_inv g" "g_cells g = (g_cells b)[fb_Y b * fb_C b + fb_X b := ch_space]"
      "g_cursor_x g = g_cursor_x b" "g_cursor_y g = g_cursor_y b"
      using write_cell_shows [OF bi(1,2)] by blast
    have cur: "g_cursor_x (draw_cell ch_space (g_cursor_x b) (g_cursor_y b) b) = g_cursor_x b"
      "g_cursor_y (draw_cell ch_space (g_cursor_x b) (g_cursor_y b) b) = g_cursor_y b"
      using drawn_geometry [OF draw_cell_drawn [OF fb_invD [OF bi(1)]]] by simp_all
    have "fb_putc c f = Ok (draw_cursor g)"
      unfolding put using 3 g(1) cur by (simp add: b_def [symmetric] Let_def)
    moreover have "screen_of g = screen_put c (screen_of e)"
      using screen_cell_set [OF bi(1) g(3,5-7)] bs 3 R geo by (simp add: screen_put_def)
    ultimately show ?thesis using g(2,4) bi(3) same_frame_as_trans [OF bi(3) g(3)] by (intro fin [of g])
  next
    case 4
    obtain g where g: "cell_set (g_cursor_x e) (g_cursor_y e) c (draw_cell c (g_cursor_x e) (g_cursor_y e) e) = Ok g"
      "shows_cells g" "same_frame_as e g" "fb_inv g" "g_cells g = (g_cells e)[fb_Y e * fb_C e + fb_X e := c]"
      "g_cursor_x g = g_cursor_x e" "g_cursor_y g = g_cursor_y e"
      using write_cell_shows [OF e(4,2)] by blast
    let ?h = "g\<lparr>g_cursor_x := g_cursor_x e + 1\<rparr>"
    have x1: "unat (g_cursor_x e + 1) = fb_X e + 1" using xy(1) R geo by (simp add: unat_word_ariths)
    have geog: "g_cols g = g_cols e" "g_rows g = g_rows e" using g(3) by (simp_all add: same_frame_as_def)
    note okg = fb_invD(1) [OF g(4)]
    have sg: "screen_of ?h = (screen_set c (screen_of e))\<lparr>sc_x := fb_X e + 1\<rparr>"
      using screen_cell_set [OF e(4) g(3,5-7)] x1 by simp
    show ?thesis
    proof (cases "fb_X e + 1 < fb_C e")
      case True
      then have "\<not> g_cursor_x e + 1 \<ge> g_cols e" using x1 by (simp add: word_le_nat_alt)
      then have "fb_putc c f = Ok (draw_cursor ?h)" unfolding put using 4 g(1,6) by (simp add: Let_def geog)
      moreover have "fb_inv ?h" using okg True x1 g(4) by (simp add: fb_inv_def geog)
      moreover have "screen_of ?h = screen_put c (screen_of e)"
        using 4 True R sg geo by (simp add: screen_put_def)
      ultimately show ?thesis using g(2,3) by (intro fin [of ?h]) simp_all
    next
      case False
      then have ge: "g_cursor_x e + 1 \<ge> g_cols e" using x1 by (simp add: word_le_nat_alt)
      have "fb_Y ?h < fb_R ?h" using fb_invD(3) [OF g(4)] by simp
      then obtain n where n: "fb_newline ?h = Ok n" "shows_cells n" "same_frame_as ?h n" "fb_inv n"
        "screen_of n = screen_newline (screen_of ?h)"
        using fb_newline_shows [of ?h] okg g(2) by auto
      have "fb_putc c f = Ok (draw_cursor n)" unfolding put using 4 g(1,6) n(1) ge by (simp add: Let_def geog)
      moreover have "screen_of n = screen_put c (screen_of e)"
        using 4 False R n(5) sg geo by (simp add: screen_put_def)
      moreover have "same_frame_as e n" using same_frame_as_trans [OF g(3)] n(3) by simp
      ultimately show ?thesis using n(2,4) by (intro fin [of n])
    qed
  qed
qed

lemma fb_print_shows:
  assumes "fb_inv f" and "displays f"
  shows "\<exists>g. fb_print s f = Ok g \<and> displays g \<and> same_frame_as f g \<and> fb_inv g \<and> screen_of g = fold screen_put s (screen_of f)"
  using assms
proof (induction s arbitrary: f)
  case (Cons c s)
  obtain g where g: "fb_putc c f = Ok g" "displays g" "same_frame_as f g" "fb_inv g" "screen_of g = screen_put c (screen_of f)"
    using fb_putc_shows [OF Cons.prems] by blast
  from Cons.IH [OF g(4,2)] g show ?case by (auto intro: same_frame_as_trans)
qed simp

section \<open>Clearing and starting\<close>

lemma memset_split: "memset p v (k + n) m = memset (p + of_nat k) v n (memset p v k m)"
proof -
  have u: "[0..<k + n] = [0..<k] @ map (\<lambda>i. i + k) [0..<n]"
    using upt_add_eq_append [of 0 k n] map_add_upt [of k n] by (simp only: add.commute [of n k])
  have f: "(\<lambda>x m. m(p + of_nat (x + k) := word_of_int v)) = (\<lambda>i m. m(p + of_nat k + of_nat i := word_of_int v))"
    by (simp add: algebra_simps)
  show ?thesis unfolding memset_def u by (simp add: fold_map comp_def f del: of_nat_add)
qed

lemma clear_words: "fold (\<lambda>i m. memset (p + 4 * of_nat i) 0 4 m) [0..<n] m = memset p 0 (4 * n) m"
proof (induction n)
  case (Suc n)
  have "memset p 0 (4 * Suc n) m = memset p 0 (4 * n + 4) m" by (simp add: algebra_simps)
  then show ?case using Suc by (simp add: memset_split)
qed (simp add: memset_def)

lemma clear_pixels_zero:
  assumes ok: "frame_ok f"
  shows "clear_pixels f = memset (g_fb f) 0 (fb_P f * fb_H f) (fb_mem f)"
proof -
  have w: "unat (g_pitch f * g_height f) = fb_P f * fb_H f"
    using frame_fits_bounds(5) [OF ok] by (simp add: unat_word_ariths)
  show ?thesis
  proof (cases "g_bpp f = 32")
    case True
    then have "4 dvd fb_P f" using ok by (auto simp: frame_ok_def frame_fits_def)
    then have "4 * (fb_P f * fb_H f div 4) = fb_P f * fb_H f" by simp
    then show ?thesis using True clear_words [of "g_fb f" "fb_P f * fb_H f div 4"] by (simp add: clear_pixels_def Let_def w unat_div)
  qed (simp add: clear_pixels_def Let_def w)
qed

lemma fb_clear_shows:
  assumes ok: "frame_ok f"
  shows "\<exists>g. fb_clear f = Ok g \<and> displays g \<and> same_frame_as f g \<and> fb_inv g \<and> screen_of g = blank_screen (fb_C f) (fb_R f)"
proof -
  let ?n = "fb_R f * fb_C f"
  define g where "g = f\<lparr>fb_mem := clear_pixels f, g_cursor_x := 0, g_cursor_y := 0,
      g_cells := blit (g_cells f) 0 (replicate ?n ch_space)\<rparr>"
  note b = frame_fits_bounds(4) [OF ok] and rc = frame_cells(6) [OF ok]
  have p: "1 \<le> fb_C f" "2 \<le> fb_R f" "g_track_cells f" "length (g_cells f) = 131072" using ok by (auto simp: frame_ok_def)
  have n: "unat (g_cols f * g_rows f) = ?n" using rc by (simp add: unat_word_ariths mult.commute)
  have len: "length (blit (g_cells f) 0 (replicate ?n ch_space)) = length (g_cells f)" using rc p by (intro length_blit) simp
  have c: "fb_clear f = Ok (draw_cursor g)"
    using frame_fits_bounds(1) [OF ok] p rc by (simp add: fb_clear_def Let_def n g_def)
  have same: "same_frame_as f g"
    using memset_bytes [OF b, of 0 "fb_mem f"] len
    by (auto simp: same_frame_as_def g_def outside_def clear_pixels_zero [OF ok])
  have okg: "frame_ok g" using ok same_frame_as_ok [OF same] by simp
  have inv: "fb_inv g" using okg p by (simp add: fb_inv_def) (simp add: g_def)
  have cell: "fb_cell g x y = ch_space" if "x < fb_C f" "y < fb_R f" for x y
  proof -
    have "Suc y * fb_C f \<le> ?n" using that(2) by (intro mult_le_mono1) simp
    then have "y * fb_C f + x < ?n" using that(1) by simp
    then show ?thesis using rc p by (simp add: fb_cell_def g_def nth_blit)
  qed
  have byte: "fbyte g k = 0" if "k < fb_P f * fb_H f" for k
    using unat_fb_addr [OF ok that] that memset_bytes [OF b, of 0 "fb_mem f"]
    by (simp add: fbyte_def g_def clear_pixels_zero [OF ok])
  have "pixel g x y = picture g x y" if xy: "x < fb_W f" "y < fb_H f" for x y
  proof -
    have "pixel_off g x y + 2 < fb_P f * fb_H f"
      using pixel_inside [OF ok xy] frame_fits_bounds(2) [OF ok] by (simp add: g_def pixel_off_def)
    then have "pixel g x y = (0, 0, 0)" by (simp add: pixel_def byte)
    moreover have "picture g x y = (0, 0, 0)"
    proof (cases "x < fb_C f * cell_w f \<and> y < fb_R f * cell_h f")
      case True
      then have "x div cell_w f < fb_C f" "y div cell_h f < fb_R f"
        using frame_cells(1,2) [OF ok] by (simp_all add: div_less_iff_less_mult)
      then have "fb_cell g (x div cell_w f) (y div cell_h f) = ch_space" by (rule cell)
      then show ?thesis by (simp add: picture_def cell_colour_def) (simp add: g_def cell_colour_def)
    next
      case False
      then show ?thesis by (auto simp: picture_def g_def)
    qed
    ultimately show ?thesis by simp
  qed
  then have sh: "shows_cells g" by (simp add: shows_cells_def g_def)
  note d = draw_cursor_shows [OF inv disjI1 [OF sh]]
  have geo: "fb_C g = fb_C f" "fb_R g = fb_R f" using same by (simp_all add: same_frame_as_def)
  have "screen_of (draw_cursor g) = screen_of g"
    using d(4-6) draw_cursor_drawn [OF inv] by (simp add: screen_of_def fb_cell_def drawn_geometry)
  moreover have "screen_of g = blank_screen (fb_C f) (fb_R f)"
    using screen_of_rows [OF geo, of "replicate (fb_R f) (replicate (fb_C f) ch_space)"] cell
    by (simp add: blank_screen_def) (simp add: g_def)
  ultimately show ?thesis using c d(1-3) same_frame_as_trans [OF same d(2)] by simp
qed

definition font_w :: "fb_font \<Rightarrow> nat" where "font_w font = (if font = Font_8x16 then 8 else 16)"
definition font_h :: "fb_font \<Rightarrow> nat" where "font_h font = (if font = Font_8x16 then 16 else 32)"

text \<open>A mode the console can be started in: the grid has a column and two rows, and no more than its array holds.\<close>

definition mode_ok :: "fb_font \<Rightarrow> u32 \<Rightarrow> u32 \<Rightarrow> u32 \<Rightarrow> u32 \<Rightarrow> u32 \<Rightarrow> bool" where
  "mode_ok font addr width height pitch bpp \<longleftrightarrow>
     frame_fits addr width height pitch bpp \<and>
     font_w font \<le> unat width \<and> unat width div font_w font \<le> 512 \<and>
     2 * font_h font \<le> unat height \<and> unat height div font_h font \<le> 256"

lemma fb_init_shows:
  assumes m: "mode_ok font addr width height pitch bpp" and len: "length (g_cells f) = 131072"
  shows "\<exists>g. fb_init font addr width height pitch bpp f = Ok (True, g) \<and> displays g \<and> fb_inv g \<and>
    g_fb g = addr \<and> g_width g = width \<and> g_height g = height \<and> g_pitch g = pitch \<and> g_bpp g = bpp \<and>
    screen_of g = blank_screen (unat width div font_w font) (unat height div font_h font) \<and>
    (\<forall>a. unat a < unat addr \<or> unat addr + unat pitch * unat height \<le> unat a \<longrightarrow> fb_mem g a = fb_mem f a)"
proof -
  define fw :: u32 where "fw = (if font = Font_8x16 then 8 else 16)"
  define fh :: u32 where "fh = (if font = Font_8x16 then 16 else 32)"
  have font: "unat fw = font_w font" "unat fh = font_h font" "fw = 8 \<and> fh = 16 \<or> fw = 16 \<and> fh = 32"
    by (simp_all add: fw_def fh_def font_w_def font_h_def)
  have fits: "frame_fits addr width height pitch bpp" using m by (simp add: mode_ok_def)
  have cr: "unat (width div fw) = unat width div font_w font" "unat (height div fh) = unat height div font_h font"
    by (simp_all add: unat_div font)
  have pos: "0 < font_w font" "0 < font_h font" by (simp_all add: font_w_def font_h_def)
  then have rng: "1 \<le> unat (width div fw)" "unat (width div fw) \<le> 512" "2 \<le> unat (height div fh)" "unat (height div fh) \<le> 256"
    using m by (simp_all add: cr mode_ok_def div_greater_zero_iff less_eq_div_iff_mult_less_eq Suc_le_eq)
  define f1 where "f1 = f\<lparr>g_fb := addr, g_width := width, g_height := height, g_pitch := pitch, g_bpp := bpp,
      g_cols := width div fw, g_rows := height div fh, g_font_w := fw, g_font_h := fh, g_cursor_x := 0, g_cursor_y := 0,
      g_track_cells := True\<rparr>"
  have "frame_ok f1"
    using fits font rng len by (auto simp: f1_def frame_ok_def unat_div)
  from fb_clear_shows [OF this] obtain g where g: "fb_clear f1 = Ok g" "displays g" "same_frame_as f1 g" "fb_inv g"
    "screen_of g = blank_screen (unat width div font_w font) (unat height div font_h font)"
    by (auto simp: f1_def cr)
  have nz: "\<not> (addr = 0 \<or> width = 0 \<or> height = 0 \<or> pitch = 0)" "bpp = 32 \<or> bpp = 24"
  proof -
    have "addr \<noteq> 0" and bpp: "bpp = 32 \<or> bpp = 24" and row: "unat width * (unat bpp div 8) \<le> unat pitch"
      using fits by (auto simp: frame_fits_def)
    moreover have "width \<noteq> 0" "height \<noteq> 0" using rng by auto
    moreover have "pitch \<noteq> 0"
    proof
      assume "pitch = 0"
      then have "unat width = 0" using row bpp by auto
      then show False using \<open>width \<noteq> 0\<close> by (simp add: unat_eq_0)
    qed
    ultimately show "\<not> (addr = 0 \<or> width = 0 \<or> height = 0 \<or> pitch = 0)" "bpp = 32 \<or> bpp = 24" by auto
  qed
  have small: "width div fw \<noteq> 0" "height div fh \<noteq> 0" "width div fw \<le> MAX_FB_COLS" "height div fh \<le> MAX_FB_ROWS"
    using rng by (auto simp: word_le_nat_alt)
  have "fb_init font addr width height pitch bpp f = rbind (fb_clear f1) (\<lambda>f. Ok (True, draw_cursor f))"
    using nz small by (auto simp: fb_init_def Let_def f1_def fw_def fh_def)
  then have init: "fb_init font addr width height pitch bpp f = Ok (True, draw_cursor g)" by (simp add: g(1))
  note d = draw_cursor_shows [OF g(4) disjI2 [OF g(2)]]
  have same: "same_frame_as f1 (draw_cursor g)" using same_frame_as_trans [OF g(3) d(2)] .
  have "screen_of (draw_cursor g) = screen_of g"
    using d(4-6) draw_cursor_drawn [OF g(4)] by (simp add: screen_of_def fb_cell_def drawn_geometry)
  then show ?thesis using init d(1,3) g(5) same by (auto simp: same_frame_as_def outside_def f1_def)
qed

section \<open>Properties\<close>

text \<open>
  C32: The framebuffer console refines a screen of text rows: after it is started in a mode whose rows lie in
  the pitch and whose frame lies in the address space, printing any text succeeds, the cells hold the screen
  that the same characters give on an abstract list of rows, every pixel of the display is the one of the
  glyph of its cell, of the cursor's bar or black beside the grid, and no byte of memory outside the frame
  has changed.
\<close>

theorem fb_console_refines_screen:
  assumes "mode_ok font addr width height pitch bpp" and "length (g_cells f) = 131072"
  shows "\<exists>f0 f'. fb_init font addr width height pitch bpp f = Ok (True, f0) \<and> fb_print s f0 = Ok f' \<and>
    screen_of f' = fold screen_put s (blank_screen (unat width div font_w font) (unat height div font_h font)) \<and>
    displays f' \<and>
    (\<forall>a. unat a < unat addr \<or> unat addr + unat pitch * unat height \<le> unat a \<longrightarrow> fb_mem f' a = fb_mem f a)"
proof -
  obtain f0 where f0: "fb_init font addr width height pitch bpp f = Ok (True, f0)" "displays f0" "fb_inv f0"
    "g_fb f0 = addr" "g_height f0 = height" "g_pitch f0 = pitch"
    "screen_of f0 = blank_screen (unat width div font_w font) (unat height div font_h font)"
    "\<forall>a. unat a < unat addr \<or> unat addr + unat pitch * unat height \<le> unat a \<longrightarrow> fb_mem f0 a = fb_mem f a"
    using fb_init_shows [OF assms] by blast
  obtain f' where "fb_print s f0 = Ok f'" "displays f'" "same_frame_as f0 f'" "screen_of f' = fold screen_put s (screen_of f0)"
    using fb_print_shows [OF f0(3,2)] by blast
  then show ?thesis using f0 by (auto simp: same_frame_as_def outside_def)
qed

text \<open>A display of 640 by 480 pixels of 32 bits shows two letters and a line feed.\<close>

theorem fb_console_refines_screen_witness:
  "\<exists>f0 f'. fb_init Font_16x32 0xE0000000 640 480 2560 32 (fbcon_zero (\<lambda>_. 0)) = Ok (True, f0) \<and>
    fb_print (lit ''Hi'' @ [10]) f0 = Ok f' \<and> sc_y (screen_of f') = 1 \<and> take 3 (hd (sc_rows (screen_of f'))) = [72, 105, 32] \<and> displays f'"
proof -
  have "mode_ok Font_16x32 0xE0000000 640 480 2560 32" by (simp add: mode_ok_def frame_fits_def font_w_def font_h_def)
  moreover have "length (g_cells (fbcon_zero (\<lambda>_. 0))) = 131072" by (simp add: fbcon_zero_def)
  ultimately obtain f0 f' where f: "fb_init Font_16x32 0xE0000000 640 480 2560 32 (fbcon_zero (\<lambda>_. 0)) = Ok (True, f0)"
    "fb_print (lit ''Hi'' @ [10]) f0 = Ok f'" "displays f'"
    "screen_of f' = fold screen_put (lit ''Hi'' @ [10]) (blank_screen (unat (640 :: u32) div font_w Font_16x32) (unat (480 :: u32) div font_h Font_16x32))"
    using fb_console_refines_screen by blast
  have "screen_of f' = fold screen_put (lit ''Hi'' @ [10]) (blank_screen 40 15)"
    unfolding f(4) by (simp add: font_w_def font_h_def del: fold_append)
  moreover have "sc_y (fold screen_put (lit ''Hi'' @ [10]) (blank_screen 40 15)) = 1"
    "take 3 (hd (sc_rows (fold screen_put (lit ''Hi'' @ [10]) (blank_screen 40 15)))) = [72, 105, 32]"
    by code_simp+
  ultimately show ?thesis using f(1-3) by (intro exI [of _ f0] exI [of _ f']) (simp del: fold_append)
qed

end
