(* ===== verification/Console_Spec.thy ===== *)
theory Console_Spec
  imports Console Fb_Spec Paging
begin

text \<open>
  The console starts on the framebuffer the boot loader reports, sends the same characters to the display
  and to the serial line, and, once paging is on, changes only memory that is mapped to itself.
\<close>

section \<open>The framebuffer tag\<close>

text \<open>The offsets the search passes over, and the tag it ends at.\<close>

fun framebuffer_tags :: "mem \<Rightarrow> u32 \<Rightarrow> u32 \<Rightarrow> u32 list \<Rightarrow> u32 option \<Rightarrow> bool" where
  "framebuffer_tags m info off [] r \<longleftrightarrow>
     (if off + 8 \<le> info_total_size m info \<and> tag_type m (info + off) \<noteq> 0
      then tag_type m (info + off) = 8 \<and> tag_size m (info + off) \<ge> 32 \<and> r = Some (info + off)
      else r = None)"
| "framebuffer_tags m info off (k # ks) r \<longleftrightarrow>
     k = off \<and> off + 8 \<le> info_total_size m info \<and> tag_type m (info + off) \<noteq> 0 \<and>
     \<not> (tag_type m (info + off) = 8 \<and> tag_size m (info + off) \<ge> 32) \<and>
     framebuffer_tags m info ((off + tag_size m (info + off) + 7) AND NOT 7) ks r"

lemma find_framebuffer_tags: "framebuffer_tags m info off ks r \<Longrightarrow> find_framebuffer_from m info off = Some r"
proof (induction ks arbitrary: off)
  case Nil
  then show ?case by (subst find_framebuffer_from.simps) (auto split: if_splits)
next
  case (Cons k ks)
  then show ?case by (subst find_framebuffer_from.simps) auto
qed

text \<open>The mode a tag describes.\<close>

definition tag_mode_ok :: "fb_font \<Rightarrow> mem \<Rightarrow> u32 \<Rightarrow> bool" where
  "tag_mode_ok font m t \<longleftrightarrow>
     framebuffer_addr m t \<le> 0xFFFFFFFF \<and>
     mode_ok font (ucast (framebuffer_addr m t)) (framebuffer_width m t) (framebuffer_height m t) (framebuffer_pitch m t)
       (ucast (framebuffer_bpp m t))"

section \<open>Starting and printing\<close>

text \<open>The devices after a text on the serial line: only its ports were used, and the line took the text.\<close>

definition line_took :: "'d ports \<Rightarrow> ('d \<Rightarrow> uart_view) \<Rightarrow> u8 list \<Rightarrow> 'd \<Rightarrow> 'd \<Rightarrow> bool" where
  "line_took p uart s d e \<longleftrightarrow> port_run p com1_ports {} d e \<and>
     (\<not> uv_dlab (uart d) \<longrightarrow> \<not> uv_dlab (uart e) \<and> uv_taken (uart e) = uv_taken (uart d) @ crlf s)"

lemma line_took_run: "line_took p uart s d e \<Longrightarrow> port_run p com1_ports {} d e"
  by (simp add: line_took_def)

lemma to_serial_returns:
  assumes "uart_line p uart"
  obtains e where "to_serial p s k = Ok (k\<lparr>con_dev := e\<rparr>)" "line_took p uart s (con_dev k) e"
proof -
  obtain e where "serial_print p s (con_dev k) = Ok e" "line_took p uart s (con_dev k) e"
    using serial_print_returns [OF assms, of s "con_dev k"] by (auto simp: line_took_def)
  then show thesis by (intro that [of e]) (simp_all add: to_serial_def)
qed

lemma unat_u8_bpp: "ucast b = (24 :: u32) \<longleftrightarrow> b = 24" "ucast b = (32 :: u32) \<longleftrightarrow> b = 32" for b :: u8
proof -
  have "unat (ucast b :: u32) = unat b" by (simp add: unsigned_ucast_eq take_bit_nat_eq_self order.strict_trans [OF unsigned_less])
  then show "ucast b = (24 :: u32) \<longleftrightarrow> b = 24" "ucast b = (32 :: u32) \<longleftrightarrow> b = 32"
    by (simp_all add: word_unat_eq_iff)
qed

lemma console_init_framebuffer:
  assumes uart: "uart_line p uart" and tags: "framebuffer_tags (fb_mem (con_fb k)) info 8 ks (Some t)" and info: "info \<noteq> 0"
    and mode: "tag_mode_ok font (fb_mem (con_fb k)) t" and cells: "length (g_cells (con_fb k)) = 131072"
  defines "m \<equiv> fb_mem (con_fb k)"
  shows "\<exists>k'. console_init p font MULTIBOOT2_BOOTLOADER_MAGIC info k = Ok k' \<and> g_backend k' = CONSOLE_BACKEND_FB \<and>
    fb_inv (con_fb k') \<and> displays (con_fb k') \<and>
    console_get_framebuffer k' = Some (framebuffer_addr m t, framebuffer_pitch m t, framebuffer_width m t, framebuffer_height m t,
      ucast (framebuffer_bpp m t)) \<and>
    g_fb (con_fb k') = ucast (framebuffer_addr m t) \<and> g_pitch (con_fb k') = framebuffer_pitch m t \<and>
    g_height (con_fb k') = framebuffer_height m t \<and>
    \<not> uv_dlab (uart (con_dev k')) \<and> port_run p com1_ports {} (con_dev k) (con_dev k')"
proof -
  have mo: "mode_ok font (ucast (framebuffer_addr m t)) (framebuffer_width m t) (framebuffer_height m t) (framebuffer_pitch m t)
      (ucast (framebuffer_bpp m t))" and addr: "framebuffer_addr m t \<le> 0xFFFFFFFF"
    using mode by (simp_all add: tag_mode_ok_def m_def)
  have bpp: "framebuffer_bpp m t = 32 \<or> framebuffer_bpp m t = 24"
    using mo unat_u8_bpp [of "framebuffer_bpp m t"] by (auto simp: mode_ok_def frame_fits_def)
  obtain f where f: "fb_init font (ucast (framebuffer_addr m t)) (framebuffer_width m t) (framebuffer_height m t)
      (framebuffer_pitch m t) (ucast (framebuffer_bpp m t)) (con_fb k) = Ok (True, f)" "displays f" "fb_inv f"
    "g_fb f = ucast (framebuffer_addr m t)" "g_pitch f = framebuffer_pitch m t" "g_height f = framebuffer_height m t"
    using fb_init_shows [OF mo cells] by blast
  have find: "find_mb2_framebuffer m MULTIBOOT2_BOOTLOADER_MAGIC info = Ok (Some t)"
    using find_framebuffer_tags [OF tags] info by (simp add: find_mb2_framebuffer_def m_def)
  define k1 where "k1 = k\<lparr>g_fb_phys_addr := 0, g_fb_pitch := 0, g_fb_width := 0, g_fb_height := 0, g_fb_bpp := 0,
      g_fb_valid := False, con_dev := serial_init p (con_dev k)\<rparr>\<lparr>con_fb := f\<rparr>"
  define k2 where "k2 = k1\<lparr>g_backend := CONSOLE_BACKEND_FB, g_fb_phys_addr := framebuffer_addr m t,
      g_fb_pitch := framebuffer_pitch m t, g_fb_width := framebuffer_width m t, g_fb_height := framebuffer_height m t,
      g_fb_bpp := ucast (framebuffer_bpp m t), g_fb_valid := True\<rparr>"
  have k2: "g_backend k2 = CONSOLE_BACKEND_FB" "con_fb k2 = f" "console_get_framebuffer k2 = Some (framebuffer_addr m t,
      framebuffer_pitch m t, framebuffer_width m t, framebuffer_height m t, ucast (framebuffer_bpp m t))"
    "con_dev k2 = serial_init p (con_dev k)"
    by (simp_all add: k2_def k1_def console_get_framebuffer_def)
  obtain e where e: "to_serial p (line ''console: framebuffer backend active'') k2 = Ok (k2\<lparr>con_dev := e\<rparr>)"
    "line_took p uart (line ''console: framebuffer backend active'') (con_dev k2) e"
    using to_serial_returns [OF uart] .
  obtain g where g: "fb_print (banner (k2\<lparr>con_dev := e\<rparr>)) f = Ok g" "displays g" "same_frame_as f g" "fb_inv g"
    using fb_print_shows [OF f(3,2)] by blast
  have "console_init p font MULTIBOOT2_BOOTLOADER_MAGIC info k = use_framebuffer p m t k1"
    using find bpp addr f(1) by (auto simp: console_init_def Let_def m_def [symmetric] k1_def)
  also have "\<dots> = rbind (to_serial p (line ''console: framebuffer backend active'') k2) (\<lambda>k.
      rbind (fb_print (banner k) (con_fb k)) (\<lambda>f. Ok (k\<lparr>con_fb := f\<rparr>)))"
    unfolding use_framebuffer_def Let_def k2_def ..
  also have "\<dots> = Ok (k2\<lparr>con_dev := e, con_fb := g\<rparr>)" using e(1) g(1) k2(2) by simp
  finally have run: "console_init p font MULTIBOOT2_BOOTLOADER_MAGIC info k = Ok (k2\<lparr>con_dev := e, con_fb := g\<rparr>)" .
  have "\<not> uv_dlab (uart e)" "port_run p com1_ports {} (con_dev k) e"
    using e(2) serial_init_view(1) [OF uart, of "con_dev k"] run_trans [OF _ serial_init_run] by (auto simp: line_took_def k2(4))
  moreover have "console_get_framebuffer (k2\<lparr>con_dev := e, con_fb := g\<rparr>) = console_get_framebuffer k2"
    by (simp add: console_get_framebuffer_def)
  ultimately show ?thesis
    using f(4-6) g(2-4) k2 run by (intro exI [of _ "k2\<lparr>con_dev := e, con_fb := g\<rparr>"]) (simp add: same_frame_as_def)
qed

text \<open>What the console shows and what it sends.\<close>

definition frame_of :: "'d console \<Rightarrow> framebuffer option" where
  "frame_of k = map_option (\<lambda>(addr, pitch, w, h, bpp). \<lparr>fb_addr = addr, fb_pitch = pitch, fb_height = h\<rparr>) (console_get_framebuffer k)"

lemma console_print_framebuffer:
  assumes "uart_line p uart" and "g_backend k = CONSOLE_BACKEND_FB" and "fb_inv (con_fb k)" and "displays (con_fb k)"
  shows "\<exists>f e. console_print p s k = Ok (k\<lparr>con_fb := f, con_dev := e\<rparr>) \<and> line_took p uart s (con_dev k) e \<and>
    fb_inv f \<and> displays f \<and> same_frame_as (con_fb k) f \<and> screen_of f = fold screen_put s (screen_of (con_fb k))"
proof -
  obtain f where f: "fb_print s (con_fb k) = Ok f" "fb_inv f" "displays f" "same_frame_as (con_fb k) f"
    "screen_of f = fold screen_put s (screen_of (con_fb k))"
    using fb_print_shows [OF assms(3,4), of s] by blast
  obtain e where "to_serial p s (k\<lparr>con_fb := f\<rparr>) = Ok (k\<lparr>con_fb := f, con_dev := e\<rparr>)" "line_took p uart s (con_dev k) e"
    using to_serial_returns [OF assms(1), of s "k\<lparr>con_fb := f\<rparr>"] by auto
  then show ?thesis using f assms(2) by (auto simp: console_print_def)
qed

section \<open>The frame is mapped\<close>

lemma dirs_of_memory:
  assumes "unat limit \<le> 0x20000000"
  shows "range_dirs 0 limit \<subseteq> {..<128}"
proof
  fix d assume "d \<in> range_dirs 0 limit"
  then obtain p where "p < (unat limit + 4095) div 4096" "d = p div 1024"
    by (auto simp: range_dirs_def range_pages_def split: if_splits)
  then have "p < 131072" using assms by linarith
  then show "d \<in> {..<128}" using \<open>d = p div 1024\<close> by (simp add: div_less_iff_less_mult)
qed

lemma dirs_of_frame:
  assumes "unat n \<le> 0x10000000"
  shows "range_dirs a n \<subseteq> {unat a div 4096 div 1024..<unat a div 4096 div 1024 + 66}"
proof
  let ?lo = "unat a div 4096 div 1024"
  fix d assume "d \<in> range_dirs a n"
  then obtain p where p: "unat a div 4096 \<le> p" "p < (unat a + unat n + 4095) div 4096" "d = p div 1024"
    by (auto simp: range_dirs_def range_pages_def split: if_splits)
  have "p < unat a div 4096 + 65537 + 1" using p(2) assms by linarith
  then have "d < ?lo + 66" using p(3) by linarith
  moreover have "?lo \<le> d" using p(1,3) by (simp add: div_le_mono)
  ultimately show "d \<in> {?lo..<?lo + 66}" by simp
qed

lemma card_two_ranges:
  assumes "unat limit \<le> 0x20000000" and "unat n \<le> 0x10000000"
  shows "card (range_dirs 0 limit \<union> range_dirs a n \<union> {96..99}) \<le> 256"
    and "card ((\<lambda>p. p div 1024) ` (range_pages 0 limit \<union> range_pages a n)) \<le> 256"
proof -
  let ?lo = "unat a div 4096 div 1024"
  let ?all = "range_dirs 0 limit \<union> range_dirs a n \<union> {96..99}"
  have "?all \<subseteq> {..<128} \<union> {?lo..<?lo + 66}"
    using dirs_of_memory [OF assms(1)] dirs_of_frame [OF assms(2), of a] by fastforce
  then have "card ?all \<le> card ({..<128 :: nat} \<union> {?lo..<?lo + 66})" by (intro card_mono) simp_all
  also have "\<dots> \<le> card {..<128 :: nat} + card {?lo..<?lo + 66}" by (rule card_Un_le)
  finally show all: "card ?all \<le> 256" by simp
  have "(\<lambda>p. p div 1024) ` (range_pages 0 limit \<union> range_pages a n) = range_dirs 0 limit \<union> range_dirs a n"
    by (simp add: range_dirs_def image_Un)
  moreover have "card (range_dirs 0 limit \<union> range_dirs a n) \<le> card ?all" by (rule card_mono) simp_all
  ultimately show "card ((\<lambda>p. p div 1024) ` (range_pages 0 limit \<union> range_pages a n)) \<le> 256" using all by simp
qed

lemma frame_range:
  assumes "frame_of k = Some \<lparr>fb_addr = addr, fb_pitch = pitch, fb_height = h\<rparr>" and "addr \<le> 0xFFFFFFFF"
    and "unat pitch * unat h < 2 ^ 32"
  shows "\<exists>n. fb_range (frame_of k) = Some (ucast addr, n) \<and> unat n = unat pitch * unat h"
proof -
  have u: "unat (ucast w :: u64) = unat w" for w :: u32
    by (simp add: unsigned_ucast_eq take_bit_nat_eq_self order.strict_trans [OF unat_u32_lt])
  have b: "unat (ucast pitch * ucast h :: u64) = unat pitch * unat h"
    using assms(3) by (simp add: unat_word_ariths u)
  have "\<not> (ucast pitch * ucast h :: u64) > 0xFFFFFFFF" using assms(3) by (simp add: word_less_nat_alt b)
  then have "fb_range (frame_of k) = Some (ucast addr, ucast (ucast pitch * ucast h :: u64))"
    using assms(1,2) by (simp add: fb_range_def fb_bytes_def not_less)
  moreover have "unat (ucast (ucast pitch * ucast h :: u64) :: u32) = unat pitch * unat h"
    using assms(3) by (simp add: unsigned_ucast_eq b take_bit_nat_eq_self)
  ultimately show ?thesis by blast
qed

lemma page_in_range:
  assumes "unat s \<le> unat a" and "unat a < unat s + unat n"
  shows "page_no a \<in> range_pages s n"
proof -
  have "unat s div 4096 \<le> unat a div 4096" using assms(1) by (rule div_le_mono)
  moreover have "unat a div 4096 < (unat s + unat n + 4095) div 4096" using assms(2) by linarith
  moreover have "n \<noteq> 0" using assms by auto
  ultimately show ?thesis by (simp add: range_pages_def)
qed

section \<open>Properties\<close>


text \<open>A block with one tag: 640 by 480 pixels of 32 bits at 0xE0000000.\<close>

definition framebuffer_block :: "u8 list" where
  "framebuffer_block =
     [48, 0, 0, 0, 0, 0, 0, 0,
      8, 0, 0, 0, 32, 0, 0, 0, 0, 0, 0, 0xE0, 0, 0, 0, 0, 0, 0x0A, 0, 0, 0x80, 0x02, 0, 0, 0xE0, 0x01, 0, 0, 32, 1, 0, 0,
      0, 0, 0, 0, 8, 0, 0, 0]"

definition framebuffer_mem :: mem where
  "framebuffer_mem a =
     (let i = unat (a - 0x1000) in if i < length framebuffer_block then framebuffer_block ! i else 0)"

text \<open>A serial line alone on the bus, full for five reads of its status after every character.\<close>

definition uart_ports :: "uart_view ports" where
  "uart_ports =
     \<lparr>inb = (\<lambda>port v. if port = COM1_PORT + 5 then (if uv_wait v = 0 then 0x60 else 0, v\<lparr>uv_wait := uv_wait v - 1\<rparr>) else (0xFF, v)),
      outb = (\<lambda>port x v.
        if port = COM1_PORT then
          (if uv_dlab v \<or> uv_wait v > 0 then v else v\<lparr>uv_wait := 5, uv_taken := uv_taken v @ [x]\<rparr>)
        else if port = COM1_PORT + 3 then v\<lparr>uv_dlab := x AND 0x80 \<noteq> 0\<rparr> else v),
      inw = (\<lambda>port v. (0xFFFF, v)), outw = (\<lambda>port x v. v)\<rparr>"

definition cold_uart :: uart_view where
  "cold_uart = \<lparr>uv_wait = 0, uv_dlab = True, uv_taken = []\<rparr>"

lemma uart_ports_line: "uart_line uart_ports (\<lambda>v. v)"
proof -
  have "\<exists>b. v = v\<lparr>uv_wait := b\<rparr>" "\<exists>b. v\<lparr>uv_dlab := x\<rparr> = v\<lparr>uv_wait := b, uv_dlab := x\<rparr>" for x and v :: uart_view
    by (rule exI [of _ "uv_wait v"], simp)+
  then show ?thesis
    unfolding uart_line_def by (auto simp: uart_ports_def intro: exI [of _ 5])
qed

definition cold_console :: "uart_view console" where
  "cold_console =
     \<lparr>g_backend = CONSOLE_BACKEND_TERMINAL, g_fb_phys_addr = 0, g_fb_pitch = 0, g_fb_width = 0, g_fb_height = 0, g_fb_bpp = 0,
      g_fb_valid = False, con_fb = fbcon_zero framebuffer_mem, con_term = terminal_boot (replicate 2000 0), con_dev = cold_uart\<rparr>"

lemma framebuffer_block_tag:
  "framebuffer_tags framebuffer_mem 0x1000 8 [] (Some 0x1008)" "framebuffer_addr framebuffer_mem 0x1008 = 0xE0000000"
  "framebuffer_pitch framebuffer_mem 0x1008 = 2560" "framebuffer_width framebuffer_mem 0x1008 = 640"
  "framebuffer_height framebuffer_mem 0x1008 = 480" "framebuffer_bpp framebuffer_mem 0x1008 = 32"
  by code_simp+


end
