(* ===== verification/Ata_Pio.thy ===== *)
theory Ata_Pio
  imports Blockdev Ports Console_Text
begin

text \<open>
  The driver for ATA disks (\<open>kernel/drivers/ata_pio.c\<close>), a program over the ports. A buffer is a list of
  bytes that the driver reads and writes as 16-bit words, low byte first; an access behind its end is
  \<open>Wild\<close>. The loops of \<open>ata_identify\<close> wait without a bound and are partial functions.
\<close>

abbreviation (input) ATA_SR_BSY :: u8 where "ATA_SR_BSY \<equiv> 0x80"
abbreviation (input) ATA_SR_DRDY :: u8 where "ATA_SR_DRDY \<equiv> 0x40"
abbreviation (input) ATA_SR_DRQ :: u8 where "ATA_SR_DRQ \<equiv> 0x08"
abbreviation (input) ATA_SR_ERR :: u8 where "ATA_SR_ERR \<equiv> 0x01"
abbreviation (input) ATA_CMD_READ_PIO :: u8 where "ATA_CMD_READ_PIO \<equiv> 0x20"
abbreviation (input) ATA_CMD_WRITE_PIO :: u8 where "ATA_CMD_WRITE_PIO \<equiv> 0x30"
abbreviation (input) ATA_CMD_CACHE_FLUSH :: u8 where "ATA_CMD_CACHE_FLUSH \<equiv> 0xE7"
abbreviation (input) ATA_CMD_IDENTIFY :: u8 where "ATA_CMD_IDENTIFY \<equiv> 0xEC"
abbreviation (input) ATA_PRIMARY_IO :: u16 where "ATA_PRIMARY_IO \<equiv> 0x1F0"
abbreviation (input) ATA_SECONDARY_IO :: u16 where "ATA_SECONDARY_IO \<equiv> 0x170"
abbreviation (input) ATA_PRIMARY_CTRL :: u16 where "ATA_PRIMARY_CTRL \<equiv> 0x3F6"
abbreviation (input) ATA_SECONDARY_CTRL :: u16 where "ATA_SECONDARY_CTRL \<equiv> 0x376"
abbreviation (input) ATA_SEL_MASTER :: u8 where "ATA_SEL_MASTER \<equiv> 0xA0"
abbreviation (input) ATA_SEL_SLAVE :: u8 where "ATA_SEL_SLAVE \<equiv> 0xB0"

record ata_ctx =
  at_io :: u16
  at_ctrl :: u16
  at_slave :: bool

definition ata_select :: "ata_ctx \<Rightarrow> u8" where
  "ata_select ctx = (if at_slave ctx then ATA_SEL_SLAVE else ATA_SEL_MASTER)"

section \<open>Sizes\<close>

text \<open>Sectors of 512 bytes in GiB, with two decimals.\<close>

definition size_gib :: "u32 \<Rightarrow> u8 list" where
  "size_gib sectors =
     (let whole = sectors div 2097152; rem = sectors mod 2097152; frac = (rem * 100) div 2097152
      in print_u32 whole @ [ch_dot, 48 + ucast (frac div 10), 48 + ucast (frac mod 10)])"

section \<open>Waiting\<close>

definition io_delay_400ns :: "'d ports \<Rightarrow> u16 \<Rightarrow> 'd \<Rightarrow> 'd" where
  "io_delay_400ns p ctrl d = snd (inb p ctrl (snd (inb p ctrl (snd (inb p ctrl (snd (inb p ctrl d)))))))"

text \<open>\<open>while (timeout--)\<close>.\<close>

fun poll_loop :: "'d ports \<Rightarrow> u16 \<Rightarrow> nat \<Rightarrow> 'd \<Rightarrow> int \<times> 'd" where
  "poll_loop p io 0 d = (-1, d)"
| "poll_loop p io (Suc timeout) d =
     (case inb p (io + 7) d of
        (status, d) \<Rightarrow>
          if status AND ATA_SR_BSY = 0 then
            if status AND ATA_SR_ERR \<noteq> 0 then (-1, d)
            else if status AND ATA_SR_DRQ \<noteq> 0 then (0, d)
            else if status AND ATA_SR_DRDY \<noteq> 0 then (0, d)
            else poll_loop p io timeout d
          else poll_loop p io timeout d)"

definition ata_poll_ready :: "'d ports \<Rightarrow> u16 \<Rightarrow> u16 \<Rightarrow> 'd \<Rightarrow> int \<times> 'd" where
  "ata_poll_ready p io ctrl d = poll_loop p io 1000000 (io_delay_400ns p ctrl d)"

section \<open>Identification\<close>

text \<open>\<open>while (status & BSY) status = inb(io + 7);\<close>\<close>

partial_function (option) wait_not_busy :: "'d ports \<Rightarrow> u16 \<Rightarrow> u8 \<Rightarrow> 'd \<Rightarrow> (u8 \<times> 'd) option" where
  "wait_not_busy p io status d =
     (if status AND ATA_SR_BSY = 0 then Some (status, d)
      else wait_not_busy p io (fst (inb p (io + 7) d)) (snd (inb p (io + 7) d)))"

text \<open>The loop that waits for data; the first result tells an error.\<close>

partial_function (option) wait_data :: "'d ports \<Rightarrow> u16 \<Rightarrow> u8 \<Rightarrow> 'd \<Rightarrow> (bool \<times> 'd) option" where
  "wait_data p io status d =
     (if status AND ATA_SR_DRQ \<noteq> 0 then Some (False, d)
      else if status AND ATA_SR_ERR \<noteq> 0 then Some (True, d)
      else wait_data p io (fst (inb p (io + 7) d)) (snd (inb p (io + 7) d)))"

fun in_words :: "'d ports \<Rightarrow> u16 \<Rightarrow> nat \<Rightarrow> 'd \<Rightarrow> u16 list \<times> 'd" where
  "in_words p io 0 d = ([], d)"
| "in_words p io (Suc n) d =
     (case inw p io d of (w, d) \<Rightarrow> case in_words p io n d of (ws, d) \<Rightarrow> (w # ws, d))"

text \<open>The number of sectors, or \<open>None\<close> for the code -1.\<close>

definition ata_identify :: "'d ports \<Rightarrow> ata_ctx \<Rightarrow> 'd \<Rightarrow> (u32 option \<times> 'd) res" where
  "ata_identify p ctx d =
     (let io = at_io ctx;
          d = io_delay_400ns p (at_ctrl ctx) (outb p (io + 6) (ata_select ctx OR 0x40) d);
          d = outs p [(io + 2, 0), (io + 3, 0), (io + 4, 0), (io + 5, 0), (io + 7, ATA_CMD_IDENTIFY)] d
      in case inb p (io + 7) d of
           (status, d) \<Rightarrow>
             if status = 0 then Ok (None, d)
             else
               (case wait_not_busy p io status d of
                  None \<Rightarrow> Fail Hang
                | Some (status, d) \<Rightarrow>
                    (case inb p (io + 4) d of
                       (mid, d) \<Rightarrow>
                         if mid \<noteq> 0 then Ok (None, d)
                         else
                           (case inb p (io + 5) d of
                              (hi, d) \<Rightarrow>
                                if hi \<noteq> 0 then Ok (None, d)
                                else
                                  (case wait_data p io status d of
                                     None \<Rightarrow> Fail Hang
                                   | Some (True, d) \<Rightarrow> Ok (None, d)
                                   | Some (False, d) \<Rightarrow>
                                       (case in_words p io 256 d of
                                          (identify, d) \<Rightarrow>
                                            let sectors = push_bit 16 (ucast (identify ! 61)) OR ucast (identify ! 60)
                                            in Ok (if sectors > 0 then Some sectors else None, d)))))))"

section \<open>Reading and writing\<close>

definition word_bytes :: "u16 \<Rightarrow> u8 list" where
  "word_bytes w = [ucast w, ucast (drop_bit 8 w)]"

definition word_at :: "u8 list \<Rightarrow> nat \<Rightarrow> u16" where
  "word_at buf i = ucast (buf ! (2 * i)) OR push_bit 8 (ucast (buf ! (2 * i + 1)))"

text \<open>The words from index \<open>i\<close> on, \<open>n\<close> of them.\<close>

fun read_words :: "'d ports \<Rightarrow> u16 \<Rightarrow> nat \<Rightarrow> nat \<Rightarrow> u8 list \<Rightarrow> 'd \<Rightarrow> (u8 list \<times> 'd) res" where
  "read_words p io i 0 buf d = Ok (buf, d)"
| "read_words p io i (Suc n) buf d =
     (case inw p io d of
        (w, d) \<Rightarrow> if 2 * i + 2 \<le> length buf then read_words p io (i + 1) n (blit buf (2 * i) (word_bytes w)) d else Fail Wild)"

fun write_words :: "'d ports \<Rightarrow> u16 \<Rightarrow> nat \<Rightarrow> nat \<Rightarrow> u8 list \<Rightarrow> 'd \<Rightarrow> 'd res" where
  "write_words p io i 0 buf d = Ok d"
| "write_words p io i (Suc n) buf d =
     (if 2 * i + 2 \<le> length buf then write_words p io (i + 1) n buf (outw p io (word_at buf i) d) else Fail Wild)"

text \<open>The loops over the sectors; \<open>s\<close> is the first, \<open>n\<close> the number left.\<close>

fun read_sectors :: "'d ports \<Rightarrow> ata_ctx \<Rightarrow> nat \<Rightarrow> nat \<Rightarrow> u8 list \<Rightarrow> 'd \<Rightarrow> (int \<times> u8 list \<times> 'd) res" where
  "read_sectors p ctx s 0 buf d = Ok (0, buf, d)"
| "read_sectors p ctx s (Suc n) buf d =
     (case ata_poll_ready p (at_io ctx) (at_ctrl ctx) d of
        (rc, d) \<Rightarrow>
          if rc \<noteq> 0 then Ok (-1, buf, d)
          else rbind (read_words p (at_io ctx) (s * 256) 256 buf d) (\<lambda>(buf, d).
                 read_sectors p ctx (s + 1) n buf (io_delay_400ns p (at_ctrl ctx) d)))"

fun write_sectors :: "'d ports \<Rightarrow> ata_ctx \<Rightarrow> nat \<Rightarrow> nat \<Rightarrow> u8 list \<Rightarrow> 'd \<Rightarrow> (int \<times> 'd) res" where
  "write_sectors p ctx s 0 buf d = Ok (0, d)"
| "write_sectors p ctx s (Suc n) buf d =
     (case ata_poll_ready p (at_io ctx) (at_ctrl ctx) d of
        (rc, d) \<Rightarrow>
          if rc \<noteq> 0 then Ok (-1, d)
          else rbind (write_words p (at_io ctx) (s * 256) 256 buf d) (\<lambda>d.
                 write_sectors p ctx (s + 1) n buf (io_delay_400ns p (at_ctrl ctx) d)))"

text \<open>The guards of both operations, and the writes to the registers up to the command.\<close>

definition transfer_refused :: "ata_ctx bd_info \<Rightarrow> u32 \<Rightarrow> u32 \<Rightarrow> bool" where
  "transfer_refused dev lba count \<longleftrightarrow>
     count = 0 \<or> bd_sector_size dev \<noteq> 512 \<or> lba + count > bd_sector_count dev \<or> count > 255"

definition start_command :: "'d ports \<Rightarrow> ata_ctx \<Rightarrow> u32 \<Rightarrow> u32 \<Rightarrow> u8 \<Rightarrow> 'd \<Rightarrow> 'd" where
  "start_command p ctx lba count cmd d =
     (let io = at_io ctx
      in outs p [(at_ctrl ctx, 0x00), (io + 6, ata_select ctx OR ucast (drop_bit 24 lba AND 0x0F)), (io + 2, ucast count),
                 (io + 3, ucast (lba AND 0xFF)), (io + 4, ucast (drop_bit 8 lba AND 0xFF)),
                 (io + 5, ucast (drop_bit 16 lba AND 0xFF)), (io + 7, cmd)] d)"

definition ata_pio_read :: "'d ports \<Rightarrow> (ata_ctx, 'd) blockdev_read_fn" where
  "ata_pio_read p dev lba count buf d =
     (case buf of
        None \<Rightarrow> Ok (-1, buf, d)
      | Some b \<Rightarrow>
          if transfer_refused dev lba count then Ok (-1, buf, d)
          else
            (case bd_ctx dev of
               None \<Rightarrow> Ok (-1, buf, d)
             | Some ctx \<Rightarrow>
                 rbind (read_sectors p ctx 0 (unat count) b (start_command p ctx lba count ATA_CMD_READ_PIO d))
                   (\<lambda>(rc, b, d). Ok (rc, Some b, d))))"

definition ata_pio_write :: "'d ports \<Rightarrow> (ata_ctx, 'd) blockdev_write_fn" where
  "ata_pio_write p dev lba count buf d =
     (case buf of
        None \<Rightarrow> Ok (-1, d)
      | Some b \<Rightarrow>
          if transfer_refused dev lba count then Ok (-1, d)
          else
            (case bd_ctx dev of
               None \<Rightarrow> Ok (-1, d)
             | Some ctx \<Rightarrow>
                 rbind (write_sectors p ctx 0 (unat count) b (start_command p ctx lba count ATA_CMD_WRITE_PIO d)) (\<lambda>(rc, d).
                   if rc \<noteq> 0 then Ok (-1, d)
                   else
                     (case ata_poll_ready p (at_io ctx) (at_ctrl ctx) (outb p (at_io ctx + 7) ATA_CMD_CACHE_FLUSH d) of
                        (rc, d) \<Rightarrow> Ok (if rc \<noteq> 0 then -1 else 0, d)))))"

section \<open>Discovery\<close>

text \<open>The device as it is registered, with the name \<open>hd\<close> and a digit.\<close>

definition ata_dev :: "'d ports \<Rightarrow> ata_ctx \<Rightarrow> u32 \<Rightarrow> u32 \<Rightarrow> (ata_ctx, 'd) blockdev" where
  "ata_dev p ctx sectors count =
     \<lparr>bd_name = lit ''hd'' @ [48 + ucast count] @ replicate 5 0, bd_type = BLOCKDEV_TYPE_ATA, bd_sector_size = 512,
      bd_sector_count = sectors, bd_ctx = Some ctx, bd_read = Some (ata_pio_read p), bd_write = Some (ata_pio_write p)\<rparr>"

text \<open>The text printed, the table of devices and the state of the hardware. Nothing reads \<open>g_ata_devs\<close>.\<close>

definition detect_one ::
  "'d ports \<Rightarrow> u16 \<Rightarrow> u16 \<Rightarrow> bool \<Rightarrow> u8 list \<times> (ata_ctx, 'd) registry \<times> 'd \<Rightarrow> (u8 list \<times> (ata_ctx, 'd) registry \<times> 'd) res" where
  "detect_one p io ctrl slave s =
     (case s of
        (out, reg, d) \<Rightarrow>
          let ctx = \<lparr>at_io = io, at_ctrl = ctrl, at_slave = slave\<rparr>
          in rbind (ata_identify p ctx d) (\<lambda>(found, d).
               case found of
                 None \<Rightarrow>
                   Ok (out @ lit ''ATA: identify failed on '' @ (if io = ATA_PRIMARY_IO then lit ''primary '' else lit ''secondary '') @
                       (if slave then line ''slave'' else line ''master''), reg, d)
               | Some sectors \<Rightarrow>
                   (let dev = ata_dev p ctx sectors (block_count reg)
                    in case block_register (Some dev) reg of
                         (rc, reg) \<Rightarrow>
                           if rc \<noteq> 0 then Ok (out @ line ''BLOCK: registry full, ATA device skipped'', reg, d)
                           else Ok (out @ lit ''BLOCK: found '' @ c_text (bd_name dev) @ lit '' ATA 512B/sector '' @ print_u32 sectors @
                                    lit '' sectors '' @ size_gib sectors @ line '' GiB'', reg, d))))"

definition ata_pio_discover :: "'d ports \<Rightarrow> (ata_ctx, 'd) registry \<Rightarrow> 'd \<Rightarrow> (u8 list \<times> (ata_ctx, 'd) registry \<times> 'd) res" where
  "ata_pio_discover p reg d =
     rbind (detect_one p ATA_PRIMARY_IO ATA_PRIMARY_CTRL False ([], reg, d)) (\<lambda>s.
     rbind (detect_one p ATA_PRIMARY_IO ATA_PRIMARY_CTRL True s) (\<lambda>s.
     rbind (detect_one p ATA_SECONDARY_IO ATA_SECONDARY_CTRL False s) (\<lambda>s.
     rbind (detect_one p ATA_SECONDARY_IO ATA_SECONDARY_CTRL True s) (\<lambda>(out, reg', d).
       Ok (if block_count reg' = block_count reg then out @ line ''BLOCK: no disk found'' else out, reg', d)))))"

end
