(* ===== verification/Ata_Spec.thy ===== *)
theory Ata_Spec
  imports Ata_Pio Fat32_Format
begin

text \<open>
  The ATA driver against the protocol of the drives. What a channel with up to two drives does at its
  registers is stated as laws on an abstract view of the selected drive: the registers and the way a drive
  says that it is busy, has data or an error (\<open>ata_regs\<close>), the identification (\<open>ata_channel\<close>), the transfers
  (\<open>ata_drive\<close>). Registers are written and commands given only while the drive is not busy and no data is
  outstanding: what else would do, the laws leave open. How the four address registers select a sector is a
  parameter, \<open>decode\<close>: with bit 6 of the drive register they hold a linear address, without it cylinder,
  head and sector, and sectors are counted from 1. The driver never sets this bit in a transfer.
\<close>

section \<open>The registers of a channel\<close>

record ata_view =
  av_dev :: u8
  av_count :: u8
  av_lo :: u8
  av_mid :: u8
  av_hi :: u8
  av_busy :: nat              \<comment> \<open>how often the status will still say busy\<close>
  av_err :: bool
  av_in :: "u16 list"         \<comment> \<open>the words the drive still delivers\<close>
  av_target :: nat
  av_room :: nat              \<comment> \<open>the words it still takes for the sector \<open>av_target\<close>\<close>
  av_acc :: "u16 list"
  av_store :: "nat \<Rightarrow> u16 list"

text \<open>Not busy, and no words of a transfer outstanding. Bit 4 of the drive register selects the slave.\<close>

definition av_quiet :: "ata_view \<Rightarrow> bool" where
  "av_quiet v \<longleftrightarrow> av_busy v = 0 \<and> av_in v = [] \<and> av_room v = 0"

definition av_slave :: "ata_view \<Rightarrow> bool" where
  "av_slave v \<longleftrightarrow> av_dev v AND 0x10 \<noteq> 0"

text \<open>What a status says of the state of a drive; while the drive is busy, the other bits say nothing.\<close>

definition av_says :: "u8 \<Rightarrow> ata_view \<Rightarrow> bool" where
  "av_says st v \<longleftrightarrow>
     (if av_busy v > 0 then st AND ATA_SR_BSY \<noteq> 0
      else st AND ATA_SR_BSY = 0 \<and> (st AND ATA_SR_ERR \<noteq> 0 \<longleftrightarrow> av_err v) \<and>
        (st AND ATA_SR_DRQ \<noteq> 0 \<longleftrightarrow> av_in v \<noteq> [] \<or> av_room v > 0))"

text \<open>
  Where no drive is selected, the status reads as 0, and nothing is said of the registers. Both status ports
  take the same time to read, and a drive is busy for finitely many reads. After a selection the registers
  are those of the selected drive.
\<close>

definition ata_regs :: "'d ports \<Rightarrow> u16 \<Rightarrow> u16 \<Rightarrow> (bool \<Rightarrow> bool) \<Rightarrow> ('d \<Rightarrow> ata_view) \<Rightarrow> bool" where
  "ata_regs p io ctrl present view \<longleftrightarrow>
     (\<forall>d. if present (av_slave (view d)) then av_says (fst (inb p (io + 7) d)) (view d) else fst (inb p (io + 7) d) = 0) \<and>
     (\<forall>d. view (snd (inb p (io + 7) d)) = (view d)\<lparr>av_busy := av_busy (view d) - 1\<rparr>) \<and>
     (\<forall>d. view (snd (inb p ctrl d)) = (view d)\<lparr>av_busy := av_busy (view d) - 1\<rparr>) \<and>
     (\<forall>d. view (outb p ctrl 0 d) = view d) \<and>
     (\<forall>d x. av_quiet (view d) \<longrightarrow> (\<exists>y c l m h e. view (outb p (io + 6) x d) =
          (view d)\<lparr>av_dev := y, av_count := c, av_lo := l, av_mid := m, av_hi := h, av_err := e\<rparr> \<and>
        (if present (x AND 0x10 \<noteq> 0) then y = x else \<not> present (y AND 0x10 \<noteq> 0)))) \<and>
     (\<forall>d x. av_quiet (view d) \<and> present (av_slave (view d)) \<longrightarrow> view (outb p (io + 2) x d) = (view d)\<lparr>av_count := x\<rparr>) \<and>
     (\<forall>d x. av_quiet (view d) \<and> present (av_slave (view d)) \<longrightarrow> view (outb p (io + 3) x d) = (view d)\<lparr>av_lo := x\<rparr>) \<and>
     (\<forall>d x. av_quiet (view d) \<and> present (av_slave (view d)) \<longrightarrow> view (outb p (io + 4) x d) = (view d)\<lparr>av_mid := x\<rparr>) \<and>
     (\<forall>d x. av_quiet (view d) \<and> present (av_slave (view d)) \<longrightarrow> view (outb p (io + 5) x d) = (view d)\<lparr>av_hi := x\<rparr>) \<and>
     (\<forall>d x. \<forall>i\<in>{2, 3, 4, 5}. av_quiet (view d) \<and> \<not> present (av_slave (view d)) \<longrightarrow>
        (\<exists>c l m h. view (outb p (io + i) x d) = (view d)\<lparr>av_count := c, av_lo := l, av_mid := m, av_hi := h\<rparr>)) \<and>
     (\<forall>d. present (av_slave (view d)) \<and> av_busy (view d) = 0 \<longrightarrow>
        fst (inb p (io + 4) d) = av_mid (view d) \<and> view (snd (inb p (io + 4) d)) = view d \<and>
        fst (inb p (io + 5) d) = av_hi (view d) \<and> view (snd (inb p (io + 5) d)) = view d) \<and>
     (\<forall>d w ws. av_busy (view d) = 0 \<and> av_in (view d) = w # ws \<longrightarrow>
        fst (inw p io d) = w \<and> view (snd (inw p io d)) = (view d)\<lparr>av_in := ws\<rparr>)"

lemma ata_regsD:
  assumes "ata_regs p io ctrl present view"
  shows "present (av_slave (view d)) \<Longrightarrow> av_says (fst (inb p (io + 7) d)) (view d)"
    and "\<not> present (av_slave (view d)) \<Longrightarrow> fst (inb p (io + 7) d) = 0"
    and "view (snd (inb p (io + 7) d)) = (view d)\<lparr>av_busy := av_busy (view d) - 1\<rparr>"
    and "view (snd (inb p ctrl d)) = (view d)\<lparr>av_busy := av_busy (view d) - 1\<rparr>"
    and "view (outb p ctrl 0 d) = view d"
    and "av_busy (view d) = 0 \<Longrightarrow> av_in (view d) = w # ws \<Longrightarrow> fst (inw p io d) = w"
    and "av_busy (view d) = 0 \<Longrightarrow> av_in (view d) = w # ws \<Longrightarrow> view (snd (inw p io d)) = (view d)\<lparr>av_in := ws\<rparr>"
  using assms unfolding ata_regs_def by meson+

lemma ata_regs_select:
  assumes "ata_regs p io ctrl present view" and "av_quiet (view d)"
  obtains y c l m h e where "view (outb p (io + 6) x d) =
      (view d)\<lparr>av_dev := y, av_count := c, av_lo := l, av_mid := m, av_hi := h, av_err := e\<rparr>"
    "if present (x AND 0x10 \<noteq> 0) then y = x else \<not> present (y AND 0x10 \<noteq> 0)"
  using assms unfolding ata_regs_def by meson

lemma ata_regs_write:
  assumes "ata_regs p io ctrl present view" and "av_quiet (view d)"
  shows "present (av_slave (view d)) \<Longrightarrow> view (outb p (io + 2) x d) = (view d)\<lparr>av_count := x\<rparr>"
    and "present (av_slave (view d)) \<Longrightarrow> view (outb p (io + 3) x d) = (view d)\<lparr>av_lo := x\<rparr>"
    and "present (av_slave (view d)) \<Longrightarrow> view (outb p (io + 4) x d) = (view d)\<lparr>av_mid := x\<rparr>"
    and "present (av_slave (view d)) \<Longrightarrow> view (outb p (io + 5) x d) = (view d)\<lparr>av_hi := x\<rparr>"
    and "\<not> present (av_slave (view d)) \<Longrightarrow> i \<in> {2, 3, 4, 5} \<Longrightarrow>
      \<exists>c l m h. view (outb p (io + i) x d) = (view d)\<lparr>av_count := c, av_lo := l, av_mid := m, av_hi := h\<rparr>"
  using assms unfolding ata_regs_def by meson+

lemma ata_regs_read:
  assumes "ata_regs p io ctrl present view" and "present (av_slave (view d))" and "av_busy (view d) = 0"
  shows "fst (inb p (io + 4) d) = av_mid (view d)" "view (snd (inb p (io + 4) d)) = view d"
    and "fst (inb p (io + 5) d) = av_hi (view d)" "view (snd (inb p (io + 5) d)) = view d"
  using assms unfolding ata_regs_def by meson+

text \<open>The delay of four reads of the alternate status.\<close>

lemma delay_view:
  "ata_regs p io ctrl present view \<Longrightarrow> view (io_delay_400ns p ctrl d) = (view d)\<lparr>av_busy := av_busy (view d) - 4\<rparr>"
  by (simp add: io_delay_400ns_def ata_regsD(4))

lemma quiet_simps [simp]:
  "av_quiet (v\<lparr>av_dev := a\<rparr>) = av_quiet v" "av_quiet (v\<lparr>av_count := a\<rparr>) = av_quiet v" "av_quiet (v\<lparr>av_lo := a\<rparr>) = av_quiet v"
  "av_quiet (v\<lparr>av_mid := a\<rparr>) = av_quiet v" "av_quiet (v\<lparr>av_hi := a\<rparr>) = av_quiet v" "av_quiet (v\<lparr>av_err := e\<rparr>) = av_quiet v"
  by (simp_all add: av_quiet_def)

lemma slave_simps [simp]:
  "av_slave (v\<lparr>av_count := a\<rparr>) = av_slave v" "av_slave (v\<lparr>av_lo := a\<rparr>) = av_slave v" "av_slave (v\<lparr>av_mid := a\<rparr>) = av_slave v"
  "av_slave (v\<lparr>av_hi := a\<rparr>) = av_slave v" "av_slave (v\<lparr>av_err := e\<rparr>) = av_slave v" "av_slave (v\<lparr>av_busy := n\<rparr>) = av_slave v"
  "av_slave (v\<lparr>av_dev := a\<rparr>) \<longleftrightarrow> a AND 0x10 \<noteq> 0"
  by (simp_all add: av_slave_def)

lemma quiet_delay: "av_quiet v \<Longrightarrow> v\<lparr>av_busy := av_busy v - n\<rparr> = v"
  by (simp add: av_quiet_def)

section \<open>Identification\<close>

text \<open>
  A drive answers the command with 256 words, leaving the address registers alone, or aborts it, as a drive
  for packet commands does, which leaves its signature there. Where no drive is selected nothing happens. A
  channel without a transfer is not changed by accesses to other ports.
\<close>

definition of_channel :: "u16 \<Rightarrow> u16 \<Rightarrow> u16 \<Rightarrow> bool" where
  "of_channel io ctrl port \<longleftrightarrow> port - io < 8 \<or> port = ctrl"

definition identify_reply :: "ata_view \<Rightarrow> ata_view \<Rightarrow> bool" where
  "identify_reply v w \<longleftrightarrow> av_dev w = av_dev v \<and> av_room w = 0 \<and>
     (if av_err w then av_in w = [] else length (av_in w) = 256 \<and> av_mid w = av_mid v \<and> av_hi w = av_hi v)"

definition ata_channel :: "'d ports \<Rightarrow> u16 \<Rightarrow> u16 \<Rightarrow> (bool \<Rightarrow> bool) \<Rightarrow> ('d \<Rightarrow> ata_view) \<Rightarrow> bool" where
  "ata_channel p io ctrl present view \<longleftrightarrow>
     ata_regs p io ctrl present view \<and>
     (\<forall>d. av_quiet (view d) \<longrightarrow>
        (if present (av_slave (view d)) then identify_reply (view d) (view (outb p (io + 7) ATA_CMD_IDENTIFY d))
         else view (outb p (io + 7) ATA_CMD_IDENTIFY d) = view d)) \<and>
     (\<forall>port x d. \<not> of_channel io ctrl port \<and> av_quiet (view d) \<longrightarrow>
        view (snd (inb p port d)) = view d \<and> view (outb p port x d) = view d \<and> view (snd (inw p port d)) = view d)"

lemma channel_other_ports:
  assumes "ata_channel p io ctrl present view" and "port_run p S W d e" and "av_quiet (view d)"
    and "\<And>port. port \<in> S \<union> W \<Longrightarrow> \<not> of_channel io ctrl port"
  shows "view e = view d"
proof -
  have "av_quiet (view e) \<and> view e = view d"
    by (rule run_keeps [OF assms(2)]) (use assms(1,3,4) in \<open>auto simp: ata_channel_def\<close>)
  then show ?thesis ..
qed

lemma run_mono: "port_run p S W d e \<Longrightarrow> S \<subseteq> S' \<Longrightarrow> W \<subseteq> W' \<Longrightarrow> port_run p S' W' d e"
  by (induction rule: port_run.induct) (blast intro: run_refl run_in run_out run_word)+

lemma wait_not_busy_returns:
  assumes "ata_regs p io ctrl present view" and "present (av_slave v)"
  shows "av_says st v \<Longrightarrow> view d = v\<lparr>av_busy := n - 1\<rparr> \<Longrightarrow> av_busy v = n \<Longrightarrow>
    \<exists>st' d'. wait_not_busy p io st d = Some (st', d') \<and> av_says st' (v\<lparr>av_busy := 0\<rparr>) \<and> view d' = v\<lparr>av_busy := 0\<rparr> \<and>
      port_run p {io + 7} {} d d'"
  using assms(2)
proof (induction n arbitrary: st d v)
  case 0
  then have "wait_not_busy p io st d = Some (st, d)" by (subst wait_not_busy.simps) (simp add: av_says_def)
  moreover have e: "v\<lparr>av_busy := 0\<rparr> = v" using 0(3) by simp
  moreover have "view d = v" using 0(2) e by simp
  ultimately show ?case using 0(1) by (simp only: e) (auto intro: run_refl)
next
  case (Suc n)
  let ?v = "v\<lparr>av_busy := n\<rparr>" and ?r = "inb p (io + 7) d"
  have v: "view d = ?v" using Suc.prems(2) by simp
  have "av_slave ?v = av_slave v" by (simp add: av_slave_def)
  then have pr: "present (av_slave ?v)" using Suc.prems(4) by simp
  have says: "av_says (fst ?r) ?v" using ata_regsD(1) [OF assms(1), of d] pr by (simp add: v)
  have "view (snd ?r) = ?v\<lparr>av_busy := n - 1\<rparr>" using ata_regsD(3) [OF assms(1), of d] by (simp add: v)
  from Suc.IH [OF says this _ pr] obtain st' d' where r: "wait_not_busy p io (fst ?r) (snd ?r) = Some (st', d')"
    "av_says st' (?v\<lparr>av_busy := 0\<rparr>)" "view d' = ?v\<lparr>av_busy := 0\<rparr>" "port_run p {io + 7} {} (snd ?r) d'" by auto
  have "st AND ATA_SR_BSY \<noteq> 0" using Suc.prems(1,3) by (simp add: av_says_def)
  then have "wait_not_busy p io st d = Some (st', d')" using r(1) by (subst wait_not_busy.simps) simp
  moreover have "port_run p {io + 7} {} d d'" by (rule run_trans [OF r(4) run_in [OF run_refl]]) simp
  ultimately show ?case using r(2,3) by auto
qed

lemma in_words_view:
  assumes "ata_regs p io ctrl present view"
  shows "av_busy (view d) = 0 \<Longrightarrow> av_in (view d) = ws \<Longrightarrow>
    \<exists>d'. in_words p io (length ws) d = (ws, d') \<and> view d' = (view d)\<lparr>av_in := []\<rparr> \<and> port_run p {} {io} d d'"
proof (induction ws arbitrary: d)
  case Nil
  then show ?case by (auto intro: run_refl)
next
  case (Cons w ws)
  let ?d = "snd (inw p io d)"
  have v: "inw p io d = (w, ?d)" "view ?d = (view d)\<lparr>av_in := ws\<rparr>"
    using ata_regsD(6,7) [OF assms Cons.prems] by (simp_all add: prod_eq_iff)
  then obtain d' where d': "in_words p io (length ws) ?d = (ws, d')" "view d' = (view ?d)\<lparr>av_in := []\<rparr>" "port_run p {} {io} ?d d'"
    using Cons.IH [of ?d] Cons.prems by auto
  have "in_words p io (length (w # ws)) d = (w # ws, d')" using d'(1) by (simp add: split_beta) (metis v(1) fst_conv)
  moreover have "port_run p {} {io} d d'" by (rule run_trans [OF d'(3) run_word [OF run_refl]]) simp
  ultimately show ?case using d'(2) v(2) by auto
qed

text \<open>The registers before the command, and the state after it.\<close>

lemma identify_command:
  assumes ch: "ata_channel p (at_io ctx) (at_ctrl ctx) present view" and "av_quiet (view d)"
  defines "e \<equiv> outs p [(at_io ctx + 2, 0), (at_io ctx + 3, 0), (at_io ctx + 4, 0), (at_io ctx + 5, 0), (at_io ctx + 7, ATA_CMD_IDENTIFY)]
      (io_delay_400ns p (at_ctrl ctx) (outb p (at_io ctx + 6) (ata_select ctx OR 0x40) d))"
  shows "if present (av_slave (view e))
      then av_room (view e) = 0 \<and>
        (if av_err (view e) then av_in (view e) = [] else length (av_in (view e)) = 256 \<and> av_mid (view e) = 0 \<and> av_hi (view e) = 0)
      else av_quiet (view e)"
proof -
  have regs: "ata_regs p (at_io ctx) (at_ctrl ctx) present view" using ch by (simp add: ata_channel_def)
  note R = ata_regsD [OF regs]
  define d1 where "d1 = outb p (at_io ctx + 6) (ata_select ctx OR 0x40) d"
  define d2 where "d2 = io_delay_400ns p (at_ctrl ctx) d1"
  obtain y c l m h er where "view d1 = (view d)\<lparr>av_dev := y, av_count := c, av_lo := l, av_mid := m, av_hi := h, av_err := er\<rparr>"
    unfolding d1_def by (rule ata_regs_select [OF regs assms(2), of "ata_select ctx OR 0x40"])
  then have q: "av_quiet (view d2)" using assms(2) by (simp add: d2_def delay_view [OF regs] av_quiet_def)
  define d3 where "d3 = outs p [(at_io ctx + 2, 0), (at_io ctx + 3, 0), (at_io ctx + 4, 0), (at_io ctx + 5, 0)] d2"
  have d3: "av_quiet (view d3) \<and> av_slave (view d3) = av_slave (view d2) \<and>
      (present (av_slave (view d2)) \<longrightarrow> av_mid (view d3) = 0 \<and> av_hi (view d3) = 0)"
  proof (cases "present (av_slave (view d2))")
    case True
    then have "view d3 = (view d2)\<lparr>av_count := 0, av_lo := 0, av_mid := 0, av_hi := 0\<rparr>"
      using q by (simp add: d3_def ata_regs_write(1-4) [OF regs])
    then show ?thesis using q by simp
  next
    case False
    have keep: "av_quiet (view (outb p (at_io ctx + i) 0 f)) \<and> av_slave (view (outb p (at_io ctx + i) 0 f)) = av_slave (view f)"
      if "i \<in> {2, 3, 4, 5}" "av_quiet (view f) \<and> av_slave (view f) = av_slave (view d2)" for i f
      using ata_regs_write(5) [OF regs, of f i 0] that False by auto
    have k: "av_quiet (view (outb p (at_io ctx + 2) 0 f)) \<and> av_slave (view (outb p (at_io ctx + 2) 0 f)) = av_slave (view f)"
      "av_quiet (view (outb p (at_io ctx + 3) 0 f)) \<and> av_slave (view (outb p (at_io ctx + 3) 0 f)) = av_slave (view f)"
      "av_quiet (view (outb p (at_io ctx + 4) 0 f)) \<and> av_slave (view (outb p (at_io ctx + 4) 0 f)) = av_slave (view f)"
      "av_quiet (view (outb p (at_io ctx + 5) 0 f)) \<and> av_slave (view (outb p (at_io ctx + 5) 0 f)) = av_slave (view f)"
      if "av_quiet (view f)" "av_slave (view f) = av_slave (view d2)" for f
      using that keep [of 2 f] keep [of 3 f] keep [of 4 f] keep [of 5 f] by simp_all
    show ?thesis using q False by (simp add: d3_def k)
  qed
  have e: "e = outb p (at_io ctx + 7) ATA_CMD_IDENTIFY d3" by (simp add: e_def d3_def d2_def d1_def)
  have "if present (av_slave (view d3)) then identify_reply (view d3) (view e) else view e = view d3"
    using ch d3 unfolding e ata_channel_def by blast
  moreover have "identify_reply (view d3) (view e) \<Longrightarrow> av_slave (view e) = av_slave (view d3)"
    by (simp add: identify_reply_def av_slave_def)
  ultimately show ?thesis using d3 by (auto simp: identify_reply_def split: if_splits)
qed

text \<open>The identification returns, whatever is there, and leaves the channel without a transfer.\<close>

lemma identify_returns:
  assumes ch: "ata_channel p (at_io ctx) (at_ctrl ctx) present view" and quiet: "av_quiet (view d)"
  shows "\<exists>r d'. ata_identify p ctx d = Ok (r, d') \<and> av_quiet (view d') \<and>
    port_run p {port. of_channel (at_io ctx) (at_ctrl ctx) port} {at_io ctx} d d'"
proof -
  define io where "io = at_io ctx"
  let ?S = "{port. of_channel io (at_ctrl ctx) port}"
  have regs: "ata_regs p io (at_ctrl ctx) present view" using ch by (simp add: ata_channel_def io_def)
  note R = ata_regsD [OF regs]
  have S: "io + 2 \<in> ?S" "io + 3 \<in> ?S" "io + 4 \<in> ?S" "io + 5 \<in> ?S" "io + 6 \<in> ?S" "io + 7 \<in> ?S" "at_ctrl ctx \<in> ?S"
    by (simp_all add: of_channel_def)
  define d0 where "d0 = outs p [(io + 2, 0), (io + 3, 0), (io + 4, 0), (io + 5, 0), (io + 7, ATA_CMD_IDENTIFY)]
      (io_delay_400ns p (at_ctrl ctx) (outb p (io + 6) (ata_select ctx OR 0x40) d))"
  have run0: "port_run p ?S {io} d d0"
    unfolding d0_def io_delay_400ns_def outs_simps by (intro run_out run_in run_refl S)
  define v where "v = view d0"
  have state: "if present (av_slave v)
      then av_room v = 0 \<and> (if av_err v then av_in v = [] else length (av_in v) = 256 \<and> av_mid v = 0 \<and> av_hi v = 0)
      else av_quiet v"
    unfolding v_def d0_def io_def by (rule identify_command [OF ch quiet])
  obtain st d1 where st: "inb p (io + 7) d0 = (st, d1)" by fastforce
  have v1: "view d1 = v\<lparr>av_busy := av_busy v - 1\<rparr>" using R(3) [of d0] st by (simp add: v_def)
  have run1: "port_run p ?S {io} d d1" using run_in [OF run0 S(6)] st by simp
  note steps = ata_identify_def Let_def io_def [symmetric] d0_def [symmetric] st prod.case
  show ?thesis
  proof (cases "present (av_slave v)")
    case False
    then have "st = 0" "av_quiet (view d1)" using R(2) [of d0] st state v1 quiet_delay by (simp_all add: v_def)
    then show ?thesis using run1 unfolding steps io_def [symmetric] by simp
  next
    case True
    then have says: "av_says st v" using R(1) [of d0] st by (simp add: v_def)
    then have "st \<noteq> 0" using state True by (auto simp: av_says_def split: if_splits)
    obtain st' d2 where w: "wait_not_busy p io st d1 = Some (st', d2)" "av_says st' (v\<lparr>av_busy := 0\<rparr>)" "view d2 = v\<lparr>av_busy := 0\<rparr>"
      "port_run p {io + 7} {} d1 d2"
      using wait_not_busy_returns [OF regs True says v1 refl] by blast
    have run2: "port_run p ?S {io} d d2" using run_trans [OF run_mono [OF w(4)] run1] S(6) by simp
    have b2: "present (av_slave (v\<lparr>av_busy := 0\<rparr>))" using True by simp
    obtain mid d3 where mid: "inb p (io + 4) d2 = (mid, d3)" by fastforce
    have m: "mid = av_mid v" "view d3 = v\<lparr>av_busy := 0\<rparr>" using ata_regs_read(1,2) [OF regs, of d2] b2 mid w(3) by simp_all
    have run3: "port_run p ?S {io} d d3" using run_in [OF run2 S(3)] mid by simp
    obtain hi d4 where hi: "inb p (io + 5) d3 = (hi, d4)" by fastforce
    have h: "hi = av_hi v" "view d4 = v\<lparr>av_busy := 0\<rparr>" using ata_regs_read(3,4) [OF regs, of d3] b2 hi m(2) by simp_all
    have run4: "port_run p ?S {io} d d4" using run_in [OF run3 S(4)] hi by simp
    show ?thesis
    proof (cases "av_err v")
      case True
      then have q: "av_quiet (v\<lparr>av_busy := 0\<rparr>)" using state \<open>present (av_slave v)\<close> by (simp add: av_quiet_def)
      have "st' AND ATA_SR_DRQ = 0" "st' AND ATA_SR_ERR \<noteq> 0"
        using w(2) True state \<open>present (av_slave v)\<close> by (auto simp: av_says_def split: if_splits)
      then have "wait_data p io st' d4 = Some (True, d4)" by (subst wait_data.simps) simp
      then show ?thesis using q \<open>st \<noteq> 0\<close> w(1) run3 run4 unfolding steps by (auto simp: mid hi m(2) h(2) io_def [symmetric])
    next
      case False
      then have s: "length (av_in v) = 256" "av_mid v = 0" "av_hi v = 0" "av_room v = 0" using state \<open>present (av_slave v)\<close> by simp_all
      then have "av_in v \<noteq> []" by auto
      then have "st' AND ATA_SR_DRQ \<noteq> 0" using w(2) by (simp add: av_says_def)
      then have "wait_data p io st' d4 = Some (False, d4)" by (subst wait_data.simps) simp
      moreover obtain d5 where d5: "in_words p io 256 d4 = (av_in v, d5)" "view d5 = (view d4)\<lparr>av_in := []\<rparr>" "port_run p {} {io} d4 d5"
        using in_words_view [OF regs, of d4 "av_in v"] h(2) s(1) by auto
      moreover have "av_quiet (view d5)" using d5(2) h(2) s(4) by (simp add: av_quiet_def)
      moreover have "port_run p ?S {io} d d5" using run_trans [OF run_mono [OF d5(3)] run4] by simp
      ultimately show ?thesis
        using \<open>st \<noteq> 0\<close> w(1) m(1) h(1) s unfolding steps by (simp add: mid hi io_def [symmetric])
    qed
  qed
qed

section \<open>Transfers\<close>

definition av_sector :: "(u8 \<Rightarrow> u8 \<Rightarrow> u8 \<Rightarrow> u8 \<Rightarrow> nat option) \<Rightarrow> ata_view \<Rightarrow> nat option" where
  "av_sector decode v = decode (av_dev v) (av_hi v) (av_mid v) (av_lo v)"

text \<open>The state after a command, busy for a time that is shorter than the driver's limit.\<close>

definition av_commanded :: "(u8 \<Rightarrow> u8 \<Rightarrow> u8 \<Rightarrow> u8 \<Rightarrow> nat option) \<Rightarrow> u8 \<Rightarrow> nat \<Rightarrow> ata_view \<Rightarrow> ata_view" where
  "av_commanded decode cmd b v =
     (case av_sector decode v of
        None \<Rightarrow> v\<lparr>av_busy := b, av_err := True, av_in := [], av_room := 0\<rparr>
      | Some s \<Rightarrow>
          if cmd = ATA_CMD_READ_PIO then v\<lparr>av_busy := b, av_err := False, av_in := av_store v s, av_room := 0\<rparr>
          else v\<lparr>av_busy := b, av_err := False, av_in := [], av_target := s, av_room := 256, av_acc := []\<rparr>)"

definition av_taken :: "u16 \<Rightarrow> nat \<Rightarrow> ata_view \<Rightarrow> ata_view" where
  "av_taken w b v =
     (if av_room v = 1
      then v\<lparr>av_busy := b, av_room := 0, av_acc := [], av_store := (av_store v)(av_target v := av_acc v @ [w])\<rparr>
      else v\<lparr>av_room := av_room v - 1, av_acc := av_acc v @ [w]\<rparr>)"

text \<open>
  The laws of a drive, for commands on one sector given while it is selected: it is ready when it is neither
  busy nor has an error, and its answers take less time than the limit of the driver's polling.
\<close>

definition av_selected :: "ata_ctx \<Rightarrow> ata_view \<Rightarrow> bool" where
  "av_selected ctx v \<longleftrightarrow> av_slave v = at_slave ctx"

definition ata_drive ::
  "'d ports \<Rightarrow> ata_ctx \<Rightarrow> (u8 \<Rightarrow> u8 \<Rightarrow> u8 \<Rightarrow> u8 \<Rightarrow> nat option) \<Rightarrow> ('d \<Rightarrow> ata_view) \<Rightarrow> bool" where
  "ata_drive p ctx decode view \<longleftrightarrow>
     (\<exists>present. present (at_slave ctx) \<and> ata_regs p (at_io ctx) (at_ctrl ctx) present view) \<and>
     (\<forall>d. av_selected ctx (view d) \<and> av_busy (view d) = 0 \<and> \<not> av_err (view d) \<longrightarrow>
        fst (inb p (at_io ctx + 7) d) AND ATA_SR_DRDY \<noteq> 0) \<and>
     (\<forall>d cmd. av_selected ctx (view d) \<and> av_quiet (view d) \<and> av_count (view d) = 1 \<and>
          cmd \<in> {ATA_CMD_READ_PIO, ATA_CMD_WRITE_PIO} \<longrightarrow>
        (\<exists>b<1000000. view (outb p (at_io ctx + 7) cmd d) = av_commanded decode cmd b (view d))) \<and>
     (\<forall>d. av_selected ctx (view d) \<and> av_quiet (view d) \<longrightarrow>
        (\<exists>b<1000000. view (outb p (at_io ctx + 7) ATA_CMD_CACHE_FLUSH d) = (view d)\<lparr>av_busy := b, av_err := False\<rparr>)) \<and>
     (\<forall>d w. av_selected ctx (view d) \<and> av_busy (view d) = 0 \<and> av_room (view d) > 0 \<longrightarrow>
        (\<exists>b<1000000. view (outw p (at_io ctx) w d) = av_taken w b (view d)))"

text \<open>
  The driver flushes the cache after the delay of 400 ns that follows the last word, without waiting for the
  drive. The standard leaves open what a drive that is still busy does with a command. The write is safe on
  a drive that ignores the command then, and on one that takes the last word within the delay.
\<close>

definition flush_harmless :: "'d ports \<Rightarrow> ata_ctx \<Rightarrow> ('d \<Rightarrow> ata_view) \<Rightarrow> bool" where
  "flush_harmless p ctx view \<longleftrightarrow>
     (\<forall>d. av_selected ctx (view d) \<and> av_busy (view d) > 0 \<longrightarrow> view (outb p (at_io ctx + 7) ATA_CMD_CACHE_FLUSH d) = view d) \<or>
     (\<forall>d w. av_selected ctx (view d) \<and> av_busy (view d) = 0 \<and> av_room (view d) = 1 \<longrightarrow> av_busy (view (outw p (at_io ctx) w d)) \<le> 4)"

lemma ata_driveD:
  assumes "ata_drive p ctx decode view"
  obtains present where "present (at_slave ctx)" "ata_regs p (at_io ctx) (at_ctrl ctx) present view"
  using assms by (auto simp: ata_drive_def)

lemma drive_transfers:
  assumes "ata_drive p ctx decode view" and "av_selected ctx (view d)"
  shows "av_busy (view d) = 0 \<Longrightarrow> \<not> av_err (view d) \<Longrightarrow> fst (inb p (at_io ctx + 7) d) AND ATA_SR_DRDY \<noteq> 0"
    and "av_quiet (view d) \<Longrightarrow> av_count (view d) = 1 \<Longrightarrow> cmd = ATA_CMD_READ_PIO \<or> cmd = ATA_CMD_WRITE_PIO \<Longrightarrow>
       \<exists>b<1000000. view (outb p (at_io ctx + 7) cmd d) = av_commanded decode cmd b (view d)"
    and "av_quiet (view d) \<Longrightarrow>
       \<exists>b<1000000. view (outb p (at_io ctx + 7) ATA_CMD_CACHE_FLUSH d) = (view d)\<lparr>av_busy := b, av_err := False\<rparr>"
    and "av_busy (view d) = 0 \<Longrightarrow> av_room (view d) > 0 \<Longrightarrow> \<exists>b<1000000. view (outw p (at_io ctx) w d) = av_taken w b (view d)"
  using assms unfolding ata_drive_def by auto

section \<open>The driver's steps\<close>

lemma selected_simps [simp]:
  "av_selected ctx (v\<lparr>av_busy := n\<rparr>) = av_selected ctx v" "av_selected ctx (v\<lparr>av_count := a\<rparr>) = av_selected ctx v"
  "av_selected ctx (v\<lparr>av_lo := a\<rparr>) = av_selected ctx v" "av_selected ctx (v\<lparr>av_mid := a\<rparr>) = av_selected ctx v"
  "av_selected ctx (v\<lparr>av_hi := a\<rparr>) = av_selected ctx v" "av_selected ctx (v\<lparr>av_err := e\<rparr>) = av_selected ctx v"
  "av_selected ctx (v\<lparr>av_in := ws\<rparr>) = av_selected ctx v" "av_selected ctx (v\<lparr>av_target := n\<rparr>) = av_selected ctx v"
  "av_selected ctx (v\<lparr>av_room := n\<rparr>) = av_selected ctx v" "av_selected ctx (v\<lparr>av_acc := ws\<rparr>) = av_selected ctx v"
  "av_selected ctx (v\<lparr>av_store := st\<rparr>) = av_selected ctx v"
  by (simp_all add: av_selected_def av_slave_def)

lemma poll_loop_view:
  assumes drive: "ata_drive p ctx decode view" and "av_selected ctx (view d)" and "av_busy (view d) < t"
  shows "\<exists>d'. poll_loop p (at_io ctx) t d = (if av_err (view d) then -1 else 0, d') \<and> view d' = (view d)\<lparr>av_busy := 0\<rparr>"
  using assms(2,3)
proof (induction t arbitrary: d)
  case (Suc t)
  obtain present where present: "present (at_slave ctx)" "ata_regs p (at_io ctx) (at_ctrl ctx) present view"
    using ata_driveD [OF drive] .
  let ?r = "inb p (at_io ctx + 7) d"
  have r: "view (snd ?r) = (view d)\<lparr>av_busy := av_busy (view d) - 1\<rparr>" using ata_regsD(3) [OF present(2)] .
  have says: "av_says (fst ?r) (view d)"
    using ata_regsD(1) [OF present(2), of d] Suc.prems(1) present(1) by (simp add: av_selected_def)
  show ?case
  proof (cases "av_busy (view d) > 0")
    case True
    then have "av_selected ctx (view (snd ?r))" "av_busy (view (snd ?r)) < t" using Suc.prems r by simp_all
    from Suc.IH [OF this] obtain d' where d': "poll_loop p (at_io ctx) t (snd ?r) = (if av_err (view d) then -1 else 0, d')"
      "view d' = (view d)\<lparr>av_busy := 0\<rparr>" using r by auto
    have "poll_loop p (at_io ctx) (Suc t) d = poll_loop p (at_io ctx) t (snd ?r)"
      using True says by (subst poll_loop.simps) (simp add: split_beta av_says_def)
    then show ?thesis using d' by simp
  next
    case False
    then have "\<not> av_err (view d) \<Longrightarrow> fst ?r AND ATA_SR_DRDY \<noteq> 0" using drive_transfers(1) [OF drive Suc.prems(1)] by simp
    then have "poll_loop p (at_io ctx) (Suc t) d = (if av_err (view d) then -1 else 0, snd ?r)"
      using False says by (subst poll_loop.simps) (simp add: split_beta av_says_def)
    then show ?thesis using False r by simp
  qed
qed simp

lemma drive_delay: "ata_drive p ctx decode view \<Longrightarrow> view (io_delay_400ns p (at_ctrl ctx) d) = (view d)\<lparr>av_busy := av_busy (view d) - 4\<rparr>"
  by (rule ata_driveD [of p ctx decode view], assumption) (rule delay_view)

lemma poll_ready_view:
  assumes drive: "ata_drive p ctx decode view" and "av_selected ctx (view d)" and "av_busy (view d) < 1000000"
  shows "\<exists>d'. ata_poll_ready p (at_io ctx) (at_ctrl ctx) d = (if av_err (view d) then -1 else 0, d') \<and>
    view d' = (view d)\<lparr>av_busy := 0\<rparr>"
  using poll_loop_view [OF drive, of "io_delay_400ns p (at_ctrl ctx) d" 1000000] assms(2,3)
  by (simp add: ata_poll_ready_def drive_delay [OF drive])

text \<open>The address registers for a sector number, and the state after the command.\<close>

definition ata_address :: "(u8 \<Rightarrow> u8 \<Rightarrow> u8 \<Rightarrow> u8 \<Rightarrow> nat option) \<Rightarrow> ata_ctx \<Rightarrow> u32 \<Rightarrow> nat option" where
  "ata_address decode ctx lba =
     decode (ata_select ctx OR ucast (drop_bit 24 lba AND 0x0F)) (ucast (drop_bit 16 lba AND 0xFF))
       (ucast (drop_bit 8 lba AND 0xFF)) (ucast (lba AND 0xFF))"

definition av_idle :: "ata_view \<Rightarrow> bool" where
  "av_idle v \<longleftrightarrow> av_quiet v \<and> (\<forall>s. length (av_store v s) = 256)"

lemma selects: "(ata_select ctx OR ucast (x AND 0x0F :: u32)) AND 0x10 \<noteq> (0 :: u8) \<longleftrightarrow> at_slave ctx"
proof -
  have "ucast (x AND 0x0F) AND 0x10 = (ucast x AND (ucast (0x0F :: u32) AND 0x10) :: u8)" by (simp only: unsigned_and_eq and.assoc)
  then have "ucast (x AND 0x0F) AND 0x10 = (0 :: u8)" by simp
  then show ?thesis by (simp add: bit.conj_disj_distrib2 ata_select_def)
qed

lemma start_command_view:
  assumes drive: "ata_drive p ctx decode view" and quiet: "av_quiet (view d)"
    and cmd: "cmd = ATA_CMD_READ_PIO \<or> cmd = ATA_CMD_WRITE_PIO"
  shows "\<exists>v. av_store v = av_store (view d) \<and> av_sector decode v = ata_address decode ctx lba \<and> av_selected ctx v \<and> av_quiet v \<and>
    (\<exists>b<1000000. view (start_command p ctx lba 1 cmd d) = av_commanded decode cmd b v)"
proof -
  obtain present where present: "present (at_slave ctx)" "ata_regs p (at_io ctx) (at_ctrl ctx) present view"
    using ata_driveD [OF drive] .
  note R = ata_regsD [OF present(2)]
  let ?io = "at_io ctx" and ?dev = "ata_select ctx OR ucast (drop_bit 24 lba AND 0x0F)"
  define e1 where "e1 = outb p (?io + 6) ?dev (outb p (at_ctrl ctx) 0 d)"
  have q0: "av_quiet (view (outb p (at_ctrl ctx) 0 d))" using quiet by (simp add: R(5))
  have sel: "present (?dev AND 0x10 \<noteq> 0)" using present(1) by (simp only: selects)
  obtain y c l m h e where
    v1: "view e1 = (view (outb p (at_ctrl ctx) 0 d))\<lparr>av_dev := y, av_count := c, av_lo := l, av_mid := m, av_hi := h, av_err := e\<rparr>"
    and y: "if present (?dev AND 0x10 \<noteq> 0) then y = ?dev else \<not> present (y AND 0x10 \<noteq> 0)"
    unfolding e1_def by (rule ata_regs_select [OF present(2) q0, of ?dev])
  note v1 = v1 [unfolded R(5) y [unfolded if_P [OF sel]]]
  have p1: "present (av_slave (view e1))" unfolding v1 using sel by simp
  have q1: "av_quiet (view e1)" using quiet by (simp add: v1)
  define e2 where "e2 = outs p [(?io + 2, ucast (1 :: u32)), (?io + 3, ucast (lba AND 0xFF)), (?io + 4, ucast (drop_bit 8 lba AND 0xFF)),
      (?io + 5, ucast (drop_bit 16 lba AND 0xFF))] e1"
  have v2: "view e2 = (view d)\<lparr>av_dev := ?dev, av_count := 1, av_lo := ucast (lba AND 0xFF), av_mid := ucast (drop_bit 8 lba AND 0xFF),
      av_hi := ucast (drop_bit 16 lba AND 0xFF), av_err := e\<rparr>"
    using q1 p1 by (simp add: e2_def ata_regs_write(1-4) [OF present(2)]) (simp add: v1)
  have s: "start_command p ctx lba 1 cmd d = outb p (?io + 7) cmd e2" by (simp add: start_command_def e1_def e2_def Let_def)
  have sel: "av_selected ctx (view e2)"
    unfolding v2 using selects [of ctx "drop_bit 24 lba"] by (simp add: av_selected_def av_slave_def)
  have q2: "av_quiet (view e2)" using quiet by (simp add: v2)
  obtain b where "b < 1000000" "view (outb p (?io + 7) cmd e2) = av_commanded decode cmd b (view e2)"
    using drive_transfers(2) [OF drive sel q2 _ cmd] v2 by auto
  moreover have "av_store (view e2) = av_store (view d)" "av_sector decode (view e2) = ata_address decode ctx lba"
    by (simp_all add: v2 av_sector_def ata_address_def)
  ultimately show ?thesis using s sel q2 by metis
qed

section \<open>Data\<close>

definition words_bytes :: "u16 list \<Rightarrow> u8 list" where
  "words_bytes ws = concat (map word_bytes ws)"

lemma length_words_bytes [simp]: "length (words_bytes ws) = 2 * length ws"
  by (induction ws) (simp_all add: words_bytes_def word_bytes_def)

lemma words_bytes_Cons: "words_bytes (w # ws) = word_bytes w @ words_bytes ws"
  by (simp add: words_bytes_def)

lemma blit_blit: "i + length xs + length ys \<le> length b \<Longrightarrow> blit (blit b i xs) (i + length xs) ys = blit b i (xs @ ys)"
  by (simp add: blit_def ac_simps)

lemma read_words_view:
  assumes regs: "ata_regs p (at_io ctx) ctrl present view"
  shows "av_busy (view d) = 0 \<Longrightarrow> av_in (view d) = ws \<Longrightarrow> 2 * (i + length ws) \<le> length buf \<Longrightarrow>
    \<exists>d'. read_words p (at_io ctx) i (length ws) buf d = Ok (blit buf (2 * i) (words_bytes ws), d') \<and>
      view d' = (view d)\<lparr>av_in := []\<rparr>"
proof (induction ws arbitrary: i buf d)
  case Nil
  then show ?case by (auto simp: words_bytes_def)
next
  case (Cons w ws)
  let ?r = "inw p (at_io ctx) d" and ?b = "blit buf (2 * i) (word_bytes w)"
  have r: "?r = (w, snd ?r)" "view (snd ?r) = (view d)\<lparr>av_in := ws\<rparr>"
    using ata_regsD(6,7) [OF regs Cons.prems(1,2)] by (simp_all add: prod_eq_iff)
  have lw: "length (word_bytes w) = 2" by (simp add: word_bytes_def)
  have len: "length ?b = length buf" using Cons.prems(3) lw by (intro length_blit) simp
  have "av_busy (view (snd ?r)) = 0" "av_in (view (snd ?r)) = ws" "2 * ((i + 1) + length ws) \<le> length ?b"
    using Cons.prems r(2) len by simp_all
  from Cons.IH [OF this] obtain d' where d': "read_words p (at_io ctx) (i + 1) (length ws) ?b (snd ?r) =
      Ok (blit ?b (2 * (i + 1)) (words_bytes ws), d')" "view d' = (view (snd ?r))\<lparr>av_in := []\<rparr>" by blast
  have room: "2 * i + 2 \<le> length buf" using Cons.prems(3) by simp
  have step: "read_words p (at_io ctx) i (length (w # ws)) buf d = read_words p (at_io ctx) (i + 1) (length ws) ?b (snd ?r)"
    unfolding list.size(4) add_Suc_right add_0_right read_words.simps by (subst r(1)) (use room in simp)
  have "blit ?b (2 * (i + 1)) (words_bytes ws) = blit buf (2 * i) (words_bytes (w # ws))"
    using blit_blit [of "2 * i" "word_bytes w" "words_bytes ws" buf] Cons.prems(3) lw
    by (simp add: words_bytes_Cons)
  then show ?case using step d' r(2) by simp
qed

text \<open>A word read from two bytes gives them back.\<close>

lemma word_bytes_at: "word_bytes (word_at b i) = [b ! (2 * i), b ! (2 * i + 1)]"
proof -
  let ?x = "b ! (2 * i)" and ?y = "b ! (2 * i + 1)"
  have "ucast (word_at b i) = ?x"
    by (rule bit_word_eqI) (auto simp: word_at_def bit_simps)
  moreover have "ucast (drop_bit 8 (word_at b i)) = ?y"
    by (rule bit_word_eqI) (auto simp: word_at_def bit_simps dest: bit_imp_le_length)
  ultimately show ?thesis by (simp add: word_bytes_def)
qed

lemma words_bytes_at: "2 * n \<le> length b \<Longrightarrow> words_bytes (map (word_at b) [0..<n]) = take (2 * n) b"
proof (induction n)
  case (Suc n)
  have "words_bytes (map (word_at b) [0..<Suc n]) = take (2 * n) b @ [b ! (2 * n), b ! (2 * n + 1)]"
    using Suc by (simp add: words_bytes_def word_bytes_at)
  also have "\<dots> = take (Suc (Suc (2 * n))) b" using Suc.prems by (simp add: take_Suc_conv_app_nth)
  finally show ?case by simp
qed (simp add: words_bytes_def)

lemma write_words_view:
  assumes drive: "ata_drive p ctx decode view"
  shows "av_selected ctx (view d) \<Longrightarrow> av_busy (view d) = 0 \<Longrightarrow> av_room (view d) = Suc n \<Longrightarrow> 2 * (i + Suc n) \<le> length buf \<Longrightarrow>
    \<exists>d' b. b < 1000000 \<and> (flush_harmless p ctx view \<longrightarrow> b \<le> 4 \<or>
        (\<forall>d. av_selected ctx (view d) \<and> av_busy (view d) > 0 \<longrightarrow> view (outb p (at_io ctx + 7) ATA_CMD_CACHE_FLUSH d) = view d)) \<and> write_words p (at_io ctx) i (Suc n) buf d = Ok d' \<and>
      view d' = (view d)\<lparr>av_busy := b, av_room := 0, av_acc := [],
        av_store := (av_store (view d))(av_target (view d) := av_acc (view d) @ map (word_at buf) [i..<i + Suc n])\<rparr>"
proof (induction n arbitrary: i d)
  case 0
  obtain b where "b < 1000000" "view (outw p (at_io ctx) (word_at buf i) d) = av_taken (word_at buf i) b (view d)"
    using drive_transfers(4) [OF drive 0(1,2)] 0(3) by auto
  moreover from this have "b \<le> 4" if "\<forall>d w. av_selected ctx (view d) \<and> av_busy (view d) = 0 \<and> av_room (view d) = 1 \<longrightarrow>
      av_busy (view (outw p (at_io ctx) w d)) \<le> 4"
    using that [rule_format, of d "word_at buf i"] 0(1-3) by (simp add: av_taken_def)
  ultimately show ?case using 0
    by (intro exI [of _ "outw p (at_io ctx) (word_at buf i) d"] exI [of _ b]) (auto simp: av_taken_def fun_upd_def flush_harmless_def)
next
  case (Suc n)
  let ?e = "outw p (at_io ctx) (word_at buf i) d"
  have e: "view ?e = (view d)\<lparr>av_room := Suc n, av_acc := av_acc (view d) @ [word_at buf i]\<rparr>"
    using drive_transfers(4) [OF drive Suc.prems(1,2), of "word_at buf i"] Suc.prems(3) by (auto simp: av_taken_def)
  have "av_selected ctx (view ?e)" "av_busy (view ?e) = 0" "av_room (view ?e) = Suc n" "2 * ((i + 1) + Suc n) \<le> length buf"
    using Suc.prems e by simp_all
  from Suc.IH [OF this] obtain d' b where d': "b < 1000000" "flush_harmless p ctx view \<longrightarrow> b \<le> 4 \<or>
      (\<forall>d. av_selected ctx (view d) \<and> av_busy (view d) > 0 \<longrightarrow> view (outb p (at_io ctx + 7) ATA_CMD_CACHE_FLUSH d) = view d)"
    "write_words p (at_io ctx) (i + 1) (Suc n) buf ?e = Ok d'"
    "view d' = (view ?e)\<lparr>av_busy := b, av_room := 0, av_acc := [],
      av_store := (av_store (view ?e))(av_target (view ?e) := av_acc (view ?e) @ map (word_at buf) [i + 1..<i + 1 + Suc n])\<rparr>"
    by blast
  have u: "[i..<i + Suc (Suc n)] = i # [i + 1..<i + 1 + Suc n]" by (simp add: upt_rec)
  have "write_words p (at_io ctx) i (Suc (Suc n)) buf d = Ok d'"
    using Suc.prems(4) d'(3) by (subst write_words.simps) (simp add: Suc_eq_plus1 [symmetric] del: write_words.simps)
  moreover have "view d' = (view d)\<lparr>av_busy := b, av_room := 0, av_acc := [],
      av_store := (av_store (view d))(av_target (view d) := av_acc (view d) @ map (word_at buf) [i..<i + Suc (Suc n)])\<rparr>"
    unfolding u d'(4) e by simp
  ultimately show ?case using d'(1,2) by blast
qed

section \<open>Whole transfers\<close>

text \<open>A device record for this drive; a sector number the driver's guards let pass.\<close>

definition for_drive :: "ata_ctx bd_info \<Rightarrow> ata_ctx \<Rightarrow> bool" where
  "for_drive dev ctx \<longleftrightarrow> bd_sector_size dev = 512 \<and> bd_ctx dev = Some ctx"

lemma one_sector: "for_drive dev ctx \<Longrightarrow> lba < bd_sector_count dev \<Longrightarrow> \<not> transfer_refused dev lba 1"
proof -
  assume d: "for_drive dev ctx" and l: "lba < bd_sector_count dev"
  have "unat lba < unat (bd_sector_count dev)" using l by (simp add: word_less_nat_alt)
  moreover have "unat (1 :: u32) = 1" by simp
  ultimately have "unat lba + unat (1 :: u32) < 4294967296" using unat_u32_lt [of "bd_sector_count dev"] by linarith
  then have "unat (lba + 1) = unat lba + 1" by (simp add: unat_plus_nowrap)
  then show ?thesis using d l by (simp add: transfer_refused_def for_drive_def word_le_nat_alt word_less_nat_alt)
qed

lemma commanded_selected: "av_selected ctx (av_commanded decode cmd b v) = av_selected ctx v"
  by (simp add: av_commanded_def split: option.split)

lemma ata_read_one:
  assumes drive: "ata_drive p ctx decode view" and dev: "for_drive dev ctx" and lba: "lba < bd_sector_count dev"
    and idle: "av_idle (view d)" and buf: "length buf = 512"
  shows "\<exists>d'. ata_pio_read p dev lba 1 (Some buf) d =
      Ok (case ata_address decode ctx lba of None \<Rightarrow> -1 | Some s \<Rightarrow> 0,
          Some (case ata_address decode ctx lba of None \<Rightarrow> buf | Some s \<Rightarrow> words_bytes (av_store (view d) s)), d') \<and>
    av_idle (view d') \<and> av_store (view d') = av_store (view d)"
proof -
  obtain present where regs: "ata_regs p (at_io ctx) (at_ctrl ctx) present view" using ata_driveD [OF drive] .
  have quiet: "av_quiet (view d)" using idle by (simp add: av_idle_def)
  let ?e = "start_command p ctx lba 1 ATA_CMD_READ_PIO d"
  obtain v b where v: "av_store v = av_store (view d)" "av_sector decode v = ata_address decode ctx lba" "b < 1000000"
    "view ?e = av_commanded decode ATA_CMD_READ_PIO b v" "av_selected ctx v"
    using start_command_view [OF drive quiet, of ATA_CMD_READ_PIO] by blast
  have run: "ata_pio_read p dev lba 1 (Some buf) d =
      rbind (read_sectors p ctx 0 1 buf ?e) (\<lambda>(rc, b, d). Ok (rc, Some b, d))"
    using one_sector [OF dev lba] dev by (simp add: ata_pio_read_def for_drive_def)
  have "av_selected ctx (view ?e)" "av_busy (view ?e) < 1000000"
    using v(3-5) by (simp_all add: commanded_selected) (simp add: av_commanded_def split: option.splits)
  from poll_ready_view [OF drive this] obtain d1 where d1:
    "ata_poll_ready p (at_io ctx) (at_ctrl ctx) ?e = (if av_err (view ?e) then -1 else 0, d1)" "view d1 = (view ?e)\<lparr>av_busy := 0\<rparr>"
    by blast
  show ?thesis
  proof (cases "ata_address decode ctx lba")
    case None
    then have "read_sectors p ctx 0 1 buf ?e = Ok (-1, buf, d1)" using d1(1) v(2,4) by (simp add: av_commanded_def)
    moreover have "av_idle (view d1)" "av_store (view d1) = av_store (view d)"
      using None v d1(2) idle by (simp_all add: av_commanded_def av_idle_def av_quiet_def)
    ultimately show ?thesis using None run by simp
  next
    case (Some s)
    have len: "length (av_store (view d) s) = 256" using idle by (simp add: av_idle_def)
    have v1: "view d1 = v\<lparr>av_busy := 0, av_err := False, av_in := av_store (view d) s, av_room := 0\<rparr>"
      using Some v d1(2) by (simp add: av_commanded_def)
    obtain d2 where d2: "read_words p (at_io ctx) 0 256 buf d1 = Ok (blit buf 0 (words_bytes (av_store (view d) s)), d2)"
      "view d2 = (view d1)\<lparr>av_in := []\<rparr>"
      using read_words_view [OF regs, of d1 "av_store (view d) s" 0 buf] v1 len buf by auto
    have "blit buf 0 (words_bytes (av_store (view d) s)) = words_bytes (av_store (view d) s)"
      using len buf by (simp add: blit_def)
    then have "read_sectors p ctx 0 1 buf ?e = Ok (0, words_bytes (av_store (view d) s), io_delay_400ns p (at_ctrl ctx) d2)"
      using d1(1) v(2,4) Some d2(1) by (simp add: av_commanded_def)
    moreover have "av_idle (view (io_delay_400ns p (at_ctrl ctx) d2))" "av_store (view (io_delay_400ns p (at_ctrl ctx) d2)) = av_store (view d)"
      using v1 d2(2) v(1) idle by (simp_all add: drive_delay [OF drive] av_idle_def av_quiet_def)
    ultimately show ?thesis using Some run by simp
  qed
qed

text \<open>The flush after the delay: executed, or ignored by a drive that is still busy.\<close>

lemma flush_after_delay:
  assumes drive: "ata_drive p ctx decode view" and sel: "av_selected ctx (view d)"
    and v: "av_in (view d) = []" "av_room (view d) = 0" "\<not> av_err (view d)" "av_busy (view d) < 1000000"
    and safe: "av_busy (view d) \<le> 4 \<or>
      (\<forall>d. av_selected ctx (view d) \<and> av_busy (view d) > 0 \<longrightarrow> view (outb p (at_io ctx + 7) ATA_CMD_CACHE_FLUSH d) = view d)"
  shows "\<exists>d'. ata_poll_ready p (at_io ctx) (at_ctrl ctx) (outb p (at_io ctx + 7) ATA_CMD_CACHE_FLUSH (io_delay_400ns p (at_ctrl ctx) d)) =
    (0, d') \<and> view d' = (view d)\<lparr>av_busy := 0\<rparr>"
proof -
  let ?f = "io_delay_400ns p (at_ctrl ctx) d" and ?b = "av_busy (view d) - 4"
  let ?g = "outb p (at_io ctx + 7) ATA_CMD_CACHE_FLUSH ?f"
  have f: "view ?f = (view d)\<lparr>av_busy := ?b\<rparr>" by (rule drive_delay [OF drive])
  have s: "av_selected ctx (view ?f)" using sel by (simp add: f)
  have "\<exists>n<1000000. view ?g = (view d)\<lparr>av_busy := n\<rparr>"
  proof (cases "?b = 0")
    case True
    then have "av_quiet (view ?f)" using v by (simp add: f av_quiet_def)
    moreover have "(view d)\<lparr>av_busy := n, av_err := False\<rparr> = (view d)\<lparr>av_busy := n\<rparr>" for n
      using v(3) by (cases "view d") simp
    ultimately show ?thesis using drive_transfers(3) [OF drive s] f by auto
  next
    case False
    then have "\<forall>d. av_selected ctx (view d) \<and> av_busy (view d) > 0 \<longrightarrow> view (outb p (at_io ctx + 7) ATA_CMD_CACHE_FLUSH d) = view d"
      using safe by auto
    from this [rule_format, of ?f] have "view ?g = view ?f" using s False by (simp add: f)
    then show ?thesis using f v(4) by (intro exI [of _ ?b]) auto
  qed
  then obtain n where n: "n < 1000000" "view ?g = (view d)\<lparr>av_busy := n\<rparr>" by blast
  then have "av_selected ctx (view ?g)" "av_busy (view ?g) < 1000000" using sel by simp_all
  from poll_ready_view [OF drive this] show ?thesis using n(2) v(3) by simp
qed

lemma ata_write_one:
  assumes drive: "ata_drive p ctx decode view" and dev: "for_drive dev ctx" and lba: "lba < bd_sector_count dev"
    and idle: "av_idle (view d)" and buf: "length buf = 512"
    and flush: "ata_address decode ctx lba \<noteq> None \<Longrightarrow> flush_harmless p ctx view"
  shows "\<exists>d'. ata_pio_write p dev lba 1 (Some buf) d = Ok (case ata_address decode ctx lba of None \<Rightarrow> -1 | Some s \<Rightarrow> 0, d') \<and>
    av_idle (view d') \<and>
    av_store (view d') = (case ata_address decode ctx lba of None \<Rightarrow> av_store (view d)
      | Some s \<Rightarrow> (av_store (view d))(s := map (word_at buf) [0..<256]))"
proof -
  have quiet: "av_quiet (view d)" using idle by (simp add: av_idle_def)
  let ?e = "start_command p ctx lba 1 ATA_CMD_WRITE_PIO d" and ?io = "at_io ctx"
  obtain v b where v: "av_store v = av_store (view d)" "av_sector decode v = ata_address decode ctx lba" "b < 1000000"
    "view ?e = av_commanded decode ATA_CMD_WRITE_PIO b v" "av_selected ctx v"
    using start_command_view [OF drive quiet, of ATA_CMD_WRITE_PIO] by blast
  have run: "ata_pio_write p dev lba 1 (Some buf) d =
      rbind (write_sectors p ctx 0 1 buf ?e) (\<lambda>(rc, d).
        if rc \<noteq> 0 then Ok (-1, d)
        else (case ata_poll_ready p ?io (at_ctrl ctx) (outb p (?io + 7) ATA_CMD_CACHE_FLUSH d) of (rc, d) \<Rightarrow> Ok (if rc \<noteq> 0 then -1 else 0, d)))"
    using one_sector [OF dev lba] dev by (simp add: ata_pio_write_def for_drive_def)
  have "av_selected ctx (view ?e)" "av_busy (view ?e) < 1000000"
    using v(3-5) by (simp_all add: commanded_selected) (simp add: av_commanded_def split: option.splits)
  from poll_ready_view [OF drive this] obtain d1 where d1:
    "ata_poll_ready p ?io (at_ctrl ctx) ?e = (if av_err (view ?e) then -1 else 0, d1)" "view d1 = (view ?e)\<lparr>av_busy := 0\<rparr>"
    by blast
  show ?thesis
  proof (cases "ata_address decode ctx lba")
    case None
    then have "write_sectors p ctx 0 1 buf ?e = Ok (-1, d1)" using d1(1) v(2,4) by (simp add: av_commanded_def)
    moreover have "av_idle (view d1)" "av_store (view d1) = av_store (view d)"
      using None v d1(2) idle by (simp_all add: av_commanded_def av_idle_def av_quiet_def)
    ultimately show ?thesis using None run by simp
  next
    case (Some s)
    have v1: "view d1 = v\<lparr>av_busy := 0, av_err := False, av_in := [], av_target := s, av_room := 256, av_acc := []\<rparr>"
      using Some v d1(2) by (simp add: av_commanded_def)
    have s1: "av_selected ctx (view d1)" using v(5) by (simp add: v1)
    obtain d2 b2 where d2: "b2 < 1000000" "write_words p ?io 0 256 buf d1 = Ok d2"
      "flush_harmless p ctx view \<longrightarrow> b2 \<le> 4 \<or>
        (\<forall>d. av_selected ctx (view d) \<and> av_busy (view d) > 0 \<longrightarrow> view (outb p (at_io ctx + 7) ATA_CMD_CACHE_FLUSH d) = view d)"
      "view d2 = (view d1)\<lparr>av_busy := b2, av_room := 0, av_acc := [],
        av_store := (av_store (view d))(s := map (word_at buf) [0..<256])\<rparr>"
      using write_words_view [OF drive s1, of 255 0 buf] v1 v(1) buf by auto
    let ?f = "io_delay_400ns p (at_ctrl ctx) d2"
    have w: "write_sectors p ctx 0 1 buf ?e = Ok (0, ?f)"
      using d1(1) v(2,4) Some d2(2) by (simp add: av_commanded_def)
    have "av_selected ctx (view d2)" "av_in (view d2) = []" "av_room (view d2) = 0" "\<not> av_err (view d2)" "av_busy (view d2) < 1000000"
      using s1 d2(1) by (simp_all add: d2(4) v1)
    moreover have "av_busy (view d2) = b2" by (simp add: d2(4))
    ultimately obtain d3 where d3: "ata_poll_ready p ?io (at_ctrl ctx) (outb p (?io + 7) ATA_CMD_CACHE_FLUSH ?f) = (0, d3)"
      "view d3 = (view d2)\<lparr>av_busy := 0\<rparr>"
      using flush_after_delay [OF drive, of d2] d2(3) flush Some by auto
    have "ata_pio_write p dev lba 1 (Some buf) d = Ok (0, d3)" unfolding run w by (simp add: d3(1))
    moreover have "av_idle (view d3)" "av_store (view d3) = (av_store (view d))(s := map (word_at buf) [0..<256])"
      using v1 d2(4) d3(2) idle by (simp_all add: av_idle_def av_quiet_def)
    ultimately show ?thesis using Some by auto
  qed
qed

section \<open>The device as a store of sectors\<close>

text \<open>What a sector number of the device holds: nothing, where the drive does not take the address.\<close>

definition ata_holds ::
  "(u8 \<Rightarrow> u8 \<Rightarrow> u8 \<Rightarrow> u8 \<Rightarrow> nat option) \<Rightarrow> ata_ctx \<Rightarrow> u32 \<Rightarrow> ata_view \<Rightarrow> u32 \<Rightarrow> u8 list option" where
  "ata_holds decode ctx sectors v lba =
     (if lba < sectors then map_option (\<lambda>s. words_bytes (av_store v s)) (ata_address decode ctx lba) else None)"

text \<open>Different settings of the registers, with the same drive and the same way of addressing, are different sectors.\<close>

definition decode_distinct :: "(u8 \<Rightarrow> u8 \<Rightarrow> u8 \<Rightarrow> u8 \<Rightarrow> nat option) \<Rightarrow> bool" where
  "decode_distinct decode \<longleftrightarrow>
     (\<forall>dev hi mid lo dev' hi' mid' lo' s.
        decode dev hi mid lo = Some s \<and> decode dev' hi' mid' lo' = Some s \<and> dev AND 0xF0 = dev' AND 0xF0 \<longrightarrow>
        dev = dev' \<and> hi = hi' \<and> mid = mid' \<and> lo = lo')"

lemma ata_dev_for_drive: "for_drive (bd_info.truncate (ata_dev p ctx sectors n)) ctx"
  "bd_sector_count (bd_info.truncate (ata_dev p ctx sectors n)) = sectors"
  by (simp_all add: for_drive_def ata_dev_def bd_info.truncate_def)

text \<open>The four registers hold the lower 28 bits of a sector number.\<close>

lemma low_byte: "n < 8 \<Longrightarrow> bit (ucast (x AND 0xFF :: u32) :: u8) n = bit x n"
proof -
  have m: "(0xFF :: u32) = mask 8" by (simp add: mask_eq_exp_minus_1)
  assume "n < 8"
  then show ?thesis unfolding m by (auto simp: bit_simps)
qed

lemma low_nibble: "n < 4 \<Longrightarrow> bit (ata_select ctx OR ucast (x AND 0x0F :: u32)) n = bit x n"
proof -
  assume n: "n < 4"
  then have "\<not> bit (ata_select ctx) n" by (auto simp: ata_select_def numeral_eq_Suc less_Suc_eq)
  moreover have m: "(0x0F :: u32) = mask 4" by (simp add: mask_eq_exp_minus_1)
  ultimately show ?thesis using n unfolding m by (auto simp: bit_simps)
qed

lemma high_bits: "x < 0x10000000 \<Longrightarrow> 28 \<le> n \<Longrightarrow> \<not> bit x n" for x :: u32
proof -
  assume "x < 0x10000000" "28 \<le> n"
  then have "unat x < 2 ^ 28" by (simp add: word_less_nat_alt)
  moreover have "(2 :: nat) ^ 28 \<le> 2 ^ n" using \<open>28 \<le> n\<close> by (rule power_increasing) simp
  ultimately have "unat x div 2 ^ n = 0" by simp
  then have "\<not> bit (unat x) n" by (simp add: bit_iff_odd)
  then show ?thesis by (auto simp: bit_unsigned_iff dest: bit_imp_le_length)
qed

lemma address_distinct:
  assumes "decode_distinct decode" and "k < 0x10000000" and "l < 0x10000000"
    and "ata_address decode ctx k = Some s" and "ata_address decode ctx l = Some s"
  shows "k = l"
proof -
  have top: "(ata_select ctx OR ucast (x AND 0x0F :: u32)) AND 0xF0 = ata_select ctx AND 0xF0" for x
  proof -
    have "ucast (x AND 0x0F) AND 0xF0 = (ucast x AND (ucast (0x0F :: u32) AND 0xF0) :: u8)" by (simp only: unsigned_and_eq and.assoc)
    then show ?thesis by (simp add: bit.conj_disj_distrib2)
  qed
  have eq: "ata_select ctx OR ucast (drop_bit 24 k AND 0x0F) = (ata_select ctx OR ucast (drop_bit 24 l AND 0x0F) :: u8)"
    "(ucast (drop_bit 16 k AND 0xFF) :: u8) = ucast (drop_bit 16 l AND 0xFF)"
    "(ucast (drop_bit 8 k AND 0xFF) :: u8) = ucast (drop_bit 8 l AND 0xFF)" "(ucast (k AND 0xFF) :: u8) = ucast (l AND 0xFF)"
    using assms(1,4,5) top unfolding decode_distinct_def ata_address_def by metis+
  have bits: "bit k n = bit l n" for n
  proof -
    consider "n < 8" | "8 \<le> n" "n < 16" | "16 \<le> n" "n < 24" | "24 \<le> n" "n < 28" | "28 \<le> n" by linarith
    then show ?thesis
    proof cases
      case 1
      then show ?thesis using arg_cong [OF eq(4), of "\<lambda>w. bit w n"] by (simp only: low_byte)
    next
      case 2
      then have "n - 8 < 8" by simp
      then show ?thesis using 2 arg_cong [OF eq(3), of "\<lambda>w. bit w (n - 8)"] by (simp only: low_byte) (simp add: bit_drop_bit_eq)
    next
      case 3
      then have "n - 16 < 8" by simp
      then show ?thesis using 3 arg_cong [OF eq(2), of "\<lambda>w. bit w (n - 16)"] by (simp only: low_byte) (simp add: bit_drop_bit_eq)
    next
      case 4
      then have "n - 24 < 4" by simp
      then show ?thesis using 4 arg_cong [OF eq(1), of "\<lambda>w. bit w (n - 24)"] by (simp only: low_nibble) (simp add: bit_drop_bit_eq)
    next
      case 5
      then show ?thesis using high_bits assms(2,3) by blast
    qed
  qed
  then show ?thesis by (rule bit_eqI)
qed


section \<open>Addressing by cylinder, head and sector\<close>

text \<open>Bit 6 of the drive register is clear in every transfer.\<close>

lemma ata_address_0:
  assumes "\<forall>dev hi mid. dev AND 0x40 = 0 \<longrightarrow> decode dev hi mid 0 = None"
  shows "ata_address decode ctx 0 = None"
proof -
  have "ata_select ctx AND 0x40 = 0" by (simp add: ata_select_def)
  then show ?thesis using assms by (simp add: ata_address_def)
qed

lemma device_at_unchanged: "device_at dev (fat32_set_error msg w) = device_at dev w" "hw (fat32_set_error msg w) = hw w"
  by (cases dev; simp add: device_at_def fat32_set_error_def Let_def) (simp add: fat32_set_error_def Let_def)

lemma ata_sector_0_fails:
  assumes drive: "ata_drive p ctx decode view" and chs: "\<forall>dev hi mid. dev AND 0x40 = 0 \<longrightarrow> decode dev hi mid 0 = None"
    and dev: "device_at (Some a) w = Ok (Some \<lparr>dv_bdev = Some (ata_dev p ctx sectors n), dv_sector_size = 512, dv_total_sectors = sectors\<rparr>)"
    and idle: "av_idle (view (hw w))" and "0 < sectors"
  shows "length sec = 512 \<Longrightarrow> \<exists>w'. write_sec (Some a) 0 sec w = Ok (None, w')" "\<exists>w'. read_sec (Some a) 0 w = Ok (None, w')"
proof -
  let ?b = "ata_dev p ctx sectors n"
  have l: "0 < bd_sector_count (bd_info.truncate ?b)" using assms(5) by (simp add: ata_dev_for_drive)
  have none: "ata_address decode ctx 0 = None" using chs by (rule ata_address_0)
  have cb: "bd_read ?b = Some (ata_pio_read p)" "bd_write ?b = Some (ata_pio_write p)" by (simp_all add: ata_dev_def)
  show "\<exists>w'. write_sec (Some a) 0 sec w = Ok (None, w')" if len: "length sec = 512"
    using ata_write_one [OF drive ata_dev_for_drive(1) l idle len] none dev cb
    by (auto simp: write_sec_def fat32_io_write_def give_up_def)
  have "length zero_sector = 512" by simp
  from ata_read_one [OF drive ata_dev_for_drive(1) l idle this]
  show "\<exists>w'. read_sec (Some a) 0 w = Ok (None, w')"
    using none dev cb by (auto simp: read_sec_def fat32_io_read_def)
qed

text \<open>
  C35: On a drive that takes the address registers by cylinder, head and sector when bit 6 of the drive
  register is clear, as the ATA standard says, and so has no sector 0, the FAT32 driver can neither format
  nor mount a disk: it starts with sector 0, which the ATA driver asks for without setting this bit.
\<close>

theorem ata_chs_disk_unusable:
  assumes "ata_drive p ctx decode view" and "\<forall>dev hi mid. dev AND 0x40 = 0 \<longrightarrow> decode dev hi mid 0 = None"
    and "devices w a = Some \<lparr>dv_bdev = Some (ata_dev p ctx sectors n), dv_sector_size = 512, dv_total_sectors = sectors\<rparr>"
    and "av_idle (view (hw w))" and "0 < sectors"
  shows "(\<exists>w'. fat32_format (Some a) w = Ok (-1, w')) \<and> (\<exists>fs' w'. fat32_mount (Some fs) (Some a) w = Ok (-1, fs', w'))"
proof -
  let ?w = "fat32_clear_error w"
  have dev: "device_at (Some a) ?w = Ok (Some \<lparr>dv_bdev = Some (ata_dev p ctx sectors n), dv_sector_size = 512, dv_total_sectors = sectors\<rparr>)"
    and idle: "av_idle (view (hw ?w))"
    using assms(3,4) by (simp_all add: fat32_clear_error_def device_at_unchanged) (simp add: device_at_def)
  note fails = ata_sector_0_fails [OF assms(1,2) dev idle assms(5)]
  have "\<exists>w'. format_writes (Some a) sectors spf free ?w = Ok (-1, w')" for spf free
  proof -
    obtain w' where "write_sec (Some a) 0 (boot_sector sectors spf) ?w = Ok (None, w')" using fails(1) [OF boot_sector_fields(1)] by blast
    then show ?thesis by (simp add: format_writes_def or_fail_def give_up_def)
  qed
  then have "\<exists>w'. fat32_format (Some a) w = Ok (-1, w')"
    using dev by (auto simp: fat32_format_def Let_def give_up_def ata_dev_def split: option.split)
  moreover have "\<exists>fs' w'. fat32_mount (Some fs) (Some a) w = Ok (-1, fs', w')"
    using fails(2) dev by (auto simp: fat32_mount_def Let_def)
  ultimately show ?thesis by blast
qed

section \<open>A drive\<close>

text \<open>
  A drive as the only one of the primary channel, the master. It is busy for three reads of the status after
  a command and for seven after the last word of a sector, which is longer than the driver's delay, and
  ignores commands while it is busy.
\<close>

definition av_status :: "ata_view \<Rightarrow> u8" where
  "av_status v =
     (if av_slave v then 0 else if av_busy v > 0 then 0x80
      else 0x50 OR (if av_err v then 0x01 else 0) OR (if av_in v \<noteq> [] \<or> av_room v > 0 then 0x08 else 0))"

definition drive_command :: "(u8 \<Rightarrow> u8 \<Rightarrow> u8 \<Rightarrow> u8 \<Rightarrow> nat option) \<Rightarrow> u8 \<Rightarrow> ata_view \<Rightarrow> ata_view" where
  "drive_command decode x v =
     (if av_slave v \<or> \<not> av_quiet v then v
      else if x = ATA_CMD_IDENTIFY
        then v\<lparr>av_busy := 3, av_err := False, av_in := replicate 60 0 @ [0, 1] @ replicate 194 0\<rparr>
      else if x = ATA_CMD_CACHE_FLUSH then v\<lparr>av_busy := 3, av_err := False\<rparr>
      else if x = ATA_CMD_READ_PIO \<or> x = ATA_CMD_WRITE_PIO then av_commanded decode x 3 v
      else v\<lparr>av_err := True\<rparr>)"

definition drive_ports :: "(u8 \<Rightarrow> u8 \<Rightarrow> u8 \<Rightarrow> u8 \<Rightarrow> nat option) \<Rightarrow> ata_view ports" where
  "drive_ports decode =
     \<lparr>inb = (\<lambda>port v.
        if port = 0x1F7 \<or> port = 0x3F6 then (av_status v, v\<lparr>av_busy := av_busy v - 1\<rparr>)
        else if port = 0x1F4 then (av_mid v, v) else if port = 0x1F5 then (av_hi v, v) else (0, v)),
      outb = (\<lambda>port x v.
        if port = 0x1F6 then v\<lparr>av_dev := x\<rparr> else if port = 0x1F2 then v\<lparr>av_count := x\<rparr> else if port = 0x1F3 then v\<lparr>av_lo := x\<rparr>
        else if port = 0x1F4 then v\<lparr>av_mid := x\<rparr> else if port = 0x1F5 then v\<lparr>av_hi := x\<rparr>
        else if port = 0x1F7 then drive_command decode x v else v),
      inw = (\<lambda>port v. case av_in v of w # ws \<Rightarrow> if port = 0x1F0 then (w, v\<lparr>av_in := ws\<rparr>) else (0, v) | [] \<Rightarrow> (0, v)),
      outw = (\<lambda>port x v. if port = 0x1F0 \<and> av_room v > 0 then av_taken x 7 v else v)\<rparr>"

definition primary_master :: ata_ctx where
  "primary_master = \<lparr>at_io = ATA_PRIMARY_IO, at_ctrl = ATA_PRIMARY_CTRL, at_slave = False\<rparr>"

lemma av_status_says: "\<not> av_slave v \<Longrightarrow> av_says (av_status v) v"
  by (auto simp: av_says_def av_status_def)

lemma drive_ports_channel: "ata_channel (drive_ports decode) ATA_PRIMARY_IO ATA_PRIMARY_CTRL (\<lambda>slave. \<not> slave) (\<lambda>v. v)"
proof -
  have st: "av_slave v \<Longrightarrow> av_status v = 0" for v by (simp add: av_status_def)
  have select: "\<exists>y c l m h e. outb (drive_ports decode) (ATA_PRIMARY_IO + 6) x v =
      v\<lparr>av_dev := y, av_count := c, av_lo := l, av_mid := m, av_hi := h, av_err := e\<rparr> \<and>
    (if \<not> (x AND 0x10 \<noteq> 0) then y = x else \<not> \<not> (y AND 0x10 \<noteq> 0))" for x v
    by (intro exI [of _ x] exI [of _ "av_count v"] exI [of _ "av_lo v"] exI [of _ "av_mid v"] exI [of _ "av_hi v"] exI [of _ "av_err v"])
      (simp add: drive_ports_def)
  have wr: "\<exists>c l m h. outb (drive_ports decode) (ATA_PRIMARY_IO + i) x v = v\<lparr>av_count := c, av_lo := l, av_mid := m, av_hi := h\<rparr>"
    if "i \<in> {2, 3, 4, 5}" for i x v
    by (rule exI [of _ "if i = 2 then x else av_count v"], rule exI [of _ "if i = 3 then x else av_lo v"],
        rule exI [of _ "if i = 4 then x else av_mid v"], rule exI [of _ "if i = 5 then x else av_hi v"])
      (use that in \<open>auto simp: drive_ports_def\<close>)
  have "ata_regs (drive_ports decode) ATA_PRIMARY_IO ATA_PRIMARY_CTRL (\<lambda>slave. \<not> slave) (\<lambda>v. v)"
    unfolding ata_regs_def
    by (intro conjI allI ballI impI select wr; (assumption | (auto simp: drive_ports_def av_status_says st)))
  moreover have "identify_reply v (drive_command decode ATA_CMD_IDENTIFY v)" if "av_quiet v" "\<not> av_slave v" for v
    using that by (simp add: identify_reply_def drive_command_def av_quiet_def)
  moreover have "\<not> of_channel ATA_PRIMARY_IO ATA_PRIMARY_CTRL port \<Longrightarrow> port \<notin> {0x1F0, 0x1F2, 0x1F3, 0x1F4, 0x1F5, 0x1F6, 0x1F7, 0x3F6}" for port
    by (auto simp: of_channel_def)
  ultimately show ?thesis
    by (auto simp: ata_channel_def drive_ports_def drive_command_def split: list.split)
qed

lemma drive_ports_drive: "ata_drive (drive_ports decode) primary_master decode (\<lambda>v. v)"
proof -
  have "ata_regs (drive_ports decode) (at_io primary_master) (at_ctrl primary_master) (\<lambda>slave. \<not> slave) (\<lambda>v. v)"
    using drive_ports_channel by (simp add: ata_channel_def primary_master_def)
  then have "\<exists>present. present (at_slave primary_master) \<and>
      ata_regs (drive_ports decode) (at_io primary_master) (at_ctrl primary_master) present (\<lambda>v. v)"
    by (intro exI [of _ "\<lambda>slave. \<not> slave"]) (simp add: primary_master_def)
  moreover have "(3 :: nat) < 1000000" "(7 :: nat) < 1000000" by simp_all
  moreover have "av_status v AND 0x40 \<noteq> 0" if "av_busy v = 0" "\<not> av_slave v" for v
    using that by (simp add: av_status_def)
  ultimately show ?thesis
    by (auto simp: ata_drive_def av_selected_def)
      (auto simp: drive_ports_def primary_master_def drive_command_def intro: exI [of _ 3] exI [of _ 7])
qed

lemma drive_ports_flush: "flush_harmless (drive_ports decode) primary_master (\<lambda>v. v)"
  by (simp add: flush_harmless_def drive_ports_def primary_master_def drive_command_def av_quiet_def)

definition blank_drive :: ata_view where
  "blank_drive =
     \<lparr>av_dev = 0, av_count = 0, av_lo = 0, av_mid = 0, av_hi = 0, av_busy = 0, av_err = False, av_in = [], av_target = 0,
      av_room = 0, av_acc = [], av_store = (\<lambda>s. replicate 256 0)\<rparr>"

text \<open>Both ways to read the registers, on a drive with so many cylinders, heads, and sectors per track.\<close>

definition chs_decode :: "nat \<Rightarrow> nat \<Rightarrow> nat \<Rightarrow> u8 \<Rightarrow> u8 \<Rightarrow> u8 \<Rightarrow> u8 \<Rightarrow> nat option" where
  "chs_decode cylinders heads spt dev hi mid lo =
     (let head = unat (dev AND 0x0F); cylinder = unat hi * 256 + unat mid;
          linear = ((head * 256 + unat hi) * 256 + unat mid) * 256 + unat lo
      in if dev AND 0x40 \<noteq> 0 then (if linear < cylinders * heads * spt then Some linear else None)
         else if cylinder < cylinders \<and> head < heads \<and> 1 \<le> unat lo \<and> unat lo \<le> spt
           then Some ((cylinder * heads + head) * spt + (unat lo - 1))
         else None)"

lemma digit_unique: "a * k + b = a' * k + b' \<Longrightarrow> b < k \<Longrightarrow> b' < k \<Longrightarrow> a = a' \<and> b = b'" for a b k :: nat
proof -
  assume e: "a * k + b = a' * k + b'" and b: "b < k" "b' < k"
  have "(a * k + b) div k = a" "(a' * k + b') div k = a'" using b by simp_all
  then show ?thesis using e by auto
qed

lemma unat_u8_lt: "unat b < 256" for b :: u8
  using unsigned_less [of b, where 'a = nat] by simp

lemma chs_decode_distinct: "decode_distinct (chs_decode cylinders heads spt)"
  unfolding decode_distinct_def
proof (intro allI impI, elim conjE)
  fix dev hi mid lo dev' hi' mid' lo' :: u8 and s
  assume a: "chs_decode cylinders heads spt dev hi mid lo = Some s" "chs_decode cylinders heads spt dev' hi' mid' lo' = Some s"
    and top: "dev AND 0xF0 = dev' AND 0xF0"
  have mode: "dev AND 0x40 = dev' AND 0x40" using arg_cong [OF top, of "\<lambda>x. x AND 0x40"] by (simp add: and.assoc)
  note lt = unat_u8_lt
  have "unat (dev AND 0x0F) = unat (dev' AND 0x0F) \<and> unat hi = unat hi' \<and> unat mid = unat mid' \<and> unat lo = unat lo'"
  proof (cases "dev AND 0x40 = 0")
    case False
    then have e: "((unat (dev AND 0x0F) * 256 + unat hi) * 256 + unat mid) * 256 + unat lo =
        ((unat (dev' AND 0x0F) * 256 + unat hi') * 256 + unat mid') * 256 + unat lo'"
      using a mode by (simp add: chs_decode_def Let_def split: if_splits)
    from digit_unique [OF e lt lt] digit_unique [OF _ lt lt] show ?thesis by blast
  next
    case True
    then have r: "unat (dev AND 0x0F) < heads" "unat (dev' AND 0x0F) < heads" "1 \<le> unat lo" "unat lo \<le> spt" "1 \<le> unat lo'" "unat lo' \<le> spt"
      and e: "((unat hi * 256 + unat mid) * heads + unat (dev AND 0x0F)) * spt + (unat lo - 1) =
        ((unat hi' * 256 + unat mid') * heads + unat (dev' AND 0x0F)) * spt + (unat lo' - 1)"
      using a mode by (simp_all add: chs_decode_def Let_def split: if_splits)
    have "unat lo - 1 < spt" "unat lo' - 1 < spt" using r by linarith+
    from digit_unique [OF e this] have "unat lo - 1 = unat lo' - 1" and
      e: "(unat hi * 256 + unat mid) * heads + unat (dev AND 0x0F) = (unat hi' * 256 + unat mid') * heads + unat (dev' AND 0x0F)" by auto
    moreover from this have "unat lo = unat lo'" using r by linarith
    moreover from digit_unique [OF e r(1,2)] have "unat (dev AND 0x0F) = unat (dev' AND 0x0F)"
      "unat hi * 256 + unat mid = unat hi' * 256 + unat mid'" by auto
    ultimately show ?thesis using digit_unique [OF _ lt lt] by blast
  qed
  then have "dev AND 0x0F = dev' AND 0x0F" "hi = hi'" "mid = mid'" "lo = lo'" by (simp_all add: word_unat_eq_iff)
  moreover have "x = (x AND 0xF0) OR (x AND 0x0F)" for x :: u8
  proof -
    have "(x AND 0xF0) OR (x AND 0x0F) = x AND (0xF0 OR 0x0F)" by (simp only: bit.conj_disj_distrib)
    moreover have "(0xF0 OR 0x0F :: u8) = -1" by simp
    ultimately show ?thesis by (simp only: and.right_neutral)
  qed
  ultimately show "dev = dev' \<and> hi = hi' \<and> mid = mid' \<and> lo = lo'" using top by metis
qed


definition chs_fat32 :: "(ata_ctx, ata_view) fat32" where
  "chs_fat32 =
     \<lparr>devices = (\<lambda>_. Some \<lparr>dv_bdev = Some (ata_dev (drive_ports (chs_decode 1040 16 63)) primary_master 0x10000 0),
        dv_sector_size = 512, dv_total_sectors = 0x10000\<rparr>), hw = blank_drive, last_error = replicate 96 0\<rparr>"

theorem ata_chs_disk_unusable_witness:
  "\<exists>w'. fat32_format (Some 0) chs_fat32 = Ok (-1, w')"
proof -
  have "av_idle blank_drive" by (simp add: av_idle_def av_quiet_def blank_drive_def)
  moreover have "(0 :: u32) < 0x10000" by code_simp
  ultimately have "(\<exists>w'. fat32_format (Some 0) chs_fat32 = Ok (-1, w')) \<and> (\<exists>fs' w'. fat32_mount (Some undefined) (Some 0) chs_fat32 = Ok (-1, fs', w'))"
    by (intro ata_chs_disk_unusable [OF drive_ports_drive]) (auto simp: chs_decode_def Let_def chs_fat32_def)
  then show ?thesis by blast
qed

section \<open>No drive at all\<close>

lemma wait_not_busy_floating:
  assumes "\<And>d. fst (inb p (io + 7) d) AND ATA_SR_BSY \<noteq> 0" and "status AND ATA_SR_BSY \<noteq> 0"
  shows "wait_not_busy p io status d = None"
proof (cases "wait_not_busy p io status d")
  case (Some r)
  have "p = p \<and> io = io \<longrightarrow> status AND ATA_SR_BSY = 0"
    by (rule wait_not_busy.raw_induct [where P = "\<lambda>p' io' status' d' r. p' = p \<and> io' = io \<longrightarrow> status' AND ATA_SR_BSY = 0", OF _ Some])
      (use assms(1) in \<open>force split: if_splits\<close>)
  then show ?thesis using assms(2) by simp
qed

text \<open>
  On a machine without an ATA controller, where the ports read as all ones, the discovery of disks never
  returns: the loop that waits for a drive to become ready has no limit.
\<close>

theorem ata_floating_bus_hangs:
  assumes "\<And>port d. fst (inb p port d) = 0xFF"
  shows "ata_pio_discover p reg d = Fail Hang"
proof -
  have "wait_not_busy p io 0xFF d = None" for io d by (rule wait_not_busy_floating) (simp_all add: assms)
  moreover have "(case inb p port d of (v, d') \<Rightarrow> F v d') = F 0xFF (snd (inb p port d))" for port d and F :: "u8 \<Rightarrow> 'a \<Rightarrow> (u32 option \<times> 'a) res"
    by (simp add: split_beta assms)
  ultimately have "ata_identify p ctx d = Fail Hang" for ctx d
    by (simp add: ata_identify_def Let_def)
  then show ?thesis by (simp add: ata_pio_discover_def detect_one_def Let_def)
qed

text \<open>Ports that read as all ones and keep nothing.\<close>

definition floating_ports :: "unit ports" where
  "floating_ports = \<lparr>inb = (\<lambda>port d. (0xFF, d)), outb = (\<lambda>port x d. d), inw = (\<lambda>port d. (0xFFFF, d)), outw = (\<lambda>port x d. d)\<rparr>"

theorem ata_floating_bus_hangs_witness: "ata_pio_discover floating_ports block_init () = Fail Hang"
  by (rule ata_floating_bus_hangs) (simp add: floating_ports_def)

end
