(* ===== verification/App_Files.thy ===== *)
theory App_Files
  imports Ramfs Vfs Console_Text
begin

text \<open>
  The file programs: \<open>kernel/apps/app_fs.c\<close>, which works on the root directory of the in-memory file system,
  and \<open>app_ls.c\<close>, \<open>app_cat.c\<close>, \<open>app_cd.c\<close> and \<open>app_pwd.c\<close>, which go through the virtual file system. A program
  gets the texts of its arguments, and gives its result, the text it prints and the new state.
\<close>

section \<open>fs\<close>

definition fs_usage :: "u8 list" where
  "fs_usage =
     line ''legacy: fs arbeitet direkt auf RAMFS-root'' @ line ''fs ls'' @ line ''fs touch <name>'' @
     line ''fs write <name> <text>'' @ line ''fs append <name> <text>'' @ line ''fs cat <name>'' @
     line ''fs cp <src> <dst>'' @ line ''fs mv <src> <dst>'' @ line ''fs rm <name>''"

text \<open>The entries \<open>i\<close> to \<open>i + n - 1\<close>.\<close>

fun fs_entries :: "nat \<Rightarrow> u32 \<Rightarrow> ramfs \<Rightarrow> u8 list res" where
  "fs_entries 0 i g = Ok []"
| "fs_entries (Suc n) i g =
     rbind (ramfs_get_entry i g) (\<lambda>r.
     rbind (fs_entries n (i + 1) g) (\<lambda>out.
       Ok (case r of
             Inl rc \<Rightarrow> out
           | Inr (name, sz) \<Rightarrow> name @ lit '' ('' @ print_u32 sz @ line '' B)'' @ out)))"

definition fs_cmd_ls :: "ramfs \<Rightarrow> (int \<times> u8 list) res" where
  "fs_cmd_ls g =
     rbind (ramfs_count g) (\<lambda>count.
       if count = 0 then Ok (0, line ''ramfs empty'')
       else rbind (fs_entries (unat count) 0 g) (\<lambda>out. Ok (0, out)))"

text \<open>
  The text that a pointer to the data of a file denotes. A file that the virtual file system has filled
  has no NUL byte; its text does not end in the data array.
\<close>

definition data_text :: "u8 list \<Rightarrow> u8 list res" where
  "data_text dat = (if 0 \<in> set dat then Ok (c_text dat) else Fail Wild)"

text \<open>What follows \<open>ramfs_write\<close>, with the name of what was written to.\<close>

definition after_write :: "string \<Rightarrow> int \<Rightarrow> u8 list + u8 list" where
  "after_write bad_name rc =
     (if rc = -1 then Inl (line bad_name)
      else if rc = -2 then Inl (line ''ramfs is full'')
      else Inr (if rc = 1 then line ''warning: text truncated'' else []))"

definition fs_cmd_touch :: "u8 list \<Rightarrow> ramfs \<Rightarrow> (int \<times> u8 list \<times> ramfs) res" where
  "fs_cmd_touch name g =
     rbind (ramfs_touch (Some name) g) (\<lambda>(rc, g).
       if rc = -1 then Ok (1, line ''invalid file name'', g)
       else if rc = -2 then Ok (1, line ''ramfs is full'', g)
       else Ok (0, [], g))"

definition fs_cmd_write :: "u8 list \<Rightarrow> u8 list \<Rightarrow> bool \<Rightarrow> ramfs \<Rightarrow> (int \<times> u8 list \<times> ramfs) res" where
  "fs_cmd_write name text appending g =
     rbind (ramfs_write (Some name) (Some text) appending g) (\<lambda>(rc, g).
       case after_write ''invalid file name'' rc of
         Inl out \<Rightarrow> Ok (1, out, g)
       | Inr out \<Rightarrow> Ok (0, out, g))"

definition fs_cmd_cat :: "u8 list \<Rightarrow> ramfs \<Rightarrow> (int \<times> u8 list \<times> ramfs) res" where
  "fs_cmd_cat name g =
     rbind (ramfs_read name g) (\<lambda>r.
       case r of
         None \<Rightarrow> Ok (1, line ''file not found'', g)
       | Some (dat, sz) \<Rightarrow> rbind (data_text dat) (\<lambda>text. Ok (0, text @ [ch_nl], g)))"

definition fs_cmd_rm :: "u8 list \<Rightarrow> ramfs \<Rightarrow> (int \<times> u8 list \<times> ramfs) res" where
  "fs_cmd_rm name g =
     rbind (ramfs_remove name g) (\<lambda>(rc, g). if rc < 0 then Ok (1, line ''file not found'', g) else Ok (0, [], g))"

text \<open>
  The source is read through a pointer into its node. Making the destination does not change a node in use,
  so the text is still there when it is copied, also when both names denote the same node.
\<close>

definition fs_cmd_copy :: "u8 list \<Rightarrow> u8 list \<Rightarrow> bool \<Rightarrow> ramfs \<Rightarrow> (int \<times> u8 list \<times> ramfs) res" where
  "fs_cmd_copy src dst move g =
     rbind (ramfs_read src g) (\<lambda>r.
       case r of
         None \<Rightarrow> Ok (1, line ''source file not found'', g)
       | Some (dat, sz) \<Rightarrow>
           rbind (data_text dat) (\<lambda>text.
           rbind (ramfs_write (Some dst) (Some text) False g) (\<lambda>(rc, g).
             case after_write ''invalid destination file name'' rc of
               Inl out \<Rightarrow> Ok (1, out, g)
             | Inr out \<Rightarrow>
                 if move then
                   rbind (ramfs_remove src g) (\<lambda>(rc, g).
                     Ok (0, out @ (if rc < 0 then line ''warning: source cleanup failed'' else []), g))
                 else Ok (0, out, g))))"

definition app_fs_main :: "u8 list list \<Rightarrow> ramfs \<Rightarrow> (int \<times> u8 list \<times> ramfs) res" where
  "app_fs_main argv g =
     (let argc = length argv; cmd = (\<lambda>s. streq (argv ! 1) (lit s))
      in if argc < 2 then Ok (1, fs_usage, g)
         else if cmd ''ls'' then rbind (fs_cmd_ls g) (\<lambda>(rc, out). Ok (rc, out, g))
         else if cmd ''touch'' then
           (if argc < 3 then Ok (1, line ''usage: fs touch <name>'', g) else fs_cmd_touch (argv ! 2) g)
         else if cmd ''write'' \<or> cmd ''append'' then
           (if argc < 4 then Ok (1, line ''usage: fs write|append <name> <text>'', g)
            else fs_cmd_write (argv ! 2) (argv ! 3) (cmd ''append'') g)
         else if cmd ''cat'' then
           (if argc < 3 then Ok (1, line ''usage: fs cat <name>'', g) else fs_cmd_cat (argv ! 2) g)
         else if cmd ''rm'' then
           (if argc < 3 then Ok (1, line ''usage: fs rm <name>'', g) else fs_cmd_rm (argv ! 2) g)
         else if cmd ''cp'' \<or> cmd ''mv'' then
           (if argc < 4 then Ok (1, line ''usage: fs cp|mv <src> <dst>'', g)
            else fs_cmd_copy (argv ! 2) (argv ! 3) (cmd ''mv'') g)
         else Ok (1, fs_usage, g))"

section \<open>cat\<close>

text \<open>
  The loop over the file, 64 bytes at a time; \<open>buf\<close> is the array on the stack with what it happens to hold. A
  count larger than the array would make the program read past it.
\<close>

partial_function (option) cat_loop ::
  "int \<Rightarrow> u8 list \<Rightarrow> u8 list \<Rightarrow> ('h, 's) vfs \<Rightarrow> (u8 list \<times> ('h, 's) vfs) res option" where
  "cat_loop fd buf out v =
     (case vfs_read fd (Some buf) 64 v of
        Fail e \<Rightarrow> Some (Fail e)
      | Ok (n, buf', v) \<Rightarrow>
          if n > 0 then
            (case buf' of
               None \<Rightarrow> Some (Fail Wild)
             | Some b \<Rightarrow>
                 if n > int (length b) then Some (Fail Wild)
                 else cat_loop fd b (out @ take (nat n) b) v)
          else Some (Ok (out, v)))"

definition app_cat_main ::
  "u8 list \<Rightarrow> u8 list list \<Rightarrow> ('h, 's) vfs \<Rightarrow> (int \<times> u8 list \<times> ('h, 's) vfs) res" where
  "app_cat_main buf argv v =
     (if length argv < 2 then Ok (1, line ''usage: cat <path>'', v)
      else rbind (vfs_open (Some (argv ! 1)) VFS_O_RDONLY v) (\<lambda>(fd, v).
        if fd < 0 then Ok (1, line ''cat: file not found'', v)
        else rbind (hang (cat_loop fd buf [] v)) (\<lambda>(out, v). Ok (0, out @ [ch_nl], snd (vfs_close fd v)))))"

section \<open>ls, cd and pwd\<close>

definition print_dirent :: "vfs_dirent \<Rightarrow> u8 list \<Rightarrow> int \<times> u8 list" where
  "print_dirent ent out = (0, out @ de_name ent @ (if de_is_dir ent then [ch_slash] else []) @ [ch_nl])"

definition app_ls_main :: "u8 list list \<Rightarrow> ('h, 's) vfs \<Rightarrow> (int \<times> u8 list) res" where
  "app_ls_main argv v =
     (let path = (if length argv > 1 then argv ! 1 else lit ''.'')
      in rbind (vfs_listdir (Some path) (Some print_dirent) [] v) (\<lambda>(rc, out).
           if rc < 0 then Ok (1, out @ line ''ls: cannot open directory'') else Ok (0, out)))"

definition app_cd_main :: "u8 list list \<Rightarrow> ('h, 's) vfs \<Rightarrow> (int \<times> u8 list \<times> ('h, 's) vfs) res" where
  "app_cd_main argv v =
     (let path = (if length argv > 1 then argv ! 1 else lit ''/'')
      in rbind (vfs_chdir (Some path) v) (\<lambda>(rc, v).
           if rc < 0 then Ok (1, line ''cd: no such directory'', v) else Ok (0, [], v)))"

definition app_pwd_main :: "u8 list list \<Rightarrow> ('h, 's) vfs \<Rightarrow> int \<times> u8 list" where
  "app_pwd_main argv v = (0, vfs_getcwd v @ [ch_nl])"

end
