(* ===== verification/App_Files_Spec.thy ===== *)
theory App_Files_Spec
  imports App_Files Vfs_Spec
begin

unbundle bit_operations_syntax

text \<open>
  The file programs refine a map from names to texts: \<open>fs\<close> on the root of the in-memory file system, and
  \<open>cat\<close> on any file system that keeps the contract of \<open>Fs_Interface\<close>.
\<close>

section \<open>The texts of the root directory\<close>

definition texts :: "ramfs \<Rightarrow> u8 list \<rightharpoonup> u8 list" where
  "texts g nm =
     (case dir_map g 0 nm of
        None \<Rightarrow> None
      | Some i \<Rightarrow> if rn_is_dir (g ! i) then None else Some (c_text (rn_data (g ! i))))"

lemma texts_index:
  assumes "ramfs_inv g" and "dir_map g 0 nm = Some i" and "dir_map g 0 nm' = Some j" and "nm' \<noteq> nm"
  shows "j \<noteq> i"
proof -
  have ok: "dir_ok g 0" using ramfs_invD(4) [OF assms(1)] ramfs_invD(3) [OF assms(1)] by blast
  show ?thesis using assms(2-4) by (auto simp: dir_map_Some [OF ok])
qed

text \<open>A text of at most 511 characters is stored whole, with its NUL byte.\<close>

lemma store_short:
  assumes "is_text tx" and "length tx \<le> 511"
  shows "store_text tx False n = Ok (n\<lparr>rn_data := (blit (rn_data n) 0 tx)[length tx := 0], rn_size := of_nat (length tx)\<rparr>)"
proof -
  have u: "unat (of_nat (length tx) :: u32) = length tx" using assms(2) by (simp add: unat_of_nat)
  have "\<not> (of_nat (length tx) :: u32) \<ge> 512" using assms(2) u by (simp add: word_le_nat_alt)
  moreover have "(of_nat (length tx) :: u32) > 0 \<longleftrightarrow> tx \<noteq> []" using u by (simp add: word_less_nat_alt)
  ultimately show ?thesis using assms u by (auto simp: store_text_def store_off_def store_len_def Let_def)
qed

lemma stored_text:
  assumes "is_text tx" and "length tx \<le> 511" and "length d = 512"
  shows "c_text ((blit d 0 tx)[length tx := 0]) = tx" and "0 \<in> set ((blit d 0 tx)[length tx := 0])"
proof -
  have "drop (length tx) d \<noteq> []" using assms(2,3) by simp
  then obtain x r where "drop (length tx) d = x # r" by (cases "drop (length tx) d") auto
  then have "(blit d 0 tx)[length tx := 0] = tx @ 0 # r" by (simp add: blit_def)
  then show "c_text ((blit d 0 tx)[length tx := 0]) = tx" "0 \<in> set ((blit d 0 tx)[length tx := 0])"
    using assms(1) by (simp_all add: c_text_terminated)
qed

text \<open>\<open>holds g nm tx\<close>: the root has a file of this name with this text, whose NUL byte lies in the array.\<close>

definition holds :: "ramfs \<Rightarrow> u8 list \<Rightarrow> u8 list \<Rightarrow> bool" where
  "holds g nm tx \<longleftrightarrow> (\<exists>i. dir_map g 0 nm = Some i \<and> \<not> rn_is_dir (g ! i) \<and> 0 \<in> set (rn_data (g ! i)) \<and> c_text (rn_data (g ! i)) = tx)"

lemma holds_texts: "holds g nm tx \<Longrightarrow> texts g nm = Some tx"
  by (auto simp: holds_def texts_def)

lemma ramfs_read_holds:
  assumes "ramfs_inv g" and "is_text nm" and "holds g nm tx"
  shows "\<exists>dat sz. ramfs_read nm g = Ok (Some (dat, sz)) \<and> data_text dat = Ok tx"
  using ramfs_read_spec [OF assms(1), of nm] assms(2,3) by (auto simp: holds_def data_text_def)

lemma holds_length:
  assumes "ramfs_inv g" and "holds g nm tx"
  shows "is_text tx" and "length tx \<le> 511"
proof -
  obtain i where i: "dir_map g 0 nm = Some i" "0 \<in> set (rn_data (g ! i))" "c_text (rn_data (g ! i)) = tx"
    using assms(2) by (auto simp: holds_def)
  have "i < 96" using child_index(1) [OF assms(1) ramfs_invD(3) [OF assms(1)] i(1)] .
  then have "length (rn_data (g ! i)) = 512" using ramfs_invD(2) [OF assms(1)] by (simp add: node_ok_def)
  moreover have "tx \<noteq> rn_data (g ! i)" using i(2,3) is_text_c_text [of "rn_data (g ! i)"] by (auto simp: is_text_def list_all_iff)
  then have "length tx < length (rn_data (g ! i))"
    using i(3) takeWhile_dropWhile_id [of "\<lambda>b. b \<noteq> 0" "rn_data (g ! i)"] length_takeWhile_le [of "\<lambda>b. b \<noteq> 0" "rn_data (g ! i)"]
    by (metis append_eq_conv_conj c_text_def le_neq_implies_less take_all_iff order_refl)
  ultimately show "length tx \<le> 511" by simp
  show "is_text tx" using i(3) is_text_c_text by metis
qed

section \<open>Writing and removing\<close>

lemma write_existing_texts:
  assumes inv: "ramfs_inv g" and found: "dir_map g 0 nm = Some i" "\<not> rn_is_dir (g ! i)" and nm: "is_text nm" "nm \<noteq> []"
    and tx: "is_text tx" "length tx \<le> 511"
  shows "\<exists>g'. ramfs_write (Some nm) (Some tx) False g = Ok (0, g') \<and> ramfs_inv g' \<and>
    texts g' = (texts g)(nm \<mapsto> tx) \<and> holds g' nm tx \<and> dir_map g' 0 = dir_map g 0"
proof -
  have root: "is_directory g 0" using ramfs_invD(3) [OF inv] .
  have i: "i < 96" using child_index(1) [OF inv root found(1)] .
  have len: "length g = 96" "length (rn_data (g ! i)) = 512"
    using ramfs_invD(1) [OF inv] ramfs_invD(2) [OF inv i] by (simp_all add: node_ok_def)
  define nd where "nd = (g ! i)\<lparr>rn_data := (blit (rn_data (g ! i)) 0 tx)[length tx := 0], rn_size := of_nat (length tx)\<rparr>"
  have ok: "node_ok nd"
    using ramfs_invD(2) [OF inv i] tx(2) by (simp add: nd_def node_ok_def word_le_nat_alt unat_of_nat)
  note U = update_named [OF inv found(1) ok]
  have same: "rn_used nd = rn_used (g ! i)" "rn_parent nd = rn_parent (g ! i)" "rn_first_child nd = rn_first_child (g ! i)"
    "rn_next_sibling nd = rn_next_sibling (g ! i)" "rn_name nd = rn_name (g ! i)" "rn_is_dir nd = rn_is_dir (g ! i)"
    by (simp_all add: nd_def)
  define g' where "g' = g[i := nd]"
  have g': "ramfs_inv g'" "dir_map g' 0 = dir_map g 0" using U(1,2) same root by (simp_all add: g'_def)
  have nth: "g' ! j = (if j = i then nd else g ! j)" for j using i len(1) by (simp add: g'_def nth_list_update)
  have touch: "ramfs_touch (Some nm) g = Ok (0, g)" using ramfs_touch_spec [OF inv, of nm] found nm by simp
  have "node_find_child 0 nm g = Ok (int i)" using node_find_child_spec [OF inv root, of nm] found nm by simp
  then have "ramfs_write (Some nm) (Some tx) False g = Ok (0, g')"
    using i store_short [OF tx] by (simp add: ramfs_write_def touch g'_def nd_def)
  moreover have "holds g' nm tx"
    using found(1,2) g'(2) stored_text [OF tx len(2)] by (auto simp: holds_def nth nd_def)
  moreover have "texts g' k = ((texts g)(nm \<mapsto> tx)) k" for k
  proof (cases "k = nm")
    case True
    then show ?thesis using holds_texts [OF calculation(2)] by simp
  next
    case False
    then show ?thesis
      using texts_index [OF inv found(1) _ False] by (auto simp: texts_def g'(2) nth split: option.split)
  qed
  ultimately show ?thesis using g' by blast
qed

lemma touch_new_texts:
  assumes inv: "ramfs_inv g" and new: "dir_map g 0 nm = None" "fresh_node g = Some x" and nm: "is_text nm" "legal_name nm"
  shows "\<exists>g'. ramfs_touch (Some nm) g = Ok (0, g') \<and> ramfs_inv g' \<and> dir_map g' 0 = (dir_map g 0)(nm \<mapsto> x) \<and>
    \<not> rn_is_dir (g' ! x) \<and> texts g' = (texts g)(nm \<mapsto> []) \<and> (\<forall>k tx. k \<noteq> nm \<longrightarrow> holds g k tx \<longrightarrow> holds g' k tx)"
proof -
  have root: "is_directory g 0" using ramfs_invD(3) [OF inv] .
  have ne: "nm \<noteq> []" using nm(2) by (auto simp: legal_name_def)
  have ct: "c_text nm = nm" using nm(1) by simp
  have new': "dir_map g 0 (c_text nm) = None" using new(1) ct by simp
  note L = linked_spec [OF inv root new(2) nm(2) new', where isd = False, unfolded ct]
  have x: "x < 96" "x \<noteq> 0" using fresh_node_Some [OF new(2)] ramfs_invD(5) [OF inv root] by (auto intro: gr0I)
  note nth = linked_nth [OF ramfs_invD(1) [OF inv] x(1) _ x(2), of nm False, simplified]
  define g' where "g' = linked g 0 x nm False"
  have zero: "rn_data (g' ! x) = replicate 512 0" using x by (simp add: g'_def nth new_node_def zero_node_def)
  have dat: "rn_data (g' ! j) = rn_data (g ! j)" if "j \<noteq> x" for j using that by (simp add: g'_def nth)
  have old: "j \<noteq> x" if "dir_map g 0 k = Some j" for k j
    using child_index(3) [OF inv root that] fresh_node_Some [OF new(2)] by auto
  have map: "dir_map g' 0 = (dir_map g 0)(nm \<mapsto> x)" and isd: "\<And>j. j \<noteq> x \<Longrightarrow> rn_is_dir (g' ! j) = rn_is_dir (g ! j)" "\<not> rn_is_dir (g' ! x)"
    using L(2,8,10) by (simp_all add: g'_def)
  have zt: "c_text (replicate 512 0) = []" by (simp add: c_text_def numeral_eq_Suc)
  have "texts g' k = ((texts g)(nm \<mapsto> [])) k" for k
  proof (cases "k = nm")
    case True
    then show ?thesis by (simp add: texts_def map isd(2) zero zt)
  next
    case False
    then show ?thesis using old [of k] dat isd(1) by (auto simp: texts_def map split: option.split)
  qed
  moreover have "\<forall>k tx. k \<noteq> nm \<longrightarrow> holds g k tx \<longrightarrow> holds g' k tx"
    using old dat isd(1) by (auto simp: holds_def map)
  moreover have "ramfs_touch (Some nm) g = Ok (0, g')"
    using ramfs_touch_spec [OF inv, of nm] new nm ne ct by (simp add: g'_def)
  ultimately show ?thesis using L(1) map isd(2) by (auto simp: g'_def)
qed

text \<open>Replacing the text of a file, or making one, updates the map at its name.\<close>

lemma write_texts:
  assumes inv: "ramfs_inv g" and nm: "is_text nm" "legal_name nm"
    and room: "case dir_map g 0 nm of None \<Rightarrow> fresh_node g \<noteq> None | Some i \<Rightarrow> \<not> rn_is_dir (g ! i)"
    and tx: "is_text tx" "length tx \<le> 511"
  shows "\<exists>g'. ramfs_write (Some nm) (Some tx) False g = Ok (0, g') \<and> ramfs_inv g' \<and>
    texts g' = (texts g)(nm \<mapsto> tx) \<and> holds g' nm tx \<and> (\<forall>k. dir_map g 0 k \<noteq> None \<longrightarrow> dir_map g' 0 k = dir_map g 0 k)"
proof (cases "dir_map g 0 nm")
  case None
  then obtain x where x: "fresh_node g = Some x" using room by auto
  obtain g1 where g1: "ramfs_touch (Some nm) g = Ok (0, g1)" "ramfs_inv g1" "dir_map g1 0 = (dir_map g 0)(nm \<mapsto> x)"
    "\<not> rn_is_dir (g1 ! x)" "texts g1 = (texts g)(nm \<mapsto> [])"
    using touch_new_texts [OF inv None x nm] by blast
  have ne: "nm \<noteq> []" using nm(2) by (auto simp: legal_name_def)
  have "ramfs_touch (Some nm) g1 = Ok (0, g1)" using ramfs_touch_spec [OF g1(2), of nm] g1(3) nm(1) ne by simp
  then have "ramfs_write (Some nm) (Some tx) False g = ramfs_write (Some nm) (Some tx) False g1"
    using g1(1) by (simp add: ramfs_write_def)
  moreover obtain g' where "ramfs_write (Some nm) (Some tx) False g1 = Ok (0, g')" "ramfs_inv g'"
    "texts g' = (texts g1)(nm \<mapsto> tx)" "holds g' nm tx" "dir_map g' 0 = dir_map g1 0"
    using write_existing_texts [OF g1(2) _ g1(4) nm(1) ne tx] g1(3) by auto
  ultimately show ?thesis using g1(3,5) None by auto
next
  case (Some i)
  have "nm \<noteq> []" using nm(2) by (auto simp: legal_name_def)
  from write_existing_texts [OF inv Some _ nm(1) this tx] room Some show ?thesis by auto
qed

lemma remove_texts:
  assumes inv: "ramfs_inv g" and nm: "is_text nm" "dir_map g 0 nm = Some y"
  shows "\<exists>g'. ramfs_remove nm g = Ok (0, g') \<and> ramfs_inv g' \<and> texts g' = (texts g)(nm := None) \<and>
    (\<forall>k tx. k \<noteq> nm \<longrightarrow> holds g k tx \<longrightarrow> holds g' k tx)"
proof -
  have root: "is_directory g 0" using ramfs_invD(3) [OF inv] .
  have ok: "dir_ok g 0" using ramfs_invD(4) [OF inv root] .
  have y: "y \<in> set (kids g 0)" "node_name g y = nm" using nm by (simp_all add: dir_map_Some [OF ok])
  obtain xs ys where split: "kids g 0 = xs @ y # ys" "y \<notin> set xs" using split_list_first [OF y(1)] by blast
  have tw: "takeWhile (\<lambda>x. x \<noteq> y) (kids g 0) = xs"
    unfolding split(1) using split(2) by (subst takeWhile_append2) auto
  define p where "p = (if xs = [] then - 1 else int (last xs))"
  define g' where "g' = unlink g p y"
  note U = unlink_spec [OF inv split(1), folded p_def, folded g'_def]
  have K: "y < 96" "y \<noteq> 0" using child_index [OF inv root nm(2)] dir_okD(3) [OF ok y(1)] by auto
  have lx: "xs \<noteq> [] \<Longrightarrow> last xs \<in> set xs" by simp
  have p: "nat p < 96" "nat p \<noteq> y"
    using lx split dir_okD(2) [OF ok] dir_okD(1) [OF ok] chain_bound [of g _ "kids g 0" "last xs"] K by (auto simp: p_def)
  note nth = unlink_nth [OF ramfs_invD(1) [OF inv] K(1) p(1,2) K(2), folded g'_def]
  have same: "rn_data (g' ! j) = rn_data (g ! j)" "rn_is_dir (g' ! j) = rn_is_dir (g ! j)" if "j \<noteq> y" for j
    using that by (auto simp: nth)
  have map: "dir_map g' 0 = (dir_map g 0)(nm := None)" using U(2) y(2) by simp
  have old: "j \<noteq> y" if "dir_map g 0 k = Some j" "k \<noteq> nm" for k j using texts_index [OF inv nm(2) that] .
  have "texts g' k = ((texts g)(nm := None)) k" for k
    using old same by (auto simp: texts_def map split: option.split)
  moreover have "\<forall>k tx. k \<noteq> nm \<longrightarrow> holds g k tx \<longrightarrow> holds g' k tx" using old same by (auto simp: holds_def map)
  moreover have "ramfs_remove nm g = Ok (0, g')"
    using ramfs_remove_spec [OF inv, of nm] nm tw by (simp add: g'_def p_def)
  ultimately show ?thesis using U(1) by blast
qed

text \<open>A longer text is cut after 511 characters.\<close>

lemma store_long:
  assumes "is_text tx" and "length tx < 2 ^ 31"
  shows "store_text tx False n = store_text (take 511 tx) False n"
proof (cases "length tx \<le> 511")
  case False
  have u: "unat (of_nat (length tx) :: u32) = length tx" using assms(2) by (simp add: unat_of_nat)
  have "store_len tx 0 = 511" using False u assms(1) by (simp add: store_len_def Let_def word_le_nat_alt)
  moreover have "store_len (take 511 tx) 0 = 511" using False assms(1) by (simp add: store_len_def Let_def)
  ultimately show ?thesis using False assms(1) by (simp add: store_text_def store_off_def Let_def min_def)
qed simp

lemma ramfs_write_long:
  assumes "is_text tx" and "length tx < 2 ^ 31"
  shows "ramfs_write nm (Some tx) False g = ramfs_write nm (Some (take 511 tx)) False g"
  unfolding ramfs_write_def option.case store_long [OF assms] ..

lemma command_texts:
  "streq (lit s) (lit t) \<longleftrightarrow> lit s = lit t" if "list_all (\<lambda>c. of_char c \<noteq> (0 :: u8)) s" "list_all (\<lambda>c. of_char c \<noteq> (0 :: u8)) t"
proof -
  have "is_text (lit s)" "is_text (lit t)" using that by (simp_all add: is_text_def lit_def list_all_iff)
  then show ?thesis by (simp add: streq_iff)
qed

lemma fs_commands:
  "app_fs_main [a, lit ''write'', nm, tx] g = fs_cmd_write nm tx False g"
  "app_fs_main [a, lit ''cat'', nm] g = fs_cmd_cat nm g"
  "app_fs_main [a, lit ''rm'', nm] g = fs_cmd_rm nm g"
  "app_fs_main [a, lit ''cp'', src, dst] g = fs_cmd_copy src dst False g"
  "app_fs_main [a, lit ''mv'', src, dst] g = fs_cmd_copy src dst True g"
  by (simp_all add: app_fs_main_def command_texts Let_def) (simp_all add: lit_def)

lemma fs_write_map:
  assumes "ramfs_inv g" and "is_text nm" and "legal_name nm"
    and "case dir_map g 0 nm of None \<Rightarrow> fresh_node g \<noteq> None | Some i \<Rightarrow> \<not> rn_is_dir (g ! i)"
    and "is_text tx" and "length tx < 2 ^ 31"
  shows "\<exists>g'. fs_cmd_write nm tx False g = Ok (0, [], g') \<and> ramfs_inv g' \<and> texts g' = (texts g)(nm \<mapsto> take 511 tx) \<and>
    holds g' nm (take 511 tx)"
proof -
  obtain g' where "ramfs_write (Some nm) (Some (take 511 tx)) False g = Ok (0, g')" "ramfs_inv g'"
    "texts g' = (texts g)(nm \<mapsto> take 511 tx)" "holds g' nm (take 511 tx)"
    using write_texts [OF assms(1-4), of "take 511 tx"] assms(5) by auto
  then show ?thesis
    using ramfs_write_long [OF assms(5,6), of "Some nm" g] by (simp add: fs_cmd_write_def after_write_def)
qed

lemma fs_write_full:
  assumes "ramfs_inv g" and "is_text nm" and "nm \<noteq> []" and "dir_map g 0 nm = None" and "fresh_node g = None"
  shows "fs_cmd_write nm tx False g = Ok (1, line ''invalid file name'', g)"
  using ramfs_touch_spec [OF assms(1), of nm] assms(2-5) by (simp add: fs_cmd_write_def ramfs_write_def after_write_def)

lemma fs_copy_map:
  assumes inv: "ramfs_inv g" and src: "is_text src" "holds g src tx" and dst: "is_text dst" "legal_name dst"
    and room: "case dir_map g 0 dst of None \<Rightarrow> fresh_node g \<noteq> None | Some i \<Rightarrow> \<not> rn_is_dir (g ! i)"
  shows "\<exists>g'. fs_cmd_copy src dst False g = Ok (0, [], g') \<and> ramfs_inv g' \<and> texts g' = (texts g)(dst \<mapsto> tx) \<and> holds g' dst tx"
    and "\<exists>g'. fs_cmd_copy src dst True g = Ok (0, [], g') \<and> ramfs_inv g' \<and> texts g' = ((texts g)(dst \<mapsto> tx))(src := None)"
proof -
  obtain dat sz where r: "ramfs_read src g = Ok (Some (dat, sz))" "data_text dat = Ok tx"
    using ramfs_read_holds [OF inv src] by blast
  obtain g1 where g1: "ramfs_write (Some dst) (Some tx) False g = Ok (0, g1)" "ramfs_inv g1" "texts g1 = (texts g)(dst \<mapsto> tx)"
    "holds g1 dst tx" "\<forall>k. dir_map g 0 k \<noteq> None \<longrightarrow> dir_map g1 0 k = dir_map g 0 k"
    using write_texts [OF inv dst room holds_length [OF inv src(2)]] by blast
  show "\<exists>g'. fs_cmd_copy src dst False g = Ok (0, [], g') \<and> ramfs_inv g' \<and> texts g' = (texts g)(dst \<mapsto> tx) \<and> holds g' dst tx"
    using r g1 by (simp add: fs_cmd_copy_def after_write_def)
  obtain i where "dir_map g1 0 src = Some i" using src(2) g1(5) by (auto simp: holds_def)
  from remove_texts [OF g1(2) src(1) this] r g1(1,3)
  show "\<exists>g'. fs_cmd_copy src dst True g = Ok (0, [], g') \<and> ramfs_inv g' \<and> texts g' = ((texts g)(dst \<mapsto> tx))(src := None)"
    by (auto simp: fs_cmd_copy_def after_write_def)
qed

lemma fs_cat_map:
  assumes "ramfs_inv g" and "is_text nm" and "holds g nm tx"
  shows "fs_cmd_cat nm g = Ok (0, tx @ [ch_nl], g)"
  using ramfs_read_holds [OF assms] by (auto simp: fs_cmd_cat_def)



section \<open>Printing a file\<close>

lemma lowest_free:
  assumes "i < 32" and "\<not> fd_used (fds v ! i)"
  obtains j where "find (\<lambda>j. \<not> fd_used (fds v ! j)) [0..<32] = Some j" and "j < 32" and "\<not> fd_used (fds v ! j)"
proof (cases "find (\<lambda>j. \<not> fd_used (fds v ! j)) [0..<32]")
  case None
  then have "fd_used (fds v ! i)" using assms(1) unfolding find_None_iff by auto
  then show thesis using assms(2) by simp
next
  case (Some k)
  then have "k < 32" "\<not> fd_used (fds v ! k)" by (auto simp: find_Some_iff)
  then show thesis using that Some by simp
qed

text \<open>A descriptor for reading the node \<open>h\<close> from \<open>off\<close>.\<close>

definition reading :: "('h, 's) fs_ops \<Rightarrow> u32 \<Rightarrow> 'h \<Rightarrow> u32 \<Rightarrow> ('h, 's) vfs_fd" where
  "reading ops ctx h off = \<lparr>fd_used = True, fd_flags = 0x01, fd_ops = Some ops, fd_ctx = ctx, fd_node = Some h, fd_pos = off\<rparr>"

context readable_fs
begin

lemma read_advances:
  assumes inv: "inv (fs_state v)" and f: "is_file (fs_state v) h" and ops: "op_read ops = Some rd"
    and fd: "i < 32" "length (fds v) = 32" "fds v ! i = reading ops ctx h off"
    and room: "unat n \<le> length buf" and size: "length (bytes (fs_state v) h) < 2 ^ 32"
  defines "ys \<equiv> take (unat n) (drop (unat off) (bytes (fs_state v) h))"
  shows "vfs_read (int i) (Some buf) n v =
    Ok (int (length ys), Some (blit buf 0 ys), v\<lparr>fds := (fds v)[i := reading ops ctx h (off + of_nat (length ys))]\<rparr>)"
    and "unat (off + of_nat (length ys)) = unat off + length ys"
proof -
  have "advance (int i) (int (length ys)) v = v\<lparr>fds := (fds v)[i := reading ops ctx h (off + of_nat (length ys))]\<rparr>"
  proof (cases "ys = []")
    case True
    then have "(fds v)[i := reading ops ctx h (off + of_nat (length ys))] = fds v" using fd by (simp flip: fd(3))
    then show ?thesis using True by (simp add: advance_def)
  qed (use fd in \<open>simp add: advance_def reading_def\<close>)
  then show "vfs_read (int i) (Some buf) n v =
      Ok (int (length ys), Some (blit buf 0 ys), v\<lparr>fds := (fds v)[i := reading ops ctx h (off + of_nat (length ys))]\<rparr>)"
    using fd ops read_law [OF inv f room, of ctx off] by (simp add: vfs_read_def open_fd_def reading_def ys_def Let_def)
  show "unat (off + of_nat (length ys)) = unat off + length ys"
  proof (cases "ys = []")
    case False
    then have "unat off + length ys \<le> length (bytes (fs_state v) h)" by (auto simp: ys_def)
    then have l: "unat off + length ys < 2 ^ 32" using size by simp
    then have "unat (of_nat (length ys) :: u32) = length ys" by (simp add: unat_of_nat)
    then show ?thesis using l by (simp add: unat_plus_nowrap)
  qed simp
qed

lemma cat_loop_prints:
  assumes "inv (fs_state v)" and "is_file (fs_state v) h" and "op_read ops = Some rd"
    and "i < 32" and "length (fds v) = 32" and "fds v ! i = reading ops ctx h off"
    and "length buf = 64" and "length (bytes (fs_state v) h) < 2 ^ 32"
  shows "\<exists>off'. cat_loop (int i) buf out v =
    Some (Ok (out @ drop (unat off) (bytes (fs_state v) h), v\<lparr>fds := (fds v)[i := reading ops ctx h off']\<rparr>))"
  using assms
proof (induction "length (bytes (fs_state v) h) - unat off" arbitrary: off buf out v rule: less_induct)
  case less
  define ys where "ys = take 64 (drop (unat off) (bytes (fs_state v) h))"
  define v1 where "v1 = v\<lparr>fds := (fds v)[i := reading ops ctx h (off + of_nat (length ys))]\<rparr>"
  have "unat (64 :: u32) \<le> length buf" using less.prems(7) by simp
  note R = read_advances [OF less.prems(1-6) this less.prems(8)]
  have r: "vfs_read (int i) (Some buf) 64 v = Ok (int (length ys), Some (blit buf 0 ys), v1)"
    "unat (off + of_nat (length ys)) = unat off + length ys"
    using R by (simp_all add: ys_def v1_def)
  show ?case
  proof (cases "ys = []")
    case True
    then have "v1 = v" using less.prems(4-6) by (simp add: v1_def) (simp flip: less.prems(6))
    moreover have "drop (unat off) (bytes (fs_state v) h) = []" using True by (simp add: ys_def)
    moreover have "v = v\<lparr>fds := (fds v)[i := reading ops ctx h off]\<rparr>" by (simp flip: less.prems(6))
    ultimately show ?thesis using True r(1) by (subst cat_loop.simps) (auto intro: exI [of _ off])
  next
    case False
    have len: "length ys \<le> 64" "0 < length ys" "unat off + length ys \<le> length (bytes (fs_state v) h)"
      using False by (auto simp: ys_def)
    let ?b = "blit buf 0 ys"
    have b: "take (length ys) ?b = ys" "length ?b = 64" using len(1) less.prems(7) by (simp_all add: blit_def)
    have "cat_loop (int i) buf out v = cat_loop (int i) ?b (out @ ys) v1"
      using r(1) len b less.prems(7) by (subst cat_loop.simps) simp
    moreover have "length (bytes (fs_state v1) h) - unat (off + of_nat (length ys)) < length (bytes (fs_state v) h) - unat off"
    proof -
      have "fs_state v1 = fs_state v" by (simp add: v1_def)
      then show ?thesis unfolding r(2) using len(2,3) by (simp only:)
    qed
    then have "\<exists>off'. cat_loop (int i) ?b (out @ ys) v1 = Some (Ok ((out @ ys) @ drop (unat (off + of_nat (length ys))) (bytes (fs_state v1) h),
        v1\<lparr>fds := (fds v1)[i := reading ops ctx h off']\<rparr>))"
      using less.prems b(2) by (intro less.hyps) (simp_all add: v1_def)
    moreover have "ys @ drop (unat off + length ys) (bytes (fs_state v) h) = drop (unat off) (bytes (fs_state v) h)"
    proof -
      let ?t = "drop (unat off) (bytes (fs_state v) h)"
      have "ys @ drop (length ys) ?t = ?t" unfolding ys_def by (cases "length ?t \<le> 64") (simp_all del: drop_drop)
      then show ?thesis by (simp add: add.commute)
    qed
    ultimately show ?thesis by (auto simp: v1_def r(2))
  qed
qed

text \<open>\<open>cat\<close> prints all bytes of a file below a mount point, and gives its descriptor back.\<close>

lemma cat_below:
  assumes inv: "inv (fs_state v)" and b: "below v m p nm"
    and ops: "mt_ops m = Some ops" "op_get_root ops = Some get_root" "op_lookup ops = Some lookup" "op_read ops = Some rd"
    and entry: "entry (fs_state v) root nm = Some (h, False)"
    and free: "length (fds v) = 32" "i < 32" "\<not> fd_used (fds v ! i)" and buf: "length buf = 64"
    and size: "length (bytes (fs_state v) h) < 2 ^ 32"
  shows "\<exists>j. app_cat_main buf [c, p] v = Ok (0, bytes (fs_state v) h @ [ch_nl], v\<lparr>fds := (fds v)[j := no_fd]\<rparr>) \<and>
    j < 32 \<and> \<not> fd_used (fds v ! j)"
proof -
  have r: "resolve_path (Some p) v = Ok (Some (m, Some h, False))"
    using resolve_below [OF inv b ops(1-3)] entry by simp
  obtain j where j: "find (\<lambda>j. \<not> fd_used (fds v ! j)) [0..<32] = Some j" "j < 32" "\<not> fd_used (fds v ! j)"
    using lowest_free [OF free(2,3)] by blast
  define v1 where "v1 = v\<lparr>fds := (fds v)[j := reading ops (mt_ctx m) h 0]\<rparr>"
  have o: "vfs_open (Some p) 0x01 v = Ok (int j, v1)"
    using r j(1) ops(1) by (simp add: vfs_open_def take_fd_def v1_def reading_def)
  have "is_file (fs_state v) h" using entry_file [OF inv _ entry] root_law [OF inv] by blast
  then obtain off' where "cat_loop (int j) buf [] v1 = Some (Ok (bytes (fs_state v) h, v1\<lparr>fds := (fds v1)[j := reading ops (mt_ctx m) h off']\<rparr>))"
    using cat_loop_prints [of v1 h ops j "mt_ctx m" 0 buf "[]"] inv ops(4) j(2) free(1) buf size by (auto simp: v1_def)
  then have "app_cat_main buf [c, p] v = Ok (0, bytes (fs_state v) h @ [ch_nl], v\<lparr>fds := (fds v)[j := no_fd]\<rparr>)"
    using o j(2) free(1) by (simp add: app_cat_main_def vfs_close_def open_fd_def v1_def reading_def)
  then show ?thesis using j by blast
qed

end

end
