(* ===== verification/Boot_Files.thy ===== *)
theory Boot_Files
  imports App_Files_Spec Initrd_Spec
begin

unbundle bit_operations_syntax

text \<open>
  The file systems as \<open>kmain\<close> (\<open>kernel/kernel.c\<close>) sets them up: the in-memory file system mounted at \<open>/\<close>, the
  boot modules at \<open>/initrd\<close>, and what the programs \<open>ls\<close> and \<open>cat\<close> print on the running system.
\<close>

section \<open>Two file systems behind one virtual file system\<close>

text \<open>
  The virtual file system keeps nodes as \<open>void*\<close>. Here a node of one file system is tagged with where it
  comes from, and an operation that were given a node of the other one would read a wrong object.
\<close>

datatype boot_node = Ram_Node nat | Initrd_Node initrd_node

type_synonym boot_state = "ramfs \<times> initrd_state"

definition cast :: "('h \<Rightarrow> 'n option) \<Rightarrow> 'h option \<Rightarrow> 'n option res" where
  "cast as h = (case h of None \<Rightarrow> Ok None | Some x \<Rightarrow> (case as x of None \<Rightarrow> Fail Wild | Some n \<Rightarrow> Ok (Some n)))"

definition lift_get_root where
  "lift_get_root wrap get f ctx t = rbind (f ctx (get t)) (\<lambda>h. Ok (map_option wrap h))"

definition lift_lookup where
  "lift_lookup wrap as get f ctx dir name t =
     rbind (cast as dir) (\<lambda>d. rbind (f ctx d name (get t)) (\<lambda>r.
       Ok (case r of Inl rc \<Rightarrow> Inl rc | Inr (h, isd) \<Rightarrow> Inr (map_option wrap h, isd))))"

definition lift_create where
  "lift_create wrap as get put f ctx dir name isd t =
     rbind (cast as dir) (\<lambda>d. rbind (f ctx d name isd (get t)) (\<lambda>(r, s).
       Ok (case r of Inl rc \<Rightarrow> Inl rc | Inr h \<Rightarrow> Inr (map_option wrap h), put s t)))"

definition lift_read where
  "lift_read as get f ctx node off buf n t = rbind (cast as node) (\<lambda>d. f ctx d off buf n (get t))"

definition lift_write where
  "lift_write as get put f ctx node off buf n t =
     rbind (cast as node) (\<lambda>d. rbind (f ctx d off buf n (get t)) (\<lambda>(rc, s). Ok (rc, put s t)))"

definition lift_ops ::
  "('n \<Rightarrow> 'h) \<Rightarrow> ('h \<Rightarrow> 'n option) \<Rightarrow> ('t \<Rightarrow> 's) \<Rightarrow> ('s \<Rightarrow> 't \<Rightarrow> 't) \<Rightarrow> ('n, 's) fs_ops \<Rightarrow> ('h, 't) fs_ops" where
  "lift_ops wrap as get put ops =
     \<lparr>op_get_root = map_option (lift_get_root wrap get) (op_get_root ops),
      op_lookup = map_option (lift_lookup wrap as get) (op_lookup ops),
      op_create = map_option (lift_create wrap as get put) (op_create ops),
      op_read = map_option (lift_read as get) (op_read ops),
      op_write = map_option (lift_write as get put) (op_write ops),
      op_readdir = map_option (\<lambda>f ctx dir i t. rbind (cast as dir) (\<lambda>d. f ctx d i (get t))) (op_readdir ops),
      op_size = map_option (\<lambda>f ctx node t. rbind (cast as node) (\<lambda>d. f ctx d (get t))) (op_size ops)\<rparr>"

definition as_ram :: "boot_node \<Rightarrow> nat option" where
  "as_ram h = (case h of Ram_Node n \<Rightarrow> Some n | Initrd_Node n \<Rightarrow> None)"

definition as_module :: "boot_node \<Rightarrow> initrd_node option" where
  "as_module h = (case h of Ram_Node n \<Rightarrow> None | Initrd_Node n \<Rightarrow> Some n)"

definition ram_ops :: "(boot_node, boot_state) fs_ops" where
  "ram_ops = lift_ops Ram_Node as_ram fst (\<lambda>g t. (g, snd t)) ramfs_ops"

definition module_ops :: "(boot_node, boot_state) fs_ops" where
  "module_ops = lift_ops Initrd_Node as_module snd (\<lambda>g t. (fst t, g)) g_initrd_ops"

section \<open>The file system part of kmain\<close>

definition kmain_files ::
  "u32 \<Rightarrow> u32 \<Rightarrow> u32 \<Rightarrow> (boot_node, boot_state) vfs \<Rightarrow> (u8 list \<times> (boot_node, boot_state) vfs) res" where
  "kmain_files ctx mb_magic mb_info_addr v =
     (let v = vfs_init (v\<lparr>fs_state := (ramfs_init (fst (fs_state v)), snd (fs_state v))\<rparr>)
      in case vfs_mount (Some (lit ''/'')) (Some ram_ops) 0 v of
           (rc, v) \<Rightarrow>
             rbind (vfs_mkdir (Some (lit ''/initrd'')) v) (\<lambda>(rc, v).
               rbind (initrd_mount_on module_ops snd (\<lambda>g t. (fst t, g)) ctx mb_magic mb_info_addr v) (\<lambda>(out, v).
                 Ok (line ''Init: RAMFS + VFS...'' @ out, v))))"

section \<open>The contract carries over\<close>

lemma readable_fs_lift:
  fixes good :: "'s \<Rightarrow> bool" and get :: "'t \<Rightarrow> 's" and wrap :: "'n \<Rightarrow> 'h"
  assumes "readable_fs get_root lookup rd good root is_dir is_file entry bytes" and as: "\<And>h n. as h = Some n \<longleftrightarrow> h = wrap n"
  shows "readable_fs (lift_get_root wrap get get_root) (lift_lookup wrap as get lookup) (lift_read as get rd)
    (\<lambda>t. good (get t)) (wrap root) (\<lambda>t h. \<exists>n. h = wrap n \<and> is_dir (get t) n) (\<lambda>t h. \<exists>n. h = wrap n \<and> is_file (get t) n)
    (\<lambda>t h nm. Option.bind (as h) (\<lambda>n. map_option (\<lambda>(x, b). (wrap x, b)) (entry (get t) n nm)))
    (\<lambda>t h. case as h of None \<Rightarrow> [] | Some n \<Rightarrow> bytes (get t) n)"
proof -
  note L = readable_fs.root_law [OF assms(1)] readable_fs.lookup_law [OF assms(1)] readable_fs.read_law [OF assms(1)]
  have self: "as (wrap n) = Some n" for n using as by blast
  show ?thesis
  proof (unfold_locales, goal_cases)
    case (1 s ctx)
    then show ?case using L(1) by (auto simp: lift_get_root_def)
  next
    case (2 s d nm ctx)
    then show ?case using L(2) self by (auto simp: lift_lookup_def cast_def split: option.split)
  next
    case (3 s d nm n b)
    then obtain d' x where "d = wrap d'" "n = wrap x" "is_dir (get s) d'" "entry (get s) d' nm = Some (x, b)"
      using self by auto
    with readable_fs.entry_law [OF assms(1) 3(1)] show ?case by (auto split: if_splits)
  next
    case (4 s n k buf ctx off)
    then show ?case using L(3) self by (auto simp: lift_read_def cast_def)
  qed
qed

lemma as_node: "as_ram h = Some n \<longleftrightarrow> h = Ram_Node n" "as_module h = Some k \<longleftrightarrow> h = Initrd_Node k"
  by (auto simp: as_ram_def as_module_def split: boot_node.splits)

interpretation boot_ram: readable_fs "lift_get_root Ram_Node fst fs_get_root" "lift_lookup Ram_Node as_ram fst fs_lookup"
  "lift_read as_ram fst fs_read" "\<lambda>t :: boot_state. ramfs_inv (fst t)" "Ram_Node 0" "\<lambda>t h. \<exists>n. h = Ram_Node n \<and> is_directory (fst t) n"
  "\<lambda>t h. \<exists>n. h = Ram_Node n \<and> is_regular (fst t) n"
  "\<lambda>t h nm. Option.bind (as_ram h) (\<lambda>n. map_option (\<lambda>(x, b). (Ram_Node x, b)) (entry_of (fst t) n nm))"
  "\<lambda>t h. case as_ram h of None \<Rightarrow> [] | Some n \<Rightarrow> file_bytes (fst t) n"
  by (rule readable_fs_lift [OF ramdisk.readable_fs_axioms as_node(1)])

interpretation boot_modules: readable_fs "lift_get_root Initrd_Node snd initrd_get_root" "lift_lookup Initrd_Node as_module snd initrd_lookup"
  "lift_read as_module snd initrd_read" "\<lambda>t :: boot_state. initrd_inv (snd t)" "Initrd_Node Root_Sentinel"
  "\<lambda>t h. \<exists>n. h = Initrd_Node n \<and> n = Root_Sentinel" "\<lambda>t h. \<exists>n. h = Initrd_Node n \<and> initrd_is_file (snd t) n"
  "\<lambda>t h nm. Option.bind (as_module h) (\<lambda>n. map_option (\<lambda>(x, b). (Initrd_Node x, b)) (initrd_entry (snd t) n nm))"
  "\<lambda>t h. case as_module h of None \<Rightarrow> [] | Some n \<Rightarrow> module_bytes (snd t) n"
  by (rule readable_fs_lift [OF modules.readable_fs_axioms as_node(2)])

section \<open>The state after the boot\<close>

definition root_mount :: "(boot_node, boot_state) vfs_mount_entry" where
  "root_mount = \<lparr>mt_used = True, mt_point = lit ''/'', mt_ops = Some ram_ops, mt_ctx = 0\<rparr>"

definition initrd_mount :: "u32 \<Rightarrow> (boot_node, boot_state) vfs_mount_entry" where
  "initrd_mount ctx = \<lparr>mt_used = True, mt_point = lit ''/initrd'', mt_ops = Some module_ops, mt_ctx = ctx\<rparr>"

lemma lift_ops_sel:
  "op_get_root ram_ops = Some (lift_get_root Ram_Node fst fs_get_root)"
  "op_lookup ram_ops = Some (lift_lookup Ram_Node as_ram fst fs_lookup)"
  "op_create ram_ops = Some (lift_create Ram_Node as_ram fst (\<lambda>g t. (g, snd t)) fs_create)"
  "op_readdir ram_ops = Some (\<lambda>ctx dir i t. rbind (cast as_ram dir) (\<lambda>d. fs_readdir ctx d i (fst t)))"
  "op_get_root module_ops = Some (lift_get_root Initrd_Node snd initrd_get_root)"
  "op_lookup module_ops = Some (lift_lookup Initrd_Node as_module snd initrd_lookup)"
  "op_read module_ops = Some (lift_read as_module snd initrd_read)"
  by (simp_all add: ram_ops_def module_ops_def lift_ops_def ramfs_ops_def g_initrd_ops_def)

lemma kept_entry: "kept g g' d nm \<Longrightarrow> is_directory g e \<Longrightarrow> (e, k) \<noteq> (d, nm) \<Longrightarrow> entry_of g' e k = entry_of g e k"
  unfolding kept_def by blast

text \<open>The directory that \<open>vfs_mkdir\<close> makes is the only entry of the root.\<close>

lemma mkdir_initrd:
  obtains g1 where "fs_create 0 (Some 0) (Some (lit ''initrd'')) True (ramfs_init g) = Ok (Inr (Some 1), g1)"
    and "ramfs_inv g1" and "kids g1 0 = [1]" and "node_name g1 1 = lit ''initrd''" and "rn_is_dir (g1 ! 1)"
proof -
  have nm: "c_text (lit ''initrd'') = lit ''initrd''" "legal_name (lit ''initrd'')"
    by (simp_all add: legal_name_def lit_def c_text_def)
  have d: "is_directory (ramfs_init g) 0" by (simp add: ramfs_init_dirs)
  have none: "entry_of (ramfs_init g) 0 k = None" for k by (simp add: entry_of_def ramfs_init_empty)
  obtain g1 where g1: "fs_create 0 (Some 0) (Some (lit ''initrd'')) True (ramfs_init g) = Ok (Inr (Some 1), g1)"
    "ramfs_inv g1" "kept (ramfs_init g) g1 0 (lit ''initrd'')" "entry_of g1 0 (lit ''initrd'') = Some (1, True)"
    using fs_create_spec [OF ramfs_init_inv d, of 0 "lit ''initrd''" True] none fresh_init nm by auto
  have ok: "dir_ok g1 0" using ramfs_invD(3,4) [OF g1(2)] by blast
  have one: "1 \<in> set (kids g1 0)" "node_name g1 1 = lit ''initrd''" "rn_is_dir (g1 ! 1)"
    using g1(4) dir_map_Some [OF ok, of "lit ''initrd''" 1] by (auto simp: entry_of_def)
  have "set (kids g1 0) \<subseteq> {1}"
  proof
    fix x assume that: "x \<in> set (kids g1 0)"
    have m: "dir_map g1 0 (node_name g1 x) = Some x" using that by (simp add: dir_map_Some [OF ok])
    then have "entry_of g1 0 (node_name g1 x) \<noteq> None" by (simp add: entry_of_def)
    moreover have "k \<noteq> lit ''initrd'' \<Longrightarrow> entry_of g1 0 k = None" for k
    proof -
      have "entry_of g1 0 k = entry_of (ramfs_init g) 0 k"
        if "k \<noteq> lit ''initrd''" by (rule kept_entry [OF g1(3) d]) (use that in simp)
      then show "k \<noteq> lit ''initrd'' \<Longrightarrow> entry_of g1 0 k = None" using none by simp
    qed
    ultimately have "node_name g1 x = lit ''initrd''" by (rule contrapos_np)
    then have "dir_map g1 0 (lit ''initrd'') = Some x" using m by simp
    then show "x \<in> {1}" using g1(4) by (simp add: entry_of_def)
  qed
  then have "set (kids g1 0) = {1}" using one(1) by blast
  then have "kids g1 0 = [1]" using dir_okD(2) [OF ok] by (cases "kids g1 0") (auto simp: subset_singleton_iff)
  then show thesis using that g1(1,2) one by blast
qed

text \<open>Mounting on a table whose first free slot is \<open>k\<close>.\<close>

lemma vfs_mount_normal:
  assumes "normal_path p" and "find (\<lambda>i. \<not> mt_used (mounts v ! i)) [0..<4] = Some k"
  shows "vfs_mount (Some p) (Some ops) ctx v =
    (0, v\<lparr>mounts := (mounts v)[k := \<lparr>mt_used = True, mt_point = p, mt_ops = Some ops, mt_ctx = ctx\<rparr>]\<rparr>)"
proof -
  note P = normal_pathD [OF assms(1)]
  have "copy_str p 128 = Some p" using P by (simp add: copy_str_text)
  then show ?thesis
    using assms(2) by (cases "mounts v ! k") (simp add: vfs_mount_def normalize_normal [OF assms(1)])
qed

lemma boot_paths: "find_mount (lit ''/'') v = Some (root_mount, [])" "find_mount (lit ''/initrd'') v = Some (initrd_mount ctx, [])"
  "find_mount (lit ''/initrd'' @ ch_slash # nm) v = Some (initrd_mount ctx, nm)"
  if "mounts v = [root_mount, initrd_mount ctx, no_mount, no_mount]"
  using that by (simp_all add: find_mount_def best_mount_def root_mount_def initrd_mount_def no_mount_def starts_with_def lit_def Let_def)

lemma kmain_files_state:
  assumes "snd (snd (fs_state v)) = m" and "a \<noteq> 0"
    and chain: "tag_chain m (a + info_total_size m a - 8) (a + 8) ts"
    and cmds: "\<forall>t\<in>set ts. tag_type m t = 3 \<longrightarrow> read_string m (t + 16) = Some (cmd t)"
  shows "\<exists>out v' g gi. kmain_files ctx MULTIBOOT2_BOOTLOADER_MAGIC a v = Ok (out, v') \<and>
    mounts v' = [root_mount, initrd_mount ctx, no_mount, no_mount] \<and> fds v' = replicate 32 no_fd \<and> cwd v' = lit ''/'' \<and>
    fs_state v' = (g, (gi, m)) \<and> ramfs_inv g \<and> kids g 0 = [1] \<and> node_name g 1 = lit ''initrd'' \<and> rn_is_dir (g ! 1) \<and>
    holds_modules m cmd (filter (\<lambda>t. tag_type m t = 3) ts) gi"
proof -
  obtain g1 where g1: "fs_create 0 (Some 0) (Some (lit ''initrd'')) True (ramfs_init (fst (fs_state v))) = Ok (Inr (Some 1), g1)"
    "ramfs_inv g1" "kids g1 0 = [1]" "node_name g1 1 = lit ''initrd''" "rn_is_dir (g1 ! 1)"
    using mkdir_initrd .
  have u4: "upt 0 4 = [0, 1, 2, 3]" by (simp add: upt_conv_Cons)
  define v0 where "v0 = vfs_init (v\<lparr>fs_state := (ramfs_init (fst (fs_state v)), snd (fs_state v))\<rparr>)"
  have v0: "mounts v0 = [no_mount, no_mount, no_mount, no_mount]" "fs_state v0 = (ramfs_init (fst (fs_state v)), snd (fs_state v))"
    "fds v0 = replicate 32 no_fd" "cwd v0 = lit ''/''"
    by (simp_all add: v0_def vfs_init_def numeral_eq_Suc lit_def)
  define v1 where "v1 = v0\<lparr>mounts := [root_mount, no_mount, no_mount, no_mount]\<rparr>"
  have m1: "vfs_mount (Some (lit ''/'')) (Some ram_ops) 0 v0 = (0, v1)"
    using vfs_mount_normal [OF normal_lits(1), of v0 0 ram_ops 0] v0(1) u4 by (simp add: no_mount_def v1_def root_mount_def)
  have root: "find_mount (lit ''/'') v1 = Some (root_mount, [])"
    by (simp add: v1_def find_mount_def best_mount_def root_mount_def no_mount_def starts_with_def lit_def Let_def)
  have "ramfs_inv (fst (fs_state v1))" by (simp add: v1_def v0(2) ramfs_init_inv)
  then have r: "resolve_path (Some (lit ''/'')) v1 = Ok (Some (root_mount, Some (Ram_Node 0), True))"
    by (rule boot_ram.resolve_root [where ops = ram_ops, OF _ root normal_lits(1)]) (simp_all add: root_mount_def lift_ops_sel)
  have parent: "resolve_parent (Some (lit ''/initrd'')) v1 = Ok (Some (root_mount, Some (Ram_Node 0), lit ''initrd''))"
    using r by (simp add: resolve_parent_def normalize_normal [OF initrd_paths(1)]) (simp add: lit_def copy_str_def s_len_def)
  define v2 where "v2 = v1\<lparr>fs_state := (g1, snd (fs_state v))\<rparr>"
  have mk: "vfs_mkdir (Some (lit ''/initrd'')) v1 = Ok (0, v2)"
    using parent g1(1) by (simp add: vfs_mkdir_def make_node_def root_mount_def lift_ops_sel lift_create_def cast_def as_ram_def
        v2_def v1_def v0(2))
  define v3 where "v3 = v2\<lparr>mounts := [root_mount, initrd_mount ctx, no_mount, no_mount], fs_state := (g1, (initrd_zero, m))\<rparr>"
  have m3: "vfs_mount (Some (lit ''/initrd'')) (Some module_ops) ctx (v2\<lparr>fs_state := (fst (fs_state v2), (initrd_zero, m))\<rparr>) = (0, v3)"
    using vfs_mount_normal [OF initrd_paths(1), of "v2\<lparr>fs_state := (fst (fs_state v2), (initrd_zero, m))\<rparr>" 1 module_ops ctx] u4
    by (simp add: v3_def v2_def v1_def no_mount_def initrd_mount_def root_mount_def)
  have "snd (snd (fs_state v2)) = m" using assms(1) by (simp add: v2_def)
  then obtain out gi where
    "initrd_mount_on module_ops snd (\<lambda>g t. (fst t, g)) ctx MULTIBOOT2_BOOTLOADER_MAGIC a v2 = Ok (out, v3\<lparr>fs_state := (fst (fs_state v3), (gi, m))\<rparr>)"
    "holds_modules m cmd (filter (\<lambda>t. tag_type m t = 3) ts) gi"
    using initrd_mount_on_scan [where put = "\<lambda>g t. (fst t, g)" and get = snd, OF m3 _ _ assms(2) chain cmds] by auto
  then have "kmain_files ctx MULTIBOOT2_BOOTLOADER_MAGIC a v = Ok (line ''Init: RAMFS + VFS...'' @ out, v3\<lparr>fs_state := (g1, (gi, m))\<rparr>)"
    "holds_modules m cmd (filter (\<lambda>t. tag_type m t = 3) ts) gi"
    by (simp_all add: kmain_files_def Let_def m1 mk flip: v0_def) (simp add: v3_def)
  then show ?thesis using g1 v0 by (intro exI conjI) (assumption | simp add: v3_def v2_def v1_def)+
qed

section \<open>The programs on the booted system\<close>

lemma ls_root:
  assumes "mounts v = [root_mount, initrd_mount ctx, no_mount, no_mount]" and "fs_state v = (g, gi)"
    and g: "ramfs_inv g" "kids g 0 = [1]" "node_name g 1 = lit ''initrd''" "rn_is_dir (g ! 1)"
  shows "app_ls_main [c, lit ''/''] v = Ok (0, line ''initrd/'')"
proof -
  have d: "is_directory g 0" using ramfs_invD(3) [OF g(1)] .
  have r: "resolve_path (Some (lit ''/'')) v = Ok (Some (root_mount, Some (Ram_Node 0), True))"
    by (rule boot_ram.resolve_root [where ops = ram_ops, OF _ boot_paths(1) [OF assms(1)] normal_lits(1)])
      (simp_all add: root_mount_def lift_ops_sel assms(2) g(1))
  define entry_at where "entry_at i = fs_readdir 0 (Some 0) i g" for i
  have e: "entry_at i = Ok (if i = 0 then Inr (lit ''initrd'', True, rn_size (g ! 1)) else Inl (-1))" for i
    using fs_readdir_spec [OF g(1) d, of 0 i] g(2-4) by (auto simp: entry_at_def unat_eq_zero)
  have "listdir_from entry_at print_dirent 0 [] = Some (Ok (line ''initrd/''))"
    by (simp add: listdir_from.simps [of entry_at print_dirent 0] listdir_from.simps [of entry_at print_dirent 1] e
        print_dirent_def line_def lit_def)
  then show ?thesis
    using r by (simp add: app_ls_main_def vfs_listdir_def root_mount_def lift_ops_sel cast_def as_ram_def assms(2) flip: entry_at_def)
qed

lemma normalize_initrd: "normalize_path (lit ''/'') (Some (lit ''initrd'')) = Some (lit ''/initrd'')"
  by (simp add: normalize_path_def absolute_text_def copy_str_def s_len_def lit_def Let_def norm_segs.simps skip_slashes_def next_seg_def)

lemma cd_initrd:
  assumes "mounts v = [root_mount, initrd_mount ctx, no_mount, no_mount]" and "cwd v = lit ''/''" and "initrd_inv (snd (fs_state v))"
  shows "app_cd_main [c, lit ''initrd''] v = Ok (0, [], v\<lparr>cwd := lit ''/initrd''\<rparr>)"
proof -
  have "resolve_path (Some (lit ''/initrd'')) v = Ok (Some (initrd_mount ctx, Some (Initrd_Node Root_Sentinel), True))"
    by (rule boot_modules.resolve_root [where ops = module_ops, OF assms(3) boot_paths(2) [OF assms(1)] initrd_paths(1)])
      (simp_all add: initrd_mount_def lift_ops_sel)
  moreover have "copy_str (lit ''/initrd'') 128 = Some (lit ''/initrd'')" by (simp add: lit_def copy_str_def s_len_def)
  ultimately show ?thesis using normalize_initrd by (simp add: app_cd_main_def vfs_chdir_def assms(2))
qed

lemma below_initrd:
  assumes "mounts v = [root_mount, initrd_mount ctx, no_mount, no_mount]" and "good_seg nm"
  shows "below v (initrd_mount ctx) (lit ''/initrd'' @ ch_slash # nm) nm"
proof -
  have "good_seg (lit ''initrd'')" by (simp add: good_seg_def lit_def)
  moreover have "lit ''/initrd'' @ ch_slash # nm = path_of [lit ''initrd'', nm]" by (simp add: path_of_def) (simp add: lit_def)
  moreover have "length (lit ''/initrd'' @ ch_slash # nm) < 128" using assms(2) by (simp add: good_seg_def lit_def)
  ultimately have "normal_path (lit ''/initrd'' @ ch_slash # nm)"
    unfolding normal_path_def using assms(2) by (intro conjI exI [of _ "[lit ''initrd'', nm]"]) simp_all
  then show ?thesis
    unfolding below_def using assms(2) boot_paths(2,3) [OF assms(1)] initrd_paths(1)
    by (intro conjI exI [of _ "lit ''/initrd''"]) (simp_all add: lit_def)
qed



end
