(* ===== verification/Interrupts.thy ===== *)
theory Interrupts
  imports Ports Commands Console_Text
begin

unbundle bit_operations_syntax

text \<open>
  Interrupts and fatal errors: the descriptor table (\<open>kernel/idt.c\<close>), the installation of the handlers
  (\<open>kernel/isr.c\<close>), and the texts printed before the processor halts (\<open>kernel/exceptions.c\<close>,
  \<open>kernel/panic.c\<close>). The addresses of the assembler stubs are parameters.
\<close>

section \<open>The interrupt descriptor table\<close>

record idt_entry =
  base_low :: u16
  gate_sel :: u16
  always0 :: u8
  gate_flags :: u8
  base_high :: u16

text \<open>The table, the pointer structure, and what \<open>lidt\<close> has loaded from it.\<close>

record idt_state =
  idt :: "idt_entry list"
  idtp_limit :: u16
  idtp_base :: u32
  idtr :: "(u16 \<times> u32) option"

definition zero_gate :: idt_entry where
  "zero_gate = \<lparr>base_low = 0, gate_sel = 0, always0 = 0, gate_flags = 0, base_high = 0\<rparr>"

definition idt_set_gate :: "u8 \<Rightarrow> u32 \<Rightarrow> u16 \<Rightarrow> u8 \<Rightarrow> idt_state \<Rightarrow> idt_state" where
  "idt_set_gate num base sel flags t =
     t\<lparr>idt := (idt t)[unat num := \<lparr>base_low = ucast (base AND 0xFFFF), gate_sel = sel, always0 = 0, gate_flags = flags,
        base_high = ucast (drop_bit 16 base AND 0xFFFF)\<rparr>]\<rparr>"

text \<open>\<open>idt_addr\<close> is the address of the table, of 256 entries of 8 bytes.\<close>

definition idt_init :: "u32 \<Rightarrow> idt_state \<Rightarrow> idt_state" where
  "idt_init idt_addr t =
     (let t = t\<lparr>idtp_limit := of_nat (256 * 8 - 1), idtp_base := idt_addr\<rparr>;
          t = t\<lparr>idt := replicate 256 zero_gate\<rparr>
      in t\<lparr>idtr := Some (idtp_limit t, idtp_base t)\<rparr>)"

section \<open>Installing the handlers\<close>

definition set_exc_gates :: "u32 list \<Rightarrow> idt_state \<Rightarrow> idt_state" where
  "set_exc_gates stubs t = fold (\<lambda>i. idt_set_gate (of_nat i) (stubs ! i) 0x10 0x8E) [0..<32] t"

definition isr_install ::
  "u32 list \<Rightarrow> u32 \<Rightarrow> u32 \<Rightarrow> 'd ports \<Rightarrow> idt_state \<times> pit \<times> 'd \<Rightarrow> idt_state \<times> pit \<times> 'd" where
  "isr_install stubs irq0_stub irq1_stub p =
     (\<lambda>(t, timer, d).
       let t = set_exc_gates stubs t;
           d = pic_remap p 0x20 0x28 d;
           d = outb p 0x21 0xFF d;
           d = outb p 0xA1 0xFF d;
           t = idt_set_gate 0x20 irq0_stub 0x10 0x8E t;
           t = idt_set_gate 0x21 irq1_stub 0x10 0x8E t
       in case inb p 0x21 d of
            (msk, d) \<Rightarrow>
              let msk = msk AND NOT (push_bit 0 1);
                  msk = msk AND NOT (push_bit 1 1);
                  d = outb p 0x21 msk d
              in case pit_init 100 timer of (timer, ws) \<Rightarrow> (t, timer, outs p ws d))"

section \<open>Fatal errors\<close>

text \<open>What is printed before the processor halts for good.\<close>

definition exc_print_dec :: "u32 \<Rightarrow> u8 list" where
  "exc_print_dec n = (if n = 0 then [48] else rev (digits_rev 10 n))"

definition isr_exception_handler :: "u32 \<Rightarrow> u32 \<Rightarrow> u8 list \<times> unit res" where
  "isr_exception_handler int_no err_code =
     (ch_nl # lit ''EXCEPTION int='' @ exc_print_dec int_no @ lit '' err='' @ exc_print_dec err_code @
      ch_nl # line ''System halted.'', Fail Hang)"

definition panic_print_dec :: "u32 \<Rightarrow> u8 list" where
  "panic_print_dec n = (if n = 0 then [48] else rev (digits_rev 12 n))"

definition panic :: "u8 list option \<Rightarrow> u8 list \<times> unit res" where
  "panic message =
     (ch_nl # lit ''[PANIC] '' @ (case message of None \<Rightarrow> lit ''(no message)'' | Some s \<Rightarrow> s) @ [ch_nl], Fail Hang)"

definition panic_assert_failed :: "u8 list option \<Rightarrow> u8 list option \<Rightarrow> int \<Rightarrow> u8 list \<times> unit res" where
  "panic_assert_failed expr src ln =
     (ch_nl # lit ''[ASSERT] '' @ (case expr of None \<Rightarrow> lit ''(unknown)'' | Some s \<Rightarrow> s) @ lit '' at '' @
      (case src of None \<Rightarrow> lit ''(unknown)'' | Some s \<Rightarrow> s) @ [58] @
      (if ln \<ge> 0 then panic_print_dec (of_int ln) else lit ''?'') @ [ch_nl], Fail Hang)"

section \<open>The interrupt controllers\<close>

text \<open>
  What the code relies on, the documented behaviour of the two controllers: a byte with bit 4 set on the
  command port starts the initialisation and clears the mask; the next three bytes on the data port are the
  number of the first vector (a multiple of 8), the wiring and the mode; after that, the data port is the
  mask. Other ports do not reach the controllers.
\<close>

record pic_chip =
  pc_step :: nat
  pc_base :: u8
  pc_mask :: u8

record pic_view =
  pv_master :: pic_chip
  pv_slave :: pic_chip

definition chip_command :: "u8 \<Rightarrow> pic_chip \<Rightarrow> pic_chip" where
  "chip_command x c = (if x AND 0x10 \<noteq> 0 then c\<lparr>pc_step := 1, pc_mask := 0\<rparr> else c)"

definition chip_data :: "u8 \<Rightarrow> pic_chip \<Rightarrow> pic_chip" where
  "chip_data x c =
     (if pc_step c = 0 then c\<lparr>pc_mask := x\<rparr>
      else if pc_step c = 1 then c\<lparr>pc_step := 2, pc_base := x AND 0xF8\<rparr>
      else if pc_step c = 2 then c\<lparr>pc_step := 3\<rparr>
      else c\<lparr>pc_step := 0\<rparr>)"

definition pic_pair :: "'d ports \<Rightarrow> ('d \<Rightarrow> pic_view) \<Rightarrow> bool" where
  "pic_pair p view \<longleftrightarrow>
     (\<forall>x d. view (outb p 0x20 x d) = (view d)\<lparr>pv_master := chip_command x (pv_master (view d))\<rparr>) \<and>
     (\<forall>x d. view (outb p 0x21 x d) = (view d)\<lparr>pv_master := chip_data x (pv_master (view d))\<rparr>) \<and>
     (\<forall>x d. view (outb p 0xA0 x d) = (view d)\<lparr>pv_slave := chip_command x (pv_slave (view d))\<rparr>) \<and>
     (\<forall>x d. view (outb p 0xA1 x d) = (view d)\<lparr>pv_slave := chip_data x (pv_slave (view d))\<rparr>) \<and>
     (\<forall>port x d. port \<notin> {0x20, 0x21, 0xA0, 0xA1} \<longrightarrow> view (outb p port x d) = view d) \<and>
     (\<forall>port d. view (snd (inb p port d)) = view d) \<and>
     (\<forall>d. pc_step (pv_master (view d)) = 0 \<longrightarrow> fst (inb p 0x21 d) = pc_mask (pv_master (view d)))"

text \<open>The lines 0 to 7 are those of the master, 8 to 15 those of the slave, which is wired to line 2.\<close>

definition line_open :: "pic_view \<Rightarrow> nat \<Rightarrow> bool" where
  "line_open v n \<longleftrightarrow>
     (if n < 8 then \<not> bit (pc_mask (pv_master v)) n
      else \<not> bit (pc_mask (pv_slave v)) (n - 8) \<and> \<not> bit (pc_mask (pv_master v)) 2)"

definition line_vector :: "pic_view \<Rightarrow> nat \<Rightarrow> u8" where
  "line_vector v n = (if n < 8 then pc_base (pv_master v) + of_nat n else pc_base (pv_slave v) + of_nat (n - 8))"

text \<open>A gate as the processor reads it: present, of 32 bits for interrupts, in the kernel's code segment.\<close>

definition gate_offset :: "idt_entry \<Rightarrow> u32" where
  "gate_offset e = ucast (base_low e) OR push_bit 16 (ucast (base_high e))"

definition gate_calls :: "idt_entry \<Rightarrow> u32 \<Rightarrow> bool" where
  "gate_calls e addr \<longleftrightarrow> gate_offset e = addr \<and> gate_flags e = 0x8E \<and> gate_sel e = 0x10 \<and> always0 e = 0"

lemma gate_address: "ucast (ucast (a AND 0xFFFF) :: u16) OR push_bit 16 (ucast (ucast (drop_bit 16 a AND 0xFFFF) :: u16)) = a"
  for a :: u32
proof (rule bit_word_eqI)
  have m: "(0xFFFF :: u32) = mask 16" by (simp add: mask_eq_exp_minus_1)
  fix n assume "n < LENGTH(32)"
  then show "bit (ucast (ucast (a AND 0xFFFF) :: u16) OR push_bit 16 (ucast (ucast (drop_bit 16 a AND 0xFFFF) :: u16)) :: u32) n = bit a n"
    unfolding m by (auto simp: bit_simps)
qed

section \<open>The table after the boot\<close>

lemma idt_set_gate_nth:
  assumes "length (idt t) = 256"
  shows "length (idt (idt_set_gate num base sel flags t)) = 256"
    and "k \<noteq> unat num \<Longrightarrow> idt (idt_set_gate num base sel flags t) ! k = idt t ! k"
    and "gate_calls (idt (idt_set_gate num base 0x10 0x8E t) ! unat num) base"
proof -
  have "unat num < 256" using unsigned_less [of num, where 'a = nat] by simp
  then show "gate_calls (idt (idt_set_gate num base 0x10 0x8E t) ! unat num) base"
    using assms by (simp add: idt_set_gate_def gate_calls_def gate_offset_def gate_address)
qed (use assms in \<open>simp_all add: idt_set_gate_def\<close>)

lemma exc_gates_upto:
  fixes stubs :: "u32 list"
  assumes "length (idt t) = 256" and "n \<le> 32"
    and "fold (\<lambda>i. idt_set_gate (of_nat i) (stubs ! i) 0x10 0x8E) [0..<n] t = t'"
  shows "length (idt t') = 256 \<and> (\<forall>k<n. gate_calls (idt t' ! k) (stubs ! k)) \<and> (\<forall>k\<ge>n. idt t' ! k = idt t ! k) \<and> idtr t' = idtr t"
  unfolding assms(3) [symmetric] using assms(2)
proof (induction n)
  case (Suc n)
  let ?t = "fold (\<lambda>i. idt_set_gate (of_nat i) (stubs ! i) 0x10 0x8E) [0..<n] t"
  have IH: "length (idt ?t) = 256" "\<forall>k<n. gate_calls (idt ?t ! k) (stubs ! k)" "\<forall>k\<ge>n. idt ?t ! k = idt t ! k" "idtr ?t = idtr t"
    using Suc by simp_all
  have u: "unat (of_nat n :: u8) = n" using Suc.prems by (simp add: unat_of_nat)
  note G = idt_set_gate_nth [OF IH(1), where num = "of_nat n", unfolded u]
  show ?case
    using IH G(1) G(2) G(3) [where base = "stubs ! n"] by (auto simp: less_Suc_eq) (simp add: idt_set_gate_def)
qed (use assms(1) in simp)

lemma idt_init_fields:
  "length (idt (idt_init a t)) = 256" "k < 256 \<Longrightarrow> idt (idt_init a t) ! k = zero_gate" "idtr (idt_init a t) = Some (2047, a)"
  by (simp_all add: idt_init_def Let_def)

lemma isr_install_gates:
  assumes "isr_install stubs irq0 irq1 p (idt_init a t, timer, d) = (t', timer', d')" and "k < 256"
  shows "if k < 32 then gate_calls (idt t' ! k) (stubs ! k) else if k = 32 then gate_calls (idt t' ! k) irq0
    else if k = 33 then gate_calls (idt t' ! k) irq1 else idt t' ! k = zero_gate"
    and "idtr t' = Some (2047, a)"
proof -
  define t0 where "t0 = set_exc_gates stubs (idt_init a t)"
  have E: "length (idt t0) = 256" "\<forall>k<32. gate_calls (idt t0 ! k) (stubs ! k)" "\<forall>k\<ge>32. idt t0 ! k = idt (idt_init a t) ! k"
    "idtr t0 = idtr (idt_init a t)"
    using exc_gates_upto [OF idt_init_fields(1) order_refl refl, where stubs = stubs] by (simp_all add: t0_def set_exc_gates_def)
  define t1 where "t1 = idt_set_gate 0x20 irq0 0x10 0x8E t0"
  note G1 = idt_set_gate_nth [OF E(1), where num = "0x20", simplified]
  have l1: "length (idt t1) = 256" using G1(1) by (simp add: t1_def)
  note G2 = idt_set_gate_nth [OF l1, where num = "0x21", simplified]
  have t': "t' = idt_set_gate 0x21 irq1 0x10 0x8E t1"
    using assms(1) by (simp add: isr_install_def t0_def t1_def Let_def split: prod.splits)
  have o: "idt t' ! k = idt t0 ! k" if "k \<noteq> 32" "k \<noteq> 33" for k
    using that G1(2) G2(2) by (simp add: t' t1_def)
  have "gate_calls (idt t' ! 33) irq1" using G2(3) by (simp add: t')
  moreover have "gate_calls (idt t' ! 32) irq0" using G1(3) G2(2) [where k = 32] by (simp add: t' t1_def)
  ultimately show "if k < 32 then gate_calls (idt t' ! k) (stubs ! k) else if k = 32 then gate_calls (idt t' ! k) irq0
    else if k = 33 then gate_calls (idt t' ! k) irq1 else idt t' ! k = zero_gate"
    using o [of k] E(2,3) idt_init_fields(2) [OF assms(2)] by auto
  show "idtr t' = Some (2047, a)" using E(4) idt_init_fields(3) by (simp add: t' t1_def idt_set_gate_def)
qed

section \<open>The controllers after the boot\<close>

lemma pic_pairD:
  assumes "pic_pair p view"
  shows "view (outb p 0x20 x d) = (view d)\<lparr>pv_master := chip_command x (pv_master (view d))\<rparr>"
    and "view (outb p 0x21 x d) = (view d)\<lparr>pv_master := chip_data x (pv_master (view d))\<rparr>"
    and "view (outb p 0xA0 x d) = (view d)\<lparr>pv_slave := chip_command x (pv_slave (view d))\<rparr>"
    and "view (outb p 0xA1 x d) = (view d)\<lparr>pv_slave := chip_data x (pv_slave (view d))\<rparr>"
    and "view (outb p 0x80 x d) = view d" and "view (outb p 0x43 x d) = view d" and "view (outb p 0x40 x d) = view d"
    and "view (snd (inb p port d)) = view d"
    and "pc_step (pv_master (view d)) = 0 \<Longrightarrow> fst (inb p 0x21 d) = pc_mask (pv_master (view d))"
  using assms by (simp_all add: pic_pair_def)

text \<open>Each controller as the four bytes leave it, and then with a mask.\<close>

lemma chip_programmed:
  "chip_data msk (chip_data 1 (chip_data w (chip_data b (chip_command 0x11 c)))) =
    c\<lparr>pc_step := 0, pc_base := b AND 0xF8, pc_mask := msk\<rparr>"
  by (cases c) (simp add: chip_command_def chip_data_def)

lemma pic_remap_view:
  assumes "pic_pair p view"
  shows "\<exists>m1 m2. view (pic_remap p 0x20 0x28 d) =
    \<lparr>pv_master = (pv_master (view d))\<lparr>pc_step := 0, pc_base := 0x20, pc_mask := m1\<rparr>,
     pv_slave = (pv_slave (view d))\<lparr>pc_step := 0, pc_base := 0x28, pc_mask := m2\<rparr>\<rparr>"
proof -
  note P = pic_pairD [OF assms]
  obtain a1 d1 where a1: "inb p 0x21 d = (a1, d1)" by fastforce
  obtain a2 d2 where a2: "inb p 0xA1 d1 = (a2, d2)" by fastforce
  have v: "view d1 = view d" "view d2 = view d" using P(8) [of "0x21" d] P(8) [of "0xA1" d1] a1 a2 by simp_all
  show ?thesis
    by (rule exI [of _ a1], rule exI [of _ a2]) (simp add: pic_remap_def a1 a2 io_wait_def Let_def P(1-5) v chip_programmed)
qed

lemma isr_install_lines:
  assumes "pic_pair p view" and "isr_install stubs irq0 irq1 p (t, timer, d) = (t', timer', d')"
  shows "pc_mask (pv_master (view d')) = 0xFC" and "pc_mask (pv_slave (view d')) = 0xFF"
    and "pc_base (pv_master (view d')) = 0x20" and "pc_base (pv_slave (view d')) = 0x28"
proof -
  note P = pic_pairD [OF assms(1)]
  obtain m1 m2 where r: "view (pic_remap p 0x20 0x28 d) =
    \<lparr>pv_master = (pv_master (view d))\<lparr>pc_step := 0, pc_base := 0x20, pc_mask := m1\<rparr>,
     pv_slave = (pv_slave (view d))\<lparr>pc_step := 0, pc_base := 0x28, pc_mask := m2\<rparr>\<rparr>"
    using pic_remap_view [OF assms(1)] by blast
  define d1 where "d1 = outb p 0xA1 0xFF (outb p 0x21 0xFF (pic_remap p 0x20 0x28 d))"
  have v1: "pc_step (pv_master (view d1)) = 0" "pc_mask (pv_master (view d1)) = 0xFF" "pc_mask (pv_slave (view d1)) = 0xFF"
    "pc_base (pv_master (view d1)) = 0x20" "pc_base (pv_slave (view d1)) = 0x28"
    by (simp_all add: d1_def P(2,4) r chip_data_def)
  obtain x d2 where x: "inb p 0x21 d1 = (x, d2)" by fastforce
  have xv: "x = 0xFF" "view d2 = view d1" using P(8) [of "0x21" d1] P(9) [OF v1(1)] v1(2) x by simp_all
  have "d' = outs p (snd (pit_init 100 timer)) (outb p 0x21 0xFC d2)"
    using assms(2) by (simp add: isr_install_def Let_def x xv(1) split: prod.splits flip: d1_def)
  then have "view d' = view (outb p 0x21 0xFC d2)" by (simp add: pit_init_def Let_def P(6,7))
  then show "pc_mask (pv_master (view d')) = 0xFC" "pc_mask (pv_slave (view d')) = 0xFF"
    "pc_base (pv_master (view d')) = 0x20" "pc_base (pv_slave (view d')) = 0x28"
    using v1 by (simp_all add: P(2) xv(2) chip_data_def)
qed

lemma line_open_masks:
  assumes "n < 16" and "pc_mask (pv_master v) = 0xFC" and "pc_mask (pv_slave v) = 0xFF"
  shows "line_open v n \<longleftrightarrow> n = 0 \<or> n = 1"
proof -
  have "n \<in> {0, 1, 2, 3, 4, 5, 6, 7, 8, 9, 10, 11, 12, 13, 14, 15}" using assms(1) by simp presburger
  then show ?thesis using assms(2,3) by (auto simp: line_open_def)
qed

section \<open>Properties\<close>

text \<open>
  C38: After the table and the handlers are installed, every interrupt that can reach the processor has a
  handler: exactly the lines 0 and 1 are open, whatever the masks were before, their vectors 32 and 33 have
  present gates with the addresses of the timer's and the keyboard's stub, the vectors 0 to 31 of the
  exceptions have their stubs, no open line has the vector of an exception, and all other gates are absent.
\<close>

theorem interrupts_have_handlers:
  assumes "pic_pair p view"
  shows "\<exists>t' timer' d'. isr_install stubs irq0 irq1 p (idt_init a t, timer, d) = (t', timer', d') \<and>
    idtr t' = Some (2047, a) \<and> g_hz timer' = 100 \<and>
    (\<forall>n<16. line_open (view d') n \<longleftrightarrow> n = 0 \<or> n = 1) \<and>
    line_vector (view d') 0 = 32 \<and> gate_calls (idt t' ! 32) irq0 \<and>
    line_vector (view d') 1 = 33 \<and> gate_calls (idt t' ! 33) irq1 \<and>
    (\<forall>k<32. gate_calls (idt t' ! k) (stubs ! k)) \<and> (\<forall>k. 34 \<le> k \<and> k < 256 \<longrightarrow> idt t' ! k = zero_gate)"
proof -
  obtain t' timer' d' where r: "isr_install stubs irq0 irq1 p (idt_init a t, timer, d) = (t', timer', d')"
    using prod_cases3 by blast
  note L = isr_install_lines [OF assms r]
  note G = isr_install_gates(1) [OF r]
  have lines: "line_open (view d') n \<longleftrightarrow> n = 0 \<or> n = 1" if "n < 16" for n
    by (rule line_open_masks [OF that L(1,2)])
  have "g_hz timer' = 100" using r by (auto simp: isr_install_def pit_init_def Let_def split: prod.splits)
  moreover have "gate_calls (idt t' ! 32) irq0" "gate_calls (idt t' ! 33) irq1" using G [of 32] G [of 33] by simp_all
  moreover have "gate_calls (idt t' ! k) (stubs ! k)" if "k < 32" for k using G [of k] that by simp
  moreover have "idt t' ! k = zero_gate" if "34 \<le> k" "k < 256" for k using G [of k] that by simp
  ultimately show ?thesis using r lines L isr_install_gates(2) [OF r, of 0] by (auto simp: line_vector_def)
qed

text \<open>The controllers alone on the bus.\<close>

definition pic_ports :: "pic_view ports" where
  "pic_ports =
     \<lparr>inb = (\<lambda>port v. (if port = 0x21 then pc_mask (pv_master v) else 0, v)),
      outb = (\<lambda>port x v.
        if port = 0x20 then v\<lparr>pv_master := chip_command x (pv_master v)\<rparr>
        else if port = 0x21 then v\<lparr>pv_master := chip_data x (pv_master v)\<rparr>
        else if port = 0xA0 then v\<lparr>pv_slave := chip_command x (pv_slave v)\<rparr>
        else if port = 0xA1 then v\<lparr>pv_slave := chip_data x (pv_slave v)\<rparr> else v),
      inw = (\<lambda>port v. (0, v)), outw = (\<lambda>port x v. v)\<rparr>"

definition bios_pics :: pic_view where
  "bios_pics = \<lparr>pv_master = \<lparr>pc_step = 0, pc_base = 8, pc_mask = 0\<rparr>, pv_slave = \<lparr>pc_step = 0, pc_base = 0x70, pc_mask = 0\<rparr>\<rparr>"

theorem interrupts_have_handlers_witness:
  "\<exists>t' timer' d'. isr_install (replicate 32 0x101000) 0x102000 0x103000 pic_ports
      (idt_init 0x200000 \<lparr>idt = [], idtp_limit = 0, idtp_base = 0, idtr = None\<rparr>, \<lparr>g_ticks = 0, g_hz = 100\<rparr>, bios_pics) = (t', timer', d') \<and>
    line_open d' 1 \<and> \<not> line_open d' 14 \<and> gate_calls (idt t' ! 33) 0x103000"
proof -
  have "pic_pair pic_ports (\<lambda>v. v)" by (auto simp: pic_pair_def pic_ports_def)
  from interrupts_have_handlers [OF this, of "replicate 32 0x101000" "0x102000" "0x103000" "0x200000"
      "\<lparr>idt = [], idtp_limit = 0, idtp_base = 0, idtr = None\<rparr>" "\<lparr>g_ticks = 0, g_hz = 100\<rparr>" bios_pics]
  show ?thesis by auto
qed

end
