(* ===== verification/App_System.thy ===== *)
theory App_System
  imports Console Ata_Pio Sched Kernel Commands
begin

unbundle bit_operations_syntax

text \<open>
  The programs that show and drive other parts of the kernel: \<open>kernel/apps/app_echo.c\<close>, \<open>app_about.c\<close>,
  \<open>app_clear.c\<close>, \<open>app_disk.c\<close>, \<open>app_meminfo.c\<close>, \<open>app_heap_test.c\<close> and \<open>app_sched.c\<close>, with the table of threads
  printed by \<open>sched_dump\<close> (\<open>kernel/sched/thread.c\<close>). A program gets the texts of its arguments and gives its
  result, the text it prints and the new state.
\<close>

section \<open>echo, about and clear\<close>

definition app_echo_main :: "u8 list list \<Rightarrow> int \<times> u8 list" where
  "app_echo_main argv =
     (0, concat (map (\<lambda>i. argv ! i @ (if i + 1 < length argv then [ch_space] else [])) [1..<length argv]) @ [ch_nl])"

definition app_about_main :: "int \<times> u8 list" where
  "app_about_main =
     (0, line ''RoninOS kernel apps shell'' @ line ''Freestanding 32-bit kernel mode (no userspace).'' @
         line ''Add apps via kernel/apps/app_*.c and register in apps.c'')"

definition app_clear_main :: "'d console \<Rightarrow> (int \<times> 'd console) res" where
  "app_clear_main k = rbind (console_clear 0x87 k) (\<lambda>k. Ok (0, k))"

section \<open>disk\<close>

definition disk_size_gib :: "u32 \<Rightarrow> u8 list" where
  "disk_size_gib sectors =
     (let whole = sectors div 2097152; rem = sectors mod 2097152; frac = (rem * 100) div 2097152
      in print_u32 whole @ [ch_dot, 48 + ucast (frac div 10), 48 + ucast (frac mod 10)] @ lit '' GiB'')"

text \<open>\<open>while (*s)\<close>, on the text; the value wraps around.\<close>

fun parse_digits :: "u8 list \<Rightarrow> u32 \<Rightarrow> u32 option" where
  "parse_digits [] v = Some v"
| "parse_digits (c # s) v = (if c < 48 \<or> c > 57 then None else parse_digits s (v * 10 + (ucast c - 48)))"

definition disk_parse_u32 :: "u8 list \<Rightarrow> u32 option" where
  "disk_parse_u32 s = (if s = [] then None else parse_digits s 0)"

definition disk_usage :: "u8 list" where
  "disk_usage = line ''disk'' @ line ''disk info <name>'' @ line ''disk read <name> <lba> <count>''"

definition print_dev_line :: "('c, 'd) blockdev \<Rightarrow> u8 list" where
  "print_dev_line dev =
     c_text (bd_name dev) @ lit ''  '' @ block_type_name (bd_type dev) @ lit ''  '' @ print_u32 (bd_sector_size dev) @
     lit ''B/sector  '' @ print_u32 (bd_sector_count dev) @ lit '' sectors  '' @ disk_size_gib (bd_sector_count dev) @ [ch_nl]"

definition print_hex_byte :: "u8 \<Rightarrow> u8 list" where
  "print_hex_byte b =
     [lit ''0123456789ABCDEF'' ! unat (drop_bit 4 b AND 0x0F), lit ''0123456789ABCDEF'' ! unat (b AND 0x0F)]"

definition disk_cmd_list :: "('c, 'd) registry \<Rightarrow> int \<times> u8 list" where
  "disk_cmd_list r =
     (let cnt = block_count r
      in if cnt = 0 then (0, line ''no block devices'')
         else (0, concat (map (\<lambda>i. case block_get (of_nat i) r of None \<Rightarrow> [] | Some k \<Rightarrow> print_dev_line (blockdevs r ! k))
                            [0..<unat cnt])))"

definition disk_cmd_info :: "u8 list \<Rightarrow> ('c, 'd) registry \<Rightarrow> int \<times> u8 list" where
  "disk_cmd_info name r =
     (case block_find (Some name) r of
        None \<Rightarrow> (1, line ''disk not found'')
      | Some k \<Rightarrow> (0, print_dev_line (blockdevs r ! k)))"

text \<open>Lines of 16 bytes, each with its offset.\<close>

definition hex_dump :: "u8 list \<Rightarrow> nat \<Rightarrow> u8 list" where
  "hex_dump buf n =
     concat (map (\<lambda>i. (if i mod 16 = 0 then print_u32 (of_nat i) @ lit '': '' else []) @ print_hex_byte (buf ! i) @
                      [ch_space] @ (if i mod 16 = 15 then [ch_nl] else [])) [0..<n])"

text \<open>\<open>buf\<close> is the array on the stack with what it happens to hold.\<close>

definition disk_cmd_read ::
  "u8 list \<Rightarrow> u8 list \<Rightarrow> u8 list \<Rightarrow> u8 list \<Rightarrow> ('c, 'd) registry \<Rightarrow> 'd \<Rightarrow> (int \<times> u8 list \<times> 'd) res" where
  "disk_cmd_read buf name lba_s count_s r d =
     (case block_find (Some name) r of
        None \<Rightarrow> Ok (1, line ''disk not found'', d)
      | Some k \<Rightarrow>
          let dev = blockdevs r ! k
          in case (disk_parse_u32 lba_s, disk_parse_u32 count_s) of
               (Some lba, Some count) \<Rightarrow>
                 if count = 0 \<or> count > 1 then Ok (1, line ''count must be 1 for now'', d)
                 else if bd_sector_size dev > 512 then Ok (1, line ''sector size unsupported'', d)
                 else
                   (case bd_read dev of
                      None \<Rightarrow> Fail Wild
                    | Some rd \<Rightarrow>
                        rbind (rd (bd_info.truncate dev) lba count (Some buf) d) (\<lambda>(rc, buf', d).
                          if rc \<noteq> 0 then Ok (1, line ''read failed'', d)
                          else
                            (let max_print = (if bd_sector_size dev < 256 then bd_sector_size dev else 256)
                             in case buf' of
                                  None \<Rightarrow> Fail Wild
                                | Some b \<Rightarrow> if unat max_print > length b then Fail Wild
                                            else Ok (0, hex_dump b (unat max_print), d))))
             | _ \<Rightarrow> Ok (1, line ''invalid lba/count'', d))"

definition app_disk_main ::
  "u8 list \<Rightarrow> u8 list list \<Rightarrow> ('c, 'd) registry \<Rightarrow> 'd \<Rightarrow> (int \<times> u8 list \<times> 'd) res" where
  "app_disk_main buf argv r d =
     (let argc = length argv; keep = (\<lambda>(rc, out). Ok (rc, out, d))
      in if argc = 1 then keep (disk_cmd_list r)
         else if argc = 0 then Fail Wild
         else if streq (argv ! 1) (lit ''info'') then
           (if argc < 3 then keep (1, disk_usage) else keep (disk_cmd_info (argv ! 2) r))
         else if streq (argv ! 1) (lit ''read'') then
           (if argc < 5 then keep (1, disk_usage) else disk_cmd_read buf (argv ! 2) (argv ! 3) (argv ! 4) r d)
         else keep (1, disk_usage))"

section \<open>meminfo\<close>

definition stat_line :: "string \<Rightarrow> u32 \<Rightarrow> u8 list" where
  "stat_line name n = lit name @ print_u32 n @ [ch_nl]"

definition app_meminfo_main :: "heap \<Rightarrow> (int \<times> u8 list \<times> heap) res" where
  "app_meminfo_main h =
     rbind (heap_get_stats h) (\<lambda>(stats, h).
     rbind (pmm_get_stats (heap_pmm h)) (\<lambda>(pmm, p).
       Ok (0,
         stat_line ''heap.start: '' (hs_heap_start stats) @ stat_line ''heap.end: '' (hs_heap_end stats) @
         stat_line ''heap.total: '' (hs_total_bytes stats) @ stat_line ''heap.used: '' (hs_used_bytes stats) @
         stat_line ''heap.free: '' (hs_free_bytes stats) @ stat_line ''blocks.used: '' (hs_used_blocks stats) @
         stat_line ''blocks.free: '' (hs_free_blocks stats) @ stat_line ''largest.free: '' (hs_largest_free_block stats) @
         stat_line ''pmm.frames.total: '' (st_total_frames pmm) @ stat_line ''pmm.frames.free: '' (st_free_frames pmm),
         h\<lparr>heap_pmm := p\<rparr>)))"

section \<open>heap_test\<close>

text \<open>The text printed so far and \<open>g_failures\<close>.\<close>

definition expect :: "bool \<Rightarrow> string \<Rightarrow> u8 list \<times> nat \<Rightarrow> u8 list \<times> nat" where
  "expect cond msg st =
     (if cond then (fst st @ lit ''[ok] '' @ line msg, snd st) else (fst st @ lit ''[fail] '' @ line msg, snd st + 1))"

definition app_heap_test_main :: "heap \<Rightarrow> (int \<times> u8 list \<times> heap) res" where
  "app_heap_test_main h =
     rbind (heap_get_stats h) (\<lambda>(before, h).
     rbind (kmalloc 64 h) (\<lambda>(p1, h).
       let st = expect (p1 \<noteq> 0) ''kmalloc(64)'' ([], 0)
       in rbind (kmalloc 256 h) (\<lambda>(p2, h).
         let st = expect (p2 \<noteq> 0) ''kmalloc(256)'' st;
             h = (if p1 \<noteq> 0 then h\<lparr>heap_mem := memset p1 0xAA 64 (heap_mem h)\<rparr> else h);
             h = (if p2 \<noteq> 0 then h\<lparr>heap_mem := memset p2 0xBB 256 (heap_mem h)\<rparr> else h)
         in rbind (krealloc p2 512 h) (\<lambda>(p3, h).
           let st = expect (p3 \<noteq> 0) ''krealloc(256->512)'' st;
               st = (if p3 \<noteq> 0
                     then expect (heap_mem h (p3 + 10) = 0xBB) ''krealloc preserves data''
                            (expect (heap_mem h p3 = 0xBB) ''krealloc preserves first byte'' st)
                     else st)
           in rbind (kfree p1 h) (\<lambda>h. rbind (kfree p3 h) (\<lambda>h. rbind (heap_get_stats h) (\<lambda>(after, h).
             let st = expect (hs_free_bytes after \<ge> hs_free_bytes before) ''free bytes recovered'' st
             in if snd st = 0 then Ok (0, fst st @ line ''heap_test: PASS'', h)
                else Fail (Panic ''g_failures == 0''))))))))"

section \<open>spawn, yield, ps and preempt\<close>

text \<open>\<open>seen\<close> is set by the first digit.\<close>

fun sched_digits :: "u8 list \<Rightarrow> bool \<Rightarrow> u32 \<Rightarrow> u32 option" where
  "sched_digits [] seen v = (if \<not> seen then None else Some v)"
| "sched_digits (c # s) seen v = (if c < 48 \<or> c > 57 then None else sched_digits s True (v * 10 + (ucast c - 48)))"

definition sched_parse_u32 :: "u8 list \<Rightarrow> u32 option" where
  "sched_parse_u32 s = sched_digits s False 0"

text \<open>One round of a worker, up to its \<open>thread_yield\<close>: its own count, the count of all workers, and the text.\<close>

definition worker_round :: "u32 \<Rightarrow> u32 \<times> u32 \<Rightarrow> (u32 \<times> u32) \<times> u8 list" where
  "worker_round arg = (\<lambda>(local_tick, g_worker_ticks).
     let local_tick = local_tick + 1
     in ((local_tick, g_worker_ticks + 1),
         if local_tick mod 50 = 0
         then lit ''[T'' @ print_u32 arg @ lit ''] tick '' @ print_u32 (local_tick div 50) @ [ch_nl] else []))"

text \<open>The threads \<open>i + 1\<close> to \<open>i + n\<close>; \<open>bootstrap\<close> and \<open>worker\<close> are addresses.\<close>

fun spawn_loop :: "u32 \<Rightarrow> u32 \<Rightarrow> nat \<Rightarrow> u32 \<Rightarrow> sched \<Rightarrow> (u32 option \<times> sched) res" where
  "spawn_loop bootstrap worker 0 i s = Ok (None, s)"
| "spawn_loop bootstrap worker (Suc n) i s =
     rbind (thread_create bootstrap (Some (lit ''worker'')) worker (i + 1) s) (\<lambda>(tid, s).
       if tid < 0 then Ok (Some (i + 1), s) else spawn_loop bootstrap worker n (i + 1) s)"

definition app_spawn_main :: "u32 \<Rightarrow> u32 \<Rightarrow> u8 list list \<Rightarrow> sched \<Rightarrow> (int \<times> u8 list \<times> sched) res" where
  "app_spawn_main bootstrap worker argv s =
     (case (if length argv < 2 then None else sched_parse_u32 (argv ! 1)) of
        None \<Rightarrow> Ok (1, line ''usage: spawn <n>'', s)
      | Some count \<Rightarrow>
          rbind (spawn_loop bootstrap worker (unat count) 0 s) (\<lambda>(r, s).
            case r of
              Some k \<Rightarrow> Ok (1, lit ''spawn failed at thread '' @ print_u32 k @ [ch_nl], s)
            | None \<Rightarrow> Ok (0, lit ''spawned '' @ print_u32 count @ line '' thread(s)'', s)))"

definition app_yield_main :: "sched \<Rightarrow> int \<times> sched" where
  "app_yield_main s = (0, thread_yield s)"

definition state_name :: "thread_state \<Rightarrow> u8 list" where
  "state_name st =
     (if st = THREAD_RUNNING then lit ''RUNNING'' else if st = THREAD_RUNNABLE then lit ''RUNNABLE'' else lit ''ZOMBIE'')"

definition print_hex :: "u32 \<Rightarrow> u8 list" where
  "print_hex n =
     lit ''0x'' @ map (\<lambda>shift. let d = drop_bit shift n AND 0xF in if d < 10 then 48 + ucast d else 65 + (ucast d - 10))
                    [28, 24, 20, 16, 12, 8, 4, 0]"

text \<open>A name is never null: \<open>thread_create\<close> stores one.\<close>

definition dump_line :: "sched \<Rightarrow> nat \<Rightarrow> u8 list" where
  "dump_line s i =
     (let t = threads s ! i
      in print_u32 (of_int (th_tid t)) @ [ch_space] @ th_name t @ [ch_space] @ state_name (th_state t) @ [ch_space] @
         print_hex (th_esp t) @ [ch_space] @ print_hex (th_stack_base t) @ [45] @ print_hex (th_stack_base t + th_stack_size t) @
         (if int i = current_tid s then lit '' <current>'' else []) @ [ch_nl])"

definition sched_dump :: "sched \<Rightarrow> u8 list" where
  "sched_dump s = line ''tid name state esp stack'' @ concat (map (dump_line s) [0..<nat (thread_count s)])"

definition app_ps_main :: "sched \<Rightarrow> int \<times> u8 list" where
  "app_ps_main s = (0, sched_dump s)"

definition app_preempt_main :: "u8 list list \<Rightarrow> sched \<Rightarrow> int \<times> u8 list \<times> sched" where
  "app_preempt_main argv s =
     (if length argv < 2 then (1, line ''usage: preempt on|off'', s)
      else if c_text (argv ! 1) = lit ''on'' then (0, lit ''preempt '' @ line ''on'', snd (sched_set_preempt 1 s))
      else if c_text (argv ! 1) = lit ''off'' then (0, lit ''preempt '' @ line ''off'', snd (sched_set_preempt 0 s))
      else (1, line ''usage: preempt on|off'', s))"

end
