(* ===== verification/App_System_Spec.thy ===== *)
theory App_System_Spec
  imports App_System
begin

unbundle bit_operations_syntax

text \<open>Properties of the programs: numbers, the heap's self test, and the creation of threads.\<close>

section \<open>Numbers\<close>

definition is_digits :: "u8 list \<Rightarrow> bool" where
  "is_digits s \<longleftrightarrow> list_all (\<lambda>c. 48 \<le> unat c \<and> unat c \<le> 57) s"

lemma parse_digits_value:
  "is_digits s \<Longrightarrow> parse_digits s v = Some (of_nat (foldl (\<lambda>v c. 10 * v + (unat c - 48)) (unat v) s))"
proof (induction s arbitrary: v)
  case (Cons c s)
  have c: "48 \<le> unat c" "unat c \<le> 57" and s: "is_digits s" using Cons.prems by (simp_all add: is_digits_def)
  have "\<not> (c < 48 \<or> c > 57)" using c by (auto simp: word_less_nat_alt)
  moreover have "(ucast c - 48 :: u32) = of_nat (unat c - 48)" using c(1) by (simp add: of_nat_diff)
  then have v: "v * 10 + (ucast c - 48) = of_nat (10 * unat v + (unat c - 48))" by simp
  have f: "foldl (\<lambda>v c. 10 * v + (unat c - 48)) m s mod 2 ^ 32 = foldl (\<lambda>v c. 10 * v + (unat c - 48)) (m mod 2 ^ 32) s mod 2 ^ 32" for m s
  proof (induction s arbitrary: m)
    case (Cons d s)
    have "(10 * m + (unat d - 48)) mod 2 ^ 32 = (10 * (m mod 2 ^ 32) + (unat d - 48)) mod 2 ^ 32"
      by (metis mod_add_left_eq mod_mult_right_eq)
    then show ?case using Cons.IH [of "10 * m + (unat d - 48)"] Cons.IH [of "10 * (m mod 2 ^ 32) + (unat d - 48)"]
      by simp
  qed simp
  moreover have "(of_nat (foldl (\<lambda>v c. 10 * v + (unat c - 48)) (x mod 2 ^ 32) s) :: u32) =
      of_nat (foldl (\<lambda>v c. 10 * v + (unat c - 48)) x s)" for x
    unfolding word_of_nat_eq_iff take_bit_eq_mod using f [of x s] by simp
  moreover have "unat (v * 10 + (ucast c - 48)) = (10 * unat v + (unat c - 48)) mod 2 ^ 32"
    unfolding v unat_of_nat by simp
  ultimately show ?case using Cons.IH [OF s, of "v * 10 + (ucast c - 48)"] by (simp only: parse_digits.simps if_False foldl_Cons)
qed simp

lemma digits_rev_digits: "is_digits (digits_rev k n)"
proof (induction k n rule: digits_rev.induct)
  case (2 k n)
  have "unat (48 + ucast (n mod 10) :: u8) = 48 + unat n mod 10" by (rule digit_value)
  then show ?case using 2 by (auto simp: is_digits_def)
qed (simp add: is_digits_def)

lemma print_u32_digits: "is_digits (print_u32 n)" "print_u32 n \<noteq> []"
proof -
  have r: "is_digits (rev s) = is_digits s" for s by (simp add: is_digits_def)
  show "is_digits (print_u32 n)" using digits_rev_digits by (simp add: print_u32_def r) (simp add: is_digits_def)
  show "print_u32 n \<noteq> []" by (simp add: print_u32_def numeral_eq_Suc)
qed

lemma sched_digits_parse: "s \<noteq> [] \<or> seen \<Longrightarrow> sched_digits s seen v = parse_digits s v"
  by (induction s arbitrary: seen v) auto

lemma sched_parse_disk: "sched_parse_u32 s = disk_parse_u32 s"
  using sched_digits_parse [of s False 0] by (cases s) (simp_all add: sched_parse_u32_def disk_parse_u32_def)

text \<open>
  The two copies of \<open>parse_u32\<close> agree on every argument, and both read back every number that \<open>print_u32\<close>
  prints; a decimal numeral of any length is read modulo \<open>2\<^sup>3\<^sup>2\<close>, without an error.
\<close>

theorem numbers_roundtrip:
  "sched_parse_u32 s = disk_parse_u32 s \<and> disk_parse_u32 (print_u32 n) = Some n \<and>
    disk_parse_u32 (lit ''4294967296'') = Some 0"
proof -
  have "parse_digits (print_u32 n) 0 = Some n"
    using parse_digits_value [OF print_u32_digits(1), of n 0] print_u32_value [of n] by (simp add: dec_value_def)
  then show ?thesis using sched_parse_disk print_u32_digits(2) by (simp add: disk_parse_u32_def) (simp add: lit_def)
qed

section \<open>The self test of the heap\<close>

lemma kmalloc_cells_mem:
  assumes "heap_rep h (xs @ (n, True) # ys)" and "\<forall>c\<in>set xs. \<not> fits (wanted_size bytes) c"
    and "wanted_size bytes \<le> n" and "serviceable bytes"
  shows "\<exists>p h'. kmalloc bytes h = Ok (p, h') \<and> unat p = heap_base + span xs + 16 \<and>
    heap_rep h' (xs @ take_cell (wanted_size bytes) n @ ys) \<and> heap_mem h' = heap_mem h"
proof -
  have "heap_inv h" using assms(1) by (auto simp: heap_inv_def)
  moreover have "bytes \<noteq> 0" "unat bytes \<le> 0xFFFFEFF0" using assms(4) by (auto simp: serviceable_def word_le_nat_alt)
  ultimately obtain q g where "kmalloc bytes h = Ok (q, g)" "heap_mem g = heap_mem h" using kmalloc_live by blast
  then show ?thesis using kmalloc_cells [OF assms] by auto
qed

text \<open>The header of a block of the chain.\<close>

lemma cell_header:
  assumes "heap_rep h (xs @ (n, False) # ys)" and "unat p = heap_base + span xs + 16"
  shows "\<exists>B. get_block (p - block_overhead) h = Ok B \<and> hb_size B = of_nat n"
proof -
  have "(unat p, n) \<in> heap_live h" using assms heap_live_rep by (auto simp: add.assoc)
  moreover have "heap_inv h" using assms(1) by (auto simp: heap_inv_def)
  ultimately show ?thesis using live_header(1) by blast
qed

lemma heap_test_run:
  assumes rep: "heap_rep h [(16368, True)]"
  shows "\<exists>h'. app_heap_test_main h = Ok (0,
      lit ''[ok] '' @ line ''kmalloc(64)'' @ lit ''[ok] '' @ line ''kmalloc(256)'' @ lit ''[ok] '' @ line ''krealloc(256->512)'' @
      lit ''[ok] '' @ line ''krealloc preserves first byte'' @ lit ''[ok] '' @ line ''krealloc preserves data'' @
      lit ''[ok] '' @ line ''free bytes recovered'' @ line ''heap_test: PASS'', h') \<and> heap_rep h' [(16368, True)]"
proof -
  have w: "wanted_size 64 = 64" "wanted_size 256 = 256" "wanted_size 512 = 512" by (simp_all add: wanted_size_def)
  have s: "serviceable 64" "serviceable 256" "serviceable 512" by (simp_all add: serviceable_def)
  have t: "take_cell 64 16368 = [(64, False), (16288, True)]" "take_cell 256 16288 = [(256, False), (16016, True)]"
    "take_cell 512 16016 = [(512, False), (15488, True)]"
    by (simp_all add: take_cell_def split_cell_def)
  obtain p1 h1 where p1: "kmalloc 64 h = Ok (p1, h1)" "unat p1 = heap_base + 16" "heap_rep h1 [(64, False), (16288, True)]"
    using kmalloc_cells_mem [of h "[]" 16368 "[]" 64] rep w s t by auto
  obtain p2 h2 where p2: "kmalloc 256 h1 = Ok (p2, h2)" "unat p2 = heap_base + 96"
    "heap_rep h2 [(64, False), (256, False), (16016, True)]"
    using kmalloc_cells_mem [of h1 "[(64, False)]" 16288 "[]" 256] p1(3) w s t by (auto simp: fits_def)
  define m2 where "m2 = memset p2 0xBB 256 (memset p1 0xAA 64 (heap_mem h2))"
  define h2' where "h2' = h2\<lparr>heap_mem := m2\<rparr>"
  have r2: "heap_rep h2' [(64, False), (256, False), (16016, True)]" using p2(3) by (simp add: h2'_def)
  obtain p3 h3 where p3: "kmalloc 512 h2' = Ok (p3, h3)" "unat p3 = heap_base + 368"
    "heap_rep h3 [(64, False), (256, False), (512, False), (15488, True)]" "heap_mem h3 = m2"
    using kmalloc_cells_mem [of h2' "[(64, False), (256, False)]" 16016 "[]" 512] r2 w s t by (auto simp: fits_def h2'_def)
  obtain B where B: "get_block (p2 - block_overhead) h2' = Ok B" "hb_size B = 256"
    using cell_header [of h2' "[(64, False)]" 256 "[(16016, True)]" p2] r2 p2(2) by auto
  obtain B' where B': "get_block (p2 - block_overhead) h3 = Ok B'" "hb_size B' = 256"
    using cell_header [of h3 "[(64, False)]" 256 "[(512, False), (15488, True)]" p2] p3(3) p2(2) by auto
  define m3 where "m3 = memcpy p3 p2 256 m2"
  define h3' where "h3' = h3\<lparr>heap_mem := m3\<rparr>"
  have base: "heap_base = 402653184" by simp
  have nz: "p1 \<noteq> 0" "p2 \<noteq> 0" "p3 \<noteq> 0" using p1(2) p2(2) p3(2) base by (metis unat_0 add_is_0 zero_neq_numeral)+
  obtain h4 where h4: "kfree p2 h3' = Ok h4" "heap_rep h4 [(64, False), (256, True), (512, False), (15488, True)]" "heap_mem h4 = m3"
    using kfree_spec [of h3' "[(64, False)]" 256 "[(512, False), (15488, True)]" p2] p3(3) p2(2)
    by (auto simp: h3'_def free_cells_def)
  have realloc: "krealloc p2 512 h2' = Ok (p3, h4)"
    using nz B B' p3(1,4) h4(1) by (simp add: krealloc_def m3_def h3'_def Let_def)
  obtain h5 where h5: "kfree p1 h4 = Ok h5" "heap_rep h5 [(336, True), (512, False), (15488, True)]"
    using kfree_spec [of h4 "[]" 64 "[(256, True), (512, False), (15488, True)]" p1] h4(2) p1(2)
    by (auto simp: free_cells_def)
  obtain h6 where h6: "kfree p3 h5 = Ok h6" "heap_rep h6 [(16368, True)]"
    using kfree_spec [of h5 "[(336, True)]" 512 "[(15488, True)]" p3] h5(2) p3(2)
    by (auto simp: free_cells_def)
  have bb: "(word_of_int 0xBB :: u8) = 0xBB" by simp
  have m3: "m3 (p3 + of_nat i) = 0xBB" if "i < 256" for i
  proof -
    have "m3 = copied p3 p2 256 m2"
      unfolding m3_def using p2(2) p3(2) base by (intro memcpy_copied) simp_all
    then have "m3 (p3 + of_nat i) = m2 (p2 + of_nat i)" using that by (simp add: copied_inside)
    moreover have "unat (p2 + of_nat i) = unat p2 + i"
      using that p2(2) base by (intro unat_offset [of p2 256]) simp_all
    moreover have "unat p2 + 256 \<le> 2 ^ 32" using p2(2) base by simp
    ultimately show ?thesis using that bb by (simp add: m2_def memset_bytes)
  qed
  have bytes: "heap_mem h4 p3 = 0xBB" "heap_mem h4 (p3 + 10) = 0xBB" using m3 [of 0] m3 [of 10] h4(3) by simp_all
  note G = heap_get_stats_cells [OF rep] heap_get_stats_cells [OF h6(2)]
  have h2': "h2\<lparr>heap_mem := memset p2 0xBB 256 (memset p1 0xAA 64 (heap_mem h2))\<rparr> = h2'" by (simp add: h2'_def m2_def)
  have "app_heap_test_main h = Ok (0,
      lit ''[ok] '' @ line ''kmalloc(64)'' @ lit ''[ok] '' @ line ''kmalloc(256)'' @ lit ''[ok] '' @ line ''krealloc(256->512)'' @
      lit ''[ok] '' @ line ''krealloc preserves first byte'' @ lit ''[ok] '' @ line ''krealloc preserves data'' @
      lit ''[ok] '' @ line ''free bytes recovered'' @ line ''heap_test: PASS'', h6)"
    unfolding app_heap_test_main_def G(1) rbind_simps prod.case p1(1) p2(1) Let_def
    using nz h2' realloc h5(1) h6(1) bytes by (simp add: expect_def G(2))
  then show ?thesis using h6(2) by blast
qed

text \<open>
  C39: On a heap that is one free block, as \<open>heap_init\<close> leaves it, the program \<open>heap_test\<close> passes: every
  check succeeds, a block that \<open>krealloc\<close> moves keeps its bytes, the program returns 0, and the heap is
  one free block again.
\<close>

theorem heap_test_passes:
  assumes "heap_rep h [(16368, True)]"
  shows "\<exists>h'. app_heap_test_main h = Ok (0,
      lit ''[ok] '' @ line ''kmalloc(64)'' @ lit ''[ok] '' @ line ''kmalloc(256)'' @ lit ''[ok] '' @ line ''krealloc(256->512)'' @
      lit ''[ok] '' @ line ''krealloc preserves first byte'' @ lit ''[ok] '' @ line ''krealloc preserves data'' @
      lit ''[ok] '' @ line ''free bytes recovered'' @ line ''heap_test: PASS'', h') \<and> heap_rep h' [(16368, True)]"
  by (rule heap_test_run [OF assms])

theorem heap_test_passes_witness:
  "\<exists>out h'. app_heap_test_main fresh_heap = Ok (0, out, h') \<and> heap_rep h' [(16368, True)]"
  using heap_test_passes [OF fresh_heap(1)] by blast

section \<open>Two programs that echo\<close>

lemma separated_words:
  "concat (map (\<lambda>i. f i @ (if i + 1 < n then [c] else [])) [1..<n]) =
   concat (map (\<lambda>i. (if i > 1 then [c] else []) @ f i) [1..<n])"
proof (induction n)
  case (Suc n)
  have "concat (map (\<lambda>i. f i @ (if i + 1 < Suc n then [c] else [])) [1..<n]) =
      concat (map (\<lambda>i. f i @ (if i + 1 < n then [c] else [])) [1..<n]) @ (if n > 1 then [c] else [])"
  proof (cases "n > 1")
    case True
    then have r: "[1..<n] = [1..<n - 1] @ [n - 1]" using upt_Suc_append [of 1 "n - 1"] by simp
    have m: "map (\<lambda>i. f i @ (if i + 1 < Suc n then [c] else [])) [1..<n - 1] =
        map (\<lambda>i. f i @ (if i + 1 < n then [c] else [])) [1..<n - 1]" by auto
    show ?thesis unfolding r map_append m using True by simp
  qed simp
  then show ?case using Suc.IH by (cases "n > 1"; cases "n = 1"; cases "n = 0") simp_all
qed simp

lemma echo_main_cmd: "app_echo_main argv = (0, cmd_echo argv)"
  using separated_words [of "\<lambda>i. argv ! i" "length argv" ch_space] by (simp add: app_echo_main_def cmd_echo_def)

text \<open>
  The builtin \<open>echo\<close> and the program \<open>echo\<close> print the same text for every argument vector, although one
  writes the separating space before an argument and the other after it.
\<close>

theorem echo_programs_agree: "app_echo_main argv = (0, cmd_echo argv)"
  by (rule echo_main_cmd)

section \<open>The program that creates threads\<close>

text \<open>What the threads created so far look like, and what they have left alone.\<close>

definition spawned :: "u32 \<Rightarrow> u32 \<Rightarrow> nat \<Rightarrow> sched \<Rightarrow> sched \<Rightarrow> bool" where
  "spawned worker i k s s' \<longleftrightarrow>
     sched_ok s' \<and> thread_count s' = thread_count s + int k \<and> current_tid s' = current_tid s \<and>
     (\<forall>j. 0 \<le> j \<and> j < thread_count s \<longrightarrow> thread_at j s' = thread_at j s) \<and>
     (\<forall>j < k. let t = thread_at (thread_count s + int j) s'
        in th_state t = THREAD_RUNNABLE \<and> th_entry t = worker \<and> th_arg t = i + of_nat j + 1)"

lemma create_spawned:
  assumes "sched_ok s" and "worker \<noteq> 0"
  shows "\<exists>r s'. thread_create bootstrap name worker (i + 1) s = Ok (r, s') \<and>
    (r = -1 \<and> spawned worker i 0 s s' \<or> 0 \<le> r \<and> spawned worker i 1 s s')"
proof -
  have wf: "sched_wf s" and st: "stacks_ok s" using assms(1) by (simp_all add: sched_ok_def)
  have inv: "heap_inv (sc_heap s)" using st by (simp add: stacks_ok_def)
  obtain r s' where c: "thread_create bootstrap name worker (i + 1) s = Ok (r, s')"
    and spec: "r = -1 \<and> thread_count s' = thread_count s \<and> current_tid s' = current_tid s \<and>
       (\<forall>j. 0 \<le> j \<and> j < thread_count s \<longrightarrow> thread_at j s' = thread_at j s) \<or>
     r = thread_count s \<and> created worker (i + 1) s s'"
    using thread_create_spec [OF sched_wfD(1,2) [OF wf] inv, of bootstrap name worker "i + 1"] by blast
  have ok: "sched_ok s'" by (rule sched_step_ok [OF sched_step.creates [OF c] assms(1)])
  show ?thesis using c spec ok sched_wfD(2) [OF wf]
    by (intro exI [of _ r] exI [of _ s']) (auto simp: spawned_def created_def Let_def)
qed

lemma spawned_trans:
  assumes "spawned worker i 1 s u" and "spawned worker (i + 1) k u s'" and "1 \<le> thread_count s"
  shows "spawned worker i (Suc k) s s'"
proof -
  have "let t = thread_at (thread_count s + int j) s'
      in th_state t = THREAD_RUNNABLE \<and> th_entry t = worker \<and> th_arg t = i + of_nat j + 1" if "j < Suc k" for j
  proof (cases j)
    case 0
    then show ?thesis using assms by (simp add: spawned_def Let_def)
  next
    case (Suc m)
    then have j: "thread_count s + int j = thread_count u + int m" and "m < k"
      using assms(1) that by (simp_all add: spawned_def)
    then show ?thesis using assms(2) unfolding spawned_def Let_def j by (simp add: Suc algebra_simps)
  qed
  then show ?thesis using assms unfolding spawned_def by auto
qed

lemma spawn_loop_spawns:
  assumes "sched_ok s" and "worker \<noteq> 0"
  shows "\<exists>k r s'. spawn_loop bootstrap worker n i s = Ok (r, s') \<and> spawned worker i k s s' \<and>
    (k = n \<and> r = None \<or> k < n \<and> r = Some (i + of_nat k + 1))"
  using assms(1)
proof (induction n arbitrary: i s)
  case 0
  then show ?case by (simp add: spawned_def)
next
  case (Suc n)
  have one: "1 \<le> thread_count s" using Suc.prems sched_wfD(2) by (auto simp: sched_ok_def)
  obtain t u where c: "thread_create bootstrap (Some (lit ''worker'')) worker (i + 1) s = Ok (t, u)"
    and spec: "t = -1 \<and> spawned worker i 0 s u \<or> 0 \<le> t \<and> spawned worker i 1 s u"
    using create_spawned [OF Suc.prems assms(2)] by blast
  show ?case
  proof (cases "t < 0")
    case True
    then show ?thesis using c spec by (intro exI [of _ 0] exI [of _ "Some (i + 1)"] exI [of _ u]) auto
  next
    case False
    then have u: "spawned worker i 1 s u" using spec by auto
    then have "sched_ok u" by (simp add: spawned_def)
    from Suc.IH [OF this, of "i + 1"] obtain k r s' where
      l: "spawn_loop bootstrap worker n (i + 1) u = Ok (r, s')" and s': "spawned worker (i + 1) k u s'"
      and r: "k = n \<and> r = None \<or> k < n \<and> r = Some (i + 1 + of_nat k + 1)" by blast
    have "spawned worker i (Suc k) s s'" by (rule spawned_trans [OF u s' one])
    then show ?thesis using c False l r
      by (intro exI [of _ "Suc k"] exI [of _ r] exI [of _ s']) (auto simp: algebra_simps)
  qed
qed

text \<open>
  C40: \<open>spawn n\<close> creates worker threads one after the other and stops at the first failure. Those created are
  runnable, enter the worker and carry the numbers from 1; earlier threads, the running one included, stay as
  they were and the scheduler's invariant holds. The message and the value returned tell which of the two
  happened.
\<close>

theorem spawn_creates_workers:
  assumes "sched_ok s" and "worker \<noteq> 0"
  shows "\<exists>k r out s'. app_spawn_main bootstrap worker [lit ''spawn'', print_u32 n] s = Ok (r, out, s') \<and>
    spawned worker 0 k s s' \<and>
    (k = unat n \<and> r = 0 \<and> out = lit ''spawned '' @ print_u32 n @ line '' thread(s)'' \<or>
     k < unat n \<and> r = 1 \<and> out = lit ''spawn failed at thread '' @ print_u32 (of_nat k + 1) @ [ch_nl])"
proof -
  have "sched_parse_u32 (print_u32 n) = Some n"
    using parse_digits_value [OF print_u32_digits(1), of n 0] print_u32_value [of n] print_u32_digits(2)
    by (simp add: sched_parse_disk disk_parse_u32_def dec_value_def)
  moreover obtain k r s' where "spawn_loop bootstrap worker (unat n) 0 s = Ok (r, s')" "spawned worker 0 k s s'"
    and "k = unat n \<and> r = None \<or> k < unat n \<and> r = Some (of_nat k + 1)"
    using spawn_loop_spawns [OF assms, of bootstrap "unat n" 0] by auto
  ultimately show ?thesis by (intro exI [of _ k]) (auto simp: app_spawn_main_def)
qed

theorem spawn_creates_workers_witness:
  "\<exists>k out s'. app_spawn_main 0x200000 0x300000 [lit ''spawn'', print_u32 40] boot_sched = Ok (1, out, s') \<and>
    spawned 0x300000 0 k boot_sched s' \<and> k < 32"
proof -
  have "sched_ok boot_sched" "(0x300000 :: u32) \<noteq> 0" by (rule boot_sched) simp
  from spawn_creates_workers [OF this, of "0x200000" 40] obtain k r out s' where
    run: "app_spawn_main 0x200000 0x300000 [lit ''spawn'', print_u32 40] boot_sched = Ok (r, out, s')"
    and s': "spawned 0x300000 0 k boot_sched s'" and r: "k = 40 \<or> r = 1" by auto
  have "sched_wf s'" "thread_count s' = 1 + int k" using s' by (simp_all add: spawned_def sched_ok_def)
  then have "k < 32" using sched_wfD(3) [of s'] by simp
  then show ?thesis using run s' r by auto
qed

end
