(* ===== verification/Machine.thy ===== *)
theory Machine
  imports Boot_Files Kernel Interrupts Console_Spec Ata_Pio Sched Shell
begin

unbundle bit_operations_syntax

text \<open>
  The whole kernel: one record with the state of every component, and \<open>kmain\<close> (\<open>kernel/kernel.c\<close>) as the
  sequence of its steps over it. The memory as the boot loader leaves it, with its block and the modules, is
  \<open>mc_ram\<close>: the console looks for the framebuffer in it, the memory manager reads the map of the memory, the
  boot module file system reads the modules. The console's copy changes in the frame, the heap's in the
  window of the heap; neither is where the loader's data is. No interrupt is taken before \<open>kmain\<close> waits for one.
\<close>

section \<open>State\<close>

text \<open>The heap, with the frames and the page tables below it, belongs to the scheduler's state.\<close>

record 'd machine =
  mc_ram :: mem
  mc_console :: "'d console"
  mc_sched :: sched
  mc_files :: "(boot_node, boot_state) vfs"
  mc_disks :: "(ata_ctx, 'd) registry"
  mc_idt :: idt_state
  mc_timer :: pit
  mc_keys :: keyboard
  mc_shell :: shell
  mc_interrupts :: bool

text \<open>The addresses that the linker fixes.\<close>

record kernel_image =
  im_start :: u32
  im_end :: u32
  im_page_directory :: u32
  im_idt :: u32
  im_exceptions :: "u32 list"
  im_irq0 :: u32
  im_irq1 :: u32
  im_initrd :: u32

abbreviation mc_heap :: "'d machine \<Rightarrow> heap" where "mc_heap mc \<equiv> sc_heap (mc_sched mc)"

definition set_heap :: "heap \<Rightarrow> 'd machine \<Rightarrow> 'd machine" where
  "set_heap h mc = mc\<lparr>mc_sched := (mc_sched mc)\<lparr>sc_heap := h\<rparr>\<rparr>"

section \<open>Texts\<close>

definition pmm_init_text :: "pmm \<Rightarrow> u8 list" where
  "pmm_init_text p =
     lit ''Memory map: managed bytes='' @ print_u32 (managed_bytes p) @ lit '', frames='' @ print_u32 (total_frames p) @ [ch_nl]"

definition pmm_dump_stats :: "pmm \<Rightarrow> u8 list" where
  "pmm_dump_stats p =
     lit ''PMM: total='' @ print_u32 (total_frames p) @ lit '' free='' @ print_u32 (free_frames p) @
     lit '' used='' @ print_u32 (used_frames p) @ [ch_nl]"

definition serial_print_u64_hex :: "u64 \<Rightarrow> u8 list" where
  "serial_print_u64_hex n =
     lit ''0x'' @ map (\<lambda>i. lit ''0123456789ABCDEF'' ! unat (drop_bit (60 - 4 * i) n AND 0xF)) [0..<16]"

text \<open>What \<open>paging_init\<close> writes on the serial line when it returns.\<close>

definition paging_log :: "(u64 \<times> u32 \<times> u32 \<times> u32 \<times> u32) option \<Rightarrow> u8 list" where
  "paging_log fb =
     (case fb of
        None \<Rightarrow> line ''paging: no active framebuffer backend''
      | Some (addr, pitch, w, h, bpp) \<Rightarrow>
          lit ''paging: framebuffer addr='' @ serial_print_u64_hex addr @ lit '' w='' @ print_u32 w @
          lit '' h='' @ print_u32 h @ lit '' pitch='' @ print_u32 pitch @ lit '' bpp='' @ print_u32 bpp @ [ch_nl] @
          (if addr > 0xFFFFFFFF \<or> (ucast pitch * ucast h :: u64) > 0xFFFFFFFF
           then line ''paging: framebuffer mapping skipped (outside 32-bit range)''
           else line ''paging: framebuffer identity map ok''))"

definition paging_text :: "u32 \<Rightarrow> u8 list" where
  "paging_text phys_limit = lit ''Paging: enabled, identity mapped bytes='' @ print_u32 phys_limit @ [ch_nl]"

section \<open>The steps of kmain\<close>

definition says :: "'d ports \<Rightarrow> u8 list \<Rightarrow> 'd machine \<Rightarrow> 'd machine res" where
  "says p s mc = rbind (console_print p s (mc_console mc)) (\<lambda>k. Ok (mc\<lparr>mc_console := k\<rparr>))"

definition start_console :: "'d ports \<Rightarrow> fb_font \<Rightarrow> u32 \<Rightarrow> u32 \<Rightarrow> 'd machine \<Rightarrow> 'd machine res" where
  "start_console p font mb_magic mb_info_addr mc =
     (let k = (mc_console mc)\<lparr>con_fb := (con_fb (mc_console mc))\<lparr>fb_mem := mc_ram mc\<rparr>\<rparr>
      in rbind (console_init p font mb_magic mb_info_addr k) (\<lambda>k. Ok (mc\<lparr>mc_console := k\<rparr>)))"

definition start_pmm :: "'d ports \<Rightarrow> kernel_image \<Rightarrow> u32 \<Rightarrow> u32 \<Rightarrow> 'd machine \<Rightarrow> 'd machine res" where
  "start_pmm p im mb_magic mb_info_addr mc =
     rbind (pmm_init (mc_ram mc) (im_start im) (im_end im) mb_magic mb_info_addr (heap_pmm (mc_heap mc))) (\<lambda>pm.
     rbind (says p (pmm_init_text pm) (set_heap ((mc_heap mc)\<lparr>heap_pmm := pm\<rparr>) mc)) (says p (pmm_dump_stats pm)))"

definition start_paging :: "'d ports \<Rightarrow> kernel_image \<Rightarrow> 'd machine \<Rightarrow> 'd machine res" where
  "start_paging p im mc =
     (let limit = pmm_get_max_phys_addr (heap_pmm (mc_heap mc))
      in rbind (paging_init (frame_of (mc_console mc)) (im_page_directory im) limit (heap_pg (mc_heap mc))) (\<lambda>pg.
         rbind (to_serial p (paging_log (console_get_framebuffer (mc_console mc))) (mc_console mc)) (\<lambda>k.
           says p (paging_text limit) (set_heap ((mc_heap mc)\<lparr>heap_pg := pg\<rparr>) (mc\<lparr>mc_console := k\<rparr>)))))"

definition start_heap :: "'d machine \<Rightarrow> 'd machine res" where
  "start_heap mc = rbind (heap_init (mc_heap mc)) (\<lambda>h. Ok (set_heap h mc))"

definition test_memory :: "'d ports \<Rightarrow> 'd machine \<Rightarrow> 'd machine res" where
  "test_memory p mc = rbind (memory_smoke_test (mc_heap mc)) (\<lambda>(out, h). says p out (set_heap h mc))"

definition start_files :: "'d ports \<Rightarrow> kernel_image \<Rightarrow> u32 \<Rightarrow> u32 \<Rightarrow> 'd machine \<Rightarrow> 'd machine res" where
  "start_files p im mb_magic mb_info_addr mc =
     (let v = mc_files mc; v = v\<lparr>fs_state := (fst (fs_state v), (fst (snd (fs_state v)), mc_ram mc))\<rparr>
      in rbind (kmain_files (im_initrd im) mb_magic mb_info_addr v) (\<lambda>(out, v). says p out (mc\<lparr>mc_files := v\<rparr>)))"

definition start_disks :: "'d ports \<Rightarrow> 'd machine \<Rightarrow> 'd machine res" where
  "start_disks p mc =
     rbind (says p (line ''Init: Block devices...'') mc) (\<lambda>mc.
     rbind (ata_pio_discover p block_init (con_dev (mc_console mc))) (\<lambda>(out, reg, d).
       says p out (mc\<lparr>mc_disks := reg, mc_console := (mc_console mc)\<lparr>con_dev := d\<rparr>\<rparr>)))"

definition start_interrupts :: "'d ports \<Rightarrow> kernel_image \<Rightarrow> 'd machine \<Rightarrow> 'd machine res" where
  "start_interrupts p im mc =
     rbind (says p (line ''Init: IDT + PIC + Keyboard + Scheduler...'') mc) (\<lambda>mc.
       case isr_install (im_exceptions im) (im_irq0 im) (im_irq1 im) p
              (idt_init (im_idt im) (mc_idt mc), mc_timer mc, con_dev (mc_console mc)) of
         (t, timer, d) \<Rightarrow>
           Ok (mc\<lparr>mc_idt := t, mc_timer := timer, mc_console := (mc_console mc)\<lparr>con_dev := d\<rparr>,
                  mc_keys := keyboard_init, mc_sched := sched_init (mc_sched mc), mc_interrupts := True\<rparr>))"

text \<open>A call that the shell makes; \<open>exec\<close> stands for \<open>shell_execute_line\<close>.\<close>

definition perform :: "'d ports \<Rightarrow> (u8 list \<Rightarrow> 'd machine \<Rightarrow> 'd machine res) \<Rightarrow> shell_call \<Rightarrow> 'd machine \<Rightarrow> 'd machine res" where
  "perform p exec c mc =
     (let k = mc_console mc; on_term = (\<lambda>f. Ok (mc\<lparr>mc_console := k\<lparr>con_term := f (con_term k)\<rparr>\<rparr>))
      in case c of
           Set_Input_Line l n cur \<Rightarrow> on_term (terminal_set_input_line (Some l) n cur)
         | Set_Prompt s \<Rightarrow> on_term (terminal_set_prompt s)
         | Scroll_Lines delta \<Rightarrow> on_term (terminal_scroll_lines delta)
         | Terminal_Putc ch \<Rightarrow> on_term (terminal_putc ch)
         | Console_Putc ch \<Rightarrow> rbind (console_putc p ch k) (\<lambda>k. Ok (mc\<lparr>mc_console := k\<rparr>))
         | Console_Print s \<Rightarrow> says p s mc
         | Execute_Line l \<Rightarrow> exec l mc)"

definition in_order :: "('a \<Rightarrow> 'a res) list \<Rightarrow> 'a \<Rightarrow> 'a res" where
  "in_order fs x = fold (\<lambda>f r. rbind r f) fs (Ok x)"

definition start_shell :: "'d ports \<Rightarrow> (u8 list \<Rightarrow> 'd machine \<Rightarrow> 'd machine res) \<Rightarrow> 'd machine \<Rightarrow> 'd machine res" where
  "start_shell p exec mc =
     (let fb = console_using_framebuffer (mc_console mc)
      in rbind (if fb then says p (line ''Framebuffer-Konsole aktiv (UEFI/GOP).'') mc else Ok mc) (\<lambda>mc.
         rbind (says p (line ''OK. Tippe 'help' und druecke Enter.'') mc) (\<lambda>mc.
         rbind (shell_init fb (mc_shell mc)) (\<lambda>(s, calls).
           in_order (map (perform p exec) calls) (mc\<lparr>mc_shell := s\<rparr>)))))"

text \<open>\<open>kmain\<close> up to the loop in which it waits for interrupts.\<close>

definition kmain ::
  "'d ports \<Rightarrow> (u8 list \<Rightarrow> 'd machine \<Rightarrow> 'd machine res) \<Rightarrow> fb_font \<Rightarrow> kernel_image \<Rightarrow> u32 \<Rightarrow> u32 \<Rightarrow> 'd machine \<Rightarrow> 'd machine res" where
  "kmain p exec font im mb_magic mb_info_addr =
     in_order
       [start_console p font mb_magic mb_info_addr,
        says p (line ''RoninOS kernel startet!''),
        says p (line ''Init: PMM...''),
        start_pmm p im mb_magic mb_info_addr,
        says p (line ''Init: Paging...''),
        start_paging p im,
        says p (line ''Init: Heap...''),
        start_heap,
        test_memory p,
        start_files p im mb_magic mb_info_addr,
        start_disks p,
        start_interrupts p im,
        start_shell p exec]"

end
