(* ===== verification/Machine_Spec.thy ===== *)
theory Machine_Spec
  imports Machine Ata_Spec Shell_Spec
begin

unbundle bit_operations_syntax

text \<open>The boot of the whole kernel: every step returns, and the machine that waits for interrupts is in order.\<close>

section \<open>Printing never fails\<close>

definition console_good :: "'d console \<Rightarrow> bool" where
  "console_good k \<longleftrightarrow> (g_backend k = CONSOLE_BACKEND_FB \<longrightarrow> fb_inv (con_fb k) \<and> displays (con_fb k))"

definition plain :: "u8 list \<Rightarrow> bool" where
  "plain s \<longleftrightarrow> 27 \<notin> set s"

lemma plain_simps [simp]:
  "plain []" "plain (c # s) \<longleftrightarrow> c \<noteq> 27 \<and> plain s" "plain (s @ t) \<longleftrightarrow> plain s \<and> plain t"
  by (auto simp: plain_def)

lemma write_chars_plain: "plain s \<Longrightarrow> \<exists>t'. write_chars s t = Ok t'"
proof (induction s arbitrary: t)
  case (Cons c s)
  then have "parse_ansi_code (g_theme t) (c # s) = Ok None" by (auto simp: parse_ansi_code_def split: list.splits)
  then show ?case using Cons by (subst write_chars.simps) simp
qed (simp add: write_chars.simps)

lemma console_print_good:
  assumes "uart_line p uart" and "console_good k" and "plain s"
  shows "\<exists>f t e. console_print p s k = Ok (k\<lparr>con_fb := f, con_term := t, con_dev := e\<rparr>) \<and>
    line_took p uart s (con_dev k) e \<and> console_good (k\<lparr>con_fb := f, con_term := t, con_dev := e\<rparr>)"
proof (cases "g_backend k = CONSOLE_BACKEND_FB")
  case True
  then obtain f e where "console_print p s k = Ok (k\<lparr>con_fb := f, con_dev := e\<rparr>)" "line_took p uart s (con_dev k) e"
    "fb_inv f" "displays f"
    using console_print_framebuffer [OF assms(1) True, of s] assms(2) by (auto simp: console_good_def)
  then show ?thesis
    by (intro exI [of _ f] exI [of _ "con_term k"] exI [of _ e]) (cases k, simp add: console_good_def)
next
  case False
  obtain t where t: "write_chars s (con_term k) = Ok t" using write_chars_plain [OF assms(3)] by blast
  obtain e where e: "to_serial p s (k\<lparr>con_term := terminal_render t\<rparr>) = Ok (k\<lparr>con_term := terminal_render t, con_dev := e\<rparr>)"
    "line_took p uart s (con_dev k) e"
    using to_serial_returns [OF assms(1), of s "k\<lparr>con_term := terminal_render t\<rparr>"] by auto
  then show ?thesis using False t
    by (intro exI [of _ "con_fb k"] exI [of _ "terminal_render t"] exI [of _ e])
      (cases k, simp add: console_print_def terminal_write_def console_good_def)
qed

text \<open>What printing leaves as it was: everything but the screen, and what else hangs on the ports than the serial line.\<close>

definition printed :: "'d ports \<Rightarrow> 'd machine \<Rightarrow> 'd machine \<Rightarrow> bool" where
  "printed p mc mc' \<longleftrightarrow> console_good (mc_console mc') \<and>
     (\<exists>f t e. port_run p com1_ports {} (con_dev (mc_console mc)) e \<and>
       mc' = mc\<lparr>mc_console := (mc_console mc)\<lparr>con_fb := f, con_term := t, con_dev := e\<rparr>\<rparr>)"

lemma says_printed:
  assumes "uart_line p uart" and "console_good (mc_console mc)" and "plain s"
  shows "\<exists>mc'. says p s mc = Ok mc' \<and> printed p mc mc'"
proof -
  from console_print_good [OF assms] obtain f t e where
    "console_print p s (mc_console mc) = Ok ((mc_console mc)\<lparr>con_fb := f, con_term := t, con_dev := e\<rparr>)"
    "line_took p uart s (con_dev (mc_console mc)) e"
    "console_good ((mc_console mc)\<lparr>con_fb := f, con_term := t, con_dev := e\<rparr>)" by blast
  then show ?thesis
    unfolding says_def printed_def line_took_def
    by (intro exI [of _ "mc\<lparr>mc_console := (mc_console mc)\<lparr>con_fb := f, con_term := t, con_dev := e\<rparr>\<rparr>"] conjI
        exI [of _ f] exI [of _ t] exI [of _ e]) simp_all
qed

text \<open>The other devices do not notice the serial line.\<close>

lemma com1_pics:
  assumes "pic_pair p view" and "port_run p com1_ports {} d e"
  shows "view e = view d"
proof -
  have "port \<notin> {0x20, 0x21, 0xA0, 0xA1}" if "port - COM1_PORT < 8" for port using that by auto
  then show ?thesis
    using run_keeps [OF assms(2), where P = "\<lambda>e. view e = view d"] assms(1) by (simp add: pic_pair_def)
qed

lemma ports_apart:
  "port - COM1_PORT < 8 \<Longrightarrow> \<not> of_channel ATA_PRIMARY_IO ATA_PRIMARY_CTRL port"
  "port - COM1_PORT < 8 \<Longrightarrow> \<not> of_channel ATA_SECONDARY_IO ATA_SECONDARY_CTRL port"
  "of_channel ATA_PRIMARY_IO ATA_PRIMARY_CTRL port \<Longrightarrow> \<not> of_channel ATA_SECONDARY_IO ATA_SECONDARY_CTRL port"
proof -
  have shift: "\<not> q + of_nat n < 8" if "q < 8" "8 \<le> n" "n < 0xFF00" for q :: u16 and n
  proof -
    have "unat q < 8" using that(1) by (simp add: word_less_nat_alt)
    moreover have "unat (of_nat n :: u16) = n" using that(3) by (simp add: unat_of_nat)
    ultimately have "unat (q + of_nat n) = unat q + n" using that(3) by (simp add: unat_word_ariths)
    then show ?thesis using that(2) by (simp add: word_less_nat_alt)
  qed
  have apart: "\<not> port - b < 8" if "port - a < 8" "a - b = of_nat n" "8 \<le> n" "n < 0xFF00" for a b and n :: nat
  proof -
    have e: "port - b = port - a + of_nat n" unfolding that(2) [symmetric] by simp
    show ?thesis unfolding e by (rule shift [OF that(1,3,4)])
  qed
  have ctrl: "\<not> (0x3F6 :: u16) - 0x3F8 < 8" "\<not> (0x376 :: u16) - 0x3F8 < 8" "\<not> (0x376 :: u16) - 0x1F0 < 8" "\<not> (0x3F6 :: u16) - 0x170 < 8"
    by code_simp+
  show "\<not> of_channel ATA_PRIMARY_IO ATA_PRIMARY_CTRL port" if "port - COM1_PORT < 8"
    using that ctrl(1) apart [OF that, of "0x1F0" "0x208"] unfolding of_channel_def by auto
  show "\<not> of_channel ATA_SECONDARY_IO ATA_SECONDARY_CTRL port" if "port - COM1_PORT < 8"
    using that ctrl(2) apart [OF that, of "0x170" "0x288"] unfolding of_channel_def by auto
  show "\<not> of_channel ATA_SECONDARY_IO ATA_SECONDARY_CTRL port" if "of_channel ATA_PRIMARY_IO ATA_PRIMARY_CTRL port"
    using that ctrl(3,4) apart [of "0x1F0" "0x170" "0x80"] unfolding of_channel_def by auto
qed

lemma com1_channel:
  assumes "ata_channel p io ctrl present view" and "(io, ctrl) \<in> {(ATA_PRIMARY_IO, ATA_PRIMARY_CTRL), (ATA_SECONDARY_IO, ATA_SECONDARY_CTRL)}"
    and "port_run p com1_ports {} d e" and "av_quiet (view d)"
  shows "av_quiet (view e)"
  using channel_other_ports [OF assms(1,3,4)] assms(2,4) ports_apart(1,2) by auto

lemma printed_fields:
  assumes "printed p mc mc'"
  shows "mc_ram mc' = mc_ram mc" "mc_sched mc' = mc_sched mc" "mc_files mc' = mc_files mc" "mc_idt mc' = mc_idt mc"
    "mc_timer mc' = mc_timer mc" "mc_shell mc' = mc_shell mc" "mc_interrupts mc' = mc_interrupts mc"
    "console_good (mc_console mc')" "frame_of (mc_console mc') = frame_of (mc_console mc)"
    "g_backend (mc_console mc') = g_backend (mc_console mc)"
    "port_run p com1_ports {} (con_dev (mc_console mc)) (con_dev (mc_console mc'))"
  using assms by (auto simp: printed_def frame_of_def console_get_framebuffer_def)

lemma in_order_simps [simp]: "in_order [] x = Ok x" "in_order (f # fs) x = rbind (f x) (in_order fs)"
proof -
  have "fold (\<lambda>f r. rbind r f) fs (Fail e) = Fail e" for e by (induction fs) simp_all
  then show "in_order (f # fs) x = rbind (f x) (in_order fs)" by (cases "f x") (simp_all add: in_order_def)
qed (simp add: in_order_def)

lemma in_order_one [simp]: "in_order [f] = f"
proof
  fix x show "in_order [f] x = f x" by (cases "f x") simp_all
qed

lemma in_order_append: "in_order (fs @ gs) x = rbind (in_order fs x) (in_order gs)"
proof (induction fs arbitrary: x)
  case (Cons f fs)
  then show ?case by (cases "f x") simp_all
qed simp

section \<open>The texts are plain\<close>

lemma plain_lit [simp]:
  "plain (lit s) \<longleftrightarrow> list_all (\<lambda>c. of_char c \<noteq> (27 :: u8)) s" "plain (line s) \<longleftrightarrow> list_all (\<lambda>c. of_char c \<noteq> (27 :: u8)) s"
  by (auto simp: line_def plain_def lit_def list_all_iff)

lemma plain_digit [simp]: "48 + ucast (n mod 10) \<noteq> (27 :: u8)" for n :: u32
proof -
  have "unat (48 + ucast (n mod 10) :: u8) \<noteq> 27" unfolding digit_value by simp
  moreover have "unat (27 :: u8) = 27" by simp
  ultimately show ?thesis by metis
qed

lemma plain_print_u32 [simp]: "plain (print_u32 n)"
proof -
  have "plain (digits_rev k m)" for k m by (induction k m rule: digits_rev.induct) simp_all
  then show ?thesis by (simp add: print_u32_def plain_def)
qed

lemma plain_c_text: "plain s \<Longrightarrow> plain (c_text s)"
  by (auto simp: plain_def c_text_def dest: set_takeWhileD)

lemma plain_size_gib [simp]: "plain (size_gib n)"
proof -
  define frac where "frac = ((n mod 2097152) * 100) div 2097152"
  have r: "unat (n mod 2097152) < 2097152" by (simp add: unat_mod)
  then have "unat ((n mod 2097152) * 100) = unat (n mod 2097152) * 100" by (simp add: unat_word_ariths)
  then have f: "unat frac < 100" using r by (simp add: frac_def unat_div less_mult_imp_div_less)
  then have "unat (frac div 10) < 10" by (simp add: unat_div less_mult_imp_div_less)
  then have "frac div 10 = (frac div 10) mod 10" by (simp add: word_unat_eq_iff unat_mod)
  then have "48 + ucast (frac div 10) \<noteq> (27 :: u8)" using plain_digit [of "frac div 10"] by simp
  then show ?thesis by (simp add: size_gib_def Let_def flip: frac_def)
qed

section \<open>Looking for disks\<close>

text \<open>The table has fewer than eight entries as long as the four places are looked at.\<close>

lemma detect_one_returns:
  assumes "ata_channel p io ctrl present view" and "av_quiet (view d)" and "plain out" and "unat (blockdev_count reg) < 8"
  shows "\<exists>out' reg' d'. detect_one p io ctrl slave (out, reg, d) = Ok (out', reg', d') \<and> plain out' \<and>
    unat (blockdev_count reg') \<le> unat (blockdev_count reg) + 1 \<and> av_quiet (view d') \<and>
    port_run p {port. of_channel io ctrl port} {io} d d'"
proof -
  let ?ctx = "\<lparr>at_io = io, at_ctrl = ctrl, at_slave = slave\<rparr>"
  obtain r d' where r: "ata_identify p ?ctx d = Ok (r, d')" "av_quiet (view d')" "port_run p {port. of_channel io ctrl port} {io} d d'"
    using identify_returns [of p ?ctx present view d] assms(1,2) by auto
  show ?thesis
  proof (cases r)
    case None
    then show ?thesis using r assms(3) by (simp add: detect_one_def)
  next
    case (Some sectors)
    have "unat (blockdev_count reg) \<in> {0, 1, 2, 3, 4, 5, 6, 7}" using assms(4) by auto
    moreover have "blockdev_count reg = of_nat (unat (blockdev_count reg))" by simp
    ultimately have "blockdev_count reg \<in> {0, 1, 2, 3, 4, 5, 6, 7}" by fastforce
    then have "plain (bd_name (ata_dev p ?ctx sectors (block_count reg)))"
      by (auto simp: ata_dev_def block_count_def plain_def lit_def)
    from plain_c_text [OF this] have name: "plain (c_text (bd_name (ata_dev p ?ctx sectors (block_count reg))))" .
    have "unat (blockdev_count reg + 1) = unat (blockdev_count reg) + 1" using assms(4) by (simp add: unat_word_ariths)
    then show ?thesis using r Some assms(3) name
      by (auto simp: detect_one_def Let_def block_register_def)
  qed
qed

text \<open>The two channels of the machine, without a transfer.\<close>

definition two_channels :: "'d ports \<Rightarrow> (bool \<Rightarrow> bool) \<Rightarrow> ('d \<Rightarrow> ata_view) \<Rightarrow> (bool \<Rightarrow> bool) \<Rightarrow> ('d \<Rightarrow> ata_view) \<Rightarrow> bool" where
  "two_channels p present1 disk1 present2 disk2 \<longleftrightarrow>
     ata_channel p ATA_PRIMARY_IO ATA_PRIMARY_CTRL present1 disk1 \<and> ata_channel p ATA_SECONDARY_IO ATA_SECONDARY_CTRL present2 disk2"

lemma com1_channels:
  assumes "two_channels p present1 disk1 present2 disk2" and "port_run p com1_ports {} d e"
    and "av_quiet (disk1 d) \<and> av_quiet (disk2 d)"
  shows "av_quiet (disk1 e) \<and> av_quiet (disk2 e)"
  using com1_channel [of p ATA_PRIMARY_IO ATA_PRIMARY_CTRL present1 disk1 d e]
    com1_channel [of p ATA_SECONDARY_IO ATA_SECONDARY_CTRL present2 disk2 d e] assms by (simp add: two_channels_def)

lemma discover_returns:
  assumes "two_channels p present1 disk1 present2 disk2" and "av_quiet (disk1 d) \<and> av_quiet (disk2 d)"
  shows "\<exists>out reg d'. ata_pio_discover p block_init d = Ok (out, reg, d') \<and> plain out \<and> unat (blockdev_count reg) \<le> 4 \<and>
    av_quiet (disk1 d') \<and> av_quiet (disk2 d')"
proof -
  have c: "ata_channel p ATA_PRIMARY_IO ATA_PRIMARY_CTRL present1 disk1" "ata_channel p ATA_SECONDARY_IO ATA_SECONDARY_CTRL present2 disk2"
    using assms(1) by (simp_all add: two_channels_def)
  note D1 = detect_one_returns [OF c(1)] and D2 = detect_one_returns [OF c(2)]
  have own: "of_channel io ctrl io" for io ctrl by (simp add: of_channel_def)
  have apart: "port \<in> {port. of_channel ATA_SECONDARY_IO ATA_SECONDARY_CTRL port} \<union> {ATA_SECONDARY_IO} \<Longrightarrow>
      \<not> of_channel ATA_PRIMARY_IO ATA_PRIMARY_CTRL port"
    "port \<in> {port. of_channel ATA_PRIMARY_IO ATA_PRIMARY_CTRL port} \<union> {ATA_PRIMARY_IO} \<Longrightarrow>
      \<not> of_channel ATA_SECONDARY_IO ATA_SECONDARY_CTRL port" for port
    using ports_apart(3) [of port] own by auto
  have other1: "av_quiet (disk1 e)" if "port_run p {port. of_channel ATA_SECONDARY_IO ATA_SECONDARY_CTRL port} {ATA_SECONDARY_IO} d e"
    "av_quiet (disk1 d)" for d e
    using channel_other_ports [OF c(1) that apart(1)] that(2) by simp
  have other2: "av_quiet (disk2 e)" if "port_run p {port. of_channel ATA_PRIMARY_IO ATA_PRIMARY_CTRL port} {ATA_PRIMARY_IO} d e"
    "av_quiet (disk2 d)" for d e
    using channel_other_ports [OF c(2) that apart(2)] that(2) by simp
  obtain o1 r1 d1 where 1: "detect_one p ATA_PRIMARY_IO ATA_PRIMARY_CTRL False ([], block_init, d) = Ok (o1, r1, d1)"
    "plain o1" "unat (blockdev_count r1) \<le> 1" "av_quiet (disk1 d1)" "av_quiet (disk2 d1)"
    using D1 [of d "[]" block_init False] other2 assms(2) by (auto simp: block_init_def)
  obtain o2 r2 d2 where 2: "detect_one p ATA_PRIMARY_IO ATA_PRIMARY_CTRL True (o1, r1, d1) = Ok (o2, r2, d2)"
    "plain o2" "unat (blockdev_count r2) \<le> 2" "av_quiet (disk1 d2)" "av_quiet (disk2 d2)"
    using D1 [of d1 o1 r1 True] other2 1 by fastforce
  obtain o3 r3 d3 where 3: "detect_one p ATA_SECONDARY_IO ATA_SECONDARY_CTRL False (o2, r2, d2) = Ok (o3, r3, d3)"
    "plain o3" "unat (blockdev_count r3) \<le> 3" "av_quiet (disk1 d3)" "av_quiet (disk2 d3)"
    using D2 [of d2 o2 r2 False] other1 2 by fastforce
  obtain o4 r4 d4 where 4: "detect_one p ATA_SECONDARY_IO ATA_SECONDARY_CTRL True (o3, r3, d3) = Ok (o4, r4, d4)"
    "plain o4" "unat (blockdev_count r4) \<le> 4" "av_quiet (disk1 d4)" "av_quiet (disk2 d4)"
    using D2 [of d3 o3 r3 True] other1 3 by fastforce
  show ?thesis using 1(1) 2(1) 3(1) 4 by (simp add: ata_pio_discover_def)
qed

section \<open>The console\<close>

text \<open>
  What the loader's block says of the screen: there is no framebuffer tag, or the first one describes a usable
  mode of at most 256 MiB below the end of the address space.
\<close>

definition loader_screen :: "fb_font \<Rightarrow> mem \<Rightarrow> u32 \<Rightarrow> u32 list \<Rightarrow> u32 option \<Rightarrow> bool" where
  "loader_screen font m info ks fb \<longleftrightarrow>
     framebuffer_tags m info 8 ks fb \<and>
     (case fb of
        None \<Rightarrow> True
      | Some t \<Rightarrow> tag_mode_ok font m t \<and>
          (let n = unat (framebuffer_pitch m t) * unat (framebuffer_height m t)
           in n \<le> 0x10000000 \<and> unat (ucast (framebuffer_addr m t) :: u32) + n + 4095 < 2 ^ 32))"

definition frame_small :: "framebuffer option \<Rightarrow> bool" where
  "frame_small fb \<longleftrightarrow> (case fb_range fb of None \<Rightarrow> True | Some (a, n) \<Rightarrow> unat n \<le> 0x10000000 \<and> range_fits a n)"

lemma start_console_good:
  assumes "uart_line p uart" and "loader_screen font (mc_ram mc) info ks fb" and "info \<noteq> 0"
    and "length (g_cells (con_fb (mc_console mc))) = 131072"
  shows "\<exists>k. start_console p font MULTIBOOT2_BOOTLOADER_MAGIC info mc = Ok (mc\<lparr>mc_console := k\<rparr>) \<and> console_good k \<and>
    frame_small (frame_of k) \<and> (console_using_framebuffer k \<longleftrightarrow> fb \<noteq> None) \<and>
    port_run p com1_ports {} (con_dev (mc_console mc)) (con_dev k)"
proof -
  define k0 where "k0 = (mc_console mc)\<lparr>con_fb := (con_fb (mc_console mc))\<lparr>fb_mem := mc_ram mc\<rparr>\<rparr>"
  have m: "fb_mem (con_fb k0) = mc_ram mc" "length (g_cells (con_fb k0)) = 131072" using assms(4) by (simp_all add: k0_def)
  have run: "start_console p font MULTIBOOT2_BOOTLOADER_MAGIC info mc =
      rbind (console_init p font MULTIBOOT2_BOOTLOADER_MAGIC info k0) (\<lambda>k. Ok (mc\<lparr>mc_console := k\<rparr>))"
    by (simp add: start_console_def k0_def)
  have tags: "framebuffer_tags (fb_mem (con_fb k0)) info 8 ks fb" using assms(2) by (simp add: loader_screen_def m)
  show ?thesis
  proof (cases fb)
    case None
    have "find_mb2_framebuffer (fb_mem (con_fb k0)) MULTIBOOT2_BOOTLOADER_MAGIC info = Ok None"
      using find_framebuffer_tags [OF tags] assms(3) None by (simp add: find_mb2_framebuffer_def)
    moreover define k1 where "k1 = k0\<lparr>g_fb_phys_addr := 0, g_fb_pitch := 0, g_fb_width := 0, g_fb_height := 0, g_fb_bpp := 0,
        g_fb_valid := False, con_dev := serial_init p (con_dev k0)\<rparr>\<lparr>g_backend := CONSOLE_BACKEND_TERMINAL,
        con_term := terminal_init (Some THEME_RONIN_DARK) (con_term k0)\<rparr>"
    ultimately have "console_init p font MULTIBOOT2_BOOTLOADER_MAGIC info k0 =
        to_serial p (line ''console: no multiboot2 framebuffer tag, using VGA terminal'') k1"
      by (simp add: console_init_def Let_def use_terminal_def)
    moreover obtain e where e: "to_serial p (line ''console: no multiboot2 framebuffer tag, using VGA terminal'') k1 = Ok (k1\<lparr>con_dev := e\<rparr>)"
      "line_took p uart (line ''console: no multiboot2 framebuffer tag, using VGA terminal'') (con_dev k1) e"
      using to_serial_returns [OF assms(1)] .
    moreover have "con_dev k1 = serial_init p (con_dev (mc_console mc))" by (simp add: k1_def k0_def)
    then have "port_run p com1_ports {} (con_dev (mc_console mc)) e"
      using run_trans [OF line_took_run [OF e(2)]] serial_init_run by metis
    moreover have "g_backend (k1\<lparr>con_dev := e\<rparr>) = CONSOLE_BACKEND_TERMINAL" "con_dev (k1\<lparr>con_dev := e\<rparr>) = e" by (simp_all add: k1_def)
    ultimately obtain k where "console_init p font MULTIBOOT2_BOOTLOADER_MAGIC info k0 = Ok k" "g_backend k = CONSOLE_BACKEND_TERMINAL"
      "port_run p com1_ports {} (con_dev (mc_console mc)) (con_dev k)" by metis
    then show ?thesis using None run
      by (intro exI [of _ k]) (simp add: console_good_def frame_small_def frame_of_def console_get_framebuffer_def fb_range_def
          console_using_framebuffer_def)
  next
    case (Some t)
    let ?n = "unat (framebuffer_pitch (mc_ram mc) t) * unat (framebuffer_height (mc_ram mc) t)"
    have mode: "tag_mode_ok font (mc_ram mc) t"
      and n: "?n \<le> 0x10000000" "unat (ucast (framebuffer_addr (mc_ram mc) t) :: u32) + ?n + 4095 < 2 ^ 32"
      using assms(2) Some by (simp_all add: loader_screen_def Let_def)
    obtain k where k: "console_init p font MULTIBOOT2_BOOTLOADER_MAGIC info k0 = Ok k" "g_backend k = CONSOLE_BACKEND_FB"
      "fb_inv (con_fb k)" "displays (con_fb k)"
      "console_get_framebuffer k = Some (framebuffer_addr (mc_ram mc) t, framebuffer_pitch (mc_ram mc) t,
        framebuffer_width (mc_ram mc) t, framebuffer_height (mc_ram mc) t, ucast (framebuffer_bpp (mc_ram mc) t))"
      "port_run p com1_ports {} (con_dev k0) (con_dev k)"
      using console_init_framebuffer [OF assms(1) tags [unfolded Some] assms(3), of font] mode m by auto
    have "frame_of k = Some \<lparr>fb_addr = framebuffer_addr (mc_ram mc) t, fb_pitch = framebuffer_pitch (mc_ram mc) t,
        fb_height = framebuffer_height (mc_ram mc) t\<rparr>" by (simp add: frame_of_def k(5))
    then obtain c where "fb_range (frame_of k) = Some (ucast (framebuffer_addr (mc_ram mc) t), c)" "unat c = ?n"
      using frame_range [of k] mode n(1) by (force simp: tag_mode_ok_def)
    moreover have "con_dev k0 = con_dev (mc_console mc)" by (simp add: k0_def)
    ultimately show ?thesis using k run n Some
      by (intro exI [of _ k]) (simp add: console_good_def frame_small_def range_fits_def console_using_framebuffer_def)
  qed
qed

section \<open>Memory\<close>

lemma paging_init_small:
  assumes "pool_ok (pg_pool pg)" and "unat limit \<le> 0x20000000" and "frame_small fb"
  shows "\<exists>pg'. paging_init fb dir limit pg = Ok pg' \<and> paging_wf pg' \<and> card (pd_present pg' \<union> {96..99}) \<le> 256"
proof (cases "fb_range fb")
  case None
  then show ?thesis using paging_init_dirs [OF assms(1)] assms(2) by (simp add: word_le_nat_alt)
next
  case (Some r)
  then obtain a n where r: "fb_range fb = Some (a, n)" by (cases r) simp
  have n: "unat n \<le> 0x10000000" "range_fits a n" using assms(3) r by (simp_all add: frame_small_def)
  note card = card_two_ranges [OF assms(2) n(1), of a]
  have fits: "range_fits 0 limit" using assms(2) by (simp add: range_fits_def)
  have fin: "finite (range_dirs 0 limit \<union> range_dirs a n \<union> {96..99})" by simp
  have dirs: "card (range_dirs 0 limit) \<le> 256" "card (range_dirs 0 limit \<union> range_dirs a n) \<le> 256"
    by (rule order.trans [OF card_mono [OF fin] card(1)]; blast)+
  let ?blank = "pg\<lparr>pg_dir := replicate 1024 0, pg_tables_used := 0\<rparr>"
  obtain s1 where s1: "map_range_identity 0 limit PAGE_WRITE ?blank = Ok (0, s1)" "paging_wf s1" "pd_present s1 = range_dirs 0 limit"
    using map_range_identity_spec [OF blank_wf(1) [OF assms(1)] fits, of PAGE_WRITE] dirs(1) by (auto simp: blank_wf)
  obtain s2 where s2: "map_range_identity a n PAGE_WRITE s1 = Ok (0, s2)" "paging_wf s2"
    "pd_present s2 = range_dirs 0 limit \<union> range_dirs a n"
    using map_range_identity_spec [OF s1(2) n(2), of PAGE_WRITE] dirs(2) s1(3) by auto
  let ?pg = "s2\<lparr>pg_cr3 := dir, pg_enabled := True\<rparr>"
  have "paging_init fb dir limit pg = Ok ?pg"
    using s1(1) s2(1) r by (simp add: paging_init_def map_framebuffer_range)
  moreover have "paging_wf ?pg = paging_wf s2" "pd_present ?pg = pd_present s2"
    by (simp_all add: paging_wf_def pd_present_def pd_base_def [abs_def] pool_slot_def)
  ultimately show ?thesis using s2(2,3) card(1) by simp
qed

text \<open>What the steps that set up the memory leave as it was.\<close>

definition only_memory :: "'d ports \<Rightarrow> 'd machine \<Rightarrow> 'd machine \<Rightarrow> bool" where
  "only_memory p mc mc' \<longleftrightarrow> port_run p com1_ports {} (con_dev (mc_console mc)) (con_dev (mc_console mc')) \<and>
     console_good (mc_console mc') \<and> g_backend (mc_console mc') = g_backend (mc_console mc) \<and>
     mc_ram mc' = mc_ram mc \<and> mc_files mc' = mc_files mc \<and> mc_shell mc' = mc_shell mc \<and>
     mc_idt mc' = mc_idt mc \<and> mc_timer mc' = mc_timer mc \<and> threads (mc_sched mc') = threads (mc_sched mc)"

lemma set_heap_fields [simp]:
  "mc_heap (set_heap h mc) = h" "mc_console (set_heap h mc) = mc_console mc" "mc_ram (set_heap h mc) = mc_ram mc"
  "mc_files (set_heap h mc) = mc_files mc" "mc_shell (set_heap h mc) = mc_shell mc" "mc_idt (set_heap h mc) = mc_idt mc"
  "mc_timer (set_heap h mc) = mc_timer mc" "threads (mc_sched (set_heap h mc)) = threads (mc_sched mc)"
  by (simp_all add: set_heap_def)

abbreviation memory_steps :: "'d ports \<Rightarrow> kernel_image \<Rightarrow> u32 \<Rightarrow> ('d machine \<Rightarrow> 'd machine res) list" where
  "memory_steps p im info \<equiv>
     [start_pmm p im MULTIBOOT2_BOOTLOADER_MAGIC info, says p (line ''Init: Paging...''), start_paging p im,
      says p (line ''Init: Heap...''), start_heap, test_memory p]"

lemma memory_part:
  assumes uart: "uart_line p uart" and good: "console_good (mc_console mc)"
    and block: "mb2_block (mc_ram mc) info ts ents" "info \<noteq> 0"
    and small: "frame_small (frame_of (mc_console mc))" and pool: "pool_ok (pg_pool (heap_pg (mc_heap mc)))"
  shows "\<exists>pm. pmm_init (mc_ram mc) (im_start im) (im_end im) MULTIBOOT2_BOOTLOADER_MAGIC info (heap_pmm (mc_heap mc)) = Ok pm \<and>
    (if 4 \<le> card (free_set pm)
     then \<exists>mc'. in_order (memory_steps p im info) mc = Ok mc' \<and> heap_rep (mc_heap mc') [(16368, True)] \<and> only_memory p mc mc'
     else in_order (memory_steps p im info) mc = Fail (Panic ''heap_init: out of physical memory''))"
proof -
  note says = says_printed [OF uart]
  obtain pm where pm: "pmm_init (mc_ram mc) (im_start im) (im_end im) MULTIBOOT2_BOOTLOADER_MAGIC info (heap_pmm (mc_heap mc)) = Ok pm"
    "pmm_inv pm" "unat (pmm_get_max_phys_addr pm) \<le> 0x20000000" "card (frames_avail pm) = card (free_set pm)"
    using pmm_init_inv [OF block] by blast
  define mc1 where "mc1 = set_heap ((mc_heap mc)\<lparr>heap_pmm := pm\<rparr>) mc"
  have g1: "console_good (mc_console mc1)" using good by (simp add: mc1_def)
  obtain mc2 where mc2: "says p (pmm_init_text pm) mc1 = Ok mc2" "printed p mc1 mc2"
    using says [OF g1, of "pmm_init_text pm"] by (auto simp: pmm_init_text_def)
  obtain mc3 where mc3: "says p (pmm_dump_stats pm) mc2 = Ok mc3" "printed p mc2 mc3"
    using says [OF printed_fields(8) [OF mc2(2)], of "pmm_dump_stats pm"] by (auto simp: pmm_dump_stats_def)
  obtain mc4 where mc4: "says p (line ''Init: Paging...'') mc3 = Ok mc4" "printed p mc3 mc4"
    using says [OF printed_fields(8) [OF mc3(2)], of "line ''Init: Paging...''"] by auto
  note f = printed_fields [OF mc2(2)] printed_fields [OF mc3(2)] printed_fields [OF mc4(2)]
  have h4: "mc_heap mc4 = (mc_heap mc)\<lparr>heap_pmm := pm\<rparr>" using f(2,13,24) by (simp add: mc1_def)
  have frame: "frame_of (mc_console mc4) = frame_of (mc_console mc)" using f(9,20,31) by (simp add: mc1_def)
  obtain pg where pg: "paging_init (frame_of (mc_console mc4)) (im_page_directory im) (pmm_get_max_phys_addr pm) (heap_pg (mc_heap mc4)) = Ok pg"
    "paging_wf pg" "card (pd_present pg \<union> {96..99}) \<le> 256"
    using paging_init_small [OF _ pm(3) small [folded frame]] pool h4 by auto
  obtain e where e: "to_serial p (paging_log (console_get_framebuffer (mc_console mc4))) (mc_console mc4) = Ok ((mc_console mc4)\<lparr>con_dev := e\<rparr>)"
    "line_took p uart (paging_log (console_get_framebuffer (mc_console mc4))) (con_dev (mc_console mc4)) e"
    using to_serial_returns [OF uart] .
  define k5 where "k5 = (mc_console mc4)\<lparr>con_dev := e\<rparr>"
  define mc5 where "mc5 = set_heap ((mc_heap mc4)\<lparr>heap_pg := pg\<rparr>) (mc4\<lparr>mc_console := k5\<rparr>)"
  have g5: "console_good (mc_console mc5)" using f(30) by (simp add: mc5_def k5_def console_good_def)
  obtain mc6 where mc6: "says p (paging_text (pmm_get_max_phys_addr pm)) mc5 = Ok mc6" "printed p mc5 mc6"
    using says [OF g5, of "paging_text (pmm_get_max_phys_addr pm)"] by (auto simp: paging_text_def)
  obtain mc7 where mc7: "says p (line ''Init: Heap...'') mc6 = Ok mc7" "printed p mc6 mc7"
    using says [OF printed_fields(8) [OF mc6(2)], of "line ''Init: Heap...''"] by auto
  note f' = printed_fields [OF mc6(2)] printed_fields [OF mc7(2)]
  have h7: "heap_pmm (mc_heap mc7) = pm" "heap_pg (mc_heap mc7) = pg" using f'(2,13) h4 by (simp_all add: mc5_def)
  have "start_paging p im mc4 = Ok mc6"
    using pg(1) mc6(1) h4 unfolding mc5_def k5_def by (simp add: start_paging_def Let_def e(1))
  moreover have "start_pmm p im MULTIBOOT2_BOOTLOADER_MAGIC info mc = Ok mc3"
    using pm(1) mc2(1) mc3(1) by (simp add: start_pmm_def mc1_def)
  ultimately have run: "in_order (memory_steps p im info) mc = rbind (start_heap mc7) (test_memory p)"
    using mc4(1) mc7(1) by simp
  have kept: "only_memory p mc mc7"
  proof -
    have "port_run p com1_ports {} (con_dev (mc_console mc)) e"
      using run_trans [OF line_took_run [OF e(2)] run_trans [OF f(33) run_trans [OF f(22) f(11)]]] by (simp add: mc1_def)
    then have "port_run p com1_ports {} (con_dev (mc_console mc)) (con_dev (mc_console mc7))"
      using run_trans [OF run_trans [OF f'(22) f'(11)]] by (simp add: mc5_def k5_def)
    then show ?thesis using f f' by (simp add: only_memory_def mc5_def k5_def mc1_def)
  qed
  show ?thesis
  proof (cases "4 \<le> card (free_set pm)")
    case False
    then have "heap_init (mc_heap mc7) = Fail (Panic ''heap_init: out of physical memory'')"
      using heap_init_starved [of "mc_heap mc7"] pm(2,4) pg(2,3) h7 by auto
    then show ?thesis using False pm(1) run by (auto simp: start_heap_def)
  next
    case True
    then obtain h where h: "heap_init (mc_heap mc7) = Ok h" "heap_rep h [(16368, True)]"
      using heap_init_spec [of "mc_heap mc7"] pm(2,4) pg(2,3) h7 by auto
    from smoke_test_passes [OF h(2)] obtain h' where
      h': "memory_smoke_test h = Ok (line ''Memory smoke: kmalloc/kfree...'' @ line ''Memory smoke: PASS'', h')"
        "heap_rep h' [(16368, True)]" by blast
    have "console_good (mc_console (set_heap h' (set_heap h mc7)))" using kept by (simp add: only_memory_def)
    from says [OF this, of "line ''Memory smoke: kmalloc/kfree...'' @ line ''Memory smoke: PASS''"] obtain mc8 where
      mc8: "says p (line ''Memory smoke: kmalloc/kfree...'' @ line ''Memory smoke: PASS'') (set_heap h' (set_heap h mc7)) = Ok mc8"
        "printed p (set_heap h' (set_heap h mc7)) mc8" by auto
    note f8 = printed_fields [OF mc8(2)]
    have "port_run p com1_ports {} (con_dev (mc_console mc)) (con_dev (mc_console mc8))"
      using run_trans [OF f8(11)] kept by (simp add: only_memory_def)
    then have "heap_rep (mc_heap mc8) [(16368, True)]" "only_memory p mc mc8"
      using f8 h'(2) kept by (simp_all add: only_memory_def)
    then show ?thesis using True pm(1) run h h' mc8(1) by (auto simp: start_heap_def test_memory_def)
  qed
qed

section \<open>The other components\<close>

lemma kmain_files_plain:
  assumes "kmain_files ctx mg a v = Ok (out, v')"
  shows "plain out"
proof -
  have mount: "plain out" if "initrd_mount_on ops get put ctx mg a w = Ok (out, w')" for ops get put out and w w' :: "('h, 's) vfs"
    using that by (auto simp: initrd_mount_on_def Let_def split: prod.splits if_splits option.splits)
  show ?thesis using assms mount by (auto simp: kmain_files_def Let_def rbind_Ok_iff split: prod.splits)
qed

lemma start_interrupts_lines:
  assumes "uart_line p uart" and "pic_pair p view" and "console_good (mc_console mc)" and "length (threads (mc_sched mc)) = 32"
    and "heap_rep (mc_heap mc) [(16368, True)]"
  shows "\<exists>mc'. start_interrupts p im mc = Ok mc' \<and> console_good (mc_console mc') \<and>
    g_backend (mc_console mc') = g_backend (mc_console mc) \<and> mc_files mc' = mc_files mc \<and> mc_shell mc' = mc_shell mc \<and>
    mc_interrupts mc' \<and> (\<forall>n<16. line_open (view (con_dev (mc_console mc'))) n \<longleftrightarrow> n = 0 \<or> n = 1) \<and>
    gate_calls (idt (mc_idt mc') ! 32) (im_irq0 im) \<and> gate_calls (idt (mc_idt mc') ! 33) (im_irq1 im) \<and>
    heap_rep (mc_heap mc') [(16368, True)] \<and> sched_ok (mc_sched mc') \<and> thread_count (mc_sched mc') = 1"
proof -
  obtain mc1 where mc1: "says p (line ''Init: IDT + PIC + Keyboard + Scheduler...'') mc = Ok mc1" "printed p mc mc1"
    using says_printed [OF assms(1,3), of "line ''Init: IDT + PIC + Keyboard + Scheduler...''"] by auto
  note f = printed_fields [OF mc1(2)]
  obtain t timer d where i: "isr_install (im_exceptions im) (im_irq0 im) (im_irq1 im) p
      (idt_init (im_idt im) (mc_idt mc1), mc_timer mc1, con_dev (mc_console mc1)) = (t, timer, d)" using prod_cases3 by blast
  note L = isr_install_lines [OF assms(2) i]
  note G = isr_install_gates(1) [OF i]
  have lines: "line_open (view d) n \<longleftrightarrow> n = 0 \<or> n = 1" if "n < 16" for n
    by (rule line_open_masks [OF that L(1,2)])
  have "sched_wf (sched_init (mc_sched mc1))" using sched_init_wf f(2) assms(4) by simp
  moreover have inv: "heap_inv (mc_heap mc)" using assms(5) by (auto simp: heap_inv_def)
  then have "stacks_ok (sched_init (mc_sched mc1))" using f(2) by (auto simp: stacks_ok_def sched_init_def)
  ultimately have ok: "sched_ok (sched_init (mc_sched mc1))" by (simp add: sched_ok_def)
  have "gate_calls (idt t ! 32) (im_irq0 im)" "gate_calls (idt t ! 33) (im_irq1 im)" using G [of 32] G [of 33] by simp_all
  then show ?thesis
    using mc1(1) i lines ok f assms(5)
    by (auto simp: start_interrupts_def console_good_def sched_init_def)
qed

lemma start_shell_ready:
  assumes "uart_line p uart" and "console_good (mc_console mc)" and "mc_shell mc = shell_boot"
  shows "\<exists>mc'. start_shell p exec mc = Ok mc' \<and> shell_ok (mc_shell mc') \<and> editor_of (mc_shell mc') = editor_init \<and>
    mc_sched mc' = mc_sched mc \<and> mc_files mc' = mc_files mc \<and> mc_idt mc' = mc_idt mc \<and> mc_interrupts mc' = mc_interrupts mc \<and>
    g_backend (mc_console mc') = g_backend (mc_console mc) \<and>
    (pic_pair p view \<longrightarrow> view (con_dev (mc_console mc')) = view (con_dev (mc_console mc)))"
proof -
  let ?fb = "console_using_framebuffer (mc_console mc)"
  obtain mc1 where mc1: "(if ?fb then says p (line ''Framebuffer-Konsole aktiv (UEFI/GOP).'') mc else Ok mc) = Ok mc1"
    "mc1 = mc \<or> printed p mc mc1"
    using says_printed [OF assms(1,2), of "line ''Framebuffer-Konsole aktiv (UEFI/GOP).''"] by (cases ?fb) auto
  then have f1: "mc_sched mc1 = mc_sched mc" "mc_files mc1 = mc_files mc" "mc_idt mc1 = mc_idt mc" "mc_interrupts mc1 = mc_interrupts mc"
    "mc_shell mc1 = shell_boot" "console_good (mc_console mc1)" "g_backend (mc_console mc1) = g_backend (mc_console mc)"
    "pic_pair p view \<longrightarrow> view (con_dev (mc_console mc1)) = view (con_dev (mc_console mc))"
    using printed_fields [of p mc mc1] com1_pics [of p view] assms(2,3) by auto
  obtain mc2 where mc2: "says p (line ''OK. Tippe 'help' und druecke Enter.'') mc1 = Ok mc2" "printed p mc1 mc2"
    using says_printed [OF assms(1) f1(6), of "line ''OK. Tippe 'help' und druecke Enter.''"] by auto
  note f2 = printed_fields(1-10) [OF mc2(2)]
  obtain s calls where s: "shell_init ?fb shell_boot = Ok (s, calls)" "shell_ok s" "editor_of s = editor_init"
    using shell_init_ok by blast
  have calls: "calls = (if ?fb then simple_prompt else [Set_Prompt (lit ''ronin> ''), Set_Input_Line (g_line s) (g_len s) (g_cursor s)])"
    using s(1) by (auto simp: shell_init_def rbind_Ok_iff redraw_input_def Let_def)
  obtain mc3 where mc3: "says p (lit ''ronin> '') (mc2\<lparr>mc_shell := s\<rparr>) = Ok mc3" "printed p (mc2\<lparr>mc_shell := s\<rparr>) mc3"
    using says_printed [OF assms(1), of "mc2\<lparr>mc_shell := s\<rparr>" "lit ''ronin> ''"] f2(8) by auto
  note f3 = printed_fields(1-10) [OF mc3(2)]
  have v: "pic_pair p view \<longrightarrow> view (con_dev (mc_console mc2)) = view (con_dev (mc_console mc1))"
    "pic_pair p view \<longrightarrow> view (con_dev (mc_console mc3)) = view (con_dev (mc_console mc2))"
    using com1_pics [OF _ printed_fields(11) [OF mc2(2)], of view] com1_pics [OF _ printed_fields(11) [OF mc3(2)], of view] by simp_all
  show ?thesis
  proof (cases ?fb)
    case True
    then have "start_shell p exec mc = Ok mc3"
      using mc1(1) mc2(1) mc3(1) s(1) f2(6) f1(5) calls by (simp add: start_shell_def Let_def perform_def simple_prompt_def)
    then show ?thesis using f1 f2 f3 s(2,3) v by simp
  next
    case False
    then show ?thesis
      using mc1(1) mc2(1) s f1 f2 v calls by (simp add: start_shell_def Let_def perform_def)
  qed
qed

text \<open>The steps after the memory, and what they lead to.\<close>

abbreviation later_steps where
  "later_steps p exec im info \<equiv>
     [start_files p im MULTIBOOT2_BOOTLOADER_MAGIC info, start_disks p, start_interrupts p im, start_shell p exec]"

definition ready :: "('d \<Rightarrow> pic_view) \<Rightarrow> kernel_image \<Rightarrow> 'd machine \<Rightarrow> bool" where
  "ready view im mc \<longleftrightarrow>
     heap_rep (mc_heap mc) [(16368, True)] \<and> sched_ok (mc_sched mc) \<and> thread_count (mc_sched mc) = 1 \<and>
     mc_interrupts mc \<and> (\<forall>n<16. line_open (view (con_dev (mc_console mc))) n \<longleftrightarrow> n = 0 \<or> n = 1) \<and>
     gate_calls (idt (mc_idt mc) ! 32) (im_irq0 im) \<and> gate_calls (idt (mc_idt mc) ! 33) (im_irq1 im) \<and>
     app_ls_main [lit ''ls'', lit ''/''] (mc_files mc) = Ok (0, line ''initrd/'') \<and>
     shell_ok (mc_shell mc) \<and> editor_of (mc_shell mc) = editor_init"

lemma later_part:
  assumes ports: "uart_line p uart" "pic_pair p view" "two_channels p present1 disk1 present2 disk2"
    and quiet: "av_quiet (disk1 (con_dev (mc_console mc))) \<and> av_quiet (disk2 (con_dev (mc_console mc)))"
    and mc: "console_good (mc_console mc)" "mc_shell mc = shell_boot" "length (threads (mc_sched mc)) = 32"
      "heap_rep (mc_heap mc) [(16368, True)]"
    and info: "info \<noteq> 0" "tag_chain (mc_ram mc) (info + info_total_size (mc_ram mc) info - 8) (info + 8) ts"
      "\<forall>t\<in>set ts. tag_type (mc_ram mc) t = 3 \<longrightarrow> read_string (mc_ram mc) (t + 16) = Some (cmd t)"
  shows "\<exists>mc'. in_order (later_steps p exec im info) mc = Ok mc' \<and> ready view im mc' \<and>
    g_backend (mc_console mc') = g_backend (mc_console mc)"
proof -
  note says = says_printed [OF ports(1)]
  define v where "v = (mc_files mc)\<lparr>fs_state := (fst (fs_state (mc_files mc)), (fst (snd (fs_state (mc_files mc))), mc_ram mc))\<rparr>"
  have ram: "snd (snd (fs_state v)) = mc_ram mc" by (simp add: v_def)
  obtain out v' g gi where v': "kmain_files (im_initrd im) MULTIBOOT2_BOOTLOADER_MAGIC info v = Ok (out, v')"
    "mounts v' = [root_mount, initrd_mount (im_initrd im), no_mount, no_mount]" "fs_state v' = (g, (gi, mc_ram mc))" "ramfs_inv g"
    "kids g 0 = [1]" "node_name g 1 = lit ''initrd''" "rn_is_dir (g ! 1)"
    using kmain_files_state [OF ram info] by blast
  have ls: "app_ls_main [lit ''ls'', lit ''/''] v' = Ok (0, line ''initrd/'')" by (rule ls_root [OF v'(2-7)])
  obtain mc1 where mc1: "says p out (mc\<lparr>mc_files := v'\<rparr>) = Ok mc1" "printed p (mc\<lparr>mc_files := v'\<rparr>) mc1"
    using says [of "mc\<lparr>mc_files := v'\<rparr>" out] mc(1) kmain_files_plain [OF v'(1)] by auto
  note f1 = printed_fields [OF mc1(2), simplified]
  have files: "start_files p im MULTIBOOT2_BOOTLOADER_MAGIC info mc = Ok mc1"
    using v'(1) mc1(1) by (simp add: start_files_def v_def)
  obtain mc2 where mc2: "says p (line ''Init: Block devices...'') mc1 = Ok mc2" "printed p mc1 mc2"
    using says [OF f1(8), of "line ''Init: Block devices...''"] by auto
  note f2 = printed_fields [OF mc2(2), unfolded f1]
  have q2: "av_quiet (disk1 (con_dev (mc_console mc2))) \<and> av_quiet (disk2 (con_dev (mc_console mc2)))"
    using com1_channels [OF ports(3) f2(11) com1_channels [OF ports(3) f1(11) quiet]] .
  obtain o2 reg d where dsk: "ata_pio_discover p block_init (con_dev (mc_console mc2)) = Ok (o2, reg, d)" "plain o2"
    using discover_returns [OF ports(3) q2] by blast
  define mc3 where "mc3 = mc2\<lparr>mc_disks := reg, mc_console := (mc_console mc2)\<lparr>con_dev := d\<rparr>\<rparr>"
  have "console_good (mc_console mc3)" using f2(8) by (simp add: mc3_def console_good_def)
  from says [OF this dsk(2)] obtain mc4 where mc4: "says p o2 mc3 = Ok mc4" "printed p mc3 mc4" by auto
  note f4 = printed_fields [OF mc4(2)]
  have disks: "start_disks p mc1 = Ok mc4" using mc2(1) dsk(1) mc4(1) by (simp add: start_disks_def mc3_def)
  have m4: "length (threads (mc_sched mc4)) = 32" "heap_rep (mc_heap mc4) [(16368, True)]" "mc_shell mc4 = shell_boot"
    "mc_files mc4 = v'" "g_backend (mc_console mc4) = g_backend (mc_console mc)"
    using f4 f2 mc(2-4) by (simp_all add: mc3_def)
  obtain mc5 where mc5: "start_interrupts p im mc4 = Ok mc5" "console_good (mc_console mc5)"
    "g_backend (mc_console mc5) = g_backend (mc_console mc4)" "mc_files mc5 = mc_files mc4" "mc_shell mc5 = mc_shell mc4" "mc_interrupts mc5"
    "\<forall>n<16. line_open (view (con_dev (mc_console mc5))) n \<longleftrightarrow> n = 0 \<or> n = 1"
    "gate_calls (idt (mc_idt mc5) ! 32) (im_irq0 im)" "gate_calls (idt (mc_idt mc5) ! 33) (im_irq1 im)"
    "heap_rep (mc_heap mc5) [(16368, True)]" "sched_ok (mc_sched mc5)" "thread_count (mc_sched mc5) = 1"
    using start_interrupts_lines [OF ports(1,2) f4(8) m4(1,2), of im] by blast
  have "mc_shell mc5 = shell_boot" using mc5(5) m4(3) by simp
  from start_shell_ready [OF ports(1) mc5(2) this, of exec view] obtain mc6 where
    mc6: "start_shell p exec mc5 = Ok mc6" "shell_ok (mc_shell mc6)" "editor_of (mc_shell mc6) = editor_init"
      "mc_sched mc6 = mc_sched mc5" "mc_files mc6 = mc_files mc5" "mc_idt mc6 = mc_idt mc5" "mc_interrupts mc6 = mc_interrupts mc5"
      "g_backend (mc_console mc6) = g_backend (mc_console mc5)" "view (con_dev (mc_console mc6)) = view (con_dev (mc_console mc5))"
    using ports(2) by blast
  have "in_order (later_steps p exec im info) mc = Ok mc6" using files disks mc5(1) mc6(1) by simp
  moreover have "ready view im mc6" using mc5 mc6 m4(4) ls unfolding ready_def by simp
  ultimately show ?thesis using mc6(8) mc5(3) m4(5) by auto
qed

section \<open>Properties\<close>


section \<open>A machine\<close>

text \<open>
  The loader's block of the first example, with 3 MiB of memory, and a machine without a framebuffer: a serial line
  that is full for five reads of its status after each character, the two controllers, and one disk, the master
  of the primary channel, which is busy for three reads after a command.
\<close>

record boot_devices =
  on_pics :: pic_view
  on_line :: uart_view
  on_disk :: ata_view

abbreviation boot_drive :: "ata_view ports" where "boot_drive \<equiv> drive_ports (chs_decode 1040 16 63)"

definition boot_ports :: "boot_devices ports" where
  "boot_ports =
     \<lparr>inb = (\<lambda>port d.
        if port - COM1_PORT < 8 then (case inb uart_ports port (on_line d) of (x, v) \<Rightarrow> (x, d\<lparr>on_line := v\<rparr>))
        else if of_channel ATA_PRIMARY_IO ATA_PRIMARY_CTRL port then (case inb boot_drive port (on_disk d) of (x, v) \<Rightarrow> (x, d\<lparr>on_disk := v\<rparr>))
        else (case inb pic_ports port (on_pics d) of (x, v) \<Rightarrow> (x, d\<lparr>on_pics := v\<rparr>))),
      outb = (\<lambda>port x d.
        if port - COM1_PORT < 8 then d\<lparr>on_line := outb uart_ports port x (on_line d)\<rparr>
        else if of_channel ATA_PRIMARY_IO ATA_PRIMARY_CTRL port then d\<lparr>on_disk := outb boot_drive port x (on_disk d)\<rparr>
        else d\<lparr>on_pics := outb pic_ports port x (on_pics d)\<rparr>),
      inw = (\<lambda>port d.
        if of_channel ATA_PRIMARY_IO ATA_PRIMARY_CTRL port then (case inw boot_drive port (on_disk d) of (x, v) \<Rightarrow> (x, d\<lparr>on_disk := v\<rparr>))
        else (0xFFFF, d)),
      outw = (\<lambda>port x d.
        if of_channel ATA_PRIMARY_IO ATA_PRIMARY_CTRL port then d\<lparr>on_disk := outw boot_drive port x (on_disk d)\<rparr> else d)\<rparr>"

lemma boot_line: "uart_line boot_ports on_line"
  using uart_ports_line unfolding uart_line_def by (auto simp: boot_ports_def split_beta)

lemma boot_pics: "pic_pair boot_ports on_pics"
  by (auto simp: pic_pair_def boot_ports_def pic_ports_def of_channel_def split_beta)

text \<open>A channel whose ports lead to a device of its own follows the laws that this device follows alone.\<close>

lemma ata_channel_route:
  assumes ch: "ata_channel q io ctrl present (\<lambda>v. v)"
    and inb: "\<And>port d. of_channel io ctrl port \<Longrightarrow> fst (inb p port d) = fst (inb q port (f d)) \<and> f (snd (inb p port d)) = snd (inb q port (f d))"
    and outb: "\<And>port x d. of_channel io ctrl port \<Longrightarrow> f (outb p port x d) = outb q port x (f d)"
    and inw: "\<And>port d. of_channel io ctrl port \<Longrightarrow> fst (inw p port d) = fst (inw q port (f d)) \<and> f (snd (inw p port d)) = snd (inw q port (f d))"
    and other: "\<And>port x d. \<not> of_channel io ctrl port \<Longrightarrow> f (snd (inb p port d)) = f d \<and> f (outb p port x d) = f d \<and> f (snd (inw p port d)) = f d"
  shows "ata_channel p io ctrl present f"
proof -
  have own: "of_channel io ctrl (io + i)" if "i < 8" for i using that by (simp add: of_channel_def)
  have own: "of_channel io ctrl io" "of_channel io ctrl ctrl" "of_channel io ctrl (io + 4)" "of_channel io ctrl (io + 5)"
    "of_channel io ctrl (io + 6)" "of_channel io ctrl (io + 7)" "\<And>i. i \<in> {2, 3, 4, 5} \<Longrightarrow> of_channel io ctrl (io + i)"
    "of_channel io ctrl (io + 2)" "of_channel io ctrl (io + 3)"
    by (auto simp: of_channel_def)
  show ?thesis
    using ch unfolding ata_channel_def ata_regs_def
    by (simp add: inb [OF own(2)] inb [OF own(3)] inb [OF own(4)] inb [OF own(6)] outb [OF own(2)] outb [OF own(3)] outb [OF own(4)]
        outb [OF own(5)] outb [OF own(6)] outb [OF own(8)] outb [OF own(9)] inw [OF own(1)] other)
qed

lemma boot_disks: "two_channels boot_ports (\<lambda>slave. \<not> slave) on_disk (\<lambda>slave. False) (\<lambda>d. blank_drive)"
proof -
  have disk: "ata_channel boot_ports ATA_PRIMARY_IO ATA_PRIMARY_CTRL (\<lambda>slave. \<not> slave) on_disk"
    by (rule ata_channel_route [OF drive_ports_channel [of "chs_decode 1040 16 63"]])
      (use ports_apart(1) in \<open>auto simp: boot_ports_def split_beta\<close>)
  have none: "\<exists>y c l m h e. blank_drive = blank_drive\<lparr>av_dev := y, av_count := c, av_lo := l, av_mid := m, av_hi := h, av_err := e\<rparr>"
    "\<exists>c l m h. blank_drive = blank_drive\<lparr>av_count := c, av_lo := l, av_mid := m, av_hi := h\<rparr>"
    "blank_drive\<lparr>av_busy := av_busy blank_drive - 1\<rparr> = blank_drive" "av_in blank_drive = []"
    by (auto simp: blank_drive_def)
  have "fst (inb boot_ports (ATA_SECONDARY_IO + 7) d) = 0" for d
    by (simp add: boot_ports_def of_channel_def pic_ports_def)
  with none have "ata_channel boot_ports ATA_SECONDARY_IO ATA_SECONDARY_CTRL (\<lambda>slave. False) (\<lambda>d. blank_drive)"
    unfolding ata_channel_def ata_regs_def by simp
  with disk show ?thesis by (simp add: two_channels_def)
qed

definition boot_image :: kernel_image where
  "boot_image = \<lparr>im_start = 0x100000, im_end = 0x180000, im_page_directory = 0x140000, im_idt = 0x150000,
     im_exceptions = replicate 32 0x101000, im_irq0 = 0x102000, im_irq1 = 0x103000, im_initrd = 0x160000\<rparr>"

definition cold_machine :: "boot_devices machine" where
  "cold_machine =
     \<lparr>mc_ram = example_mem,
      mc_console = \<lparr>g_backend = CONSOLE_BACKEND_TERMINAL, g_fb_phys_addr = 0, g_fb_pitch = 0, g_fb_width = 0, g_fb_height = 0,
        g_fb_bpp = 0, g_fb_valid = False, con_fb = fbcon_zero example_mem, con_term = terminal_boot (replicate 2000 0),
        con_dev = \<lparr>on_pics = bios_pics, on_line = cold_uart, on_disk = blank_drive\<rparr>\<rparr>,
      mc_sched = \<lparr>threads = replicate 32 blank_thread, thread_count = 0, current_tid = 0, preempt_enabled = 0,
        sc_heap = raw_heap\<lparr>heap_pmm := pmm_zero, heap_pg := boot_paging\<rparr>,
        sc_cpu = \<lparr>eip = 0x100000, esp = 0x9000, ebp = 0, ebx = 0, esi = 0, edi = 0\<rparr>\<rparr>,
      mc_files = \<lparr>mounts = [], fds = [], cwd = [], fs_state = ([], (initrd_zero, example_mem))\<rparr>,
      mc_disks = block_init, mc_idt = \<lparr>idt = [], idtp_limit = 0, idtp_base = 0, idtr = None\<rparr>,
      mc_timer = \<lparr>g_ticks = 0, g_hz = 100\<rparr>, mc_keys = keyboard_init, mc_shell = shell_boot, mc_interrupts = False\<rparr>"

lemma example_frames:
  assumes "pmm_init example_mem 0x100000 0x180000 MULTIBOOT2_BOOTLOADER_MAGIC 0x1000 pmm_zero = Ok pm"
  shows "4 \<le> card (free_set pm)"
proof -
  have "(0x1000 :: u32) \<noteq> 0" by simp
  from pmm_init_total [OF example_mb2_block this, of "0x100000" "0x180000" pmm_zero] obtain s' where
    s': "pmm_init example_mem 0x100000 0x180000 MULTIBOOT2_BOOTLOADER_MAGIC 0x1000 pmm_zero = Ok s'"
    "unat (total_frames s') = 0x400"
    "free_set s' = {n. n < unat (total_frames s') \<and> available_frame example_mem [0x1008] (\<lambda>_. [0x1018]) n \<and>
      \<not> reserved_frame example_mem 0x100000 0x180000 0x1000 [0x1008] n}"
    unfolding example_top by blast
  have "free_set s' = {n. 0x180 \<le> n \<and> n < 0x400}" unfolding s'(3) unfolding s'(2) example_free ..
  moreover have "{n. 0x180 \<le> n \<and> n < 0x400} = {0x180..<0x400 :: nat}" by auto
  moreover have "s' = pm" using s'(1) assms by (simp only: res.inject)
  ultimately have "free_set pm = {0x180..<0x400}" by (simp only:)
  then show ?thesis by simp
qed


end
