(* ===== verification/Spec2Isabelle.thy ===== *)
theory Spec2Isabelle
  imports Pmm Paging CString Heap_Laws Sched Ramfs_Spec Vfs_Spec App_Fat32_Spec Shell_Spec Commands_Spec Terminal_Spec Initrd_Spec Kernel Console_Spec Ata_Spec Boot_Files Interrupts App_System_Spec Machine_Spec
begin

text \<open>
  A model of the RoninOS kernel, a 32-bit kernel in C for the i386, and the theorems that make it correct.

  \<^bold>\<open>The program.\<close> The boot loader starts \<open>kmain\<close> (\<open>kernel/kernel.c\<close>) with a Multiboot2 block. It finds a
  framebuffer or falls back to the VGA text terminal, learns the memory map, turns paging on, sets up the heap,
  mounts an in-memory file system at \<open>/\<close> and the boot modules at \<open>/initrd\<close>, looks for ATA disks, installs
  the interrupt handlers and waits. From then on all work is done in interrupt handlers: a key goes through the
  keyboard driver to the line editor, a finished line to the interpreter of commands, which runs a builtin or
  a program in the kernel's address space; a tick of the timer may switch threads.

  \<^bold>\<open>Theories.\<close>
  \<^item> \<open>Prelude\<close>: machine types, the result type \<open>res\<close> (\<open>Ok\<close>, or \<open>Fail\<close> with a panic, an endless loop or a stray
    access), C strings, lemmas on words and lists. \<open>CString\<close>: \<open>kernel/lib/string.c\<close>. \<open>Console_Text\<close>: the text a
    program prints, with its decimal numbers.
  \<^item> Memory: \<open>Multiboot\<close> (\<open>kernel/mem/multiboot2.h\<close>), \<open>Pmm\<close> (\<open>kernel/mem/pmm.c\<close>), \<open>Paging\<close>
    (\<open>kernel/mem/paging.c\<close>), \<open>Heap\<close> and \<open>Heap_Laws\<close> (\<open>kernel/heap.c\<close>). Two interfaces lie between them,
    \<open>Frame_Provider\<close> (the heap takes frames) and \<open>Block_Allocator\<close> (threads and programs take blocks).
  \<^item> Threads: \<open>Sched\<close> (\<open>kernel/sched/thread.c\<close>, \<open>switch.S\<close>), over the heap.
  \<^item> Files: \<open>Fs_Interface\<close>, the contract of \<open>vfs_fs_ops_t\<close>; \<open>Ramfs\<close>, \<open>Ramfs_Laws\<close>, \<open>Ramfs_Spec\<close>
    (\<open>kernel/fs/ramfs.c\<close>) and \<open>Initrd\<close>, \<open>Initrd_Spec\<close> (\<open>kernel/fs/initrd.c\<close>), which keep it; \<open>Vfs\<close>, \<open>Vfs_Laws\<close>,
    \<open>Vfs_Spec\<close> (\<open>kernel/fs/vfs.c\<close>), which rests on it.
  \<^item> Disks: \<open>Blockdev\<close> (\<open>kernel/block/blockdev.c\<close>), \<open>Ports\<close> (\<open>kernel/ports.h\<close>, \<open>serial.c\<close>, \<open>pic.c\<close>), \<open>Ata_Pio\<close>
    and \<open>Ata_Spec\<close> (\<open>kernel/drivers/ata_pio.c\<close>), \<open>Fat32\<close>, \<open>Fat32_Laws\<close>, \<open>Fat32_Spec\<close>, \<open>Fat32_Format\<close>,
    \<open>Fat32_Props\<close> (\<open>kernel/fs/fat32.c\<close>), \<open>App_Fat32\<close> and \<open>App_Fat32_Spec\<close> (\<open>kernel/apps/app_fat32.c\<close>).
  \<^item> Screen and keys: \<open>Fb_Console\<close>, \<open>Fb_Spec\<close> (\<open>kernel/fb_console.c\<close>), \<open>Terminal\<close>, \<open>Terminal_Spec\<close>
    (\<open>kernel/terminal/terminal.c\<close>), \<open>Console\<close>, \<open>Console_Spec\<close> (\<open>kernel/console.c\<close>), \<open>Keyboard\<close>
    (\<open>kernel/input/keyboard.c\<close>), \<open>Shell\<close>, \<open>Shell_Spec\<close> (\<open>kernel/shell/shell.c\<close>), \<open>Commands\<close>, \<open>Commands_Spec\<close>
    (\<open>kernel/shell/commands.c\<close>, \<open>kernel/apps/apps.c\<close>, \<open>kernel/pit.c\<close>).
  \<^item> Programs: \<open>App_Files\<close>, \<open>App_Files_Spec\<close> (\<open>fs\<close>, \<open>ls\<close>, \<open>cat\<close>, \<open>cd\<close>, \<open>pwd\<close>), \<open>App_System\<close>, \<open>App_System_Spec\<close>
    (\<open>echo\<close>, \<open>about\<close>, \<open>clear\<close>, \<open>disk\<close>, \<open>meminfo\<close>, \<open>heap_test\<close>, \<open>spawn\<close>, \<open>yield\<close>, \<open>ps\<close>, \<open>preempt\<close>).
  \<^item> The whole: \<open>Kernel\<close> (the memory part of the boot and its self test), \<open>Boot_Files\<close> (the file system part),
    \<open>Interrupts\<close> (\<open>kernel/idt.c\<close>, \<open>isr.c\<close>, \<open>exceptions.c\<close>, \<open>panic.c\<close>), \<open>Machine\<close> and \<open>Machine_Spec\<close>: one record
    with the state of every component, and \<open>kmain\<close> over it.

  \<^bold>\<open>How the model corresponds to the code.\<close> The statics of a file are a record with the names of the source, a
  C function is a definition of the same name that takes and returns the record. A \<open>uint32_t\<close> is a 32-bit word
  and wraps as it does in C; \<open>int\<close> is \<open>int\<close> where no claim depends on its width. Memory that is read through
  computed addresses (the Multiboot2 block, the heap, the frame) is a function from addresses to bytes; arrays
  of known extent are lists, and an index out of range is \<open>Fail Wild\<close>, never a default value. A pointer to an object is
  its index or its address, the null pointer \<open>None\<close> or 0. A \<open>panic\<close>, and a loop that never ends, are results, so
  that a theorem that an operation returns says that neither happens. Loops without a bound in the source are
  partial functions with \<open>None\<close> for not returning; loops with a counter recurse on the counter of the source.
  Port instructions and the devices behind them are parameters; what is known of a device is a hypothesis
  (\<open>serial_ready\<close>, \<open>ata_drive\<close>, \<open>pic_pair\<close>, \<open>disks_answer\<close>, \<open>sector_store\<close>), and a witness has a device that meets it.

  \<^bold>\<open>What the theorems show.\<close>
  \<^item> Memory: the frames free after the boot are exactly those of the memory map, no frame and no block of
    the heap is handed out twice, paging maps what it should and nothing else, \<open>kmalloc\<close> is first fit on the chain
    of blocks and keeps the chain and the mapping, for every request it serves.
  \<^item> Threads: in every reachable state exactly one thread runs and stacks do not overlap; yielding is round
    robin and fair, an exited thread never runs again, \<open>spawn\<close> creates what it says.
  \<^item> Files: paths are normalised to absolute ones; each file system keeps the contract and the virtual file system
    gives back what was written; the FAT32 driver refines a map from names to contents on any device that stores
    sectors, and the ATA driver is such a device on a drive that follows the protocol. The program \<open>fs\<close> refines a
    map from names to texts.
  \<^item> Screen and keys: both consoles refine an abstract screen, the line editor an abstract editor for every
    sequence of scan codes, the parser a tokenizer; every write of the console lies in mapped memory.
  \<^item> The whole: \<open>kmain\<close> returns from every step and leaves every component in order, on documented hardware and any
    well-formed block of the loader, or panics for want of memory; the modules can be listed and printed.
  \<^item> Errors: nothing below a file system mounted at \<open>/\<close> is found by its full path, the \<open>fat32\<close> command uses a
    device object after its scope, a drive that heeds the LBA bit has no sector 0 for the driver, a bus without a
    drive that reads as all ones hangs the boot, and others that the theories name where they occur.

  \<^bold>\<open>Bounds.\<close> The bounds are those of the source: 131072 frames, 256 page tables, a heap of 16 MiB, 32 threads,
  96 nodes of 512 bytes, 4 mounts, 32 descriptors, 8 devices, 512 lines of 80 cells, lines of 127 characters, a
  history of 32. The layout loop of \<open>fat32_format\<close> has its own 8 rounds, the poll of the ATA driver its 1000000.
  The list of the children of a directory is computed with one step of fuel for each of the 96 nodes; the
  invariant, that the lists of siblings have no cycle, makes it enough.

  \<^bold>\<open>Not modelled.\<close> Assembler glue other than the context switch (\<open>boot.s\<close>, the interrupt stubs, \<open>idt_load.s\<close>); the
  earlier shell and keyboard driver that the build does not compile (\<open>kernel/shell.c\<close>, \<open>kernel/keyboard.c\<close>,
  \<open>kernel/shell/shell_parse.c\<close>, \<open>shell_exec.c\<close>, \<open>shell_commands.c\<close>); the UEFI loader, which prints a text and
  halts; the overlay of a debug build. Interrupts are taken between, not within, the operations: an operation
  that disables them is atomic, and the others are called with interrupts disabled. The components have separate
  memories: the loader's block and modules, the frame and the window of the heap are taken to be disjoint.
  The text that a program prints is collected and printed at its end. A program that the shell starts is a
  definition of its own; the run of a whole session over the record of \<open>Machine\<close> is not composed.
\<close>

end
